(* ===== verification/Seq_Prelude.thy ===== *)
theory Seq_Prelude
  imports Main "HOL-Library.AList" "HOL-Library.Char_ord" "HOL-Library.List_Lexorder"
begin

text \<open>
  Shared vocabulary of the development: the error codes of
  \<^verbatim>\<open>src/types.ts\<close>, results of code that can throw, JavaScript's three-way
  comparators and \<^verbatim>\<open>Array.prototype.sort\<close>, and the generic lemmas on lists and
  association lists that the components share.

  A thrown \<^verbatim>\<open>SeqscribeError\<close> is the value \<open>Inl code\<close>; its message text
  is not modelled. JavaScript strings are modelled by their UTF-8 byte sequences (type
  \<open>string\<close>, one \<open>char\<close> per byte), for well-formed Unicode text.
\<close>

section \<open>Errors and results\<close>

datatype ErrCode =
    ERR_PROTO_VERSION | ERR_PROTOCOL | ERR_SCHEMA_MISMATCH | ERR_ACL_DENIED
  | ERR_UNKNOWN_TOPIC | ERR_UNKNOWN_VIEW | ERR_FUTURE_CURSOR | ERR_ENTRY_TOO_LARGE
  | ERR_ENTRY_ENCODING | ERR_PRE_FINALITY | ERR_OWNED_REJECT | ERR_WRITER_SEALED
  | ERR_DB_OWNED | ERR_STORAGE | ERR_MISUSE

type_synonym 'a result = "ErrCode + 'a"

definition rbind :: "'e + 'a \<Rightarrow> ('a \<Rightarrow> 'e + 'b) \<Rightarrow> 'e + 'b" where
  "rbind r f = (case r of Inl e \<Rightarrow> Inl e | Inr x \<Rightarrow> f x)"

definition guardr :: "bool \<Rightarrow> ErrCode \<Rightarrow> unit result" where
  "guardr b e = (if b then Inr () else Inl e)"

lemma rbind_simps [simp]:
  "rbind (Inl e) f = Inl e"
  "rbind (Inr x) f = f x"
  by (simp_all add: rbind_def)

lemma rbind_eq_Inr: "rbind r f = Inr y \<longleftrightarrow> (\<exists>x. r = Inr x \<and> f x = Inr y)"
  by (cases r) simp_all

lemma rbind_eq_Inl: "rbind r f = Inl e \<longleftrightarrow> r = Inl e \<or> (\<exists>x. r = Inr x \<and> f x = Inl e)"
  by (cases r) simp_all

lemma guardr_eq [simp]:
  "guardr b e = Inr u \<longleftrightarrow> b"
  "guardr b e = Inl e' \<longleftrightarrow> \<not> b \<and> e = e'"
  by (auto simp: guardr_def)

lemma guardr_True [simp]: "guardr True e = Inr ()"
  by (simp add: guardr_def)

lemma guardr_False [simp]: "guardr False e = Inl e"
  by (simp add: guardr_def)

text \<open>A chain of guards succeeds exactly when every guard is passed.\<close>

lemma if_Inl_Inr: "(if b then Inl e else x) = Inr y \<longleftrightarrow> \<not> b \<and> x = Inr y"
  by simp

definition is_ok :: "'a result \<Rightarrow> bool" where
  "is_ok r = (case r of Inl _ \<Rightarrow> False | Inr _ \<Rightarrow> True)"

lemma is_ok_simps [simp]: "is_ok (Inr x)" "\<not> is_ok (Inl e)"
  by (simp_all add: is_ok_def)

section \<open>Comparators and sorting\<close>

text \<open>
  The comparators of the code return a number of which only the sign matters
  (\<open>-1\<close>, \<open>0\<close>, \<open>1\<close>). \<open>sort_by\<close> is
  \<^verbatim>\<open>Array.prototype.sort\<close> with a comparator: a stable sort.
\<close>

fun insort_by :: "('a \<Rightarrow> 'a \<Rightarrow> int) \<Rightarrow> 'a \<Rightarrow> 'a list \<Rightarrow> 'a list" where
  "insort_by cmp x [] = [x]"
| "insort_by cmp x (y # ys) = (if cmp x y \<le> 0 then x # y # ys else y # insort_by cmp x ys)"

fun sort_by :: "('a \<Rightarrow> 'a \<Rightarrow> int) \<Rightarrow> 'a list \<Rightarrow> 'a list" where
  "sort_by cmp [] = []"
| "sort_by cmp (x # xs) = insort_by cmp x (sort_by cmp xs)"

lemma set_insort_by [simp]: "set (insort_by cmp x xs) = insert x (set xs)"
  by (induction xs) auto

lemma set_sort_by [simp]: "set (sort_by cmp xs) = set xs"
  by (induction xs) auto

lemma length_insort_by [simp]: "length (insort_by cmp x xs) = Suc (length xs)"
  by (induction xs) auto

lemma length_sort_by [simp]: "length (sort_by cmp xs) = length xs"
  by (induction xs) auto

lemma distinct_insort_by [simp]:
  "distinct (insort_by cmp x xs) \<longleftrightarrow> x \<notin> set xs \<and> distinct xs"
  by (induction xs) auto

lemma distinct_sort_by [simp]: "distinct (sort_by cmp xs) = distinct xs"
  by (induction xs) auto

text \<open>The laws a comparator must satisfy for sorting with it to make sense.\<close>

locale three_way =
  fixes cmp :: "'a \<Rightarrow> 'a \<Rightarrow> int"
  assumes cmp_eq: "cmp a b = 0 \<longleftrightarrow> a = b"
    and cmp_flip: "cmp a b < 0 \<longleftrightarrow> cmp b a > 0"
    and cmp_trans: "cmp a b < 0 \<Longrightarrow> cmp b c < 0 \<Longrightarrow> cmp a c < 0"
begin

lemma cmp_refl: "cmp a a = 0"
  by (simp add: cmp_eq)

lemma cmp_total: "cmp a b < 0 \<or> a = b \<or> cmp b a < 0"
  using cmp_eq [of a b] cmp_flip [of b a] by linarith

lemma cmp_le_iff: "cmp a b \<le> 0 \<longleftrightarrow> cmp a b < 0 \<or> a = b"
  using cmp_eq [of a b] by linarith

lemma cmp_le_flip: "cmp a b \<le> 0 \<longleftrightarrow> \<not> cmp b a < 0"
  using cmp_flip [of b a] by linarith

lemma cmp_le_trans: "cmp a b \<le> 0 \<Longrightarrow> cmp b c \<le> 0 \<Longrightarrow> cmp a c \<le> 0"
  using cmp_trans cmp_le_iff by metis

lemma cmp_le_less_trans: "cmp a b \<le> 0 \<Longrightarrow> cmp b c < 0 \<Longrightarrow> cmp a c < 0"
  using cmp_trans cmp_le_iff by metis

lemma cmp_less_le_trans: "cmp a b < 0 \<Longrightarrow> cmp b c \<le> 0 \<Longrightarrow> cmp a c < 0"
  using cmp_trans cmp_le_iff by metis

lemma cmp_antisym: "cmp a b \<le> 0 \<Longrightarrow> cmp b a \<le> 0 \<Longrightarrow> a = b"
  using cmp_flip [of a b] cmp_eq [of a b] by linarith

lemma sorted_insort_by:
  "sorted_wrt (\<lambda>a b. cmp (f a) (f b) \<le> 0) xs \<Longrightarrow>
   sorted_wrt (\<lambda>a b. cmp (f a) (f b) \<le> 0) (insort_by (\<lambda>a b. cmp (f a) (f b)) x xs)"
proof (induction xs)
  case (Cons y ys)
  then show ?case
    using cmp_le_trans cmp_le_flip by (auto simp: less_imp_le) (metis linorder_linear not_le)
qed simp

lemma sorted_sort_by:
  "sorted_wrt (\<lambda>a b. cmp (f a) (f b) \<le> 0) (sort_by (\<lambda>a b. cmp (f a) (f b)) xs)"
  by (induction xs) (simp_all add: sorted_insort_by)

text \<open>A list sorted strictly by the comparator is determined by its set.\<close>

lemma strict_sorted_unique:
  "sorted_wrt (\<lambda>a b. cmp (f a) (f b) < 0) xs \<Longrightarrow> sorted_wrt (\<lambda>a b. cmp (f a) (f b) < 0) ys \<Longrightarrow>
   set xs = set ys \<Longrightarrow> xs = ys"
proof (induction xs arbitrary: ys)
  case Nil
  then show ?case by simp
next
  case (Cons x xs)
  then obtain y ys' where ys: "ys = y # ys'" by (cases ys) auto
  have irr: "\<And>a. \<not> cmp (f a) (f a) < 0" by (simp add: cmp_refl)
  have asym: "\<And>a b. cmp a b < 0 \<Longrightarrow> \<not> cmp b a < 0" using cmp_flip by (metis less_asym)
  have "x = y"
  proof (rule ccontr)
    assume "x \<noteq> y"
    then have "x \<in> set ys'" "y \<in> set xs" using Cons.prems ys by auto
    then have "cmp (f x) (f y) < 0" "cmp (f y) (f x) < 0" using Cons.prems ys by auto
    then show False using asym by blast
  qed
  moreover have "x \<notin> set xs" "y \<notin> set ys'" using Cons.prems ys irr by auto
  ultimately have "set xs = set ys'" using Cons.prems ys by auto
  then show ?case using Cons.IH [of ys'] Cons.prems ys \<open>x = y\<close> by auto
qed

lemma sort_by_strict:
  assumes "distinct xs" and "inj_on f (set xs)"
  shows "sorted_wrt (\<lambda>a b. cmp (f a) (f b) < 0) (sort_by (\<lambda>a b. cmp (f a) (f b)) xs)"
proof -
  let ?ys = "sort_by (\<lambda>a b. cmp (f a) (f b)) xs"
  have "sorted_wrt (\<lambda>a b. cmp (f a) (f b) \<le> 0) ?ys" by (rule sorted_sort_by)
  moreover have "distinct ?ys" "inj_on f (set ?ys)" using assms by simp_all
  ultimately show ?thesis
  proof (induction ?ys rule: rev_induct)
    case Nil
    then show ?case by simp
  next
    case (snoc y ys)
    have "\<And>zs. sorted_wrt (\<lambda>a b. cmp (f a) (f b) \<le> 0) zs \<Longrightarrow> distinct zs \<Longrightarrow> inj_on f (set zs) \<Longrightarrow>
      sorted_wrt (\<lambda>a b. cmp (f a) (f b) < 0) zs"
    proof -
      fix zs :: "'b list"
      assume "sorted_wrt (\<lambda>a b. cmp (f a) (f b) \<le> 0) zs" "distinct zs" "inj_on f (set zs)"
      then show "sorted_wrt (\<lambda>a b. cmp (f a) (f b) < 0) zs"
        by (induction zs) (auto simp: cmp_le_iff inj_on_def)
    qed
    then show ?case using snoc.prems by blast
  qed
qed

end

section \<open>Lists and association lists\<close>

lemma map_of_filter_key:
  "map_of (filter (\<lambda>p. P (fst p)) xs) k = (if P k then map_of xs k else None)"
  by (induction xs) auto

lemma map_of_Some_in: "map_of xs k = Some v \<Longrightarrow> (k, v) \<in> set xs"
  by (rule map_of_SomeD)

lemma find_Some_in: "List.find P xs = Some x \<Longrightarrow> x \<in> set xs \<and> P x"
  by (auto simp: find_Some_iff)

lemma sorted_wrt_filter_keep: "sorted_wrt R xs \<Longrightarrow> sorted_wrt R (filter P xs)"
  by (rule sorted_wrt_filter)

lemma distinct_map_filter_keep: "distinct (map f xs) \<Longrightarrow> distinct (map f (filter P xs))"
  by (rule distinct_map_filter)

end
