(* ===== verification/Js_Value.thy ===== *)
theory Js_Value
  imports Seq_Prelude Complex_Main
begin

text \<open>
  The JavaScript values that reach the library from outside: what
  \<^verbatim>\<open>unknown\<close> and \<^verbatim>\<open>JsonValue\<close> range over in
  \<^verbatim>\<open>src/encoding.ts\<close> and \<^verbatim>\<open>src/codec.ts\<close>.

  Numbers are IEEE doubles: a finite one is its exact rational value. Arrays may have
  holes (\<open>None\<close>). A plain object (prototype \<^verbatim>\<open>Object.prototype\<close> or
  \<^verbatim>\<open>null\<close>) is \<open>JObj\<close> with its own enumerable properties in
  \<^verbatim>\<open>Object.entries\<close> order; an object with any other prototype is
  \<open>JInst\<close>; functions, symbols and bigints are \<open>JOther\<close>.
\<close>

datatype jsnum = JFin rat | JNaN | JPosInf | JNegInf

datatype jsval =
    JUndef
  | JNull
  | JBool bool
  | JNum jsnum
  | JStr string
  | JArr "jsval option list"
  | JObj "(string \<times> jsval) list"
  | JInst "(string \<times> jsval) list"
  | JOther

section \<open>Numbers\<close>

definition MAX_SAFE_INTEGER :: nat where
  "MAX_SAFE_INTEGER = 9007199254740991"

definition isFinite :: "jsnum \<Rightarrow> bool" where
  "isFinite n = (case n of JFin _ \<Rightarrow> True | _ \<Rightarrow> False)"

definition isSafeInteger :: "jsnum \<Rightarrow> bool" where
  "isSafeInteger n = (case n of
     JFin q \<Rightarrow> snd (quotient_of q) = 1 \<and> \<bar>fst (quotient_of q)\<bar> \<le> int MAX_SAFE_INTEGER
   | _ \<Rightarrow> False)"

text \<open>The comparison \<open>n < k\<close> of a number with an integer literal.\<close>

definition num_less :: "jsnum \<Rightarrow> int \<Rightarrow> bool" where
  "num_less n k = (case n of JFin q \<Rightarrow> q < of_int k | JNegInf \<Rightarrow> True | _ \<Rightarrow> False)"

definition nat_of_num :: "jsnum \<Rightarrow> nat" where
  "nat_of_num n = (case n of JFin q \<Rightarrow> nat (fst (quotient_of q)) | _ \<Rightarrow> 0)"

definition num_of_nat :: "nat \<Rightarrow> jsnum" where
  "num_of_nat k = JFin (of_int (int k))"

definition nonNegSafe :: "jsnum \<Rightarrow> bool" where
  "nonNegSafe n \<longleftrightarrow> isSafeInteger n \<and> \<not> num_less n 0"

lemma nat_of_num_of_nat [simp]: "nat_of_num (num_of_nat k) = k"
  by (simp add: nat_of_num_def num_of_nat_def)

lemma isSafeInteger_num_of_nat [simp]: "isSafeInteger (num_of_nat k) \<longleftrightarrow> k \<le> MAX_SAFE_INTEGER"
  by (simp add: isSafeInteger_def num_of_nat_def)

lemma num_less_num_of_nat [simp]: "num_less (num_of_nat k) i \<longleftrightarrow> int k < i"
  unfolding num_less_def num_of_nat_def jsnum.case of_int_less_iff ..

lemma nonNegSafe_num_of_nat [simp]: "nonNegSafe (num_of_nat k) \<longleftrightarrow> k \<le> MAX_SAFE_INTEGER"
  by (simp add: nonNegSafe_def)

lemma isSafeInteger_cases:
  assumes "isSafeInteger n"
  obtains i where "n = JFin (of_int i)" "\<bar>i\<bar> \<le> int MAX_SAFE_INTEGER"
proof (cases n)
  case (JFin q)
  obtain a b where ab: "quotient_of q = (a, b)" by (cases "quotient_of q")
  with assms JFin have "b = 1" "\<bar>a\<bar> \<le> int MAX_SAFE_INTEGER"
    by (auto simp: isSafeInteger_def)
  moreover have "q = of_int a" using quotient_of_div [OF ab] \<open>b = 1\<close> by simp
  ultimately show ?thesis using JFin that by blast
qed (use assms in \<open>auto simp: isSafeInteger_def\<close>)

lemma nonNegSafe_eq:
  assumes "nonNegSafe n"
  shows "n = num_of_nat (nat_of_num n)" and "nat_of_num n \<le> MAX_SAFE_INTEGER"
proof -
  from assms obtain i where i: "n = JFin (of_int i)" "\<bar>i\<bar> \<le> int MAX_SAFE_INTEGER"
    unfolding nonNegSafe_def by (metis isSafeInteger_cases)
  have "0 \<le> i" using assms i by (simp add: nonNegSafe_def num_less_def)
  then show "n = num_of_nat (nat_of_num n)" "nat_of_num n \<le> MAX_SAFE_INTEGER"
    using i by (simp_all add: nat_of_num_def num_of_nat_def)
qed

section \<open>Property access\<close>

text \<open>
  \<^verbatim>\<open>o.name\<close> on an object whose properties are known; any other object (an
  array) has no property of that name.
\<close>

definition getProp :: "jsval \<Rightarrow> string \<Rightarrow> jsval" where
  "getProp v k = (case v of
     JObj ps \<Rightarrow> (case map_of ps k of None \<Rightarrow> JUndef | Some x \<Rightarrow> x)
   | JInst ps \<Rightarrow> (case map_of ps k of None \<Rightarrow> JUndef | Some x \<Rightarrow> x)
   | _ \<Rightarrow> JUndef)"

definition hasProp :: "jsval \<Rightarrow> string \<Rightarrow> bool" where
  "hasProp v k = (case v of
     JObj ps \<Rightarrow> map_of ps k \<noteq> None
   | JInst ps \<Rightarrow> map_of ps k \<noteq> None
   | _ \<Rightarrow> False)"

text \<open>\<^verbatim>\<open>typeof v === "object" && v !== null\<close>.\<close>

definition isObject :: "jsval \<Rightarrow> bool" where
  "isObject v = (case v of JArr _ \<Rightarrow> True | JObj _ \<Rightarrow> True | JInst _ \<Rightarrow> True | _ \<Rightarrow> False)"

text \<open>Reading an array position: a hole and a position past the end both read \<^verbatim>\<open>undefined\<close>.\<close>

definition arrGet :: "jsval option list \<Rightarrow> nat \<Rightarrow> jsval" where
  "arrGet xs i = (if i < length xs then (case xs ! i of None \<Rightarrow> JUndef | Some v \<Rightarrow> v) else JUndef)"

lemma getProp_simps [simp]:
  "getProp (JObj ps) k = (case map_of ps k of None \<Rightarrow> JUndef | Some x \<Rightarrow> x)"
  "getProp (JInst ps) k = (case map_of ps k of None \<Rightarrow> JUndef | Some x \<Rightarrow> x)"
  "getProp (JArr xs) k = JUndef"
  by (simp_all add: getProp_def)

lemma hasProp_simps [simp]:
  "hasProp (JObj ps) k \<longleftrightarrow> map_of ps k \<noteq> None"
  "hasProp (JInst ps) k \<longleftrightarrow> map_of ps k \<noteq> None"
  "\<not> hasProp (JArr xs) k"
  by (simp_all add: hasProp_def)

lemma isObject_simps [simp]:
  "isObject (JObj ps)" "isObject (JInst ps)" "isObject (JArr xs)"
  "\<not> isObject JUndef" "\<not> isObject JNull" "\<not> isObject (JStr s)" "\<not> isObject (JNum n)"
  by (simp_all add: isObject_def)

end
