(* ===== verification/Seq_Types.thy ===== *)
theory Seq_Types
  imports Js_Value
begin

text \<open>
  The public data types of \<^verbatim>\<open>src/types.ts\<close> and the \<^verbatim>\<open>Constants\<close> of
  \<^verbatim>\<open>src/constants.ts\<close>. Sequence numbers, HLC components, row ids and
  milliseconds are naturals; the validators keep those that cross the wire inside the
  safe-integer range.
\<close>

type_synonym Topic = string
type_synonym WriterId = string
type_synonym Seq = nat
type_synonym EntryId = "string \<times> string \<times> nat"

record Hlc =
  hlc_l :: nat
  hlc_c :: nat

record Order =
  ord_l :: nat
  ord_c :: nat
  ord_w :: string
  ord_s :: nat

record LogEntry =
  e_topic :: string
  e_writer :: string
  e_seq :: nat
  e_hlc :: Hlc
  e_kind :: string
  e_key :: "string option"
  e_causal :: "(string \<times> nat) option"
  e_ref :: "EntryId option"
  e_payload :: jsval
  e_chain :: string

type_synonym Cut = "(string \<times> (nat \<times> string)) list"

record FinalityCert =
  cert_topic :: string
  cert_order :: Order
  cert_cut :: Cut
  cert_generation :: nat
  cert_authority :: string
  cert_sig :: string

datatype DirState = Live | Retired

record WriterDirective =
  d_topic :: string
  d_writer :: string
  d_state :: DirState
  d_rgen :: nat
  d_finalSeq :: "nat option"
  d_finalChain :: "string option"
  d_authority :: string
  d_sig :: string

text \<open>A directive before the authority has signed it: without \<open>authority\<close> and \<open>sig\<close>.\<close>

record UnsignedDirective =
  u_topic :: string
  u_writer :: string
  u_state :: DirState
  u_rgen :: nat
  u_finalSeq :: "nat option"
  u_finalChain :: "string option"

datatype VecEntry =
    VLive nat string "nat option"       \<comment> \<open>contig, chain, rgen when positive\<close>
  | VRetired nat string nat             \<comment> \<open>finalSeq, finalChain, rgen\<close>

record TopicVec =
  fgen :: "nat option"
  writers :: "(string \<times> VecEntry) list"

type_synonym HaveVectors = "(string \<times> TopicVec) list"

datatype AnomalyKind =
    A_clock_outlier | A_writer_forked | A_owned_violation | A_pre_finality_rejected
  | A_entry_quarantined | A_takeover_invalid | A_bad_cert | A_bad_directive
  | A_delta_mismatch | A_view_faulted | A_consumer_abandoned | A_canonical_unavailable
  | A_sync_stalled | A_sync_hot | A_sub_resync | A_floor_adopted | A_floor_unservable

record Anomaly =
  a_kind :: AnomalyKind
  a_entry :: "LogEntry option"
  a_topic :: "string option"
  a_writer :: "string option"

definition anomaly_entry :: "AnomalyKind \<Rightarrow> LogEntry \<Rightarrow> Anomaly" where
  "anomaly_entry k e = \<lparr>a_kind = k, a_entry = Some e, a_topic = None, a_writer = None\<rparr>"

definition anomaly_stream :: "AnomalyKind \<Rightarrow> string \<Rightarrow> string \<Rightarrow> Anomaly" where
  "anomaly_stream k t w = \<lparr>a_kind = k, a_entry = None, a_topic = Some t, a_writer = Some w\<rparr>"

definition anomaly_plain :: "AnomalyKind \<Rightarrow> Anomaly" where
  "anomaly_plain k = \<lparr>a_kind = k, a_entry = None, a_topic = None, a_writer = None\<rparr>"

section \<open>Constants\<close>

datatype Durability = DurNormal | DurFull

record Constants =
  MAX_ENTRY_BYTES :: nat
  MAX_FRAME_BYTES :: nat
  MAX_ROW_BYTES :: nat
  MAX_REASSEMBLY_BYTES :: nat
  INFLIGHT_CREDITS :: nat
  CHANNEL_STALL_MS :: nat
  SEND_QUEUE_CAP :: nat
  CONTROL_RETRY_MS :: nat
  PENDING_CAP :: nat
  SUB_DELTA_RETAIN :: nat
  EAGER_PUSH_K :: nat
  ANTI_ENTROPY_MS :: nat
  BEACON_DEBOUNCE_MS :: nat
  HLC_EPSILON_MS :: nat
  CLOCK_WARN_MS :: nat
  CHECKPOINT_EVERY :: nat
  RING_DEFAULT :: nat
  GROUP_COMMIT_MS :: nat
  GROUP_COMMIT_N :: nat
  HELLO_TIMEOUT_MS :: nat
  FINALITY_WINDOW_MS :: nat
  RETIRE_GRACE_MS :: nat
  REQUEST_TTL_MS :: nat
  TOMBSTONE_RETAIN_MS :: nat
  SYNC_HOT_WINDOW_MS :: nat
  SYNC_HOT_BYTES :: nat
  durability :: Durability

definition DEFAULT_CONSTANTS :: Constants where
  "DEFAULT_CONSTANTS = \<lparr>
     MAX_ENTRY_BYTES = 65536,
     MAX_FRAME_BYTES = 262144,
     MAX_ROW_BYTES = 65536,
     MAX_REASSEMBLY_BYTES = 67108864,
     INFLIGHT_CREDITS = 4,
     CHANNEL_STALL_MS = 30000,
     SEND_QUEUE_CAP = 64,
     CONTROL_RETRY_MS = 5000,
     PENDING_CAP = 1024,
     SUB_DELTA_RETAIN = 256,
     EAGER_PUSH_K = 4,
     ANTI_ENTROPY_MS = 300000,
     BEACON_DEBOUNCE_MS = 5000,
     HLC_EPSILON_MS = 300000,
     CLOCK_WARN_MS = 60000,
     CHECKPOINT_EVERY = 10000,
     RING_DEFAULT = 500,
     GROUP_COMMIT_MS = 20,
     GROUP_COMMIT_N = 64,
     HELLO_TIMEOUT_MS = 5000,
     FINALITY_WINDOW_MS = 2592000000,
     RETIRE_GRACE_MS = 2592000000,
     REQUEST_TTL_MS = 2592000000,
     TOMBSTONE_RETAIN_MS = 34560000000,
     SYNC_HOT_WINDOW_MS = 60000,
     SYNC_HOT_BYTES = 33554432,
     durability = DurNormal\<rparr>"

end
