(* ===== verification/Encoding.thy ===== *)
theory Encoding
  imports Seq_Types
begin

text \<open>
  \<^verbatim>\<open>src/encoding.ts\<close>: the JSON guards, the length-prefixed framing and the
  chain hash. The JCS canonicalizer (package \<^verbatim>\<open>canonicalize\<close>) and SHA-256
  (package \<^verbatim>\<open>@noble/hashes\<close>) are not part of the repository: they are the
  fields of \<open>Prims\<close>, an argument of every definition that calls them.
\<close>

record Prims =
  canonicalizeLib :: "jsval \<Rightarrow> string option"
  sha256Hex :: "string \<Rightarrow> string"

section \<open>JSON guards\<close>

text \<open>
  \<open>assertJsonValue\<close> rejects what JCS cannot represent. The loop over an array reads
  every position, so a hole is read as \<^verbatim>\<open>undefined\<close> and rejected.
\<close>

fun assertJsonValue :: "jsval \<Rightarrow> unit result"
  and assertJsonElems :: "jsval option list \<Rightarrow> unit result"
  and assertJsonProps :: "(string \<times> jsval) list \<Rightarrow> unit result" where
  "assertJsonValue JNull = Inr ()"
| "assertJsonValue (JStr s) = Inr ()"
| "assertJsonValue (JBool b) = Inr ()"
| "assertJsonValue (JNum n) = guardr (isFinite n) ERR_ENTRY_ENCODING"
| "assertJsonValue (JArr vs) = assertJsonElems vs"
| "assertJsonValue (JInst ps) = Inl ERR_ENTRY_ENCODING"
| "assertJsonValue (JObj ps) = assertJsonProps ps"
| "assertJsonValue JUndef = Inl ERR_ENTRY_ENCODING"
| "assertJsonValue JOther = Inl ERR_ENTRY_ENCODING"
| "assertJsonElems [] = Inr ()"
| "assertJsonElems (None # vs) = Inl ERR_ENTRY_ENCODING"
| "assertJsonElems (Some v # vs) = rbind (assertJsonValue v) (\<lambda>_. assertJsonElems vs)"
| "assertJsonProps [] = Inr ()"
| "assertJsonProps ((k, v) # ps) =
     (if v = JUndef then Inl ERR_ENTRY_ENCODING
      else rbind (assertJsonValue v) (\<lambda>_. assertJsonProps ps))"

text \<open>
  \<open>sanitizeJson\<close> drops undefined object properties and refuses undefined array
  elements. Its array branch is \<^verbatim>\<open>Array.prototype.map\<close>, which does not call
  its function on a hole and leaves the hole in the result.
\<close>

fun sanitizeJson :: "jsval \<Rightarrow> jsval result"
  and sanitizeElems :: "jsval option list \<Rightarrow> jsval option list result"
  and sanitizeProps :: "(string \<times> jsval) list \<Rightarrow> (string \<times> jsval) list result" where
  "sanitizeJson JNull = Inr JNull"
| "sanitizeJson (JStr s) = Inr (JStr s)"
| "sanitizeJson (JBool b) = Inr (JBool b)"
| "sanitizeJson (JNum n) = (if \<not> isFinite n then Inl ERR_ENTRY_ENCODING else Inr (JNum n))"
| "sanitizeJson (JArr vs) = rbind (sanitizeElems vs) (\<lambda>vs'. Inr (JArr vs'))"
| "sanitizeJson (JInst ps) = Inl ERR_ENTRY_ENCODING"
| "sanitizeJson (JObj ps) = rbind (sanitizeProps ps) (\<lambda>ps'. Inr (JObj ps'))"
| "sanitizeJson JUndef = Inl ERR_ENTRY_ENCODING"
| "sanitizeJson JOther = Inl ERR_ENTRY_ENCODING"
| "sanitizeElems [] = Inr []"
| "sanitizeElems (None # vs) = rbind (sanitizeElems vs) (\<lambda>vs'. Inr (None # vs'))"
| "sanitizeElems (Some v # vs) =
     (if v = JUndef then Inl ERR_ENTRY_ENCODING
      else rbind (sanitizeJson v) (\<lambda>v'. rbind (sanitizeElems vs) (\<lambda>vs'. Inr (Some v' # vs'))))"
| "sanitizeProps [] = Inr []"
| "sanitizeProps ((k, v) # ps) =
     (if v = JUndef then sanitizeProps ps
      else rbind (sanitizeJson v) (\<lambda>v'. rbind (sanitizeProps ps) (\<lambda>ps'. Inr ((k, v') # ps'))))"

text \<open>No array of the value has a hole.\<close>

fun denseJson :: "jsval \<Rightarrow> bool"
  and denseElems :: "jsval option list \<Rightarrow> bool"
  and denseProps :: "(string \<times> jsval) list \<Rightarrow> bool" where
  "denseJson (JArr vs) = denseElems vs"
| "denseJson (JObj ps) = denseProps ps"
| "denseJson v = True"
| "denseElems [] = True"
| "denseElems (None # vs) = False"
| "denseElems (Some v # vs) = (denseJson v \<and> denseElems vs)"
| "denseProps [] = True"
| "denseProps ((k, v) # ps) = (denseJson v \<and> denseProps ps)"

lemma assertJsonValue_undef [simp]: "assertJsonValue v = Inr u \<Longrightarrow> v \<noteq> JUndef"
  by (cases v) auto

lemma sanitize_dense_asserts:
  "sanitizeJson v = Inr v' \<Longrightarrow> denseJson v \<Longrightarrow> assertJsonValue v' = Inr ()"
  "sanitizeElems vs = Inr vs' \<Longrightarrow> denseElems vs \<Longrightarrow> assertJsonElems vs' = Inr ()"
  "sanitizeProps ps = Inr ps' \<Longrightarrow> denseProps ps \<Longrightarrow> assertJsonProps ps' = Inr ()"
  by (induction v and vs and ps arbitrary: v' and vs' and ps'
      rule: sanitizeJson_sanitizeElems_sanitizeProps.induct)
    (auto simp: rbind_eq_Inr split: if_splits)

lemma sanitize_of_asserted:
  "assertJsonValue v = Inr () \<Longrightarrow> sanitizeJson v = Inr v"
  "assertJsonElems vs = Inr () \<Longrightarrow> sanitizeElems vs = Inr vs"
  "assertJsonProps ps = Inr () \<Longrightarrow> sanitizeProps ps = Inr ps"
  by (induction v and vs and ps
      rule: assertJsonValue_assertJsonElems_assertJsonProps.induct)
    (auto simp: rbind_eq_Inr split: if_splits)

lemma asserted_dense:
  "assertJsonValue v = Inr () \<Longrightarrow> denseJson v"
  "assertJsonElems vs = Inr () \<Longrightarrow> denseElems vs"
  "assertJsonProps ps = Inr () \<Longrightarrow> denseProps ps"
  by (induction v and vs and ps
      rule: assertJsonValue_assertJsonElems_assertJsonProps.induct)
    (auto simp: rbind_eq_Inr split: if_splits)

section \<open>Framing\<close>

definition jcs :: "Prims \<Rightarrow> jsval \<Rightarrow> string result" where
  "jcs P v = (case canonicalizeLib P v of None \<Rightarrow> Inl ERR_ENTRY_ENCODING | Some s \<Rightarrow> Inr s)"

definition utf8ByteLength :: "string \<Rightarrow> nat" where
  "utf8ByteLength s = length s"

text \<open>\<^verbatim>\<open>DataView.setUint32\<close>, big-endian: the value modulo \<open>2 ^ 32\<close> in four bytes.\<close>

definition u32be :: "nat \<Rightarrow> string" where
  "u32be n = [char_of (n div 2 ^ 24 mod 256), char_of (n div 2 ^ 16 mod 256),
              char_of (n div 2 ^ 8 mod 256), char_of (n mod 256)]"

definition frame :: "string \<Rightarrow> string" where
  "frame s = u32be (length s) @ s"

text \<open>\<^verbatim>\<open>String(n)\<close> of a natural number.\<close>

definition digit_char :: "nat \<Rightarrow> char" where
  "digit_char d = char_of (48 + d)"

fun nat_str :: "nat \<Rightarrow> string" where
  "nat_str n = (if n < 10 then [digit_char n] else nat_str (n div 10) @ [digit_char (n mod 10)])"

declare nat_str.simps [simp del]

definition dec :: "nat \<Rightarrow> string result" where
  "dec n = (if n > MAX_SAFE_INTEGER then Inl ERR_ENTRY_ENCODING else Inr (nat_str n))"

definition sha256HexOf :: "Prims \<Rightarrow> string list \<Rightarrow> string" where
  "sha256HexOf P parts = sha256Hex P (concat parts)"

definition sha256HexUtf8 :: "Prims \<Rightarrow> string \<Rightarrow> string" where
  "sha256HexUtf8 P s = sha256Hex P s"

definition seedOf :: "Prims \<Rightarrow> string \<Rightarrow> string \<Rightarrow> string" where
  "seedOf P topic writer = sha256HexOf P [frame ''seqscribe:v1'', frame topic, frame writer]"

definition causal_js :: "string \<times> nat \<Rightarrow> jsval" where
  "causal_js c = JArr [Some (JStr (fst c)), Some (JNum (num_of_nat (snd c)))]"

definition entryId_js :: "EntryId \<Rightarrow> jsval" where
  "entryId_js i = JArr [Some (JStr (fst i)), Some (JStr (fst (snd i))),
                        Some (JNum (num_of_nat (snd (snd i))))]"

text \<open>
  The framed fields of a chain hash, in order. An absent \<open>key\<close>, \<open>causal\<close> or
  \<open>ref\<close> is an empty frame followed by the flag \<open>0\<close>.
\<close>

definition chainParts :: "Prims \<Rightarrow> string \<Rightarrow> LogEntry \<Rightarrow> string list result" where
  "chainParts P prevChain e =
     rbind (dec (e_seq e)) (\<lambda>seq.
     rbind (dec (hlc_l (e_hlc e))) (\<lambda>l.
     rbind (dec (hlc_c (e_hlc e))) (\<lambda>c.
     rbind (case e_causal e of None \<Rightarrow> Inr [] | Some x \<Rightarrow> jcs P (causal_js x)) (\<lambda>causal.
     rbind (case e_ref e of None \<Rightarrow> Inr [] | Some x \<Rightarrow> jcs P (entryId_js x)) (\<lambda>ref.
     rbind (jcs P (e_payload e)) (\<lambda>payload.
     Inr [prevChain, seq, l, c, e_kind e,
          (case e_key e of None \<Rightarrow> [] | Some k \<Rightarrow> k),
          (if e_key e = None then ''0'' else ''1''),
          causal,
          (if e_causal e = None then ''0'' else ''1''),
          ref,
          (if e_ref e = None then ''0'' else ''1''),
          payload]))))))"

definition chainOf :: "Prims \<Rightarrow> string \<Rightarrow> LogEntry \<Rightarrow> string result" where
  "chainOf P prevChain e =
     rbind (chainParts P prevChain e) (\<lambda>parts. Inr (sha256HexOf P (map frame parts)))"

section \<open>Framing is injective\<close>

lemma length_u32be [simp]: "length (u32be n) = 4"
  by (simp add: u32be_def)

lemma char_of_inj:
  fixes a b :: nat
  assumes "a < 256" "b < 256" "char_of a = char_of b"
  shows "a = b"
proof -
  have "(of_char (char_of a) :: nat) = of_char (char_of b)" using assms(3) by simp
  then show ?thesis using assms(1,2) by (simp add: take_bit_eq_mod)
qed

lemma u32be_inj:
  assumes "m < 2 ^ 32" "n < 2 ^ 32" "u32be m = u32be n"
  shows "m = n"
proof -
  have lt: "k mod 256 < 256" for k :: nat by simp
  have b: "m div 2 ^ 24 mod 256 = n div 2 ^ 24 mod 256" "m div 2 ^ 16 mod 256 = n div 2 ^ 16 mod 256"
    "m div 2 ^ 8 mod 256 = n div 2 ^ 8 mod 256" "m mod 256 = n mod 256"
    using assms(3) unfolding u32be_def list.inject by (blast intro: char_of_inj [OF lt lt])+
  have split: "k = k div 2 ^ 24 mod 256 * 2 ^ 24 + k div 2 ^ 16 mod 256 * 2 ^ 16 +
    k div 2 ^ 8 mod 256 * 2 ^ 8 + k mod 256" if k: "k < 2 ^ 32" for k :: nat
  proof -
    have d: "k div 2 ^ 8 = k div 256" "k div 2 ^ 16 = k div 256 div 256"
      "k div 2 ^ 24 = k div 256 div 256 div 256"
      by (simp_all add: div_mult2_eq [symmetric])
    have "k div 2 ^ 24 < 256" using k by (simp add: less_mult_imp_div_less)
    then have top: "k div 256 div 256 div 256 mod 256 = k div 256 div 256 div 256"
      unfolding d by simp
    have pw: "(2::nat) ^ 24 = 16777216" "(2::nat) ^ 16 = 65536" "(2::nat) ^ 8 = 256" by simp_all
    show ?thesis
      unfolding d top unfolding pw
      using div_mult_mod_eq [of k 256] div_mult_mod_eq [of "k div 256" 256]
        div_mult_mod_eq [of "k div 256 div 256" 256] by linarith
  qed
  show ?thesis using split [OF assms(1)] split [OF assms(2)] unfolding b by (rule trans [OF _ sym])
qed

lemma frame_append_inj:
  assumes "length s < 2 ^ 32" "length t < 2 ^ 32" "frame s @ xs = frame t @ ys"
  shows "s = t \<and> xs = ys"
proof -
  from assms(3) have "u32be (length s) = u32be (length t)" and rest: "s @ xs = t @ ys"
    by (simp_all add: frame_def append_eq_append_conv)
  then have "length s = length t" using u32be_inj assms(1,2) by blast
  with rest show ?thesis by simp
qed

lemma frames_inj:
  "length ss = length ts \<Longrightarrow> \<forall>s \<in> set ss. length s < 2 ^ 32 \<Longrightarrow> \<forall>t \<in> set ts. length t < 2 ^ 32 \<Longrightarrow>
   concat (map frame ss) = concat (map frame ts) \<Longrightarrow> ss = ts"
proof (induction ss ts rule: list_induct2)
  case (Cons s ss t ts)
  have "frame s @ concat (map frame ss) = frame t @ concat (map frame ts)"
    using Cons.prems by simp
  then have "s = t \<and> concat (map frame ss) = concat (map frame ts)"
    by (rule frame_append_inj [rotated 2]) (use Cons.prems in auto)
  then show ?case using Cons by simp
qed simp

lemma digit_char_inj: "a < 10 \<Longrightarrow> b < 10 \<Longrightarrow> digit_char a = digit_char b \<Longrightarrow> a = b"
  unfolding digit_char_def by (drule char_of_inj [rotated 2]) simp_all

lemma nat_str_inj: "nat_str m = nat_str n \<Longrightarrow> m = n"
proof (induction m arbitrary: n rule: nat_str.induct)
  case (1 m)
  have ne: "nat_str k \<noteq> []" for k by (subst nat_str.simps) simp
  show ?case
  proof (cases "m < 10")
    case True
    then have "nat_str n = [digit_char m]" using 1(2) by (simp add: nat_str.simps [of m])
    then have "n < 10 \<and> digit_char n = digit_char m"
      using ne by (subst (asm) nat_str.simps) (auto split: if_splits)
    then show ?thesis using True digit_char_inj by blast
  next
    case False
    then have eq: "nat_str n = nat_str (m div 10) @ [digit_char (m mod 10)]"
      using 1(2) by (simp add: nat_str.simps [of m])
    have "nat_str (m div 10) \<noteq> []" by (rule ne)
    with eq have "length (nat_str n) \<noteq> 1" by simp
    then have "\<not> n < 10" by (auto simp: nat_str.simps [of n])
    with eq have "nat_str (m div 10) = nat_str (n div 10)" "digit_char (m mod 10) = digit_char (n mod 10)"
      by (simp_all add: nat_str.simps [of n])
    then have "m div 10 = n div 10" "m mod 10 = n mod 10"
      using 1(1) [OF False] digit_char_inj by simp_all
    then show ?thesis by (metis div_mult_mod_eq)
  qed
qed

lemma dec_inj: "dec m = Inr s \<Longrightarrow> dec n = Inr s \<Longrightarrow> m = n"
  by (auto simp: dec_def nat_str_inj split: if_splits)

lemma chainParts_length: "chainParts P p e = Inr parts \<Longrightarrow> length parts = 12"
  by (auto simp: chainParts_def rbind_eq_Inr)

text \<open>
  What the framed fields determine: everything but the choice between JSON values with one
  canonical form.
\<close>

definition same_canonical :: "Prims \<Rightarrow> LogEntry \<Rightarrow> LogEntry \<Rightarrow> bool" where
  "same_canonical P e f \<longleftrightarrow>
     e_seq e = e_seq f \<and> e_hlc e = e_hlc f \<and> e_kind e = e_kind f \<and> e_key e = e_key f \<and>
     map_option (\<lambda>c. jcs P (causal_js c)) (e_causal e) =
       map_option (\<lambda>c. jcs P (causal_js c)) (e_causal f) \<and>
     map_option (\<lambda>c. jcs P (entryId_js c)) (e_ref e) =
       map_option (\<lambda>c. jcs P (entryId_js c)) (e_ref f) \<and>
     jcs P (e_payload e) = jcs P (e_payload f)"

lemma chainParts_inj:
  assumes "chainParts P p e = Inr parts" "chainParts P q f = Inr parts"
  shows "p = q \<and> same_canonical P e f"
proof -
  from assms have "e_seq e = e_seq f" "hlc_l (e_hlc e) = hlc_l (e_hlc f)"
    "hlc_c (e_hlc e) = hlc_c (e_hlc f)"
    by (auto simp: chainParts_def rbind_eq_Inr dest: dec_inj)
  moreover have "p = q" "e_kind e = e_kind f" "jcs P (e_payload e) = jcs P (e_payload f)"
    using assms by (auto simp: chainParts_def rbind_eq_Inr)
  moreover have "e_key e = e_key f"
    using assms by (auto simp: chainParts_def rbind_eq_Inr split: option.splits if_splits)
  moreover have "map_option (\<lambda>c. jcs P (causal_js c)) (e_causal e) =
      map_option (\<lambda>c. jcs P (causal_js c)) (e_causal f)"
    using assms by (cases "e_causal e"; cases "e_causal f") (auto simp: chainParts_def rbind_eq_Inr)
  moreover have "map_option (\<lambda>c. jcs P (entryId_js c)) (e_ref e) =
      map_option (\<lambda>c. jcs P (entryId_js c)) (e_ref f)"
    using assms by (cases "e_ref e"; cases "e_ref f") (auto simp: chainParts_def rbind_eq_Inr)
  ultimately show ?thesis by (simp add: same_canonical_def)
qed

text \<open>\<open>dec\<close>, \<open>jcs\<close> and \<open>chainOf\<close> only ever throw the encoding error.\<close>

lemma chainOf_error: "chainOf P p e = Inl err \<Longrightarrow> err = ERR_ENTRY_ENCODING"
  by (auto simp: chainOf_def chainParts_def rbind_eq_Inl dec_def jcs_def
      split: if_splits option.splits)

section \<open>Properties\<close>

text \<open>C33. The chain hash binds the content of an entry to the hash before it: if two chain
  computations give one hash and the two preimages are no collision of the hash function, then
  the previous hashes are equal and the entries agree in every hashed field (sequence number,
  HLC, kind, key, and the canonical forms of causal edge, reference and payload). The framing
  leaves no second reading of the bytes.\<close>

theorem chain_binds_content:
  assumes "chainParts P p e = Inr a" "chainParts P q f = Inr b"
    and "list_all (\<lambda>s. length s < 2 ^ 32) (a @ b)"
    and no_collision: "sha256Hex P (concat (map frame a)) = sha256Hex P (concat (map frame b)) \<Longrightarrow>
      concat (map frame a) = concat (map frame b)"
    and "chainOf P p e = chainOf P q f"
  shows "p = q \<and> same_canonical P e f"
proof -
  have "concat (map frame a) = concat (map frame b)"
    using no_collision assms(1,2,5) by (simp add: chainOf_def sha256HexOf_def)
  then have "a = b"
    using assms(1-3) by (intro frames_inj) (auto simp: chainParts_length list_all_iff)
  then show ?thesis using assms(1,2) chainParts_inj by simp
qed

definition demo_prims :: Prims where
  "demo_prims = \<lparr>canonicalizeLib = (\<lambda>v. case v of JNull \<Rightarrow> Some ''null'' | _ \<Rightarrow> None), sha256Hex = id\<rparr>"

definition demo_entry :: "string \<Rightarrow> LogEntry" where
  "demo_entry t = \<lparr>e_topic = t, e_writer = ''w'', e_seq = 1, e_hlc = \<lparr>hlc_l = 7, hlc_c = 0\<rparr>,
     e_kind = ''k'', e_key = None, e_causal = None, e_ref = None, e_payload = JNull, e_chain = []\<rparr>"

definition demo_parts :: "string list" where
  "demo_parts = [''p'', ''1'', ''7'', ''0'', ''k'', [], ''0'', [], ''0'', [], ''0'', ''null'']"

lemma demo_chainParts: "chainParts demo_prims ''p'' (demo_entry t) = Inr demo_parts"
  by (simp add: chainParts_def demo_entry_def demo_prims_def demo_parts_def dec_def jcs_def
      MAX_SAFE_INTEGER_def nat_str.simps digit_char_def char_of_def bit_0 bit_Suc)

theorem chain_binds_content_witness:
  "same_canonical demo_prims (demo_entry ''a'') (demo_entry ''b'')"
proof -
  have same: "chainOf demo_prims ''p'' (demo_entry ''a'') = chainOf demo_prims ''p'' (demo_entry ''b'')"
    unfolding chainOf_def demo_chainParts ..
  have "(''p'' :: string) = ''p'' \<and> same_canonical demo_prims (demo_entry ''a'') (demo_entry ''b'')"
    by (rule chain_binds_content [OF demo_chainParts demo_chainParts _ _ same])
      (simp_all add: demo_parts_def)
  then show ?thesis ..
qed

text \<open>What \<open>sanitizeJson\<close> returns for a value without array holes passes
  \<open>assertJsonValue\<close>, and sanitizing again changes nothing.\<close>

theorem sanitized_is_json:
  assumes "sanitizeJson v = Inr v'" "denseJson v"
  shows "assertJsonValue v' = Inr () \<and> sanitizeJson v' = Inr v'"
  using sanitize_dense_asserts(1) [OF assms] sanitize_of_asserted(1) by simp

theorem sanitized_is_json_witness:
  "assertJsonValue (JObj [(''a'', JNull)]) = Inr () \<and>
   sanitizeJson (JObj [(''a'', JNull)]) = Inr (JObj [(''a'', JNull)])"
  by (rule sanitized_is_json [of "JObj [(''u'', JUndef), (''a'', JNull)]"]) simp_all

text \<open>The guarantee does not extend to sparse arrays: a hole anywhere in an array passes
  \<open>sanitizeJson\<close> unchanged, and the sanitized array is then refused by
  \<open>assertJsonValue\<close>.\<close>

theorem sanitize_keeps_holes:
  "sanitizeJson (JArr (replicate n (Some JNull) @ [None])) = Inr (JArr (replicate n (Some JNull) @ [None])) \<and>
   assertJsonValue (JArr (replicate n (Some JNull) @ [None])) = Inl ERR_ENTRY_ENCODING"
proof -
  have "sanitizeElems (replicate n (Some JNull) @ [None]) = Inr (replicate n (Some JNull) @ [None])"
    "assertJsonElems (replicate n (Some JNull) @ [None]) = Inl ERR_ENTRY_ENCODING"
    by (induction n) simp_all
  then show ?thesis by simp
qed

end
