(* ===== verification/Hlc_Clock.thy ===== *)
theory Hlc_Clock
  imports Seq_Types
begin

text \<open>
  \<^verbatim>\<open>src/hlc.ts\<close>: hybrid logical clock stamping, merging on receive with the
  deterministic carry, and the total order over entries. The clock state is a pair of the
  same shape as a stamp, so \<open>Hlc\<close> serves for both.
\<close>

section \<open>Stamping and merging\<close>

definition HLC_C_LIMIT :: nat where
  "HLC_C_LIMIT = 2 ^ 32"

definition stamp :: "Hlc \<Rightarrow> nat \<Rightarrow> (Hlc \<times> Hlc) result" where
  "stamp st pt =
     (let l = max (hlc_l st) pt;
          c = (if l = hlc_l st then hlc_c st + 1 else 0)
      in if c \<ge> HLC_C_LIMIT then Inl ERR_ENTRY_ENCODING
         else let next = \<lparr>hlc_l = l, hlc_c = c\<rparr> in Inr (next, next))"

definition merge :: "Hlc \<Rightarrow> Hlc \<Rightarrow> nat \<Rightarrow> Hlc" where
  "merge st remote pt =
     (let l = max (max (hlc_l st) (hlc_l remote)) pt;
          c = (if l = hlc_l st \<and> l = hlc_l remote then max (hlc_c st) (hlc_c remote) + 1
               else if l = hlc_l st then hlc_c st + 1
               else if l = hlc_l remote then hlc_c remote + 1
               else 0)
      in if c \<ge> HLC_C_LIMIT then \<lparr>hlc_l = l + 1, hlc_c = 0\<rparr> else \<lparr>hlc_l = l, hlc_c = c\<rparr>)"

definition isOverEpsilon :: "Hlc \<Rightarrow> nat \<Rightarrow> nat \<Rightarrow> bool" where
  "isOverEpsilon remote pt epsilonMs \<longleftrightarrow> hlc_l remote > pt + epsilonMs"

definition hlcCompare :: "Hlc \<Rightarrow> Hlc \<Rightarrow> int" where
  "hlcCompare a b =
     (if hlc_l a \<noteq> hlc_l b then (if hlc_l a < hlc_l b then -1 else 1)
      else if hlc_c a \<noteq> hlc_c b then (if hlc_c a < hlc_c b then -1 else 1)
      else 0)"

definition orderCompare :: "Order \<Rightarrow> Order \<Rightarrow> int" where
  "orderCompare a b =
     (if ord_l a \<noteq> ord_l b then (if ord_l a < ord_l b then -1 else 1)
      else if ord_c a \<noteq> ord_c b then (if ord_c a < ord_c b then -1 else 1)
      else if ord_w a \<noteq> ord_w b then (if ord_w a < ord_w b then -1 else 1)
      else if ord_s a \<noteq> ord_s b then (if ord_s a < ord_s b then -1 else 1)
      else 0)"

definition orderOf :: "LogEntry \<Rightarrow> Order" where
  "orderOf e = \<lparr>ord_l = hlc_l (e_hlc e), ord_c = hlc_c (e_hlc e),
                ord_w = e_writer e, ord_s = e_seq e\<rparr>"

section \<open>The comparators are total orders\<close>

interpretation hlcOrd: three_way hlcCompare
proof
  show "hlcCompare a b = 0 \<longleftrightarrow> a = b" for a b
    by (auto simp: hlcCompare_def intro: Hlc.equality)
  show "hlcCompare a b < 0 \<longleftrightarrow> hlcCompare b a > 0" for a b
    by (simp add: hlcCompare_def)
  show "hlcCompare a b < 0 \<Longrightarrow> hlcCompare b c < 0 \<Longrightarrow> hlcCompare a c < 0" for a b c
    by (auto simp: hlcCompare_def split: if_splits)
qed

interpretation entOrd: three_way orderCompare
proof
  show "orderCompare a b = 0 \<longleftrightarrow> a = b" for a b
    by (auto simp: orderCompare_def intro: Order.equality)
  show "orderCompare a b < 0 \<longleftrightarrow> orderCompare b a > 0" for a b
    by (auto simp: orderCompare_def)
  show "orderCompare a b < 0 \<Longrightarrow> orderCompare b c < 0 \<Longrightarrow> orderCompare a c < 0" for a b c
    by (auto simp: orderCompare_def split: if_splits)
qed

text \<open>Entries of one stream compare by HLC first, then by sequence number.\<close>

lemma orderCompare_same_writer:
  "e_writer a = e_writer b \<Longrightarrow>
   orderCompare (orderOf a) (orderOf b) < 0 \<longleftrightarrow>
     hlcCompare (e_hlc a) (e_hlc b) < 0 \<or> e_hlc a = e_hlc b \<and> e_seq a < e_seq b"
  by (auto simp: orderCompare_def orderOf_def hlcCompare_def intro: Hlc.equality)

section \<open>Clock laws\<close>

definition hlc_bounded :: "Hlc \<Rightarrow> bool" where
  "hlc_bounded h \<longleftrightarrow> hlc_c h < HLC_C_LIMIT"

lemma stamp_ok:
  assumes "stamp st pt = Inr (st', h)"
  shows "st' = h" "hlcCompare st h < 0" "hlc_l st \<le> hlc_l h" "pt \<le> hlc_l h" "hlc_bounded h"
  using assms
  by (auto simp: stamp_def Let_def hlcCompare_def hlc_bounded_def max_def split: if_splits)

lemma stamp_fails_iff:
  "(\<exists>e. stamp st pt = Inl e) \<longleftrightarrow> pt \<le> hlc_l st \<and> HLC_C_LIMIT \<le> hlc_c st + 1"
  by (auto simp: stamp_def Let_def max_def HLC_C_LIMIT_def)

lemma merge_bounded: "hlc_bounded (merge st r pt)"
  by (auto simp: merge_def Let_def hlc_bounded_def HLC_C_LIMIT_def)

lemma merge_gt_state: "hlcCompare st (merge st r pt) < 0"
  by (auto simp: merge_def Let_def hlcCompare_def max_def)

lemma merge_gt_remote: "hlcCompare r (merge st r pt) < 0"
  by (auto simp: merge_def Let_def hlcCompare_def max_def)

lemma merge_ge_clock: "pt \<le> hlc_l (merge st r pt)"
  by (auto simp: merge_def Let_def)

section \<open>Runs of the clock\<close>

text \<open>
  The node's clock state moves by local stamps and by merges of accepted remote stamps, in
  any interleaving, with any physical clock readings (a wall clock that runs backwards
  included). \<open>clock_run\<close> returns the stamps issued along such a run.
\<close>

datatype ClockEv = Stamp nat | Merge Hlc nat

fun clock_run :: "Hlc \<Rightarrow> ClockEv list \<Rightarrow> Hlc list \<times> Hlc" where
  "clock_run st [] = ([], st)"
| "clock_run st (Stamp pt # evs) =
     (case stamp st pt of
        Inl _ \<Rightarrow> clock_run st evs
      | Inr (st', h) \<Rightarrow> (case clock_run st' evs of (hs, s) \<Rightarrow> (h # hs, s)))"
| "clock_run st (Merge r pt # evs) = clock_run (merge st r pt) evs"

lemma clock_run_above:
  "clock_run st evs = (hs, s) \<Longrightarrow>
   (\<forall>h \<in> set hs. hlcCompare st h < 0) \<and> hlcCompare st s \<le> 0 \<and>
   sorted_wrt (\<lambda>a b. hlcCompare a b < 0) hs"
proof (induction st evs arbitrary: hs s rule: clock_run.induct)
  case (1 st)
  then show ?case by (simp add: hlcOrd.cmp_refl)
next
  case (2 st pt evs)
  show ?case
  proof (cases "stamp st pt")
    case (Inl e)
    with 2 show ?thesis by simp
  next
    case (Inr p)
    obtain st' h where p: "p = (st', h)" by (cases p)
    obtain hs' where run: "clock_run st' evs = (hs', s)" and hs: "hs = h # hs'"
      using 2(3) Inr p by (auto split: prod.splits)
    note ok = stamp_ok [of st pt st' h] and IH = 2(2) [OF Inr p [symmetric] run]
    have "st' = h" "hlcCompare st h < 0" using ok Inr p by simp_all
    then show ?thesis using IH hs
      by (auto intro: hlcOrd.cmp_trans simp: hlcOrd.cmp_le_iff)
  qed
next
  case (3 st r pt evs)
  have lt: "hlcCompare st (merge st r pt) < 0" by (rule merge_gt_state)
  have IH: "(\<forall>h \<in> set hs. hlcCompare (merge st r pt) h < 0) \<and> hlcCompare (merge st r pt) s \<le> 0 \<and>
    sorted_wrt (\<lambda>a b. hlcCompare a b < 0) hs"
    using 3 by simp
  then show ?case
    using lt hlcOrd.cmp_trans hlcOrd.cmp_less_le_trans by (meson less_imp_le)
qed

lemma clock_run_bounded: "clock_run st evs = (hs, s) \<Longrightarrow> list_all hlc_bounded hs"
proof (induction st evs arbitrary: hs s rule: clock_run.induct)
  case (2 st pt evs)
  then show ?case
    using stamp_ok(5) [of st pt] by (fastforce split: sum.splits prod.splits)
qed auto

section \<open>Properties\<close>

text \<open>C32. Along any interleaving of local stamps and merges of remote stamps, with any wall
  clock readings (a clock that runs backwards included), the stamps issued are strictly
  increasing in HLC order, the first lies above the state the run started from, and every one
  of them has a counter the wire format can carry.\<close>

theorem issued_stamps_increase:
  "case clock_run st evs of (hs, s) \<Rightarrow>
     sorted_wrt (\<lambda>a b. hlcCompare a b < 0) (st # hs) \<and> list_all hlc_bounded hs"
proof -
  obtain hs s where run: "clock_run st evs = (hs, s)" by fastforce
  then have "list_all hlc_bounded hs" by (rule clock_run_bounded)
  then show ?thesis using clock_run_above [OF run] run by simp
qed

text \<open>Merging a remote stamp moves the state strictly above both itself and the remote
  stamp, never below the physical clock, and keeps the counter in range: when the counter would
  overflow, the carry goes to the next millisecond.\<close>

theorem merge_dominates:
  "hlcCompare st (merge st r pt) < 0 \<and> hlcCompare r (merge st r pt) < 0 \<and>
   pt \<le> hlc_l (merge st r pt) \<and> hlc_bounded (merge st r pt)"
  by (simp add: merge_gt_state merge_gt_remote merge_bounded merge_ge_clock)

end
