(* ===== verification/Codec.thy ===== *)
theory Codec
  imports Encoding Hlc_Clock
begin

text \<open>
  \<^verbatim>\<open>src/codec.ts\<close>: the structural validation every entry passes on its way in
  (author append, wire, import), the size cap, and the append-size estimate.
  \<open>validateEntry\<close> takes an untyped JavaScript value and rebuilds the entry from the
  specified fields only.
\<close>

section \<open>Names\<close>

definition topic_char :: "char \<Rightarrow> bool" where
  "topic_char c \<longleftrightarrow> c \<in> set ''abcdefghijklmnopqrstuvwxyz0123456789_.-''"

definition writer_char :: "char \<Rightarrow> bool" where
  "writer_char c \<longleftrightarrow>
     c \<in> set ''ABCDEFGHIJKLMNOPQRSTUVWXYZabcdefghijklmnopqrstuvwxyz0123456789_.:-''"

definition hex_char :: "char \<Rightarrow> bool" where
  "hex_char c \<longleftrightarrow> c \<in> set ''0123456789abcdef''"

definition TOPIC_RE :: "string \<Rightarrow> bool" where
  "TOPIC_RE s \<longleftrightarrow> 1 \<le> length s \<and> length s \<le> 128 \<and> list_all topic_char s"

definition WRITER_RE :: "string \<Rightarrow> bool" where
  "WRITER_RE s \<longleftrightarrow> 1 \<le> length s \<and> length s \<le> 128 \<and> list_all writer_char s"

definition CHAIN_RE :: "string \<Rightarrow> bool" where
  "CHAIN_RE s \<longleftrightarrow> length s = 64 \<and> list_all hex_char s"

definition MAX_KEY_BYTES :: nat where
  "MAX_KEY_BYTES = 512"

definition RESERVED_NAME :: string where
  "RESERVED_NAME = ''__proto__''"

definition assertTopic :: "jsval \<Rightarrow> string result" where
  "assertTopic v = (case v of
     JStr s \<Rightarrow> if \<not> TOPIC_RE s \<or> s = RESERVED_NAME then Inl ERR_ENTRY_ENCODING else Inr s
   | _ \<Rightarrow> Inl ERR_ENTRY_ENCODING)"

definition assertWriter :: "jsval \<Rightarrow> string result" where
  "assertWriter v = (case v of
     JStr s \<Rightarrow> if \<not> WRITER_RE s \<or> s = RESERVED_NAME then Inl ERR_ENTRY_ENCODING else Inr s
   | _ \<Rightarrow> Inl ERR_ENTRY_ENCODING)"

definition assertNonNegSafeInt :: "jsval \<Rightarrow> nat result" where
  "assertNonNegSafeInt v = (case v of
     JNum n \<Rightarrow> if \<not> isSafeInteger n \<or> num_less n 0 then Inl ERR_ENTRY_ENCODING
               else Inr (nat_of_num n)
   | _ \<Rightarrow> Inl ERR_ENTRY_ENCODING)"

definition assertKey :: "jsval \<Rightarrow> string result" where
  "assertKey v = (case v of
     JStr s \<Rightarrow> if utf8ByteLength s > MAX_KEY_BYTES then Inl ERR_ENTRY_ENCODING else Inr s
   | _ \<Rightarrow> Inl ERR_ENTRY_ENCODING)"

section \<open>Entries as JavaScript objects\<close>

definition hlc_js :: "Hlc \<Rightarrow> jsval" where
  "hlc_js h = JObj [(''l'', JNum (num_of_nat (hlc_l h))), (''c'', JNum (num_of_nat (hlc_c h)))]"

definition entry_js :: "LogEntry \<Rightarrow> jsval" where
  "entry_js e = JObj (
     [(''topic'', JStr (e_topic e)), (''writer'', JStr (e_writer e)),
      (''seq'', JNum (num_of_nat (e_seq e))), (''hlc'', hlc_js (e_hlc e)),
      (''kind'', JStr (e_kind e))] @
     (case e_key e of None \<Rightarrow> [] | Some k \<Rightarrow> [(''key'', JStr k)]) @
     (case e_causal e of None \<Rightarrow> [] | Some c \<Rightarrow> [(''causal'', causal_js c)]) @
     (case e_ref e of None \<Rightarrow> [] | Some r \<Rightarrow> [(''ref'', entryId_js r)]) @
     [(''payload'', e_payload e), (''chain'', JStr (e_chain e))])"

definition assertEntrySize :: "Prims \<Rightarrow> LogEntry \<Rightarrow> Constants \<Rightarrow> unit result" where
  "assertEntrySize P e K =
     rbind (jcs P (entry_js e)) (\<lambda>s.
       guardr (utf8ByteLength s \<le> MAX_ENTRY_BYTES K) ERR_ENTRY_TOO_LARGE)"

section \<open>Structural validation\<close>

definition validateCausal :: "jsval \<Rightarrow> (string \<times> nat) option result" where
  "validateCausal v = (case v of
     JUndef \<Rightarrow> Inr None
   | JArr c \<Rightarrow> if length c \<noteq> 2 then Inl ERR_ENTRY_ENCODING
               else rbind (assertWriter (arrGet c 0)) (\<lambda>w.
                    rbind (assertNonNegSafeInt (arrGet c 1)) (\<lambda>s. Inr (Some (w, s))))
   | _ \<Rightarrow> Inl ERR_ENTRY_ENCODING)"

definition validateRef :: "jsval \<Rightarrow> EntryId option result" where
  "validateRef v = (case v of
     JUndef \<Rightarrow> Inr None
   | JArr r \<Rightarrow> if length r \<noteq> 3 then Inl ERR_ENTRY_ENCODING
               else rbind (assertTopic (arrGet r 0)) (\<lambda>t.
                    rbind (assertWriter (arrGet r 1)) (\<lambda>w.
                    rbind (assertNonNegSafeInt (arrGet r 2)) (\<lambda>s. Inr (Some (t, w, s)))))
   | _ \<Rightarrow> Inl ERR_ENTRY_ENCODING)"

definition validateHlc :: "jsval \<Rightarrow> Hlc result" where
  "validateHlc v =
     rbind (guardr (isObject v) ERR_ENTRY_ENCODING) (\<lambda>_.
     rbind (assertNonNegSafeInt (getProp v ''l'')) (\<lambda>l.
     rbind (assertNonNegSafeInt (getProp v ''c'')) (\<lambda>c.
     rbind (guardr (c < HLC_C_LIMIT) ERR_ENTRY_ENCODING) (\<lambda>_.
       Inr \<lparr>hlc_l = l, hlc_c = c\<rparr>))))"

definition validateKind :: "jsval \<Rightarrow> string result" where
  "validateKind v = (case v of
     JStr s \<Rightarrow> if s = [] then Inl ERR_ENTRY_ENCODING else Inr s
   | _ \<Rightarrow> Inl ERR_ENTRY_ENCODING)"

definition validateKey :: "jsval \<Rightarrow> string option result" where
  "validateKey v = (if v = JUndef then Inr None else rbind (assertKey v) (\<lambda>k. Inr (Some k)))"

definition validateChain :: "jsval \<Rightarrow> string result" where
  "validateChain v = (case v of
     JStr s \<Rightarrow> if \<not> CHAIN_RE s then Inl ERR_ENTRY_ENCODING else Inr s
   | _ \<Rightarrow> Inl ERR_ENTRY_ENCODING)"

definition validateEntry :: "Prims \<Rightarrow> Constants \<Rightarrow> jsval \<Rightarrow> LogEntry result" where
  "validateEntry P K obj =
     rbind (guardr (isObject obj) ERR_ENTRY_ENCODING) (\<lambda>_.
     rbind (assertTopic (getProp obj ''topic'')) (\<lambda>topic.
     rbind (assertWriter (getProp obj ''writer'')) (\<lambda>writer.
     rbind (assertNonNegSafeInt (getProp obj ''seq'')) (\<lambda>seq.
     rbind (guardr (1 \<le> seq) ERR_ENTRY_ENCODING) (\<lambda>_.
     rbind (validateHlc (getProp obj ''hlc'')) (\<lambda>hlc.
     rbind (validateKind (getProp obj ''kind'')) (\<lambda>kind.
     rbind (validateKey (getProp obj ''key'')) (\<lambda>key.
     rbind (validateCausal (getProp obj ''causal'')) (\<lambda>causal.
     rbind (validateRef (getProp obj ''ref'')) (\<lambda>ref.
     rbind (guardr (hasProp obj ''payload'') ERR_ENTRY_ENCODING) (\<lambda>_.
     rbind (assertJsonValue (getProp obj ''payload'')) (\<lambda>_.
     rbind (validateChain (getProp obj ''chain'')) (\<lambda>chain.
       let entry = \<lparr>e_topic = topic, e_writer = writer, e_seq = seq, e_hlc = hlc,
                    e_kind = kind, e_key = key, e_causal = causal, e_ref = ref,
                    e_payload = getProp obj ''payload'', e_chain = chain\<rparr>
       in rbind (assertEntrySize P entry K) (\<lambda>_. Inr entry))))))))))))))"

section \<open>Size estimation\<close>

record AppendShape =
  s_topic :: string
  s_kind :: string
  s_payload :: jsval
  s_key :: "string option"
  s_causal :: "(string \<times> nat) option"
  s_ref :: "EntryId option"

definition MAX_NUMERIC_FIELD :: nat where
  "MAX_NUMERIC_FIELD = MAX_SAFE_INTEGER"

definition estimateEntryBytes ::
  "Prims \<Rightarrow> AppendShape \<Rightarrow> string option \<Rightarrow> nat option \<Rightarrow> Hlc option \<Rightarrow> nat result" where
  "estimateEntryBytes P shape writer seq hlc =
     (let entry = \<lparr>e_topic = s_topic shape,
        e_writer = (case writer of None \<Rightarrow> replicate 128 (CHR ''W'') | Some w \<Rightarrow> w),
        e_seq = (case seq of None \<Rightarrow> MAX_NUMERIC_FIELD | Some s \<Rightarrow> s),
        e_hlc = (case hlc of None \<Rightarrow> \<lparr>hlc_l = MAX_NUMERIC_FIELD, hlc_c = MAX_NUMERIC_FIELD\<rparr>
                 | Some h \<Rightarrow> h),
        e_kind = s_kind shape, e_key = s_key shape, e_causal = s_causal shape,
        e_ref = s_ref shape, e_payload = s_payload shape,
        e_chain = replicate 64 (CHR ''f'')\<rparr>
      in rbind (jcs P (entry_js entry)) (\<lambda>s. Inr (utf8ByteLength s)))"

section \<open>What validation establishes\<close>

definition name_ok :: "string \<Rightarrow> bool" where
  "name_ok s \<longleftrightarrow> s \<noteq> RESERVED_NAME"

definition wf_entry :: "LogEntry \<Rightarrow> bool" where
  "wf_entry e \<longleftrightarrow>
     TOPIC_RE (e_topic e) \<and> name_ok (e_topic e) \<and>
     WRITER_RE (e_writer e) \<and> name_ok (e_writer e) \<and>
     1 \<le> e_seq e \<and> e_seq e \<le> MAX_SAFE_INTEGER \<and>
     hlc_l (e_hlc e) \<le> MAX_SAFE_INTEGER \<and> hlc_c (e_hlc e) < HLC_C_LIMIT \<and>
     e_kind e \<noteq> [] \<and>
     (case e_key e of None \<Rightarrow> True | Some k \<Rightarrow> length k \<le> MAX_KEY_BYTES) \<and>
     (case e_causal e of None \<Rightarrow> True
        | Some (w, s) \<Rightarrow> WRITER_RE w \<and> name_ok w \<and> s \<le> MAX_SAFE_INTEGER) \<and>
     (case e_ref e of None \<Rightarrow> True
        | Some (t, w, s) \<Rightarrow> TOPIC_RE t \<and> name_ok t \<and> WRITER_RE w \<and> name_ok w \<and> s \<le> MAX_SAFE_INTEGER) \<and>
     assertJsonValue (e_payload e) = Inr () \<and> CHAIN_RE (e_chain e)"

definition entry_fits :: "Prims \<Rightarrow> Constants \<Rightarrow> LogEntry \<Rightarrow> bool" where
  "entry_fits P K e \<longleftrightarrow> (\<exists>s. jcs P (entry_js e) = Inr s \<and> length s \<le> MAX_ENTRY_BYTES K)"

named_theorems assert_defs "unfolding rules of the structural assertions"

lemmas [assert_defs] = assertTopic_def assertWriter_def assertNonNegSafeInt_def assertKey_def
  validateCausal_def validateRef_def validateHlc_def validateKind_def validateKey_def
  validateChain_def

lemma assertTopic_Inr: "assertTopic v = Inr s \<longleftrightarrow> v = JStr s \<and> TOPIC_RE s \<and> name_ok s"
  by (auto simp: assertTopic_def name_ok_def split: jsval.splits)

lemma assertWriter_Inr: "assertWriter v = Inr s \<longleftrightarrow> v = JStr s \<and> WRITER_RE s \<and> name_ok s"
  by (auto simp: assertWriter_def name_ok_def split: jsval.splits)

lemma assertNonNegSafeInt_Inr:
  "assertNonNegSafeInt v = Inr n \<longleftrightarrow> v = JNum (num_of_nat n) \<and> n \<le> MAX_SAFE_INTEGER"
proof (cases v)
  case (JNum x)
  have "isSafeInteger x \<and> \<not> num_less x 0 \<Longrightarrow> x = num_of_nat (nat_of_num x) \<and> nat_of_num x \<le> MAX_SAFE_INTEGER"
    using nonNegSafe_eq [of x] by (simp add: nonNegSafe_def)
  then show ?thesis using JNum by (auto simp: assertNonNegSafeInt_def)
qed (simp_all add: assertNonNegSafeInt_def)

lemma validateHlc_Inr:
  "validateHlc v = Inr h \<Longrightarrow> hlc_l h \<le> MAX_SAFE_INTEGER \<and> hlc_c h < HLC_C_LIMIT"
  by (auto simp: validateHlc_def rbind_eq_Inr assertNonNegSafeInt_Inr)

lemma validateHlc_js:
  "validateHlc (hlc_js h) = Inr h'
   \<longleftrightarrow> h' = h \<and> hlc_l h \<le> MAX_SAFE_INTEGER \<and> hlc_c h \<le> MAX_SAFE_INTEGER \<and> hlc_c h < HLC_C_LIMIT"
  by (cases h) (auto simp: validateHlc_def hlc_js_def rbind_eq_Inr assertNonNegSafeInt_Inr num_of_nat_def)

lemma c_limit_safe: "c < HLC_C_LIMIT \<Longrightarrow> c \<le> MAX_SAFE_INTEGER"
  by (simp add: HLC_C_LIMIT_def MAX_SAFE_INTEGER_def)

lemma validateKind_Inr: "validateKind v = Inr s \<longleftrightarrow> v = JStr s \<and> s \<noteq> []"
  by (auto simp: validateKind_def split: jsval.splits)

lemma validateKey_Inr: "validateKey v = Inr k \<longleftrightarrow>
   (v = JUndef \<and> k = None) \<or> (\<exists>s. v = JStr s \<and> k = Some s \<and> length s \<le> MAX_KEY_BYTES)"
  by (auto simp: validateKey_def assertKey_def utf8ByteLength_def rbind_eq_Inr split: jsval.splits)

lemma validateCausal_Inr:
  "validateCausal v = Inr c \<Longrightarrow>
   (case c of None \<Rightarrow> True | Some (w, s) \<Rightarrow> WRITER_RE w \<and> name_ok w \<and> s \<le> MAX_SAFE_INTEGER)"
  by (auto simp: validateCausal_def rbind_eq_Inr assertWriter_Inr assertNonNegSafeInt_Inr
      split: jsval.splits if_splits)

lemma validateCausal_js: "validateCausal (causal_js (w, s)) = Inr c \<longleftrightarrow>
   c = Some (w, s) \<and> WRITER_RE w \<and> name_ok w \<and> s \<le> MAX_SAFE_INTEGER"
  by (auto simp: validateCausal_def causal_js_def arrGet_def rbind_eq_Inr assertWriter_Inr
      assertNonNegSafeInt_Inr num_of_nat_def)

lemma validateRef_Inr:
  "validateRef v = Inr c \<Longrightarrow>
   (case c of None \<Rightarrow> True
    | Some (t, w, s) \<Rightarrow> TOPIC_RE t \<and> name_ok t \<and> WRITER_RE w \<and> name_ok w \<and> s \<le> MAX_SAFE_INTEGER)"
  by (auto simp: validateRef_def rbind_eq_Inr assertTopic_Inr assertWriter_Inr
      assertNonNegSafeInt_Inr split: jsval.splits if_splits)

lemma validateRef_js: "validateRef (entryId_js (t, w, s)) = Inr c \<longleftrightarrow>
   c = Some (t, w, s) \<and> TOPIC_RE t \<and> name_ok t \<and> WRITER_RE w \<and> name_ok w \<and> s \<le> MAX_SAFE_INTEGER"
  by (auto simp: validateRef_def entryId_js_def arrGet_def rbind_eq_Inr assertTopic_Inr
      assertWriter_Inr assertNonNegSafeInt_Inr num_of_nat_def)

lemma validateChain_Inr: "validateChain v = Inr s \<longleftrightarrow> v = JStr s \<and> CHAIN_RE s"
  by (auto simp: validateChain_def split: jsval.splits)

lemma assertEntrySize_Inr: "assertEntrySize P e K = Inr u \<longleftrightarrow> entry_fits P K e"
  by (auto simp: assertEntrySize_def entry_fits_def rbind_eq_Inr utf8ByteLength_def)

lemmas validate_Inr = rbind_eq_Inr assertTopic_Inr assertWriter_Inr assertNonNegSafeInt_Inr
  validateKind_Inr validateKey_Inr validateChain_Inr assertEntrySize_Inr

lemma validateEntry_wf:
  assumes "validateEntry P K v = Inr e"
  shows "wf_entry e \<and> entry_fits P K e"
proof -
  from assms have e:
    "TOPIC_RE (e_topic e)" "name_ok (e_topic e)" "WRITER_RE (e_writer e)" "name_ok (e_writer e)"
    "1 \<le> e_seq e" "e_seq e \<le> MAX_SAFE_INTEGER" "validateHlc (getProp v ''hlc'') = Inr (e_hlc e)"
    "e_kind e \<noteq> []" "validateKey (getProp v ''key'') = Inr (e_key e)"
    "validateCausal (getProp v ''causal'') = Inr (e_causal e)"
    "validateRef (getProp v ''ref'') = Inr (e_ref e)"
    "assertJsonValue (e_payload e) = Inr ()" "CHAIN_RE (e_chain e)" "entry_fits P K e"
    by (clarsimp simp: validateEntry_def rbind_eq_Inr assertTopic_Inr assertWriter_Inr
        assertNonNegSafeInt_Inr validateKind_Inr validateChain_Inr assertEntrySize_Inr Let_def)+
  moreover have "case e_key e of None \<Rightarrow> True | Some k \<Rightarrow> length k \<le> MAX_KEY_BYTES"
    using e(9) by (auto simp: validateKey_Inr split: option.splits)
  ultimately show ?thesis
    using validateHlc_Inr [OF e(7)] validateCausal_Inr [OF e(10)] validateRef_Inr [OF e(11)]
    unfolding wf_entry_def by blast
qed

text \<open>The fields of an entry's object, as property reads.\<close>

lemma entry_js_props:
  "getProp (entry_js e) ''topic'' = JStr (e_topic e)"
  "getProp (entry_js e) ''writer'' = JStr (e_writer e)"
  "getProp (entry_js e) ''seq'' = JNum (num_of_nat (e_seq e))"
  "getProp (entry_js e) ''hlc'' = hlc_js (e_hlc e)"
  "getProp (entry_js e) ''kind'' = JStr (e_kind e)"
  "getProp (entry_js e) ''key'' = (case e_key e of None \<Rightarrow> JUndef | Some k \<Rightarrow> JStr k)"
  "getProp (entry_js e) ''causal'' = (case e_causal e of None \<Rightarrow> JUndef | Some c \<Rightarrow> causal_js c)"
  "getProp (entry_js e) ''ref'' = (case e_ref e of None \<Rightarrow> JUndef | Some r \<Rightarrow> entryId_js r)"
  "getProp (entry_js e) ''payload'' = e_payload e"
  "getProp (entry_js e) ''chain'' = JStr (e_chain e)"
  "hasProp (entry_js e) ''payload''"
  "isObject (entry_js e)"
  by (simp_all add: entry_js_def split: option.split)

lemma validateEntry_roundtrip:
  "validateEntry P K (entry_js e) = Inr e' \<longleftrightarrow> e' = e \<and> wf_entry e \<and> entry_fits P K e"
proof -
  have causal: "validateCausal (case e_causal e of None \<Rightarrow> JUndef | Some c \<Rightarrow> causal_js c) = Inr c \<longleftrightarrow>
      c = e_causal e \<and> (case e_causal e of None \<Rightarrow> True
        | Some (w, s) \<Rightarrow> WRITER_RE w \<and> name_ok w \<and> s \<le> MAX_SAFE_INTEGER)" for c
    by (cases "e_causal e") (auto simp: validateCausal_js, auto simp: validateCausal_def)
  have ref: "validateRef (case e_ref e of None \<Rightarrow> JUndef | Some r \<Rightarrow> entryId_js r) = Inr c \<longleftrightarrow>
      c = e_ref e \<and> (case e_ref e of None \<Rightarrow> True
        | Some (t, w, s) \<Rightarrow> TOPIC_RE t \<and> name_ok t \<and> WRITER_RE w \<and> name_ok w \<and> s \<le> MAX_SAFE_INTEGER)" for c
    by (cases "e_ref e") (auto simp: validateRef_js, auto simp: validateRef_def)
  have key: "validateKey (case e_key e of None \<Rightarrow> JUndef | Some k \<Rightarrow> JStr k) = Inr c \<longleftrightarrow>
      c = e_key e \<and> (case e_key e of None \<Rightarrow> True | Some k \<Rightarrow> length k \<le> MAX_KEY_BYTES)" for c
    by (cases "e_key e") (auto simp: validateKey_Inr)
  have num: "num_of_nat a = num_of_nat b \<longleftrightarrow> a = b" for a b by (metis nat_of_num_of_nat)
  have ent: "\<lparr>e_topic = e_topic e, e_writer = e_writer e, e_seq = e_seq e, e_hlc = e_hlc e,
      e_kind = e_kind e, e_key = e_key e, e_causal = e_causal e, e_ref = e_ref e,
      e_payload = e_payload e, e_chain = e_chain e\<rparr> = e" by simp
  show ?thesis
    by (simp add: validateEntry_def entry_js_props rbind_eq_Inr assertTopic_Inr assertWriter_Inr
        assertNonNegSafeInt_Inr validateKind_Inr validateChain_Inr assertEntrySize_Inr Let_def
        causal ref key validateHlc_js num wf_entry_def ent cong: conj_cong)
      (use c_limit_safe in blast)
qed

section \<open>Properties\<close>

text \<open>Validation accepts the object of an entry exactly when the entry is well formed and
  fits the size limit, and then returns that entry: parsing what the code prints loses
  nothing.\<close>

theorem entry_object_roundtrip:
  "validateEntry P K (entry_js e) = Inr e' \<longleftrightarrow> e' = e \<and> wf_entry e \<and> entry_fits P K e"
  by (rule validateEntry_roundtrip)

text \<open>Whatever object a peer sends, an entry that comes out of validation is well formed
  (names, sequence number, HLC counter, key bytes, causal and reference shapes, JSON payload,
  chain format), within the size limit, and validates again to itself.\<close>

theorem accepted_entry_wf:
  assumes "validateEntry P K v = Inr e"
  shows "wf_entry e \<and> entry_fits P K e \<and> validateEntry P K (entry_js e) = Inr e"
  using validateEntry_wf [OF assms] validateEntry_roundtrip by simp

definition codec_prims :: Prims where
  "codec_prims = \<lparr>canonicalizeLib = (\<lambda>v. Some ''{}''), sha256Hex = id\<rparr>"

definition wire_demo :: LogEntry where
  "wire_demo = \<lparr>e_topic = ''t'', e_writer = ''w'', e_seq = 1, e_hlc = \<lparr>hlc_l = 7, hlc_c = 0\<rparr>,
     e_kind = ''k'', e_key = None, e_causal = None, e_ref = None, e_payload = JNull,
     e_chain = replicate 64 (CHR ''a'')\<rparr>"

lemma wire_demo_ok: "wf_entry wire_demo" "entry_fits codec_prims DEFAULT_CONSTANTS wire_demo"
  by (simp add: wf_entry_def wire_demo_def name_ok_def TOPIC_RE_def WRITER_RE_def CHAIN_RE_def
      topic_char_def writer_char_def hex_char_def RESERVED_NAME_def HLC_C_LIMIT_def
      MAX_SAFE_INTEGER_def list_all_iff)
    (simp add: entry_fits_def codec_prims_def jcs_def DEFAULT_CONSTANTS_def)

theorem accepted_entry_wf_witness: "wf_entry wire_demo"
proof -
  have "validateEntry codec_prims DEFAULT_CONSTANTS (entry_js wire_demo) = Inr wire_demo"
    using wire_demo_ok by (simp add: validateEntry_roundtrip)
  from accepted_entry_wf [OF this] show ?thesis ..
qed

end
