(* ===== verification/Topics.thy ===== *)
theory Topics
  imports Codec
begin

text \<open>
  \<^verbatim>\<open>src/topics.ts\<close> and the policy part of \<^verbatim>\<open>src/encoding.ts\<close>:
  validation of a topic policy, conflict-policy resolution for register keys, and the
  per-process registry in which a policy never changes.
\<close>

section \<open>Policies\<close>

record ConflictCfg =
  cf_default :: "string option"
  cf_overrides :: "(string \<times> string) list option"

record TopicPolicy =
  p_kind :: string
  p_mode :: string
  p_size :: "jsnum option"
  p_replication :: string
  p_access :: string
  p_conflict :: "ConflictCfg option"
  p_finalityAuthority :: "string option"
  p_hintKeys :: "string option"
  p_flushThrottleMs :: "jsnum option"
  p_keyed :: "jsval option"

text \<open>The host's authority callbacks; an absent hook is \<open>None\<close>.\<close>

record AuthorityHooks =
  verifyFinality :: "(FinalityCert \<Rightarrow> bool) option"
  verifyWriterDirective :: "(WriterDirective \<Rightarrow> bool) option"
  verifyTakeover :: "(LogEntry \<Rightarrow> bool) option"
  issueWriterDirective :: "(UnsignedDirective \<Rightarrow> WriterDirective) option"
  issueTakeover :: "(string \<times> string \<times> string \<Rightarrow> string) option"

definition CONFLICT_POLICIES :: "string list" where
  "CONFLICT_POLICIES = [''lww'', ''fww'', ''resolver'', ''owned'']"

definition overridesOf :: "TopicPolicy \<Rightarrow> (string \<times> string) list" where
  "overridesOf p = (case p_conflict p of None \<Rightarrow> []
     | Some c \<Rightarrow> (case cf_overrides c of None \<Rightarrow> [] | Some xs \<Rightarrow> xs))"

definition defaultOf :: "TopicPolicy \<Rightarrow> string option" where
  "defaultOf p = (case p_conflict p of None \<Rightarrow> None | Some c \<Rightarrow> cf_default c)"

text \<open>An exact key, or a literal prefix followed by \<open>.*\<close> with no other wildcard.\<close>

definition OVERRIDE_GLOB_RE :: "string \<Rightarrow> bool" where
  "OVERRIDE_GLOB_RE s \<longleftrightarrow> 3 \<le> length s \<and> drop (length s - 2) s = ''.*'' \<and>
     CHR ''*'' \<notin> set (take (length s - 2) s)"

definition usesOwned :: "TopicPolicy \<Rightarrow> bool" where
  "usesOwned p \<longleftrightarrow> defaultOf p = Some ''owned'' \<or> ''owned'' \<in> set (map snd (overridesOf p))"

definition numSafe :: "jsnum option \<Rightarrow> bool" where
  "numSafe n = (case n of None \<Rightarrow> False | Some x \<Rightarrow> isSafeInteger x)"

definition numLess :: "jsnum option \<Rightarrow> int \<Rightarrow> bool" where
  "numLess n k = (case n of None \<Rightarrow> False | Some x \<Rightarrow> num_less x k)"

definition tombstoneKindOf :: "jsval \<Rightarrow> string option" where
  "tombstoneKindOf k =
     (if isObject k then (case getProp k ''tombstoneKind'' of JStr s \<Rightarrow> Some s | _ \<Rightarrow> None) else None)"

fun check_overrides :: "(string \<times> string) list \<Rightarrow> unit result" where
  "check_overrides [] = Inr ()"
| "check_overrides ((pattern, policy) # xs) =
     (if policy \<notin> set CONFLICT_POLICIES then Inl ERR_MISUSE
      else if CHR ''*'' \<in> set pattern \<and> \<not> OVERRIDE_GLOB_RE pattern then Inl ERR_MISUSE
      else check_overrides xs)"

definition check_conflict :: "TopicPolicy \<Rightarrow> unit result" where
  "check_conflict p = (case p_conflict p of None \<Rightarrow> Inr ()
     | Some c \<Rightarrow>
        if p_kind p \<noteq> ''register'' then Inl ERR_MISUSE
        else if (case cf_default c of None \<Rightarrow> False | Some d \<Rightarrow> d \<notin> set CONFLICT_POLICIES)
             then Inl ERR_MISUSE
        else check_overrides (overridesOf p))"

definition check_keyed :: "TopicPolicy \<Rightarrow> unit result" where
  "check_keyed p = (case p_keyed p of None \<Rightarrow> Inr ()
     | Some k \<Rightarrow>
        if p_kind p \<noteq> ''append'' \<or> p_mode p \<noteq> ''full'' \<or> p_replication p \<noteq> ''subscribe-only''
        then Inl ERR_MISUSE
        else (case tombstoneKindOf k of None \<Rightarrow> Inl ERR_MISUSE
              | Some s \<Rightarrow> if s = [] then Inl ERR_MISUSE else Inr ()))"

definition validatePolicy :: "string \<Rightarrow> TopicPolicy \<Rightarrow> AuthorityHooks \<Rightarrow> unit result" where
  "validatePolicy topic p authority =
     rbind (assertTopic (JStr topic)) (\<lambda>_.
     if p_kind p \<noteq> ''append'' \<and> p_kind p \<noteq> ''register'' then Inl ERR_MISUSE
     else if p_mode p \<noteq> ''full'' \<and> p_mode p \<noteq> ''ring'' \<and> p_mode p \<noteq> ''none'' then Inl ERR_MISUSE
     else if p_mode p = ''ring'' \<and> (\<not> numSafe (p_size p) \<or> numLess (p_size p) 1) then Inl ERR_MISUSE
     else if (p_mode p = ''ring'' \<or> p_mode p = ''none'') \<and>
             (p_replication p \<noteq> ''subscribe-only'' \<or> p_kind p \<noteq> ''append'') then Inl ERR_MISUSE
     else if p_kind p = ''register'' \<and> p_mode p \<noteq> ''full'' then Inl ERR_MISUSE
     else if p_replication p \<noteq> ''full-sync'' \<and> p_replication p \<noteq> ''subscribe-only'' then Inl ERR_MISUSE
     else if p_access p \<noteq> ''content'' \<and> p_access p \<noteq> ''metadata'' then Inl ERR_MISUSE
     else rbind (check_conflict p) (\<lambda>_.
     if p_finalityAuthority p \<noteq> None \<and> verifyFinality authority = None then Inl ERR_MISUSE
     else if usesOwned p \<and> (verifyTakeover authority = None \<or> verifyWriterDirective authority = None)
          then Inl ERR_MISUSE
     else if (case p_hintKeys p of None \<Rightarrow> False | Some h \<Rightarrow> h \<noteq> ''plain'' \<and> h \<noteq> ''hash'')
          then Inl ERR_MISUSE
     else rbind (check_keyed p) (\<lambda>_.
     if p_flushThrottleMs p \<noteq> None \<and> (\<not> numSafe (p_flushThrottleMs p) \<or> numLess (p_flushThrottleMs p) 0)
     then Inl ERR_MISUSE
     else Inr ())))"

section \<open>Conflict-policy resolution\<close>

text \<open>
  Reading a property of a plain JavaScript object by a computed name also finds what the
  object inherits from \<^verbatim>\<open>Object.prototype\<close>; those values are no strings and equal
  none of the policy names. \<open>PInherited\<close> is such a value.
\<close>

datatype PolicyVal = PName string | PInherited

definition objectProtoNames :: "string list" where
  "objectProtoNames = [''constructor'', ''hasOwnProperty'', ''isPrototypeOf'',
     ''propertyIsEnumerable'', ''toLocaleString'', ''toString'', ''valueOf'', ''__proto__'',
     ''__defineGetter__'', ''__defineSetter__'', ''__lookupGetter__'', ''__lookupSetter__'']"

definition indexOverrides :: "(string \<times> string) list \<Rightarrow> string \<Rightarrow> PolicyVal option" where
  "indexOverrides overrides key =
     (case map_of overrides key of
        Some p \<Rightarrow> Some (PName p)
      | None \<Rightarrow> if key \<in> set objectProtoNames then Some PInherited else None)"

definition isGlob :: "string \<Rightarrow> bool" where
  "isGlob pattern \<longleftrightarrow> 2 \<le> length pattern \<and> drop (length pattern - 2) pattern = ''.*''"

definition startsWith :: "string \<Rightarrow> string \<Rightarrow> bool" where
  "startsWith s prefix \<longleftrightarrow> length prefix \<le> length s \<and> take (length prefix) s = prefix"

fun bestGlob :: "(string \<times> string) list \<Rightarrow> string \<Rightarrow> (nat \<times> string) option \<Rightarrow> (nat \<times> string) option" where
  "bestGlob [] key best = best"
| "bestGlob ((pattern, policy) # xs) key best =
     (if \<not> isGlob pattern then bestGlob xs key best
      else let prefix = butlast pattern in
        if startsWith key prefix \<and> (case best of None \<Rightarrow> True | Some (len, _) \<Rightarrow> length prefix > len)
        then bestGlob xs key (Some (length prefix, policy))
        else bestGlob xs key best)"

definition conflictPolicyFor :: "TopicPolicy \<Rightarrow> string \<Rightarrow> PolicyVal" where
  "conflictPolicyFor p key =
     (let overrides = overridesOf p in
      case indexOverrides overrides key of
        Some v \<Rightarrow> v
      | None \<Rightarrow> (case bestGlob overrides key None of
           Some (_, policy) \<Rightarrow> PName policy
         | None \<Rightarrow> (case defaultOf p of Some d \<Rightarrow> PName d | None \<Rightarrow> PName ''lww'')))"

section \<open>Schema hash\<close>

definition str_js :: "string option \<Rightarrow> jsval" where
  "str_js s = (case s of None \<Rightarrow> JNull | Some x \<Rightarrow> JStr x)"

definition normalizedPolicy :: "TopicPolicy \<Rightarrow> jsval" where
  "normalizedPolicy p = JObj
     [(''kind'', JStr (p_kind p)),
      (''conflict'',
         if p_kind p = ''register''
         then JObj [(''default'', JStr (case defaultOf p of None \<Rightarrow> ''lww'' | Some d \<Rightarrow> d)),
                    (''overrides'', JObj (map (\<lambda>(k, v). (k, JStr v)) (overridesOf p)))]
         else JNull),
      (''registerSemanticsVersion'', JNum (num_of_nat 1)),
      (''finalityAuthority'', str_js (p_finalityAuthority p))]"

definition topicSchemaHashOf :: "Prims \<Rightarrow> TopicPolicy \<Rightarrow> string result" where
  "topicSchemaHashOf P p = rbind (jcs P (normalizedPolicy p)) (\<lambda>s. Inr (sha256HexUtf8 P s))"

text \<open>The policy object itself, as the registry compares it.\<close>

definition opt_prop :: "string \<Rightarrow> jsval option \<Rightarrow> (string \<times> jsval) list" where
  "opt_prop k v = (case v of None \<Rightarrow> [] | Some x \<Rightarrow> [(k, x)])"

definition policy_js :: "TopicPolicy \<Rightarrow> jsval" where
  "policy_js p = JObj (
     [(''kind'', JStr (p_kind p)),
      (''retention'', JObj ((''mode'', JStr (p_mode p)) # opt_prop ''size'' (map_option JNum (p_size p)))),
      (''replication'', JStr (p_replication p)), (''access'', JStr (p_access p))] @
     opt_prop ''conflict'' (map_option (\<lambda>c. JObj (
        opt_prop ''default'' (map_option JStr (cf_default c)) @
        opt_prop ''overrides'' (map_option (\<lambda>xs. JObj (map (\<lambda>(k, v). (k, JStr v)) xs)) (cf_overrides c))))
        (p_conflict p)) @
     opt_prop ''finalityAuthority'' (map_option JStr (p_finalityAuthority p)) @
     opt_prop ''hintKeys'' (map_option JStr (p_hintKeys p)) @
     opt_prop ''flushThrottleMs'' (map_option JNum (p_flushThrottleMs p)) @
     opt_prop ''keyed'' (p_keyed p))"

section \<open>The registry\<close>

record TopicEntry =
  te_policy :: TopicPolicy
  te_schemaHash :: string

type_synonym TopicRegistry = "(string \<times> TopicEntry) list"

definition reg_define ::
  "Prims \<Rightarrow> TopicRegistry \<Rightarrow> string \<Rightarrow> TopicPolicy \<Rightarrow> AuthorityHooks \<Rightarrow> (TopicRegistry \<times> TopicEntry) result" where
  "reg_define P reg topic policy authority =
     rbind (validatePolicy topic policy authority) (\<lambda>_.
     case map_of reg topic of
       Some existing \<Rightarrow>
         rbind (jcs P (policy_js policy)) (\<lambda>a.
         rbind (jcs P (policy_js (te_policy existing))) (\<lambda>b.
           if a \<noteq> b then Inl ERR_MISUSE else Inr (reg, existing)))
     | None \<Rightarrow>
         rbind (topicSchemaHashOf P policy) (\<lambda>h.
           let entry = \<lparr>te_policy = policy, te_schemaHash = h\<rparr>
           in Inr (reg @ [(topic, entry)], entry)))"

definition reg_get :: "TopicRegistry \<Rightarrow> string \<Rightarrow> TopicEntry result" where
  "reg_get reg topic = (case map_of reg topic of None \<Rightarrow> Inl ERR_UNKNOWN_TOPIC | Some e \<Rightarrow> Inr e)"

definition reg_has :: "TopicRegistry \<Rightarrow> string \<Rightarrow> bool" where
  "reg_has reg topic \<longleftrightarrow> map_of reg topic \<noteq> None"

definition reg_list :: "TopicRegistry \<Rightarrow> string list" where
  "reg_list reg = map fst reg"

text \<open>A sequence of \<^verbatim>\<open>defineTopic\<close> calls; one that throws leaves the registry as it was.\<close>

fun define_all :: "Prims \<Rightarrow> AuthorityHooks \<Rightarrow> TopicRegistry \<Rightarrow> (string \<times> TopicPolicy) list \<Rightarrow> TopicRegistry" where
  "define_all P A reg [] = reg"
| "define_all P A reg ((t, p) # ds) =
     (case reg_define P reg t p A of
        Inl _ \<Rightarrow> define_all P A reg ds
      | Inr (reg', _) \<Rightarrow> define_all P A reg' ds)"

section \<open>Lemmas\<close>

text \<open>What an accepted policy guarantees to the log, the pruners and the register fold.\<close>

definition policy_sound :: "TopicPolicy \<Rightarrow> AuthorityHooks \<Rightarrow> bool" where
  "policy_sound p A \<longleftrightarrow>
     p_kind p \<in> {''append'', ''register''} \<and>
     p_mode p \<in> {''full'', ''ring'', ''none''} \<and>
     p_replication p \<in> {''full-sync'', ''subscribe-only''} \<and>
     p_access p \<in> {''content'', ''metadata''} \<and>
     (p_mode p = ''ring'' \<longrightarrow> (\<exists>n \<ge> 1. p_size p = Some (num_of_nat n))) \<and>
     (p_mode p \<noteq> ''full'' \<longrightarrow> p_kind p = ''append'' \<and> p_replication p = ''subscribe-only'') \<and>
     (p_conflict p \<noteq> None \<longrightarrow> p_kind p = ''register'') \<and>
     (\<forall>q \<in> snd ` set (overridesOf p). q \<in> set CONFLICT_POLICIES) \<and>
     (\<forall>d. defaultOf p = Some d \<longrightarrow> d \<in> set CONFLICT_POLICIES) \<and>
     (usesOwned p \<longrightarrow> verifyTakeover A \<noteq> None \<and> verifyWriterDirective A \<noteq> None) \<and>
     (p_finalityAuthority p \<noteq> None \<longrightarrow> verifyFinality A \<noteq> None) \<and>
     (p_keyed p \<noteq> None \<longrightarrow> p_kind p = ''append'' \<and> p_mode p = ''full'' \<and> p_replication p = ''subscribe-only'')"

lemma check_overrides_ok:
  "check_overrides xs = Inr u \<Longrightarrow> \<forall>q \<in> snd ` set xs. q \<in> set CONFLICT_POLICIES"
  by (induction xs rule: check_overrides.induct) (auto split: if_splits)

lemma check_conflict_ok:
  assumes "check_conflict p = Inr u"
  shows "(p_conflict p \<noteq> None \<longrightarrow> p_kind p = ''register'') \<and>
     (\<forall>q \<in> snd ` set (overridesOf p). q \<in> set CONFLICT_POLICIES) \<and>
     (\<forall>d. defaultOf p = Some d \<longrightarrow> d \<in> set CONFLICT_POLICIES)"
proof (cases "p_conflict p")
  case None
  then show ?thesis by (simp add: overridesOf_def defaultOf_def)
next
  case (Some c)
  with assms have "p_kind p = ''register''" "check_overrides (overridesOf p) = Inr ()"
    "\<forall>d. cf_default c = Some d \<longrightarrow> d \<in> set CONFLICT_POLICIES"
    by (auto simp: check_conflict_def split: if_splits)
  then show ?thesis using check_overrides_ok Some by (simp add: defaultOf_def)
qed

lemma check_keyed_ok:
  "check_keyed p = Inr u \<Longrightarrow> p_keyed p \<noteq> None \<Longrightarrow>
   p_kind p = ''append'' \<and> p_mode p = ''full'' \<and> p_replication p = ''subscribe-only''"
  by (auto simp: check_keyed_def split: if_splits option.splits)

lemma ring_size:
  assumes "numSafe n" "\<not> numLess n 1"
  shows "\<exists>k \<ge> 1. n = Some (num_of_nat k)"
proof -
  from assms obtain x where x: "n = Some x" "isSafeInteger x" "\<not> num_less x 1"
    by (auto simp: numSafe_def numLess_def split: option.splits)
  then obtain i where i: "x = JFin (of_int i)" by (metis isSafeInteger_cases)
  have "1 \<le> i" using x(3) unfolding i num_less_def jsnum.case of_int_less_iff by simp
  then have "x = num_of_nat (nat i)" "1 \<le> nat i" using i by (auto simp: num_of_nat_def)
  then show ?thesis using x(1) by blast
qed

lemma validatePolicy_sound:
  assumes "validatePolicy topic p A = Inr u"
  shows "policy_sound p A"
proof -
  from assms have c: "check_conflict p = Inr ()" and k: "check_keyed p = Inr ()"
    by (auto simp: validatePolicy_def rbind_eq_Inr if_Inl_Inr)
  from assms have basics: "p_kind p \<in> {''append'', ''register''}" "p_mode p \<in> {''full'', ''ring'', ''none''}"
      "p_mode p = ''ring'' \<longrightarrow> numSafe (p_size p) \<and> \<not> numLess (p_size p) 1"
      "p_mode p \<noteq> ''full'' \<longrightarrow> p_kind p = ''append'' \<and> p_replication p = ''subscribe-only''"
      "p_replication p \<in> {''full-sync'', ''subscribe-only''}" "p_access p \<in> {''content'', ''metadata''}"
      "\<not> (p_finalityAuthority p \<noteq> None \<and> verifyFinality A = None)"
      "\<not> (usesOwned p \<and> (verifyTakeover A = None \<or> verifyWriterDirective A = None))"
    unfolding validatePolicy_def rbind_eq_Inr if_Inl_Inr by blast+
  note cc = check_conflict_ok [OF c]
  have ring: "p_mode p = ''ring'' \<longrightarrow> (\<exists>n \<ge> 1. p_size p = Some (num_of_nat n))"
    using basics(3) ring_size by blast
  have hooks: "usesOwned p \<longrightarrow> verifyTakeover A \<noteq> None \<and> verifyWriterDirective A \<noteq> None"
    "p_finalityAuthority p \<noteq> None \<longrightarrow> verifyFinality A \<noteq> None"
    using basics(7,8) by argo+
  show ?thesis
    unfolding policy_sound_def
    by (intro conjI basics(1,2,4,5,6) ring hooks cc [THEN conjunct1] cc [THEN conjunct2, THEN conjunct1]
        cc [THEN conjunct2, THEN conjunct2] impI check_keyed_ok [OF k])
qed

lemma reg_define_keeps:
  assumes "reg_define P reg t p A = Inr (reg', e)" "map_of reg topic = Some x"
  shows "map_of reg' topic = Some x"
  using assms
  by (auto simp: reg_define_def rbind_eq_Inr Let_def map_add_def split: option.splits if_splits)

lemma reg_define_stores:
  assumes "reg_define P reg t p A = Inr (reg', e)"
  shows "map_of reg' t = Some e"
  using assms
  by (auto simp: reg_define_def rbind_eq_Inr Let_def map_add_def split: option.splits if_splits)

lemma define_all_keeps:
  "map_of reg topic = Some x \<Longrightarrow> map_of (define_all P A reg ds) topic = Some x"
  by (induction ds arbitrary: reg) (fastforce split: sum.split dest: reg_define_keeps)+

text \<open>Every policy of the registry has passed validation.\<close>

lemma define_all_sound:
  "(\<forall>e \<in> snd ` set reg. policy_sound (te_policy e) A) \<Longrightarrow>
   \<forall>e \<in> snd ` set (define_all P A reg ds). policy_sound (te_policy e) A"
proof (induction ds arbitrary: reg rule: list.induct)
  case Nil
  then show ?case by simp
next
  case (Cons d ds)
  obtain t p where d: "d = (t, p)" by (cases d)
  show ?case
  proof (cases "reg_define P reg t p A")
    case (Inl e)
    have "\<forall>e \<in> snd ` set (define_all P A reg ds). policy_sound (te_policy e) A"
      using Cons.prems by (rule Cons.IH)
    then show ?thesis unfolding d define_all.simps Inl sum.case .
  next
    case (Inr r)
    obtain reg' e where r: "r = (reg', e)" by (cases r)
    have "validatePolicy t p A = Inr ()"
      using Inr r by (cases "validatePolicy t p A") (simp_all add: reg_define_def)
    then have "policy_sound p A" by (rule validatePolicy_sound)
    moreover have "reg' = reg \<or> (\<exists>h. reg' = reg @ [(t, \<lparr>te_policy = p, te_schemaHash = h\<rparr>)])"
      using Inr r by (auto simp: reg_define_def rbind_eq_Inr Let_def split: option.splits if_splits)
    ultimately have "\<forall>e \<in> snd ` set reg'. policy_sound (te_policy e) A"
      using Cons.prems by auto
    then have "\<forall>e \<in> snd ` set (define_all P A reg' ds). policy_sound (te_policy e) A"
      by (rule Cons.IH)
    then show ?thesis unfolding d define_all.simps Inr r sum.case prod.case .
  qed
qed

text \<open>
  The specification of conflict resolution: an exact entry first, then the longest glob
  prefix of the key, then the default.
\<close>

definition globMatches :: "string \<Rightarrow> string \<Rightarrow> bool" where
  "globMatches key pattern \<longleftrightarrow> isGlob pattern \<and> startsWith key (butlast pattern)"

lemma startsWith_same_length:
  "startsWith key p \<Longrightarrow> startsWith key q \<Longrightarrow> length p = length q \<Longrightarrow> p = q"
  by (metis startsWith_def)

lemma glob_same_length:
  assumes "globMatches key p" "globMatches key q" "length p = length q"
  shows "p = q"
proof -
  have ne: "p \<noteq> []" "q \<noteq> []" using assms by (auto simp: globMatches_def isGlob_def)
  have last: "last p = CHR ''*''" "last q = CHR ''*''"
    using assms(1,2) ne
    by (auto simp: globMatches_def isGlob_def)
      (metis append_take_drop_id last.simps last_appendR list.distinct(1))+
  have "butlast p = butlast q"
    using assms by (intro startsWith_same_length) (auto simp: globMatches_def)
  then show ?thesis using ne last by (metis append_butlast_last_id)
qed

lemma bestGlob_Cons:
  "bestGlob ((pattern, policy) # xs) key best =
     bestGlob xs key
       (if globMatches key pattern \<and> (case best of None \<Rightarrow> True | Some (l, _) \<Rightarrow> l < length pattern - 1)
        then Some (length pattern - 1, policy) else best)"
  by (cases best) (auto simp: globMatches_def Let_def split: prod.splits)

lemma bestGlob_spec:
  "bestGlob xs key best = Some (len, pol) \<Longrightarrow>
   (\<forall>q \<in> fst ` set xs. globMatches key q \<longrightarrow> length q - 1 \<le> len) \<and>
   (case best of None \<Rightarrow> True | Some (l, _) \<Rightarrow> l \<le> len) \<and>
   (best = Some (len, pol) \<or>
    (\<exists>q. (q, pol) \<in> set xs \<and> globMatches key q \<and> len = length q - 1))"
proof (induction xs arbitrary: best)
  case Nil
  then show ?case by simp
next
  case (Cons x xs)
  obtain pattern policy where x: "x = (pattern, policy)" by (cases x)
  show ?case
  proof (cases "globMatches key pattern \<and> (case best of None \<Rightarrow> True | Some (l, _) \<Rightarrow> l < length pattern - 1)")
    case True
    then have "bestGlob xs key (Some (length pattern - 1, policy)) = Some (len, pol)"
      using Cons.prems unfolding x bestGlob_Cons by simp
    from Cons.IH [OF this] show ?thesis using True by (auto simp: x split: option.splits)
  next
    case False
    then have "bestGlob xs key best = Some (len, pol)"
      using Cons.prems unfolding x bestGlob_Cons by (simp only: if_False)
    from Cons.IH [OF this] show ?thesis using False by (auto simp: x split: option.splits)
  qed
qed

lemma bestGlob_None:
  "bestGlob xs key best = None \<longleftrightarrow> best = None \<and> (\<forall>q \<in> fst ` set xs. \<not> globMatches key q)"
proof (induction xs arbitrary: best)
  case (Cons x xs)
  obtain pattern policy where x: "x = (pattern, policy)" by (cases x)
  show ?case unfolding x bestGlob_Cons Cons.IH by auto
qed simp

section \<open>Properties\<close>

text \<open>Every policy the registry ever holds has passed validation: whatever sequence of
  \<open>defineTopic\<close> calls runs (failed ones included), a ring topic has a size of at least one,
  ring and none retention are subscribe-only append topics, conflict policies occur on register
  topics only and are known, owned policies and a finality authority have the host hooks they
  need, and keyed topics are full, subscribe-only append topics.\<close>

theorem registry_policies_sound:
  "list_all (\<lambda>te. policy_sound (te_policy te) A) (map snd (define_all P A [] ds))"
proof -
  have "\<forall>e \<in> snd ` set (define_all P A [] ds). policy_sound (te_policy e) A"
    by (rule define_all_sound) simp
  then show ?thesis by (simp add: list_all_iff)
qed

text \<open>A topic's policy never changes: once defined, the same entry is found after any
  further \<open>defineTopic\<close> calls, those that redefine the topic with another policy
  included.\<close>

theorem registry_immutable:
  assumes "reg_get (define_all P A reg ds) topic = Inr te"
  shows "reg_get (define_all P A reg (ds @ ds')) topic = Inr te"
proof -
  have "define_all P A reg (ds @ ds') = define_all P A (define_all P A reg ds) ds'"
    by (induction ds arbitrary: reg) (auto split: sum.split)
  then show ?thesis
    using assms define_all_keeps by (auto simp: reg_get_def split: option.splits)
qed

definition plain_policy :: TopicPolicy where
  "plain_policy = \<lparr>p_kind = ''append'', p_mode = ''full'', p_size = None,
     p_replication = ''full-sync'', p_access = ''content'', p_conflict = None,
     p_finalityAuthority = None, p_hintKeys = None, p_flushThrottleMs = None, p_keyed = None\<rparr>"

definition no_hooks :: AuthorityHooks where
  "no_hooks = \<lparr>verifyFinality = None, verifyWriterDirective = None, verifyTakeover = None,
     issueWriterDirective = None, issueTakeover = None\<rparr>"

lemma plain_policy_valid: "validatePolicy ''t'' plain_policy no_hooks = Inr ()"
  by (simp add: validatePolicy_def plain_policy_def no_hooks_def assertTopic_def TOPIC_RE_def
      topic_char_def RESERVED_NAME_def check_conflict_def check_keyed_def usesOwned_def
      defaultOf_def overridesOf_def)

theorem registry_immutable_witness:
  "reg_get (define_all codec_prims no_hooks [] ([(''t'', plain_policy)] @ [(''t'', plain_policy\<lparr>p_access := ''metadata''\<rparr>)]))
     ''t'' = Inr \<lparr>te_policy = plain_policy, te_schemaHash = ''{}''\<rparr>"
  by (rule registry_immutable)
    (simp add: reg_define_def plain_policy_valid topicSchemaHashOf_def jcs_def codec_prims_def
      sha256HexUtf8_def reg_get_def Let_def)

text \<open>Conflict resolution for a key: an exact override wins; otherwise the override glob with
  the longest prefix of the key; otherwise the default; otherwise last-writer-wins. This holds
  for every key that is no property of \<open>Object.prototype\<close>.\<close>

theorem conflict_policy_resolution:
  assumes "key \<notin> set objectProtoNames"
  shows "case map_of (overridesOf p) key of
      Some q \<Rightarrow> conflictPolicyFor p key = PName q
    | None \<Rightarrow>
       (case filter (\<lambda>x. globMatches key (fst x)) (overridesOf p) of
          [] \<Rightarrow> conflictPolicyFor p key = PName (case defaultOf p of Some d \<Rightarrow> d | None \<Rightarrow> ''lww'')
        | _ \<Rightarrow> \<exists>pat q. (pat, q) \<in> set (overridesOf p) \<and> globMatches key pat \<and>
                list_all (\<lambda>x. length (fst x) \<le> length pat)
                  (filter (\<lambda>x. globMatches key (fst x)) (overridesOf p)) \<and>
                conflictPolicyFor p key = PName q)"
proof (cases "map_of (overridesOf p) key")
  case (Some q)
  then show ?thesis by (simp add: conflictPolicyFor_def indexOverrides_def)
next
  case None
  then have idx: "indexOverrides (overridesOf p) key = None"
    using assms by (simp add: indexOverrides_def)
  show ?thesis
  proof (cases "bestGlob (overridesOf p) key None")
    case nb: None
    then have "filter (\<lambda>x. globMatches key (fst x)) (overridesOf p) = []"
      unfolding bestGlob_None filter_empty_conv by auto
    then show ?thesis using None nb idx
      by (simp add: conflictPolicyFor_def split: option.split)
  next
    case (Some b)
    obtain len q where b: "b = (len, q)" by (cases b)
    from bestGlob_spec [OF Some [unfolded b]] obtain pat
      where pat: "(pat, q) \<in> set (overridesOf p)" "globMatches key pat" "len = length pat - 1"
        and max: "\<forall>z \<in> fst ` set (overridesOf p). globMatches key z \<longrightarrow> length z - 1 \<le> len"
      by auto
    have "length (fst x) \<le> length pat" if "x \<in> set (overridesOf p)" "globMatches key (fst x)" for x
      using max that pat(2,3) by (auto simp: globMatches_def isGlob_def)
    then have "list_all (\<lambda>x. length (fst x) \<le> length pat)
        (filter (\<lambda>x. globMatches key (fst x)) (overridesOf p))"
      by (auto simp: list_all_iff)
    moreover have "conflictPolicyFor p key = PName q"
      using idx Some b by (simp add: conflictPolicyFor_def)
    moreover have "filter (\<lambda>x. globMatches key (fst x)) (overridesOf p) \<noteq> []"
      using pat(1,2) by (force simp: filter_empty_conv)
    ultimately show ?thesis
      using None pat(1,2)
      by (cases "filter (\<lambda>x. globMatches key (fst x)) (overridesOf p)") (simp, fastforce)
  qed
qed

theorem conflict_policy_resolution_witness:
  "\<exists>pat q. (pat, q) \<in> set [(''a.*'', ''lww''), (''a.b.*'', ''fww'')] \<and> globMatches ''a.b.c'' pat \<and>
     conflictPolicyFor (plain_policy\<lparr>p_kind := ''register'', p_conflict :=
       Some \<lparr>cf_default = None, cf_overrides = Some [(''a.*'', ''lww''), (''a.b.*'', ''fww'')]\<rparr>\<rparr>) ''a.b.c'' = PName q"
  using conflict_policy_resolution [of "''a.b.c''" "plain_policy\<lparr>p_kind := ''register'', p_conflict :=
       Some \<lparr>cf_default = None, cf_overrides = Some [(''a.*'', ''lww''), (''a.b.*'', ''fww'')]\<rparr>\<rparr>"]
  by (auto simp: objectProtoNames_def overridesOf_def globMatches_def isGlob_def startsWith_def)

text \<open>A register key named like a property of \<open>Object.prototype\<close> escapes the conflict
  policy of its topic: on a topic whose default is \<open>owned\<close>, without an override for the key,
  resolution yields an inherited function instead of \<open>owned\<close>.\<close>

theorem inherited_key_escapes_policy:
  assumes "map_of (overridesOf p) key = None" "key \<in> set objectProtoNames" "defaultOf p = Some ''owned''"
  shows "conflictPolicyFor p key = PInherited \<and> conflictPolicyFor p key \<noteq> PName ''owned''"
  using assms by (simp add: conflictPolicyFor_def indexOverrides_def)

theorem inherited_key_escapes_policy_witness:
  "conflictPolicyFor (plain_policy\<lparr>p_kind := ''register'', p_conflict :=
     Some \<lparr>cf_default = Some ''owned'', cf_overrides = None\<rparr>\<rparr>) ''constructor'' = PInherited"
  using inherited_key_escapes_policy [of "plain_policy\<lparr>p_kind := ''register'', p_conflict :=
     Some \<lparr>cf_default = Some ''owned'', cf_overrides = None\<rparr>\<rparr>" "''constructor''"]
  by (simp add: overridesOf_def defaultOf_def objectProtoNames_def)

end
