(* ===== verification/Store.thy ===== *)
theory Store
  imports Topics
begin

text \<open>
  \<^verbatim>\<open>src/store.ts\<close>: the SQLite tables and the typed accessors over them. A table
  is a list of rows: \<open>sq_log\<close> in ascending \<open>rowid\<close> order (rows are only ever
  appended with the next AUTOINCREMENT value), \<open>sq_pending\<close> the list of its entries
  (its key columns are the entry's own fields), every other table an association list from
  its primary key. Columns that hold JSON text hold the value itself. \<open>Db\<close> is what a
  transaction rolls back; \<open>Store\<close> adds the two count caches of the class, which live in
  memory and are not rolled back.
\<close>

datatype SealReason = SealFork | SealRetired

record WriterRow =
  w_topic :: string
  w_writer :: string
  contigSeq :: nat
  contigChain :: string
  sealReason :: "SealReason option"
  rgen :: nat
  retiredAt :: "nat option"
  finalSeq :: "nat option"
  finalChain :: "string option"

record AckNode =
  firstAt :: nat
  seenAt :: "nat option"
  ackProto :: "nat option"

type_synonym LogRow = "nat \<times> LogEntry"

record Db =
  sq_log :: "LogRow list"
  log_autoinc :: nat
  sq_pending :: "LogEntry list"
  sq_quarantine :: "(EntryId \<times> (LogEntry \<times> string \<times> nat)) list"
  sq_writers :: "((string \<times> string) \<times> WriterRow) list"
  sq_annotations :: "((EntryId \<times> string) \<times> nat) list"
  sq_cursors :: "((string \<times> string) \<times> (nat \<times> nat)) list"
  sq_finality :: "(string \<times> FinalityCert) list"
  sq_directives :: "((string \<times> string \<times> nat) \<times> WriterDirective) list"
  sq_meta_hlc :: "Hlc option"
  sq_acks :: "((string \<times> string \<times> string) \<times> nat) list"
  sq_ack_nodes :: "((string \<times> string) \<times> AckNode) list"
  sq_floors :: "((string \<times> string) \<times> (nat \<times> string \<times> nat)) list"
  sq_archive :: "(EntryId \<times> (LogEntry \<times> nat)) list"
  sq_checkpoints :: "((string \<times> string \<times> string \<times> Order) \<times> jsval) list"

record Store =
  db :: Db
  logCounts :: "string \<Rightarrow> nat option"
  archiveCounts :: "string \<Rightarrow> nat option"

definition empty_db :: Db where
  "empty_db = \<lparr>sq_log = [], log_autoinc = 0, sq_pending = [], sq_quarantine = [],
     sq_writers = [], sq_annotations = [], sq_cursors = [], sq_finality = [],
     sq_directives = [], sq_meta_hlc = None, sq_acks = [], sq_ack_nodes = [],
     sq_floors = [], sq_archive = [], sq_checkpoints = []\<rparr>"

definition empty_store :: Store where
  "empty_store = \<lparr>db = empty_db, logCounts = Map.empty, archiveCounts = Map.empty\<rparr>"

definition onDb :: "(Db \<Rightarrow> Db) \<Rightarrow> Store \<Rightarrow> Store" where
  "onDb f s = s\<lparr>db := f (db s)\<rparr>"

definition forgetCount :: "string \<Rightarrow> Store \<Rightarrow> Store" where
  "forgetCount topic s = s\<lparr>logCounts := (logCounts s)(topic := None)\<rparr>"

section \<open>The log table\<close>

definition entryKey :: "LogEntry \<Rightarrow> EntryId" where
  "entryKey e = (e_topic e, e_writer e, e_seq e)"

definition inStream :: "string \<Rightarrow> string \<Rightarrow> LogRow \<Rightarrow> bool" where
  "inStream topic writer r \<longleftrightarrow> e_topic (snd r) = topic \<and> e_writer (snd r) = writer"

definition inTopic :: "string \<Rightarrow> LogRow \<Rightarrow> bool" where
  "inTopic topic r \<longleftrightarrow> e_topic (snd r) = topic"

definition topicRows :: "Db \<Rightarrow> string \<Rightarrow> LogRow list" where
  "topicRows d topic = filter (inTopic topic) (sq_log d)"

definition insertEntry :: "Store \<Rightarrow> LogEntry \<Rightarrow> (nat \<times> Store) result" where
  "insertEntry s e =
     (if list_ex (\<lambda>r. entryKey (snd r) = entryKey e) (sq_log (db s)) then Inl ERR_STORAGE
      else let rowid = log_autoinc (db s) + 1;
               s' = onDb (\<lambda>d. d\<lparr>sq_log := sq_log d @ [(rowid, e)], log_autoinc := rowid\<rparr>) s
           in Inr (rowid, case logCounts s (e_topic e) of
                None \<Rightarrow> s'
              | Some n \<Rightarrow> s'\<lparr>logCounts := (logCounts s)(e_topic e \<mapsto> n + 1)\<rparr>))"

definition getEntry :: "Db \<Rightarrow> string \<Rightarrow> string \<Rightarrow> nat \<Rightarrow> LogEntry option" where
  "getEntry d topic writer seq =
     map_option snd (List.find (\<lambda>r. entryKey (snd r) = (topic, writer, seq)) (sq_log d))"

definition entriesFromRowid :: "Db \<Rightarrow> nat \<Rightarrow> nat \<Rightarrow> LogRow list" where
  "entriesFromRowid d afterRowid limit = take limit (filter (\<lambda>r. afterRowid < fst r) (sq_log d))"

definition entriesForTopicFromRowid :: "Db \<Rightarrow> string \<Rightarrow> nat \<Rightarrow> nat \<Rightarrow> LogRow list" where
  "entriesForTopicFromRowid d topic afterRowid limit =
     take limit (filter (\<lambda>r. afterRowid < fst r) (topicRows d topic))"

definition entriesTailByRowid :: "Db \<Rightarrow> string \<Rightarrow> nat \<Rightarrow> LogRow list" where
  "entriesTailByRowid d topic limit = rev (take limit (rev (topicRows d topic)))"

definition rowidAtTailOffset :: "Db \<Rightarrow> string \<Rightarrow> jsnum \<Rightarrow> nat option" where
  "rowidAtTailOffset d topic n =
     (if \<not> isSafeInteger n \<or> num_less n 1 then None
      else (case drop (nat_of_num n - 1) (rev (topicRows d topic)) of
              [] \<Rightarrow> None | r # _ \<Rightarrow> Some (fst r)))"

definition entriesTailPage :: "Db \<Rightarrow> string \<Rightarrow> nat option \<Rightarrow> nat \<Rightarrow> LogRow list" where
  "entriesTailPage d topic beforeRowid limit =
     take limit (rev (case beforeRowid of
        None \<Rightarrow> topicRows d topic
      | Some b \<Rightarrow> filter (\<lambda>r. fst r < b) (topicRows d topic)))"

subsection \<open>Keyed append topics\<close>

text \<open>A row of the same key in the rowid range \<open>(lo, hi]\<close>.\<close>

definition keyRowBetween :: "Db \<Rightarrow> string \<Rightarrow> string option \<Rightarrow> nat \<Rightarrow> nat \<Rightarrow> bool" where
  "keyRowBetween d topic key lo hi \<longleftrightarrow>
     list_ex (\<lambda>b. e_key (snd b) \<noteq> None \<and> e_key (snd b) = key \<and> lo < fst b \<and> fst b \<le> hi) (topicRows d topic)"

definition latestPerKeyPage :: "Db \<Rightarrow> string \<Rightarrow> nat option \<Rightarrow> nat \<Rightarrow> nat \<Rightarrow> LogRow list" where
  "latestPerKeyPage d topic uptoRowid afterRowid limit =
     (let upto = (case uptoRowid of None \<Rightarrow> MAX_SAFE_INTEGER | Some u \<Rightarrow> u)
      in take limit (filter (\<lambda>a. afterRowid < fst a \<and> fst a \<le> upto \<and>
           (e_key (snd a) = None \<or> \<not> keyRowBetween d topic (e_key (snd a)) (fst a) upto))
           (topicRows d topic)))"

definition keyHead :: "Db \<Rightarrow> string \<Rightarrow> string \<Rightarrow> LogRow option" where
  "keyHead d topic key =
     List.find (\<lambda>r. e_key (snd r) = Some key) (rev (topicRows d topic))"

text \<open>The walk order of \<^verbatim>\<open>sq_log_key\<close>: by key, rows of one key by rowid.\<close>

definition keyIndex :: "LogRow list \<Rightarrow> LogRow list" where
  "keyIndex rs = sort_key (\<lambda>r. case e_key (snd r) of None \<Rightarrow> [] | Some k \<Rightarrow> k)
     (filter (\<lambda>r. e_key (snd r) \<noteq> None) rs)"

definition supersededRowids :: "Db \<Rightarrow> string \<Rightarrow> nat \<Rightarrow> nat \<Rightarrow> nat \<Rightarrow> nat list" where
  "supersededRowids d topic floorRowid uptoRowid limit =
     map fst (take limit (filter
       (\<lambda>a. fst a \<le> floorRowid \<and> keyRowBetween d topic (e_key (snd a)) (fst a) uptoRowid)
       (keyIndex (topicRows d topic))))"

definition otherKeyRowUpTo :: "Db \<Rightarrow> string \<Rightarrow> LogRow \<Rightarrow> nat \<Rightarrow> bool" where
  "otherKeyRowUpTo d topic a hi \<longleftrightarrow>
     list_ex (\<lambda>b. e_key (snd b) \<noteq> None \<and> e_key (snd b) = e_key (snd a) \<and> fst b \<noteq> fst a \<and> fst b \<le> hi)
       (topicRows d topic)"

definition loneTombstoneRowids :: "Db \<Rightarrow> string \<Rightarrow> string \<Rightarrow> nat \<Rightarrow> nat \<Rightarrow> nat \<Rightarrow> nat list" where
  "loneTombstoneRowids d topic tombstoneKind floorRowid uptoRowid limit =
     map fst (take limit (filter
       (\<lambda>a. fst a \<le> floorRowid \<and> e_kind (snd a) = tombstoneKind \<and>
            \<not> otherKeyRowUpTo d topic a uptoRowid)
       (keyIndex (topicRows d topic))))"

definition otherWriterRowids :: "Db \<Rightarrow> string \<Rightarrow> string \<Rightarrow> nat \<Rightarrow> nat \<Rightarrow> nat list" where
  "otherWriterRowids d topic writer floorRowid limit =
     map fst (take limit (filter (\<lambda>r. fst r \<le> floorRowid \<and> e_writer (snd r) \<noteq> writer)
       (topicRows d topic)))"

definition deleteLogRowids :: "Store \<Rightarrow> string \<Rightarrow> nat list \<Rightarrow> Store" where
  "deleteLogRowids s topic rowids =
     (let s' = onDb (\<lambda>d. d\<lparr>sq_log := filter (\<lambda>r. \<not> (fst r \<in> set rowids \<and> inTopic topic r)) (sq_log d)\<rparr>) s
      in if length rowids > 0 then forgetCount topic s' else s')"

subsection \<open>Total-order reads\<close>

definition sqlAfter :: "Order \<Rightarrow> LogEntry \<Rightarrow> bool" where
  "sqlAfter a e \<longleftrightarrow>
     (let l = hlc_l (e_hlc e); c = hlc_c (e_hlc e); w = e_writer e; s = e_seq e in
      l > ord_l a \<or> (l = ord_l a \<and> (c > ord_c a \<or> (c = ord_c a \<and>
        (w > ord_w a \<or> (w = ord_w a \<and> s > ord_s a))))))"

definition sqlAtOrBefore :: "Order \<Rightarrow> LogEntry \<Rightarrow> bool" where
  "sqlAtOrBefore p e \<longleftrightarrow>
     (let l = hlc_l (e_hlc e); c = hlc_c (e_hlc e); w = e_writer e; s = e_seq e in
      l < ord_l p \<or> (l = ord_l p \<and> (c < ord_c p \<or> (c = ord_c p \<and>
        (w < ord_w p \<or> (w = ord_w p \<and> s \<le> ord_s p))))))"

definition entryCompare :: "LogEntry \<Rightarrow> LogEntry \<Rightarrow> int" where
  "entryCompare a b = orderCompare (orderOf a) (orderOf b)"

definition entriesAfterOrder :: "Db \<Rightarrow> string \<Rightarrow> Order option \<Rightarrow> nat \<Rightarrow> LogEntry list" where
  "entriesAfterOrder d topic after limit =
     take limit (sort_by entryCompare (filter (\<lambda>e. case after of None \<Rightarrow> True | Some a \<Rightarrow> sqlAfter a e)
       (map snd (topicRows d topic))))"

definition maxOrderUpTo :: "Db \<Rightarrow> string \<Rightarrow> int \<Rightarrow> Order option" where
  "maxOrderUpTo d topic maxHlcL =
     (case rev (sort_by entryCompare (filter (\<lambda>e. int (hlc_l (e_hlc e)) \<le> maxHlcL)
        (map snd (topicRows d topic)))) of
        [] \<Rightarrow> None | e # _ \<Rightarrow> Some (orderOf e))"

definition lastSeqAtOrBeforeOrder :: "Db \<Rightarrow> string \<Rightarrow> string \<Rightarrow> Order \<Rightarrow> nat" where
  "lastSeqAtOrBeforeOrder d topic writer p =
     (case rev (sort_key (\<lambda>r. e_seq (snd r)) (filter (\<lambda>r. inStream topic writer r \<and> sqlAtOrBefore p (snd r))
        (sq_log d))) of
        [] \<Rightarrow> 0 | r # _ \<Rightarrow> e_seq (snd r))"

definition maxRowid :: "Db \<Rightarrow> string \<Rightarrow> nat" where
  "maxRowid d topic = foldr (\<lambda>r m. max (fst r) m) (topicRows d topic) 0"

definition topicWriters :: "Db \<Rightarrow> string \<Rightarrow> string list" where
  "topicWriters d topic = remdups (map (\<lambda>r. e_writer (snd r)) (topicRows d topic))"

definition entriesRange :: "Db \<Rightarrow> string \<Rightarrow> string \<Rightarrow> nat \<Rightarrow> nat \<Rightarrow> LogRow list" where
  "entriesRange d topic writer fromSeq toSeq =
     sort_key (\<lambda>r. e_seq (snd r)) (filter (\<lambda>r. inStream topic writer r \<and>
        fromSeq \<le> e_seq (snd r) \<and> e_seq (snd r) \<le> toSeq) (sq_log d))"

subsection \<open>Deletions\<close>

definition deleteLogRange :: "Store \<Rightarrow> string \<Rightarrow> string \<Rightarrow> nat \<Rightarrow> Store" where
  "deleteLogRange s topic writer fromSeq =
     forgetCount topic (onDb (\<lambda>d. d\<lparr>sq_log :=
       filter (\<lambda>r. \<not> (inStream topic writer r \<and> fromSeq \<le> e_seq (snd r))) (sq_log d)\<rparr>) s)"

text \<open>
  \<^verbatim>\<open>pruneTopic\<close>'s delete works in batches of 2000 rows. A bound that is no number
  compares as SQL \<^verbatim>\<open>NULL\<close> and selects nothing.
\<close>

definition prunable :: "string \<Rightarrow> nat \<Rightarrow> jsnum option \<Rightarrow> LogRow \<Rightarrow> bool" where
  "prunable topic belowRowid hlcBefore r \<longleftrightarrow> inTopic topic r \<and> fst r \<le> belowRowid \<and>
     (case hlcBefore of None \<Rightarrow> True
      | Some (JFin q) \<Rightarrow> of_nat (hlc_l (e_hlc (snd r))) < q
      | Some JPosInf \<Rightarrow> True
      | Some _ \<Rightarrow> False)"

definition removeRows :: "LogRow list \<Rightarrow> LogRow list \<Rightarrow> LogRow list" where
  "removeRows gone rs = filter (\<lambda>r. fst r \<notin> fst ` set gone) rs"

function pruneBatches :: "nat \<Rightarrow> (LogRow \<Rightarrow> bool) \<Rightarrow> LogRow list \<Rightarrow> nat \<Rightarrow> LogRow list \<times> nat" where
  "pruneBatches batch cond rs acc =
     (let rows = take (Suc batch) (filter cond rs) in
      if rows = [] then (rs, acc)
      else if length rows < Suc batch then (removeRows rows rs, acc + length rows)
      else pruneBatches batch cond (removeRows rows rs) (acc + length rows))"
  by pat_completeness auto
termination
proof (relation "measure (\<lambda>(batch, cond, rs, acc). length rs)")
  fix batch :: nat and cond :: "LogRow \<Rightarrow> bool" and rs :: "LogRow list" and acc :: nat and rows
  assume rows: "rows = take (Suc batch) (filter cond rs)" and ne: "rows \<noteq> []"
  from ne obtain r where r: "r \<in> set rows" by (metis list.set_sel(1))
  then have "r \<in> set rs" using rows by (auto dest: in_set_takeD)
  then have "length (filter (\<lambda>r. fst r \<notin> fst ` set rows) rs) < length rs"
    using r by (intro length_filter_less [of r]) auto
  then show "((batch, cond, removeRows rows rs, acc + length rows), batch, cond, rs, acc)
      \<in> measure (\<lambda>(batch, cond, rs, acc). length rs)"
    by (simp add: removeRows_def)
qed simp

declare pruneBatches.simps [simp del]

definition PRUNE_BATCH :: nat where
  "PRUNE_BATCH = 2000"

definition deleteLogRowsUpToRowid :: "Store \<Rightarrow> string \<Rightarrow> nat \<Rightarrow> jsnum option \<Rightarrow> nat \<times> Store" where
  "deleteLogRowsUpToRowid s topic belowRowid hlcBefore =
     (case pruneBatches (PRUNE_BATCH - 1) (prunable topic belowRowid hlcBefore) (sq_log (db s)) 0 of
        (rs, acc) \<Rightarrow>
          let s' = onDb (\<lambda>d. d\<lparr>sq_log := rs\<rparr>) s
          in (acc, if acc > 0 then forgetCount topic s' else s'))"

section \<open>Stream heads\<close>

definition getWriter :: "Db \<Rightarrow> string \<Rightarrow> string \<Rightarrow> WriterRow option" where
  "getWriter d topic writer = map_of (sq_writers d) (topic, writer)"

definition listWriters :: "Db \<Rightarrow> string option \<Rightarrow> WriterRow list" where
  "listWriters d topic = (case topic of
     None \<Rightarrow> map snd (sq_writers d)
   | Some t \<Rightarrow> map snd (filter (\<lambda>p. fst (fst p) = t) (sq_writers d)))"

definition upsertWriter :: "Db \<Rightarrow> WriterRow \<Rightarrow> Db" where
  "upsertWriter d w = d\<lparr>sq_writers := AList.update (w_topic w, w_writer w) w (sq_writers d)\<rparr>"

definition deleteWriter :: "Db \<Rightarrow> string \<Rightarrow> string \<Rightarrow> Db" where
  "deleteWriter d topic writer = d\<lparr>sq_writers := AList.delete (topic, writer) (sq_writers d)\<rparr>"

section \<open>Pending, annotations, quarantine\<close>

definition pendingPut :: "Db \<Rightarrow> LogEntry \<Rightarrow> Db" where
  "pendingPut d e = d\<lparr>sq_pending := filter (\<lambda>x. entryKey x \<noteq> entryKey e) (sq_pending d) @ [e]\<rparr>"

definition pendingGet :: "Db \<Rightarrow> string \<Rightarrow> string \<Rightarrow> nat \<Rightarrow> LogEntry option" where
  "pendingGet d topic writer seq = List.find (\<lambda>x. entryKey x = (topic, writer, seq)) (sq_pending d)"

definition pendingDelete :: "Db \<Rightarrow> string \<Rightarrow> string \<Rightarrow> nat \<Rightarrow> Db" where
  "pendingDelete d topic writer seq =
     d\<lparr>sq_pending := filter (\<lambda>x. entryKey x \<noteq> (topic, writer, seq)) (sq_pending d)\<rparr>"

definition pendingCount :: "Db \<Rightarrow> string \<Rightarrow> string \<Rightarrow> nat" where
  "pendingCount d topic writer =
     length (filter (\<lambda>x. e_topic x = topic \<and> e_writer x = writer) (sq_pending d))"

definition deletePendingUpTo :: "Db \<Rightarrow> string \<Rightarrow> string \<Rightarrow> nat \<Rightarrow> Db" where
  "deletePendingUpTo d topic writer uptoSeq = d\<lparr>sq_pending :=
     filter (\<lambda>x. \<not> (e_topic x = topic \<and> e_writer x = writer \<and> e_seq x \<le> uptoSeq)) (sq_pending d)\<rparr>"

definition annotate :: "Db \<Rightarrow> string \<Rightarrow> string \<Rightarrow> nat \<Rightarrow> string \<Rightarrow> nat \<Rightarrow> Db" where
  "annotate d topic writer seq kind ts =
     (case map_of (sq_annotations d) ((topic, writer, seq), kind) of
        Some _ \<Rightarrow> d
      | None \<Rightarrow> d\<lparr>sq_annotations := sq_annotations d @ [(((topic, writer, seq), kind), ts)]\<rparr>)"

definition quarantinePut :: "Db \<Rightarrow> LogEntry \<Rightarrow> string \<Rightarrow> nat \<Rightarrow> Db" where
  "quarantinePut d e reason ts =
     d\<lparr>sq_quarantine := AList.update (entryKey e) (e, reason, ts) (sq_quarantine d)\<rparr>"

section \<open>Acknowledgments and floors\<close>

definition ackUpsert :: "Db \<Rightarrow> string \<Rightarrow> string \<Rightarrow> string \<Rightarrow> nat \<Rightarrow> Db" where
  "ackUpsert d topic node writer seq = d\<lparr>sq_acks := AList.update (topic, node, writer) seq (sq_acks d)\<rparr>"

definition ackNodeSeen :: "Db \<Rightarrow> string \<Rightarrow> string \<Rightarrow> nat \<Rightarrow> nat option \<Rightarrow> Db" where
  "ackNodeSeen d topic node ts proto = d\<lparr>sq_ack_nodes := AList.update (topic, node)
     (case map_of (sq_ack_nodes d) (topic, node) of
        None \<Rightarrow> \<lparr>firstAt = ts, seenAt = Some ts, ackProto = proto\<rparr>
      | Some r \<Rightarrow> r\<lparr>seenAt := Some ts, ackProto := (if proto = None then ackProto r else proto)\<rparr>)
     (sq_ack_nodes d)\<rparr>"

definition ackNodeName :: "Db \<Rightarrow> string \<Rightarrow> string \<Rightarrow> nat \<Rightarrow> Db" where
  "ackNodeName d topic node ts =
     (case map_of (sq_ack_nodes d) (topic, node) of
        Some _ \<Rightarrow> d
      | None \<Rightarrow> d\<lparr>sq_ack_nodes := sq_ack_nodes d @
                  [((topic, node), \<lparr>firstAt = ts, seenAt = None, ackProto = None\<rparr>)]\<rparr>)"

definition ackNodes :: "Db \<Rightarrow> string \<Rightarrow> (string \<times> AckNode) list" where
  "ackNodes d topic = map (\<lambda>p. (snd (fst p), snd p)) (filter (\<lambda>p. fst (fst p) = topic) (sq_ack_nodes d))"

definition acksForTopic :: "Db \<Rightarrow> string \<Rightarrow> ((string \<times> string) \<times> nat) list" where
  "acksForTopic d topic =
     map (\<lambda>p. ((fst (snd (fst p)), snd (snd (fst p))), snd p)) (filter (\<lambda>p. fst (fst p) = topic) (sq_acks d))"

definition ackForget :: "Db \<Rightarrow> string \<Rightarrow> string \<Rightarrow> Db" where
  "ackForget d topic node = d\<lparr>
     sq_acks := filter (\<lambda>p. \<not> (fst (fst p) = topic \<and> fst (snd (fst p)) = node)) (sq_acks d),
     sq_ack_nodes := AList.delete (topic, node) (sq_ack_nodes d)\<rparr>"

definition floorGet :: "Db \<Rightarrow> string \<Rightarrow> string \<Rightarrow> (nat \<times> string) option" where
  "floorGet d topic writer = map_option (\<lambda>(seq, chain, ts). (seq, chain)) (map_of (sq_floors d) (topic, writer))"

definition floorSet :: "Db \<Rightarrow> string \<Rightarrow> string \<Rightarrow> nat \<Rightarrow> string \<Rightarrow> nat \<Rightarrow> Db" where
  "floorSet d topic writer seq chain ts =
     (case map_of (sq_floors d) (topic, writer) of
        Some (seq', _, _) \<Rightarrow> if seq > seq'
          then d\<lparr>sq_floors := AList.update (topic, writer) (seq, chain, ts) (sq_floors d)\<rparr> else d
      | None \<Rightarrow> d\<lparr>sq_floors := AList.update (topic, writer) (seq, chain, ts) (sq_floors d)\<rparr>)"

definition floorsForTopic :: "Db \<Rightarrow> string \<Rightarrow> (string \<times> nat \<times> string) list" where
  "floorsForTopic d topic = map (\<lambda>p. (snd (fst p), fst (snd p), fst (snd (snd p))))
     (filter (\<lambda>p. fst (fst p) = topic) (sq_floors d))"

text \<open>\<open>rowid\<close>, \<open>seq\<close> and \<open>hlc_l\<close> of the oldest rows of one stream.\<close>

definition streamHead :: "Db \<Rightarrow> string \<Rightarrow> string \<Rightarrow> nat \<Rightarrow> (nat \<times> nat \<times> nat) list" where
  "streamHead d topic writer limit =
     map (\<lambda>r. (fst r, e_seq (snd r), hlc_l (e_hlc (snd r))))
       (take limit (sort_key (\<lambda>r. e_seq (snd r)) (filter (inStream topic writer) (sq_log d))))"

definition chainAt :: "Db \<Rightarrow> string \<Rightarrow> string \<Rightarrow> nat \<Rightarrow> string option" where
  "chainAt d topic writer seq = map_option e_chain (getEntry d topic writer seq)"

definition hlcLAt :: "Db \<Rightarrow> string \<Rightarrow> string \<Rightarrow> nat \<Rightarrow> nat option" where
  "hlcLAt d topic writer seq = map_option (\<lambda>e. hlc_l (e_hlc e)) (getEntry d topic writer seq)"

definition deleteStreamPrefix :: "Store \<Rightarrow> string \<Rightarrow> string \<Rightarrow> nat \<Rightarrow> Store" where
  "deleteStreamPrefix s topic writer uptoSeq =
     forgetCount topic (onDb (\<lambda>d. d\<lparr>
       sq_log := filter (\<lambda>r. \<not> (inStream topic writer r \<and> e_seq (snd r) \<le> uptoSeq)) (sq_log d),
       sq_annotations := filter (\<lambda>p. case fst p of ((t, w, s), _) \<Rightarrow>
          \<not> (t = topic \<and> w = writer \<and> s \<le> uptoSeq)) (sq_annotations d)\<rparr>) s)"

section \<open>Checkpoints, cursors, counts\<close>

definition ordBefore :: "Order \<Rightarrow> Order \<Rightarrow> bool" where
  "ordBefore a b \<longleftrightarrow> ord_l a < ord_l b \<or> (ord_l a = ord_l b \<and> (ord_c a < ord_c b \<or> (ord_c a = ord_c b \<and>
     (ord_w a < ord_w b \<or> (ord_w a = ord_w b \<and> ord_s a < ord_s b)))))"

definition checkpointsOf :: "Db \<Rightarrow> string \<Rightarrow> string \<Rightarrow> string \<Rightarrow> (Order \<times> jsval) list" where
  "checkpointsOf d topic view version =
     sort_by (\<lambda>a b. orderCompare (fst a) (fst b))
       (map (\<lambda>((t, v, n, ord), st). (ord, st))
         (filter (\<lambda>((t, v, n, ord), st). t = topic \<and> v = view \<and> n = version) (sq_checkpoints d)))"

definition checkpointPut :: "Db \<Rightarrow> string \<Rightarrow> string \<Rightarrow> string \<Rightarrow> Order \<Rightarrow> jsval \<Rightarrow> Db" where
  "checkpointPut d topic view version ord st =
     d\<lparr>sq_checkpoints := AList.update (topic, view, version, ord) st (sq_checkpoints d)\<rparr>"

definition checkpointBefore :: "Db \<Rightarrow> string \<Rightarrow> string \<Rightarrow> string \<Rightarrow> Order \<Rightarrow> (Order \<times> jsval) option" where
  "checkpointBefore d topic view version before =
     (case rev (filter (\<lambda>p. ordBefore (fst p) before) (checkpointsOf d topic view version)) of
        [] \<Rightarrow> None | p # _ \<Rightarrow> Some p)"

definition deleteCheckpoints :: "Db \<Rightarrow> string \<Rightarrow> string \<Rightarrow> string \<Rightarrow> Db" where
  "deleteCheckpoints d topic view version = d\<lparr>sq_checkpoints :=
     filter (\<lambda>((t, v, n, ord), st). \<not> (t = topic \<and> v = view \<and> n = version)) (sq_checkpoints d)\<rparr>"

definition deleteCheckpointsBefore :: "Db \<Rightarrow> string \<Rightarrow> string \<Rightarrow> string \<Rightarrow> Order \<Rightarrow> Db" where
  "deleteCheckpointsBefore d topic view version before = d\<lparr>sq_checkpoints :=
     filter (\<lambda>((t, v, n, ord), st). \<not> (t = topic \<and> v = view \<and> n = version \<and> ordBefore ord before))
       (sq_checkpoints d)\<rparr>"

definition earliestCheckpoint :: "Db \<Rightarrow> string \<Rightarrow> string \<Rightarrow> string \<Rightarrow> (Order \<times> jsval) option" where
  "earliestCheckpoint d topic view version =
     (case checkpointsOf d topic view version of [] \<Rightarrow> None | p # _ \<Rightarrow> Some p)"

definition cursorsForTopic :: "Db \<Rightarrow> string \<Rightarrow> (string \<times> nat \<times> nat) list" where
  "cursorsForTopic d topic = map (\<lambda>p. (fst (fst p), snd p)) (filter (\<lambda>p. snd (fst p) = topic) (sq_cursors d))"

definition cursorDelete :: "Db \<Rightarrow> string \<Rightarrow> string \<Rightarrow> Db" where
  "cursorDelete d consumer topic = d\<lparr>sq_cursors := AList.delete (consumer, topic) (sq_cursors d)\<rparr>"

definition cursorGet :: "Db \<Rightarrow> string \<Rightarrow> string \<Rightarrow> nat" where
  "cursorGet d consumer topic = (case map_of (sq_cursors d) (consumer, topic) of None \<Rightarrow> 0 | Some (r, _) \<Rightarrow> r)"

definition cursorSet :: "Db \<Rightarrow> string \<Rightarrow> string \<Rightarrow> nat \<Rightarrow> nat \<Rightarrow> Db" where
  "cursorSet d consumer topic lastRowid ts =
     d\<lparr>sq_cursors := AList.update (consumer, topic) (lastRowid, ts) (sq_cursors d)\<rparr>"

definition countRows :: "Db \<Rightarrow> string \<Rightarrow> nat" where
  "countRows d topic = length (topicRows d topic)"

definition logCount :: "Store \<Rightarrow> string \<Rightarrow> nat \<times> Store" where
  "logCount s topic = (case logCounts s topic of
     Some n \<Rightarrow> (n, s)
   | None \<Rightarrow> let n = countRows (db s) topic in (n, s\<lparr>logCounts := (logCounts s)(topic \<mapsto> n)\<rparr>))"

section \<open>Archive, directives, finality, meta\<close>

text \<open>Move covered rows out of the hot log, in batches of 2000.\<close>

function archiveBatches :: "nat \<Rightarrow> string \<Rightarrow> string \<Rightarrow> nat \<Rightarrow> nat \<Rightarrow> nat \<Rightarrow> Db \<Rightarrow> nat \<Rightarrow> Db \<times> nat" where
  "archiveBatches batch topic writer maxSeq maxRow ts d acc =
     (let rows = take (Suc batch) (sort_key (\<lambda>r. e_seq (snd r)) (filter (\<lambda>r. inStream topic writer r \<and>
            e_seq (snd r) \<le> maxSeq \<and> fst r \<le> maxRow) (sq_log d)));
          d' = d\<lparr>sq_log := removeRows rows (sq_log d),
                 sq_archive := foldl (\<lambda>a r. case map_of a (entryKey (snd r)) of
                    Some _ \<Rightarrow> a | None \<Rightarrow> a @ [(entryKey (snd r), (snd r, ts))]) (sq_archive d) rows\<rparr>
      in if length rows < Suc batch then (d', acc + length rows)
         else archiveBatches batch topic writer maxSeq maxRow ts d' (acc + length rows))"
  by pat_completeness auto
termination
proof (relation "measure (\<lambda>(batch, t, w, ms, mr, ts, d, acc). length (sq_log d))")
  fix batch maxSeq maxRow ts acc :: nat and topic writer :: string and d :: Db and rows and d' :: Db
  assume rows: "rows = take (Suc batch) (sort_key (\<lambda>r. e_seq (snd r)) (filter (\<lambda>r. inStream topic writer r \<and>
      e_seq (snd r) \<le> maxSeq \<and> fst r \<le> maxRow) (sq_log d)))"
    and d': "d' = d\<lparr>sq_log := removeRows rows (sq_log d),
      sq_archive := foldl (\<lambda>a r. case map_of a (entryKey (snd r)) of
        Some _ \<Rightarrow> a | None \<Rightarrow> a @ [(entryKey (snd r), (snd r, ts))]) (sq_archive d) rows\<rparr>"
    and full: "\<not> length rows < Suc batch"
  from full have "rows \<noteq> []" by auto
  then obtain r where r: "r \<in> set rows" by (metis list.set_sel(1))
  then have "r \<in> set (sq_log d)" using rows by (auto dest: in_set_takeD)
  then have "length (filter (\<lambda>r. fst r \<notin> fst ` set rows) (sq_log d)) < length (sq_log d)"
    using r by (intro length_filter_less [of r]) auto
  then show "((batch, topic, writer, maxSeq, maxRow, ts, d', acc + length rows),
      batch, topic, writer, maxSeq, maxRow, ts, d, acc)
      \<in> measure (\<lambda>(batch, t, w, ms, mr, ts, d, acc). length (sq_log d))"
    by (simp add: removeRows_def d')
qed simp

declare archiveBatches.simps [simp del]

definition archiveCovered :: "Store \<Rightarrow> string \<Rightarrow> string \<Rightarrow> nat \<Rightarrow> nat \<Rightarrow> nat \<Rightarrow> nat \<times> Store" where
  "archiveCovered s topic writer maxSeq maxRow ts =
     (case archiveBatches (PRUNE_BATCH - 1) topic writer maxSeq maxRow ts (db s) 0 of
        (d', acc) \<Rightarrow>
          let s' = s\<lparr>db := d'\<rparr>
          in (acc, if acc > 0
              then (let s'' = forgetCount topic s' in
                    case archiveCounts s topic of None \<Rightarrow> s''
                    | Some a \<Rightarrow> s''\<lparr>archiveCounts := (archiveCounts s)(topic \<mapsto> a + acc)\<rparr>)
              else s'))"

definition archivedCount :: "Store \<Rightarrow> string \<Rightarrow> nat \<times> Store" where
  "archivedCount s topic = (case archiveCounts s topic of
     Some n \<Rightarrow> (n, s)
   | None \<Rightarrow> let n = length (filter (\<lambda>p. fst (fst p) = topic) (sq_archive (db s)))
             in (n, s\<lparr>archiveCounts := (archiveCounts s)(topic \<mapsto> n)\<rparr>))"

definition archivedEntries :: "Db \<Rightarrow> string \<Rightarrow> string \<Rightarrow> nat \<Rightarrow> nat \<Rightarrow> LogEntry list" where
  "archivedEntries d topic writer fromSeq toSeq =
     map (\<lambda>p. fst (snd p)) (sort_key (\<lambda>p. snd (snd (fst p))) (filter (\<lambda>p. case fst p of (t, w, s) \<Rightarrow>
        t = topic \<and> w = writer \<and> fromSeq \<le> s \<and> s \<le> toSeq) (sq_archive d)))"

definition directivePut :: "Db \<Rightarrow> string \<Rightarrow> string \<Rightarrow> nat \<Rightarrow> WriterDirective \<Rightarrow> Db" where
  "directivePut d topic writer rg x =
     d\<lparr>sq_directives := AList.update (topic, writer, rg) x (sq_directives d)\<rparr>"

definition directiveGet :: "Db \<Rightarrow> string \<Rightarrow> string \<Rightarrow> nat \<Rightarrow> WriterDirective option" where
  "directiveGet d topic writer rg = map_of (sq_directives d) (topic, writer, rg)"

definition directiveLatest :: "Db \<Rightarrow> string \<Rightarrow> string \<Rightarrow> WriterDirective option" where
  "directiveLatest d topic writer =
     (case rev (sort_key (\<lambda>p. snd (snd (fst p))) (filter (\<lambda>p. case fst p of (t, w, g) \<Rightarrow>
        t = topic \<and> w = writer) (sq_directives d))) of
        [] \<Rightarrow> None | p # _ \<Rightarrow> Some (snd p))"

definition directivesForTopic :: "Db \<Rightarrow> string \<Rightarrow> WriterDirective list" where
  "directivesForTopic d topic = map snd (filter (\<lambda>p. case fst p of (t, w, g) \<Rightarrow>
     t = topic \<and> \<not> list_ex (\<lambda>q. case fst q of (t', w', g') \<Rightarrow> t' = t \<and> w' = w \<and> g < g') (sq_directives d))
     (sq_directives d))"

definition finalityGet :: "Db \<Rightarrow> string \<Rightarrow> FinalityCert option" where
  "finalityGet d topic = map_of (sq_finality d) topic"

definition finalitySet :: "Db \<Rightarrow> FinalityCert \<Rightarrow> Db" where
  "finalitySet d cert = d\<lparr>sq_finality := AList.update (cert_topic cert) cert (sq_finality d)\<rparr>"

definition metaSetHlc :: "Db \<Rightarrow> Hlc \<Rightarrow> Db" where
  "metaSetHlc d h = d\<lparr>sq_meta_hlc := Some h\<rparr>"

end
