(* ===== verification/Store_Lemmas.thy ===== *)
theory Store_Lemmas
  imports Store
begin

text \<open>
  The contracts of the store: tables as maps (a \<open>locale\<close> for a table with an upsert,
  extended by one with a delete, each interpreted on the code's tables), the invariant of
  the log table, and what each select and delete does in terms of the set of rows.
\<close>

section \<open>Tables as maps\<close>

locale table =
  fixes lookup :: "'s \<Rightarrow> 'k \<Rightarrow> 'v option"
    and put :: "'s \<Rightarrow> 'v \<Rightarrow> 's"
    and key :: "'v \<Rightarrow> 'k"
  assumes lookup_put: "lookup (put s v) k = (if k = key v then Some v else lookup s k)"
begin

lemma lookup_put_same [simp]: "lookup (put s v) (key v) = Some v"
  by (simp add: lookup_put)

lemma lookup_put_other: "k \<noteq> key v \<Longrightarrow> lookup (put s v) k = lookup s k"
  by (simp add: lookup_put)

lemma put_last_wins: "key v = key u \<Longrightarrow> lookup (put (put s u) v) k = lookup (put s v) k"
  by (simp add: lookup_put)

text \<open>Well-keyed: a stored row carries its own key.\<close>

lemma well_keyed_put:
  "(\<forall>k v. lookup s k = Some v \<longrightarrow> key v = k) \<Longrightarrow> lookup (put s u) k = Some v \<Longrightarrow> key v = k"
  by (auto simp: lookup_put split: if_splits)

end

locale erasable_table = table +
  fixes del :: "'a \<Rightarrow> 'b \<Rightarrow> 'a"
  assumes lookup_del: "lookup (del s k') k = (if k = k' then None else lookup s k)"
begin

lemma del_put: "lookup (del (put s v) (key v)) k = lookup (del s (key v)) k"
  by (simp add: lookup_put lookup_del)

lemma well_keyed_del:
  "(\<forall>k v. lookup s k = Some v \<longrightarrow> key v = k) \<Longrightarrow> lookup (del s k') k = Some v \<Longrightarrow> key v = k"
  by (auto simp: lookup_del split: if_splits)

end

lemma map_of_alist_update: "map_of (AList.update k v al) k' = (if k' = k then Some v else map_of al k')"
  by (simp add: AList.update_conv')

lemma map_of_alist_delete: "map_of (AList.delete k al) k' = (if k' = k then None else map_of al k')"
  by (simp add: AList.delete_conv')

text \<open>A table kept as its list of rows, keyed by a function of the row.\<close>

lemma find_filter_key:
  "List.find (\<lambda>x. f x = k) (filter (\<lambda>x. f x \<noteq> k') xs) = (if k = k' then None else List.find (\<lambda>x. f x = k) xs)"
  by (induction xs) auto

lemma find_append_key:
  "List.find P (xs @ ys) = (case List.find P xs of None \<Rightarrow> List.find P ys | Some x \<Rightarrow> Some x)"
  by (induction xs) auto

interpretation writersTab: erasable_table
  "\<lambda>d k. getWriter d (fst k) (snd k)" upsertWriter "\<lambda>w. (w_topic w, w_writer w)"
  "\<lambda>d k. deleteWriter d (fst k) (snd k)"
  by unfold_locales
    (auto simp: getWriter_def upsertWriter_def deleteWriter_def map_of_alist_update map_of_alist_delete)

interpretation pendingTab: erasable_table
  "\<lambda>d k. pendingGet d (fst k) (fst (snd k)) (snd (snd k))" pendingPut entryKey
  "\<lambda>d k. pendingDelete d (fst k) (fst (snd k)) (snd (snd k))"
  by unfold_locales
    (auto simp: pendingGet_def pendingPut_def pendingDelete_def find_filter_key find_append_key split: option.split)

interpretation finalityTab: table finalityGet finalitySet cert_topic
  by unfold_locales (simp add: finalityGet_def finalitySet_def map_of_alist_update)

interpretation directiveTab: table
  "\<lambda>d k. directiveGet d (fst k) (fst (snd k)) (snd (snd k))"
  "\<lambda>d x. directivePut d (d_topic x) (d_writer x) (d_rgen x) x"
  "\<lambda>x. (d_topic x, d_writer x, d_rgen x)"
  by unfold_locales (auto simp: directiveGet_def directivePut_def map_of_alist_update)

lemmas getWriter_upsert = writersTab.lookup_put [of _ _ "(t, w)" for t w, simplified]
lemmas getWriter_delete = writersTab.lookup_del [of _ "(t', w')" "(t, w)" for t' w' t w, simplified]
lemmas pendingGet_put = pendingTab.lookup_put [of _ _ "(t, w, s)" for t w s, simplified]
lemmas pendingGet_delete =
  pendingTab.lookup_del [of _ "(t', w', s')" "(t, w, s)" for t' w' s' t w s, simplified]

section \<open>Frames: which table an accessor writes\<close>

named_theorems frame "which tables an update leaves alone"

lemma db_onDb [simp]: "db (onDb f s) = f (db s)"
  by (simp add: onDb_def)

lemma counts_onDb [simp]: "logCounts (onDb f s) = logCounts s"
  by (simp add: onDb_def)

lemma db_forgetCount [simp]: "db (forgetCount t s) = db s"
  by (simp add: forgetCount_def)

lemma upsertWriter_frame [simp, frame]:
  "sq_log (upsertWriter d w) = sq_log d" "log_autoinc (upsertWriter d w) = log_autoinc d"
  "sq_pending (upsertWriter d w) = sq_pending d" "sq_quarantine (upsertWriter d w) = sq_quarantine d"
  "sq_finality (upsertWriter d w) = sq_finality d" "sq_floors (upsertWriter d w) = sq_floors d"
  "sq_cursors (upsertWriter d w) = sq_cursors d" "sq_directives (upsertWriter d w) = sq_directives d"
  by (simp_all add: upsertWriter_def)

lemma deleteWriter_frame [simp, frame]:
  "sq_log (deleteWriter d t w) = sq_log d" "log_autoinc (deleteWriter d t w) = log_autoinc d"
  "sq_floors (deleteWriter d t w) = sq_floors d" "sq_finality (deleteWriter d t w) = sq_finality d"
  "sq_pending (deleteWriter d t w) = sq_pending d"
  by (simp_all add: deleteWriter_def)

lemma pending_frame [simp, frame]:
  "sq_log (pendingPut d e) = sq_log d" "log_autoinc (pendingPut d e) = log_autoinc d"
  "sq_writers (pendingPut d e) = sq_writers d" "sq_floors (pendingPut d e) = sq_floors d"
  "sq_finality (pendingPut d e) = sq_finality d"
  "sq_log (pendingDelete d t w n) = sq_log d" "log_autoinc (pendingDelete d t w n) = log_autoinc d"
  "sq_writers (pendingDelete d t w n) = sq_writers d" "sq_floors (pendingDelete d t w n) = sq_floors d"
  "sq_finality (pendingDelete d t w n) = sq_finality d"
  "sq_log (deletePendingUpTo d t w n) = sq_log d" "log_autoinc (deletePendingUpTo d t w n) = log_autoinc d"
  "sq_writers (deletePendingUpTo d t w n) = sq_writers d" "sq_floors (deletePendingUpTo d t w n) = sq_floors d"
  "sq_finality (deletePendingUpTo d t w n) = sq_finality d"
  by (simp_all add: pendingPut_def pendingDelete_def deletePendingUpTo_def)

lemma annotate_frame [simp, frame]:
  "sq_log (annotate d t w n k x) = sq_log d" "log_autoinc (annotate d t w n k x) = log_autoinc d"
  "sq_writers (annotate d t w n k x) = sq_writers d" "sq_pending (annotate d t w n k x) = sq_pending d"
  "sq_floors (annotate d t w n k x) = sq_floors d" "sq_finality (annotate d t w n k x) = sq_finality d"
  by (simp_all add: annotate_def split: option.split)

lemma quarantinePut_frame [simp, frame]:
  "sq_log (quarantinePut d e r x) = sq_log d" "log_autoinc (quarantinePut d e r x) = log_autoinc d"
  "sq_writers (quarantinePut d e r x) = sq_writers d" "sq_pending (quarantinePut d e r x) = sq_pending d"
  "sq_floors (quarantinePut d e r x) = sq_floors d" "sq_finality (quarantinePut d e r x) = sq_finality d"
  by (simp_all add: quarantinePut_def)

lemma floorSet_frame [simp, frame]:
  "sq_log (floorSet d t w n c x) = sq_log d" "log_autoinc (floorSet d t w n c x) = log_autoinc d"
  "sq_writers (floorSet d t w n c x) = sq_writers d" "sq_pending (floorSet d t w n c x) = sq_pending d"
  "sq_finality (floorSet d t w n c x) = sq_finality d"
  by (simp_all add: floorSet_def split: option.split)

lemma finalitySet_frame [simp, frame]:
  "sq_log (finalitySet d c) = sq_log d" "log_autoinc (finalitySet d c) = log_autoinc d"
  "sq_writers (finalitySet d c) = sq_writers d" "sq_pending (finalitySet d c) = sq_pending d"
  "sq_floors (finalitySet d c) = sq_floors d"
  by (simp_all add: finalitySet_def)

lemma directivePut_frame [simp, frame]:
  "sq_log (directivePut d t w g x) = sq_log d" "log_autoinc (directivePut d t w g x) = log_autoinc d"
  "sq_writers (directivePut d t w g x) = sq_writers d" "sq_pending (directivePut d t w g x) = sq_pending d"
  "sq_floors (directivePut d t w g x) = sq_floors d" "sq_finality (directivePut d t w g x) = sq_finality d"
  by (simp_all add: directivePut_def)

lemma ack_frame [simp, frame]:
  "sq_log (ackNodeName d t n x) = sq_log d" "log_autoinc (ackNodeName d t n x) = log_autoinc d"
  "sq_writers (ackNodeName d t n x) = sq_writers d" "sq_pending (ackNodeName d t n x) = sq_pending d"
  "sq_floors (ackNodeName d t n x) = sq_floors d" "sq_finality (ackNodeName d t n x) = sq_finality d"
  "sq_cursors (ackNodeName d t n x) = sq_cursors d" "sq_acks (ackNodeName d t n x) = sq_acks d"
  "sq_log (ackForget d t n) = sq_log d" "log_autoinc (ackForget d t n) = log_autoinc d"
  "sq_writers (ackForget d t n) = sq_writers d" "sq_pending (ackForget d t n) = sq_pending d"
  "sq_floors (ackForget d t n) = sq_floors d" "sq_finality (ackForget d t n) = sq_finality d"
  by (simp_all add: ackNodeName_def ackForget_def split: option.split)

lemma metaSetHlc_frame [simp, frame]:
  "sq_log (metaSetHlc d h) = sq_log d" "log_autoinc (metaSetHlc d h) = log_autoinc d"
  "sq_writers (metaSetHlc d h) = sq_writers d" "sq_pending (metaSetHlc d h) = sq_pending d"
  "sq_floors (metaSetHlc d h) = sq_floors d" "sq_finality (metaSetHlc d h) = sq_finality d"
  by (simp_all add: metaSetHlc_def)

text \<open>Selects depend on their table only.\<close>

lemma reads_cong:
  "sq_log d = sq_log d' \<Longrightarrow> getEntry d = getEntry d'"
  "sq_log d = sq_log d' \<Longrightarrow> topicRows d = topicRows d'"
  "sq_writers d = sq_writers d' \<Longrightarrow> getWriter d = getWriter d'"
  "sq_pending d = sq_pending d' \<Longrightarrow> pendingGet d = pendingGet d'"
  "sq_floors d = sq_floors d' \<Longrightarrow> floorGet d = floorGet d'"
  "sq_finality d = sq_finality d' \<Longrightarrow> finalityGet d = finalityGet d'"
  by (auto simp: getEntry_def topicRows_def getWriter_def pendingGet_def floorGet_def finalityGet_def
      fun_eq_iff)

section \<open>The log table\<close>

definition log_table_ok :: "Db \<Rightarrow> bool" where
  "log_table_ok d \<longleftrightarrow>
     sorted_wrt (<) (map fst (sq_log d)) \<and>
     (\<forall>r \<in> set (sq_log d). 1 \<le> fst r \<and> fst r \<le> log_autoinc d) \<and>
     distinct (map (\<lambda>r. entryKey (snd r)) (sq_log d))"

lemma log_table_ok_cong:
  "sq_log d' = sq_log d \<Longrightarrow> log_autoinc d' = log_autoinc d \<Longrightarrow> log_table_ok d' = log_table_ok d"
  by (simp add: log_table_ok_def)

lemma log_table_ok_empty [simp]: "log_table_ok empty_db"
  by (simp add: log_table_ok_def empty_db_def)

lemma log_table_ok_filter:
  assumes "log_table_ok d" "sq_log d' = filter P (sq_log d)" "log_autoinc d' = log_autoinc d"
  shows "log_table_ok d'"
  using assms by (auto simp: log_table_ok_def sorted_wrt_map sorted_wrt_filter distinct_map_filter)

lemma log_table_rowid_unique:
  assumes "log_table_ok d" "r \<in> set (sq_log d)" "r' \<in> set (sq_log d)" "fst r = fst r'"
  shows "r = r'"
proof -
  have "distinct (map fst (sq_log d))"
    using assms(1) by (simp add: log_table_ok_def strict_sorted_iff)
  then show ?thesis using assms(2-4) by (auto simp: distinct_map dest: inj_onD)
qed

lemma log_table_key_unique:
  assumes "log_table_ok d" "r \<in> set (sq_log d)" "r' \<in> set (sq_log d)"
    "entryKey (snd r) = entryKey (snd r')"
  shows "r = r'"
  using assms by (auto simp: log_table_ok_def distinct_map dest: inj_onD)

lemma find_unique:
  assumes "x \<in> set xs" "P x" "\<And>y. y \<in> set xs \<Longrightarrow> P y \<Longrightarrow> y = x"
  shows "List.find P xs = Some x"
proof (cases "List.find P xs")
  case None
  then show ?thesis using assms(1,2) by (auto simp: find_None_iff)
next
  case (Some y)
  then show ?thesis using assms(3) [of y] find_Some_in [OF Some] by simp
qed

lemma getEntry_iff:
  assumes "log_table_ok d"
  shows "getEntry d t w s = Some e \<longleftrightarrow> (\<exists>r. (r, e) \<in> set (sq_log d)) \<and> entryKey e = (t, w, s)"
proof
  assume "getEntry d t w s = Some e"
  then obtain r where "List.find (\<lambda>r. entryKey (snd r) = (t, w, s)) (sq_log d) = Some (r, e)"
    by (auto simp: getEntry_def)
  then show "(\<exists>r. (r, e) \<in> set (sq_log d)) \<and> entryKey e = (t, w, s)"
    using find_Some_in by fastforce
next
  assume "(\<exists>r. (r, e) \<in> set (sq_log d)) \<and> entryKey e = (t, w, s)"
  then obtain r where r: "(r, e) \<in> set (sq_log d)" "entryKey e = (t, w, s)" by blast
  have "List.find (\<lambda>r. entryKey (snd r) = (t, w, s)) (sq_log d) = Some (r, e)"
  proof (rule find_unique [OF r(1)])
    fix y assume "y \<in> set (sq_log d)" "entryKey (snd y) = (t, w, s)"
    then show "y = (r, e)" using log_table_key_unique [OF assms _ r(1)] r(2) by simp
  qed (use r(2) in simp)
  then show "getEntry d t w s = Some e" by (simp add: getEntry_def)
qed

lemma getEntry_None:
  "getEntry d t w s = None \<longleftrightarrow> (\<forall>r \<in> set (sq_log d). entryKey (snd r) \<noteq> (t, w, s))"
  by (auto simp: getEntry_def find_None_iff)

lemma getEntry_key: "getEntry d t w s = Some e \<Longrightarrow> e_topic e = t \<and> e_writer e = w \<and> e_seq e = s"
  by (auto simp: getEntry_def entryKey_def dest!: find_Some_in)

lemma insertEntry_Inr:
  assumes "insertEntry s e = Inr (rowid, s')"
  shows "sq_log (db s') = sq_log (db s) @ [(rowid, e)]" "rowid = log_autoinc (db s) + 1"
    "db s' = (db s)\<lparr>sq_log := sq_log (db s) @ [(rowid, e)], log_autoinc := rowid\<rparr>"
    "\<forall>r \<in> set (sq_log (db s)). entryKey (snd r) \<noteq> entryKey e"
proof -
  have dup: "\<not> list_ex (\<lambda>r. entryKey (snd r) = entryKey e) (sq_log (db s))"
    using assms by (auto simp: insertEntry_def)
  then show "\<forall>r \<in> set (sq_log (db s)). entryKey (snd r) \<noteq> entryKey e"
    by (simp add: list_ex_iff)
  show db: "db s' = (db s)\<lparr>sq_log := sq_log (db s) @ [(rowid, e)], log_autoinc := rowid\<rparr>"
    using assms dup by (cases "logCounts s (e_topic e)") (auto simp: insertEntry_def Let_def)
  then show "sq_log (db s') = sq_log (db s) @ [(rowid, e)]" by simp
  show "rowid = log_autoinc (db s) + 1" using assms dup by (auto simp: insertEntry_def Let_def)
qed

lemma insertEntry_fails:
  "insertEntry s e = Inl err \<Longrightarrow> err = ERR_STORAGE \<and> (\<exists>r \<in> set (sq_log (db s)). entryKey (snd r) = entryKey e)"
  by (auto simp: insertEntry_def Let_def list_ex_iff split: if_splits option.splits)

lemma insertEntry_table_ok:
  assumes "insertEntry s e = Inr (rowid, s')" "log_table_ok (db s)"
  shows "log_table_ok (db s')"
  using insertEntry_Inr [OF assms(1)] assms(2)
  by (fastforce simp: log_table_ok_def sorted_wrt_append sorted_wrt_map)

text \<open>The log-count cache is exact.\<close>

definition counts_ok :: "Store \<Rightarrow> bool" where
  "counts_ok s \<longleftrightarrow> (\<forall>t n. logCounts s t = Some n \<longrightarrow> n = countRows (db s) t)"

lemma counts_ok_insert:
  assumes "insertEntry s e = Inr (rowid, s')" "counts_ok s"
  shows "counts_ok s'"
  using assms
  by (auto simp: insertEntry_def counts_ok_def countRows_def topicRows_def inTopic_def Let_def
      split: if_splits option.splits)

lemma counts_ok_onDb:
  "counts_ok s \<Longrightarrow> (\<And>d. sq_log (f d) = sq_log d) \<Longrightarrow> counts_ok (onDb f s)"
  by (simp add: counts_ok_def countRows_def topicRows_def)

text \<open>A delete confined to one topic, followed by forgetting that topic's count.\<close>

lemma counts_ok_forget:
  assumes "counts_ok s" "sq_log (db s') = filter P (sq_log (db s))"
    "logCounts s' = (logCounts s)(t := None)" "\<And>r. \<not> P r \<Longrightarrow> inTopic t r"
  shows "counts_ok s'"
  unfolding counts_ok_def
proof (intro allI impI)
  fix u n
  assume n: "logCounts s' u = Some n"
  then have "u \<noteq> t" "logCounts s u = Some n" using assms(3) by (auto split: if_splits)
  moreover have "filter (inTopic u) (filter P (sq_log (db s))) = filter (inTopic u) (sq_log (db s))"
    unfolding filter_filter using assms(4) \<open>u \<noteq> t\<close>
    by (intro filter_cong) (auto simp: inTopic_def)
  ultimately show "n = countRows (db s') u"
    using assms(1,2) by (simp add: counts_ok_def countRows_def topicRows_def)
qed

lemma deleteLogRange_rows:
  "sq_log (db (deleteLogRange s t w n)) =
     filter (\<lambda>r. \<not> (inStream t w r \<and> n \<le> e_seq (snd r))) (sq_log (db s))"
  by (simp add: deleteLogRange_def)

lemma deleteLogRange_db:
  "db (deleteLogRange s t w n) = (db s)\<lparr>sq_log :=
     filter (\<lambda>r. \<not> (inStream t w r \<and> n \<le> e_seq (snd r))) (sq_log (db s))\<rparr>"
  by (simp add: deleteLogRange_def)

lemma counts_ok_deleteLogRange: "counts_ok s \<Longrightarrow> counts_ok (deleteLogRange s t w n)"
  by (rule counts_ok_forget [where t = t and s = s, OF _ deleteLogRange_rows])
    (auto simp: deleteLogRange_def forgetCount_def onDb_def inStream_def inTopic_def)

lemma counts_ok_deleteStreamPrefix: "counts_ok s \<Longrightarrow> counts_ok (deleteStreamPrefix s t w n)"
  by (rule counts_ok_forget [where t = t and s = s
        and P = "\<lambda>r. \<not> (inStream t w r \<and> e_seq (snd r) \<le> n)"])
    (auto simp: deleteStreamPrefix_def forgetCount_def onDb_def inStream_def inTopic_def)

lemma deleteLogRowids_rows:
  "sq_log (db (deleteLogRowids s t ids)) = filter (\<lambda>r. \<not> (fst r \<in> set ids \<and> inTopic t r)) (sq_log (db s))"
  by (simp add: deleteLogRowids_def Let_def)

lemma counts_ok_deleteLogRowids: "counts_ok s \<Longrightarrow> counts_ok (deleteLogRowids s t ids)"
proof (cases "ids = []")
  case True
  assume "counts_ok s"
  then show ?thesis using True
    by (simp add: deleteLogRowids_def counts_ok_def countRows_def topicRows_def)
next
  case False
  assume "counts_ok s"
  then show ?thesis
    by (rule counts_ok_forget [where t = t, OF _ deleteLogRowids_rows])
      (use False in \<open>auto simp: deleteLogRowids_def forgetCount_def onDb_def\<close>)
qed

lemma logCount_counts:
  assumes "counts_ok s" "logCount s t = (n, s')"
  shows "n = countRows (db s) t" "db s' = db s" "counts_ok s'"
  using assms
  by (auto simp: logCount_def counts_ok_def countRows_def topicRows_def Let_def
      split: option.splits if_splits)

section \<open>Ordered reads\<close>

lemma sqlAfter_iff: "sqlAfter a e \<longleftrightarrow> orderCompare a (orderOf e) < 0"
  by (auto simp: sqlAfter_def orderCompare_def orderOf_def Let_def)

lemma sqlAtOrBefore_iff: "sqlAtOrBefore p e \<longleftrightarrow> orderCompare (orderOf e) p \<le> 0"
  by (auto simp: sqlAtOrBefore_def orderCompare_def orderOf_def Let_def)

lemma ordBefore_iff: "ordBefore a b \<longleftrightarrow> orderCompare a b < 0"
  by (auto simp: ordBefore_def orderCompare_def)

lemma entriesRange_set:
  "set (entriesRange d t w a b) = {r \<in> set (sq_log d). inStream t w r \<and> a \<le> e_seq (snd r) \<and> e_seq (snd r) \<le> b}"
  by (auto simp: entriesRange_def)

lemma lastSeq_upper:
  assumes "r \<in> set (sq_log d)" "inStream t w r" "orderCompare (orderOf (snd r)) p \<le> 0"
  shows "e_seq (snd r) \<le> lastSeqAtOrBeforeOrder d t w p"
proof -
  let ?xs = "filter (\<lambda>r. inStream t w r \<and> sqlAtOrBefore p (snd r)) (sq_log d)"
  let ?s = "sort_key (\<lambda>r. e_seq (snd r)) ?xs"
  have in_s: "r \<in> set ?s" using assms by (simp add: sqlAtOrBefore_iff)
  then have "rev ?s \<noteq> []" by (metis empty_iff list.set(1) rev_is_Nil_conv)
  then obtain z zs where rev: "rev ?s = z # zs" by (meson neq_Nil_conv)
  then have s: "?s = rev zs @ [z]" by (metis rev_rev_ident rev.simps(2))
  have "sorted (map (\<lambda>r. e_seq (snd r)) ?s)" by simp
  then have "\<forall>y \<in> set ?s. e_seq (snd y) \<le> e_seq (snd z)"
    unfolding s by (auto simp: sorted_append)
  then have "e_seq (snd r) \<le> e_seq (snd z)" using in_s by blast
  moreover have "lastSeqAtOrBeforeOrder d t w p = e_seq (snd z)"
    unfolding lastSeqAtOrBeforeOrder_def rev by simp
  ultimately show ?thesis by simp
qed

lemma lastSeq_attained:
  assumes "lastSeqAtOrBeforeOrder d t w p = n" "0 < n"
  shows "\<exists>r \<in> set (sq_log d). inStream t w r \<and> e_seq (snd r) = n \<and> orderCompare (orderOf (snd r)) p \<le> 0"
proof -
  let ?xs = "filter (\<lambda>r. inStream t w r \<and> sqlAtOrBefore p (snd r)) (sq_log d)"
  let ?s = "sort_key (\<lambda>r. e_seq (snd r)) ?xs"
  obtain z zs where rev: "rev ?s = z # zs"
    using assms by (cases "rev ?s") (auto simp: lastSeqAtOrBeforeOrder_def)
  then have "z \<in> set (rev ?s)" by simp
  then have "z \<in> set ?xs" by simp
  moreover have "e_seq (snd z) = n" using assms(1) unfolding lastSeqAtOrBeforeOrder_def rev by simp
  ultimately show ?thesis by (auto simp: sqlAtOrBefore_iff)
qed

section \<open>Batched deletion\<close>

lemma removeRows_filter:
  assumes "distinct (map fst rs)" "set gone \<subseteq> set rs"
  shows "removeRows gone rs = filter (\<lambda>r. r \<notin> set gone) rs"
  unfolding removeRows_def
proof (rule filter_cong)
  fix r assume r: "r \<in> set rs"
  have "inj_on fst (set rs)" using assms(1) by (simp add: distinct_map)
  then show "(fst r \<notin> fst ` set gone) = (r \<notin> set gone)"
    using r assms(2) by (auto dest: inj_onD)
qed simp

lemma length_take_filter_remove:
  assumes "distinct rs"
  shows "length (filter cond (filter (\<lambda>r. r \<notin> set (take n (filter cond rs))) rs)) =
    length (filter cond rs) - n"
proof -
  have "filter cond (filter (\<lambda>r. r \<notin> set (take n (filter cond rs))) rs) =
      filter (\<lambda>r. r \<notin> set (take n (filter cond rs))) (filter cond rs)"
    by (simp add: conj_commute)
  also have "\<dots> = drop n (filter cond rs)"
  proof -
    let ?ys = "filter cond rs"
    have d: "distinct ?ys" using assms by simp
    have "filter (\<lambda>r. r \<notin> set (take n ?ys)) (drop n ?ys) = drop n ?ys"
      by (rule filter_True) (use set_take_disj_set_drop_if_distinct [OF d, of n n] in blast)
    moreover have "filter (\<lambda>r. r \<notin> set (take n ?ys)) (take n ?ys) = []"
      by (simp add: filter_empty_conv)
    ultimately have "filter (\<lambda>r. r \<notin> set (take n ?ys)) (take n ?ys @ drop n ?ys) = drop n ?ys"
      unfolding filter_append by simp
    then show ?thesis unfolding append_take_drop_id .
  qed
  finally show ?thesis by simp
qed

lemma pruneBatches_spec:
  "distinct (map fst rs) \<Longrightarrow>
   pruneBatches batch cond rs n = (filter (\<lambda>r. \<not> cond r) rs, n + length (filter cond rs))"
proof (induction batch cond rs n rule: pruneBatches.induct)
  case (1 batch cond rs n)
  let ?rows = "take (Suc batch) (filter cond rs)"
  have dist: "distinct rs" using 1(2) by (simp add: distinct_map)
  have sub: "set ?rows \<subseteq> set rs" by (auto dest: in_set_takeD)
  have rm: "removeRows ?rows rs = filter (\<lambda>r. r \<notin> set ?rows) rs"
    by (rule removeRows_filter [OF 1(2) sub])
  show ?case
  proof (cases "length (filter cond rs) < Suc batch")
    case True
    then have all: "?rows = filter cond rs" by simp
    have "filter (\<lambda>r. r \<notin> set (filter cond rs)) rs = filter (\<lambda>r. \<not> cond r) rs"
      by (rule filter_cong) auto
    then show ?thesis using True rm unfolding all
      by (subst pruneBatches.simps) (auto simp: Let_def all filter_empty_conv intro: filter_True [symmetric])
  next
    case False
    then have ne: "?rows \<noteq> []" and full: "\<not> length ?rows < Suc batch" by (auto simp: take_Suc)
    have d': "distinct (map fst (removeRows ?rows rs))"
      unfolding removeRows_def by (rule distinct_map_filter_keep [OF 1(2)])
    have len: "length (filter cond (removeRows ?rows rs)) = length (filter cond rs) - Suc batch"
      unfolding rm by (rule length_take_filter_remove [OF dist])
    have rest: "filter (\<lambda>r. \<not> cond r) (removeRows ?rows rs) = filter (\<lambda>r. \<not> cond r) rs"
      unfolding rm filter_filter by (rule filter_cong) (auto dest: in_set_takeD)
    have "pruneBatches batch cond rs n = pruneBatches batch cond (removeRows ?rows rs) (n + length ?rows)"
      using ne full by (subst pruneBatches.simps) (simp only: Let_def if_False)
    also have "\<dots> = (filter (\<lambda>r. \<not> cond r) rs, n + length ?rows + (length (filter cond rs) - Suc batch))"
      using 1(1) [OF refl ne full d'] unfolding rest len by simp
    finally show ?thesis using False by simp
  qed
qed

section \<open>Tail offsets\<close>

lemma topicRows_sorted:
  assumes "log_table_ok d"
  shows "sorted_wrt (<) (map fst (topicRows d t))"
  using assms by (simp add: log_table_ok_def topicRows_def sorted_wrt_map sorted_wrt_filter)

lemma tail_count:
  fixes rs :: "LogRow list"
  assumes "sorted_wrt (<) (map fst rs)" "drop k (rev rs) = r # zs"
  shows "length (filter (\<lambda>x. fst r \<le> fst x) rs) = Suc k"
proof -
  have rs: "rs = rev zs @ [r] @ rev (take k (rev rs))"
    by (metis append_take_drop_id assms(2) rev.simps(2) rev_append rev_rev_ident append.assoc)
  have "k < length rs" using assms(2) by (metis drop_all length_rev list.distinct(1) not_le)
  then have len: "length (take k (rev rs)) = k" by simp
  define us where "us = rev (take k (rev rs))"
  have rs': "rs = rev zs @ [r] @ us" and lu: "length us = k" using rs len by (simp_all add: us_def)
  have "\<forall>x \<in> set (rev zs). fst x < fst r" "\<forall>x \<in> set us. fst r < fst x"
    using assms(1) unfolding rs' by (auto simp: sorted_wrt_append)
  then have "(\<forall>x \<in> set (rev zs). \<not> fst r \<le> fst x) \<and> (\<forall>x \<in> set us. fst r \<le> fst x)"
    by (meson less_imp_le not_le)
  then have "filter (\<lambda>x. fst r \<le> fst x) (rev zs) = []" "filter (\<lambda>x. fst r \<le> fst x) us = us"
    unfolding filter_empty_conv filter_id_conv by blast+
  then show ?thesis using lu unfolding rs' by simp
qed

lemma rowidAtTailOffset_eq:
  assumes "1 \<le> n" "n \<le> MAX_SAFE_INTEGER"
  shows "rowidAtTailOffset d t (num_of_nat n) =
    (case drop (n - 1) (rev (topicRows d t)) of [] \<Rightarrow> None | r # _ \<Rightarrow> Some (fst r))"
  using assms by (simp add: rowidAtTailOffset_def)

lemma deleteLogRowsUpToRowid_spec:
  assumes "log_table_ok (db s)" "deleteLogRowsUpToRowid s t below before = (n, s')"
  shows "sq_log (db s') = filter (\<lambda>r. \<not> prunable t below before r) (sq_log (db s))"
    "n = length (filter (prunable t below before) (sq_log (db s)))"
    "db s' = (db s)\<lparr>sq_log := sq_log (db s')\<rparr>" "counts_ok s \<Longrightarrow> counts_ok s'"
proof -
  have "distinct (map fst (sq_log (db s)))"
    using assms(1) by (simp add: log_table_ok_def strict_sorted_iff)
  then have spec: "pruneBatches (PRUNE_BATCH - Suc 0) (prunable t below before) (sq_log (db s)) 0 =
      (filter (\<lambda>r. \<not> prunable t below before r) (sq_log (db s)),
       length (filter (prunable t below before) (sq_log (db s))))"
    by (simp add: pruneBatches_spec)
  show n: "n = length (filter (prunable t below before) (sq_log (db s)))"
    and rows: "sq_log (db s') = filter (\<lambda>r. \<not> prunable t below before r) (sq_log (db s))"
    using assms(2) by (auto simp: deleteLogRowsUpToRowid_def spec Let_def split: if_splits)
  show "db s' = (db s)\<lparr>sq_log := sq_log (db s')\<rparr>"
    using assms(2) by (auto simp: deleteLogRowsUpToRowid_def spec Let_def split: if_splits)
  show "counts_ok s'" if ok: "counts_ok s"
  proof (cases "n = 0")
    case True
    then have "filter (\<lambda>r. \<not> prunable t below before r) (sq_log (db s)) = sq_log (db s)"
      using n by (simp add: filter_empty_conv filter_id_conv)
    then show ?thesis using ok rows assms(2) True
      by (auto simp: deleteLogRowsUpToRowid_def spec Let_def counts_ok_def countRows_def topicRows_def
          split: if_splits)
  next
    case False
    then have "logCounts s' = (logCounts s)(t := None)"
      using assms(2) n by (auto simp: deleteLogRowsUpToRowid_def spec Let_def forgetCount_def onDb_def
          split: if_splits)
    then show ?thesis
      by (rule counts_ok_forget [OF ok rows]) (simp add: prunable_def)
  qed
qed

section \<open>Properties\<close>

text \<open>The batched delete of \<open>pruneTopic\<close> removes exactly the rows of the topic at or
  below the rowid bound (and below the HLC bound), in any number of batches, returns how many
  there were, and leaves the row-count cache exact.\<close>

theorem batched_delete_is_one_delete:
  assumes "log_table_ok (db s)" "deleteLogRowsUpToRowid s t below before = (n, s')"
  shows "sq_log (db s') = filter (\<lambda>r. \<not> prunable t below before r) (sq_log (db s)) \<and>
    n = length (filter (prunable t below before) (sq_log (db s))) \<and> (counts_ok s \<longrightarrow> counts_ok s')"
  using deleteLogRowsUpToRowid_spec [OF assms] by blast

definition demo_log :: Store where
  "demo_log = empty_store\<lparr>db := empty_db\<lparr>sq_log := [(1, demo_entry ''t''), (4, demo_entry ''t''\<lparr>e_seq := 2\<rparr>),
     (5, demo_entry ''u'')], log_autoinc := 5\<rparr>\<rparr>"

lemma demo_log_ok: "log_table_ok (db demo_log)"
  by (simp add: log_table_ok_def demo_log_def empty_store_def empty_db_def demo_entry_def entryKey_def)

theorem batched_delete_is_one_delete_witness:
  "map fst (sq_log (db (snd (deleteLogRowsUpToRowid demo_log ''t'' 3 None)))) = [4, 5]"
proof -
  obtain n s' where del: "deleteLogRowsUpToRowid demo_log ''t'' 3 None = (n, s')" by fastforce
  show ?thesis
    using batched_delete_is_one_delete [OF demo_log_ok del] del
    by (simp add: demo_log_def empty_store_def empty_db_def demo_entry_def prunable_def inTopic_def)
qed

text \<open>The tail-offset probe finds the rowid that exactly the newest \<open>n\<close> rows of the
  topic reach, and reports nothing exactly when the topic has fewer rows: keeping the rows at or
  above it keeps \<open>n\<close> rows.\<close>

theorem tail_offset_keeps_n:
  assumes "log_table_ok d" "1 \<le> n" "n \<le> MAX_SAFE_INTEGER"
  shows "case rowidAtTailOffset d t (num_of_nat n) of
      None \<Rightarrow> countRows d t < n
    | Some r \<Rightarrow> length (filter (\<lambda>x. r \<le> fst x) (topicRows d t)) = n"
proof (cases "drop (n - 1) (rev (topicRows d t))")
  case Nil
  then show ?thesis using assms(2) by (simp add: rowidAtTailOffset_eq [OF assms(2,3)] countRows_def)
next
  case (Cons r zs)
  show ?thesis
    using tail_count [OF topicRows_sorted [OF assms(1)] Cons] assms(2)
    unfolding rowidAtTailOffset_eq [OF assms(2,3)] Cons by simp
qed

theorem tail_offset_keeps_n_witness:
  "case rowidAtTailOffset (db demo_log) ''t'' (num_of_nat 2) of None \<Rightarrow> countRows (db demo_log) ''t'' < 2
   | Some r \<Rightarrow> length (filter (\<lambda>x. r \<le> fst x) (topicRows (db demo_log) ''t'')) = 2"
  by (rule tail_offset_keeps_n [OF demo_log_ok]) (simp_all add: MAX_SAFE_INTEGER_def)

text \<open>The SQL comparison of four columns computes the total order of entries: the query
  behind finality returns the highest sequence number of the stream whose entry is at or before
  the given order, and 0 when there is none.\<close>

theorem last_covered_seq:
  "lastSeqAtOrBeforeOrder d t w p =
     Max (insert 0 {e_seq (snd r) | r. r \<in> set (sq_log d) \<and> inStream t w r \<and>
                      orderCompare (orderOf (snd r)) p \<le> 0})"
proof -
  let ?S = "{e_seq (snd r) | r. r \<in> set (sq_log d) \<and> inStream t w r \<and> orderCompare (orderOf (snd r)) p \<le> 0}"
  have "?S \<subseteq> (\<lambda>r. e_seq (snd r)) ` set (sq_log d)" by blast
  then have "finite ?S" by (rule finite_surj [rotated]) simp
  then have fin: "finite (insert 0 ?S)" by blast
  have "y \<le> lastSeqAtOrBeforeOrder d t w p" if "y \<in> insert 0 ?S" for y
    using that lastSeq_upper by auto
  moreover have "lastSeqAtOrBeforeOrder d t w p \<in> insert 0 ?S"
  proof (cases "lastSeqAtOrBeforeOrder d t w p = 0")
    case False
    then obtain r where "r \<in> set (sq_log d)" "inStream t w r" "orderCompare (orderOf (snd r)) p \<le> 0"
      "e_seq (snd r) = lastSeqAtOrBeforeOrder d t w p"
      using lastSeq_attained [OF refl, of d t w p] by blast
    then show ?thesis by (metis (mono_tags, lifting) insertI2 mem_Collect_eq)
  qed simp
  ultimately show ?thesis using fin by (intro Max_eqI [symmetric])
qed

end
