(* ===== verification/Retention.thy ===== *)
theory Retention
  imports Store_Lemmas
begin

text \<open>
  \<^verbatim>\<open>src/retention.ts\<close>: acknowledged retention of full-sync append topics. Which
  topics it applies to, the recorder of peers' acknowledgments, the member plan (who pins the
  floor) and the acknowledged floor of every stream. The deletions themselves run in the
  append queue (theory \<open>Log_Prune\<close>).
\<close>

definition ACKED_PRUNE_DEFAULT_MAX_ROWS :: nat where
  "ACKED_PRUNE_DEFAULT_MAX_ROWS = 1000"

definition ACKED_PRUNE_MAX_ROWS_CAP :: nat where
  "ACKED_PRUNE_MAX_ROWS_CAP = 10000"

definition ACK_SEEN_REFRESH_MS :: nat where
  "ACK_SEEN_REFRESH_MS = 60000"

definition ACK_FORGET_LAG_MULTIPLE :: nat where
  "ACK_FORGET_LAG_MULTIPLE = 2"

text \<open>The options of one call after its preflight: the two windows are finite numbers.\<close>

record AckedPruneOptions =
  o_olderThanMs :: rat
  o_maxLagMs :: rat
  o_members :: "string list option"
  o_excludeMembers :: "string list"
  o_dryRun :: bool

datatype AckedSkip = SkipForked | SkipRecovering

record AckedPruneWriter =
  aw_floor :: nat
  aw_ackFloor :: nat
  aw_pinnedBy :: "string option"
  aw_skipped :: "AckedSkip option"

datatype Exclusion = Lagging | Excluded

record AckedPruneMember =
  am_node :: string
  am_lastSeenAt :: "nat option"
  am_excluded :: "Exclusion option"

record AckedPruneResult =
  ar_prunedRows :: nat
  ar_more :: bool
  ar_writers :: "(string \<times> AckedPruneWriter) list"
  ar_members :: "AckedPruneMember list"

section \<open>Counters\<close>

record TopicRetentionCounters =
  prunedRows :: nat
  floorsAdopted :: nat
  truncatedServed :: nat
  truncatedUnservable :: nat

type_synonym RetentionStats = "string \<Rightarrow> TopicRetentionCounters option"

datatype RetKey = K_prunedRows | K_floorsAdopted | K_truncatedServed | K_truncatedUnservable

definition ret_bump :: "RetentionStats \<Rightarrow> string \<Rightarrow> RetKey \<Rightarrow> nat \<Rightarrow> RetentionStats" where
  "ret_bump st topic key n =
     (let c = (case st topic of Some c \<Rightarrow> c
               | None \<Rightarrow> \<lparr>prunedRows = 0, floorsAdopted = 0, truncatedServed = 0, truncatedUnservable = 0\<rparr>)
      in st(topic \<mapsto> (case key of
           K_prunedRows \<Rightarrow> c\<lparr>prunedRows := prunedRows c + n\<rparr>
         | K_floorsAdopted \<Rightarrow> c\<lparr>floorsAdopted := floorsAdopted c + n\<rparr>
         | K_truncatedServed \<Rightarrow> c\<lparr>truncatedServed := truncatedServed c + n\<rparr>
         | K_truncatedUnservable \<Rightarrow> c\<lparr>truncatedUnservable := truncatedUnservable c + n\<rparr>)))"

section \<open>Eligibility\<close>

text \<open>\<open>Inr False\<close>: not refused; \<open>Inr True\<close>: refused with a reason; an unknown topic throws.\<close>

definition ackedRetentionRefusal :: "TopicRegistry \<Rightarrow> string \<Rightarrow> bool result" where
  "ackedRetentionRefusal topics topic =
     rbind (reg_get topics topic) (\<lambda>te.
       let p = te_policy te in
       if p_kind p \<noteq> ''append'' then Inr True
       else if p_replication p \<noteq> ''full-sync'' then Inr True
       else if p_mode p \<noteq> ''full'' then Inr True
       else if p_keyed p \<noteq> None then Inr True
       else Inr False)"

section \<open>Recording acknowledgments\<close>

record AckRecorder =
  rec_last :: "string \<times> string \<times> string \<Rightarrow> nat option"
  rec_seenWritten :: "string \<times> string \<Rightarrow> nat option"

definition vec_seq :: "VecEntry \<Rightarrow> nat" where
  "vec_seq w = (case w of VRetired f _ _ \<Rightarrow> f | VLive c _ _ \<Rightarrow> c)"

text \<open>One stream of a peer's advertisement: memo check, then a queued upsert.\<close>

fun rec_streams ::
  "string \<Rightarrow> string \<Rightarrow> (string \<times> VecEntry) list \<Rightarrow> AckRecorder \<times> Db \<times> bool \<Rightarrow> AckRecorder \<times> Db \<times> bool" where
  "rec_streams topic node [] st = st"
| "rec_streams topic node ((writer, w) # ws) (r, d, changed) =
     (let seq = vec_seq w; k = (topic, node, writer) in
      if rec_last r k = Some seq then rec_streams topic node ws (r, d, changed)
      else rec_streams topic node ws
             (r\<lparr>rec_last := (rec_last r)(k \<mapsto> seq)\<rparr>, ackUpsert d topic node writer seq, True))"

text \<open>
  \<open>record\<close>: the queued writes land in one transaction; if it fails (\<open>fault\<close>), the
  database is unchanged and both memos are dropped.
\<close>

fun rec_topics ::
  "TopicRegistry \<Rightarrow> string \<Rightarrow> nat \<Rightarrow> nat option \<Rightarrow> HaveVectors \<Rightarrow> AckRecorder \<times> Db \<times> nat \<Rightarrow> AckRecorder \<times> Db \<times> nat" where
  "rec_topics topics node ts proto [] st = st"
| "rec_topics topics node ts proto ((topic, v) # vs) (r, d, n) =
     (if \<not> reg_has topics topic \<or> ackedRetentionRefusal topics topic \<noteq> Inr False
      then rec_topics topics node ts proto vs (r, d, n)
      else case rec_streams topic node (writers v) (r, d, False) of
        (r1, d1, changed) \<Rightarrow>
          let prev = rec_seenWritten r1 (topic, node) in
          if changed \<or> (case prev of None \<Rightarrow> True | Some p \<Rightarrow> int ts - int p \<ge> int ACK_SEEN_REFRESH_MS)
          then rec_topics topics node ts proto vs
                 (r1\<lparr>rec_seenWritten := (rec_seenWritten r1)((topic, node) \<mapsto> ts)\<rparr>,
                  ackNodeSeen d1 topic node ts proto, n + 1)
          else rec_topics topics node ts proto vs (r1, d1, n))"

definition ack_record ::
  "TopicRegistry \<Rightarrow> string \<Rightarrow> bool \<Rightarrow> AckRecorder \<Rightarrow> Db \<Rightarrow> string \<Rightarrow> HaveVectors \<Rightarrow> nat \<Rightarrow> nat option \<Rightarrow>
   AckRecorder \<times> Db" where
  "ack_record topics selfWriter fault r d node vectors ts proto =
     (if node = selfWriter then (r, d)
      else case rec_topics topics node ts proto vectors (r, d, 0) of
        (r', d', n) \<Rightarrow>
          if n = 0 then (r', d)
          else if fault then (\<lparr>rec_last = Map.empty, rec_seenWritten = Map.empty\<rparr>, d)
          else (r', d'))"

definition ack_forget_memo :: "AckRecorder \<Rightarrow> string \<Rightarrow> string \<Rightarrow> AckRecorder" where
  "ack_forget_memo r topic node = r\<lparr>
     rec_seenWritten := (rec_seenWritten r)((topic, node) := None),
     rec_last := (\<lambda>(t, n, w). if t = topic \<and> n = node then None else rec_last r (t, n, w))\<rparr>"

section \<open>The member plan\<close>

record StreamView =
  sv_writer :: string
  sv_contigSeq :: nat
  sv_sealReason :: "SealReason option"
  sv_finalSeq :: "nat option"
  sv_recovering :: bool

record MemberPlan =
  mp_members :: "AckedPruneMember list"
  mp_included :: "string list"
  mp_forget :: "string list"

definition writerNewest :: "Db \<Rightarrow> string \<Rightarrow> StreamView list \<Rightarrow> string \<Rightarrow> nat option" where
  "writerNewest d topic streams node =
     foldl (\<lambda>m s. if sv_contigSeq s = 0 then m
                 else (case hlcLAt d topic (sv_writer s) (sv_contigSeq s) of
                         None \<Rightarrow> m | Some l \<Rightarrow> if sv_writer s = node then Some l else m))
       None streams"

definition maxEvidence :: "nat option list \<Rightarrow> nat option" where
  "maxEvidence ts = foldl (\<lambda>ev t. case t of None \<Rightarrow> ev
      | Some x \<Rightarrow> (case ev of None \<Rightarrow> Some x | Some y \<Rightarrow> if x > y then Some x else ev)) None ts"

definition lagOver :: "nat \<Rightarrow> nat \<Rightarrow> rat \<Rightarrow> bool" where
  "lagOver now ev lag \<longleftrightarrow> of_int (int now - int ev) > lag"

definition memberNames ::
  "(string \<times> AckNode) list \<Rightarrow> AckedPruneOptions \<Rightarrow> StreamView list \<Rightarrow> string \<Rightarrow> string list" where
  "memberNames recorded opts streams selfWriter =
     sort (remdups (filter (\<lambda>n. n \<noteq> selfWriter)
       (case o_members opts of
          Some ms \<Rightarrow> ms
        | None \<Rightarrow> map fst recorded @
                  map sv_writer (filter (\<lambda>s. sv_sealReason s \<noteq> Some SealRetired) streams))))"

fun planLoop ::
  "Db \<Rightarrow> string \<Rightarrow> AckedPruneOptions \<Rightarrow> StreamView list \<Rightarrow> (string \<times> AckNode) list \<Rightarrow> nat \<Rightarrow>
   string list \<Rightarrow> Db \<times> MemberPlan \<Rightarrow> Db \<times> MemberPlan" where
  "planLoop d0 topic opts streams recorded now [] st = st"
| "planLoop d0 topic opts streams recorded now (node # nodes) (d, mp) =
     (let rec = map_of recorded node;
          named = (rec = None \<and> o_members opts \<noteq> None);
          d' = (if named \<and> \<not> o_dryRun opts then ackNodeName d topic node now else d);
          first = (if named then Some now else map_option firstAt rec);
          seen = (case rec of None \<Rightarrow> None | Some a \<Rightarrow> seenAt a);
          evidence = maxEvidence [seen, first, writerNewest d0 topic streams node];
          why = (if node \<in> set (o_excludeMembers opts) then Some Excluded
                 else (case evidence of None \<Rightarrow> Some Lagging
                       | Some ev \<Rightarrow> if lagOver now ev (o_maxLagMs opts) then Some Lagging else None));
          forget = (rec \<noteq> None \<and> (why = Some Excluded \<or> (case evidence of None \<Rightarrow> False
                       | Some ev \<Rightarrow> lagOver now ev (o_maxLagMs opts * of_nat ACK_FORGET_LAG_MULTIPLE))))
      in planLoop d0 topic opts streams recorded now nodes
           (d', mp\<lparr>mp_members := mp_members mp @ [\<lparr>am_node = node, am_lastSeenAt = seen, am_excluded = why\<rparr>],
                   mp_included := mp_included mp @ (if why = None then [node] else []),
                   mp_forget := mp_forget mp @ (if forget then [node] else [])\<rparr>))"

definition planMembers ::
  "Db \<Rightarrow> string \<Rightarrow> AckedPruneOptions \<Rightarrow> StreamView list \<Rightarrow> string \<Rightarrow> nat \<Rightarrow> Db \<times> MemberPlan" where
  "planMembers d topic opts streams selfWriter now =
     (let recorded = ackNodes d topic
      in planLoop d topic opts streams recorded now (memberNames recorded opts streams selfWriter)
           (d, \<lparr>mp_members = [], mp_included = [], mp_forget = []\<rparr>))"

section \<open>Acknowledged floors\<close>

definition streamCap :: "StreamView \<Rightarrow> nat" where
  "streamCap s = (if sv_sealReason s = Some SealRetired
                  then (case sv_finalSeq s of None \<Rightarrow> sv_contigSeq s | Some f \<Rightarrow> f)
                  else sv_contigSeq s)"

definition ackOf :: "Db \<Rightarrow> string \<Rightarrow> StreamView \<Rightarrow> string \<Rightarrow> nat" where
  "ackOf d topic s node =
     (case map_of (acksForTopic d topic) (node, sv_writer s) of
        Some a \<Rightarrow> a
      | None \<Rightarrow> if node = sv_writer s then streamCap s else 0)"

fun ackFloorLoop :: "(string \<Rightarrow> nat) \<Rightarrow> string list \<Rightarrow> nat \<times> string option \<Rightarrow> nat \<times> string option" where
  "ackFloorLoop ack [] st = st"
| "ackFloorLoop ack (node # nodes) (fl, pinned) =
     (if ack node < fl then ackFloorLoop ack nodes (ack node, Some node)
      else ackFloorLoop ack nodes (fl, pinned))"

definition ackFloors ::
  "Db \<Rightarrow> string \<Rightarrow> StreamView list \<Rightarrow> string list \<Rightarrow> (string \<times> (nat \<times> string option)) list" where
  "ackFloors d topic streams included =
     map (\<lambda>s. (sv_writer s, ackFloorLoop (ackOf d topic s) included (streamCap s, None))) streams"

section \<open>Lemmas\<close>

lemma maxEvidence_snoc: "maxEvidence (ts @ [t]) = (case t of None \<Rightarrow> maxEvidence ts
    | Some x \<Rightarrow> (case maxEvidence ts of None \<Rightarrow> Some x | Some y \<Rightarrow> Some (max x y)))"
  by (auto simp: maxEvidence_def max_def split: option.split)

lemma maxEvidence_ge: "Some x \<in> set ts \<Longrightarrow> \<exists>y. maxEvidence ts = Some y \<and> x \<le> y"
proof (induction ts rule: rev_induct)
  case (snoc t ts)
  then show ?case by (auto simp: maxEvidence_snoc max_def split: option.split)
qed simp

text \<open>The floor is the minimum of the cap and every included member's acknowledgment.\<close>

lemma ackFloorLoop_min:
  "fst (ackFloorLoop ack nodes (fl, p)) = fold min (map ack nodes) fl"
  by (induction nodes arbitrary: fl p) (auto simp: min_def)

lemma fold_min_le:
  fixes m :: nat
  shows "fold min xs m \<le> m \<and> (\<forall>x \<in> set xs. fold min xs m \<le> x)"
proof (induction xs arbitrary: m)
  case (Cons y ys)
  have "fold min ys (min y m) \<le> min y m" "\<forall>x \<in> set ys. fold min ys (min y m) \<le> x"
    using Cons.IH [of "min y m"] by blast+
  moreover have "min y m \<le> y" "min y m \<le> m" by simp_all
  ultimately show ?case by (auto intro: order_trans)
qed simp

lemma ackFloors_bound:
  assumes "map_of (ackFloors d topic streams included) w = Some (fl, p)"
  shows "\<exists>s \<in> set streams. sv_writer s = w \<and> fl \<le> streamCap s \<and>
           (\<forall>node \<in> set included. fl \<le> ackOf d topic s node)"
proof -
  from assms obtain s where s: "s \<in> set streams" "sv_writer s = w"
    "ackFloorLoop (ackOf d topic s) included (streamCap s, None) = (fl, p)"
    by (auto simp: ackFloors_def dest!: map_of_SomeD)
  have "fl = fold min (map (ackOf d topic s) included) (streamCap s)"
    using s(3) ackFloorLoop_min [of "ackOf d topic s" included "streamCap s" None] by simp
  then show ?thesis
    using s(1,2) fold_min_le [of "map (ackOf d topic s) included" "streamCap s"] by auto
qed

lemma planLoop_frame:
  "sq_log (fst (planLoop d0 t opts ss recd now nodes (d, mp))) = sq_log d \<and>
   log_autoinc (fst (planLoop d0 t opts ss recd now nodes (d, mp))) = log_autoinc d \<and>
   sq_writers (fst (planLoop d0 t opts ss recd now nodes (d, mp))) = sq_writers d \<and>
   sq_pending (fst (planLoop d0 t opts ss recd now nodes (d, mp))) = sq_pending d \<and>
   sq_floors (fst (planLoop d0 t opts ss recd now nodes (d, mp))) = sq_floors d \<and>
   sq_finality (fst (planLoop d0 t opts ss recd now nodes (d, mp))) = sq_finality d \<and>
   sq_cursors (fst (planLoop d0 t opts ss recd now nodes (d, mp))) = sq_cursors d \<and>
   sq_acks (fst (planLoop d0 t opts ss recd now nodes (d, mp))) = sq_acks d"
  by (induction nodes arbitrary: d mp) (simp_all add: Let_def)

section \<open>Who is included, and by what evidence\<close>

definition memberEvidence ::
  "Db \<Rightarrow> string \<Rightarrow> AckedPruneOptions \<Rightarrow> StreamView list \<Rightarrow> nat \<Rightarrow> string \<Rightarrow> nat option" where
  "memberEvidence d topic opts streams now node =
     (let rec = map_of (ackNodes d topic) node in
      maxEvidence [(case rec of None \<Rightarrow> None | Some a \<Rightarrow> seenAt a),
                   (if rec = None \<and> o_members opts \<noteq> None then Some now else map_option firstAt rec),
                   writerNewest d topic streams node])"

definition memberIncluded ::
  "Db \<Rightarrow> string \<Rightarrow> AckedPruneOptions \<Rightarrow> StreamView list \<Rightarrow> nat \<Rightarrow> string \<Rightarrow> bool" where
  "memberIncluded d topic opts streams now node \<longleftrightarrow>
     node \<notin> set (o_excludeMembers opts) \<and>
     (case memberEvidence d topic opts streams now node of
        None \<Rightarrow> False | Some ev \<Rightarrow> \<not> lagOver now ev (o_maxLagMs opts))"

lemma planLoop_included:
  "mp_included (snd (planLoop d topic opts streams (ackNodes d topic) now nodes (d', mp))) =
     mp_included mp @ filter (memberIncluded d topic opts streams now) nodes"
proof (induction nodes arbitrary: d' mp)
  case (Cons n ns)
  show ?case
    by (simp add: Let_def Cons.IH memberIncluded_def memberEvidence_def split: option.split)
qed simp

lemma ackFloorLoop_pinned:
  "ackFloorLoop ack nodes (fl, p) = (fl', p') \<Longrightarrow>
   (fl' = fl \<and> p' = p) \<or> (\<exists>n \<in> set nodes. p' = Some n \<and> fl' = ack n \<and> fl' < fl)"
  by (induction nodes arbitrary: fl p) (fastforce split: if_splits)+

section \<open>The recorder's memo\<close>

definition memo_ok :: "AckRecorder \<Rightarrow> Db \<Rightarrow> bool" where
  "memo_ok r d \<longleftrightarrow> (\<forall>k s. rec_last r k = Some s \<longrightarrow> map_of (sq_acks d) k = Some s)"

lemma ackNodeSeen_acks [simp]: "sq_acks (ackNodeSeen d t n ts p) = sq_acks d"
  by (simp add: ackNodeSeen_def)

lemma rec_streams_True: "rec_streams t n ws (r, d, True) = (r', d', ch') \<Longrightarrow> ch'"
  by (induction ws arbitrary: r d) (auto simp: Let_def split: if_splits)

lemma rec_streams_memo:
  "rec_streams t n ws (r, d, ch) = (r', d', ch') \<Longrightarrow> memo_ok r d \<Longrightarrow>
   memo_ok r' d' \<and> (\<not> ch' \<longrightarrow> r' = r \<and> d' = d)"
proof (induction ws arbitrary: r d ch)
  case (Cons x ws)
  obtain w v where x: "x = (w, v)" by (cases x)
  show ?case
  proof (cases "rec_last r (t, n, w) = Some (vec_seq v)")
    case True
    then show ?thesis using Cons.IH [of r d ch] Cons.prems by (simp add: x Let_def)
  next
    case False
    let ?r = "r\<lparr>rec_last := (rec_last r)((t, n, w) \<mapsto> vec_seq v)\<rparr>" and ?d = "ackUpsert d t n w (vec_seq v)"
    have "memo_ok ?r ?d"
      using Cons.prems(2) by (auto simp: memo_ok_def ackUpsert_def map_of_alist_update)
    moreover have run: "rec_streams t n ws (?r, ?d, True) = (r', d', ch')"
      using Cons.prems(1) False by (simp add: x Let_def)
    moreover have "ch'" using run by (rule rec_streams_True)
    ultimately show ?thesis using Cons.IH [of ?r ?d True] by simp
  qed
qed simp

lemma rec_topics_memo:
  "rec_topics tp node ts proto vs (r, d, n) = (r', d', n') \<Longrightarrow> memo_ok r d \<Longrightarrow>
   memo_ok r' d' \<and> n \<le> n' \<and> (n' = n \<longrightarrow> r' = r \<and> d' = d)"
proof (induction vs arbitrary: r d n)
  case (Cons x vs)
  obtain topic v where x: "x = (topic, v)" by (cases x)
  show ?case
  proof (cases "\<not> reg_has tp topic \<or> ackedRetentionRefusal tp topic \<noteq> Inr False")
    case True
    then have "rec_topics tp node ts proto vs (r, d, n) = (r', d', n')"
      using Cons.prems(1) by (simp add: x)
    then show ?thesis using Cons.IH [of r d n] Cons.prems(2) by blast
  next
    case ok: False
    obtain r1 d1 ch where run: "rec_streams topic node (writers v) (r, d, False) = (r1, d1, ch)"
      by (cases "rec_streams topic node (writers v) (r, d, False)")
    note memo = rec_streams_memo [OF run Cons.prems(2)]
    let ?wr = "ch \<or> (case rec_seenWritten r1 (topic, node) of None \<Rightarrow> True
      | Some p \<Rightarrow> int ts - int p \<ge> int ACK_SEEN_REFRESH_MS)"
    show ?thesis
    proof (cases ?wr)
      case True
      let ?r = "r1\<lparr>rec_seenWritten := (rec_seenWritten r1)((topic, node) \<mapsto> ts)\<rparr>"
        and ?d = "ackNodeSeen d1 topic node ts proto"
      have "rec_topics tp node ts proto vs (?r, ?d, n + 1) = (r', d', n')"
        using Cons.prems(1) ok True by (simp add: x run Let_def)
      moreover have "memo_ok ?r ?d" using memo by (simp add: memo_ok_def)
      ultimately show ?thesis using Cons.IH [of ?r ?d "n + 1"] by auto
    next
      case False
      then have "rec_topics tp node ts proto vs (r1, d1, n) = (r', d', n')"
        using Cons.prems(1) ok by (auto simp: x run Let_def split: if_splits)
      moreover have "r1 = r" "d1 = d" using memo False by blast+
      ultimately show ?thesis using Cons.IH [of r d n] Cons.prems(2) by simp
    qed
  qed
qed simp

lemma ack_record_memo:
  assumes "memo_ok r d"
  shows "memo_ok (fst (ack_record tp self fault r d node vs ts proto))
    (snd (ack_record tp self fault r d node vs ts proto))"
proof -
  obtain r' d' n where run: "rec_topics tp node ts proto vs (r, d, 0) = (r', d', n)"
    by (cases "rec_topics tp node ts proto vs (r, d, 0)")
  show ?thesis
    using rec_topics_memo [OF run assms] assms
    by (auto simp: ack_record_def run memo_ok_def)
qed

section \<open>Properties\<close>

text \<open>C34. The acknowledged floor of a stream is the least position any included member has
  acknowledged (capped by the stream's own extent), and the report names a member that pins it:
  no row above what the slowest included member holds counts as acknowledged.\<close>

theorem acked_floor_exact:
  assumes "map_of (ackFloors d topic streams included) w = Some (fl, p)"
  shows "\<exists>s \<in> set streams. sv_writer s = w \<and>
     fl = Min (insert (streamCap s) (ackOf d topic s ` set included)) \<and>
     (case p of None \<Rightarrow> fl = streamCap s
      | Some node \<Rightarrow> node \<in> set included \<and> ackOf d topic s node = fl \<and> fl < streamCap s)"
proof -
  from assms obtain s where s: "s \<in> set streams" "sv_writer s = w"
    "ackFloorLoop (ackOf d topic s) included (streamCap s, None) = (fl, p)"
    by (auto simp: ackFloors_def dest!: map_of_SomeD)
  have "fl = fold min (map (ackOf d topic s) included) (streamCap s)"
    using s(3) ackFloorLoop_min [of "ackOf d topic s" included "streamCap s" None] by simp
  also have "\<dots> = Min (set (streamCap s # map (ackOf d topic s) included))"
    unfolding Min.set_eq_fold ..
  finally have "fl = Min (insert (streamCap s) (ackOf d topic s ` set included))" by simp
  then show ?thesis
    using s(1,2) ackFloorLoop_pinned [OF s(3)] by (auto split: option.split)
qed

definition demo_stream :: StreamView where
  "demo_stream = \<lparr>sv_writer = ''w'', sv_contigSeq = 9, sv_sealReason = None, sv_finalSeq = None,
     sv_recovering = False\<rparr>"

theorem acked_floor_exact_witness:
  "\<exists>s \<in> set [demo_stream]. sv_writer s = ''w'' \<and>
     (4 :: nat) = Min (insert (streamCap s)
       (ackOf (ackUpsert empty_db ''t'' ''n'' ''w'' 4) ''t'' s ` set [''w'', ''n''])) \<and>
     (case Some ''n'' of None \<Rightarrow> 4 = streamCap s
      | Some node \<Rightarrow> node \<in> set [''w'', ''n''] \<and>
          ackOf (ackUpsert empty_db ''t'' ''n'' ''w'' 4) ''t'' s node = 4 \<and> 4 < streamCap s)"
  by (rule acked_floor_exact)
    (simp add: ackFloors_def demo_stream_def streamCap_def ackOf_def acksForTopic_def ackUpsert_def empty_db_def)

text \<open>The member plan includes a member exactly when it is not excluded by name and the newest
  evidence of it (its last advertisement, its first sighting, its own newest row) is within the
  lag limit; with an explicit member list, a listed member never seen before starts its lag now
  and so is included.\<close>

theorem plan_includes_live_members:
  "mp_included (snd (planMembers d topic opts streams self now)) =
     filter (memberIncluded d topic opts streams now)
       (memberNames (ackNodes d topic) opts streams self)"
  by (simp add: planMembers_def Let_def planLoop_included)

text \<open>The recorder's memo never claims an acknowledgment the database does not hold: any
  sequence of advertisements, each of whose transactions may fail, keeps memo and table in step, so
  a skipped write is one that is already stored.\<close>

theorem ack_memo_coherent:
  "memo_ok (fst (foldl (\<lambda>(r, d) (fault, node, vs, ts, proto). ack_record tp self fault r d node vs ts proto)
       (\<lparr>rec_last = Map.empty, rec_seenWritten = Map.empty\<rparr>, d0) evs))
     (snd (foldl (\<lambda>(r, d) (fault, node, vs, ts, proto). ack_record tp self fault r d node vs ts proto)
       (\<lparr>rec_last = Map.empty, rec_seenWritten = Map.empty\<rparr>, d0) evs))"
proof (induction evs rule: rev_induct)
  case Nil
  show ?case by (simp add: memo_ok_def)
next
  case (snoc ev evs)
  obtain fault node vs ts proto where ev: "ev = (fault, node, vs, ts, proto)" by (cases ev)
  show ?case using ack_record_memo snoc by (simp add: ev split_beta)
qed

end
