(* ===== verification/Log_State.thy ===== *)
theory Log_State
  imports Retention
begin

text \<open>
  The state of \<^verbatim>\<open>LogCore\<close> (\<^verbatim>\<open>src/log.ts\<close>): the store, the
  in-memory caches over it, the clock state, the recovery targets and the ring tails, and the
  small helpers every queue handler uses. A \<open>LogCore\<close> value also carries the three
  accumulators of one flush (\<open>settled\<close>, \<open>applied\<close>, \<open>anomalies\<close>). The heads
  the code mutates in place live in the \<open>heads\<close> cache and every mutation is followed by
  \<open>saveHead\<close>, so here a handler computes the new row and \<open>saveHead\<close> stores it in both
  places. One clock reading serves one queue item.
\<close>

section \<open>Results\<close>

datatype ApplyResult =
    Applied | Pended | Duplicate | DroppedOverflow | Forked | Sealed | RejectedFinality

datatype DirResult = DirApplied | DirStale | DirRefused | DirRecovery

datatype FloorResult = FloorAdopted | FloorNoop | FloorRefused

text \<open>How one queue item settles: its promise's value, or the error it rejects with.\<close>

datatype Outcome =
    RAppend EntryId
  | RApply ApplyResult
  | RUnit
  | RQuarantined nat
  | RDirective DirResult
  | RRetired nat
  | RPruned nat
  | RAcked AckedPruneResult
  | RFloor FloorResult
  | RReject ErrCode

record RecoveryTarget =
  rt_finalSeq :: nat
  rt_finalChain :: string
  rt_rgen :: nat
  rt_unavailableReported :: bool

type_synonym AppliedRow = "LogEntry \<times> nat option \<times> string option"
type_synonym StreamKey = "string \<times> string"
type_synonym ScopeTails = "string \<Rightarrow> (string \<times> nat) option"

record LogCore =
  lc_store :: Store
  hlcState :: Hlc
  heads :: "StreamKey \<Rightarrow> WriterRow option"
  certs :: "string \<Rightarrow> FinalityCert option option"
  floors :: "StreamKey \<Rightarrow> (nat \<times> string) option option"
  vectorsCache :: "HaveVectors option"
  recoveries :: "StreamKey \<Rightarrow> RecoveryTarget option"
  rings :: "string \<Rightarrow> LogEntry list option"
  ringUndo :: "(string \<Rightarrow> LogEntry list option option) option"
  scopeTails :: ScopeTails
  retStats :: RetentionStats
  settled :: "Outcome list"
  applied :: "AppliedRow list"
  anomalies :: "Anomaly list"

text \<open>What the constructor receives, and the two activity checks the node wires in.\<close>

record LogEnv =
  prims :: Prims
  registry :: TopicRegistry
  selfId :: string
  constants :: Constants
  hasActiveConsumer :: "string \<Rightarrow> bool"
  hasActiveSubscriber :: "string \<Rightarrow> bool"

abbreviation lc_db :: "LogCore \<Rightarrow> Db" where
  "lc_db s \<equiv> db (lc_store s)"

text \<open>
  A throw out of the flush transaction: the error, and the in-memory state it leaves behind.
\<close>

type_synonym 'a lresult = "(ErrCode \<times> LogCore) + 'a"

definition orAbort :: "LogCore \<Rightarrow> 'a result \<Rightarrow> 'a lresult" where
  "orAbort s r = (case r of Inl e \<Rightarrow> Inl (e, s) | Inr x \<Rightarrow> Inr x)"

lemma orAbort_eq [simp]:
  "orAbort s r = Inr x \<longleftrightarrow> r = Inr x"
  "orAbort s r = Inl z \<longleftrightarrow> (\<exists>e. r = Inl e \<and> z = (e, s))"
  by (auto simp: orAbort_def split: sum.split)

definition withDb :: "(Db \<Rightarrow> Db) \<Rightarrow> LogCore \<Rightarrow> LogCore" where
  "withDb f s = s\<lparr>lc_store := onDb f (lc_store s)\<rparr>"

definition settle :: "Outcome \<Rightarrow> LogCore \<Rightarrow> LogCore" where
  "settle x s = s\<lparr>settled := settled s @ [x]\<rparr>"

definition pushApplied :: "LogEntry \<Rightarrow> nat option \<Rightarrow> string option \<Rightarrow> LogCore \<Rightarrow> LogCore" where
  "pushApplied e rowid via s = s\<lparr>applied := applied s @ [(e, rowid, via)]\<rparr>"

definition pushAnomaly :: "Anomaly \<Rightarrow> LogCore \<Rightarrow> LogCore" where
  "pushAnomaly a s = s\<lparr>anomalies := anomalies s @ [a]\<rparr>"

definition LogCore_new :: "Store \<Rightarrow> LogCore" where
  "LogCore_new st = \<lparr>lc_store = st,
     hlcState = (case sq_meta_hlc (db st) of Some h \<Rightarrow> h | None \<Rightarrow> \<lparr>hlc_l = 0, hlc_c = 0\<rparr>),
     heads = Map.empty, certs = Map.empty, floors = Map.empty, vectorsCache = None,
     recoveries = Map.empty, rings = Map.empty, ringUndo = None, scopeTails = Map.empty,
     retStats = Map.empty, settled = [], applied = [], anomalies = []\<rparr>"

section \<open>Caches over the store\<close>

definition freshHead :: "LogEnv \<Rightarrow> string \<Rightarrow> string \<Rightarrow> WriterRow" where
  "freshHead E topic writer = \<lparr>w_topic = topic, w_writer = writer, contigSeq = 0,
     contigChain = seedOf (prims E) topic writer, sealReason = None, rgen = 0,
     retiredAt = None, finalSeq = None, finalChain = None\<rparr>"

definition storedHead :: "LogEnv \<Rightarrow> Db \<Rightarrow> StreamKey \<Rightarrow> WriterRow" where
  "storedHead E d k = (case getWriter d (fst k) (snd k) of
     Some w \<Rightarrow> w | None \<Rightarrow> freshHead E (fst k) (snd k))"

definition getStream :: "LogEnv \<Rightarrow> string \<Rightarrow> string \<Rightarrow> LogCore \<Rightarrow> WriterRow \<times> LogCore" where
  "getStream E topic writer s =
     (case heads s (topic, writer) of
        Some head \<Rightarrow> (head, s)
      | None \<Rightarrow> let head = storedHead E (lc_db s) (topic, writer)
                in (head, s\<lparr>heads := (heads s)((topic, writer) \<mapsto> head)\<rparr>))"

definition getCert :: "string \<Rightarrow> LogCore \<Rightarrow> FinalityCert option \<times> LogCore" where
  "getCert topic s =
     (case certs s topic of
        Some c \<Rightarrow> (c, s)
      | None \<Rightarrow> let c = finalityGet (lc_db s) topic
                in (c, s\<lparr>certs := (certs s)(topic \<mapsto> c)\<rparr>))"

definition floorOf :: "string \<Rightarrow> string \<Rightarrow> LogCore \<Rightarrow> (nat \<times> string) option \<times> LogCore" where
  "floorOf topic writer s =
     (case floors s (topic, writer) of
        Some f \<Rightarrow> (f, s)
      | None \<Rightarrow> let f = floorGet (lc_db s) topic writer
                in (f, s\<lparr>floors := (floors s)((topic, writer) \<mapsto> f)\<rparr>))"

section \<open>HAVE vectors\<close>

definition tombstoneFloor :: "LogEnv \<Rightarrow> nat \<Rightarrow> int" where
  "tombstoneFloor E now = int now - int (TOMBSTONE_RETAIN_MS (constants E))"

definition applyHeadToVec :: "TopicVec \<Rightarrow> WriterRow \<Rightarrow> int \<Rightarrow> TopicVec" where
  "applyHeadToVec tv w tfloor =
     (let live = tv\<lparr>writers := AList.update (w_writer w)
            (VLive (contigSeq w) (contigChain w) (if rgen w > 0 then Some (rgen w) else None)) (writers tv)\<rparr>
      in if sealReason w = Some SealRetired then
           (case (finalSeq w, finalChain w) of
              (Some fs, Some fc) \<Rightarrow>
                if (case retiredAt w of None \<Rightarrow> False | Some ra \<Rightarrow> int ra < tfloor)
                then tv\<lparr>writers := AList.delete (w_writer w) (writers tv)\<rparr>
                else tv\<lparr>writers := AList.update (w_writer w) (VRetired fs fc (rgen w)) (writers tv)\<rparr>
            | _ \<Rightarrow> live)
         else live)"

definition emptyVec :: TopicVec where
  "emptyVec = \<lparr>fgen = None, writers = []\<rparr>"

definition vecOf :: "HaveVectors \<Rightarrow> string \<Rightarrow> TopicVec" where
  "vecOf v topic = (case map_of v topic of Some tv \<Rightarrow> tv | None \<Rightarrow> emptyVec)"

definition headVec :: "int \<Rightarrow> WriterRow \<Rightarrow> HaveVectors \<Rightarrow> HaveVectors" where
  "headVec tfloor w v = AList.update (w_topic w) (applyHeadToVec (vecOf v (w_topic w)) w tfloor) v"

definition saveHead :: "LogEnv \<Rightarrow> nat \<Rightarrow> WriterRow \<Rightarrow> LogCore \<Rightarrow> LogCore" where
  "saveHead E now head s =
     (let s' = withDb (\<lambda>d. upsertWriter d head) s
      in s'\<lparr>heads := (heads s)((w_topic head, w_writer head) \<mapsto> head),
            vectorsCache := map_option (headVec (tombstoneFloor E now) head) (vectorsCache s)\<rparr>)"

definition certVec :: "string \<Rightarrow> nat \<Rightarrow> HaveVectors \<Rightarrow> HaveVectors" where
  "certVec topic gen v = AList.update topic ((vecOf v topic)\<lparr>fgen := Some gen\<rparr>) v"

text \<open>Every defined full-sync topic appears, with the generation of its certificate.\<close>

fun vecTopics :: "LogEnv \<Rightarrow> string list \<Rightarrow> HaveVectors \<times> LogCore \<Rightarrow> HaveVectors \<times> LogCore" where
  "vecTopics E [] p = p"
| "vecTopics E (t # ts) (v, s) =
     (case reg_get (registry E) t of
        Inl _ \<Rightarrow> vecTopics E ts (v, s)
      | Inr te \<Rightarrow>
          if p_replication (te_policy te) \<noteq> ''full-sync'' then vecTopics E ts (v, s)
          else (case getCert t s of (c, s') \<Rightarrow>
            let v' = AList.update t (vecOf v t) v in
            vecTopics E ts (case c of None \<Rightarrow> v' | Some cert \<Rightarrow> certVec t (cert_generation cert) v', s')))"

definition vectors :: "LogEnv \<Rightarrow> nat \<Rightarrow> LogCore \<Rightarrow> HaveVectors \<times> LogCore" where
  "vectors E now s =
     (case vectorsCache s of
        Some v \<Rightarrow> (v, s)
      | None \<Rightarrow>
          let v0 = foldl (\<lambda>v w. headVec (tombstoneFloor E now) w v) [] (listWriters (lc_db s) None)
          in (case vecTopics E (reg_list (registry E)) (v0, s) of
                (v, s') \<Rightarrow> (v, s'\<lparr>vectorsCache := Some v\<rparr>)))"

section \<open>Persisting an entry\<close>

definition ringCap :: "TopicPolicy \<Rightarrow> nat option" where
  "ringCap p = map_option nat_of_num (p_size p)"

definition ringPush :: "nat option \<Rightarrow> LogEntry list \<Rightarrow> LogEntry \<Rightarrow> LogEntry list" where
  "ringPush cap ring e =
     (let r = ring @ [e] in
      case cap of None \<Rightarrow> r | Some n \<Rightarrow> if length r > n then drop (length r - n) r else r)"

definition journalRing :: "string \<Rightarrow> LogCore \<Rightarrow> LogCore" where
  "journalRing topic s =
     (case ringUndo s of
        Some u \<Rightarrow> if u topic = None then s\<lparr>ringUndo := Some (u(topic \<mapsto> rings s topic))\<rparr> else s
      | None \<Rightarrow> s)"

definition persist :: "LogEnv \<Rightarrow> LogEntry \<Rightarrow> LogCore \<Rightarrow> (nat option \<times> LogCore) lresult" where
  "persist E e s =
     rbind (orAbort s (reg_get (registry E) (e_topic e))) (\<lambda>te.
       let p = te_policy te in
       if p_mode p = ''full'' then
         rbind (orAbort s (insertEntry (lc_store s) e)) (\<lambda>(rowid, st'). Inr (Some rowid, s\<lparr>lc_store := st'\<rparr>))
       else if p_mode p = ''ring'' then
         (let s' = journalRing (e_topic e) s;
              ring = (case rings s (e_topic e) of None \<Rightarrow> [] | Some r \<Rightarrow> r)
          in Inr (None, s'\<lparr>rings := (rings s')(e_topic e \<mapsto> ringPush (ringCap p) ring e)\<rparr>))
       else Inr (None, s))"

section \<open>Clock and seal\<close>

definition mergeClock :: "LogEnv \<Rightarrow> nat \<Rightarrow> LogEntry \<Rightarrow> LogCore \<Rightarrow> LogCore" where
  "mergeClock E now e s =
     (if isOverEpsilon (e_hlc e) now (HLC_EPSILON_MS (constants E)) then
        pushAnomaly (anomaly_entry A_clock_outlier e)
          (withDb (\<lambda>d. annotate d (e_topic e) (e_writer e) (e_seq e) ''clock_outlier'' now) s)
      else s\<lparr>hlcState := merge (hlcState s) (e_hlc e) now\<rparr>)"

definition seal :: "LogEnv \<Rightarrow> nat \<Rightarrow> WriterRow \<Rightarrow> LogEntry \<Rightarrow> LogCore \<Rightarrow> LogCore" where
  "seal E now head offending s =
     pushAnomaly (anomaly_entry A_writer_forked offending)
       (saveHead E now (head\<lparr>sealReason := Some SealFork\<rparr>) s)"

definition prevChainOf :: "LogEnv \<Rightarrow> WriterRow \<Rightarrow> string" where
  "prevChainOf E head =
     (if contigSeq head = 0 then seedOf (prims E) (w_topic head) (w_writer head) else contigChain head)"

definition recoveryTarget :: "LogCore \<Rightarrow> string \<Rightarrow> string \<Rightarrow> RecoveryTarget option" where
  "recoveryTarget s topic writer = recoveries s (topic, writer)"

definition reportCanonicalUnavailable :: "string \<Rightarrow> string \<Rightarrow> LogCore \<Rightarrow> LogCore" where
  "reportCanonicalUnavailable topic writer s =
     (case recoveries s (topic, writer) of
        Some t \<Rightarrow> if \<not> rt_unavailableReported t
          then pushAnomaly (anomaly_stream A_canonical_unavailable topic writer)
                 (s\<lparr>recoveries := (recoveries s)((topic, writer) \<mapsto> t\<lparr>rt_unavailableReported := True\<rparr>)\<rparr>)
          else s
      | None \<Rightarrow> s)"

section \<open>Read-through caches\<close>

text \<open>
  The interface the three lazily filled caches share: a cache in front of a source that the
  cache writes do not change. Inside it: a coherent cache reads what the source holds, and
  reading keeps it coherent.
\<close>

locale read_through =
  fixes cached :: "'s \<Rightarrow> 'k \<Rightarrow> 'v option"
    and source :: "'s \<Rightarrow> 'k \<Rightarrow> 'v"
    and read :: "'k \<Rightarrow> 's \<Rightarrow> 'v \<times> 's"
  assumes read_hit: "cached s k = Some v \<Longrightarrow> read k s = (v, s)"
    and read_miss: "cached s k = None \<Longrightarrow> fst (read k s) = source s k"
    and miss_fills: "cached s k = None \<Longrightarrow> cached (snd (read k s)) k' =
          (if k' = k then Some (source s k) else cached s k')"
    and source_kept: "source (snd (read k s)) = source s"
begin

definition coherent :: "'s \<Rightarrow> bool" where
  "coherent s \<longleftrightarrow> (\<forall>k v. cached s k = Some v \<longrightarrow> v = source s k)"

lemma read_value: "coherent s \<Longrightarrow> fst (read k s) = source s k"
  using read_hit read_miss by (cases "cached s k") (auto simp: coherent_def)

lemma read_coherent: "coherent s \<Longrightarrow> coherent (snd (read k s))"
proof (cases "cached s k")
  case None
  assume "coherent s"
  then show ?thesis by (auto simp: coherent_def miss_fills [OF None] source_kept split: if_splits)
qed (simp add: read_hit)

lemma read_caches: "cached (snd (read k s)) k = Some (fst (read k s))"
  using read_hit read_miss miss_fills by (cases "cached s k") auto

end

interpretation headsCache: read_through heads "\<lambda>s. storedHead E (lc_db s)"
  "\<lambda>k. getStream E (fst k) (snd k)" for E
  by unfold_locales (auto simp: getStream_def Let_def split: option.splits)

interpretation certsCache: read_through certs "\<lambda>s. finalityGet (lc_db s)" getCert
  by unfold_locales (auto simp: getCert_def Let_def split: option.splits)

interpretation floorsCache: read_through floors "\<lambda>s k. floorGet (lc_db s) (fst k) (snd k)"
  "\<lambda>k. floorOf (fst k) (snd k)"
  by unfold_locales (auto simp: floorOf_def Let_def split: option.splits)

abbreviation heads_ok :: "LogEnv \<Rightarrow> LogCore \<Rightarrow> bool" where
  "heads_ok E \<equiv> headsCache.coherent E"

abbreviation certs_ok :: "LogCore \<Rightarrow> bool" where
  "certs_ok \<equiv> certsCache.coherent"

abbreviation floors_ok :: "LogCore \<Rightarrow> bool" where
  "floors_ok \<equiv> floorsCache.coherent"

lemma getStream_value: "heads_ok E s \<Longrightarrow> getStream E t w s = (h, s') \<Longrightarrow> h = storedHead E (lc_db s) (t, w)"
  using headsCache.read_value [of E s "(t, w)"] by simp

lemma getCert_value: "certs_ok s \<Longrightarrow> getCert t s = (c, s') \<Longrightarrow> c = finalityGet (lc_db s) t"
  using certsCache.read_value [of s t] by simp

lemma floorOf_value: "floors_ok s \<Longrightarrow> floorOf t w s = (f, s') \<Longrightarrow> f = floorGet (lc_db s) t w"
  using floorsCache.read_value [of s "(t, w)"] by simp

section \<open>Frames\<close>

text \<open>A field update touches its own component only.\<close>

named_theorems core_frame "what a helper leaves alone"

lemma lc_store_accum [simp, core_frame]:
  "lc_store (settle x s) = lc_store s" "lc_store (pushApplied e r v s) = lc_store s"
  "lc_store (pushAnomaly a s) = lc_store s" "lc_store (journalRing t s) = lc_store s"
  by (auto simp: settle_def pushApplied_def pushAnomaly_def journalRing_def split: option.split)

lemma accum_fields [simp, core_frame]:
  "heads (settle x s) = heads s" "heads (pushApplied e r v s) = heads s" "heads (pushAnomaly a s) = heads s"
  "heads (journalRing t s) = heads s"
  "certs (settle x s) = certs s" "certs (pushApplied e r v s) = certs s" "certs (pushAnomaly a s) = certs s"
  "certs (journalRing t s) = certs s"
  "floors (settle x s) = floors s" "floors (pushApplied e r v s) = floors s" "floors (pushAnomaly a s) = floors s"
  "floors (journalRing t s) = floors s"
  "recoveries (settle x s) = recoveries s" "recoveries (pushApplied e r v s) = recoveries s"
  "recoveries (pushAnomaly a s) = recoveries s" "recoveries (journalRing t s) = recoveries s"
  "hlcState (settle x s) = hlcState s" "hlcState (pushApplied e r v s) = hlcState s"
  "hlcState (pushAnomaly a s) = hlcState s" "hlcState (journalRing t s) = hlcState s"
  by (auto simp: settle_def pushApplied_def pushAnomaly_def journalRing_def split: option.split)

lemma withDb_fields [simp, core_frame]:
  "lc_db (withDb f s) = f (lc_db s)" "logCounts (lc_store (withDb f s)) = logCounts (lc_store s)"
  "heads (withDb f s) = heads s" "certs (withDb f s) = certs s" "floors (withDb f s) = floors s"
  "recoveries (withDb f s) = recoveries s" "hlcState (withDb f s) = hlcState s"
  by (simp_all add: withDb_def)

lemma saveHead_fields [simp, core_frame]:
  "lc_db (saveHead E now h s) = upsertWriter (lc_db s) h"
  "logCounts (lc_store (saveHead E now h s)) = logCounts (lc_store s)"
  "heads (saveHead E now h s) = (heads s)((w_topic h, w_writer h) \<mapsto> h)"
  "certs (saveHead E now h s) = certs s" "floors (saveHead E now h s) = floors s"
  "recoveries (saveHead E now h s) = recoveries s" "hlcState (saveHead E now h s) = hlcState s"
  by (simp_all add: saveHead_def Let_def)

lemma getStream_frame:
  assumes "getStream E t w s = (h, s')"
  shows "lc_store s' = lc_store s" "certs s' = certs s" "floors s' = floors s"
    "recoveries s' = recoveries s" "hlcState s' = hlcState s" "heads s' (t, w) = Some h"
    "settled s' = settled s" "applied s' = applied s" "anomalies s' = anomalies s" "rings s' = rings s"
  using assms by (auto simp: getStream_def Let_def split: option.splits)

lemma getCert_frame:
  assumes "getCert t s = (c, s')"
  shows "lc_store s' = lc_store s" "heads s' = heads s" "floors s' = floors s"
    "recoveries s' = recoveries s" "hlcState s' = hlcState s"
    "settled s' = settled s" "applied s' = applied s" "anomalies s' = anomalies s" "rings s' = rings s"
  using assms by (auto simp: getCert_def Let_def split: option.splits)

lemma floorOf_frame:
  assumes "floorOf t w s = (f, s')"
  shows "lc_store s' = lc_store s" "heads s' = heads s" "certs s' = certs s"
    "recoveries s' = recoveries s" "hlcState s' = hlcState s" "settled s' = settled s"
  using assms by (auto simp: floorOf_def Let_def split: option.splits)

text \<open>\<open>storedHead\<close> reads the writers table only; saving a head replaces one stream's.\<close>

lemma storedHead_cong: "sq_writers d = sq_writers d' \<Longrightarrow> storedHead E d = storedHead E d'"
  by (simp add: storedHead_def getWriter_def fun_eq_iff)

lemma storedHead_upsert: "storedHead E (upsertWriter d h) =
    (storedHead E d)((w_topic h, w_writer h) := h)"
  by (auto simp: storedHead_def getWriter_upsert fun_eq_iff)

lemma saveHead_heads_ok: "heads_ok E s \<Longrightarrow> heads_ok E (saveHead E now h s)"
  by (auto simp: headsCache.coherent_def storedHead_upsert)

lemma persist_cases:
  assumes "persist E e s = Inr (r, s')"
  obtains (full) st' rowid te where "reg_get (registry E) (e_topic e) = Inr te"
      "insertEntry (lc_store s) e = Inr (rowid, st')" "r = Some rowid" "s' = s\<lparr>lc_store := st'\<rparr>"
      "p_mode (te_policy te) = ''full''"
  | (mem) te where "r = None" "lc_store s' = lc_store s" "heads s' = heads s" "certs s' = certs s"
      "floors s' = floors s" "recoveries s' = recoveries s" "hlcState s' = hlcState s"
      "settled s' = settled s" "applied s' = applied s" "anomalies s' = anomalies s"
      "reg_get (registry E) (e_topic e) = Inr te" "p_mode (te_policy te) \<noteq> ''full''"
  using assms
  by (auto simp: persist_def rbind_eq_Inr Let_def journalRing_def
      split: if_splits option.splits)

end
