(* ===== verification/Log_Ingest.thy ===== *)
theory Log_Ingest
  imports Log_State
begin

text \<open>
  The queue handlers of \<^verbatim>\<open>src/log.ts\<close> that put entries into the log and move
  stream heads: local appends, external entries (with the pending buffer and the recovery
  path), seals, finality certificates, writer directives, snapshot cuts and floor adoption.
  A handler returns \<open>Inl\<close> when the code throws out of the transaction, which aborts the
  whole batch; an item that is merely refused settles with a reject outcome.
\<close>

section \<open>Applying a verified entry\<close>

definition setContig :: "LogEntry \<Rightarrow> WriterRow \<Rightarrow> WriterRow" where
  "setContig e head = head\<lparr>contigSeq := e_seq e, contigChain := e_chain e\<rparr>"

text \<open>Persist, advance the head, save it, remember the entry for the hooks.\<close>

definition applyEntry ::
  "LogEnv \<Rightarrow> nat \<Rightarrow> WriterRow \<Rightarrow> LogEntry \<Rightarrow> string option \<Rightarrow> LogCore \<Rightarrow> (WriterRow \<times> LogCore) lresult" where
  "applyEntry E now head e via s =
     rbind (persist E e s) (\<lambda>(rowid, s1).
       let head' = setContig e head
       in Inr (head', pushApplied e rowid via (saveHead E now head' s1)))"

definition verifyAndApply ::
  "LogEnv \<Rightarrow> nat \<Rightarrow> WriterRow \<Rightarrow> LogEntry \<Rightarrow> string option \<Rightarrow> LogCore \<Rightarrow> (bool \<times> WriterRow \<times> LogCore) lresult" where
  "verifyAndApply E now head e via s =
     rbind (orAbort s (chainOf (prims E) (prevChainOf E head) e)) (\<lambda>chain.
       if chain \<noteq> e_chain e then Inr (False, head, seal E now head e s)
       else if contigSeq head > 0 \<and>
               (case getEntry (lc_db s) (e_topic e) (e_writer e) (contigSeq head) of
                  None \<Rightarrow> False
                | Some prev \<Rightarrow> hlcCompare (e_hlc prev) (e_hlc e) > 0)
            then Inr (False, head, seal E now head e s)
       else rbind (applyEntry E now head e via s) (\<lambda>(head', s'). Inr (True, head', s')))"

lemma applyEntry_pending:
  "applyEntry E now head e via s = Inr (h', s') \<Longrightarrow> sq_pending (lc_db s') = sq_pending (lc_db s)"
  by (auto simp: applyEntry_def rbind_eq_Inr Let_def elim!: persist_cases dest: insertEntry_Inr(3))

lemma verifyAndApply_pending:
  "verifyAndApply E now head e via s = Inr (b, h', s') \<Longrightarrow> sq_pending (lc_db s') = sq_pending (lc_db s)"
  by (auto simp: verifyAndApply_def rbind_eq_Inr seal_def split: if_splits dest: applyEntry_pending)

lemma pendingDelete_shrinks:
  assumes "pendingGet d t w n = Some e"
  shows "length (sq_pending (pendingDelete d t w n)) < length (sq_pending d)"
proof -
  have "e \<in> set (sq_pending d)" "entryKey e = (t, w, n)"
    using assms find_Some_in unfolding pendingGet_def by fastforce+
  then show ?thesis
    unfolding pendingDelete_def by (auto intro!: length_filter_less [of e])
qed

text \<open>
  The loop of \<^verbatim>\<open>drainPending\<close>: apply buffered successors until there is none or
  one forks. Each round removes one buffered entry, so it ends.
\<close>

function drainPending ::
  "LogEnv \<Rightarrow> nat \<Rightarrow> WriterRow \<Rightarrow> string option \<Rightarrow> LogCore \<Rightarrow> LogCore lresult" where
  "drainPending E now head via s =
     (case pendingGet (lc_db s) (w_topic head) (w_writer head) (contigSeq head + 1) of
        None \<Rightarrow> Inr s
      | Some e \<Rightarrow>
          (case verifyAndApply E now head e via
                  (withDb (\<lambda>d. pendingDelete d (w_topic head) (w_writer head) (contigSeq head + 1)) s) of
             Inl err \<Rightarrow> Inl err
           | Inr (ok, head', s') \<Rightarrow> if ok then drainPending E now head' via s' else Inr s'))"
  by pat_completeness auto
termination
proof (relation "measure (\<lambda>(E, now, head, via, s). length (sq_pending (lc_db s)))")
  fix E now head via s e p ok q head' s'
  assume "pendingGet (lc_db s) (w_topic head) (w_writer head) (contigSeq head + 1) = Some e"
    and "verifyAndApply E now head e via
       (withDb (\<lambda>d. pendingDelete d (w_topic head) (w_writer head) (contigSeq head + 1)) s) = Inr p"
    and "(ok, q) = p" "(head', s') = q" "ok"
  then show "((E, now, head', via, s'), E, now, head, via, s)
      \<in> measure (\<lambda>(E, now, head, via, s). length (sq_pending (lc_db s)))"
    using verifyAndApply_pending pendingDelete_shrinks by fastforce
qed simp

declare drainPending.simps [simp del]

section \<open>Local appends\<close>

record AppendItem =
  ai_topic :: string
  ai_kind :: string
  ai_payload :: jsval
  ai_key :: "string option"
  ai_causal :: "(string \<times> nat) option"
  ai_provider :: "(ScopeTails \<Rightarrow> nat \<Rightarrow> (string \<times> nat) option \<times> ScopeTails) option"
  ai_ref :: "EntryId option"

definition causalFor :: "AppendItem \<Rightarrow> nat \<Rightarrow> LogCore \<Rightarrow> (string \<times> nat) option \<times> LogCore" where
  "causalFor it seq s =
     (case ai_provider it of
        Some f \<Rightarrow> (case f (scopeTails s) seq of (c, tails) \<Rightarrow> (c, s\<lparr>scopeTails := tails\<rparr>))
      | None \<Rightarrow> (ai_causal it, s))"

definition draftEntry ::
  "LogEnv \<Rightarrow> AppendItem \<Rightarrow> nat \<Rightarrow> Hlc \<Rightarrow> (string \<times> nat) option \<Rightarrow> LogEntry" where
  "draftEntry E it seq hlc causal =
     \<lparr>e_topic = ai_topic it, e_writer = selfId E, e_seq = seq, e_hlc = hlc, e_kind = ai_kind it,
      e_key = ai_key it, e_causal = causal, e_ref = ai_ref it, e_payload = ai_payload it, e_chain = []\<rparr>"

definition processAppend :: "LogEnv \<Rightarrow> nat \<Rightarrow> AppendItem \<Rightarrow> LogCore \<Rightarrow> LogCore lresult" where
  "processAppend E now it s0 =
     (case getStream E (ai_topic it) (selfId E) s0 of (head, s) \<Rightarrow>
      if sealReason head \<noteq> None then Inr (settle (RReject ERR_WRITER_SEALED) s)
      else case stamp (hlcState s) now of
        Inl err \<Rightarrow> Inr (settle (RReject err) s)
      | Inr (hlcS, hlc) \<Rightarrow>
          let s1 = s\<lparr>hlcState := hlcS\<rparr>; seq = contigSeq head + 1 in
          (case causalFor it seq s1 of (causal, s2) \<Rightarrow>
             let draft = draftEntry E it seq hlc causal in
             rbind (orAbort s2 (chainOf (prims E) (prevChainOf E head) draft)) (\<lambda>chain.
               let entry = draft\<lparr>e_chain := chain\<rparr> in
               (case validateEntry (prims E) (constants E) (entry_js entry) of
                  Inl err \<Rightarrow> Inr (settle (RReject err) s2)
                | Inr _ \<Rightarrow>
                    rbind (applyEntry E now head entry None s2) (\<lambda>(head', s3).
                      Inr (settle (RAppend (entryKey entry)) s3))))))"

section \<open>External entries\<close>

definition quarantineAll :: "string \<Rightarrow> nat \<Rightarrow> LogRow list \<Rightarrow> LogCore \<Rightarrow> LogCore" where
  "quarantineAll reason now rows s =
     foldl (\<lambda>s r. pushAnomaly (anomaly_entry A_entry_quarantined (snd r))
                    (withDb (\<lambda>d. quarantinePut d (snd r) reason now) s)) s rows"

definition dropFrom :: "string \<Rightarrow> string \<Rightarrow> nat \<Rightarrow> LogCore \<Rightarrow> LogCore" where
  "dropFrom topic writer seq s = s\<lparr>lc_store := deleteLogRange (lc_store s) topic writer seq\<rparr>"

definition retireHead :: "nat \<Rightarrow> nat \<Rightarrow> nat \<Rightarrow> string \<Rightarrow> WriterRow \<Rightarrow> WriterRow" where
  "retireHead g now fs fc head =
     head\<lparr>sealReason := Some SealRetired, rgen := g, retiredAt := Some now,
          finalSeq := Some fs, finalChain := Some fc\<rparr>"

definition forgetRecovery :: "string \<Rightarrow> string \<Rightarrow> LogCore \<Rightarrow> LogCore" where
  "forgetRecovery topic writer s = s\<lparr>recoveries := (recoveries s)((topic, writer) := None)\<rparr>"

text \<open>
  Rewind on mismatch: quarantine the local suffix from the entry's position, delete it, step
  the head back below it.
\<close>

definition rewindTo :: "LogEnv \<Rightarrow> nat \<Rightarrow> WriterRow \<Rightarrow> LogEntry \<Rightarrow> LogCore \<Rightarrow> WriterRow \<times> LogCore" where
  "rewindTo E now head e s =
     (let doomed = entriesRange (lc_db s) (e_topic e) (e_writer e) (e_seq e) (contigSeq head);
          s1 = dropFrom (e_topic e) (e_writer e) (e_seq e) (quarantineAll ''canonicalized'' now doomed s);
          contig = e_seq e - 1;
          prev = (if contig = 0 then Some (seedOf (prims E) (e_topic e) (e_writer e))
                  else map_option e_chain (getEntry (lc_db s1) (e_topic e) (e_writer e) contig));
          head' = head\<lparr>contigSeq := contig,
                       contigChain := (case prev of Some c \<Rightarrow> c | None \<Rightarrow> contigChain head)\<rparr>
      in (head', saveHead E now head' s1))"

definition recoveryStep ::
  "LogEnv \<Rightarrow> nat \<Rightarrow> WriterRow \<Rightarrow> LogEntry \<Rightarrow> RecoveryTarget \<Rightarrow> string option \<Rightarrow> LogCore \<Rightarrow> LogCore lresult" where
  "recoveryStep E now head e target via s =
     (if e_seq e \<noteq> contigSeq head + 1 then Inr (settle (RApply Pended) s)
      else rbind (orAbort s (chainOf (prims E) (prevChainOf E head) e)) (\<lambda>chain.
        if chain \<noteq> e_chain e then Inr (settle (RApply Forked) s)
        else rbind (applyEntry E now head e via s) (\<lambda>(head', s').
          if contigSeq head' = rt_finalSeq target \<and> contigChain head' = rt_finalChain target
          then let final = retireHead (rt_rgen target) now (rt_finalSeq target) (rt_finalChain target) head'
               in Inr (settle (RApply Applied)
                    (forgetRecovery (e_topic e) (e_writer e) (saveHead E now final s')))
          else Inr (settle (RApply Applied) s'))))"

definition recoveryIngest ::
  "LogEnv \<Rightarrow> nat \<Rightarrow> WriterRow \<Rightarrow> LogEntry \<Rightarrow> RecoveryTarget \<Rightarrow> string option \<Rightarrow> LogCore \<Rightarrow> LogCore lresult" where
  "recoveryIngest E now head e target via s =
     (if e_seq e \<le> contigSeq head then
        (if map_option e_chain (getEntry (lc_db s) (e_topic e) (e_writer e) (e_seq e)) = Some (e_chain e)
         then Inr (settle (RApply Duplicate) s)
         else case rewindTo E now head e s of (head', s') \<Rightarrow> recoveryStep E now head' e target via s')
      else recoveryStep E now head e target via s)"

definition coveredBy :: "FinalityCert \<Rightarrow> string \<Rightarrow> nat" where
  "coveredBy cert writer = (case map_of (cert_cut cert) writer of None \<Rightarrow> 0 | Some (s, _) \<Rightarrow> s)"

definition refusedByCert :: "FinalityCert option \<Rightarrow> LogEntry \<Rightarrow> bool" where
  "refusedByCert cert e = (case cert of None \<Rightarrow> False
     | Some c \<Rightarrow> orderCompare (orderOf e) (cert_order c) \<le> 0 \<and> e_seq e > coveredBy c (e_writer e))"

text \<open>An entry past the next expected one: the pending buffer, bounded per stream.\<close>

definition bufferEntry :: "LogEnv \<Rightarrow> nat \<Rightarrow> WriterRow \<Rightarrow> LogEntry \<Rightarrow> LogCore \<Rightarrow> LogCore" where
  "bufferEntry E now head e s =
     (case pendingGet (lc_db s) (e_topic e) (e_writer e) (e_seq e) of
        Some existing \<Rightarrow>
          if e_chain existing = e_chain e then settle (RApply Duplicate) s
          else settle (RApply Forked) (seal E now head e s)
      | None \<Rightarrow>
          if pendingCount (lc_db s) (e_topic e) (e_writer e) \<ge> PENDING_CAP (constants E)
          then settle (RApply DroppedOverflow) s
          else settle (RApply Pended) (mergeClock E now e (withDb (\<lambda>d. pendingPut d e) s)))"

definition belowContig :: "LogEnv \<Rightarrow> nat \<Rightarrow> WriterRow \<Rightarrow> LogEntry \<Rightarrow> LogCore \<Rightarrow> LogCore" where
  "belowContig E now head e s =
     (case getEntry (lc_db s) (e_topic e) (e_writer e) (e_seq e) of
        Some stored \<Rightarrow>
          if e_chain stored = e_chain e then settle (RApply Duplicate) s
          else settle (RApply Forked) (seal E now head e s)
      | None \<Rightarrow> settle (RApply Duplicate) s)"

definition extendStream ::
  "LogEnv \<Rightarrow> nat \<Rightarrow> WriterRow \<Rightarrow> LogEntry \<Rightarrow> string option \<Rightarrow> LogCore \<Rightarrow> LogCore lresult" where
  "extendStream E now head e via s =
     rbind (verifyAndApply E now head e via s) (\<lambda>(ok, head', s1).
       if ok then rbind (drainPending E now head' via (mergeClock E now e s1))
                    (\<lambda>s2. Inr (settle (RApply Applied) s2))
       else Inr (settle (RApply Forked) s1))"

definition processExternal :: "LogEnv \<Rightarrow> nat \<Rightarrow> LogEntry \<Rightarrow> string option \<Rightarrow> LogCore \<Rightarrow> LogCore lresult" where
  "processExternal E now e via s0 =
     (case getStream E (e_topic e) (e_writer e) s0 of (head, s) \<Rightarrow>
      if sealReason head \<noteq> None then
        (case recoveries s (e_topic e, e_writer e) of
           Some target \<Rightarrow>
             if e_seq e \<le> rt_finalSeq target then recoveryIngest E now head e target via s
             else Inr (settle (RApply Sealed) s)
         | None \<Rightarrow> Inr (settle (RApply Sealed) s))
      else case getCert (e_topic e) s of (cert, s1) \<Rightarrow>
        if refusedByCert cert e then
          Inr (settle (RApply RejectedFinality)
                (pushAnomaly (anomaly_entry A_pre_finality_rejected e)
                  (withDb (\<lambda>d. annotate d (e_topic e) (e_writer e) (e_seq e) ''pre_finality_rejected'' now) s1)))
        else if e_seq e \<le> contigSeq head then Inr (belowContig E now head e s1)
        else if e_seq e = contigSeq head + 1 then extendStream E now head e via s1
        else Inr (bufferEntry E now head e s1))"

section \<open>Seals, certificates, directives\<close>

definition forkUnlessSealed :: "LogEnv \<Rightarrow> nat \<Rightarrow> WriterRow \<Rightarrow> LogCore \<Rightarrow> LogCore" where
  "forkUnlessSealed E now head s =
     (if sealReason head = None
      then pushAnomaly (anomaly_stream A_writer_forked (w_topic head) (w_writer head))
             (saveHead E now (head\<lparr>sealReason := Some SealFork\<rparr>) s)
      else s)"

definition processSeal :: "LogEnv \<Rightarrow> nat \<Rightarrow> string \<Rightarrow> string \<Rightarrow> LogCore \<Rightarrow> LogCore" where
  "processSeal E now topic writer s0 =
     (case getStream E topic writer s0 of (head, s) \<Rightarrow> settle RUnit (forkUnlessSealed E now head s))"

text \<open>One writer of a certificate's topic; returns how many entries were quarantined.\<close>

definition certCutChain :: "LogEnv \<Rightarrow> FinalityCert \<Rightarrow> string \<Rightarrow> nat \<Rightarrow> Db \<Rightarrow> string" where
  "certCutChain E cert writer cutSeq d =
     (if cutSeq = 0 then seedOf (prims E) (cert_topic cert) writer
      else (case getEntry d (cert_topic cert) writer cutSeq of
              Some e \<Rightarrow> e_chain e
            | None \<Rightarrow> (case map_of (cert_cut cert) writer of Some (_, c) \<Rightarrow> c | None \<Rightarrow> [])))"

definition certWriter :: "LogEnv \<Rightarrow> nat \<Rightarrow> FinalityCert \<Rightarrow> string \<Rightarrow> LogCore \<Rightarrow> nat \<times> LogCore" where
  "certWriter E now cert writer s0 =
     (case getStream E (cert_topic cert) writer s0 of (head, s) \<Rightarrow>
      let cutSeq = coveredBy cert writer;
          lastCovered = lastSeqAtOrBeforeOrder (lc_db s) (cert_topic cert) writer (cert_order cert)
      in if lastCovered > cutSeq then
           (let doomed = entriesRange (lc_db s) (cert_topic cert) writer (cutSeq + 1) (contigSeq head);
                cutChain = certCutChain E cert writer cutSeq (lc_db s);
                s1 = dropFrom (cert_topic cert) writer (cutSeq + 1) (quarantineAll ''post_cut'' now doomed s);
                head1 = head\<lparr>contigSeq := cutSeq, contigChain := cutChain\<rparr>
            in (length doomed,
                if sealReason head = None
                then saveHead E now (head1\<lparr>sealReason := Some SealFork\<rparr>)
                       (pushAnomaly (anomaly_stream A_writer_forked (cert_topic cert) writer) s1)
                else saveHead E now head1 s1))
         else if cutSeq > 0 \<and> contigSeq head \<ge> cutSeq \<and>
              (case (getEntry (lc_db s) (cert_topic cert) writer cutSeq, map_of (cert_cut cert) writer) of
                 (Some mine, Some (_, certChain)) \<Rightarrow> e_chain mine \<noteq> certChain
               | _ \<Rightarrow> False)
         then (0, forkUnlessSealed E now head s)
         else (0, s))"

fun certWriters :: "LogEnv \<Rightarrow> nat \<Rightarrow> FinalityCert \<Rightarrow> string list \<Rightarrow> nat \<times> LogCore \<Rightarrow> nat \<times> LogCore" where
  "certWriters E now cert [] p = p"
| "certWriters E now cert (w # ws) (n, s) =
     (case certWriter E now cert w s of (m, s') \<Rightarrow> certWriters E now cert ws (n + m, s'))"

definition processCert :: "LogEnv \<Rightarrow> nat \<Rightarrow> FinalityCert \<Rightarrow> LogCore \<Rightarrow> LogCore" where
  "processCert E now cert s =
     (let s1 = withDb (\<lambda>d. finalitySet d cert) s;
          s2 = s1\<lparr>certs := (certs s1)(cert_topic cert \<mapsto> Some cert),
                  vectorsCache := map_option (certVec (cert_topic cert) (cert_generation cert)) (vectorsCache s1)\<rparr>
      in case certWriters E now cert (map w_writer (listWriters (lc_db s2) (Some (cert_topic cert)))) (0, s2) of
           (n, s3) \<Rightarrow> settle (RQuarantined n) s3)"

definition directiveFinal :: "LogEnv \<Rightarrow> WriterDirective \<Rightarrow> nat \<times> string" where
  "directiveFinal E d =
     ((case d_finalSeq d of None \<Rightarrow> 0 | Some n \<Rightarrow> n),
      (case d_finalChain d of None \<Rightarrow> seedOf (prims E) (d_topic d) (d_writer d) | Some c \<Rightarrow> c))"

definition localChainAt :: "LogEnv \<Rightarrow> WriterDirective \<Rightarrow> WriterRow \<Rightarrow> nat \<Rightarrow> Db \<Rightarrow> string option" where
  "localChainAt E d head fs dbx =
     (if fs = 0 then Some (seedOf (prims E) (d_topic d) (d_writer d))
      else if fs = contigSeq head then Some (contigChain head)
      else map_option e_chain (getEntry dbx (d_topic d) (d_writer d) fs))"

text \<open>A retirement: the local prefix agrees (quarantine the rest and retire), or recovery starts.\<close>

definition retireStream :: "LogEnv \<Rightarrow> nat \<Rightarrow> WriterDirective \<Rightarrow> WriterRow \<Rightarrow> LogCore \<Rightarrow> LogCore" where
  "retireStream E now d head s =
     (case directiveFinal E d of (fs, fc) \<Rightarrow>
      if contigSeq head \<ge> fs \<and> localChainAt E d head fs (lc_db s) = Some fc then
        (let doomed = entriesRange (lc_db s) (d_topic d) (d_writer d) (fs + 1) (contigSeq head);
             s1 = dropFrom (d_topic d) (d_writer d) (fs + 1) (quarantineAll ''canonicalized'' now doomed s);
             head' = retireHead (d_rgen d) now fs fc (head\<lparr>contigSeq := fs, contigChain := fc\<rparr>)
         in settle (RDirective DirApplied)
              (forgetRecovery (d_topic d) (d_writer d) (saveHead E now head' s1)))
      else
        (let s1 = (if sealReason head = None then saveHead E now (head\<lparr>sealReason := Some SealFork\<rparr>) s else s)
         in settle (RDirective DirRecovery)
              (s1\<lparr>recoveries := (recoveries s1)((d_topic d, d_writer d) \<mapsto>
                  \<lparr>rt_finalSeq = fs, rt_finalChain = fc, rt_rgen = d_rgen d, rt_unavailableReported = False\<rparr>)\<rparr>)))"

definition processDirective :: "LogEnv \<Rightarrow> nat \<Rightarrow> WriterDirective \<Rightarrow> LogCore \<Rightarrow> LogCore" where
  "processDirective E now d s0 =
     (case getStream E (d_topic d) (d_writer d) s0 of (head, s) \<Rightarrow>
      let stored = directiveGet (lc_db s) (d_topic d) (d_writer d) (d_rgen d);
          put = withDb (\<lambda>x. directivePut x (d_topic d) (d_writer d) (d_rgen d) d) s
      in if stored \<noteq> None \<and> stored \<noteq> Some d
         then settle (RDirective DirRefused) (pushAnomaly (anomaly_plain A_bad_directive) s)
         else if d_rgen d \<le> rgen head \<and> sealReason head \<noteq> Some SealFork
         then settle (RDirective DirStale) put
         else if d_state d = Live then
           (if sealReason head = Some SealFork
            then settle (RDirective DirRefused) (pushAnomaly (anomaly_plain A_bad_directive) put)
            else settle (RDirective DirApplied) (forgetRecovery (d_topic d) (d_writer d)
                   (saveHead E now (head\<lparr>sealReason := None, rgen := d_rgen d, retiredAt := None,
                                         finalSeq := None, finalChain := None\<rparr>) put)))
         else retireStream E now d head put)"

section \<open>Adopted cuts and floors\<close>

fun adoptCuts :: "LogEnv \<Rightarrow> nat \<Rightarrow> string \<Rightarrow> Cut \<Rightarrow> LogCore \<Rightarrow> LogCore" where
  "adoptCuts E now topic [] s = s"
| "adoptCuts E now topic ((writer, (seq, chain)) # cuts) s0 =
     (case getStream E topic writer s0 of (head, s) \<Rightarrow>
      adoptCuts E now topic cuts
        (if contigSeq head < seq
         then saveHead E now (head\<lparr>contigSeq := seq, contigChain := chain\<rparr>) s else s))"

definition processAdopt :: "LogEnv \<Rightarrow> nat \<Rightarrow> string \<Rightarrow> Cut \<Rightarrow> LogCore \<Rightarrow> LogCore" where
  "processAdopt E now topic cuts s = settle RUnit (adoptCuts E now topic cuts s)"

definition adoptHead :: "nat \<Rightarrow> RecoveryTarget option \<Rightarrow> nat \<Rightarrow> string \<Rightarrow> WriterRow \<Rightarrow> WriterRow" where
  "adoptHead now target seq chain head =
     (let h = head\<lparr>contigSeq := seq, contigChain := chain\<rparr> in
      case target of
        Some t \<Rightarrow> if seq = rt_finalSeq t
                  then retireHead (rt_rgen t) now (rt_finalSeq t) (rt_finalChain t) h else h
      | None \<Rightarrow> h)"

definition processAdoptFloor ::
  "LogEnv \<Rightarrow> nat \<Rightarrow> string \<Rightarrow> string \<Rightarrow> nat \<Rightarrow> string \<Rightarrow> LogCore \<Rightarrow> LogCore lresult" where
  "processAdoptFloor E now topic writer seq chain s0 =
     rbind (orAbort s0 (ackedRetentionRefusal (registry E) topic)) (\<lambda>refused.
     if refused then Inr (settle (RFloor FloorRefused) s0)
     else case getStream E topic writer s0 of (head, s) \<Rightarrow>
       let target = recoveries s (topic, writer) in
       if contigSeq head \<ge> seq then Inr (settle (RFloor FloorNoop) s)
       else if sealReason head \<noteq> None \<and> target = None then Inr (settle (RFloor FloorRefused) s)
       else if (case target of None \<Rightarrow> False
            | Some t \<Rightarrow> seq > rt_finalSeq t \<or> (seq = rt_finalSeq t \<and> chain \<noteq> rt_finalChain t))
       then Inr (settle (RFloor FloorRefused) s)
       else
         let head' = adoptHead now target seq chain head;
             s1 = (case target of
                     Some t \<Rightarrow> if seq = rt_finalSeq t then forgetRecovery topic writer s else s
                   | None \<Rightarrow> s);
             s2 = withDb (\<lambda>d. floorSet d topic writer seq chain now) (saveHead E now head' s1);
             s3 = s2\<lparr>floors := (floors s2)((topic, writer) := None)\<rparr>;
             s4 = pushAnomaly (anomaly_stream A_floor_adopted topic writer)
                    (withDb (\<lambda>d. deletePendingUpTo d topic writer seq) s3);
             s5 = s4\<lparr>retStats := ret_bump (retStats s4) topic K_floorsAdopted 1\<rparr>
         in rbind (if sealReason head' = None then drainPending E now head' None s5 else Inr s5)
              (\<lambda>s6. Inr (settle (RFloor FloorAdopted) s6)))"

end
