(* ===== verification/Log_Prune.thy ===== *)
theory Log_Prune
  imports Log_Ingest
begin

text \<open>
  The queue handlers of \<^verbatim>\<open>src/log.ts\<close> that remove rows: writer-row collection
  (\<open>retireTopic\<close>), local pruning (\<open>pruneTopic\<close>), keyed compaction
  (\<open>pruneSuperseded\<close>) and acknowledged retention (\<open>pruneAcked\<close>), and the reads of
  keyed topics that page through the whole newest-per-key set.
\<close>

section \<open>Writer-row collection\<close>

definition dropWriters :: "string \<Rightarrow> string list \<Rightarrow> LogCore \<Rightarrow> LogCore" where
  "dropWriters topic ws s =
     foldl (\<lambda>s w. (withDb (\<lambda>d. deleteWriter d topic w) s)\<lparr>heads := (heads s)((topic, w) := None)\<rparr>) s ws"

definition processRetireTopic :: "LogEnv \<Rightarrow> nat \<Rightarrow> string \<Rightarrow> LogCore \<Rightarrow> LogCore lresult" where
  "processRetireTopic E now topic s =
     rbind (orAbort s (reg_get (registry E) topic)) (\<lambda>te.
       let p = te_policy te in
       if p_kind p = ''register'' then Inr (settle (RReject ERR_MISUSE) s)
       else if p_replication p = ''full-sync'' then Inr (settle (RReject ERR_MISUSE) s)
       else case logCount (lc_store s) topic of (count, st) \<Rightarrow>
         let s1 = s\<lparr>lc_store := st\<rparr> in
         if count > 0 then Inr (settle (RReject ERR_MISUSE) s1)
         else if hasActiveConsumer E topic then Inr (settle (RReject ERR_MISUSE) s1)
         else if hasActiveSubscriber E topic then Inr (settle (RReject ERR_MISUSE) s1)
         else
           let ws = map w_writer (listWriters (lc_db s1) (Some topic));
               s2 = journalRing topic (dropWriters topic ws s1)
           in Inr (settle (RRetired (length ws))
                (s2\<lparr>rings := (rings s2)(topic := None),
                    vectorsCache := map_option (AList.delete topic) (vectorsCache s2)\<rparr>)))"

section \<open>Local pruning\<close>

definition FULL_TAIL_DEFAULT :: nat where
  "FULL_TAIL_DEFAULT = 500"

definition cursorFloor :: "Db \<Rightarrow> string \<Rightarrow> nat \<Rightarrow> nat" where
  "cursorFloor d topic start = foldl (\<lambda>m c. min m (fst (snd c))) start (cursorsForTopic d topic)"

text \<open>\<open>Math.floor\<close>, then: 0 keeps nothing, a negative bound prunes nothing, a bound that is no
  safe integer or exceeds the number of rows prunes nothing on this axis.\<close>

definition num_floor :: "jsnum \<Rightarrow> jsnum" where
  "num_floor x = (case x of JFin q \<Rightarrow> JFin (of_int \<lfloor>q\<rfloor>) | y \<Rightarrow> y)"

definition keepNewestFloor :: "Db \<Rightarrow> string \<Rightarrow> jsnum option \<Rightarrow> nat" where
  "keepNewestFloor d topic keepNewest =
     (case keepNewest of
        None \<Rightarrow> MAX_SAFE_INTEGER
      | Some k \<Rightarrow> let keep = num_floor k in
          if keep = JFin 0 then MAX_SAFE_INTEGER
          else if num_less keep 0 then 0
          else (case rowidAtTailOffset d topic keep of Some r \<Rightarrow> r | None \<Rightarrow> 0))"

definition hlcBound :: "nat \<Rightarrow> jsnum option \<Rightarrow> jsnum option" where
  "hlcBound now olderThanMs = map_option (\<lambda>x. case x of
       JFin q \<Rightarrow> JFin (of_nat now - q) | JPosInf \<Rightarrow> JNegInf | JNegInf \<Rightarrow> JPosInf | JNaN \<Rightarrow> JNaN) olderThanMs"

text \<open>A prune that reaches into the window a tail subscriber may re-read is refused.\<close>

definition subscriberRefuses :: "LogEnv \<Rightarrow> TopicPolicy \<Rightarrow> string \<Rightarrow> nat \<Rightarrow> Db \<Rightarrow> bool" where
  "subscriberRefuses E p topic below d \<longleftrightarrow>
     1 \<le> below \<and> hasActiveSubscriber E topic \<and>
     (p_keyed p \<noteq> None \<or>
      (case rowidAtTailOffset d topic (num_of_nat FULL_TAIL_DEFAULT) of
         None \<Rightarrow> True | Some windowFloor \<Rightarrow> below \<ge> windowFloor))"

definition processPruneTopic ::
  "LogEnv \<Rightarrow> nat \<Rightarrow> string \<Rightarrow> jsnum option \<Rightarrow> jsnum option \<Rightarrow> LogCore \<Rightarrow> LogCore lresult" where
  "processPruneTopic E now topic olderThanMs keepNewest s =
     rbind (orAbort s (reg_get (registry E) topic)) (\<lambda>te.
       let p = te_policy te in
       if p_kind p = ''register'' \<or> p_replication p = ''full-sync'' \<or> p_mode p \<noteq> ''full''
       then Inr (settle (RReject ERR_MISUSE) s)
       else
         let below = min (cursorFloor (lc_db s) topic MAX_SAFE_INTEGER)
                         (keepNewestFloor (lc_db s) topic keepNewest) - 1 in
         if subscriberRefuses E p topic below (lc_db s) then Inr (settle (RReject ERR_MISUSE) s)
         else if below < 1 then Inr (settle (RPruned 0) s)
         else case deleteLogRowsUpToRowid (lc_store s) topic below (hlcBound now olderThanMs) of
           (n, st) \<Rightarrow> Inr (settle (RPruned n) (s\<lparr>lc_store := st\<rparr>)))"

section \<open>Keyed compaction\<close>

text \<open>\<open>drop\<close>: delete the given rows and take them off the budget.\<close>

definition pruneDrop :: "string \<Rightarrow> nat list \<Rightarrow> nat \<times> nat \<times> Store \<Rightarrow> nat \<times> nat \<times> Store" where
  "pruneDrop topic rowids b = (case b of (budget, pruned, st) \<Rightarrow>
     (budget - length rowids, pruned + length rowids, deleteLogRowids st topic rowids))"

definition supersedePass ::
  "string \<Rightarrow> string \<Rightarrow> string \<Rightarrow> nat \<Rightarrow> nat \<Rightarrow> bool \<Rightarrow> nat \<times> nat \<times> Store \<Rightarrow> nat \<times> nat \<times> Store" where
  "supersedePass self topic tombstoneKind fl hi others b0 =
     (let b1 = (if others \<and> fst b0 > 0
                then pruneDrop topic (otherWriterRowids (db (snd (snd b0))) topic self fl (fst b0)) b0 else b0);
          b2 = (if fst b1 > 0
                then pruneDrop topic (supersededRowids (db (snd (snd b1))) topic fl hi (fst b1)) b1 else b1)
      in if fst b2 > 0
         then pruneDrop topic (loneTombstoneRowids (db (snd (snd b2))) topic tombstoneKind fl hi (fst b2)) b2
         else b2)"

definition processPruneSuperseded ::
  "LogEnv \<Rightarrow> string \<Rightarrow> nat \<Rightarrow> nat \<Rightarrow> bool \<Rightarrow> LogCore \<Rightarrow> LogCore lresult" where
  "processPruneSuperseded E topic uptoRowid maxRows others s =
     rbind (orAbort s (reg_get (registry E) topic)) (\<lambda>te.
       case p_keyed (te_policy te) of
         None \<Rightarrow> Inr (settle (RReject ERR_MISUSE) s)
       | Some keyed \<Rightarrow>
           let fl = cursorFloor (lc_db s) topic uptoRowid;
               tk = (case tombstoneKindOf keyed of Some k \<Rightarrow> k | None \<Rightarrow> [])
           in if fl \<ge> 1 then
                (case supersedePass (selfId E) topic tk fl uptoRowid others (maxRows, 0, lc_store s) of
                   (budget, pruned, st) \<Rightarrow> Inr (settle (RPruned pruned) (s\<lparr>lc_store := st\<rparr>)))
              else Inr (settle (RPruned 0) s))"

section \<open>Acknowledged retention\<close>

type_synonym HeadRow = "nat \<times> nat \<times> nat"

definition prefixRow :: "nat \<Rightarrow> rat \<Rightarrow> nat \<Rightarrow> HeadRow \<Rightarrow> bool" where
  "prefixRow target cutoff cf r = (case r of (rowid, seq, l) \<Rightarrow>
     seq \<le> target \<and> of_nat l < cutoff \<and> rowid \<le> cf)"

text \<open>The walk over the oldest rows: how many go, and the last sequence number among them.\<close>

fun walkPrefix :: "nat \<Rightarrow> rat \<Rightarrow> nat \<Rightarrow> nat \<Rightarrow> HeadRow list \<Rightarrow> nat \<times> nat \<Rightarrow> nat \<times> nat" where
  "walkPrefix target cutoff cf budget [] p = p"
| "walkPrefix target cutoff cf budget (r # rs) (n, lastSeq) =
     (if \<not> prefixRow target cutoff cf r \<or> n = budget then (n, lastSeq)
      else walkPrefix target cutoff cf budget rs (n + 1, fst (snd r)))"

record AckedRun =
  rn_budget :: nat
  rn_pruned :: nat
  rn_more :: bool
  rn_writers :: "(string \<times> AckedPruneWriter) list"

definition ackedTarget :: "StreamView \<Rightarrow> nat \<Rightarrow> nat \<Rightarrow> nat" where
  "ackedTarget sv ackFloor prevSeq =
     (let headCap = (if sv_sealReason sv = Some SealRetired
                     then (case sv_finalSeq sv of Some f \<Rightarrow> f | None \<Rightarrow> sv_contigSeq sv)
                     else sv_contigSeq sv - 1)
      in max (min ackFloor headCap) prevSeq)"

definition ackedDelete ::
  "nat \<Rightarrow> string \<Rightarrow> string \<Rightarrow> nat \<Rightarrow> nat \<Rightarrow> AckedPruneWriter \<Rightarrow> LogCore \<Rightarrow> (AckedPruneWriter \<times> LogCore) lresult" where
  "ackedDelete now topic writer prevSeq lastSeq report s =
     rbind (if lastSeq > prevSeq then
              (case chainAt (lc_db s) topic writer lastSeq of
                 None \<Rightarrow> Inl (ERR_STORAGE, s)
               | Some chain \<Rightarrow>
                   let s1 = withDb (\<lambda>d. floorSet d topic writer lastSeq chain now) s
                   in Inr (report\<lparr>aw_floor := lastSeq\<rparr>,
                           s1\<lparr>floors := (floors s1)((topic, writer) \<mapsto> Some (lastSeq, chain))\<rparr>))
            else Inr (report, s)) (\<lambda>(report', s2).
       Inr (report', s2\<lparr>lc_store := deleteStreamPrefix (lc_store s2) topic writer lastSeq\<rparr>))"

definition ackedStream ::
  "nat \<Rightarrow> string \<Rightarrow> AckedPruneOptions \<Rightarrow> nat \<Rightarrow> (string \<times> nat \<times> string option) list \<Rightarrow> StreamView \<Rightarrow>
   AckedRun \<times> LogCore \<Rightarrow> (AckedRun \<times> LogCore) lresult" where
  "ackedStream now topic opts cf afs sv rs0 = (case rs0 of (rn, s0) \<Rightarrow>
     (case floorOf topic (sv_writer sv) s0 of (prev, s) \<Rightarrow>
      let prevSeq = (case prev of None \<Rightarrow> 0 | Some (n, _) \<Rightarrow> n);
          (af, pin) = (case map_of afs (sv_writer sv) of Some x \<Rightarrow> x | None \<Rightarrow> (0, None));
          report = \<lparr>aw_floor = prevSeq, aw_ackFloor = af, aw_pinnedBy = pin, aw_skipped = None\<rparr>;
          note = (\<lambda>r rn. rn\<lparr>rn_writers := rn_writers rn @ [(sv_writer sv, r)]\<rparr>)
      in if sv_sealReason sv = Some SealFork then Inr (note (report\<lparr>aw_skipped := Some SkipForked\<rparr>) rn, s)
         else if sv_recovering sv then Inr (note (report\<lparr>aw_skipped := Some SkipRecovering\<rparr>) rn, s)
         else if rn_budget rn = 0 then Inr (note report (rn\<lparr>rn_more := True\<rparr>), s)
         else
           let target = ackedTarget sv af prevSeq;
               cutoff = of_nat now - o_olderThanMs opts;
               rows = streamHead (lc_db s) topic (sv_writer sv) (rn_budget rn + 1);
               (n, lastSeq) = walkPrefix target cutoff cf (rn_budget rn) rows (0, 0);
               more = (n = rn_budget rn \<and> length rows > n \<and> prefixRow target cutoff cf (rows ! n));
               rn1 = rn\<lparr>rn_more := rn_more rn \<or> more\<rparr>
           in if n = 0 then Inr (note report rn1, s)
              else
                let rn2 = rn1\<lparr>rn_budget := rn_budget rn1 - n, rn_pruned := rn_pruned rn1 + n\<rparr> in
                if o_dryRun opts
                then Inr (note (report\<lparr>aw_floor := max (aw_floor report) lastSeq\<rparr>) rn2, s)
                else rbind (ackedDelete now topic (sv_writer sv) prevSeq lastSeq report s)
                       (\<lambda>(report', s'). Inr (note report' rn2, s'))))"

fun ackedStreams ::
  "nat \<Rightarrow> string \<Rightarrow> AckedPruneOptions \<Rightarrow> nat \<Rightarrow> (string \<times> nat \<times> string option) list \<Rightarrow> StreamView list \<Rightarrow>
   AckedRun \<times> LogCore \<Rightarrow> (AckedRun \<times> LogCore) lresult" where
  "ackedStreams now topic opts cf afs [] p = Inr p"
| "ackedStreams now topic opts cf afs (sv # svs) p =
     rbind (ackedStream now topic opts cf afs sv p) (ackedStreams now topic opts cf afs svs)"

fun headsOf :: "LogEnv \<Rightarrow> string \<Rightarrow> string list \<Rightarrow> LogCore \<Rightarrow> WriterRow list \<times> LogCore" where
  "headsOf E topic [] s = ([], s)"
| "headsOf E topic (w # ws) s =
     (case getStream E topic w s of (h, s1) \<Rightarrow>
      case headsOf E topic ws s1 of (hs, s2) \<Rightarrow> (h # hs, s2))"

definition streamViews :: "LogEnv \<Rightarrow> string \<Rightarrow> LogCore \<Rightarrow> StreamView list \<times> LogCore" where
  "streamViews E topic s =
     (case headsOf E topic (map w_writer (listWriters (lc_db s) (Some topic))) s of
        (hs, s') \<Rightarrow>
          (map (\<lambda>h. \<lparr>sv_writer = w_writer h, sv_contigSeq = contigSeq h, sv_sealReason = sealReason h,
                     sv_finalSeq = finalSeq h, sv_recovering = recoveries s' (topic, w_writer h) \<noteq> None\<rparr>)
             (sort_key w_writer hs), s'))"

definition forgetNodes :: "string \<Rightarrow> string list \<Rightarrow> LogCore \<Rightarrow> LogCore" where
  "forgetNodes topic nodes s = foldl (\<lambda>s node. withDb (\<lambda>d. ackForget d topic node) s) s nodes"

definition finishAcked ::
  "string \<Rightarrow> AckedPruneOptions \<Rightarrow> MemberPlan \<Rightarrow> AckedRun \<Rightarrow> LogCore \<Rightarrow> LogCore" where
  "finishAcked topic opts plan rn s3 =
     (let s4 = (if o_dryRun opts then s3 else
            (let s' = forgetNodes topic (mp_forget plan) s3
             in if rn_pruned rn > 0
                then s'\<lparr>retStats := ret_bump (retStats s') topic K_prunedRows (rn_pruned rn)\<rparr> else s'))
      in settle (RAcked \<lparr>ar_prunedRows = rn_pruned rn, ar_more = rn_more rn,
              ar_writers = rn_writers rn, ar_members = mp_members plan\<rparr>) s4)"

definition processPruneAcked ::
  "LogEnv \<Rightarrow> nat \<Rightarrow> string \<Rightarrow> AckedPruneOptions \<Rightarrow> nat \<Rightarrow> LogCore \<Rightarrow> LogCore lresult" where
  "processPruneAcked E now topic opts maxRows s0 =
     rbind (orAbort s0 (ackedRetentionRefusal (registry E) topic)) (\<lambda>refused.
     if refused then Inr (settle (RReject ERR_MISUSE) s0)
     else case streamViews E topic s0 of (svs, s1) \<Rightarrow>
       case planMembers (lc_db s1) topic opts svs (selfId E) now of (d', plan) \<Rightarrow>
         let s2 = withDb (\<lambda>_. d') s1;
             afs = ackFloors (lc_db s2) topic svs (mp_included plan);
             cf = cursorFloor (lc_db s2) topic MAX_SAFE_INTEGER
         in rbind (ackedStreams now topic opts cf afs svs
               (\<lparr>rn_budget = maxRows, rn_pruned = 0, rn_more = False, rn_writers = []\<rparr>, s2))
              (\<lambda>(rn, s3). Inr (finishAcked topic opts plan rn s3)))"

section \<open>Reads of whole topics\<close>

definition KEYED_READ_PAGE :: nat where
  "KEYED_READ_PAGE = 500"

definition assertKeyed :: "LogEnv \<Rightarrow> string \<Rightarrow> unit result" where
  "assertKeyed E topic = rbind (reg_get (registry E) topic) (\<lambda>te.
     guardr (p_keyed (te_policy te) \<noteq> None) ERR_MISUSE)"

text \<open>A full page moves \<open>after\<close> forward among the rows it is taken from.\<close>

definition rowsPast :: "nat \<Rightarrow> LogRow list \<Rightarrow> LogRow list" where
  "rowsPast after rows = filter (\<lambda>r. after < fst r) rows"

lemma page_progress:
  assumes "set p \<subseteq> set (rowsPast after rows)" "p \<noteq> []"
  shows "length (rowsPast (fst (last p)) rows) < length (rowsPast after rows)"
proof -
  have last: "last p \<in> set (rowsPast after rows)" using assms by auto
  then have "rowsPast (fst (last p)) rows = rowsPast (fst (last p)) (rowsPast after rows)"
    unfolding rowsPast_def filter_filter by (intro filter_cong) auto
  also have "length \<dots> < length (rowsPast after rows)"
    using last unfolding rowsPast_def [of "fst (last p)"] by (intro length_filter_less [of "last p"]) auto
  finally show ?thesis .
qed

lemma latestPerKeyPage_past: "set (latestPerKeyPage d t u after n) \<subseteq> set (rowsPast after (topicRows d t))"
  by (auto simp: latestPerKeyPage_def rowsPast_def Let_def dest: in_set_takeD)

lemma topicPage_past: "set (entriesForTopicFromRowid d t after n) \<subseteq> set (rowsPast after (topicRows d t))"
  by (auto simp: entriesForTopicFromRowid_def rowsPast_def dest: in_set_takeD)

lemma full_page_ne: "\<not> length p < KEYED_READ_PAGE \<Longrightarrow> p \<noteq> []"
  by (auto simp: KEYED_READ_PAGE_def)

function latestPerKeyLoop :: "Db \<Rightarrow> string \<Rightarrow> nat option \<Rightarrow> nat \<Rightarrow> LogRow list" where
  "latestPerKeyLoop d topic uptoRowid after =
     (let page = latestPerKeyPage d topic uptoRowid after KEYED_READ_PAGE in
      if length page < KEYED_READ_PAGE then page
      else page @ latestPerKeyLoop d topic uptoRowid (fst (last page)))"
  by pat_completeness auto
termination
  by (relation "measure (\<lambda>(d, topic, u, after). length (rowsPast after (topicRows d topic)))")
    (auto intro!: page_progress latestPerKeyPage_past dest: full_page_ne)

function rowsAfterLoop :: "Db \<Rightarrow> string \<Rightarrow> nat \<Rightarrow> LogRow list" where
  "rowsAfterLoop d topic after =
     (let page = entriesForTopicFromRowid d topic after KEYED_READ_PAGE in
      if length page < KEYED_READ_PAGE then page
      else page @ rowsAfterLoop d topic (fst (last page)))"
  by pat_completeness auto
termination
  by (relation "measure (\<lambda>(d, topic, after). length (rowsPast after (topicRows d topic)))")
    (auto intro!: page_progress topicPage_past dest: full_page_ne)

declare latestPerKeyLoop.simps [simp del] rowsAfterLoop.simps [simp del]

definition latestPerKey :: "LogEnv \<Rightarrow> string \<Rightarrow> nat option \<Rightarrow> Db \<Rightarrow> LogRow list result" where
  "latestPerKey E topic uptoRowid d =
     rbind (assertKeyed E topic) (\<lambda>_. Inr (latestPerKeyLoop d topic uptoRowid 0))"

definition rowsAfter :: "LogEnv \<Rightarrow> string \<Rightarrow> nat \<Rightarrow> Db \<Rightarrow> LogRow list result" where
  "rowsAfter E topic afterRowid d =
     rbind (reg_get (registry E) topic) (\<lambda>te.
       if p_mode (te_policy te) \<noteq> ''full'' then Inl ERR_MISUSE
       else Inr (rowsAfterLoop d topic afterRowid))"

definition keyHeadOf :: "LogEnv \<Rightarrow> string \<Rightarrow> string \<Rightarrow> Db \<Rightarrow> LogRow option result" where
  "keyHeadOf E topic key d = rbind (assertKeyed E topic) (\<lambda>_. Inr (keyHead d topic key))"

definition ringTail :: "LogCore \<Rightarrow> string \<Rightarrow> LogEntry list" where
  "ringTail s topic = (case rings s topic of None \<Rightarrow> [] | Some r \<Rightarrow> r)"

definition fullTail :: "Db \<Rightarrow> string \<Rightarrow> nat \<Rightarrow> LogEntry list" where
  "fullTail d topic limit = map snd (entriesTailByRowid d topic limit)"

text \<open>Newest first, positions of the ring standing in for rowids.\<close>

definition tailPage :: "LogCore \<Rightarrow> string \<Rightarrow> bool \<Rightarrow> nat option \<Rightarrow> nat \<Rightarrow> LogRow list" where
  "tailPage s topic ring beforeRowid limit =
     (if \<not> ring then entriesTailPage (lc_db s) topic beforeRowid limit
      else let tail = ringTail s topic;
               hi = (case beforeRowid of None \<Rightarrow> length tail | Some b \<Rightarrow> min (length tail) (b - 1))
           in take limit (rev (zip [1 ..< hi + 1] (take hi tail))))"

end
