(* ===== verification/Log_Flush.thy ===== *)
theory Log_Flush
  imports Log_Prune
begin

text \<open>
  The append queue of \<^verbatim>\<open>src/log.ts\<close>: the public operations with their
  preflight checks, group commit, and the flush that runs one batch in one transaction and
  rolls every piece of side state back when the transaction aborts. Tickets identify the
  promises handed to callers.

  A storage failure is an argument of the flush: \<open>Some k\<close> makes the transaction fail after
  \<open>k\<close> items have run (with \<open>k\<close> the length of the batch: at commit). Clock readings are an
  argument too, one per item.
\<close>

section \<open>Queue items\<close>

datatype QueueItem =
    QAppend AppendItem
  | QExternal LogEntry "string option"
  | QSeal string string
  | QCert FinalityCert
  | QDirective WriterDirective
  | QAdopt string Cut
  | QRetireTopic string
  | QPruneTopic string "jsnum option" "jsnum option"
  | QPruneSuperseded string nat nat bool
  | QPruneAcked string AckedPruneOptions nat
  | QAdoptFloor string string nat string

definition processItem :: "LogEnv \<Rightarrow> nat \<Rightarrow> QueueItem \<Rightarrow> LogCore \<Rightarrow> LogCore lresult" where
  "processItem E now item s = (case item of
     QAppend it \<Rightarrow> processAppend E now it s
   | QExternal e via \<Rightarrow> processExternal E now e via s
   | QSeal t w \<Rightarrow> Inr (processSeal E now t w s)
   | QCert c \<Rightarrow> Inr (processCert E now c s)
   | QDirective d \<Rightarrow> Inr (processDirective E now d s)
   | QAdopt t c \<Rightarrow> Inr (processAdopt E now t c s)
   | QRetireTopic t \<Rightarrow> processRetireTopic E now t s
   | QPruneTopic t older keep \<Rightarrow> processPruneTopic E now t older keep s
   | QPruneSuperseded t hi maxRows others \<Rightarrow> processPruneSuperseded E t hi maxRows others s
   | QPruneAcked t opts maxRows \<Rightarrow> processPruneAcked E now t opts maxRows s
   | QAdoptFloor t w n c \<Rightarrow> processAdoptFloor E now t w n c s)"

section \<open>Public operations: preflight\<close>

definition preAppend :: "LogEnv \<Rightarrow> bool \<Rightarrow> AppendItem \<Rightarrow> QueueItem result" where
  "preAppend E isClosed it =
     (if isClosed then Inl ERR_MISUSE
      else rbind (reg_get (registry E) (ai_topic it)) (\<lambda>_.
           rbind (assertJsonValue (ai_payload it)) (\<lambda>_. Inr (QAppend it))))"

definition preExternal :: "LogEnv \<Rightarrow> bool \<Rightarrow> LogEntry \<Rightarrow> string option \<Rightarrow> QueueItem result" where
  "preExternal E isClosed e via =
     (if isClosed then Inl ERR_MISUSE
      else rbind (validateEntry (prims E) (constants E) (entry_js e)) (\<lambda>_.
           rbind (reg_get (registry E) (e_topic e)) (\<lambda>_. Inr (QExternal e via))))"

text \<open>\<open>sealStream\<close>, \<open>applyCert\<close>, \<open>applyDirective\<close>, \<open>adoptSnapshotCut\<close> and
  \<open>adoptFloor\<close> check only that the node is open.\<close>

definition preOpen :: "bool \<Rightarrow> QueueItem \<Rightarrow> QueueItem result" where
  "preOpen isClosed item = (if isClosed then Inl ERR_MISUSE else Inr item)"

definition preRetireTopic :: "LogEnv \<Rightarrow> bool \<Rightarrow> string \<Rightarrow> QueueItem result" where
  "preRetireTopic E isClosed topic =
     (if isClosed then Inl ERR_MISUSE
      else rbind (reg_get (registry E) topic) (\<lambda>te.
        if p_kind (te_policy te) = ''register'' then Inl ERR_MISUSE
        else if p_replication (te_policy te) = ''full-sync'' then Inl ERR_MISUSE
        else Inr (QRetireTopic topic)))"

definition prePruneTopic :: "LogEnv \<Rightarrow> bool \<Rightarrow> string \<Rightarrow> jsnum option \<Rightarrow> jsnum option \<Rightarrow> QueueItem result" where
  "prePruneTopic E isClosed topic olderThanMs keepNewest =
     (if isClosed then Inl ERR_MISUSE
      else rbind (reg_get (registry E) topic) (\<lambda>te.
        if p_kind (te_policy te) = ''register'' then Inl ERR_MISUSE
        else if p_replication (te_policy te) = ''full-sync'' then Inl ERR_MISUSE
        else if p_mode (te_policy te) \<noteq> ''full'' then Inl ERR_MISUSE
        else if olderThanMs = None \<and> keepNewest = None then Inl ERR_MISUSE
        else Inr (QPruneTopic topic olderThanMs keepNewest)))"

definition PRUNE_SUPERSEDED_DEFAULT_MAX_ROWS :: nat where
  "PRUNE_SUPERSEDED_DEFAULT_MAX_ROWS = 250"

definition PRUNE_SUPERSEDED_MAX_ROWS_CAP :: nat where
  "PRUNE_SUPERSEDED_MAX_ROWS_CAP = 10000"

text \<open>The row budget of a prune call: absent, the default; present, a positive safe integer.\<close>

definition maxRowsOf :: "jsnum option \<Rightarrow> nat \<Rightarrow> nat \<Rightarrow> nat result" where
  "maxRowsOf maxRows dflt cap =
     (case maxRows of
        None \<Rightarrow> Inr (min dflt cap)
      | Some n \<Rightarrow> if \<not> isSafeInteger n \<or> num_less n 1 then Inl ERR_MISUSE
                  else Inr (min (nat_of_num n) cap))"

definition prePruneSuperseded ::
  "LogEnv \<Rightarrow> bool \<Rightarrow> string \<Rightarrow> jsnum \<Rightarrow> jsnum option \<Rightarrow> bool \<Rightarrow> QueueItem result" where
  "prePruneSuperseded E isClosed topic uptoRowid maxRows others =
     (if isClosed then Inl ERR_MISUSE
      else rbind (reg_get (registry E) topic) (\<lambda>te.
        if p_keyed (te_policy te) = None then Inl ERR_MISUSE
        else if \<not> isSafeInteger uptoRowid \<or> num_less uptoRowid 0 then Inl ERR_MISUSE
        else rbind (maxRowsOf maxRows PRUNE_SUPERSEDED_DEFAULT_MAX_ROWS PRUNE_SUPERSEDED_MAX_ROWS_CAP) (\<lambda>n.
          Inr (QPruneSuperseded topic (nat_of_num uptoRowid) n others))))"

definition ratOf :: "jsnum \<Rightarrow> rat result" where
  "ratOf x = (case x of JFin q \<Rightarrow> if q < 0 then Inl ERR_MISUSE else Inr q | _ \<Rightarrow> Inl ERR_MISUSE)"

definition prePruneAcked ::
  "LogEnv \<Rightarrow> bool \<Rightarrow> string \<Rightarrow> jsnum \<Rightarrow> jsnum \<Rightarrow> string list option \<Rightarrow> string list \<Rightarrow> bool \<Rightarrow> jsnum option \<Rightarrow>
   QueueItem result" where
  "prePruneAcked E isClosed topic olderThanMs maxLagMs members excl dryRun maxRows =
     (if isClosed then Inl ERR_MISUSE
      else rbind (reg_get (registry E) topic) (\<lambda>te.
        rbind (ackedRetentionRefusal (registry E) topic) (\<lambda>refused.
        if refused then Inl ERR_MISUSE
        else rbind (ratOf olderThanMs) (\<lambda>older.
             rbind (ratOf maxLagMs) (\<lambda>lag.
             rbind (maxRowsOf maxRows ACKED_PRUNE_DEFAULT_MAX_ROWS ACKED_PRUNE_MAX_ROWS_CAP) (\<lambda>n.
               Inr (QPruneAcked topic \<lparr>o_olderThanMs = older, o_maxLagMs = lag, o_members = members,
                      o_excludeMembers = excl, o_dryRun = dryRun\<rparr> n)))))))"

section \<open>The queue\<close>

record LogQueue =
  q_core :: LogCore
  q_items :: "(nat \<times> QueueItem) list"
  q_next :: nat
  q_timer :: "nat option"
  q_closed :: bool
  q_done :: "(nat \<times> Outcome) list"
  q_emitted :: "Anomaly list"
  q_hooks :: "AppliedRow list"

definition push :: "LogEnv \<Rightarrow> QueueItem \<Rightarrow> LogQueue \<Rightarrow> LogQueue" where
  "push E item q =
     (let q' = q\<lparr>q_items := q_items q @ [(q_next q, item)], q_next := q_next q + 1\<rparr> in
      if length (q_items q') \<ge> GROUP_COMMIT_N (constants E) then q'\<lparr>q_timer := Some 0\<rparr>
      else if q_timer q = None then q'\<lparr>q_timer := Some (GROUP_COMMIT_MS (constants E))\<rparr>
      else q')"

definition rejectAll :: "ErrCode \<Rightarrow> (nat \<times> QueueItem) list \<Rightarrow> (nat \<times> Outcome) list" where
  "rejectAll err batch = map (\<lambda>p. (fst p, RReject err)) batch"

definition rejectQueueClosed :: "LogQueue \<Rightarrow> LogQueue" where
  "rejectQueueClosed q = q\<lparr>q_items := [], q_done := q_done q @ rejectAll ERR_MISUSE (q_items q)\<rparr>"

section \<open>The flush\<close>

fun runItems :: "LogEnv \<Rightarrow> (nat \<Rightarrow> nat) \<Rightarrow> (nat \<times> QueueItem) list \<Rightarrow> LogCore \<Rightarrow> LogCore lresult" where
  "runItems E clk [] s = Inr s"
| "runItems E clk ((i, item) # batch) s = rbind (processItem E (clk i) item s) (runItems E clk batch)"

definition flushTxn ::
  "LogEnv \<Rightarrow> (nat \<Rightarrow> nat) \<Rightarrow> nat option \<Rightarrow> (nat \<times> QueueItem) list \<Rightarrow> LogCore \<Rightarrow> LogCore lresult" where
  "flushTxn E clk fault batch s = (case fault of
     None \<Rightarrow> rbind (runItems E clk batch s) (\<lambda>s'. Inr (withDb (\<lambda>d. metaSetHlc d (hlcState s')) s'))
   | Some k \<Rightarrow> rbind (runItems E clk (take k batch) s) (\<lambda>s'. Inl (ERR_STORAGE, s')))"

definition beginFlush :: "LogCore \<Rightarrow> LogCore" where
  "beginFlush s = s\<lparr>ringUndo := Some Map.empty, settled := [], applied := [], anomalies := []\<rparr>"

definition restoreRings ::
  "(string \<Rightarrow> LogEntry list option option) option \<Rightarrow> (string \<Rightarrow> LogEntry list option) \<Rightarrow> string \<Rightarrow> LogEntry list option" where
  "restoreRings undo rs = (case undo of None \<Rightarrow> rs
     | Some u \<Rightarrow> (\<lambda>t. case u t of None \<Rightarrow> rs t | Some prev \<Rightarrow> prev))"

text \<open>
  The catch branch: the transaction rolled the tables back; the caches over the store are
  dropped, the snapshotted side state comes back. The row-count caches of the store and the
  retention counters are no part of it.
\<close>

definition rollback :: "LogCore \<Rightarrow> LogCore \<Rightarrow> LogCore" where
  "rollback s0 s = s\<lparr>lc_store := (lc_store s)\<lparr>db := lc_db s0\<rparr>,
     heads := Map.empty, certs := Map.empty, floors := Map.empty, vectorsCache := None,
     hlcState := hlcState s0, recoveries := recoveries s0,
     rings := restoreRings (ringUndo s) (rings s), ringUndo := None, scopeTails := scopeTails s0,
     settled := [], applied := [], anomalies := []\<rparr>"

definition commitFlush :: "LogCore \<Rightarrow> LogCore" where
  "commitFlush s = s\<lparr>ringUndo := None, settled := [], applied := [], anomalies := []\<rparr>"

definition flush :: "LogEnv \<Rightarrow> (nat \<Rightarrow> nat) \<Rightarrow> nat option \<Rightarrow> LogQueue \<Rightarrow> LogQueue" where
  "flush E clk fault q0 =
     (let q = q0\<lparr>q_timer := None\<rparr> in
      if q_closed q then rejectQueueClosed q
      else if q_items q = [] then q
      else
        let batch = q_items q; s0 = beginFlush (q_core q) in
        case flushTxn E clk fault batch s0 of
          Inl (err, s) \<Rightarrow> q\<lparr>q_items := [], q_core := rollback s0 s, q_done := q_done q @ rejectAll err batch\<rparr>
        | Inr s \<Rightarrow> q\<lparr>q_items := [], q_core := commitFlush s,
                     q_done := q_done q @ zip (map fst batch) (settled s),
                     q_emitted := q_emitted q @ anomalies s, q_hooks := q_hooks q @ applied s\<rparr>)"

text \<open>\<open>close\<close> after its final flush: stop the timer, refuse what the callbacks enqueued.\<close>

definition closeQueue :: "LogQueue \<Rightarrow> LogQueue" where
  "closeQueue q = rejectQueueClosed (q\<lparr>q_closed := True, q_timer := None\<rparr>)"

definition newQueue :: "Store \<Rightarrow> LogQueue" where
  "newQueue st = \<lparr>q_core = LogCore_new st, q_items = [], q_next = 0, q_timer = None, q_closed = False,
     q_done = [], q_emitted = [], q_hooks = []\<rparr>"

end
