(* ===== verification/Log_Inv.thy ===== *)
theory Log_Inv
  imports Log_Flush
begin

text \<open>
  The invariant of the log core and its preservation by every queue handler: the log table is
  well formed, every held row lies at or below its stream's head and carries the head's chain
  when it is the head, consecutive held rows are linked by the chain hash back to the stream's
  seed, and the three caches and the row counts agree with the tables.
\<close>

section \<open>The invariant\<close>

definition streamRow :: "string \<times> string \<Rightarrow> LogEntry \<Rightarrow> bool" where
  "streamRow k e \<longleftrightarrow> e_topic e = fst k \<and> e_writer e = snd k"

definition held :: "Db \<Rightarrow> LogEntry \<Rightarrow> bool" where
  "held d e \<longleftrightarrow> e \<in> snd ` set (sq_log d)"

definition writers_keyed :: "Db \<Rightarrow> bool" where
  "writers_keyed d \<longleftrightarrow> (\<forall>t w h. getWriter d t w = Some h \<longrightarrow> w_topic h = t \<and> w_writer h = w)"

text \<open>A head fits the rows of its stream.\<close>

definition head_fits :: "Db \<Rightarrow> string \<times> string \<Rightarrow> WriterRow \<Rightarrow> bool" where
  "head_fits d k h \<longleftrightarrow> (\<forall>e. held d e \<longrightarrow> streamRow k e \<longrightarrow>
     1 \<le> e_seq e \<and> e_seq e \<le> contigSeq h \<and> (e_seq e = contigSeq h \<longrightarrow> e_chain e = contigChain h))"

definition chain_linked :: "LogEnv \<Rightarrow> Db \<Rightarrow> bool" where
  "chain_linked E d \<longleftrightarrow> (\<forall>e. held d e \<longrightarrow>
     (e_seq e = 1 \<longrightarrow> chainOf (prims E) (seedOf (prims E) (e_topic e) (e_writer e)) e = Inr (e_chain e)) \<and>
     (\<forall>p. held d p \<longrightarrow> e_topic p = e_topic e \<longrightarrow> e_writer p = e_writer e \<longrightarrow> e_seq e = Suc (e_seq p) \<longrightarrow>
        chainOf (prims E) (e_chain p) e = Inr (e_chain e)))"

definition stream_ok :: "LogEnv \<Rightarrow> Db \<Rightarrow> bool" where
  "stream_ok E d \<longleftrightarrow> log_table_ok d \<and> writers_keyed d \<and>
     (\<forall>k. head_fits d k (storedHead E d k)) \<and> chain_linked E d"

definition core_inv :: "LogEnv \<Rightarrow> LogCore \<Rightarrow> bool" where
  "core_inv E s \<longleftrightarrow> stream_ok E (lc_db s) \<and> heads_ok E s \<and> certs_ok s \<and> floors_ok s \<and> counts_ok (lc_store s)"

lemma held_append [simp]: "sq_log d' = sq_log d @ [(r, e)] \<Longrightarrow> held d' x \<longleftrightarrow> held d x \<or> x = e"
  by (auto simp: held_def)

lemma held_cong: "sq_log d' = sq_log d \<Longrightarrow> held d' = held d"
  by (simp add: held_def fun_eq_iff)

lemma held_filter: "sq_log d' = filter P (sq_log d) \<Longrightarrow> held d' e \<Longrightarrow> held d e"
  by (auto simp: held_def)

lemma stored_key:
  assumes "writers_keyed d"
  shows "w_topic (storedHead E d k) = fst k" "w_writer (storedHead E d k) = snd k"
  using assms by (auto simp: storedHead_def writers_keyed_def freshHead_def split: option.split)

lemma getEntry_held: "getEntry d t w n = Some e \<Longrightarrow> held d e \<and> e_topic e = t \<and> e_writer e = w \<and> e_seq e = n"
  by (auto simp: getEntry_def held_def entryKey_def dest!: find_Some_in) force

lemma held_getEntry: "log_table_ok d \<Longrightarrow> held d e \<Longrightarrow> getEntry d (e_topic e) (e_writer e) (e_seq e) = Some e"
  by (auto simp: getEntry_iff held_def entryKey_def)

section \<open>Table changes\<close>

lemma stream_ok_cong:
  assumes "sq_log d' = sq_log d" "log_autoinc d' = log_autoinc d" "sq_writers d' = sq_writers d"
  shows "stream_ok E d' = stream_ok E d"
  using log_table_ok_cong [OF assms(1,2)] held_cong [OF assms(1)] storedHead_cong [OF assms(3)]
    reads_cong(3) [OF assms(3)]
  by (simp add: stream_ok_def writers_keyed_def head_fits_def chain_linked_def)

text \<open>Deleting rows keeps every clause.\<close>

lemma stream_ok_delete:
  assumes "stream_ok E d" "sq_log d' = filter P (sq_log d)" "log_autoinc d' = log_autoinc d"
    "sq_writers d' = sq_writers d"
  shows "stream_ok E d'"
proof -
  have h: "held d' e \<Longrightarrow> held d e" for e by (rule held_filter [OF assms(2)])
  have "log_table_ok d'" using assms(1) log_table_ok_filter [OF _ assms(2,3)] by (simp add: stream_ok_def)
  moreover have "writers_keyed d'"
    using assms(1) reads_cong(3) [OF assms(4)] by (simp add: stream_ok_def writers_keyed_def)
  moreover have "head_fits d' k (storedHead E d' k)" for k
    using assms(1) h unfolding stream_ok_def head_fits_def storedHead_cong [OF assms(4)] by blast
  moreover have "chain_linked E d'"
    using assms(1) h unfolding stream_ok_def chain_linked_def by blast
  ultimately show ?thesis unfolding stream_ok_def by blast
qed

lemma head_fits_delete:
  assumes "head_fits d k h" "sq_log d' = filter P (sq_log d)"
  shows "head_fits d' k h"
  using assms held_filter [OF assms(2)] by (auto simp: head_fits_def)

text \<open>Saving a head that fits.\<close>

lemma stream_ok_upsert:
  assumes "stream_ok E d" "head_fits d (w_topic h, w_writer h) h"
  shows "stream_ok E (upsertWriter d h)"
proof -
  have [simp]: "held (upsertWriter d h) = held d" by (rule held_cong) simp
  have "writers_keyed (upsertWriter d h)"
    using assms(1) by (auto simp: stream_ok_def writers_keyed_def getWriter_upsert split: if_splits)
  moreover have "log_table_ok (upsertWriter d h)"
    using assms(1) log_table_ok_cong [of "upsertWriter d h" d] by (simp add: stream_ok_def)
  ultimately show ?thesis
    using assms by (auto simp: stream_ok_def storedHead_upsert head_fits_def chain_linked_def)
qed

text \<open>Appending the next entry of a stream, then saving its head.\<close>

lemma stream_ok_extend:
  assumes ok: "stream_ok E d" and h: "h = storedHead E d (e_topic e, e_writer e)"
    and seq: "e_seq e = contigSeq h + 1"
    and chain: "chainOf (prims E) (prevChainOf E h) e = Inr (e_chain e)"
    and log: "sq_log d' = sq_log d @ [(log_autoinc d + 1, e)]" "log_autoinc d' = log_autoinc d + 1"
      "sq_writers d' = sq_writers d"
  shows "stream_ok E (upsertWriter d' (setContig e h))"
proof -
  have keys: "w_topic h = e_topic e" "w_writer h = e_writer e"
    using ok stored_key h by (auto simp: stream_ok_def)
  have fits: "head_fits d k (storedHead E d k)" for k using ok unfolding stream_ok_def by blast
  have held': "held d' x \<longleftrightarrow> held d x \<or> x = e" for x using log(1) by simp
  have below: "held d x \<Longrightarrow> e_topic x = e_topic e \<Longrightarrow> e_writer x = e_writer e \<Longrightarrow>
      1 \<le> e_seq x \<and> e_seq x \<le> contigSeq h \<and> (e_seq x = contigSeq h \<longrightarrow> e_chain x = contigChain h)" for x
    using fits [of "(e_topic e, e_writer e)"] h by (auto simp: head_fits_def streamRow_def)
  have fresh: "\<forall>r \<in> set (sq_log d). entryKey (snd r) \<noteq> entryKey e"
  proof
    fix r assume "r \<in> set (sq_log d)"
    then have "held d (snd r)" by (simp add: held_def)
    then show "entryKey (snd r) \<noteq> entryKey e" using below [of "snd r"] seq by (auto simp: entryKey_def)
  qed
  have table: "log_table_ok d'"
    using ok log fresh
    by (fastforce simp: stream_ok_def log_table_ok_def sorted_wrt_append sorted_wrt_map)
  have stored: "storedHead E d' = storedHead E d" by (rule storedHead_cong [OF log(3)])
  have linked: "chain_linked E d'"
  proof -
    have "chain_linked E d" using ok by (simp add: stream_ok_def)
    moreover have "e_seq e = 1 \<longrightarrow> chainOf (prims E) (seedOf (prims E) (e_topic e) (e_writer e)) e = Inr (e_chain e)"
      using chain seq keys by (auto simp: prevChainOf_def)
    moreover have "chainOf (prims E) (e_chain p) e = Inr (e_chain e)"
      if "held d p" "e_topic p = e_topic e" "e_writer p = e_writer e" "e_seq e = Suc (e_seq p)" for p
    proof -
      have "e_seq p = contigSeq h" "0 < contigSeq h" using that(4) seq below [OF that(1-3)] by auto
      then show ?thesis using below [OF that(1-3)] chain by (simp add: prevChainOf_def)
    qed
    moreover have "\<not> (held d x \<and> e_topic e = e_topic x \<and> e_writer e = e_writer x \<and> e_seq x = Suc (e_seq e))" for x
      using below [of x] seq by auto
    ultimately show ?thesis unfolding chain_linked_def held' by auto
  qed
  have fits': "head_fits d' k (((storedHead E d)((e_topic e, e_writer e) := setContig e h)) k)" for k
  proof (cases "k = (e_topic e, e_writer e)")
    case True
    have "1 \<le> e_seq x \<and> e_seq x \<le> e_seq e \<and> (e_seq x = e_seq e \<longrightarrow> e_chain x = e_chain e)"
      if "held d' x" "e_topic x = e_topic e" "e_writer x = e_writer e" for x
      using that below [of x] seq unfolding held' by auto
    then show ?thesis by (simp add: True head_fits_def streamRow_def setContig_def)
  next
    case False
    then have "\<not> streamRow k e" by (cases k) (auto simp: streamRow_def)
    then show ?thesis using fits [of k] False unfolding head_fits_def held' fun_upd_other [OF False] by blast
  qed
  have keyed: "writers_keyed (upsertWriter d' (setContig e h))"
    using ok reads_cong(3) [OF log(3)]
    by (auto simp: stream_ok_def writers_keyed_def getWriter_upsert split: if_splits)
  have [simp]: "held (upsertWriter d' (setContig e h)) = held d'" by (rule held_cong) simp
  have "log_table_ok (upsertWriter d' (setContig e h))"
    using table log_table_ok_cong [of "upsertWriter d' (setContig e h)" d'] by simp
  moreover have "storedHead E (upsertWriter d' (setContig e h)) =
      (storedHead E d)((e_topic e, e_writer e) := setContig e h)"
    using keys by (simp add: storedHead_upsert stored setContig_def)
  ultimately show ?thesis
    using keyed fits' linked unfolding stream_ok_def head_fits_def chain_linked_def by simp
qed

section \<open>Preservation by the helpers\<close>

named_theorems inv_simps "updates the invariant does not see"

lemma setContig_simps [simp]:
  "contigSeq (setContig e h) = e_seq e" "contigChain (setContig e h) = e_chain e"
  "w_topic (setContig e h) = w_topic h" "w_writer (setContig e h) = w_writer h"
  "sealReason (setContig e h) = sealReason h"
  by (simp_all add: setContig_def)

lemma core_inv_cong:
  assumes "lc_store s' = lc_store s" "heads s' = heads s" "certs s' = certs s" "floors s' = floors s"
  shows "core_inv E s' = core_inv E s"
  using assms
  by (simp add: core_inv_def headsCache.coherent_def certsCache.coherent_def floorsCache.coherent_def)

lemma inv_accum [simp, inv_simps]:
  "core_inv E (settle x s) = core_inv E s" "core_inv E (pushApplied e r v s) = core_inv E s"
  "core_inv E (pushAnomaly a s) = core_inv E s" "core_inv E (journalRing t s) = core_inv E s"
  "core_inv E (s\<lparr>hlcState := hs\<rparr>) = core_inv E s" "core_inv E (s\<lparr>recoveries := rs\<rparr>) = core_inv E s"
  "core_inv E (s\<lparr>rings := rg\<rparr>) = core_inv E s" "core_inv E (s\<lparr>ringUndo := ru\<rparr>) = core_inv E s"
  "core_inv E (s\<lparr>scopeTails := st\<rparr>) = core_inv E s" "core_inv E (s\<lparr>retStats := rt\<rparr>) = core_inv E s"
  "core_inv E (s\<lparr>vectorsCache := vc\<rparr>) = core_inv E s" "core_inv E (forgetRecovery t w s) = core_inv E s"
  by (rule core_inv_cong; simp add: forgetRecovery_def)+

lemma inv_getStream:
  assumes "core_inv E s" "getStream E t w s = (h, s')"
  shows "core_inv E s'" "h = storedHead E (lc_db s') (t, w)" "h = storedHead E (lc_db s) (t, w)"
    "w_topic h = t" "w_writer h = w"
proof -
  note fr = getStream_frame [OF assms(2)]
  have "heads_ok E s'"
    using headsCache.read_coherent [of E s "(t, w)"] assms by (simp add: core_inv_def)
  then show "core_inv E s'"
    using assms(1) fr by (simp add: core_inv_def certsCache.coherent_def floorsCache.coherent_def)
  show h: "h = storedHead E (lc_db s) (t, w)"
    using getStream_value assms by (simp add: core_inv_def)
  then show "h = storedHead E (lc_db s') (t, w)" using fr(1) by simp
  show "w_topic h = t" "w_writer h = w"
    using assms(1) stored_key h by (auto simp: core_inv_def stream_ok_def)
qed

lemma inv_getCert:
  assumes "core_inv E s" "getCert t s = (c, s')"
  shows "core_inv E s'" "c = finalityGet (lc_db s) t" "lc_store s' = lc_store s"
proof -
  note fr = getCert_frame [OF assms(2)]
  have "certs_ok s'" using certsCache.read_coherent [of s t] assms by (simp add: core_inv_def)
  then show "core_inv E s'"
    using assms(1) fr by (simp add: core_inv_def headsCache.coherent_def floorsCache.coherent_def)
  show "c = finalityGet (lc_db s) t" using getCert_value assms by (simp add: core_inv_def)
  show "lc_store s' = lc_store s" by (rule fr(1))
qed

lemma inv_floorOf:
  assumes "core_inv E s" "floorOf t w s = (f, s')"
  shows "core_inv E s'" "f = floorGet (lc_db s) t w" "lc_store s' = lc_store s"
proof -
  note fr = floorOf_frame [OF assms(2)]
  have "floors_ok s'" using floorsCache.read_coherent [of s "(t, w)"] assms by (simp add: core_inv_def)
  then show "core_inv E s'"
    using assms(1) fr by (simp add: core_inv_def headsCache.coherent_def certsCache.coherent_def)
  show "f = floorGet (lc_db s) t w" using floorOf_value assms by (simp add: core_inv_def)
  show "lc_store s' = lc_store s" by (rule fr(1))
qed

text \<open>Writes to tables the invariant does not read.\<close>

lemma inv_withDb:
  assumes "core_inv E s" "sq_log (f (lc_db s)) = sq_log (lc_db s)"
    "log_autoinc (f (lc_db s)) = log_autoinc (lc_db s)"
    "sq_writers (f (lc_db s)) = sq_writers (lc_db s)" "sq_finality (f (lc_db s)) = sq_finality (lc_db s)"
    "sq_floors (f (lc_db s)) = sq_floors (lc_db s)"
  shows "core_inv E (withDb f s)"
proof -
  have "stream_ok E (f (lc_db s)) = stream_ok E (lc_db s)" by (rule stream_ok_cong) (simp_all add: assms)
  moreover have "storedHead E (f (lc_db s)) = storedHead E (lc_db s)" by (rule storedHead_cong) (simp add: assms)
  moreover have "finalityGet (f (lc_db s)) = finalityGet (lc_db s)"
    "floorGet (f (lc_db s)) = floorGet (lc_db s)"
    using reads_cong(5,6) assms(5,6) by blast+
  moreover have "counts_ok (lc_store (withDb f s)) = counts_ok (lc_store s)"
    by (simp add: withDb_def counts_ok_def countRows_def topicRows_def assms)
  ultimately show ?thesis
    using assms(1)
    by (simp add: core_inv_def headsCache.coherent_def certsCache.coherent_def floorsCache.coherent_def)
qed

lemma inv_side_tables:
  assumes "core_inv E s"
  shows "core_inv E (withDb (\<lambda>d. annotate d t w n k x) s)" "core_inv E (withDb (\<lambda>d. pendingPut d e) s)"
    "core_inv E (withDb (\<lambda>d. pendingDelete d t w n) s)" "core_inv E (withDb (\<lambda>d. deletePendingUpTo d t w n) s)"
    "core_inv E (withDb (\<lambda>d. quarantinePut d e k x) s)" "core_inv E (withDb (\<lambda>d. directivePut d t w n dir) s)"
    "core_inv E (withDb (\<lambda>d. metaSetHlc d h) s)" "core_inv E (withDb (\<lambda>d. ackForget d t k) s)"
  by (rule inv_withDb [OF assms]; simp)+

lemma inv_saveHead:
  assumes "core_inv E s" "head_fits (lc_db s) (w_topic h, w_writer h) h"
  shows "core_inv E (saveHead E now h s)"
proof -
  have "stream_ok E (upsertWriter (lc_db s) h)"
    using assms by (intro stream_ok_upsert) (simp_all add: core_inv_def)
  moreover have "counts_ok (lc_store (saveHead E now h s))"
    using assms(1) by (simp add: core_inv_def counts_ok_def countRows_def topicRows_def)
  moreover have "heads_ok E (saveHead E now h s)"
    using assms(1) by (simp add: core_inv_def saveHead_heads_ok)
  moreover have "certs_ok (saveHead E now h s)"
    using assms(1) reads_cong(6) [of "upsertWriter (lc_db s) h" "lc_db s"]
    by (simp add: core_inv_def certsCache.coherent_def)
  moreover have "floors_ok (saveHead E now h s)"
    using assms(1) reads_cong(5) [of "upsertWriter (lc_db s) h" "lc_db s"]
    by (simp add: core_inv_def floorsCache.coherent_def)
  ultimately show ?thesis by (simp add: core_inv_def)
qed

lemma inv_stored_fits: "core_inv E s \<Longrightarrow> head_fits (lc_db s) k (storedHead E (lc_db s) k)"
  unfolding core_inv_def stream_ok_def by blast

text \<open>A change of the seal fields keeps the fit.\<close>

lemma head_fits_contig:
  "contigSeq h' = contigSeq h \<Longrightarrow> contigChain h' = contigChain h \<Longrightarrow> head_fits d k h' = head_fits d k h"
  by (simp add: head_fits_def)

lemma inv_saveStored:
  assumes "core_inv E s" "h = storedHead E (lc_db s) (t, w)" "contigSeq h' = contigSeq h"
    "contigChain h' = contigChain h" "w_topic h' = w_topic h" "w_writer h' = w_writer h"
  shows "core_inv E (saveHead E now h' s)"
proof (rule inv_saveHead [OF assms(1)])
  have "w_topic h = t" "w_writer h = w"
    using assms(1,2) stored_key by (auto simp: core_inv_def stream_ok_def)
  then show "head_fits (lc_db s) (w_topic h', w_writer h') h'"
    using inv_stored_fits [OF assms(1), of "(t, w)"] head_fits_contig [OF assms(3,4)] assms(2,5,6) by simp
qed

lemma inv_seal:
  assumes "core_inv E s" "h = storedHead E (lc_db s) (t, w)"
  shows "core_inv E (seal E now h e s)"
  unfolding seal_def inv_accum by (rule inv_saveStored [OF assms]) simp_all

lemma inv_insert_save:
  assumes inv: "core_inv E s" and h: "h = storedHead E (lc_db s) (e_topic e, e_writer e)"
    and seq: "e_seq e = contigSeq h + 1"
    and chain: "chainOf (prims E) (prevChainOf E h) e = Inr (e_chain e)"
    and per: "persist E e s = Inr (r, s1)"
  shows "core_inv E (saveHead E now (setContig e h) s1)"
  using per
proof (cases rule: persist_cases)
  case (full st' rowid te)
  note ins = insertEntry_Inr [OF full(2)]
  have key: "w_topic h = e_topic e" "w_writer h = e_writer e"
    using inv h stored_key by (auto simp: core_inv_def stream_ok_def)
  have wr: "sq_writers (db st') = sq_writers (lc_db s)" "sq_finality (db st') = sq_finality (lc_db s)"
    "sq_floors (db st') = sq_floors (lc_db s)" using ins(3) by simp_all
  have "stream_ok E (upsertWriter (db st') (setContig e h))"
    using inv ins by (intro stream_ok_extend [OF _ h seq chain]) (simp_all add: core_inv_def)
  moreover have "counts_ok (lc_store (saveHead E now (setContig e h) s1))"
    using counts_ok_insert [OF full(2)] inv full(4)
    by (simp add: core_inv_def counts_ok_def countRows_def topicRows_def)
  moreover have "heads_ok E s1"
    using inv full(4) storedHead_cong [OF wr(1)] by (simp add: core_inv_def headsCache.coherent_def)
  then have "heads_ok E (saveHead E now (setContig e h) s1)" by (rule saveHead_heads_ok)
  moreover have "finalityGet (upsertWriter (db st') (setContig e h)) = finalityGet (lc_db s)"
    by (rule reads_cong(6)) (simp add: wr)
  moreover have "floorGet (upsertWriter (db st') (setContig e h)) = floorGet (lc_db s)"
    by (rule reads_cong(5)) (simp add: wr)
  ultimately show ?thesis
    using inv full(4) by (simp add: core_inv_def certsCache.coherent_def floorsCache.coherent_def)
next
  case (mem te)
  have inv1: "core_inv E s1" using core_inv_cong [of s1 s] inv mem by simp
  have key: "w_topic h = e_topic e" "w_writer h = e_writer e"
    using inv h stored_key by (auto simp: core_inv_def stream_ok_def)
  show ?thesis
  proof (rule inv_saveHead [OF inv1])
    have "head_fits (lc_db s) (e_topic e, e_writer e) h" using inv_stored_fits [OF inv] h by simp
    then have "1 \<le> e_seq x \<and> e_seq x < e_seq e"
      if "held (lc_db s) x" "streamRow (e_topic e, e_writer e) x" for x
      using that seq unfolding head_fits_def by fastforce
    then have "head_fits (lc_db s) (e_topic e, e_writer e) (setContig e h)"
      unfolding head_fits_def setContig_simps by (metis less_imp_le less_irrefl)
    then show "head_fits (lc_db s1) (w_topic (setContig e h), w_writer (setContig e h)) (setContig e h)"
      using key mem(2) by simp
  qed
qed

lemma inv_applyEntry:
  assumes inv: "core_inv E s" and h: "h = storedHead E (lc_db s) (e_topic e, e_writer e)"
    and seq: "e_seq e = contigSeq h + 1"
    and chain: "chainOf (prims E) (prevChainOf E h) e = Inr (e_chain e)"
    and app: "applyEntry E now h e via s = Inr (h', s')"
  shows "core_inv E s'" "h' = setContig e h" "h' = storedHead E (lc_db s') (e_topic e, e_writer e)"
proof -
  obtain r s1 where per: "persist E e s = Inr (r, s1)" and h': "h' = setContig e h"
    and s': "s' = pushApplied e r via (saveHead E now h' s1)"
    using app by (auto simp: applyEntry_def rbind_eq_Inr Let_def)
  have key: "w_topic h = e_topic e" "w_writer h = e_writer e"
    using inv h stored_key by (auto simp: core_inv_def stream_ok_def)
  show "core_inv E s'" using inv_insert_save [OF inv h seq chain per] s' h' by simp
  show "h' = setContig e h" by (rule h')
  then show "h' = storedHead E (lc_db s') (e_topic e, e_writer e)"
    using s' key by (simp add: storedHead_upsert setContig_def)
qed

end
