(* ===== verification/Log_Preserve.thy ===== *)
theory Log_Preserve
  imports Log_Inv
begin

text \<open>
  Every queue handler, and so every committed flush, keeps the invariant of theory
  \<open>Log_Inv\<close>; an aborted flush restores the tables and drops the caches.
\<close>

section \<open>Ingest\<close>

lemma inv_verifyAndApply:
  assumes inv: "core_inv E s" and h: "h = storedHead E (lc_db s) (e_topic e, e_writer e)"
    and seq: "e_seq e = contigSeq h + 1" and run: "verifyAndApply E now h e via s = Inr (b, h', s')"
  shows "core_inv E s'" "b \<Longrightarrow> h' = storedHead E (lc_db s') (e_topic e, e_writer e)"
    "b \<Longrightarrow> h' = setContig e h"
proof -
  consider (forked) "\<not> b" "s' = seal E now h e s"
    | (ok) "b" "chainOf (prims E) (prevChainOf E h) e = Inr (e_chain e)"
        "applyEntry E now h e via s = Inr (h', s')"
    using run by (auto simp: verifyAndApply_def rbind_eq_Inr split: if_splits)
  then have "core_inv E s' \<and> (b \<longrightarrow> h' = storedHead E (lc_db s') (e_topic e, e_writer e) \<and> h' = setContig e h)"
  proof cases
    case forked
    then show ?thesis using inv_seal [OF inv h] by simp
  next
    case ok
    then show ?thesis using inv_applyEntry [OF inv h seq ok(2,3)] by simp
  qed
  then show "core_inv E s'" "b \<Longrightarrow> h' = storedHead E (lc_db s') (e_topic e, e_writer e)"
    "b \<Longrightarrow> h' = setContig e h" by auto
qed

lemma pendingGet_key: "pendingGet d t w n = Some e \<Longrightarrow> e_topic e = t \<and> e_writer e = w \<and> e_seq e = n"
  unfolding pendingGet_def using find_Some_in [of "\<lambda>x. entryKey x = (t, w, n)" "sq_pending d" e]
  by (simp add: entryKey_def)

lemma inv_drainPending:
  "drainPending E now h via s = Inr s' \<Longrightarrow> core_inv E s \<Longrightarrow>
   h = storedHead E (lc_db s) (w_topic h, w_writer h) \<Longrightarrow> core_inv E s'"
proof (induction E now h via s rule: drainPending.induct)
  case (1 E now head via s)
  let ?n = "contigSeq head + 1"
  let ?s = "withDb (\<lambda>d. pendingDelete d (w_topic head) (w_writer head) ?n) s"
  show ?case
  proof (cases "pendingGet (lc_db s) (w_topic head) (w_writer head) ?n")
    case None
    then show ?thesis using 1(2,3) by (simp add: drainPending.simps [of E now head via s])
  next
    case (Some e)
    note key = pendingGet_key [OF Some]
    obtain b head' s1 where run: "verifyAndApply E now head e via ?s = Inr (b, head', s1)"
      and rest: "if b then drainPending E now head' via s1 = Inr s' else s1 = s'"
      using 1(2) Some by (auto simp: drainPending.simps [of E now head via s] split: sum.splits if_splits)
    have inv: "core_inv E ?s" using 1(3) by (rule inv_side_tables)
    have "storedHead E (lc_db ?s) = storedHead E (lc_db s)" by (rule storedHead_cong) simp
    then have h: "head = storedHead E (lc_db ?s) (e_topic e, e_writer e)" using 1(4) key by simp
    have seq: "e_seq e = contigSeq head + 1" using key by simp
    note va = inv_verifyAndApply [OF inv h seq run]
    show ?thesis
    proof (cases b)
      case True
      have "w_topic head' = e_topic e" "w_writer head' = e_writer e"
        using va(2) [OF True] va(1) stored_key by (auto simp: core_inv_def stream_ok_def)
      then show ?thesis
        using 1(1) [OF Some run refl refl True] rest True va by simp
    next
      case False
      then show ?thesis using va(1) rest by simp
    qed
  qed
qed

lemma inv_mergeClock: "core_inv E s \<Longrightarrow> core_inv E (mergeClock E now e s)"
  by (simp add: mergeClock_def inv_side_tables)

lemma inv_processAppend:
  assumes inv: "core_inv E s" and run: "processAppend E now it s = Inr s'"
  shows "core_inv E s'"
proof -
  obtain head s1 where gs: "getStream E (ai_topic it) (selfId E) s = (head, s1)" by fastforce
  note g = inv_getStream [OF inv gs]
  show ?thesis
  proof (cases "sealReason head \<noteq> None \<or> (\<exists>err. stamp (hlcState s1) now = Inl err)")
    case True
    then show ?thesis using run g(1) by (auto simp: processAppend_def gs split: sum.splits if_splits)
  next
    case False
    then obtain hs hlc where st: "stamp (hlcState s1) now = Inr (hs, hlc)"
      by (cases "stamp (hlcState s1) now") auto
    let ?s1 = "s1\<lparr>hlcState := hs\<rparr>" and ?seq = "Suc (contigSeq head)"
    obtain causal s2 where ca: "causalFor it ?seq ?s1 = (causal, s2)" by fastforce
    have s2: "lc_store s2 = lc_store s1" "heads s2 = heads s1" "certs s2 = certs s1" "floors s2 = floors s1"
      using ca by (auto simp: causalFor_def split: option.splits prod.splits)
    then have inv2: "core_inv E s2" using g(1) core_inv_cong [of s2 s1] by simp
    obtain chain where ch: "chainOf (prims E) (prevChainOf E head) (draftEntry E it ?seq hlc causal) = Inr chain"
      using run False by (auto simp: processAppend_def gs st ca rbind_eq_Inr Let_def)
    let ?e = "(draftEntry E it ?seq hlc causal)\<lparr>e_chain := chain\<rparr>"
    have same: "chainOf (prims E) p ?e = chainOf (prims E) p (draftEntry E it ?seq hlc causal)" for p
      by (simp add: chainOf_def chainParts_def)
    show ?thesis
    proof (cases "validateEntry (prims E) (constants E) (entry_js ?e)")
      case (Inl err)
      then have "s' = settle (RReject err) s2"
        using run False by (simp add: processAppend_def gs st ca ch orAbort_def Let_def)
      then show ?thesis using inv2 by simp
    next
      case (Inr v)
      then obtain head' s3 where app: "applyEntry E now head ?e None s2 = Inr (head', s3)"
        and s': "s' = settle (RAppend (entryKey ?e)) s3"
        using run False by (auto simp: processAppend_def gs st ca ch orAbort_def rbind_eq_Inr Let_def)
      have "head = storedHead E (lc_db s2) (e_topic ?e, e_writer ?e)"
        using g(2) s2(1) by (simp add: draftEntry_def)
      moreover have "e_seq ?e = contigSeq head + 1" by (simp add: draftEntry_def)
      moreover have "chainOf (prims E) (prevChainOf E head) ?e = Inr (e_chain ?e)" using ch same by simp
      ultimately show ?thesis using inv_applyEntry(1) [OF inv2 _ _ _ app] s' by simp
    qed
  qed
qed

section \<open>Removing a suffix\<close>

lemma dropFrom_fields [simp]:
  "lc_db (dropFrom t w n s) = (lc_db s)\<lparr>sq_log :=
     filter (\<lambda>r. \<not> (inStream t w r \<and> n \<le> e_seq (snd r))) (sq_log (lc_db s))\<rparr>"
  "heads (dropFrom t w n s) = heads s" "certs (dropFrom t w n s) = certs s" "floors (dropFrom t w n s) = floors s"
  by (simp_all add: dropFrom_def deleteLogRange_db)

lemma inv_delete:
  assumes "core_inv E s" "sq_log (db st) = filter P (sq_log (lc_db s))"
    "log_autoinc (db st) = log_autoinc (lc_db s)" "sq_writers (db st) = sq_writers (lc_db s)"
    "sq_finality (db st) = sq_finality (lc_db s)" "sq_floors (db st) = sq_floors (lc_db s)" "counts_ok st"
  shows "core_inv E (s\<lparr>lc_store := st\<rparr>)"
proof -
  have "stream_ok E (db st)"
    using assms(1) stream_ok_delete [OF _ assms(2-4)] by (simp add: core_inv_def)
  then show ?thesis
    using assms(1,7) storedHead_cong [OF assms(4)] reads_cong(6) [OF assms(5)] reads_cong(5) [OF assms(6)]
    by (simp add: core_inv_def headsCache.coherent_def certsCache.coherent_def floorsCache.coherent_def)
qed

lemma inv_dropFrom: "core_inv E s \<Longrightarrow> core_inv E (dropFrom t w n s)"
  unfolding dropFrom_def
  by (rule inv_delete [OF _ deleteLogRange_rows])
    (simp_all add: deleteLogRange_db core_inv_def counts_ok_deleteLogRange)

lemma quarantineAll_fields [simp]:
  "sq_log (lc_db (quarantineAll r now rows s)) = sq_log (lc_db s)"
  "sq_writers (lc_db (quarantineAll r now rows s)) = sq_writers (lc_db s)"
  "log_autoinc (lc_db (quarantineAll r now rows s)) = log_autoinc (lc_db s)"
  by (induction rows arbitrary: s) (simp_all add: quarantineAll_def)

lemma inv_quarantineAll: "core_inv E s \<Longrightarrow> core_inv E (quarantineAll r now rows s)"
proof (induction rows arbitrary: s)
  case (Cons x xs)
  have "core_inv E (withDb (\<lambda>d. quarantinePut d (snd x) r now) s)" using Cons.prems by (rule inv_side_tables)
  then show ?case using Cons.IH by (simp add: quarantineAll_def)
qed (simp add: quarantineAll_def)

lemma held_dropFrom: "held (lc_db (dropFrom t w n s)) e \<longleftrightarrow>
    held (lc_db s) e \<and> \<not> (e_topic e = t \<and> e_writer e = w \<and> n \<le> e_seq e)"
  by (auto simp: held_def inStream_def image_iff Bex_def)

text \<open>Cutting a stream back to \<open>n\<close> and saving a head with the chain of row \<open>n\<close>.\<close>

lemma inv_cut_save:
  assumes inv: "core_inv E s" and key: "w_topic h = t" "w_writer h = w" and contig: "contigSeq h = n"
    and chain: "\<And>e. held (lc_db s) e \<Longrightarrow> e_topic e = t \<Longrightarrow> e_writer e = w \<Longrightarrow> e_seq e = n \<Longrightarrow>
      e_chain e = contigChain h"
  shows "core_inv E (saveHead E now h (dropFrom t w (n + 1) s))"
proof (rule inv_saveHead)
  show "core_inv E (dropFrom t w (n + 1) s)" using inv by (rule inv_dropFrom)
  have pos: "held (lc_db s) e \<Longrightarrow> 1 \<le> e_seq e" for e
    using inv_stored_fits [OF inv, of "(e_topic e, e_writer e)"] by (auto simp: head_fits_def streamRow_def)
  show "head_fits (lc_db (dropFrom t w (n + 1) s)) (w_topic h, w_writer h) h"
    unfolding head_fits_def held_dropFrom using pos chain contig key by (auto simp: streamRow_def)
qed

section \<open>The recovery path\<close>

lemma rewindTo_spec:
  assumes inv: "core_inv E s" and h: "h = storedHead E (lc_db s) (e_topic e, e_writer e)"
    and pos: "1 \<le> e_seq e" and run: "rewindTo E now h e s = (h', s')"
  shows "core_inv E s'" "h' = storedHead E (lc_db s') (e_topic e, e_writer e)" "contigSeq h' = e_seq e - 1"
proof -
  let ?d = "entriesRange (lc_db s) (e_topic e) (e_writer e) (e_seq e) (contigSeq h)"
  let ?q = "quarantineAll ''canonicalized'' now ?d s"
  let ?s1 = "dropFrom (e_topic e) (e_writer e) (e_seq e) ?q"
  have key: "w_topic h = e_topic e" "w_writer h = e_writer e"
    using inv h stored_key by (auto simp: core_inv_def stream_ok_def)
  have h': "w_topic h' = e_topic e" "w_writer h' = e_writer e" "contigSeq h' = e_seq e - 1"
    and s': "s' = saveHead E now h' ?s1"
    using run key by (auto simp: rewindTo_def Let_def)
  have invq: "core_inv E ?q" using inv by (rule inv_quarantineAll)
  have "e_chain x = contigChain h'"
    if x: "held (lc_db ?q) x" "e_topic x = e_topic e" "e_writer x = e_writer e" "e_seq x = e_seq e - 1" for x
  proof -
    have xs: "1 \<le> e_seq x"
      using inv_stored_fits [OF invq, of "(e_topic x, e_writer x)"] x(1) by (auto simp: head_fits_def streamRow_def)
    have "held (lc_db ?s1) x" using x pos xs by (simp only: held_dropFrom) auto
    moreover have "log_table_ok (lc_db ?s1)"
      using inv_dropFrom [OF invq] by (simp add: core_inv_def stream_ok_def)
    ultimately have "getEntry (lc_db ?s1) (e_topic e) (e_writer e) (e_seq e - 1) = Some x"
      using held_getEntry x by metis
    then show ?thesis using run xs x(4) by (auto simp: rewindTo_def Let_def)
  qed
  moreover have "?s1 = dropFrom (e_topic e) (e_writer e) (e_seq e - 1 + 1) ?q" using pos by simp
  ultimately show "core_inv E s'"
    unfolding s' using inv_cut_save [OF invq h'(1,2,3)] by simp
  show "h' = storedHead E (lc_db s') (e_topic e, e_writer e)"
    unfolding s' by (simp add: storedHead_upsert h')
  show "contigSeq h' = e_seq e - 1" by (rule h'(3))
qed

lemma retireHead_simps [simp]:
  "contigSeq (retireHead g n fs fc h) = contigSeq h" "contigChain (retireHead g n fs fc h) = contigChain h"
  "w_topic (retireHead g n fs fc h) = w_topic h" "w_writer (retireHead g n fs fc h) = w_writer h"
  "sealReason (retireHead g n fs fc h) = Some SealRetired" "rgen (retireHead g n fs fc h) = g"
  "finalSeq (retireHead g n fs fc h) = Some fs" "finalChain (retireHead g n fs fc h) = Some fc"
  by (simp_all add: retireHead_def)

lemma inv_recoveryStep:
  assumes inv: "core_inv E s" and h: "h = storedHead E (lc_db s) (e_topic e, e_writer e)"
    and run: "recoveryStep E now h e target via s = Inr s'"
  shows "core_inv E s'"
proof (cases "e_seq e = contigSeq h + 1 \<and> chainOf (prims E) (prevChainOf E h) e = Inr (e_chain e)")
  case False
  then show ?thesis using run inv by (auto simp: recoveryStep_def rbind_eq_Inr split: if_splits)
next
  case True
  then obtain h' s1 where app: "applyEntry E now h e via s = Inr (h', s1)"
    and s': "s' = settle (RApply Applied) s1 \<or>
      s' = settle (RApply Applied) (forgetRecovery (e_topic e) (e_writer e)
             (saveHead E now (retireHead (rt_rgen target) now (rt_finalSeq target) (rt_finalChain target) h') s1))"
    using run by (auto simp: recoveryStep_def rbind_eq_Inr Let_def split: if_splits)
  note ap = inv_applyEntry [OF inv h _ _ app]
  then have "core_inv E s1" "h' = storedHead E (lc_db s1) (e_topic e, e_writer e)" using True by simp_all
  then have "core_inv E (saveHead E now (retireHead (rt_rgen target) now (rt_finalSeq target) (rt_finalChain target) h') s1)"
    by (rule inv_saveStored) simp_all
  then show ?thesis using s' \<open>core_inv E s1\<close> by auto
qed

lemma inv_recoveryIngest:
  assumes inv: "core_inv E s" and h: "h = storedHead E (lc_db s) (e_topic e, e_writer e)"
    and pos: "1 \<le> e_seq e" and run: "recoveryIngest E now h e target via s = Inr s'"
  shows "core_inv E s'"
proof (cases "e_seq e \<le> contigSeq h")
  case False
  then show ?thesis using run inv_recoveryStep [OF inv h] by (simp add: recoveryIngest_def)
next
  case True
  obtain h1 s1 where rw: "rewindTo E now h e s = (h1, s1)" by fastforce
  note sp = rewindTo_spec [OF inv h pos rw]
  show ?thesis
    using run True inv inv_recoveryStep [OF sp(1,2)] by (auto simp: recoveryIngest_def rw split: if_splits)
qed

lemma inv_processExternal:
  assumes inv: "core_inv E s" and pos: "1 \<le> e_seq e" and run: "processExternal E now e via s = Inr s'"
  shows "core_inv E s'"
proof -
  obtain head s1 where gs: "getStream E (e_topic e) (e_writer e) s = (head, s1)" by fastforce
  note g = inv_getStream [OF inv gs]
  show ?thesis
  proof (cases "sealReason head \<noteq> None")
    case True
    then show ?thesis
      using run g(1) inv_recoveryIngest [OF g(1,2) pos]
      by (auto simp: processExternal_def gs split: option.splits if_splits)
  next
    case open_: False
    obtain cert s2 where gc: "getCert (e_topic e) s1 = (cert, s2)" by fastforce
    note c = inv_getCert [OF g(1) gc]
    have h: "head = storedHead E (lc_db s2) (e_topic e, e_writer e)" using g(2) c(3) by simp
    note seal = inv_seal [OF c(1) h]
    consider (rej) "refusedByCert cert e" | (low) "\<not> refusedByCert cert e" "e_seq e \<le> contigSeq head"
      | (nxt) "\<not> refusedByCert cert e" "e_seq e = contigSeq head + 1"
      | (gap) "\<not> refusedByCert cert e" "contigSeq head + 1 < e_seq e" by linarith
    then show ?thesis
    proof cases
      case rej
      then show ?thesis using run open_ c(1) inv_side_tables(1)
        by (auto simp: processExternal_def gs gc)
    next
      case low
      then show ?thesis using run open_ c(1) seal
        by (auto simp: processExternal_def gs gc belowContig_def split: option.splits if_splits)
    next
      case nxt
      then obtain b h' s3 where va: "verifyAndApply E now head e via s2 = Inr (b, h', s3)"
        and rest: "if b then \<exists>s4. drainPending E now h' via (mergeClock E now e s3) = Inr s4 \<and>
            s' = settle (RApply Applied) s4 else s' = settle (RApply Forked) s3"
        using run open_ by (auto simp: processExternal_def gs gc extendStream_def rbind_eq_Inr split: if_splits)
      note v = inv_verifyAndApply [OF c(1) h nxt(2) va]
      show ?thesis
      proof (cases b)
        case True
        let ?m = "mergeClock E now e s3"
        have m: "core_inv E ?m" using v(1) by (rule inv_mergeClock)
        have "storedHead E (lc_db ?m) = storedHead E (lc_db s3)"
          by (rule storedHead_cong) (simp add: mergeClock_def)
        moreover have "w_topic h' = e_topic e" "w_writer h' = e_writer e"
          using v(1) v(2) [OF True] stored_key by (auto simp: core_inv_def stream_ok_def)
        ultimately show ?thesis
          using rest True v(2) inv_drainPending [OF _ m, of now h' via] by auto
      next
        case False
        then show ?thesis using rest v(1) by simp
      qed
    next
      case gap
      then show ?thesis using run open_ c(1) seal inv_side_tables(2) [OF c(1), of e] inv_mergeClock
        by (auto simp: processExternal_def gs gc bufferEntry_def split: option.splits if_splits)
    qed
  qed
qed

section \<open>Seals, certificates, directives\<close>

lemma inv_forkUnlessSealed:
  assumes "core_inv E s" "h = storedHead E (lc_db s) (t, w)"
  shows "core_inv E (forkUnlessSealed E now h s)"
  using inv_saveStored [OF assms, of "h\<lparr>sealReason := Some SealFork\<rparr>" now] assms(1)
  by (simp add: forkUnlessSealed_def)

lemma inv_processSeal:
  assumes "core_inv E s"
  shows "core_inv E (processSeal E now t w s)"
proof -
  obtain h s1 where gs: "getStream E t w s = (h, s1)" by fastforce
  note g = inv_getStream [OF assms gs]
  show ?thesis using inv_forkUnlessSealed [OF g(1,2)] by (simp add: processSeal_def gs)
qed

lemma inv_certWriter:
  assumes inv: "core_inv E s" and run: "certWriter E now cert w s = (n, s')"
  shows "core_inv E s'"
proof -
  let ?t = "cert_topic cert"
  obtain h s1 where gs: "getStream E ?t w s = (h, s1)" by fastforce
  note g = inv_getStream [OF inv gs]
  let ?cut = "coveredBy cert w"
  show ?thesis
  proof (cases "lastSeqAtOrBeforeOrder (lc_db s1) ?t w (cert_order cert) > ?cut")
    case False
    then show ?thesis
      using run g(1) inv_forkUnlessSealed [OF g(1,2)]
      by (auto simp: certWriter_def gs Let_def split: if_splits)
  next
    case True
    let ?q = "quarantineAll ''post_cut'' now (entriesRange (lc_db s1) ?t w (?cut + 1) (contigSeq h)) s1"
    define c where "c = certCutChain E cert w ?cut (lc_db s1)"
    obtain h1 where s': "s' = saveHead E now h1 (dropFrom ?t w (?cut + 1) ?q) \<or>
        s' = saveHead E now h1 (pushAnomaly (anomaly_stream A_writer_forked ?t w) (dropFrom ?t w (?cut + 1) ?q))"
      and h1: "w_topic h1 = ?t" "w_writer h1 = w" "contigSeq h1 = ?cut" "contigChain h1 = c"
    proof (cases "sealReason h = None")
      case None: True
      show thesis
        by (rule that [of "h\<lparr>contigSeq := ?cut, contigChain := c, sealReason := Some SealFork\<rparr>"])
          (use run True None g(4,5) in \<open>simp_all add: certWriter_def gs Let_def c_def\<close>)
    next
      case sealed: False
      show thesis
        by (rule that [of "h\<lparr>contigSeq := ?cut, contigChain := c\<rparr>"])
          (use run True sealed g(4,5) in \<open>simp_all add: certWriter_def gs Let_def c_def\<close>)
    qed
    have invq: "core_inv E ?q" using g(1) by (rule inv_quarantineAll)
    have chain: "e_chain x = contigChain h1"
      if x: "held (lc_db ?q) x" "e_topic x = ?t" "e_writer x = w" "e_seq x = ?cut" for x
    proof -
      have hs: "held (lc_db s1) x" using x(1) by (simp add: held_def)
      have "1 \<le> e_seq x"
        using inv_stored_fits [OF g(1), of "(e_topic x, e_writer x)"] hs by (auto simp: head_fits_def streamRow_def)
      moreover have "getEntry (lc_db s1) ?t w ?cut = Some x"
        using held_getEntry [of "lc_db s1" x] g(1) hs x by (simp add: core_inv_def stream_ok_def)
      ultimately show ?thesis using x(4) by (simp add: h1(4) c_def certCutChain_def)
    qed
    have "core_inv E (saveHead E now h1 (dropFrom ?t w (?cut + 1) ?q))"
      by (rule inv_cut_save [OF invq h1(1,2,3) chain])
    moreover have "core_inv E (saveHead E now h1 (pushAnomaly a (dropFrom ?t w (?cut + 1) ?q)))
        = core_inv E (saveHead E now h1 (dropFrom ?t w (?cut + 1) ?q))" for a
      by (rule core_inv_cong) (simp_all add: saveHead_def withDb_def Let_def)
    ultimately show ?thesis using s' by auto
  qed
qed

lemma inv_certWriters: "core_inv E s \<Longrightarrow> certWriters E now cert ws (n, s) = (n', s') \<Longrightarrow> core_inv E s'"
proof (induction ws arbitrary: n s)
  case (Cons w ws)
  obtain m s1 where cw: "certWriter E now cert w s = (m, s1)" by fastforce
  then show ?case using Cons inv_certWriter [OF Cons.prems(1) cw] by simp
qed simp

lemma inv_setCert:
  assumes "core_inv E s"
  shows "core_inv E ((withDb (\<lambda>d. finalitySet d cert) s)\<lparr>certs := (certs s)(cert_topic cert \<mapsto> Some cert)\<rparr>)"
proof -
  have "stream_ok E (finalitySet (lc_db s) cert) = stream_ok E (lc_db s)" by (rule stream_ok_cong) simp_all
  moreover have "storedHead E (finalitySet (lc_db s) cert) = storedHead E (lc_db s)"
    by (rule storedHead_cong) simp
  moreover have "floorGet (finalitySet (lc_db s) cert) = floorGet (lc_db s)" by (rule reads_cong(5)) simp
  moreover have "counts_ok (lc_store (withDb (\<lambda>d. finalitySet d cert) s)) = counts_ok (lc_store s)"
    by (simp add: withDb_def counts_ok_def countRows_def topicRows_def)
  ultimately show ?thesis
    using assms
    by (auto simp: core_inv_def headsCache.coherent_def certsCache.coherent_def floorsCache.coherent_def
        finalityTab.lookup_put withDb_def)
qed

lemma inv_processCert:
  assumes "core_inv E s"
  shows "core_inv E (processCert E now cert s)"
proof -
  let ?s1 = "withDb (\<lambda>d. finalitySet d cert) s"
  let ?s2 = "?s1\<lparr>certs := (certs ?s1)(cert_topic cert \<mapsto> Some cert),
      vectorsCache := map_option (certVec (cert_topic cert) (cert_generation cert)) (vectorsCache ?s1)\<rparr>"
  obtain n s3 where run: "certWriters E now cert
      (map w_writer (listWriters (lc_db ?s2) (Some (cert_topic cert)))) (0, ?s2) = (n, s3)" by fastforce
  have "core_inv E ?s2" using inv_setCert [OF assms, of cert] by simp
  then have "core_inv E s3" using run by (rule inv_certWriters)
  then show ?thesis unfolding processCert_def Let_def run by simp
qed

lemma directive_put_fields:
  assumes "core_inv E s" "h = storedHead E (lc_db s) k"
  shows "core_inv E (withDb (\<lambda>x. directivePut x t w g d) s)"
    "h = storedHead E (lc_db (withDb (\<lambda>x. directivePut x t w g d) s)) k"
proof -
  show "core_inv E (withDb (\<lambda>x. directivePut x t w g d) s)" using assms(1) by (rule inv_side_tables)
  have "storedHead E (lc_db (withDb (\<lambda>x. directivePut x t w g d) s)) = storedHead E (lc_db s)"
    by (rule storedHead_cong) simp
  then show "h = storedHead E (lc_db (withDb (\<lambda>x. directivePut x t w g d) s)) k" using assms(2) by simp
qed

lemma inv_retireStream:
  assumes inv: "core_inv E s" and h: "h = storedHead E (lc_db s) (d_topic d, d_writer d)"
  shows "core_inv E (retireStream E now d h s)"
proof -
  obtain fs fc where fin: "directiveFinal E d = (fs, fc)" by fastforce
  have key: "w_topic h = d_topic d" "w_writer h = d_writer d"
    using inv h stored_key by (auto simp: core_inv_def stream_ok_def)
  show ?thesis
  proof (cases "contigSeq h \<ge> fs \<and> localChainAt E d h fs (lc_db s) = Some fc")
    case False
    have "core_inv E (saveHead E now (h\<lparr>sealReason := Some SealFork\<rparr>) s)"
      by (rule inv_saveStored [OF inv h]) simp_all
    then show ?thesis using False inv by (auto simp: retireStream_def fin Let_def)
  next
    case True
    let ?q = "quarantineAll ''canonicalized'' now (entriesRange (lc_db s) (d_topic d) (d_writer d) (fs + 1) (contigSeq h)) s"
    let ?h = "retireHead (d_rgen d) now fs fc (h\<lparr>contigSeq := fs, contigChain := fc\<rparr>)"
    have invq: "core_inv E ?q" using inv by (rule inv_quarantineAll)
    have chain: "e_chain x = contigChain ?h"
      if x: "held (lc_db ?q) x" "e_topic x = d_topic d" "e_writer x = d_writer d" "e_seq x = fs" for x
    proof -
      have hs: "held (lc_db s) x" using x(1) by (simp add: held_def)
      have fits: "1 \<le> e_seq x" "e_seq x = contigSeq h \<longrightarrow> e_chain x = contigChain h"
        using inv_stored_fits [OF inv, of "(e_topic x, e_writer x)"] hs x(2,3) h
        by (auto simp: head_fits_def streamRow_def)
      moreover have "getEntry (lc_db s) (d_topic d) (d_writer d) fs = Some x"
        using held_getEntry [of "lc_db s" x] inv hs x by (simp add: core_inv_def stream_ok_def)
      ultimately show ?thesis using True x(4) by (auto simp: localChainAt_def split: if_splits)
    qed
    have "core_inv E (saveHead E now ?h (dropFrom (d_topic d) (d_writer d) (fs + 1) ?q))"
      by (rule inv_cut_save [OF invq _ _ _ chain]) (simp_all add: key)
    then show ?thesis using True by (simp add: retireStream_def fin Let_def)
  qed
qed

lemma inv_processDirective:
  assumes inv: "core_inv E s"
  shows "core_inv E (processDirective E now d s)"
proof -
  obtain h s1 where gs: "getStream E (d_topic d) (d_writer d) s = (h, s1)" by fastforce
  note g = inv_getStream [OF inv gs]
  note p = directive_put_fields [OF g(1,2), of "d_topic d" "d_writer d" "d_rgen d" d]
  have "core_inv E (saveHead E now (h\<lparr>sealReason := None, rgen := d_rgen d, retiredAt := None,
      finalSeq := None, finalChain := None\<rparr>) (withDb (\<lambda>x. directivePut x (d_topic d) (d_writer d) (d_rgen d) d) s1))"
    by (rule inv_saveStored [OF p]) simp_all
  then show ?thesis
    using g(1) p(1) inv_retireStream [OF p, of now] by (simp add: processDirective_def gs Let_def)
qed

section \<open>Adoption\<close>

text \<open>A head that jumps forward past every held row fits.\<close>

lemma inv_saveAhead:
  assumes inv: "core_inv E s" and h: "h = storedHead E (lc_db s) (t, w)"
    and "w_topic h' = t" "w_writer h' = w" "contigSeq h < contigSeq h'"
  shows "core_inv E (saveHead E now h' s)"
proof (rule inv_saveHead [OF inv])
  have "head_fits (lc_db s) (t, w) h" using inv_stored_fits [OF inv] h by simp
  then have "1 \<le> e_seq x \<and> e_seq x < contigSeq h'" if "held (lc_db s) x" "streamRow (t, w) x" for x
    using that assms(5) unfolding head_fits_def by fastforce
  then show "head_fits (lc_db s) (w_topic h', w_writer h') h'"
    unfolding head_fits_def assms(3,4) by (metis less_imp_le less_irrefl)
qed

lemma inv_adoptCuts: "core_inv E s \<Longrightarrow> core_inv E (adoptCuts E now t cuts s)"
proof (induction E now t cuts s rule: adoptCuts.induct)
  case (2 E now t w n c cuts s)
  obtain h s1 where gs: "getStream E t w s = (h, s1)" by fastforce
  note g = inv_getStream [OF 2(2) gs]
  let ?s = "if contigSeq h < n then saveHead E now (h\<lparr>contigSeq := n, contigChain := c\<rparr>) s1 else s1"
  have "core_inv E ?s" using g inv_saveAhead [OF g(1,2)] by simp
  then show ?case using 2(1) [OF gs [symmetric]] by (simp add: gs)
qed simp

lemma adoptHead_simps [simp]:
  "w_topic (adoptHead now tg n c h) = w_topic h" "w_writer (adoptHead now tg n c h) = w_writer h"
  "contigSeq (adoptHead now tg n c h) = n" "contigChain (adoptHead now tg n c h) = c"
  by (simp_all add: adoptHead_def Let_def split: option.split)

lemma inv_floorWrite:
  assumes "core_inv E s"
  shows "core_inv E ((withDb (\<lambda>d. floorSet d t w n c now) s)\<lparr>floors := (floors s)((t, w) := None)\<rparr>)"
    "floorGet (floorSet (lc_db s) t w n c now) t w = v \<Longrightarrow>
      core_inv E ((withDb (\<lambda>d. floorSet d t w n c now) s)\<lparr>floors := (floors s)((t, w) \<mapsto> v)\<rparr>)"
proof -
  let ?d = "floorSet (lc_db s) t w n c now"
  have fl: "floorGet ?d t' w' = floorGet (lc_db s) t' w'" if "(t', w') \<noteq> (t, w)" for t' w'
    using that by (auto simp: floorGet_def floorSet_def map_of_alist_update split: option.split)
  have "stream_ok E ?d = stream_ok E (lc_db s)" by (rule stream_ok_cong) simp_all
  moreover have "storedHead E ?d = storedHead E (lc_db s)" by (rule storedHead_cong) simp
  moreover have "finalityGet ?d = finalityGet (lc_db s)" by (rule reads_cong(6)) simp
  moreover have "counts_ok (lc_store (withDb (\<lambda>d. floorSet d t w n c now) s)) = counts_ok (lc_store s)"
    by (simp add: withDb_def counts_ok_def countRows_def topicRows_def)
  ultimately show "core_inv E ((withDb (\<lambda>d. floorSet d t w n c now) s)\<lparr>floors := (floors s)((t, w) := None)\<rparr>)"
    "floorGet ?d t w = v \<Longrightarrow>
      core_inv E ((withDb (\<lambda>d. floorSet d t w n c now) s)\<lparr>floors := (floors s)((t, w) \<mapsto> v)\<rparr>)"
    using assms fl
    by (auto simp: core_inv_def headsCache.coherent_def certsCache.coherent_def floorsCache.coherent_def withDb_def)
qed

lemma inv_processAdoptFloor:
  assumes inv: "core_inv E s" and run: "processAdoptFloor E now t w n c s = Inr s'"
  shows "core_inv E s'"
proof -
  obtain h s1 where gs: "getStream E t w s = (h, s1)" by fastforce
  note g = inv_getStream [OF inv gs]
  let ?tg = "recoveries s1 (t, w)"
  let ?h = "adoptHead now ?tg n c h"
  let ?s1 = "case ?tg of Some x \<Rightarrow> if n = rt_finalSeq x then forgetRecovery t w s1 else s1 | None \<Rightarrow> s1"
  let ?s2 = "withDb (\<lambda>d. floorSet d t w n c now) (saveHead E now ?h ?s1)"
  let ?s4 = "withDb (\<lambda>d. deletePendingUpTo d t w n) (?s2\<lparr>floors := (floors ?s2)((t, w) := None)\<rparr>)"
  let ?s5 = "(pushAnomaly (anomaly_stream A_floor_adopted t w) ?s4)
      \<lparr>retStats := ret_bump (retStats (pushAnomaly (anomaly_stream A_floor_adopted t w) ?s4)) t K_floorsAdopted 1\<rparr>"
  consider (same) "s' \<in> {settle (RFloor FloorRefused) s, settle (RFloor FloorNoop) s1, settle (RFloor FloorRefused) s1}"
    | (go) s6 where "contigSeq h < n" "s' = settle (RFloor FloorAdopted) s6"
        "(if sealReason ?h = None then drainPending E now ?h None ?s5 else Inr ?s5) = Inr s6"
    using run unfolding processAdoptFloor_def Let_def gs prod.case rbind_eq_Inr
    by (auto simp: not_le rbind_eq_Inr split: if_splits)
  then show ?thesis
  proof cases
    case same
    then show ?thesis using inv g(1) by auto
  next
    case go
    have st: "core_inv E ?s1" "lc_store ?s1 = lc_store s1"
      using g(1) by (auto simp: forgetRecovery_def split: option.split)
    have hs: "h = storedHead E (lc_db ?s1) (t, w)" using g(2) st(2) by simp
    have "core_inv E (saveHead E now ?h ?s1)"
      by (rule inv_saveAhead [OF st(1) hs]) (use g(4,5) go(1) in simp_all)
    then have "core_inv E (?s2\<lparr>floors := (floors (saveHead E now ?h ?s1))((t, w) := None)\<rparr>)"
      by (rule inv_floorWrite(1))
    then have "core_inv E (?s2\<lparr>floors := (floors ?s2)((t, w) := None)\<rparr>)" by simp
    then have s4: "core_inv E ?s4" by (rule inv_side_tables)
    have "sq_writers (lc_db ?s5) = sq_writers (upsertWriter (lc_db ?s1) ?h)" by (simp add: withDb_def)
    then have "storedHead E (lc_db ?s5) (t, w) = ?h"
      using storedHead_cong [of "lc_db ?s5" "upsertWriter (lc_db ?s1) ?h" E] g(4,5)
      by (simp add: storedHead_upsert)
    then show ?thesis
      using go(2,3) s4 g(4,5) inv_drainPending [of E now ?h None ?s5 s6] by (auto split: if_splits)
  qed
qed

end
