(* ===== verification/Log_Reach.thy ===== *)
theory Log_Reach
  imports Log_Preserve
begin

text \<open>
  The pruning handlers keep the invariant too; with that, so does every flush. The reachable
  states of the queue are an inductive relation over pushes, flushes (failing ones included),
  the lazily cached reads and the writes other components make between flushes.
\<close>

section \<open>Writer-row collection\<close>

lemma inv_dropWriter:
  assumes inv: "core_inv E s" and none: "\<And>e. held (lc_db s) e \<Longrightarrow> e_topic e \<noteq> t"
  shows "core_inv E ((withDb (\<lambda>d. deleteWriter d t w) s)\<lparr>heads := (heads s)((t, w) := None)\<rparr>)"
proof -
  let ?d = "deleteWriter (lc_db s) t w"
  have [simp]: "held ?d = held (lc_db s)" by (rule held_cong) simp
  have stored: "storedHead E ?d k = (if k = (t, w) then freshHead E t w else storedHead E (lc_db s) k)" for k
    by (cases k) (auto simp: storedHead_def getWriter_delete)
  have "stream_ok E ?d"
  proof -
    have "log_table_ok ?d"
      using inv log_table_ok_cong [of ?d "lc_db s"] by (simp add: core_inv_def stream_ok_def)
    moreover have "writers_keyed ?d"
      using inv by (auto simp: core_inv_def stream_ok_def writers_keyed_def getWriter_delete)
    moreover have "head_fits ?d k (storedHead E ?d k)" for k
    proof (cases "k = (t, w)")
      case True
      then show ?thesis using none by (auto simp: head_fits_def streamRow_def)
    next
      case False
      then show ?thesis using inv_stored_fits [OF inv, of k] by (simp add: head_fits_def stored)
    qed
    moreover have "chain_linked E ?d"
      using inv by (simp add: core_inv_def stream_ok_def chain_linked_def)
    ultimately show ?thesis unfolding stream_ok_def by blast
  qed
  moreover have "finalityGet ?d = finalityGet (lc_db s)" "floorGet ?d = floorGet (lc_db s)"
    by (rule reads_cong; simp)+
  moreover have "counts_ok (lc_store (withDb (\<lambda>d. deleteWriter d t w) s)) = counts_ok (lc_store s)"
    by (simp add: withDb_def counts_ok_def countRows_def topicRows_def)
  ultimately show ?thesis
    using inv by (simp add: core_inv_def headsCache.coherent_def certsCache.coherent_def
        floorsCache.coherent_def stored withDb_def)
qed

lemma inv_dropWriters:
  assumes "core_inv E s" "\<And>e. held (lc_db s) e \<Longrightarrow> e_topic e \<noteq> t"
  shows "core_inv E (dropWriters t ws s)"
  using assms
proof (induction ws arbitrary: s)
  case (Cons w ws)
  let ?s = "(withDb (\<lambda>d. deleteWriter d t w) s)\<lparr>heads := (heads s)((t, w) := None)\<rparr>"
  have "held (lc_db ?s) = held (lc_db s)" by (rule held_cong) (simp add: withDb_def)
  then have "core_inv E (dropWriters t ws ?s)"
    using Cons.prems by (intro Cons.IH inv_dropWriter) auto
  then show ?case by (simp add: dropWriters_def)
qed (simp add: dropWriters_def)

lemma countRows_0: "countRows d t = 0 \<Longrightarrow> held d e \<Longrightarrow> e_topic e \<noteq> t"
  by (auto simp: countRows_def topicRows_def inTopic_def held_def filter_empty_conv)

lemma inv_countRead:
  assumes "core_inv E s" "logCount (lc_store s) t = (n, st)"
  shows "core_inv E (s\<lparr>lc_store := st\<rparr>)" "n = countRows (lc_db s) t" "db st = lc_db s"
proof -
  note c = logCount_counts [OF _ assms(2)]
  show "core_inv E (s\<lparr>lc_store := st\<rparr>)" "n = countRows (lc_db s) t" "db st = lc_db s"
    using assms(1) c
    by (auto simp: core_inv_def headsCache.coherent_def certsCache.coherent_def floorsCache.coherent_def)
qed

lemma inv_processRetireTopic:
  assumes inv: "core_inv E s" and run: "processRetireTopic E now t s = Inr s'"
  shows "core_inv E s'"
proof -
  obtain n st where lc: "logCount (lc_store s) t = (n, st)" by fastforce
  note c = inv_countRead [OF inv lc]
  let ?s1 = "s\<lparr>lc_store := st\<rparr>"
  let ?ws = "map w_writer (listWriters (lc_db ?s1) (Some t))"
  let ?s2 = "journalRing t (dropWriters t ?ws ?s1)"
  have "core_inv E ?s2" if "n = 0"
    using inv_dropWriters [OF c(1), of t] countRows_0 c(2,3) that by simp
  moreover have "s' \<in> {settle (RReject ERR_MISUSE) s, settle (RReject ERR_MISUSE) ?s1} \<or>
      n = 0 \<and> s' = settle (RRetired (length ?ws)) (?s2\<lparr>rings := (rings ?s2)(t := None),
          vectorsCache := map_option (AList.delete t) (vectorsCache ?s2)\<rparr>)"
    using run unfolding processRetireTopic_def Let_def lc prod.case rbind_eq_Inr
    by (auto split: if_splits)
  ultimately show ?thesis using inv c(1) by auto
qed

section \<open>Pruning\<close>

lemma inv_processPruneTopic:
  assumes inv: "core_inv E s" and run: "processPruneTopic E now t older keep s = Inr s'"
  shows "core_inv E s'"
proof -
  let ?below = "min (cursorFloor (lc_db s) t MAX_SAFE_INTEGER) (keepNewestFloor (lc_db s) t keep) - 1"
  obtain n st where del: "deleteLogRowsUpToRowid (lc_store s) t ?below (hlcBound now older) = (n, st)"
    by fastforce
  have table: "log_table_ok (db (lc_store s))" using inv by (simp add: core_inv_def stream_ok_def)
  note sp = deleteLogRowsUpToRowid_spec [OF table del]
  have "s' \<in> {settle (RReject ERR_MISUSE) s, settle (RPruned 0) s} \<or> s' = settle (RPruned n) (s\<lparr>lc_store := st\<rparr>)"
    using run unfolding processPruneTopic_def Let_def del prod.case rbind_eq_Inr by (auto split: if_splits)
  moreover have "core_inv E (s\<lparr>lc_store := st\<rparr>)"
  proof (rule inv_delete [OF inv sp(1)])
    show "counts_ok st" using sp(4) inv by (simp add: core_inv_def)
  qed (subst sp(3), simp)+
  ultimately show ?thesis using inv by auto
qed

lemma deleteLogRowids_db:
  "db (deleteLogRowids st t ids) = (db st)\<lparr>sq_log := filter (\<lambda>r. \<not> (fst r \<in> set ids \<and> inTopic t r)) (sq_log (db st))\<rparr>"
  by (simp add: deleteLogRowids_def Let_def)

lemma inv_deleteLogRowids: "core_inv E s \<Longrightarrow> core_inv E (s\<lparr>lc_store := deleteLogRowids (lc_store s) t ids\<rparr>)"
  by (rule inv_delete [OF _ deleteLogRowids_rows])
    (simp_all add: deleteLogRowids_db core_inv_def counts_ok_deleteLogRowids)

lemma inv_pruneDrop:
  "core_inv E (s\<lparr>lc_store := snd (snd b)\<rparr>) \<Longrightarrow> core_inv E (s\<lparr>lc_store := snd (snd (pruneDrop t ids b))\<rparr>)"
  using inv_deleteLogRowids [of E "s\<lparr>lc_store := snd (snd b)\<rparr>" t ids]
  by (simp add: pruneDrop_def split_beta)

lemma inv_processPruneSuperseded:
  assumes inv: "core_inv E s" and run: "processPruneSuperseded E t hi maxRows others s = Inr s'"
  shows "core_inv E s'"
proof -
  have pass: "core_inv E (s\<lparr>lc_store := snd (snd (supersedePass self t tk fl hi others b))\<rparr>)"
    if "core_inv E (s\<lparr>lc_store := snd (snd b)\<rparr>)" for self tk fl b
    using that unfolding supersedePass_def Let_def by (auto intro!: inv_pruneDrop)
  have "core_inv E (s\<lparr>lc_store := snd (snd (maxRows, 0 :: nat, lc_store s))\<rparr>)" using inv by simp
  note p = pass [OF this]
  obtain te where te: "reg_get (registry E) t = Inr te"
    using run by (auto simp: processPruneSuperseded_def rbind_eq_Inr)
  show ?thesis
  proof (cases "p_keyed (te_policy te)")
    case None
    then show ?thesis using run inv te by (auto simp: processPruneSuperseded_def orAbort_def)
  next
    case (Some k)
    let ?tk = "case tombstoneKindOf k of Some x \<Rightarrow> x | None \<Rightarrow> []"
    obtain budget pruned st where pass: "supersedePass (selfId E) t ?tk (cursorFloor (lc_db s) t hi) hi others
        (maxRows, 0, lc_store s) = (budget, pruned, st)"
      by (metis prod_cases3)
    show ?thesis
      using run inv p [of "selfId E" ?tk "cursorFloor (lc_db s) t hi"]
      by (auto simp: processPruneSuperseded_def orAbort_def te Some Let_def pass split: if_splits)
  qed
qed

lemma inv_deletePrefix:
  assumes "core_inv E s"
  shows "core_inv E (s\<lparr>lc_store := deleteStreamPrefix (lc_store s) t w n\<rparr>)"
proof (rule inv_delete [OF assms, where P = "\<lambda>r. \<not> (inStream t w r \<and> e_seq (snd r) \<le> n)"])
  show "counts_ok (deleteStreamPrefix (lc_store s) t w n)"
    using assms by (intro counts_ok_deleteStreamPrefix) (simp add: core_inv_def)
qed (simp_all add: deleteStreamPrefix_def)

lemma inv_ackedDelete:
  assumes inv: "core_inv E s" and prev: "(case floorGet (lc_db s) t w of None \<Rightarrow> 0 | Some (n, _) \<Rightarrow> n) = p"
    and run: "ackedDelete now t w p n rep s = Inr (rep', s')"
  shows "core_inv E s'"
proof (cases "n > p")
  case False
  then show ?thesis using run inv_deletePrefix [OF inv] by (auto simp: ackedDelete_def)
next
  case True
  then obtain chain where s': "s' = (let s2 = (withDb (\<lambda>d. floorSet d t w n chain now) s)
      \<lparr>floors := (floors s)((t, w) \<mapsto> Some (n, chain))\<rparr>
      in s2\<lparr>lc_store := deleteStreamPrefix (lc_store s2) t w n\<rparr>)"
    using run by (auto simp: ackedDelete_def rbind_eq_Inr Let_def split: option.splits)
  have "floorGet (floorSet (lc_db s) t w n chain now) t w = Some (n, chain)"
    using True prev
    by (auto simp: floorGet_def floorSet_def map_of_alist_update split: option.splits if_splits)
  then show ?thesis
    unfolding s' Let_def using inv_floorWrite(2) [OF inv, of t w n chain now "Some (n, chain)"]
    by (intro inv_deletePrefix) simp
qed

lemma inv_ackedStream:
  assumes inv: "core_inv E s" and run: "ackedStream now t opts cf afs sv (rn, s) = Inr (rn', s')"
  shows "core_inv E s'"
proof -
  obtain prev s1 where fo: "floorOf t (sv_writer sv) s = (prev, s1)" by fastforce
  note f = inv_floorOf [OF inv fo]
  have "s' = s1 \<or> (\<exists>p n rep rep'. (case floorGet (lc_db s1) t (sv_writer sv) of None \<Rightarrow> 0 | Some (n, _) \<Rightarrow> n) = p \<and>
      ackedDelete now t (sv_writer sv) p n rep s1 = Inr (rep', s'))"
    using run f(2,3) by (auto simp: ackedStream_def fo Let_def rbind_eq_Inr split: prod.splits if_splits)
  then show ?thesis using f(1) inv_ackedDelete by blast
qed

lemma inv_ackedStreams:
  "ackedStreams now t opts cf afs svs (rn, s) = Inr (rn', s') \<Longrightarrow> core_inv E s \<Longrightarrow> core_inv E s'"
proof (induction svs arbitrary: rn s)
  case (Cons sv svs)
  then obtain rn1 s1 where "ackedStream now t opts cf afs sv (rn, s) = Inr (rn1, s1)"
    "ackedStreams now t opts cf afs svs (rn1, s1) = Inr (rn', s')" by (auto simp: rbind_eq_Inr)
  then show ?case using Cons.IH inv_ackedStream [OF Cons.prems(2)] by blast
qed simp

lemma inv_headsOf: "headsOf E t ws s = (hs, s') \<Longrightarrow> core_inv E s \<Longrightarrow>
    core_inv E s' \<and> lc_store s' = lc_store s \<and> hs = map (\<lambda>w. storedHead E (lc_db s) (t, w)) ws \<and>
    recoveries s' = recoveries s"
proof (induction ws arbitrary: hs s)
  case (Cons w ws)
  obtain h s1 where gs: "getStream E t w s = (h, s1)" by fastforce
  obtain hs1 where r: "headsOf E t ws s1 = (hs1, s')" "hs = h # hs1"
    using Cons.prems(1) by (auto simp: gs split: prod.splits)
  show ?case
    using Cons.IH [OF r(1)] inv_getStream [OF Cons.prems(2) gs] getStream_frame [OF gs] r(2) by simp
qed simp

lemma inv_forgetNodes: "core_inv E s \<Longrightarrow> core_inv E (forgetNodes t ns s)"
  by (induction ns arbitrary: s) (simp_all add: forgetNodes_def inv_side_tables(8))

lemma planMembers_fields:
  assumes "planMembers d t opts svs self now = (d', plan)"
  shows "sq_log d' = sq_log d" "log_autoinc d' = log_autoinc d" "sq_writers d' = sq_writers d"
    "sq_finality d' = sq_finality d" "sq_floors d' = sq_floors d" "sq_cursors d' = sq_cursors d"
  using assms planLoop_frame [of d t opts svs "ackNodes d t" now "memberNames (ackNodes d t) opts svs self" d]
  by (auto simp: planMembers_def Let_def dest!: arg_cong [where f = fst])

lemma inv_processPruneAcked:
  assumes inv: "core_inv E s" and run: "processPruneAcked E now t opts maxRows s = Inr s'"
  shows "core_inv E s'"
proof -
  obtain svs s1 where sv: "streamViews E t s = (svs, s1)" by fastforce
  obtain hs where ho: "headsOf E t (map w_writer (listWriters (lc_db s) (Some t))) s = (hs, s1)"
    using sv by (auto simp: streamViews_def split: prod.splits)
  have i1: "core_inv E s1" using inv_headsOf [OF ho inv] by blast
  obtain d' plan where pm: "planMembers (lc_db s1) t opts svs (selfId E) now = (d', plan)" by fastforce
  note fr = planMembers_fields [OF pm]
  have i2: "core_inv E (withDb (\<lambda>_. d') s1)" by (rule inv_withDb [OF i1]) (simp_all add: fr)
  obtain refused where "ackedRetentionRefusal (registry E) t = Inr refused"
    using run by (auto simp: processPruneAcked_def rbind_eq_Inr)
  then consider "s' = settle (RReject ERR_MISUSE) s"
    | rn s3 where "ackedStreams now t opts (cursorFloor d' t MAX_SAFE_INTEGER) (ackFloors d' t svs (mp_included plan)) svs
          (\<lparr>rn_budget = maxRows, rn_pruned = 0, rn_more = False, rn_writers = []\<rparr>, withDb (\<lambda>_. d') s1) = Inr (rn, s3)"
        "s' = finishAcked t opts plan rn s3"
    using run by (auto simp: processPruneAcked_def sv pm Let_def rbind_eq_Inr orAbort_def split: if_splits)
  then show ?thesis
  proof cases
    case 1
    then show ?thesis using inv by simp
  next
    case 2
    then show ?thesis using inv_ackedStreams [OF 2(1) i2] by (simp add: finishAcked_def Let_def inv_forgetNodes)
  qed
qed

section \<open>The flush\<close>

text \<open>What the preflight of \<open>applyExternal\<close> establishes and the handlers rely on.\<close>

definition item_ok :: "QueueItem \<Rightarrow> bool" where
  "item_ok item = (case item of QExternal e via \<Rightarrow> 1 \<le> e_seq e | _ \<Rightarrow> True)"

lemma preExternal_ok: "preExternal E c e via = Inr item \<Longrightarrow> item_ok item"
  by (auto simp: preExternal_def item_ok_def rbind_eq_Inr validateEntry_roundtrip wf_entry_def split: if_splits)

lemma inv_processItem:
  assumes inv: "core_inv E s" and ok: "item_ok item" and run: "processItem E now item s = Inr s'"
  shows "core_inv E s'"
  using run ok
  by (cases item)
    (auto simp: processItem_def item_ok_def processAdopt_def
      intro: inv_processAppend [OF inv] inv_processExternal [OF inv] inv_processSeal [OF inv]
        inv_processCert [OF inv] inv_processDirective [OF inv] inv_adoptCuts [OF inv]
        inv_processRetireTopic [OF inv] inv_processPruneTopic [OF inv] inv_processPruneSuperseded [OF inv]
        inv_processPruneAcked [OF inv] inv_processAdoptFloor [OF inv])

lemma inv_runItems:
  "runItems E clk batch s = Inr s' \<Longrightarrow> core_inv E s \<Longrightarrow> list_all (\<lambda>p. item_ok (snd p)) batch \<Longrightarrow> core_inv E s'"
proof (induction batch arbitrary: s)
  case (Cons p batch)
  obtain i item where p: "p = (i, item)" by (cases p)
  obtain s1 where s1: "processItem E (clk i) item s = Inr s1" "runItems E clk batch s1 = Inr s'"
    using Cons.prems(1) by (auto simp: p rbind_eq_Inr)
  moreover have "item_ok item" using Cons.prems(3) p by simp
  ultimately have "core_inv E s1" using inv_processItem [OF Cons.prems(2)] by blast
  then show ?case using Cons.IH [OF s1(2)] Cons.prems(3) by simp
qed simp

lemma inv_begin: "core_inv E s \<Longrightarrow> core_inv E (beginFlush s)"
  using core_inv_cong [of "beginFlush s" s] by (simp add: beginFlush_def)

lemma inv_flushTxn:
  assumes "core_inv E s" "list_all (\<lambda>p. item_ok (snd p)) batch" "flushTxn E clk fault batch s = Inr s'"
  shows "core_inv E (commitFlush s')"
proof -
  obtain s1 where run: "runItems E clk batch s = Inr s1" and s': "s' = withDb (\<lambda>d. metaSetHlc d (hlcState s1)) s1"
    using assms(3) by (auto simp: flushTxn_def rbind_eq_Inr split: option.splits)
  have "core_inv E s1" using inv_runItems [OF run assms(1,2)] .
  then have "core_inv E s'" unfolding s' by (rule inv_side_tables)
  then show ?thesis using core_inv_cong [of "commitFlush s'" s'] by (simp add: commitFlush_def)
qed

text \<open>The part of the invariant that an abort cannot disturb.\<close>

definition tables_inv :: "LogEnv \<Rightarrow> LogCore \<Rightarrow> bool" where
  "tables_inv E s \<longleftrightarrow> stream_ok E (lc_db s) \<and> heads_ok E s \<and> certs_ok s \<and> floors_ok s"

lemma tables_rollback: "stream_ok E (lc_db s0) \<Longrightarrow> tables_inv E (rollback s0 s)"
  by (simp add: tables_inv_def rollback_def headsCache.coherent_def certsCache.coherent_def
      floorsCache.coherent_def)

section \<open>Reachable states\<close>

text \<open>
  A log core runs as its queue is filled and flushed. \<open>aborted\<close> is a flush whose
  transaction failed, at any item or at commit; its side condition is that the row-count cache,
  which the code does not roll back, is not left stale. \<open>restart\<close> opens the tables in a new
  process. \<open>other\<close> is a write of another component (cursors, checkpoints,
  acknowledgments, annotations) in its own transaction; \<open>read_head\<close>, \<open>read_cert\<close> and
  \<open>read_floor\<close> are the lazily cached reads.
\<close>

definition reopen :: "Store \<Rightarrow> Store" where
  "reopen st = st\<lparr>logCounts := Map.empty, archiveCounts := Map.empty\<rparr>"

inductive core_step :: "LogEnv \<Rightarrow> LogQueue \<Rightarrow> LogQueue \<Rightarrow> bool" for E where
  enqueue: "\<not> q_closed q \<Longrightarrow> item_ok item \<Longrightarrow> core_step E q (push E item q)"
| flushed: "flushTxn E clk None (q_items q) (beginFlush (q_core q)) = Inr s \<Longrightarrow>
    core_step E q (flush E clk None q)"
| aborted: "flushTxn E clk fault (q_items q) (beginFlush (q_core q)) = Inl (err, s) \<Longrightarrow>
    counts_ok (lc_store s\<lparr>db := lc_db (q_core q)\<rparr>) \<Longrightarrow> core_step E q (flush E clk fault q)"
| restart: "core_step E q (newQueue (reopen (lc_store (q_core q))))"
| close: "core_step E q (closeQueue q)"
| read_head: "core_step E q (q\<lparr>q_core := snd (getStream E t w (q_core q))\<rparr>)"
| read_cert: "core_step E q (q\<lparr>q_core := snd (getCert t (q_core q))\<rparr>)"
| read_floor: "core_step E q (q\<lparr>q_core := snd (floorOf t w (q_core q))\<rparr>)"
| other: "(\<And>d. sq_log (f d) = sq_log d \<and> log_autoinc (f d) = log_autoinc d \<and> sq_writers (f d) = sq_writers d \<and>
      sq_finality (f d) = sq_finality d \<and> sq_floors (f d) = sq_floors d) \<Longrightarrow>
    core_step E q (q\<lparr>q_core := withDb f (q_core q)\<rparr>)"

inductive core_reach :: "LogEnv \<Rightarrow> LogQueue \<Rightarrow> bool" for E where
  fresh: "core_reach E (newQueue empty_store)"
| step: "core_reach E q \<Longrightarrow> core_step E q q' \<Longrightarrow> core_reach E q'"

definition queue_inv :: "LogEnv \<Rightarrow> LogQueue \<Rightarrow> bool" where
  "queue_inv E q \<longleftrightarrow> core_inv E (q_core q) \<and> list_all (\<lambda>p. item_ok (snd p)) (q_items q)"

lemma queue_inv_new: "queue_inv E (newQueue empty_store)"
  by (simp add: queue_inv_def newQueue_def LogCore_new_def core_inv_def stream_ok_def empty_store_def
      writers_keyed_def head_fits_def chain_linked_def held_def empty_db_def getWriter_def
      headsCache.coherent_def certsCache.coherent_def floorsCache.coherent_def counts_ok_def log_table_ok_def)

lemma queue_inv_step:
  assumes "core_step E q q'" "queue_inv E q"
  shows "queue_inv E q'"
  using assms
proof (cases rule: core_step.cases)
  case (enqueue item)
  then show ?thesis using assms(2) by (auto simp: queue_inv_def push_def Let_def)
next
  case (flushed clk s)
  then show ?thesis
    using assms(2) inv_flushTxn [OF inv_begin _ flushed(2)]
    by (auto simp: queue_inv_def flush_def Let_def rejectQueueClosed_def)
next
  case (aborted clk fault err s)
  have "stream_ok E (lc_db (beginFlush (q_core q)))"
    using assms(2) by (simp add: queue_inv_def core_inv_def beginFlush_def)
  then have "tables_inv E (rollback (beginFlush (q_core q)) s)" by (rule tables_rollback)
  then have "core_inv E (rollback (beginFlush (q_core q)) s)"
    using aborted(3) by (simp add: tables_inv_def core_inv_def rollback_def beginFlush_def)
  then show ?thesis
    using assms(2) aborted(1,2) by (auto simp: queue_inv_def flush_def Let_def rejectQueueClosed_def)
next
  case restart
  then show ?thesis
    using assms(2)
    by (simp add: queue_inv_def newQueue_def LogCore_new_def reopen_def core_inv_def counts_ok_def
        headsCache.coherent_def certsCache.coherent_def floorsCache.coherent_def)
next
  case close
  then show ?thesis using assms(2) by (simp add: queue_inv_def closeQueue_def rejectQueueClosed_def)
next
  case (read_head t w)
  then show ?thesis
    using assms(2) inv_getStream(1) [of E "q_core q" t w] by (cases "getStream E t w (q_core q)") (auto simp: queue_inv_def)
next
  case (read_cert t)
  then show ?thesis
    using assms(2) inv_getCert(1) [of E "q_core q" t] by (cases "getCert t (q_core q)") (auto simp: queue_inv_def)
next
  case (read_floor t w)
  then show ?thesis
    using assms(2) inv_floorOf(1) [of E "q_core q" t w] by (cases "floorOf t w (q_core q)") (auto simp: queue_inv_def)
next
  case (other f)
  then show ?thesis using assms(2) inv_withDb [of E "q_core q" f] by (auto simp: queue_inv_def)
qed

lemma reach_inv: "core_reach E q \<Longrightarrow> queue_inv E q"
  by (induction rule: core_reach.induct) (auto intro: queue_inv_new queue_inv_step)

lemmas reach_core = reach_inv [unfolded queue_inv_def, THEN conjunct1]

end
