(* ===== verification/Log_Demo.thy ===== *)
theory Log_Demo
  imports Log_Reach
begin

text \<open>
  A small concrete node on which the properties of the log are instantiated: a constant
  64-digit hash, a canonicalizer with one output, one full-sync append topic \<open>t\<close> and one keyed
  topic \<open>k\<close>.
\<close>

definition demo_hash :: string where
  "demo_hash = replicate 64 (CHR ''a'')"

definition demo_lib :: Prims where
  "demo_lib = \<lparr>canonicalizeLib = (\<lambda>v. Some ''{}''), sha256Hex = (\<lambda>s. demo_hash)\<rparr>"

definition keyed_policy :: TopicPolicy where
  "keyed_policy = plain_policy\<lparr>p_replication := ''subscribe-only'',
     p_keyed := Some (JObj [(''tombstoneKind'', JStr ''gone'')])\<rparr>"

definition demo_env :: LogEnv where
  "demo_env = \<lparr>prims = demo_lib,
     registry = [(''t'', \<lparr>te_policy = plain_policy, te_schemaHash = demo_hash\<rparr>),
                 (''k'', \<lparr>te_policy = keyed_policy, te_schemaHash = demo_hash\<rparr>)],
     selfId = ''me'', constants = DEFAULT_CONSTANTS,
     hasActiveConsumer = (\<lambda>_. False), hasActiveSubscriber = (\<lambda>_. False)\<rparr>"

definition demo_item :: "string \<Rightarrow> AppendItem" where
  "demo_item t = \<lparr>ai_topic = t, ai_kind = ''k'', ai_payload = JNull, ai_key = None, ai_causal = None,
     ai_provider = None, ai_ref = None\<rparr>"

definition demo_row :: "string \<Rightarrow> string \<Rightarrow> nat \<Rightarrow> Hlc \<Rightarrow> LogEntry" where
  "demo_row t w n h = \<lparr>e_topic = t, e_writer = w, e_seq = n, e_hlc = h, e_kind = ''k'', e_key = None,
     e_causal = None, e_ref = None, e_payload = JNull, e_chain = demo_hash\<rparr>"

definition small_hlc :: "Hlc \<Rightarrow> bool" where
  "small_hlc h \<longleftrightarrow> hlc_l h \<le> 1000 \<and> hlc_c h \<le> 1000"

lemma demo_chain:
  assumes "e_seq e \<le> 1000" "small_hlc (e_hlc e)"
  shows "chainOf demo_lib p e = Inr demo_hash"
proof -
  have "e_seq e \<le> MAX_SAFE_INTEGER" "hlc_l (e_hlc e) \<le> MAX_SAFE_INTEGER" "hlc_c (e_hlc e) \<le> MAX_SAFE_INTEGER"
    using assms by (simp_all add: small_hlc_def MAX_SAFE_INTEGER_def)
  then show ?thesis
    by (simp add: chainOf_def chainParts_def dec_def jcs_def demo_lib_def sha256HexOf_def not_less
        split: option.split)
qed

lemma demo_fits: "entry_fits demo_lib DEFAULT_CONSTANTS e"
  by (simp add: entry_fits_def demo_lib_def jcs_def DEFAULT_CONSTANTS_def)

lemma demo_names: "TOPIC_RE ''t''" "TOPIC_RE ''k''" "WRITER_RE ''me''" "WRITER_RE ''pa''" "CHAIN_RE demo_hash"
  "name_ok ''t''" "name_ok ''k''" "name_ok ''me''" "name_ok ''pa''"
  by (simp_all add: TOPIC_RE_def WRITER_RE_def CHAIN_RE_def topic_char_def writer_char_def hex_char_def
      demo_hash_def name_ok_def RESERVED_NAME_def list_all_iff)

lemma demo_row_valid:
  assumes "t = ''t'' \<or> t = ''k''" "w = ''me'' \<or> w = ''pa''" "1 \<le> n" "n \<le> 1000" "small_hlc h"
  shows "validateEntry demo_lib DEFAULT_CONSTANTS (entry_js (demo_row t w n h)) = Inr (demo_row t w n h)"
proof -
  have "wf_entry (demo_row t w n h)"
    using assms demo_names
    by (auto simp: wf_entry_def demo_row_def small_hlc_def MAX_SAFE_INTEGER_def HLC_C_LIMIT_def)
  then show ?thesis by (simp add: validateEntry_roundtrip demo_fits)
qed

lemma demo_registry:
  "reg_get (registry demo_env) ''t'' = Inr \<lparr>te_policy = plain_policy, te_schemaHash = demo_hash\<rparr>"
  "reg_get (registry demo_env) ''k'' = Inr \<lparr>te_policy = keyed_policy, te_schemaHash = demo_hash\<rparr>"
  by (simp_all add: reg_get_def demo_env_def)

lemma demo_policies [simp]:
  "p_mode plain_policy = ''full''" "p_kind plain_policy = ''append''" "p_replication plain_policy = ''full-sync''"
  "p_keyed plain_policy = None" "p_mode keyed_policy = ''full''" "p_kind keyed_policy = ''append''"
  "p_replication keyed_policy = ''subscribe-only''"
  "p_keyed keyed_policy = Some (JObj [(''tombstoneKind'', JStr ''gone'')])"
  by (simp_all add: plain_policy_def keyed_policy_def)

lemma demo_env_fields [simp]:
  "prims demo_env = demo_lib" "selfId demo_env = ''me''" "constants demo_env = DEFAULT_CONSTANTS"
  "hasActiveConsumer demo_env t = False" "hasActiveSubscriber demo_env t = False"
  by (simp_all add: demo_env_def)

text \<open>One local append on a topic whose head and clock are known.\<close>

lemma demo_append:
  assumes "t = ''t'' \<or> t = ''k''" "getStream demo_env t ''me'' s = (head, s1)" "sealReason head = None"
    "contigSeq head < 900" "stamp (hlcState s1) now = Inr (h, h)" "small_hlc h"
    "insertEntry (lc_store s1) (demo_row t ''me'' (Suc (contigSeq head)) h) = Inr (rowid, st)"
  shows "processAppend demo_env now (demo_item t) s =
    (let e = demo_row t ''me'' (Suc (contigSeq head)) h in
     Inr (settle (RAppend (t, ''me'', Suc (contigSeq head)))
       (pushApplied e (Some rowid) None
         (saveHead demo_env now (setContig e head) (s1\<lparr>hlcState := h, lc_store := st\<rparr>)))))"
proof -
  let ?n = "Suc (contigSeq head)"
  have draft: "draftEntry demo_env (demo_item t) ?n h None = (demo_row t ''me'' ?n h)\<lparr>e_chain := []\<rparr>"
    by (simp add: draftEntry_def demo_item_def demo_row_def)
  have entry: "(demo_row t ''me'' ?n h)\<lparr>e_chain := demo_hash\<rparr> = demo_row t ''me'' ?n h"
    by (simp add: demo_row_def)
  have chain: "chainOf demo_lib p ((demo_row t ''me'' ?n h)\<lparr>e_chain := []\<rparr>) = Inr demo_hash" for p
    using assms(4,6) by (intro demo_chain) (simp_all add: demo_row_def)
  have valid: "validateEntry demo_lib DEFAULT_CONSTANTS (entry_js (demo_row t ''me'' ?n h)) = Inr (demo_row t ''me'' ?n h)"
    using assms(1,4,6) by (intro demo_row_valid) auto
  have causal: "causalFor (demo_item t) ?n (s1\<lparr>hlcState := h\<rparr>) = (None, s1\<lparr>hlcState := h\<rparr>)"
    by (simp add: causalFor_def demo_item_def)
  have topic: "ai_topic (demo_item t) = t" by (simp add: demo_item_def)
  have row: "e_topic (demo_row t ''me'' ?n h) = t" by (simp add: demo_row_def)
  have key: "entryKey (demo_row t ''me'' ?n h) = (t, ''me'', ?n)" by (simp add: entryKey_def demo_row_def)
  have persist: "persist demo_env (demo_row t ''me'' ?n h) (s1\<lparr>hlcState := h\<rparr>) =
      Inr (Some rowid, s1\<lparr>hlcState := h, lc_store := st\<rparr>)"
    using assms(1,7) demo_registry by (auto simp: persist_def row orAbort_def Let_def)
  show ?thesis
    by (simp add: processAppend_def topic assms(2,3,5) causal draft chain orAbort_def entry valid
        applyEntry_def persist key Let_def)
qed

section \<open>One committed append\<close>

definition demo_hlc :: Hlc where
  "demo_hlc = \<lparr>hlc_l = 7, hlc_c = 0\<rparr>"

definition demo_queue :: LogQueue where
  "demo_queue = push demo_env (QAppend (demo_item ''t'')) (newQueue empty_store)"

definition demo_after :: LogQueue where
  "demo_after = flush demo_env (\<lambda>_. 7) None demo_queue"

definition demo_first :: LogEntry where
  "demo_first = demo_row ''t'' ''me'' 1 demo_hlc"

lemma demo_queue_fields [simp]:
  "q_items demo_queue = [(0, QAppend (demo_item ''t''))]" "q_core demo_queue = LogCore_new empty_store"
  "q_closed demo_queue = False" "q_done demo_queue = []"
  by (simp_all add: demo_queue_def push_def newQueue_def Let_def)

definition demo_applied :: LogCore where
  "demo_applied = (case getStream demo_env ''t'' ''me'' (beginFlush (LogCore_new empty_store)) of (head, s1) \<Rightarrow>
     settle (RAppend (''t'', ''me'', 1)) (pushApplied demo_first (Some 1) None
       (saveHead demo_env 7 (setContig demo_first head)
         (s1\<lparr>hlcState := demo_hlc,
            lc_store := empty_store\<lparr>db := empty_db\<lparr>sq_log := [(1, demo_first)], log_autoinc := 1\<rparr>\<rparr>\<rparr>))))"

lemma demo_run: "processAppend demo_env 7 (demo_item ''t'') (beginFlush (LogCore_new empty_store)) = Inr demo_applied"
proof -
  obtain head s1 where gs: "getStream demo_env ''t'' ''me'' (beginFlush (LogCore_new empty_store)) = (head, s1)"
    by fastforce
  have head: "head = freshHead demo_env ''t'' ''me''" and st: "lc_store s1 = empty_store"
    and hs: "hlcState s1 = \<lparr>hlc_l = 0, hlc_c = 0\<rparr>"
    using gs by (auto simp: getStream_def beginFlush_def LogCore_new_def storedHead_def getWriter_def
        empty_store_def empty_db_def Let_def)
  have ins: "insertEntry empty_store (demo_row ''t'' ''me'' (Suc (contigSeq head)) demo_hlc) =
      Inr (1, empty_store\<lparr>db := empty_db\<lparr>sq_log := [(1, demo_first)], log_autoinc := 1\<rparr>\<rparr>)"
    by (simp add: insertEntry_def empty_store_def empty_db_def head freshHead_def onDb_def demo_first_def)
  have "stamp (hlcState s1) 7 = Inr (demo_hlc, demo_hlc)"
    by (simp add: hs stamp_def demo_hlc_def HLC_C_LIMIT_def Let_def)
  then show ?thesis
    using demo_append [OF _ gs, of 7 demo_hlc] ins st
    by (simp add: demo_applied_def gs head freshHead_def small_hlc_def demo_hlc_def demo_first_def Let_def)
qed

lemma demo_flushTxn: "flushTxn demo_env (\<lambda>_. 7) None [(0, QAppend (demo_item ''t''))] (beginFlush (LogCore_new empty_store))
    = Inr (withDb (\<lambda>d. metaSetHlc d demo_hlc) demo_applied)"
proof -
  have "hlcState demo_applied = demo_hlc" by (simp add: demo_applied_def split: prod.split)
  then show ?thesis by (simp add: flushTxn_def processItem_def demo_run)
qed

lemma demo_after_core: "q_core demo_after = commitFlush (withDb (\<lambda>d. metaSetHlc d demo_hlc) demo_applied)"
  by (simp add: demo_after_def flush_def demo_flushTxn [simplified] Let_def)

lemma demo_after_log: "sq_log (lc_db (q_core demo_after)) = [(1, demo_first)]"
  by (simp add: demo_after_core commitFlush_def demo_applied_def split: prod.split)

lemma demo_reach: "core_reach demo_env demo_after"
proof -
  have "core_step demo_env (newQueue empty_store) demo_queue"
    unfolding demo_queue_def by (rule enqueue) (simp_all add: newQueue_def item_ok_def)
  then have "core_reach demo_env demo_queue" by (rule step [OF fresh])
  moreover have "core_step demo_env demo_queue demo_after"
    unfolding demo_after_def by (rule flushed) (simp add: demo_flushTxn [simplified])
  ultimately show ?thesis by (rule step)
qed

end
