(* ===== verification/Log_Clean.thy ===== *)
theory Log_Clean
  imports Log_Reach
begin

text \<open>
  Aborts. Without a storage fault a batch never aborts with a storage error: the rows an
  append inserts are always new, and the chain of a pruned prefix is always at hand. Every
  handler journals the ring tails it touches, so that an abort can put them back, and settles
  its item exactly once.
\<close>

section \<open>No storage error without a storage fault\<close>

definition clean_abort :: "'a lresult \<Rightarrow> bool" where
  "clean_abort r = (case r of Inl (err, _) \<Rightarrow> err \<noteq> ERR_STORAGE | Inr _ \<Rightarrow> True)"

lemma clean_Inr [simp]: "clean_abort (Inr x)"
  by (simp add: clean_abort_def)

lemma clean_Inl [simp]: "clean_abort (Inl (e, s)) \<longleftrightarrow> e \<noteq> ERR_STORAGE"
  by (simp add: clean_abort_def)

lemma clean_rbind:
  assumes "clean_abort r" "\<And>x. r = Inr x \<Longrightarrow> clean_abort (f x)"
  shows "clean_abort (rbind r f)"
  using assms by (cases r) (auto simp: clean_abort_def)

lemma clean_orAbort: "(\<And>e. r = Inl e \<Longrightarrow> e \<noteq> ERR_STORAGE) \<Longrightarrow> clean_abort (orAbort s r)"
  by (cases r) (auto simp: orAbort_def)

lemma clean_chain: "clean_abort (orAbort s (chainOf P p e))"
  by (rule clean_orAbort) (auto dest: chainOf_error)

lemma clean_reg: "clean_abort (orAbort s (reg_get reg t))"
  by (rule clean_orAbort) (auto simp: reg_get_def split: option.splits)

lemma clean_refusal: "clean_abort (orAbort s (ackedRetentionRefusal reg t))"
  by (rule clean_orAbort) (auto simp: ackedRetentionRefusal_def rbind_eq_Inl reg_get_def Let_def
      split: option.splits if_splits)

lemma clean_applyEntry:
  assumes "core_inv E s" "h = storedHead E (lc_db s) (e_topic e, e_writer e)" "e_seq e = contigSeq h + 1"
  shows "clean_abort (applyEntry E now h e via s)"
proof -
  have "clean_abort (orAbort s (insertEntry (lc_store s) e))"
  proof (rule clean_orAbort, rule notI)
    fix err assume "insertEntry (lc_store s) e = Inl err"
    then obtain r where "r \<in> set (sq_log (lc_db s))" "entryKey (snd r) = entryKey e"
      using insertEntry_fails by blast
    then have "held (lc_db s) (snd r)" "streamRow (e_topic e, e_writer e) (snd r)" "e_seq (snd r) = e_seq e"
      by (auto simp: held_def streamRow_def entryKey_def)
    moreover have "head_fits (lc_db s) (e_topic e, e_writer e) h"
      using inv_stored_fits [OF assms(1)] assms(2) by simp
    ultimately have "e_seq e \<le> contigSeq h" unfolding head_fits_def by metis
    then show False using assms(3) by simp
  qed
  then have "clean_abort (persist E e s)"
    unfolding persist_def
    by (intro clean_rbind [OF clean_reg]) (auto intro!: clean_rbind simp: Let_def)
  then show ?thesis unfolding applyEntry_def by (rule clean_rbind) (auto simp: Let_def)
qed

lemma clean_verifyAndApply:
  assumes "core_inv E s" "h = storedHead E (lc_db s) (e_topic e, e_writer e)" "e_seq e = contigSeq h + 1"
  shows "clean_abort (verifyAndApply E now h e via s)"
  unfolding verifyAndApply_def
  by (rule clean_rbind [OF clean_chain])
    (use clean_applyEntry [OF assms] in \<open>auto intro: clean_rbind\<close>)

lemma clean_drainPending:
  "core_inv E s \<Longrightarrow> h = storedHead E (lc_db s) (w_topic h, w_writer h) \<Longrightarrow> clean_abort (drainPending E now h via s)"
proof (induction E now h via s rule: drainPending.induct)
  case (1 E now head via s)
  let ?n = "contigSeq head + 1"
  let ?s = "withDb (\<lambda>d. pendingDelete d (w_topic head) (w_writer head) ?n) s"
  show ?case
  proof (cases "pendingGet (lc_db s) (w_topic head) (w_writer head) ?n")
    case None
    then show ?thesis by (simp add: drainPending.simps [of E now head via s])
  next
    case (Some e)
    note key = pendingGet_key [OF Some]
    have inv: "core_inv E ?s" using 1(2) by (rule inv_side_tables)
    have "storedHead E (lc_db ?s) = storedHead E (lc_db s)" by (rule storedHead_cong) simp
    then have h: "head = storedHead E (lc_db ?s) (e_topic e, e_writer e)" using 1(3) key by simp
    have seq: "e_seq e = contigSeq head + 1" using key by simp
    show ?thesis
    proof (cases "verifyAndApply E now head e via ?s")
      case (Inl z)
      then show ?thesis
        using clean_verifyAndApply [OF inv h seq, of now via] Some
        by (cases z) (simp add: drainPending.simps [of E now head via s])
    next
      case (Inr p)
      obtain b head' s1 where run: "verifyAndApply E now head e via ?s = Inr (b, head', s1)"
        using Inr by (cases p) auto
      note va = inv_verifyAndApply [OF inv h seq run]
      have "clean_abort (drainPending E now head' via s1)" if b
      proof -
        have "w_topic head' = e_topic e" "w_writer head' = e_writer e"
          using va(2) [OF that] va(1) stored_key by (auto simp: core_inv_def stream_ok_def)
        then show ?thesis using 1(1) [OF Some run refl refl that] va that by simp
      qed
      then show ?thesis using Some run by (simp add: drainPending.simps [of E now head via s])
    qed
  qed
qed

lemma clean_processAppend:
  assumes inv: "core_inv E s"
  shows "clean_abort (processAppend E now it s)"
proof -
  obtain head s1 where gs: "getStream E (ai_topic it) (selfId E) s = (head, s1)" by fastforce
  note g = inv_getStream [OF inv gs]
  show ?thesis
  proof (cases "stamp (hlcState s1) now")
    case (Inl err)
    then show ?thesis by (simp add: processAppend_def gs)
  next
    case (Inr p)
    obtain hs hlc where st: "stamp (hlcState s1) now = Inr (hs, hlc)" using Inr by (cases p) auto
    obtain causal s2 where ca: "causalFor it (Suc (contigSeq head)) (s1\<lparr>hlcState := hs\<rparr>) = (causal, s2)"
      by fastforce
    have s2: "lc_store s2 = lc_store s1" "heads s2 = heads s1" "certs s2 = certs s1" "floors s2 = floors s1"
      using ca by (auto simp: causalFor_def split: option.splits prod.splits)
    then have inv2: "core_inv E s2" using g(1) core_inv_cong [of s2 s1] by simp
    have app: "clean_abort (applyEntry E now head ((draftEntry E it (Suc (contigSeq head)) hlc causal)\<lparr>e_chain := c\<rparr>) None s2)" for c
      using g(2) s2(1) by (intro clean_applyEntry [OF inv2]) (simp_all add: draftEntry_def)
    show ?thesis
      by (auto simp: processAppend_def gs st ca Let_def split: sum.split intro!: clean_rbind clean_chain app)
  qed
qed

lemma clean_recoveryStep:
  assumes "core_inv E s" "h = storedHead E (lc_db s) (e_topic e, e_writer e)"
  shows "clean_abort (recoveryStep E now h e target via s)"
  unfolding recoveryStep_def
  using clean_applyEntry [OF assms] by (auto intro!: clean_rbind clean_chain simp: Let_def)

lemma clean_recoveryIngest:
  assumes "core_inv E s" "h = storedHead E (lc_db s) (e_topic e, e_writer e)" "1 \<le> e_seq e"
  shows "clean_abort (recoveryIngest E now h e target via s)"
  using clean_recoveryStep [OF assms(1,2)] rewindTo_spec [OF assms] clean_recoveryStep
  by (fastforce simp: recoveryIngest_def split: prod.split)

lemma clean_processExternal:
  assumes inv: "core_inv E s" and pos: "1 \<le> e_seq e"
  shows "clean_abort (processExternal E now e via s)"
proof -
  obtain head s1 where gs: "getStream E (e_topic e) (e_writer e) s = (head, s1)" by fastforce
  note g = inv_getStream [OF inv gs]
  obtain cert s2 where gc: "getCert (e_topic e) s1 = (cert, s2)" by fastforce
  note c = inv_getCert [OF g(1) gc]
  have h: "head = storedHead E (lc_db s2) (e_topic e, e_writer e)" using g(2) c(3) by simp
  have ext: "clean_abort (extendStream E now head e via s2)" if seq: "e_seq e = contigSeq head + 1"
    unfolding extendStream_def
  proof (rule clean_rbind [OF clean_verifyAndApply [OF c(1) h seq]])
    fix p assume "verifyAndApply E now head e via s2 = Inr p"
    then obtain b h' s3 where p: "p = (b, h', s3)" and va: "verifyAndApply E now head e via s2 = Inr (b, h', s3)"
      by (cases p) auto
    note v = inv_verifyAndApply [OF c(1) h seq va]
    have "clean_abort (drainPending E now h' via (mergeClock E now e s3))" if b
    proof -
      have "storedHead E (lc_db (mergeClock E now e s3)) = storedHead E (lc_db s3)"
        by (rule storedHead_cong) (simp add: mergeClock_def)
      moreover have "w_topic h' = e_topic e" "w_writer h' = e_writer e"
        using v(1) v(2) [OF that] stored_key by (auto simp: core_inv_def stream_ok_def)
      ultimately show ?thesis
        using v(2) [OF that] by (intro clean_drainPending inv_mergeClock v(1)) simp
    qed
    then show "clean_abort (case p of (ok, head', s1) \<Rightarrow>
        if ok then rbind (drainPending E now head' via (mergeClock E now e s1)) (\<lambda>s2. Inr (settle (RApply Applied) s2))
        else Inr (settle (RApply Forked) s1))"
      by (auto simp: p intro: clean_rbind)
  qed
  show ?thesis
    using ext clean_recoveryIngest [OF g(1,2) pos]
    by (auto simp: processExternal_def gs gc split: option.split)
qed

lemma clean_processAdoptFloor:
  assumes inv: "core_inv E s"
  shows "clean_abort (processAdoptFloor E now t w n c s)"
proof (cases "processAdoptFloor E now t w n c s")
  case (Inl z)
  obtain h s1 where gs: "getStream E t w s = (h, s1)" by fastforce
  note g = inv_getStream [OF inv gs]
  let ?tg = "recoveries s1 (t, w)"
  let ?h = "adoptHead now ?tg n c h"
  let ?s1 = "case ?tg of Some x \<Rightarrow> if n = rt_finalSeq x then forgetRecovery t w s1 else s1 | None \<Rightarrow> s1"
  let ?s2 = "withDb (\<lambda>d. floorSet d t w n c now) (saveHead E now ?h ?s1)"
  let ?s3 = "?s2\<lparr>floors := (floors ?s2)((t, w) := None)\<rparr>"
  let ?s4 = "withDb (\<lambda>d. deletePendingUpTo d t w n) ?s3"
  let ?s5 = "(pushAnomaly (anomaly_stream A_floor_adopted t w) ?s4)
      \<lparr>retStats := ret_bump (retStats (pushAnomaly (anomaly_stream A_floor_adopted t w) ?s4)) t K_floorsAdopted 1\<rparr>"
  have st: "core_inv E ?s1" "lc_store ?s1 = lc_store s1"
    using g(1) by (auto simp: forgetRecovery_def split: option.split)
  have hs: "h = storedHead E (lc_db ?s1) (t, w)" using g(2) st(2) by simp
  have drain: "clean_abort (drainPending E now ?h None ?s5)" if "contigSeq h < n"
  proof -
    have "core_inv E (saveHead E now ?h ?s1)"
      by (rule inv_saveAhead [OF st(1) hs]) (use g(4,5) that in simp_all)
    then have "core_inv E ?s3" using inv_floorWrite(1) [of E "saveHead E now ?h ?s1" t w n c now] by simp
    then have s4: "core_inv E ?s4" by (rule inv_side_tables)
    have "sq_writers (lc_db ?s5) = sq_writers (upsertWriter (lc_db ?s1) ?h)" by (simp add: withDb_def)
    then have "storedHead E (lc_db ?s5) (t, w) = ?h"
      using storedHead_cong [of "lc_db ?s5" "upsertWriter (lc_db ?s1) ?h" E] g(4,5)
      by (simp add: storedHead_upsert)
    then show ?thesis using s4 g(4,5) by (intro clean_drainPending) simp_all
  qed
  show ?thesis
    unfolding processAdoptFloor_def Let_def gs prod.case
    by (rule clean_rbind [OF clean_refusal]) (use drain in \<open>auto simp: not_le intro!: clean_rbind\<close>)
qed simp

lemma walkPrefix_member:
  "walkPrefix target cutoff cf budget rows (n, l) = (n', l') \<Longrightarrow>
   (n' = n \<and> l' = l) \<or> (\<exists>r \<in> set rows. l' = fst (snd r) \<and> prefixRow target cutoff cf r)"
proof (induction rows arbitrary: n l)
  case (Cons r rows)
  show ?case
  proof (cases "\<not> prefixRow target cutoff cf r \<or> n = budget")
    case True
    then show ?thesis using Cons.prems by auto
  next
    case False
    then have "walkPrefix target cutoff cf budget rows (n + 1, fst (snd r)) = (n', l')"
      using Cons.prems by simp
    from Cons.IH [OF this] show ?thesis using False by auto
  qed
qed simp

lemma clean_ackedStream:
  assumes inv: "core_inv E s"
  shows "clean_abort (ackedStream now t opts cf afs sv (rn, s))"
proof -
  obtain prev s1 where fo: "floorOf t (sv_writer sv) s = (prev, s1)" by fastforce
  note f = inv_floorOf [OF inv fo]
  have table: "log_table_ok (lc_db s1)" using f(1) by (simp add: core_inv_def stream_ok_def)
  have del: "clean_abort (ackedDelete now t (sv_writer sv) p l rep s1)"
    if w: "walkPrefix target cutoff cf b (streamHead (lc_db s1) t (sv_writer sv) lim) (0, 0) = (n, l)" and "n \<noteq> 0"
    for p n l rep target cutoff b lim
  proof -
    obtain r where r: "r \<in> set (streamHead (lc_db s1) t (sv_writer sv) lim)" "l = fst (snd r)"
      using walkPrefix_member [OF w] \<open>n \<noteq> 0\<close> by auto
    then obtain x where "x \<in> set (sq_log (lc_db s1))" "inStream t (sv_writer sv) x" "l = e_seq (snd x)"
      by (auto simp: streamHead_def dest!: in_set_takeD)
    then have "getEntry (lc_db s1) t (sv_writer sv) l = Some (snd x)"
      using held_getEntry [OF table, of "snd x"] by (auto simp: held_def inStream_def)
    then show ?thesis by (auto simp: ackedDelete_def chainAt_def Let_def)
  qed
  show ?thesis
    unfolding ackedStream_def prod.case fo Let_def
    by (auto split: prod.split intro!: clean_rbind del)
qed

lemma clean_ackedStreams: "core_inv E s \<Longrightarrow> clean_abort (ackedStreams now t opts cf afs svs (rn, s))"
proof (induction svs arbitrary: rn s)
  case (Cons sv svs)
  have "clean_abort (rbind (ackedStream now t opts cf afs sv (rn, s)) (ackedStreams now t opts cf afs svs))"
  proof (rule clean_rbind [OF clean_ackedStream [OF Cons.prems]])
    fix x assume run: "ackedStream now t opts cf afs sv (rn, s) = Inr x"
    obtain rn1 s1 where x: "x = (rn1, s1)" by (cases x)
    show "clean_abort (ackedStreams now t opts cf afs svs x)"
      unfolding x by (rule Cons.IH) (use inv_ackedStream [OF Cons.prems] run x in blast)
  qed
  then show ?case by simp
qed simp

lemma clean_processPruneAcked:
  assumes inv: "core_inv E s"
  shows "clean_abort (processPruneAcked E now t opts maxRows s)"
proof -
  obtain svs s1 where sv: "streamViews E t s = (svs, s1)" by fastforce
  obtain hs where ho: "headsOf E t (map w_writer (listWriters (lc_db s) (Some t))) s = (hs, s1)"
    using sv by (auto simp: streamViews_def split: prod.splits)
  have i1: "core_inv E s1" using inv_headsOf [OF ho inv] by blast
  obtain d' plan where pm: "planMembers (lc_db s1) t opts svs (selfId E) now = (d', plan)" by fastforce
  have "core_inv E (withDb (\<lambda>_. d') s1)"
    by (rule inv_withDb [OF i1]) (simp_all add: planMembers_fields [OF pm])
  then show ?thesis
    unfolding processPruneAcked_def Let_def sv pm prod.case
    by (intro clean_rbind [OF clean_refusal]) (auto intro!: clean_rbind clean_ackedStreams simp: pm)
qed

lemma clean_processItem:
  assumes "core_inv E s" "item_ok item"
  shows "clean_abort (processItem E now item s)"
proof (cases item)
  case (QRetireTopic t)
  then show ?thesis
    by (auto simp: processItem_def processRetireTopic_def Let_def split: prod.split intro!: clean_rbind clean_reg)
next
  case (QPruneTopic t older keep)
  then show ?thesis
    by (auto simp: processItem_def processPruneTopic_def Let_def split: prod.split intro!: clean_rbind clean_reg)
next
  case (QPruneSuperseded t hi n others)
  then show ?thesis
    by (auto simp: processItem_def processPruneSuperseded_def Let_def split: prod.split option.split
        intro!: clean_rbind clean_reg)
qed (use assms in \<open>auto simp: processItem_def item_ok_def clean_processAppend clean_processExternal
      clean_processPruneAcked clean_processAdoptFloor\<close>)

lemma clean_runItems:
  "core_inv E s \<Longrightarrow> list_all (\<lambda>p. item_ok (snd p)) batch \<Longrightarrow> clean_abort (runItems E clk batch s)"
proof (induction batch arbitrary: s)
  case (Cons p batch)
  obtain i item where p: "p = (i, item)" by (cases p)
  have ok: "item_ok item" using Cons.prems(2) p by simp
  show ?case
    unfolding p runItems.simps
    by (rule clean_rbind [OF clean_processItem [OF Cons.prems(1) ok]])
      (use Cons.IH Cons.prems ok inv_processItem in auto)
qed simp

section \<open>Ring tails are journaled\<close>

definition all_states :: "('a \<Rightarrow> LogCore) \<Rightarrow> (LogCore \<Rightarrow> bool) \<Rightarrow> 'a lresult \<Rightarrow> bool" where
  "all_states g P r = (case r of Inl (_, s) \<Rightarrow> P s | Inr x \<Rightarrow> P (g x))"

lemma all_states_Inr [simp]: "all_states g P (Inr x) = P (g x)"
  by (simp add: all_states_def)

lemma all_states_Inl [simp]: "all_states g P (Inl (e, s)) = P s"
  by (simp add: all_states_def)

lemma all_states_rbind:
  assumes "all_states g P r" "\<And>x. r = Inr x \<Longrightarrow> P (g x) \<Longrightarrow> all_states h P (f x)"
  shows "all_states h P (rbind r f)"
proof (cases r)
  case (Inl z)
  then show ?thesis using assms(1) by (cases z) (simp add: all_states_def)
next
  case (Inr x)
  then show ?thesis using assms by simp
qed

lemma all_states_orAbort: "P s \<Longrightarrow> all_states (\<lambda>_. s) P (orAbort s r)"
  by (cases r) (simp_all add: orAbort_def)

text \<open>The journal holds the tail every touched topic had when the flush began.\<close>

definition journaled :: "(string \<Rightarrow> LogEntry list option) \<Rightarrow> LogCore \<Rightarrow> bool" where
  "journaled rs s \<longleftrightarrow> ringUndo s \<noteq> None \<and> restoreRings (ringUndo s) (rings s) = rs"

lemma ring_fields [simp]:
  "rings (settle x s) = rings s" "rings (pushApplied e r v s) = rings s" "rings (pushAnomaly a s) = rings s"
  "rings (journalRing t s) = rings s" "rings (withDb f s) = rings s" "rings (saveHead E now h s) = rings s"
  "ringUndo (settle x s) = ringUndo s" "ringUndo (pushApplied e r v s) = ringUndo s"
  "ringUndo (pushAnomaly a s) = ringUndo s" "ringUndo (withDb f s) = ringUndo s"
  "ringUndo (saveHead E now h s) = ringUndo s"
  "rings (seal E now h e s) = rings s" "ringUndo (seal E now h e s) = ringUndo s"
  "rings (mergeClock E now e s) = rings s" "ringUndo (mergeClock E now e s) = ringUndo s"
  "rings (dropFrom t w n s) = rings s" "ringUndo (dropFrom t w n s) = ringUndo s"
  "rings (forgetRecovery t w s) = rings s" "ringUndo (forgetRecovery t w s) = ringUndo s"
  "rings (forkUnlessSealed E now h s) = rings s" "ringUndo (forkUnlessSealed E now h s) = ringUndo s"
  by (auto simp: settle_def pushApplied_def pushAnomaly_def journalRing_def withDb_def saveHead_def seal_def
      mergeClock_def dropFrom_def forgetRecovery_def forkUnlessSealed_def Let_def split: option.split)

lemma ring_fields_rec [simp]:
  "rings (quarantineAll r now rows s) = rings s" "ringUndo (quarantineAll r now rows s) = ringUndo s"
  "rings (forgetNodes t ns s) = rings s" "ringUndo (forgetNodes t ns s) = ringUndo s"
  "rings (dropWriters t ws s) = rings s" "ringUndo (dropWriters t ws s) = ringUndo s"
  by (induction rows arbitrary: s) (simp_all add: quarantineAll_def,
    (induction ns arbitrary: s; simp add: forgetNodes_def)+, (induction ws arbitrary: s; simp add: dropWriters_def)+)

lemma ring_reads:
  "getStream E t w s = (h, s') \<Longrightarrow> rings s' = rings s \<and> ringUndo s' = ringUndo s"
  "getCert t s = (c, s') \<Longrightarrow> rings s' = rings s \<and> ringUndo s' = ringUndo s"
  "floorOf t w s = (f, s') \<Longrightarrow> rings s' = rings s \<and> ringUndo s' = ringUndo s"
  "headsOf E t ws s = (hs, s') \<Longrightarrow> rings s' = rings s \<and> ringUndo s' = ringUndo s"
  "causalFor it n s = (ca, s') \<Longrightarrow> rings s' = rings s \<and> ringUndo s' = ringUndo s"
proof -
  show gs: "getStream E t w s = (h, s') \<Longrightarrow> rings s' = rings s \<and> ringUndo s' = ringUndo s" for t w s h s'
    by (auto simp: getStream_def Let_def split: option.splits)
  show "getCert t s = (c, s') \<Longrightarrow> rings s' = rings s \<and> ringUndo s' = ringUndo s"
    by (auto simp: getCert_def Let_def split: option.splits)
  show "floorOf t w s = (f, s') \<Longrightarrow> rings s' = rings s \<and> ringUndo s' = ringUndo s"
    by (auto simp: floorOf_def Let_def split: option.splits)
  show "headsOf E t ws s = (hs, s') \<Longrightarrow> rings s' = rings s \<and> ringUndo s' = ringUndo s"
  proof (induction ws arbitrary: hs s)
    case (Cons w ws)
    obtain h s1 where g: "getStream E t w s = (h, s1)" by fastforce
    obtain hs1 where "headsOf E t ws s1 = (hs1, s')"
      using Cons.prems by (auto simp: g split: prod.splits)
    then show ?case using Cons.IH gs [OF g] by simp
  qed simp
  show "causalFor it n s = (ca, s') \<Longrightarrow> rings s' = rings s \<and> ringUndo s' = ringUndo s"
    by (auto simp: causalFor_def split: option.splits prod.splits)
qed

lemma journaled_cong: "rings s' = rings s \<Longrightarrow> ringUndo s' = ringUndo s \<Longrightarrow> journaled rs s' = journaled rs s"
  by (simp add: journaled_def)

lemma journaled_touch:
  assumes "journaled rs s"
  shows "journaled rs ((journalRing t s)\<lparr>rings := (rings s)(t := v)\<rparr>)"
proof -
  obtain u where u: "ringUndo s = Some u" "restoreRings (Some u) (rings s) = rs"
    using assms by (auto simp: journaled_def)
  have "restoreRings (Some (if u t = None then u(t \<mapsto> rings s t) else u)) ((rings s)(t := v)) = rs"
    unfolding u(2) [symmetric] by (rule ext) (auto simp: restoreRings_def split: option.split)
  then show ?thesis using u(1) by (auto simp: journaled_def journalRing_def)
qed

lemma js_persist: "journaled rs s \<Longrightarrow> all_states snd (journaled rs) (persist E e s)"
  unfolding persist_def Let_def
  by (rule all_states_rbind [OF all_states_orAbort])
    (auto intro!: all_states_rbind [OF all_states_orAbort] journaled_touch
      simp: journaled_cong [where s' = "s\<lparr>lc_store := x\<rparr>" and s = s for x])

lemma js_applyEntry: "journaled rs s \<Longrightarrow> all_states snd (journaled rs) (applyEntry E now h e via s)"
  unfolding applyEntry_def Let_def
  by (rule all_states_rbind [OF js_persist]) (auto simp: journaled_def)

lemma js_verifyAndApply:
  "journaled rs s \<Longrightarrow> all_states (\<lambda>x. snd (snd x)) (journaled rs) (verifyAndApply E now h e via s)"
  unfolding verifyAndApply_def
  by (rule all_states_rbind [OF all_states_orAbort])
    (auto intro!: all_states_rbind [OF js_applyEntry] simp: journaled_def)

lemma js_drainPending: "journaled rs s \<Longrightarrow> all_states id (journaled rs) (drainPending E now h via s)"
proof (induction E now h via s rule: drainPending.induct)
  case (1 E now head via s)
  let ?s = "withDb (\<lambda>d. pendingDelete d (w_topic head) (w_writer head) (contigSeq head + 1)) s"
  have j: "journaled rs ?s" using 1(2) by (simp add: journaled_def)
  show ?case
  proof (cases "pendingGet (lc_db s) (w_topic head) (w_writer head) (contigSeq head + 1)")
    case None
    then show ?thesis using 1(2) by (simp add: drainPending.simps [of E now head via s])
  next
    case (Some e)
    note va = js_verifyAndApply [OF j, of E now head e via]
    show ?thesis
    proof (cases "verifyAndApply E now head e via ?s")
      case (Inl z)
      then show ?thesis using va Some by (cases z) (simp add: drainPending.simps [of E now head via s])
    next
      case (Inr p)
      then obtain b head' s1 where p: "verifyAndApply E now head e via ?s = Inr (b, head', s1)"
        by (cases p) auto
      then have "journaled rs s1" using va by simp
      then show ?thesis using 1(1) [OF Some p refl refl] Some p
        by (simp add: drainPending.simps [of E now head via s])
    qed
  qed
qed

lemma js_processAppend:
  assumes "journaled rs s"
  shows "all_states id (journaled rs) (processAppend E now it s)"
proof -
  obtain head s1 where gs: "getStream E (ai_topic it) (selfId E) s = (head, s1)" by fastforce
  have j1: "journaled rs s1" using assms ring_reads(1) [OF gs] by (simp add: journaled_def)
  show ?thesis
  proof (cases "stamp (hlcState s1) now")
    case (Inl err)
    then show ?thesis using j1 by (simp add: processAppend_def gs journaled_def)
  next
    case (Inr p)
    obtain hs hlc where st: "stamp (hlcState s1) now = Inr (hs, hlc)" using Inr by (cases p) auto
    obtain causal s2 where ca: "causalFor it (Suc (contigSeq head)) (s1\<lparr>hlcState := hs\<rparr>) = (causal, s2)"
      by fastforce
    have j2: "journaled rs s2" using j1 ring_reads(5) [OF ca] by (simp add: journaled_def)
    show ?thesis
      using j1 j2
      by (auto simp: processAppend_def gs st ca Let_def journaled_cong [of "settle x s" s for x s] split: sum.split
          intro!: all_states_rbind [OF all_states_orAbort] all_states_rbind [OF js_applyEntry])
  qed
qed

lemma js_recoveryStep: "journaled rs s \<Longrightarrow> all_states id (journaled rs) (recoveryStep E now h e tg via s)"
  unfolding recoveryStep_def Let_def
  by (auto simp: journaled_cong [of "settle x s" s for x s] journaled_cong [of "saveHead E now h s" s for h s]
      journaled_cong [of "forgetRecovery t w s" s for t w s]
      intro!: all_states_rbind [OF all_states_orAbort] all_states_rbind [OF js_applyEntry])

lemma js_processExternal:
  assumes "journaled rs s"
  shows "all_states id (journaled rs) (processExternal E now e via s)"
proof -
  obtain head s1 where gs: "getStream E (e_topic e) (e_writer e) s = (head, s1)" by fastforce
  have j1: "journaled rs s1" using assms ring_reads(1) [OF gs] by (simp add: journaled_def)
  obtain cert s2 where gc: "getCert (e_topic e) s1 = (cert, s2)" by fastforce
  have j2: "journaled rs s2" using j1 ring_reads(2) [OF gc] by (simp add: journaled_def)
  have "all_states id (journaled rs) (recoveryIngest E now head e tg via s1)" for tg
    using j1 js_recoveryStep
    by (auto simp: recoveryIngest_def rewindTo_def Let_def journaled_cong [of "settle x s" s for x s])
      (rule js_recoveryStep, simp add: journaled_def)+
  moreover have "all_states id (journaled rs) (extendStream E now head e via s2)"
    unfolding extendStream_def
    by (rule all_states_rbind [OF js_verifyAndApply [OF j2]])
      (auto simp: journaled_cong [of "settle x s" s for x s] intro!: all_states_rbind [OF js_drainPending],
       simp_all add: journaled_def)
  ultimately show ?thesis
    using j1 j2
    by (auto simp: processExternal_def gs gc belowContig_def bufferEntry_def journaled_def split: option.split)
qed

lemma ring_certWriters: "certWriters E now cert ws (n, s) = (n', s') \<Longrightarrow> rings s' = rings s \<and> ringUndo s' = ringUndo s"
proof (induction ws arbitrary: n s)
  case (Cons w ws)
  obtain m s1 where cw: "certWriter E now cert w s = (m, s1)" by fastforce
  obtain h s2 where gs: "getStream E (cert_topic cert) w s = (h, s2)" by fastforce
  have "rings s1 = rings s \<and> ringUndo s1 = ringUndo s"
    using cw ring_reads(1) [OF gs] by (auto simp: certWriter_def gs Let_def split: if_splits)
  then show ?case using Cons cw by simp
qed simp

lemma ring_processCert: "rings (processCert E now c s) = rings s" "ringUndo (processCert E now c s) = ringUndo s"
  by (auto simp: processCert_def Let_def dest!: ring_certWriters split: prod.split)

lemma ring_retireStream:
  "rings (retireStream E now d h s) = rings s" "ringUndo (retireStream E now d h s) = ringUndo s"
  by (auto simp: retireStream_def Let_def split: prod.split)

lemma ring_processDirective:
  "rings (processDirective E now d s) = rings s" "ringUndo (processDirective E now d s) = ringUndo s"
  by (auto simp: processDirective_def Let_def ring_retireStream dest!: ring_reads(1) split: prod.split)

lemma ring_adoptCuts: "rings (adoptCuts E now t cs s) = rings s \<and> ringUndo (adoptCuts E now t cs s) = ringUndo s"
proof (induction E now t cs s rule: adoptCuts.induct)
  case (2 E now t w n c cs s)
  obtain h s1 where gs: "getStream E t w s = (h, s1)" by fastforce
  show ?case using 2 [OF gs [symmetric]] ring_reads(1) [OF gs] by (simp add: gs)
qed simp

lemma js_processRetireTopic:
  assumes "journaled rs s"
  shows "all_states id (journaled rs) (processRetireTopic E now t s)"
proof -
  obtain n st where lc: "logCount (lc_store s) t = (n, st)" by fastforce
  let ?s1 = "s\<lparr>lc_store := st\<rparr>"
  let ?d = "dropWriters t (map w_writer (listWriters (db st) (Some t))) ?s1"
  have "journaled rs ?d" using assms by (simp add: journaled_def)
  then have "journaled rs ((journalRing t ?d)\<lparr>rings := (rings ?d)(t := None)\<rparr>)" by (rule journaled_touch)
  then show ?thesis
    using assms unfolding processRetireTopic_def Let_def lc prod.case
    by (intro all_states_rbind [OF all_states_orAbort]) (auto simp: journaled_def)
qed

lemma js_ackedStreams:
  "journaled rs s \<Longrightarrow> all_states snd (journaled rs) (ackedStreams now t opts cf afs svs (rn, s))"
proof (induction svs arbitrary: rn s)
  case (Cons sv svs)
  obtain prev s1 where fo: "floorOf t (sv_writer sv) s = (prev, s1)" by fastforce
  have j1: "journaled rs s1" using Cons.prems ring_reads(3) [OF fo] by (simp add: journaled_def)
  have del: "all_states snd (journaled rs) (ackedDelete now t w p n rep s1)" for w p n rep
    unfolding ackedDelete_def
    by (rule all_states_rbind [where g = snd]) (use j1 in \<open>auto simp: journaled_def Let_def split: option.split\<close>)
  have "all_states snd (journaled rs) (ackedStream now t opts cf afs sv (rn, s))"
    unfolding ackedStream_def prod.case fo Let_def
    using j1 by (auto split: prod.split intro!: all_states_rbind [OF del])
  then show ?case
    by (simp, intro all_states_rbind) (assumption, auto intro: Cons.IH)
qed simp

lemma js_processPruneAcked:
  assumes "journaled rs s"
  shows "all_states id (journaled rs) (processPruneAcked E now t opts n s)"
proof -
  obtain svs s1 where sv: "streamViews E t s = (svs, s1)" by fastforce
  obtain hs where ho: "headsOf E t (map w_writer (listWriters (lc_db s) (Some t))) s = (hs, s1)"
    using sv by (auto simp: streamViews_def split: prod.splits)
  obtain d' plan where pm: "planMembers (lc_db s1) t opts svs (selfId E) now = (d', plan)" by fastforce
  have j: "journaled rs (withDb (\<lambda>_. d') s1)" using assms ring_reads(4) [OF ho] by (simp add: journaled_def)
  show ?thesis
    unfolding processPruneAcked_def sv pm prod.case Let_def
    by (rule all_states_rbind [OF all_states_orAbort [where P = "journaled rs", OF assms]])
      (use assms j in \<open>auto intro!: all_states_rbind [OF js_ackedStreams] simp: finishAcked_def journaled_def Let_def\<close>)
qed

lemma js_processAdoptFloor:
  assumes "journaled rs s"
  shows "all_states id (journaled rs) (processAdoptFloor E now t w n c s)"
proof -
  obtain h s1 where gs: "getStream E t w s = (h, s1)" by fastforce
  have j1: "journaled rs s1" using assms ring_reads(1) [OF gs] by (simp add: journaled_def)
  have settle: "journaled rs x \<Longrightarrow> journaled rs (settle y x)" for x y by (simp add: journaled_def)
  show ?thesis
    unfolding processAdoptFloor_def Let_def gs prod.case
    by (rule all_states_rbind [OF all_states_orAbort [where P = "journaled rs", OF assms]])
      (use assms j1 in \<open>auto intro!: all_states_rbind [OF js_drainPending] settle simp: journaled_def split: option.split\<close>)
qed

lemma js_processItem:
  assumes "journaled rs s"
  shows "all_states id (journaled rs) (processItem E now item s)"
proof (cases item)
  case (QAdopt t c)
  then show ?thesis
    using assms ring_adoptCuts by (simp add: processItem_def processAdopt_def journaled_def)
next
  case (QPruneTopic t older keep)
  then show ?thesis
    unfolding QPruneTopic processItem_def QueueItem.case processPruneTopic_def Let_def
    using assms by (intro all_states_rbind [OF all_states_orAbort]) (auto simp: journaled_def split: prod.split)
next
  case (QPruneSuperseded t hi n others)
  then show ?thesis
    unfolding QPruneSuperseded processItem_def QueueItem.case processPruneSuperseded_def Let_def
    using assms by (intro all_states_rbind [OF all_states_orAbort])
      (auto simp: journaled_def split: prod.split option.split)
next
  case (QSeal t w)
  then show ?thesis
    using assms by (auto simp: processItem_def processSeal_def journaled_def split: prod.split dest!: ring_reads(1))
next
  case (QCert c)
  then show ?thesis using assms by (simp add: processItem_def ring_processCert journaled_def)
next
  case (QDirective d)
  then show ?thesis using assms by (simp add: processItem_def ring_processDirective journaled_def)
qed (use assms in \<open>simp_all add: processItem_def js_processAppend js_processExternal js_processRetireTopic
      js_processPruneAcked js_processAdoptFloor\<close>)

lemma js_runItems: "journaled rs s \<Longrightarrow> all_states id (journaled rs) (runItems E clk batch s)"
proof (induction batch arbitrary: s)
  case (Cons p batch)
  obtain i item where p: "p = (i, item)" by (cases p)
  show ?case unfolding p runItems.simps
    by (rule all_states_rbind [OF js_processItem [OF Cons.prems]]) (use Cons.IH in simp)
qed simp

lemma js_flushTxn:
  assumes "flushTxn E clk fault batch (beginFlush s) = Inl (err, s')"
  shows "restoreRings (ringUndo s') (rings s') = rings s"
proof -
  have "journaled (rings s) (beginFlush s)"
    by (simp add: journaled_def beginFlush_def restoreRings_def)
  note js = js_runItems [OF this]
  show ?thesis
  proof (cases fault)
    case None
    then show ?thesis
      using assms js [of E clk batch] by (auto simp: flushTxn_def rbind_eq_Inl journaled_def all_states_def)
  next
    case (Some k)
    then show ?thesis
      using assms js [of E clk "take k batch"] by (auto simp: flushTxn_def rbind_eq_Inl journaled_def all_states_def)
  qed
qed

section \<open>Every item settles once\<close>

lemma settled_fields [simp]:
  "settled (settle x s) = settled s @ [x]" "settled (pushApplied e r v s) = settled s"
  "settled (pushAnomaly a s) = settled s" "settled (journalRing t s) = settled s"
  "settled (withDb f s) = settled s" "settled (saveHead E now h s) = settled s"
  "settled (seal E now h e s) = settled s" "settled (mergeClock E now e s) = settled s"
  "settled (dropFrom t w n s) = settled s" "settled (forgetRecovery t w s) = settled s"
  "settled (forkUnlessSealed E now h s) = settled s"
  by (auto simp: settle_def pushApplied_def pushAnomaly_def journalRing_def withDb_def saveHead_def seal_def
      mergeClock_def dropFrom_def forgetRecovery_def forkUnlessSealed_def Let_def split: option.split)

lemma settled_rec [simp]:
  "settled (quarantineAll r now rows s) = settled s" "settled (forgetNodes t ns s) = settled s"
  "settled (dropWriters t ws s) = settled s"
  by (induction rows arbitrary: s) (simp_all add: quarantineAll_def,
    (induction ns arbitrary: s; simp add: forgetNodes_def)+, (induction ws arbitrary: s; simp add: dropWriters_def)+)

lemma settled_reads:
  "getStream E t w s = (h, s') \<Longrightarrow> settled s' = settled s"
  "getCert t s = (c, s') \<Longrightarrow> settled s' = settled s"
  "floorOf t w s = (f, s') \<Longrightarrow> settled s' = settled s"
  "causalFor it n s = (ca, s') \<Longrightarrow> settled s' = settled s"
  "persist E e s = Inr (r, s') \<Longrightarrow> settled s' = settled s"
  "applyEntry E now h e via s = Inr (h', s') \<Longrightarrow> settled s' = settled s"
  "verifyAndApply E now h e via s = Inr (b, h', s') \<Longrightarrow> settled s' = settled s"
proof -
  show "getStream E t w s = (h, s') \<Longrightarrow> settled s' = settled s" by (rule getStream_frame)
  show "getCert t s = (c, s') \<Longrightarrow> settled s' = settled s" by (rule getCert_frame)
  show "floorOf t w s = (f, s') \<Longrightarrow> settled s' = settled s" by (rule floorOf_frame)
  show "causalFor it n s = (ca, s') \<Longrightarrow> settled s' = settled s"
    by (auto simp: causalFor_def split: option.splits prod.splits)
  show per: "persist E e s = Inr (r, s') \<Longrightarrow> settled s' = settled s" for E e s r s'
    by (erule persist_cases) auto
  show app: "applyEntry E now h e via s = Inr (h', s') \<Longrightarrow> settled s' = settled s" for E now h e via s h' s'
    by (auto simp: applyEntry_def rbind_eq_Inr Let_def dest: per)
  show "verifyAndApply E now h e via s = Inr (b, h', s') \<Longrightarrow> settled s' = settled s"
    by (auto simp: verifyAndApply_def rbind_eq_Inr dest: app split: if_splits)
qed

lemma settled_drain: "drainPending E now h via s = Inr s' \<Longrightarrow> settled s' = settled s"
proof (induction E now h via s rule: drainPending.induct)
  case (1 E now head via s)
  show ?case
    using 1(2) 1(1) settled_reads(7)
    by (auto simp: drainPending.simps [of E now head via s] split: option.splits sum.splits if_splits)
qed

definition settles_one :: "LogCore \<Rightarrow> LogCore \<Rightarrow> bool" where
  "settles_one s s' \<longleftrightarrow> length (settled s') = Suc (length (settled s))"

lemma processAppend_cases [consumes 1, case_names rejected appended]:
  assumes run: "processAppend E now it s = Inr s'"
  obtains (rejected) err s2 where "s' = settle (RReject err) s2" "lc_store s2 = lc_store s"
      "settled s2 = settled s"
  | (appended) h s1 hs hlc causal s2 chain e v h' s3 where
      "getStream E (ai_topic it) (selfId E) s = (h, s1)" "sealReason h = None"
      "stamp (hlcState s) now = Inr (hs, hlc)"
      "causalFor it (contigSeq h + 1) (s1\<lparr>hlcState := hs\<rparr>) = (causal, s2)"
      "chainOf (prims E) (prevChainOf E h) (draftEntry E it (contigSeq h + 1) hlc causal) = Inr chain"
      "e = (draftEntry E it (contigSeq h + 1) hlc causal)\<lparr>e_chain := chain\<rparr>"
      "validateEntry (prims E) (constants E) (entry_js e) = Inr v"
      "applyEntry E now h e None s2 = Inr (h', s3)"
      "s' = settle (RAppend (entryKey e)) s3"
proof -
  obtain h s1 where gs: "getStream E (ai_topic it) (selfId E) s = (h, s1)" by fastforce
  note fr = getStream_frame [OF gs]
  show thesis
  proof (cases "sealReason h \<noteq> None \<or> (\<exists>err. stamp (hlcState s) now = Inl err)")
    case True
    then obtain err where "s' = settle (RReject err) s1"
      using run fr(5) by (auto simp: processAppend_def gs split: sum.splits if_splits)
    then show thesis using rejected fr by blast
  next
    case False
    then obtain hs hlc where st: "stamp (hlcState s) now = Inr (hs, hlc)"
      by (cases "stamp (hlcState s) now") auto
    note st1 = st [folded fr(5)]
    obtain causal s2 where ca: "causalFor it (contigSeq h + 1) (s1\<lparr>hlcState := hs\<rparr>) = (causal, s2)" by fastforce
    have s2: "lc_store s2 = lc_store s" "settled s2 = settled s"
      using ca fr by (auto simp: causalFor_def split: option.splits prod.splits)
    let ?draft = "draftEntry E it (contigSeq h + 1) hlc causal"
    obtain chain where ch: "chainOf (prims E) (prevChainOf E h) ?draft = Inr chain"
      using run False by (auto simp: processAppend_def gs st1 ca rbind_eq_Inr Let_def simp del: One_nat_def)
    show thesis
    proof (cases "validateEntry (prims E) (constants E) (entry_js (?draft\<lparr>e_chain := chain\<rparr>))")
      case (Inl err)
      then have "s' = settle (RReject err) s2"
        using run False ca ch by (simp add: processAppend_def gs st1 orAbort_def Let_def)
      then show thesis using rejected s2 by blast
    next
      case (Inr v)
      then obtain h' s3 where "applyEntry E now h (?draft\<lparr>e_chain := chain\<rparr>) None s2 = Inr (h', s3)"
        "s' = settle (RAppend (entryKey (?draft\<lparr>e_chain := chain\<rparr>))) s3"
        using run False ca ch by (auto simp: processAppend_def gs st1 orAbort_def rbind_eq_Inr Let_def)
      then show thesis using appended gs False st ca ch Inr by blast
    qed
  qed
qed

lemma one_processAppend: "processAppend E now it s = Inr s' \<Longrightarrow> settles_one s s'"
proof (erule processAppend_cases)
  fix h s1 hs causal s2 e h' s3 and n :: nat
  assume "getStream E (ai_topic it) (selfId E) s = (h, s1)"
    "causalFor it (contigSeq h + 1) (s1\<lparr>hlcState := hs\<rparr>) = (causal, s2)"
    "applyEntry E now h e None s2 = Inr (h', s3)" "s' = settle (RAppend (entryKey e)) s3"
  then show "settles_one s s'"
    using settled_reads(1) [of E "ai_topic it" "selfId E" s h s1] settled_reads(4) [of it _ _ causal s2]
      settled_reads(6) [of E now h e None s2 h' s3] by (simp add: settles_one_def)
qed (simp add: settles_one_def)

lemma one_recoveryStep: "recoveryStep E now h e tg via s = Inr s' \<Longrightarrow> settles_one s s'"
  by (auto simp: recoveryStep_def settles_one_def rbind_eq_Inr Let_def dest!: settled_reads(6) split: if_splits)

lemma one_recoveryIngest: "recoveryIngest E now h e tg via s = Inr s' \<Longrightarrow> settles_one s s'"
  by (auto simp: recoveryIngest_def rewindTo_def settles_one_def Let_def
      dest!: one_recoveryStep [unfolded settles_one_def] split: if_splits)

lemma one_processExternal: "processExternal E now e via s = Inr s' \<Longrightarrow> settles_one s s'"
  by (auto simp: processExternal_def settles_one_def belowContig_def bufferEntry_def extendStream_def rbind_eq_Inr
      dest!: one_recoveryIngest [unfolded settles_one_def] settled_reads(1,2,7) settled_drain
      split: prod.splits if_splits option.splits)

lemma settled_certWriters: "certWriters E now cert ws (n, s) = (n', s') \<Longrightarrow> settled s' = settled s"
proof (induction ws arbitrary: n s)
  case (Cons w ws)
  obtain m s1 where cw: "certWriter E now cert w s = (m, s1)" by fastforce
  obtain h s2 where gs: "getStream E (cert_topic cert) w s = (h, s2)" by fastforce
  have "settled s1 = settled s"
    using cw settled_reads(1) [OF gs] by (auto simp: certWriter_def gs Let_def split: if_splits)
  then show ?case using Cons cw by simp
qed simp

lemma settled_adoptCuts: "settled (adoptCuts E now t cs s) = settled s"
proof (induction E now t cs s rule: adoptCuts.induct)
  case (2 E now t w n c cs s)
  obtain h s1 where gs: "getStream E t w s = (h, s1)" by fastforce
  show ?case using 2 [OF gs [symmetric]] settled_reads(1) [OF gs] by (simp add: gs)
qed simp

lemma one_processDirective: "settles_one s (processDirective E now d s)"
  by (auto simp: processDirective_def retireStream_def settles_one_def Let_def dest!: settled_reads(1)
      split: prod.split)

lemma settled_headsOf: "headsOf E t ws s = (hs, s') \<Longrightarrow> settled s' = settled s"
proof (induction ws arbitrary: hs s)
  case (Cons w ws)
  obtain h s1 where g: "getStream E t w s = (h, s1)" by fastforce
  obtain hs1 where "headsOf E t ws s1 = (hs1, s')" using Cons.prems by (auto simp: g split: prod.splits)
  then show ?case using Cons.IH settled_reads(1) [OF g] by simp
qed simp

lemma settled_ackedStreams: "ackedStreams now t opts cf afs svs (rn, s) = Inr (rn', s') \<Longrightarrow> settled s' = settled s"
proof (induction svs arbitrary: rn s)
  case (Cons sv svs)
  obtain rn1 s1 where s1: "ackedStream now t opts cf afs sv (rn, s) = Inr (rn1, s1)"
    "ackedStreams now t opts cf afs svs (rn1, s1) = Inr (rn', s')" using Cons.prems by (auto simp: rbind_eq_Inr)
  have del: "ackedDelete now t w p n rep s = Inr (rep', s') \<Longrightarrow> settled s' = settled s" for w p n rep s rep' s'
    by (auto simp: ackedDelete_def rbind_eq_Inr Let_def split: if_splits option.splits)
  have "settled s1 = settled s"
    using s1(1) by (auto simp: ackedStream_def Let_def rbind_eq_Inr dest!: settled_reads(3) del
        split: prod.splits if_splits)
  then show ?case using Cons.IH [OF s1(2)] by simp
qed simp

lemma one_processPruneAcked:
  assumes "processPruneAcked E now t opts n s = Inr s'"
  shows "settles_one s s'"
proof -
  obtain svs s1 where sv: "streamViews E t s = (svs, s1)" by fastforce
  then obtain hs where "headsOf E t (map w_writer (listWriters (lc_db s) (Some t))) s = (hs, s1)"
    by (auto simp: streamViews_def split: prod.splits)
  then have s1: "settled s1 = settled s" by (rule settled_headsOf)
  obtain d' plan where pm: "planMembers (lc_db s1) t opts svs (selfId E) now = (d', plan)" by fastforce
  obtain refused where "ackedRetentionRefusal (registry E) t = Inr refused"
    using assms by (auto simp: processPruneAcked_def rbind_eq_Inr)
  then show ?thesis
    using assms s1
    by (auto simp: processPruneAcked_def sv pm Let_def rbind_eq_Inr orAbort_def finishAcked_def settles_one_def
        dest!: settled_ackedStreams split: if_splits)
qed

lemma one_processAdoptFloor: "processAdoptFloor E now t w n c s = Inr s' \<Longrightarrow> settles_one s s'"
  by (auto simp: processAdoptFloor_def settles_one_def Let_def rbind_eq_Inr dest!: settled_reads(1) settled_drain
      split: prod.splits if_splits option.splits)

lemma one_processItem: "processItem E now item s = Inr s' \<Longrightarrow> settles_one s s'"
proof (cases item)
  case (QCert c)
  assume "processItem E now item s = Inr s'"
  then show ?thesis
    by (auto simp: QCert processItem_def processCert_def settles_one_def Let_def dest!: settled_certWriters
        split: prod.splits)
next
  case (QRetireTopic t)
  assume "processItem E now item s = Inr s'"
  then show ?thesis
    by (auto simp: QRetireTopic processItem_def processRetireTopic_def settles_one_def Let_def rbind_eq_Inr
        split: prod.splits if_splits)
next
  case (QPruneTopic t older keep)
  assume "processItem E now item s = Inr s'"
  then show ?thesis
    by (auto simp: QPruneTopic processItem_def processPruneTopic_def settles_one_def Let_def rbind_eq_Inr
        split: prod.splits if_splits)
next
  case (QPruneSuperseded t hi n others)
  assume "processItem E now item s = Inr s'"
  then obtain te where "reg_get (registry E) t = Inr te" and
      r: "processPruneSuperseded E t hi n others s = Inr s'"
    by (auto simp: QPruneSuperseded processItem_def processPruneSuperseded_def rbind_eq_Inr)
  then show ?thesis
    by (cases "p_keyed (te_policy te)")
      (auto simp: processPruneSuperseded_def settles_one_def Let_def orAbort_def split: prod.splits if_splits)
next
  case (QSeal t w)
  assume "processItem E now item s = Inr s'"
  then show ?thesis
    by (auto simp: QSeal processItem_def processSeal_def settles_one_def dest!: settled_reads(1) split: prod.splits)
next
  case (QAdopt t c)
  assume "processItem E now item s = Inr s'"
  then show ?thesis by (auto simp: QAdopt processItem_def processAdopt_def settles_one_def settled_adoptCuts)
qed (auto simp: processItem_def intro: one_processAppend one_processExternal one_processDirective
      one_processPruneAcked one_processAdoptFloor)

lemma one_runItems: "runItems E clk batch s = Inr s' \<Longrightarrow> length (settled s') = length (settled s) + length batch"
proof (induction batch arbitrary: s)
  case (Cons p batch)
  obtain i item where p: "p = (i, item)" by (cases p)
  obtain s1 where s1: "processItem E (clk i) item s = Inr s1" "runItems E clk batch s1 = Inr s'"
    using Cons.prems by (auto simp: p rbind_eq_Inr)
  then show ?case using Cons.IH [OF s1(2)] one_processItem [OF s1(1)] by (simp add: settles_one_def)
qed simp

end
