(* ===== verification/Log_Atomic.thy ===== *)
theory Log_Atomic
  imports Log_Demo Log_Clean
begin

text \<open>
  What a flush promises as a whole: every queued item settles exactly once, an aborted
  transaction leaves no trace in tables or side state, and the clock never runs backwards,
  across flushes and restarts. The one side state the abort does not restore, the row-count
  cache of the store, is shown to go stale.
\<close>

section \<open>Settling\<close>

text \<open>C24. A flush settles every queued promise exactly once and in queue order, whether the
  transaction commits, aborts at any point, or the node is closed; the queue is empty afterwards
  and earlier settlements are kept.\<close>

theorem each_item_settles_once:
  "map fst (q_done (flush E clk fault q)) = map fst (q_done q) @ map fst (q_items q) \<and> q_items (flush E clk fault q) = []"
proof (cases "q_closed q \<or> q_items q = []")
  case True
  then show ?thesis by (auto simp: flush_def Let_def rejectQueueClosed_def rejectAll_def)
next
  case False
  show ?thesis
  proof (cases "flushTxn E clk fault (q_items q) (beginFlush (q_core q))")
    case (Inl z)
    then show ?thesis using False by (cases z) (simp add: flush_def Let_def rejectAll_def comp_def)
  next
    case (Inr s)
    then obtain s1 where run: "runItems E clk (q_items q) (beginFlush (q_core q)) = Inr s1"
      and s: "s = withDb (\<lambda>d. metaSetHlc d (hlcState s1)) s1"
      by (auto simp: flushTxn_def rbind_eq_Inr split: option.splits)
    have "length (settled s) = length (q_items q)"
      using one_runItems [OF run] s by (simp add: beginFlush_def)
    then show ?thesis using False Inr by (simp add: flush_def Let_def)
  qed
qed

section \<open>Abort\<close>

text \<open>C6. An aborted flush restores everything a caller can see: tables, clock, recoveries, ring
  tails and scope tails are what they were when it began, the caches over the store are empty,
  every item is rejected with the error, and neither hooks nor anomaly events run.\<close>

theorem aborted_flush_restores:
  assumes "\<not> q_closed q" "q_items q \<noteq> []"
    "flushTxn E clk fault (q_items q) (beginFlush (q_core q)) = Inl (err, s)"
  shows "let q' = flush E clk fault q; c = q_core q; c' = q_core q' in
    lc_db c' = lc_db c \<and> hlcState c' = hlcState c \<and> recoveries c' = recoveries c \<and> rings c' = rings c \<and>
    scopeTails c' = scopeTails c \<and> heads c' = Map.empty \<and> certs c' = Map.empty \<and> floors c' = Map.empty \<and>
    vectorsCache c' = None \<and> q_done q' = q_done q @ map (\<lambda>(i, _). (i, RReject err)) (q_items q) \<and>
    q_hooks q' = q_hooks q \<and> q_emitted q' = q_emitted q"
  using assms js_flushTxn [OF assms(3)]
  by (simp add: flush_def Let_def rollback_def beginFlush_def rejectAll_def case_prod_beta)

lemma demo_fault: "flushTxn demo_env (\<lambda>_. 7) (Some 1) (q_items demo_queue) (beginFlush (q_core demo_queue)) = Inl (ERR_STORAGE, demo_applied)"
  by (simp add: flushTxn_def processItem_def demo_run)

theorem aborted_flush_restores_witness:
  "sq_log (lc_db demo_applied) = [(1, demo_first)] \<and>
   sq_log (lc_db (q_core (flush demo_env (\<lambda>_. 7) (Some 1) demo_queue))) = [] \<and>
   q_done (flush demo_env (\<lambda>_. 7) (Some 1) demo_queue) = [(0, RReject ERR_STORAGE)]"
  using aborted_flush_restores [OF _ _ demo_fault]
  by (simp add: Let_def LogCore_new_def empty_store_def empty_db_def demo_applied_def split: prod.split)

section \<open>Counts after an abort\<close>

definition demo_counted :: LogQueue where
  "demo_counted = push demo_env (QAppend (demo_item ''k'')) (newQueue (snd (logCount empty_store ''k'')))"

definition demo_aborted :: LogCore where
  "demo_aborted = q_core (flush demo_env (\<lambda>_. 7) (Some 1) demo_counted)"

lemma demo_counted_fields:
  "q_items demo_counted = [(0, QAppend (demo_item ''k''))]" "q_closed demo_counted = False"
  "q_core demo_counted = LogCore_new (empty_store\<lparr>logCounts := [''k'' \<mapsto> 0]\<rparr>)"
  by (simp_all add: demo_counted_def push_def newQueue_def Let_def logCount_def empty_store_def countRows_def
      topicRows_def empty_db_def)

lemma demo_aborted_store:
  "sq_log (lc_db demo_aborted) = []" "logCounts (lc_store demo_aborted) ''k'' = Some 1"
proof -
  let ?s0 = "beginFlush (LogCore_new (empty_store\<lparr>logCounts := [''k'' \<mapsto> 0]\<rparr>))"
  let ?st = "empty_store\<lparr>db := empty_db\<lparr>sq_log := [(1, demo_row ''k'' ''me'' 1 demo_hlc)], log_autoinc := 1\<rparr>,
     logCounts := [''k'' \<mapsto> 1]\<rparr>"
  obtain head s1 where gs: "getStream demo_env ''k'' ''me'' ?s0 = (head, s1)" by fastforce
  have head: "head = freshHead demo_env ''k'' ''me''" and st: "lc_store s1 = empty_store\<lparr>logCounts := [''k'' \<mapsto> 0]\<rparr>"
    and hs: "hlcState s1 = \<lparr>hlc_l = 0, hlc_c = 0\<rparr>"
    using gs by (auto simp: getStream_def beginFlush_def LogCore_new_def storedHead_def getWriter_def
        empty_store_def empty_db_def Let_def)
  have ins: "insertEntry (empty_store\<lparr>logCounts := [''k'' \<mapsto> 0]\<rparr>) (demo_row ''k'' ''me'' (Suc (contigSeq head)) demo_hlc) = Inr (1, ?st)"
    by (simp add: insertEntry_def empty_store_def empty_db_def head freshHead_def onDb_def demo_row_def)
  have "stamp (hlcState s1) 7 = Inr (demo_hlc, demo_hlc)"
    by (simp add: hs stamp_def demo_hlc_def HLC_C_LIMIT_def Let_def)
  then obtain s2 where run: "processAppend demo_env 7 (demo_item ''k'') ?s0 = Inr s2"
    and s2: "logCounts (lc_store s2) = [''k'' \<mapsto> 1]"
    using demo_append [OF _ gs, of 7 demo_hlc] ins st
    by (simp add: head freshHead_def small_hlc_def demo_hlc_def Let_def)
  have "q_core (flush demo_env (\<lambda>_. 7) (Some 1) demo_counted) = rollback ?s0 s2"
    by (simp add: flush_def demo_counted_fields flushTxn_def processItem_def run Let_def)
  then show "sq_log (lc_db demo_aborted) = []" "logCounts (lc_store demo_aborted) ''k'' = Some 1"
    unfolding demo_aborted_def
    by (simp_all add: rollback_def s2) (simp add: beginFlush_def LogCore_new_def empty_store_def empty_db_def)
qed

text \<open>The row-count cache is not part of the rollback. A topic whose count was cached as zero
  and whose only append is aborted holds no row afterwards, yet its count reads one, and
  collecting its writer rows is refused; with the caches of a reopened store it succeeds.\<close>

theorem stale_count_after_abort:
  "countRows (lc_db demo_aborted) ''k'' = 0 \<and> fst (logCount (lc_store demo_aborted) ''k'') = 1 \<and>
   map_sum fst settled (processRetireTopic demo_env 8 ''k'' demo_aborted) = Inr (settled demo_aborted @ [RReject ERR_MISUSE]) \<and>
   map_sum fst settled (processRetireTopic demo_env 8 ''k'' (demo_aborted\<lparr>lc_store := reopen (lc_store demo_aborted)\<rparr>)) =
     Inr (settled demo_aborted @ [RRetired (length (listWriters (lc_db demo_aborted) (Some ''k'')))])"
proof -
  have zero: "countRows (lc_db demo_aborted) ''k'' = 0"
    by (simp add: countRows_def topicRows_def demo_aborted_store)
  have stale: "logCount (lc_store demo_aborted) ''k'' = (1, lc_store demo_aborted)"
    by (simp add: logCount_def demo_aborted_store)
  obtain st where fresh: "logCount (reopen (lc_store demo_aborted)) ''k'' = (0, st)" and st: "db st = lc_db demo_aborted"
    using zero by (simp add: logCount_def reopen_def Let_def)
  have "processRetireTopic demo_env 8 ''k'' demo_aborted = Inr (settle (RReject ERR_MISUSE) demo_aborted)"
    by (simp add: processRetireTopic_def demo_registry orAbort_def stale)
  moreover have "map_sum fst settled (processRetireTopic demo_env 8 ''k'' (demo_aborted\<lparr>lc_store := reopen (lc_store demo_aborted)\<rparr>)) =
     Inr (settled demo_aborted @ [RRetired (length (listWriters (lc_db demo_aborted) (Some ''k'')))])"
    by (simp add: processRetireTopic_def demo_registry orAbort_def fresh st Let_def settle_def)
  ultimately show ?thesis using zero stale by (simp add: settle_def)
qed

section \<open>The clock\<close>

definition clock_le :: "LogCore \<Rightarrow> LogCore \<Rightarrow> bool" where
  "clock_le s s' \<longleftrightarrow> hlcCompare (hlcState s) (hlcState s') \<le> 0"

lemma clock_same: "hlcState s' = hlcState s \<Longrightarrow> clock_le s s'"
  by (simp add: clock_le_def hlcOrd.cmp_refl)

lemma clock_trans: "clock_le s s1 \<Longrightarrow> clock_le s1 s2 \<Longrightarrow> clock_le s s2"
  using hlcOrd.cmp_le_trans by (simp add: clock_le_def)

lemma clock_fields [simp]:
  "hlcState (seal E now h e s) = hlcState s" "hlcState (dropFrom t w n s) = hlcState s"
  "hlcState (forgetRecovery t w s) = hlcState s" "hlcState (forkUnlessSealed E now h s) = hlcState s"
  by (simp_all add: seal_def dropFrom_def forgetRecovery_def forkUnlessSealed_def)

lemma clock_rec [simp]:
  "hlcState (quarantineAll r now rows s) = hlcState s" "hlcState (forgetNodes t ns s) = hlcState s"
  "hlcState (dropWriters t ws s) = hlcState s"
  by (induction rows arbitrary: s) (simp_all add: quarantineAll_def,
    (induction ns arbitrary: s; simp add: forgetNodes_def)+, (induction ws arbitrary: s; simp add: dropWriters_def)+)

lemma clock_merge: "clock_le s (mergeClock E now e s)"
  using merge_gt_state [of "hlcState s" "e_hlc e" now]
  by (simp add: clock_le_def mergeClock_def hlcOrd.cmp_refl)

lemma clock_reads:
  "getStream E t w s = (h, s') \<Longrightarrow> hlcState s' = hlcState s"
  "getCert t s = (c, s') \<Longrightarrow> hlcState s' = hlcState s"
  "floorOf t w s = (f, s') \<Longrightarrow> hlcState s' = hlcState s"
  "causalFor it n s = (ca, s') \<Longrightarrow> hlcState s' = hlcState s"
  "applyEntry E now h e via s = Inr (h', s') \<Longrightarrow> hlcState s' = hlcState s"
  "verifyAndApply E now h e via s = Inr (b, h', s') \<Longrightarrow> hlcState s' = hlcState s"
proof -
  show "getStream E t w s = (h, s') \<Longrightarrow> hlcState s' = hlcState s" by (rule getStream_frame)
  show "getCert t s = (c, s') \<Longrightarrow> hlcState s' = hlcState s" by (rule getCert_frame)
  show "floorOf t w s = (f, s') \<Longrightarrow> hlcState s' = hlcState s" by (rule floorOf_frame)
  show "causalFor it n s = (ca, s') \<Longrightarrow> hlcState s' = hlcState s"
    by (auto simp: causalFor_def split: option.splits prod.splits)
  show app: "applyEntry E now h e via s = Inr (h', s') \<Longrightarrow> hlcState s' = hlcState s" for E now h e via s h' s'
    by (auto simp: applyEntry_def rbind_eq_Inr Let_def elim!: persist_cases)
  show "verifyAndApply E now h e via s = Inr (b, h', s') \<Longrightarrow> hlcState s' = hlcState s"
    by (auto simp: verifyAndApply_def rbind_eq_Inr dest: app split: if_splits)
qed

lemma clock_drain: "drainPending E now h via s = Inr s' \<Longrightarrow> hlcState s' = hlcState s"
proof (induction E now h via s rule: drainPending.induct)
  case (1 E now head via s)
  show ?case
    using 1(2) 1(1) clock_reads(6)
    by (auto simp: drainPending.simps [of E now head via s] split: option.splits sum.splits if_splits)
qed

lemma clock_processAppend:
  assumes "processAppend E now it s = Inr s'"
  shows "clock_le s s'"
proof -
  obtain h s1 where gs: "getStream E (ai_topic it) (selfId E) s = (h, s1)" by fastforce
  note gc = clock_reads(1) [OF gs]
  show ?thesis
  proof (cases "sealReason h \<noteq> None \<or> (\<exists>err. stamp (hlcState s1) now = Inl err)")
    case True
    then show ?thesis using assms gc by (auto simp: processAppend_def gs intro: clock_same split: sum.splits if_splits)
  next
    case False
    then obtain hs hlc where st: "stamp (hlcState s1) now = Inr (hs, hlc)"
      by (cases "stamp (hlcState s1) now") auto
    obtain ca s2 where ca: "causalFor it (contigSeq h + 1) (s1\<lparr>hlcState := hs\<rparr>) = (ca, s2)" by fastforce
    have "hlcState s2 = hs" using clock_reads(4) [OF ca] by simp
    then have "clock_le s s2" using stamp_ok(1,2) [OF st] gc by (simp add: clock_le_def)
    moreover have "hlcState s' = hlcState s2"
      using assms False st ca
      by (auto simp: processAppend_def gs rbind_eq_Inr Let_def orAbort_def dest: clock_reads(5) simp del: One_nat_def
          split: sum.splits)
    ultimately show ?thesis by (simp add: clock_le_def)
  qed
qed

lemma clock_recovery:
  "recoveryStep E now h e tg via s = Inr s' \<Longrightarrow> hlcState s' = hlcState s"
  "recoveryIngest E now h e tg via s = Inr s' \<Longrightarrow> hlcState s' = hlcState s"
proof -
  show step: "recoveryStep E now h e tg via s = Inr s' \<Longrightarrow> hlcState s' = hlcState s" for h s
    by (auto simp: recoveryStep_def rbind_eq_Inr Let_def dest!: clock_reads(5) split: if_splits)
  show "recoveryIngest E now h e tg via s = Inr s' \<Longrightarrow> hlcState s' = hlcState s"
    by (auto simp: recoveryIngest_def rewindTo_def Let_def dest!: step split: if_splits)
qed

lemma clock_processExternal:
  assumes "processExternal E now e via s = Inr s'"
  shows "clock_le s s'"
proof -
  obtain h s1 where gs: "getStream E (e_topic e) (e_writer e) s = (h, s1)" by fastforce
  obtain c s2 where gc: "getCert (e_topic e) s1 = (c, s2)" by fastforce
  have h1: "hlcState s1 = hlcState s" and h2: "hlcState s2 = hlcState s"
    using clock_reads(1) [OF gs] clock_reads(2) [OF gc] by simp_all
  have ext: "clock_le s2 x" if es: "extendStream E now h e via s2 = Inr x" for x
  proof -
    obtain b h' s3 where va: "verifyAndApply E now h e via s2 = Inr (b, h', s3)"
      using es by (auto simp: extendStream_def rbind_eq_Inr)
    have "hlcState x = hlcState s3 \<or> hlcState x = hlcState (mergeClock E now e s3)"
      using es va by (auto simp: extendStream_def rbind_eq_Inr dest!: clock_drain split: if_splits)
    then show ?thesis
      using clock_reads(6) [OF va] clock_merge [of s3 E now e] by (auto simp: clock_le_def hlcOrd.cmp_refl)
  qed
  have buf: "clock_le s2 (bufferEntry E now h e s2)"
    using clock_merge [of "withDb (\<lambda>d. pendingPut d e) s2" E now e]
    by (auto simp: bufferEntry_def clock_le_def hlcOrd.cmp_refl split: option.split)
  have below: "clock_le s2 (belowContig E now h e s2)"
    by (auto simp: belowContig_def clock_le_def hlcOrd.cmp_refl split: option.split)
  have "clock_le s1 s' \<or> clock_le s2 s'"
    using assms ext buf below
    by (auto simp: processExternal_def gs gc dest!: clock_recovery(2) intro: clock_same split: if_splits option.splits)
  then show ?thesis using h1 h2 by (auto simp: clock_le_def)
qed

lemma clock_certWriters: "certWriters E now cert ws (n, s) = (n', s') \<Longrightarrow> hlcState s' = hlcState s"
proof (induction ws arbitrary: n s)
  case (Cons w ws)
  obtain m s1 where cw: "certWriter E now cert w s = (m, s1)" by fastforce
  obtain h s2 where gs: "getStream E (cert_topic cert) w s = (h, s2)" by fastforce
  have "hlcState s1 = hlcState s"
    using cw clock_reads(1) [OF gs] by (auto simp: certWriter_def gs Let_def split: if_splits)
  then show ?case using Cons cw by simp
qed simp

lemma clock_adoptCuts: "hlcState (adoptCuts E now t cs s) = hlcState s"
proof (induction E now t cs s rule: adoptCuts.induct)
  case (2 E now t w n c cs s)
  obtain h s1 where gs: "getStream E t w s = (h, s1)" by fastforce
  show ?case using 2 [OF gs [symmetric]] clock_reads(1) [OF gs] by (simp add: gs)
qed simp

lemma clock_processDirective: "hlcState (processDirective E now d s) = hlcState s"
  by (auto simp: processDirective_def retireStream_def Let_def dest!: clock_reads(1) split: prod.split)

lemma clock_headsOf: "headsOf E t ws s = (hs, s') \<Longrightarrow> hlcState s' = hlcState s"
proof (induction ws arbitrary: hs s)
  case (Cons w ws)
  obtain h s1 where g: "getStream E t w s = (h, s1)" by fastforce
  obtain hs1 where "headsOf E t ws s1 = (hs1, s')" using Cons.prems by (auto simp: g split: prod.splits)
  then show ?case using Cons.IH clock_reads(1) [OF g] by simp
qed simp

lemma clock_ackedStreams: "ackedStreams now t opts cf afs svs (rn, s) = Inr (rn', s') \<Longrightarrow> hlcState s' = hlcState s"
proof (induction svs arbitrary: rn s)
  case (Cons sv svs)
  obtain rn1 s1 where s1: "ackedStream now t opts cf afs sv (rn, s) = Inr (rn1, s1)"
    "ackedStreams now t opts cf afs svs (rn1, s1) = Inr (rn', s')" using Cons.prems by (auto simp: rbind_eq_Inr)
  have del: "ackedDelete now t w p n rep s = Inr (rep', s') \<Longrightarrow> hlcState s' = hlcState s" for w p n rep s rep' s'
    by (auto simp: ackedDelete_def rbind_eq_Inr Let_def split: if_splits option.splits)
  have "hlcState s1 = hlcState s"
    using s1(1) by (auto simp: ackedStream_def Let_def rbind_eq_Inr dest!: clock_reads(3) del
        split: prod.splits if_splits)
  then show ?case using Cons.IH [OF s1(2)] by simp
qed simp

lemma clock_processPruneAcked:
  assumes "processPruneAcked E now t opts n s = Inr s'"
  shows "hlcState s' = hlcState s"
proof -
  obtain svs s1 where sv: "streamViews E t s = (svs, s1)" by fastforce
  then obtain hs where "headsOf E t (map w_writer (listWriters (lc_db s) (Some t))) s = (hs, s1)"
    by (auto simp: streamViews_def split: prod.splits)
  then have s1: "hlcState s1 = hlcState s" by (rule clock_headsOf)
  obtain d' plan where pm: "planMembers (lc_db s1) t opts svs (selfId E) now = (d', plan)" by fastforce
  obtain refused where "ackedRetentionRefusal (registry E) t = Inr refused"
    using assms by (auto simp: processPruneAcked_def rbind_eq_Inr)
  then show ?thesis
    using assms s1
    by (auto simp: processPruneAcked_def sv pm Let_def rbind_eq_Inr orAbort_def finishAcked_def
        dest!: clock_ackedStreams split: if_splits)
qed

lemma clock_processAdoptFloor: "processAdoptFloor E now t w n c s = Inr s' \<Longrightarrow> hlcState s' = hlcState s"
  by (auto simp: processAdoptFloor_def Let_def rbind_eq_Inr dest!: clock_reads(1) clock_drain
      split: prod.splits if_splits option.splits)

lemma clock_processItem: "processItem E now item s = Inr s' \<Longrightarrow> clock_le s s'"
proof (cases item)
  case (QCert c)
  assume "processItem E now item s = Inr s'"
  then show ?thesis
    by (auto simp: QCert processItem_def processCert_def Let_def dest!: clock_certWriters intro!: clock_same
        split: prod.splits)
next
  case (QRetireTopic t)
  assume "processItem E now item s = Inr s'"
  then show ?thesis
    by (auto simp: QRetireTopic processItem_def processRetireTopic_def Let_def rbind_eq_Inr intro!: clock_same
        split: prod.splits if_splits)
next
  case (QPruneTopic t older keep)
  assume "processItem E now item s = Inr s'"
  then show ?thesis
    by (auto simp: QPruneTopic processItem_def processPruneTopic_def Let_def rbind_eq_Inr intro!: clock_same
        split: prod.splits if_splits)
next
  case (QPruneSuperseded t hi n others)
  assume "processItem E now item s = Inr s'"
  then obtain te where "reg_get (registry E) t = Inr te" and
      r: "processPruneSuperseded E t hi n others s = Inr s'"
    by (auto simp: QPruneSuperseded processItem_def processPruneSuperseded_def rbind_eq_Inr)
  then show ?thesis
    by (cases "p_keyed (te_policy te)")
      (auto simp: processPruneSuperseded_def Let_def orAbort_def intro!: clock_same split: prod.splits if_splits)
next
  case (QSeal t w)
  assume "processItem E now item s = Inr s'"
  then show ?thesis
    by (auto simp: QSeal processItem_def processSeal_def dest!: clock_reads(1) intro!: clock_same split: prod.splits)
next
  case (QAdopt t c)
  assume "processItem E now item s = Inr s'"
  then show ?thesis by (auto simp: QAdopt processItem_def processAdopt_def clock_adoptCuts intro!: clock_same)
qed (auto simp: processItem_def clock_processDirective
      intro: clock_processAppend clock_processExternal clock_same dest: clock_processPruneAcked clock_processAdoptFloor)

lemma clock_runItems: "runItems E clk batch s = Inr s' \<Longrightarrow> clock_le s s'"
proof (induction batch arbitrary: s)
  case (Cons p batch)
  obtain i item where p: "p = (i, item)" by (cases p)
  obtain s1 where s1: "processItem E (clk i) item s = Inr s1" "runItems E clk batch s1 = Inr s'"
    using Cons.prems by (auto simp: p rbind_eq_Inr)
  then show ?case using Cons.IH [OF s1(2)] clock_processItem [OF s1(1)] clock_trans by blast
qed (simp add: clock_same)

text \<open>The clock never runs backwards: over a whole flush, with any wall-clock readings, the
  hybrid logical clock of the node moves forward or stays, whether the flush commits or aborts;
  and after a commit a node opened on the committed tables resumes exactly at that clock.\<close>

theorem clock_survives_flush_and_restart:
  "case flushTxn E clk fault batch s of
     Inr s' \<Rightarrow> hlcCompare (hlcState s) (hlcState s') \<le> 0 \<and>
       hlcState (LogCore_new (reopen (lc_store (commitFlush s')))) = hlcState s'
   | Inl (err, s') \<Rightarrow> hlcState (rollback s s') = hlcState s"
proof (cases "flushTxn E clk fault batch s")
  case (Inl z)
  then show ?thesis by (cases z) (simp add: rollback_def)
next
  case (Inr s')
  then obtain s1 where run: "runItems E clk batch s = Inr s1" and s': "s' = withDb (\<lambda>d. metaSetHlc d (hlcState s1)) s1"
    by (auto simp: flushTxn_def rbind_eq_Inr split: option.splits)
  have "hlcState (LogCore_new (reopen (lc_store (commitFlush s')))) = hlcState s1"
    by (simp add: s' LogCore_new_def reopen_def commitFlush_def withDb_def onDb_def metaSetHlc_def)
  then show ?thesis using clock_runItems [OF run] Inr s' by (simp add: clock_le_def)
qed

end
