(* ===== verification/Log_Integrity.thy ===== *)
theory Log_Integrity
  imports Log_Demo Log_Clean
begin

text \<open>
  What the log promises about the entries it takes in: held streams are chain-verified, cached
  reads are exact, a local append extends its own stream, an external entry only ever extends
  its stream, forks are noticed and frozen, and redelivery changes nothing.
\<close>

section \<open>The effect of applying one entry\<close>

definition fullMode :: "LogEnv \<Rightarrow> string \<Rightarrow> bool" where
  "fullMode E t = (case reg_get (registry E) t of Inr te \<Rightarrow> p_mode (te_policy te) = ''full'' | Inl _ \<Rightarrow> False)"

definition addRow :: "LogEnv \<Rightarrow> LogEntry \<Rightarrow> Db \<Rightarrow> LogRow list" where
  "addRow E e d = (if fullMode E (e_topic e) then [(Suc (log_autoinc d), e)] else [])"

lemma persist_effect:
  assumes "persist E e s = Inr (r, s1)"
  shows "lc_db s1 = (lc_db s)\<lparr>sq_log := sq_log (lc_db s) @ addRow E e (lc_db s),
        log_autoinc := log_autoinc (lc_db s) + length (addRow E e (lc_db s))\<rparr>"
    "hlcState s1 = hlcState s" "heads s1 = heads s" "recoveries s1 = recoveries s" "certs s1 = certs s"
    "settled s1 = settled s" "applied s1 = applied s" "anomalies s1 = anomalies s"
proof -
  show "lc_db s1 = (lc_db s)\<lparr>sq_log := sq_log (lc_db s) @ addRow E e (lc_db s),
        log_autoinc := log_autoinc (lc_db s) + length (addRow E e (lc_db s))\<rparr>"
    using assms
  proof (cases rule: persist_cases)
    case (full st' rowid te)
    then show ?thesis using insertEntry_Inr(2,3) [OF full(2)] by (simp add: addRow_def fullMode_def)
  qed (simp add: addRow_def fullMode_def)
  show "hlcState s1 = hlcState s" "heads s1 = heads s" "recoveries s1 = recoveries s" "certs s1 = certs s"
    "settled s1 = settled s" "applied s1 = applied s" "anomalies s1 = anomalies s"
    using assms by (auto elim!: persist_cases)
qed

lemma applyEntry_effect:
  assumes "applyEntry E now h e via s = Inr (h', s')"
  shows "h' = setContig e h" "hlcState s' = hlcState s" "recoveries s' = recoveries s"
    "sq_log (lc_db s') = sq_log (lc_db s) @ addRow E e (lc_db s)"
    "storedHead E (lc_db s') = (storedHead E (lc_db s))((w_topic h, w_writer h) := setContig e h)"
    "sq_pending (lc_db s') = sq_pending (lc_db s)" "sq_finality (lc_db s') = sq_finality (lc_db s)"
    "\<exists>r. applied s' = applied s @ [(e, r, via)]"
    "log_autoinc (lc_db s') = log_autoinc (lc_db s) + length (addRow E e (lc_db s))"
proof -
  obtain r s1 where per: "persist E e s = Inr (r, s1)" and h': "h' = setContig e h"
    and s': "s' = pushApplied e r via (saveHead E now h' s1)"
    using assms by (auto simp: applyEntry_def rbind_eq_Inr Let_def)
  note p = persist_effect [OF per]
  have "storedHead E (lc_db s1) = storedHead E (lc_db s)" by (rule storedHead_cong) (simp add: p(1))
  then show "h' = setContig e h" "hlcState s' = hlcState s" "recoveries s' = recoveries s"
    "sq_log (lc_db s') = sq_log (lc_db s) @ addRow E e (lc_db s)"
    "storedHead E (lc_db s') = (storedHead E (lc_db s))((w_topic h, w_writer h) := setContig e h)"
    "sq_pending (lc_db s') = sq_pending (lc_db s)" "sq_finality (lc_db s') = sq_finality (lc_db s)"
    "\<exists>r. applied s' = applied s @ [(e, r, via)]"
    "log_autoinc (lc_db s') = log_autoinc (lc_db s) + length (addRow E e (lc_db s))"
    using p h' s' by (simp_all add: storedHead_upsert pushApplied_def saveHead_def Let_def withDb_def)
qed

section \<open>Reachable states\<close>



text \<open>In a reachable state every lazily filled cache answers what the tables hold: the head
  of a stream, the finality certificate, the acknowledged floor, the row count of a topic.\<close>

theorem cached_reads_exact:
  assumes "core_reach E q"
  shows "fst (getStream E t w (q_core q)) = storedHead E (lc_db (q_core q)) (t, w) \<and>
    fst (getCert t (q_core q)) = finalityGet (lc_db (q_core q)) t \<and>
    fst (floorOf t w (q_core q)) = floorGet (lc_db (q_core q)) t w \<and>
    fst (logCount (lc_store (q_core q)) t) = countRows (lc_db (q_core q)) t"
proof -
  have inv: "heads_ok E (q_core q)" "certs_ok (q_core q)" "floors_ok (q_core q)" "counts_ok (lc_store (q_core q))"
    using reach_core [OF assms] by (simp_all add: core_inv_def)
  then show ?thesis
    using headsCache.read_value [of E "q_core q" "(t, w)"] certsCache.read_value [of "q_core q" t]
      floorsCache.read_value [of "q_core q" "(t, w)"]
    by (auto simp: logCount_def counts_ok_def Let_def split: option.split)
qed

theorem cached_reads_exact_witness:
  "fst (logCount (lc_store (q_core demo_after)) ''t'') = 1"
  using cached_reads_exact [OF demo_reach, of "''t''" w] demo_after_log
  by (simp add: countRows_def topicRows_def inTopic_def demo_first_def demo_row_def)

lemma demo_queue_reach: "core_reach demo_env demo_queue"
proof -
  have "core_step demo_env (newQueue empty_store) demo_queue"
    unfolding demo_queue_def by (rule enqueue) (simp_all add: newQueue_def item_ok_def)
  then show ?thesis by (rule step [OF fresh])
qed

lemma demo_core_inv: "core_inv demo_env (beginFlush (LogCore_new empty_store))"
  using inv_begin [OF reach_core [OF demo_queue_reach]] by simp



section \<open>Local appends\<close>

definition own_append :: "LogEnv \<Rightarrow> nat \<Rightarrow> AppendItem \<Rightarrow> LogCore \<Rightarrow> LogEntry \<Rightarrow> LogCore \<Rightarrow> bool" where
  "own_append E now it s e s' \<longleftrightarrow>
     (let k = (ai_topic it, selfId E); h = storedHead E (lc_db s) k in
      sealReason h = None \<and> e_topic e = fst k \<and> e_writer e = snd k \<and> e_seq e = Suc (contigSeq h) \<and>
      e_kind e = ai_kind it \<and> e_key e = ai_key it \<and> e_ref e = ai_ref it \<and> e_payload e = ai_payload it \<and>
      hlcCompare (hlcState s) (e_hlc e) < 0 \<and> now \<le> hlc_l (e_hlc e) \<and> hlcState s' = e_hlc e \<and>
      wf_entry e \<and> chainOf (prims E) (prevChainOf E h) e = Inr (e_chain e) \<and>
      storedHead E (lc_db s') = (storedHead E (lc_db s))(k := setContig e h) \<and>
      sq_log (lc_db s') = sq_log (lc_db s) @ addRow E e (lc_db s))"



section \<open>External entries\<close>

text \<open>From \<open>s\<close> to \<open>s'\<close> only stream \<open>k\<close> moved, by appending the next entries in sequence.\<close>

definition stream_extends :: "LogEnv \<Rightarrow> StreamKey \<Rightarrow> LogCore \<Rightarrow> LogCore \<Rightarrow> bool" where
  "stream_extends E k s s' \<longleftrightarrow>
     (let n = contigSeq (storedHead E (lc_db s) k); n' = contigSeq (storedHead E (lc_db s') k) in
      n \<le> n' \<and> (\<forall>k'. k' \<noteq> k \<longrightarrow> storedHead E (lc_db s') k' = storedHead E (lc_db s) k') \<and>
      (\<exists>rows. sq_log (lc_db s') = sq_log (lc_db s) @ rows \<and> list_all (inStream (fst k) (snd k)) rows \<and>
         map (\<lambda>r. e_seq (snd r)) rows = (if fullMode E (fst k) then [Suc n ..< Suc n'] else [])))"

lemma extends_still:
  assumes "sq_log (lc_db s') = sq_log (lc_db s)" "\<And>k'. k' \<noteq> k \<Longrightarrow> storedHead E (lc_db s') k' = storedHead E (lc_db s) k'"
    "contigSeq (storedHead E (lc_db s') k) = contigSeq (storedHead E (lc_db s) k)"
  shows "stream_extends E k s s'"
  using assms by (simp add: stream_extends_def Let_def)

lemma extends_trans:
  assumes "stream_extends E k s s1" "stream_extends E k s1 s2"
  shows "stream_extends E k s s2"
proof -
  let ?n = "\<lambda>s. contigSeq (storedHead E (lc_db s) k)"
  have le: "?n s \<le> ?n s1" "?n s1 \<le> ?n s2" using assms by (simp_all add: stream_extends_def Let_def)
  then have "[Suc (?n s) ..< Suc (?n s2)] = [Suc (?n s) ..< Suc (?n s1)] @ [Suc (?n s1) ..< Suc (?n s2)]"
    by (metis Suc_le_mono le_add_diff_inverse upt_add_eq_append)
  then show ?thesis using assms le by (fastforce simp: stream_extends_def Let_def simp del: upt_Suc)
qed

lemma extends_withDb:
  assumes "sq_log (f (lc_db s)) = sq_log (lc_db s)" "sq_writers (f (lc_db s)) = sq_writers (lc_db s)"
  shows "stream_extends E k s (withDb f s)"
  using assms storedHead_cong [OF assms(2)] by (intro extends_still) simp_all

lemma extends_seal:
  assumes "h = storedHead E (lc_db s) k" "(w_topic h, w_writer h) = k"
  shows "stream_extends E k s (seal E now h e s)"
  using assms by (intro extends_still) (simp_all add: seal_def storedHead_upsert)

lemma extends_mergeClock: "stream_extends E k s (mergeClock E now e s)"
  using extends_withDb [of "\<lambda>d. annotate d (e_topic e) (e_writer e) (e_seq e) ''clock_outlier'' now" s E k]
  by (auto simp: mergeClock_def stream_extends_def Let_def)

lemma extends_applyEntry:
  assumes "applyEntry E now h e via s = Inr (h', s')" "h = storedHead E (lc_db s) k" "(w_topic h, w_writer h) = k"
    "(e_topic e, e_writer e) = k" "e_seq e = contigSeq h + 1"
  shows "stream_extends E k s s'"
proof -
  note ap = applyEntry_effect [OF assms(1)]
  have "map (\<lambda>r. e_seq (snd r)) (addRow E e (lc_db s)) =
      (if fullMode E (fst k) then [Suc (contigSeq h) ..< Suc (e_seq e)] else [])"
    "list_all (inStream (fst k) (snd k)) (addRow E e (lc_db s))"
    using assms(4,5) by (auto simp: addRow_def inStream_def)
  then show ?thesis
    using ap(4,5) assms by (auto simp: stream_extends_def Let_def simp del: upt_Suc)
qed

lemma extends_verifyAndApply:
  assumes "verifyAndApply E now h e via s = Inr (b, h', s')" "h = storedHead E (lc_db s) k" "(w_topic h, w_writer h) = k"
    "(e_topic e, e_writer e) = k" "e_seq e = contigSeq h + 1"
  shows "stream_extends E k s s'"
  using assms extends_applyEntry [OF _ assms(2-5)] extends_seal [OF assms(2,3)]
  by (auto simp: verifyAndApply_def rbind_eq_Inr split: if_splits)

lemma extends_drain:
  "drainPending E now h via s = Inr s' \<Longrightarrow> core_inv E s \<Longrightarrow> h = storedHead E (lc_db s) k \<Longrightarrow>
   (w_topic h, w_writer h) = k \<Longrightarrow> stream_extends E k s s'"
proof (induction E now h via s rule: drainPending.induct)
  case (1 E now h via s)
  let ?n = "contigSeq h + 1"
  let ?s = "withDb (\<lambda>d. pendingDelete d (w_topic h) (w_writer h) ?n) s"
  have same: "storedHead E (lc_db ?s) = storedHead E (lc_db s)" by (rule storedHead_cong) simp
  show ?case
  proof (cases "pendingGet (lc_db s) (w_topic h) (w_writer h) ?n")
    case None
    then show ?thesis using "1.prems"(1) by (simp add: drainPending.simps [of E now h via s] extends_still)
  next
    case (Some e)
    note key = pendingGet_key [OF Some]
    obtain b h1 s1 where va: "verifyAndApply E now h e via ?s = Inr (b, h1, s1)"
      using "1.prems"(1) Some by (cases "verifyAndApply E now h e via ?s") (auto simp: drainPending.simps [of E now h via s])
    have inv: "core_inv E ?s" using "1.prems"(2) by (rule inv_side_tables)
    have head: "h = storedHead E (lc_db ?s) (e_topic e, e_writer e)" using "1.prems"(3,4) key same by auto
    have seq: "e_seq e = contigSeq h + 1" using key by simp
    note v = inv_verifyAndApply [OF inv head seq va]
    have step: "stream_extends E k s s1"
      using extends_trans [OF extends_withDb extends_verifyAndApply [OF va]] "1.prems"(3,4) key same by auto
    show ?thesis
    proof (cases b)
      case True
      have "drainPending E now h1 via s1 = Inr s'"
        using "1.prems"(1) Some va True by (simp add: drainPending.simps [of E now h via s])
      moreover have "h1 = storedHead E (lc_db s1) k" using v(2) [OF True] key "1.prems"(4) by auto
      moreover have "(w_topic h1, w_writer h1) = k" using v(3) [OF True] "1.prems"(4) by simp
      ultimately have "stream_extends E k s1 s'"
        using "1.IH" [OF Some va refl refl True] v(1) by blast
      then show ?thesis by (rule extends_trans [OF step])
    next
      case False
      then show ?thesis using step "1.prems"(1) Some va by (simp add: drainPending.simps [of E now h via s])
    qed
  qed
qed

lemma extends_settle: "stream_extends E k s s1 \<Longrightarrow> stream_extends E k s (settle x s1)"
  by (simp add: stream_extends_def)

lemma extends_push: "stream_extends E k s (pushAnomaly a s1) = stream_extends E k s s1"
  by (simp add: stream_extends_def)

lemma extends_extendStream:
  assumes run: "extendStream E now h e via s = Inr s'" and inv: "core_inv E s"
    and h: "h = storedHead E (lc_db s) (e_topic e, e_writer e)" and seq: "e_seq e = contigSeq h + 1"
  shows "stream_extends E (e_topic e, e_writer e) s s'"
proof -
  have key: "(w_topic h, w_writer h) = (e_topic e, e_writer e)"
    using inv h stored_key by (auto simp: core_inv_def stream_ok_def)
  obtain b h1 s1 where va: "verifyAndApply E now h e via s = Inr (b, h1, s1)"
    using run by (auto simp: extendStream_def rbind_eq_Inr)
  note v = inv_verifyAndApply [OF inv h seq va]
  note step = extends_verifyAndApply [OF va h key refl seq]
  show ?thesis
  proof (cases b)
    case True
    then obtain s2 where d: "drainPending E now h1 via (mergeClock E now e s1) = Inr s2"
      and s': "s' = settle (RApply Applied) s2" using run va by (auto simp: extendStream_def rbind_eq_Inr)
    have same: "storedHead E (lc_db (mergeClock E now e s1)) = storedHead E (lc_db s1)"
      by (rule storedHead_cong) (simp add: mergeClock_def)
    have "(w_topic h1, w_writer h1) = (e_topic e, e_writer e)" using v(3) [OF True] key by simp
    then have "stream_extends E (e_topic e, e_writer e) (mergeClock E now e s1) s2"
      using v(1) v(2) [OF True] same by (intro extends_drain [OF d inv_mergeClock]) simp_all
    then show ?thesis
      unfolding s' using extends_trans [OF step extends_mergeClock] by (intro extends_settle) (rule extends_trans)
  next
    case False
    then show ?thesis using run va step by (auto simp: extendStream_def rbind_eq_Inr intro: extends_settle)
  qed
qed

text \<open>The three shapes an external entry takes on an unsealed stream, after the cached reads.\<close>

lemma processExternal_unsealed:
  assumes inv: "core_inv E s" and open_: "sealReason (storedHead E (lc_db s) (e_topic e, e_writer e)) = None"
  obtains s1 where "lc_store s1 = lc_store s" "hlcState s1 = hlcState s" "settled s1 = settled s"
    "applied s1 = applied s" "anomalies s1 = anomalies s" "recoveries s1 = recoveries s" "core_inv E s1"
    "processExternal E now e via s =
      (let head = storedHead E (lc_db s) (e_topic e, e_writer e) in
        if refusedByCert (finalityGet (lc_db s) (e_topic e)) e then
          Inr (settle (RApply RejectedFinality)
                (pushAnomaly (anomaly_entry A_pre_finality_rejected e)
                  (withDb (\<lambda>d. annotate d (e_topic e) (e_writer e) (e_seq e) ''pre_finality_rejected'' now) s1)))
        else if e_seq e \<le> contigSeq head then Inr (belowContig E now head e s1)
        else if e_seq e = contigSeq head + 1 then extendStream E now head e via s1
        else Inr (bufferEntry E now head e s1))"
proof -
  obtain h s0 where gs: "getStream E (e_topic e) (e_writer e) s = (h, s0)" by fastforce
  obtain c s1 where gc: "getCert (e_topic e) s0 = (c, s1)" by fastforce
  note g = inv_getStream [OF inv gs] and fr = getStream_frame [OF gs]
  note c = inv_getCert [OF g(1) gc] and fc = getCert_frame [OF gc]
  show thesis
  proof (rule that [of s1])
    show "core_inv E s1" by (rule c(1))
  qed (use g(3) c(2) fr fc open_ in \<open>auto simp: processExternal_def gs gc Let_def\<close>)
qed

text \<open>C3. An external entry for an unsealed stream only ever extends that stream: the held rows
  stay as they are, the rows added are the stream's next sequence numbers without a gap (the
  entry itself and buffered successors), the head moves forward with them, and no other
  stream's head moves. This holds for every outcome, forks and refusals included.\<close>

theorem external_append_only:
  assumes "core_inv E s" "sealReason (storedHead E (lc_db s) (e_topic e, e_writer e)) = None"
    "processExternal E now e via s = Inr s'"
  shows "stream_extends E (e_topic e, e_writer e) s s'"
proof -
  let ?h = "storedHead E (lc_db s) (e_topic e, e_writer e)"
  obtain s1 where s1: "lc_store s1 = lc_store s" "core_inv E s1" and
    run: "processExternal E now e via s =
      (if refusedByCert (finalityGet (lc_db s) (e_topic e)) e then
          Inr (settle (RApply RejectedFinality)
                (pushAnomaly (anomaly_entry A_pre_finality_rejected e)
                  (withDb (\<lambda>d. annotate d (e_topic e) (e_writer e) (e_seq e) ''pre_finality_rejected'' now) s1)))
        else if e_seq e \<le> contigSeq ?h then Inr (belowContig E now ?h e s1)
        else if e_seq e = contigSeq ?h + 1 then extendStream E now ?h e via s1
        else Inr (bufferEntry E now ?h e s1))"
    using processExternal_unsealed [OF assms(1,2), of now via] unfolding Let_def by metis
  have key: "(w_topic ?h, w_writer ?h) = (e_topic e, e_writer e)"
    using assms(1) stored_key by (auto simp: core_inv_def stream_ok_def)
  have h1: "?h = storedHead E (lc_db s1) (e_topic e, e_writer e)" using s1(1) by simp
  have base: "stream_extends E (e_topic e, e_writer e) s s2 = stream_extends E (e_topic e, e_writer e) s1 s2" for s2
    by (simp add: stream_extends_def s1(1))
  note sealed = extends_seal [OF h1 key]
  have ann: "stream_extends E (e_topic e, e_writer e) s1 (pushAnomaly a (withDb (\<lambda>d. annotate d t w n k x) s1))"
    and put: "stream_extends E (e_topic e, e_writer e) s1 (mergeClock E now e (withDb (\<lambda>d. pendingPut d e) s1))" for a t w n k x
    by (simp_all add: extends_push extends_withDb extends_trans [OF extends_withDb extends_mergeClock])
  have self: "stream_extends E (e_topic e, e_writer e) s1 s1" by (rule extends_still) simp_all
  have "stream_extends E (e_topic e, e_writer e) s1 s'"
    using run assms(3) ann put self sealed extends_extendStream [OF _ s1(2) h1]
    by (auto simp: belowContig_def bufferEntry_def split: if_splits option.splits intro!: extends_settle)
  then show ?thesis by (simp add: base)
qed

section \<open>The next entry of a stream\<close>

text \<open>The documented contract of the canonicalizer: it accepts every JSON value.\<close>

definition canonical_total :: "Prims \<Rightarrow> bool" where
  "canonical_total P \<longleftrightarrow> (\<forall>v. assertJsonValue v = Inr () \<longrightarrow> canonicalizeLib P v \<noteq> None)"

definition pending_wf :: "Db \<Rightarrow> bool" where
  "pending_wf d \<longleftrightarrow> list_all wf_entry (sq_pending d)"

lemma chainOf_total:
  assumes "canonical_total P" "wf_entry e"
  shows "\<exists>c. chainOf P p e = Inr c"
proof -
  have json: "assertJsonValue v = Inr () \<Longrightarrow> \<exists>s. jcs P v = Inr s" for v
    using assms(1) by (auto simp: canonical_total_def jcs_def split: option.split)
  have "\<exists>s. jcs P (causal_js c) = Inr s" "\<exists>s. jcs P (entryId_js i) = Inr s" for c i
    by (rule json; simp add: causal_js_def entryId_js_def num_of_nat_def isFinite_def)+
  moreover have "\<exists>s. jcs P (e_payload e) = Inr s" using assms(2) by (intro json) (simp add: wf_entry_def)
  moreover have "hlc_c (e_hlc e) \<le> MAX_SAFE_INTEGER" using assms(2) c_limit_safe by (simp add: wf_entry_def)
  then have "\<exists>s. dec (e_seq e) = Inr s" "\<exists>s. dec (hlc_l (e_hlc e)) = Inr s" "\<exists>s. dec (hlc_c (e_hlc e)) = Inr s"
    using assms(2) by (simp_all add: dec_def wf_entry_def)
  moreover have "\<exists>s. (case e_causal e of None \<Rightarrow> Inr [] | Some x \<Rightarrow> jcs P (causal_js x)) = Inr s"
    "\<exists>s. (case e_ref e of None \<Rightarrow> Inr [] | Some x \<Rightarrow> jcs P (entryId_js x)) = Inr s"
    using calculation(1,2) by (auto split: option.split)
  ultimately show ?thesis
    by (fastforce simp: chainOf_def chainParts_def)
qed

lemma persist_total:
  assumes inv: "core_inv E s" and h: "h = storedHead E (lc_db s) (e_topic e, e_writer e)"
    and seq: "e_seq e = contigSeq h + 1" and reg: "reg_get (registry E) (e_topic e) = Inr te"
  shows "\<exists>p. persist E e s = Inr p"
proof -
  have "\<exists>p. insertEntry (lc_store s) e = Inr p"
  proof (cases "insertEntry (lc_store s) e")
    case (Inl err)
    then have "orAbort s (insertEntry (lc_store s) e) = Inl (ERR_STORAGE, s)"
      using insertEntry_fails [OF Inl] by simp
    moreover have "\<exists>r \<in> set (sq_log (lc_db s)). entryKey (snd r) = entryKey e" using insertEntry_fails [OF Inl] by simp
    then obtain r where "r \<in> set (sq_log (lc_db s))" "entryKey (snd r) = entryKey e" by blast
    then have "held (lc_db s) (snd r)" "streamRow (e_topic e, e_writer e) (snd r)" "e_seq (snd r) = e_seq e"
      by (auto simp: held_def streamRow_def entryKey_def)
    moreover have "head_fits (lc_db s) (e_topic e, e_writer e) h" using inv_stored_fits [OF inv] h by simp
    ultimately have "e_seq e \<le> contigSeq h" unfolding head_fits_def by metis
    then show ?thesis using seq by simp
  qed simp
  then show ?thesis by (auto simp: persist_def reg Let_def orAbort_def)
qed

lemma applyEntry_total:
  assumes "core_inv E s" "h = storedHead E (lc_db s) (e_topic e, e_writer e)" "e_seq e = contigSeq h + 1"
    "reg_get (registry E) (e_topic e) = Inr te"
  shows "\<exists>h' s'. applyEntry E now h e via s = Inr (h', s')"
  using persist_total [OF assms] by (auto simp: applyEntry_def Let_def)

text \<open>Draining ends with the next entry missing or the stream sealed, and never aborts.\<close>

definition drained :: "LogEnv \<Rightarrow> StreamKey \<Rightarrow> Db \<Rightarrow> bool" where
  "drained E k d \<longleftrightarrow> (let h = storedHead E d k in
     sealReason h \<noteq> None \<or> pendingGet d (fst k) (snd k) (contigSeq h + 1) = None)"

lemma verifyAndApply_total:
  assumes "canonical_total (prims E)" "wf_entry e" "core_inv E s"
    "h = storedHead E (lc_db s) (e_topic e, e_writer e)" "e_seq e = contigSeq h + 1"
    "reg_get (registry E) (e_topic e) = Inr te"
  shows "\<exists>b h' s'. verifyAndApply E now h e via s = Inr (b, h', s')"
proof -
  obtain c where c: "chainOf (prims E) (prevChainOf E h) e = Inr c" using chainOf_total [OF assms(1,2)] by blast
  obtain h' s' where "applyEntry E now h e via s = Inr (h', s')" using applyEntry_total [OF assms(3-6)] by blast
  then show ?thesis
    by (cases "c = e_chain e") (auto simp: verifyAndApply_def c orAbort_def)
qed

lemma drain_total:
  "canonical_total (prims E) \<Longrightarrow> pending_wf (lc_db s) \<Longrightarrow> core_inv E s \<Longrightarrow>
   h = storedHead E (lc_db s) (w_topic h, w_writer h) \<Longrightarrow> reg_get (registry E) (w_topic h) = Inr te \<Longrightarrow>
   \<exists>s'. drainPending E now h via s = Inr s' \<and> drained E (w_topic h, w_writer h) (lc_db s')"
proof (induction E now h via s rule: drainPending.induct)
  case (1 E now h via s)
  let ?n = "contigSeq h + 1"
  let ?s = "withDb (\<lambda>d. pendingDelete d (w_topic h) (w_writer h) ?n) s"
  show ?case
  proof (cases "pendingGet (lc_db s) (w_topic h) (w_writer h) ?n")
    case None
    then show ?thesis
      using "1.prems"(4) by (auto simp: drainPending.simps [of E now h via s] drained_def Let_def)
  next
    case (Some e)
    note key = pendingGet_key [OF Some]
    have wf: "wf_entry e"
      using "1.prems"(2) Some find_Some_in unfolding pendingGet_def pending_wf_def list_all_iff by fastforce
    have inv: "core_inv E ?s" using "1.prems"(3) by (rule inv_side_tables)
    have "storedHead E (lc_db ?s) = storedHead E (lc_db s)" by (rule storedHead_cong) simp
    then have head: "h = storedHead E (lc_db ?s) (e_topic e, e_writer e)" using "1.prems"(4) key by simp
    have seq: "e_seq e = contigSeq h + 1" using key by simp
    obtain b h1 s1 where va: "verifyAndApply E now h e via ?s = Inr (b, h1, s1)"
      using verifyAndApply_total [OF "1.prems"(1) wf inv head seq, of te now via] "1.prems"(5) key by auto
    note v = inv_verifyAndApply [OF inv head seq va]
    have pw: "pending_wf (lc_db s1)"
      using "1.prems"(2) verifyAndApply_pending [OF va]
      by (auto simp: pending_wf_def pendingDelete_def list_all_iff)
    show ?thesis
    proof (cases b)
      case True
      have h1: "w_topic h1 = w_topic h" "w_writer h1 = w_writer h" using v(3) [OF True] by simp_all
      then have "h1 = storedHead E (lc_db s1) (w_topic h1, w_writer h1)" using v(2) [OF True] key by simp
      then have "\<exists>s'. drainPending E now h1 via s1 = Inr s' \<and> drained E (w_topic h1, w_writer h1) (lc_db s')"
        using "1.IH" [OF Some va refl refl True] "1.prems"(1,5) pw v(1) h1 by simp
      then show ?thesis using Some va True h1 by (simp add: drainPending.simps [of E now h via s])
    next
      case False
      then have "s1 = seal E now h e ?s" using va by (auto simp: verifyAndApply_def rbind_eq_Inr split: if_splits)
      then have "drained E (w_topic h, w_writer h) (lc_db s1)"
        by (simp add: drained_def seal_def storedHead_upsert)
      then show ?thesis using False Some va by (simp add: drainPending.simps [of E now h via s])
    qed
  qed
qed

text \<open>The conditions under which the next entry of an open stream is valid.\<close>

definition valid_successor :: "LogEnv \<Rightarrow> LogCore \<Rightarrow> LogEntry \<Rightarrow> bool" where
  "valid_successor E s e \<longleftrightarrow>
     (let h = storedHead E (lc_db s) (e_topic e, e_writer e) in
      sealReason h = None \<and> \<not> refusedByCert (finalityGet (lc_db s) (e_topic e)) e \<and>
      e_seq e = contigSeq h + 1 \<and> chainOf (prims E) (prevChainOf E h) e = Inr (e_chain e) \<and>
      (case getEntry (lc_db s) (e_topic e) (e_writer e) (contigSeq h) of
         None \<Rightarrow> True | Some prev \<Rightarrow> hlcCompare (e_hlc prev) (e_hlc e) \<le> 0) \<and>
      (\<exists>te. reg_get (registry E) (e_topic e) = Inr te))"

lemma successor_applied:
  assumes can: "canonical_total (prims E)" and inv: "core_inv E s" and pw: "pending_wf (lc_db s)"
    and ok: "valid_successor E s e"
  shows "\<exists>s'. processExternal E now e via s = Inr s' \<and> settled s' = settled s @ [RApply Applied] \<and>
    (fullMode E (e_topic e) \<longrightarrow> held (lc_db s') e) \<and>
    e_seq e \<le> contigSeq (storedHead E (lc_db s') (e_topic e, e_writer e)) \<and>
    drained E (e_topic e, e_writer e) (lc_db s')"
proof -
  let ?k = "(e_topic e, e_writer e)"
  let ?h = "storedHead E (lc_db s) ?k"
  obtain te where ok': "sealReason ?h = None" "\<not> refusedByCert (finalityGet (lc_db s) (e_topic e)) e"
    "e_seq e = contigSeq ?h + 1" "chainOf (prims E) (prevChainOf E ?h) e = Inr (e_chain e)"
    "reg_get (registry E) (e_topic e) = Inr te"
    using ok by (auto simp: valid_successor_def Let_def)
  obtain s1 where s1: "lc_store s1 = lc_store s" "settled s1 = settled s" "core_inv E s1"
    and run: "processExternal E now e via s = extendStream E now ?h e via s1"
    using processExternal_unsealed [OF inv ok'(1), of now via] ok'(2,3) unfolding Let_def
    by (metis Suc_eq_plus1 not_less_eq_eq order_refl)
  have h1: "?h = storedHead E (lc_db s1) ?k" using s1(1) by simp
  obtain h' s2 where ap: "applyEntry E now ?h e via s1 = Inr (h', s2)"
    using applyEntry_total [OF s1(3) h1 ok'(3,5)] by blast
  note a = inv_applyEntry [OF s1(3) h1 ok'(3,4) ap] and eff = applyEntry_effect [OF ap]
  have key: "(w_topic ?h, w_writer ?h) = ?k" using inv stored_key by (auto simp: core_inv_def stream_ok_def)
  have va: "verifyAndApply E now ?h e via s1 = Inr (True, h', s2)"
    using ok ok'(4) ap s1(1)
    by (auto simp: verifyAndApply_def orAbort_def valid_successor_def Let_def split: option.splits)
  let ?m = "mergeClock E now e s2"
  have same: "storedHead E (lc_db ?m) = storedHead E (lc_db s2)" by (rule storedHead_cong) (simp add: mergeClock_def)
  have h': "h' = storedHead E (lc_db ?m) (w_topic h', w_writer h')" "w_topic h' = e_topic e" "w_writer h' = e_writer e"
    using a(2,3) key same by simp_all
  have "pending_wf (lc_db ?m)" using pw eff(6) s1(1) by (simp add: pending_wf_def mergeClock_def)
  then obtain s3 where dr: "drainPending E now h' via ?m = Inr s3" "drained E ?k (lc_db s3)"
    using drain_total [OF can _ inv_mergeClock [OF a(1)] h'(1), of te now via] h'(2,3) ok'(5) by auto
  have ext: "stream_extends E ?k ?m s3"
    using extends_drain [OF dr(1) inv_mergeClock [OF a(1)]] h' by simp
  have "settled s3 = settled s"
    using settled_drain [OF dr(1)] settled_reads(6) [OF ap] s1(2) by (simp add: mergeClock_def)
  moreover have "held (lc_db s2) e" if "fullMode E (e_topic e)"
    using eff(4) that by (auto simp: addRow_def held_def)
  then have "held (lc_db s3) e" if "fullMode E (e_topic e)"
    using ext that by (auto simp: stream_extends_def Let_def held_def mergeClock_def)
  moreover have "e_seq e \<le> contigSeq (storedHead E (lc_db s3) ?k)"
    using ext a(2,3) same by (simp add: stream_extends_def Let_def)
  ultimately show ?thesis
    using run va dr by (simp add: extendStream_def settle_def)
qed

text \<open>C4. With a canonicalizer that accepts JSON values and a buffer of validated entries, the
  next entry of an open stream is applied, whatever else the state holds: the handler returns,
  settles \<open>Applied\<close>, a full-mode topic then holds the row, the head has reached it, and the
  buffered successors have been drained until one is missing or the stream is sealed.\<close>

theorem valid_successor_applied:
  assumes "canonical_total (prims E)" "core_inv E s" "pending_wf (lc_db s)" "valid_successor E s e"
  shows "\<exists>s'. processExternal E now e via s = Inr s' \<and> settled s' = settled s @ [RApply Applied] \<and>
    (fullMode E (e_topic e) \<longrightarrow> held (lc_db s') e) \<and>
    e_seq e \<le> contigSeq (storedHead E (lc_db s') (e_topic e, e_writer e)) \<and>
    drained E (e_topic e, e_writer e) (lc_db s')"
  by (rule successor_applied [OF assms])

definition demo_peer :: LogEntry where
  "demo_peer = demo_row ''t'' ''pa'' 1 demo_hlc"

lemma demo_peer_valid:
  "canonical_total (prims demo_env)" "pending_wf (lc_db (beginFlush (LogCore_new empty_store)))"
  "valid_successor demo_env (beginFlush (LogCore_new empty_store)) demo_peer" "fullMode demo_env ''t''"
proof -
  show "canonical_total (prims demo_env)" by (simp add: canonical_total_def demo_lib_def)
  show "pending_wf (lc_db (beginFlush (LogCore_new empty_store)))"
    by (simp add: pending_wf_def beginFlush_def LogCore_new_def empty_store_def empty_db_def)
  show "fullMode demo_env ''t''" by (simp add: fullMode_def demo_registry)
  have "chainOf demo_lib p demo_peer = Inr demo_hash" for p
    unfolding demo_peer_def by (rule demo_chain) (simp_all add: demo_row_def demo_hlc_def small_hlc_def)
  then show "valid_successor demo_env (beginFlush (LogCore_new empty_store)) demo_peer"
    by (simp add: valid_successor_def demo_registry Let_def storedHead_def getWriter_def getEntry_def refusedByCert_def
        freshHead_def finalityGet_def beginFlush_def LogCore_new_def empty_store_def empty_db_def demo_peer_def demo_row_def)
qed

theorem valid_successor_applied_witness:
  "\<exists>s'. processExternal demo_env 7 demo_peer None (beginFlush (LogCore_new empty_store)) = Inr s' \<and> held (lc_db s') demo_peer"
  using valid_successor_applied [OF demo_peer_valid(1) demo_core_inv demo_peer_valid(2,3), of 7 None]
    demo_peer_valid(4) by (auto simp: demo_peer_def demo_row_def)

theorem external_append_only_witness:
  "\<exists>s'. processExternal demo_env 7 demo_peer None (beginFlush (LogCore_new empty_store)) = Inr s' \<and>
     stream_extends demo_env (''t'', ''pa'') (beginFlush (LogCore_new empty_store)) s'"
proof -
  obtain s' where run: "processExternal demo_env 7 demo_peer None (beginFlush (LogCore_new empty_store)) = Inr s'"
    using successor_applied [OF demo_peer_valid(1) demo_core_inv demo_peer_valid(2,3), of 7 None] by blast
  have "sealReason (storedHead demo_env (lc_db (beginFlush (LogCore_new empty_store))) (e_topic demo_peer, e_writer demo_peer)) = None"
    using demo_peer_valid(3) by (simp add: valid_successor_def Let_def)
  from external_append_only [OF demo_core_inv this run] show ?thesis
    using run by (simp add: demo_peer_def demo_row_def)
qed

section \<open>Forks and redelivery\<close>

text \<open>C5. An entry that contradicts a held row of its open stream (same position, another
  chain) seals the stream as forked and emits the anomaly; the rows held stay as they are.\<close>

theorem conflicting_entry_seals:
  assumes "core_inv E s" "held (lc_db s) x" "entryKey x = entryKey e" "e_chain x \<noteq> e_chain e"
    "sealReason (storedHead E (lc_db s) (e_topic e, e_writer e)) = None"
    "\<not> refusedByCert (finalityGet (lc_db s) (e_topic e)) e"
  shows "\<exists>s'. processExternal E now e via s = Inr s' \<and> settled s' = settled s @ [RApply Forked] \<and>
    sealReason (storedHead E (lc_db s') (e_topic e, e_writer e)) = Some SealFork \<and>
    sq_log (lc_db s') = sq_log (lc_db s) \<and> anomalies s' = anomalies s @ [anomaly_entry A_writer_forked e]"
proof -
  let ?k = "(e_topic e, e_writer e)"
  let ?h = "storedHead E (lc_db s) ?k"
  obtain s1 where s1: "lc_store s1 = lc_store s" "settled s1 = settled s" "anomalies s1 = anomalies s"
    and run: "processExternal E now e via s =
      (if e_seq e \<le> contigSeq ?h then Inr (belowContig E now ?h e s1)
        else if e_seq e = contigSeq ?h + 1 then extendStream E now ?h e via s1
        else Inr (bufferEntry E now ?h e s1))"
    using processExternal_unsealed [OF assms(1,5), of now via] assms(6) unfolding Let_def by metis
  have x: "e_topic x = e_topic e" "e_writer x = e_writer e" "e_seq x = e_seq e"
    using assms(3) by (simp_all add: entryKey_def)
  have "log_table_ok (lc_db s)" using assms(1) by (simp add: core_inv_def stream_ok_def)
  then have ge: "getEntry (lc_db s1) (e_topic e) (e_writer e) (e_seq e) = Some x"
    using held_getEntry [OF _ assms(2)] x s1(1) by simp
  have "head_fits (lc_db s) ?k ?h" by (rule inv_stored_fits [OF assms(1)])
  then have "e_seq e \<le> contigSeq ?h" using assms(2) x unfolding head_fits_def streamRow_def by fastforce
  then have "processExternal E now e via s = Inr (settle (RApply Forked) (seal E now ?h e s1))"
    using run ge assms(4) by (simp add: belowContig_def)
  moreover have "w_topic ?h = e_topic e" "w_writer ?h = e_writer e"
    using assms(1) stored_key by (auto simp: core_inv_def stream_ok_def)
  ultimately show ?thesis
    using s1 by (simp add: settle_def seal_def storedHead_upsert pushAnomaly_def saveHead_def withDb_def Let_def)
qed

text \<open>Delivering a held entry again changes nothing: on an open stream it settles as a
  duplicate, on a sealed one (with no recovery under way) as sealed; no table, no clock, no hook
  and no anomaly moves.\<close>

theorem redelivery_changes_nothing:
  assumes "core_inv E s" "held (lc_db s) e" "recoveries s (e_topic e, e_writer e) = None"
    "\<not> refusedByCert (finalityGet (lc_db s) (e_topic e)) e"
  shows "\<exists>s' x. processExternal E now e via s = Inr s' \<and> settled s' = settled s @ [RApply x] \<and>
    x = (if sealReason (storedHead E (lc_db s) (e_topic e, e_writer e)) = None then Duplicate else Sealed) \<and>
    lc_store s' = lc_store s \<and> hlcState s' = hlcState s \<and> applied s' = applied s \<and> anomalies s' = anomalies s"
proof (cases "sealReason (storedHead E (lc_db s) (e_topic e, e_writer e)) = None")
  case True
  let ?k = "(e_topic e, e_writer e)"
  let ?h = "storedHead E (lc_db s) ?k"
  obtain s1 where s1: "lc_store s1 = lc_store s" "settled s1 = settled s" "anomalies s1 = anomalies s"
      "hlcState s1 = hlcState s" "applied s1 = applied s"
    and run: "processExternal E now e via s =
      (if e_seq e \<le> contigSeq ?h then Inr (belowContig E now ?h e s1)
        else if e_seq e = contigSeq ?h + 1 then extendStream E now ?h e via s1
        else Inr (bufferEntry E now ?h e s1))"
    using processExternal_unsealed [OF assms(1) True, of now via] assms(4) unfolding Let_def by metis
  have "log_table_ok (lc_db s)" using assms(1) by (simp add: core_inv_def stream_ok_def)
  then have ge: "getEntry (lc_db s1) (e_topic e) (e_writer e) (e_seq e) = Some e"
    using held_getEntry [OF _ assms(2)] s1(1) by simp
  have "head_fits (lc_db s) ?k ?h" by (rule inv_stored_fits [OF assms(1)])
  then have "e_seq e \<le> contigSeq ?h" using assms(2) unfolding head_fits_def streamRow_def by fastforce
  then have "processExternal E now e via s = Inr (settle (RApply Duplicate) s1)"
    using run ge by (simp add: belowContig_def)
  then show ?thesis using s1 True by (simp add: settle_def)
next
  case False
  obtain h s1 where gs: "getStream E (e_topic e) (e_writer e) s = (h, s1)" by fastforce
  have "processExternal E now e via s = Inr (settle (RApply Sealed) s1)"
    using inv_getStream(3) [OF assms(1) gs] getStream_frame(4) [OF gs] False assms(3)
    by (simp add: processExternal_def gs)
  then show ?thesis using getStream_frame [OF gs] False by (simp add: settle_def)
qed

definition demo_fork :: LogEntry where
  "demo_fork = demo_first\<lparr>e_chain := replicate 64 (CHR ''b'')\<rparr>"

lemma demo_after_state:
  "core_inv demo_env (q_core demo_after)" "held (lc_db (q_core demo_after)) demo_first"
  "sealReason (storedHead demo_env (lc_db (q_core demo_after)) (''t'', ''me'')) = None"
  "finalityGet (lc_db (q_core demo_after)) ''t'' = None" "recoveries (q_core demo_after) (''t'', ''me'') = None"
proof -
  show "core_inv demo_env (q_core demo_after)" by (rule reach_core [OF demo_reach])
  show "held (lc_db (q_core demo_after)) demo_first" by (simp add: held_def demo_after_log)
  obtain h s1 where gs: "getStream demo_env ''t'' ''me'' (beginFlush (LogCore_new empty_store)) = (h, s1)" by fastforce
  have h: "h = freshHead demo_env ''t'' ''me''"
    using inv_getStream(3) [OF demo_core_inv gs]
    by (simp add: storedHead_def getWriter_def beginFlush_def LogCore_new_def empty_store_def empty_db_def)
  show "sealReason (storedHead demo_env (lc_db (q_core demo_after)) (''t'', ''me'')) = None"
    by (simp add: demo_after_core commitFlush_def demo_applied_def gs h storedHead_def getWriter_def upsertWriter_def
        freshHead_def metaSetHlc_def empty_db_def AList.update.simps)
  show "finalityGet (lc_db (q_core demo_after)) ''t'' = None"
    by (simp add: demo_after_core commitFlush_def demo_applied_def gs finalityGet_def metaSetHlc_def upsertWriter_def empty_db_def)
  show "recoveries (q_core demo_after) (''t'', ''me'') = None"
  proof -
    have "recoveries s1 = Map.empty" using getStream_frame(4) [OF gs] by (simp add: beginFlush_def LogCore_new_def)
    then show ?thesis by (simp add: demo_after_core commitFlush_def demo_applied_def gs)
  qed
qed

theorem conflicting_entry_seals_witness:
  "\<exists>s'. processExternal demo_env 9 demo_fork None (q_core demo_after) = Inr s' \<and>
     sealReason (storedHead demo_env (lc_db s') (''t'', ''me'')) = Some SealFork"
  using conflicting_entry_seals [OF demo_after_state(1,2), of demo_fork 9 None] demo_after_state
  by (auto simp: demo_fork_def demo_first_def demo_row_def entryKey_def demo_hash_def refusedByCert_def)

theorem redelivery_changes_nothing_witness:
  "\<exists>s'. processExternal demo_env 9 demo_first None (q_core demo_after) = Inr s' \<and>
     lc_store s' = lc_store (q_core demo_after)"
  using redelivery_changes_nothing [OF demo_after_state(1,2), of 9 None] demo_after_state
  by (auto simp: demo_first_def demo_row_def refusedByCert_def)

end
