(* ===== verification/Log_Removal.thy ===== *)
theory Log_Removal
  imports Log_Integrity
begin

text \<open>
  What may remove rows, and how far: finality certificates cut uncovered history into
  quarantine, local pruning stays behind every consumer, keyed compaction keeps the newest row of
  a key, acknowledged retention stays below the acknowledged floors. The paged reads of whole
  topics return the set they promise.
\<close>

section \<open>Certificates\<close>

definition quarantined :: "Db \<Rightarrow> EntryId \<Rightarrow> (LogEntry \<times> string \<times> nat) option" where
  "quarantined d k = map_of (sq_quarantine d) k"

lemma quarantineAll_other:
  "\<forall>x \<in> set rows. entryKey (snd x) \<noteq> k \<Longrightarrow>
   quarantined (lc_db (quarantineAll r now rows s)) k = quarantined (lc_db s) k"
proof (induction rows arbitrary: s)
  case (Cons x rows)
  let ?s = "pushAnomaly (anomaly_entry A_entry_quarantined (snd x)) (withDb (\<lambda>d. quarantinePut d (snd x) r now) s)"
  have "quarantineAll r now (x # rows) s = quarantineAll r now rows ?s" by (simp add: quarantineAll_def)
  moreover have "quarantined (lc_db ?s) k = quarantined (lc_db s) k"
    using Cons.prems by (auto simp: quarantined_def quarantinePut_def map_of_alist_update)
  ultimately show ?case using Cons by simp
qed (simp add: quarantineAll_def)

lemma quarantineAll_puts:
  "distinct (map (\<lambda>x. entryKey (snd x)) rows) \<Longrightarrow> x \<in> set rows \<Longrightarrow>
   quarantined (lc_db (quarantineAll r now rows s)) (entryKey (snd x)) = Some (snd x, r, now)"
proof (induction rows arbitrary: s)
  case (Cons y rows)
  let ?s = "pushAnomaly (anomaly_entry A_entry_quarantined (snd y)) (withDb (\<lambda>d. quarantinePut d (snd y) r now) s)"
  have step: "quarantineAll r now (y # rows) s = quarantineAll r now rows ?s" by (simp add: quarantineAll_def)
  show ?case
  proof (cases "x \<in> set rows")
    case True
    then show ?thesis using Cons step by simp
  next
    case False
    then have "x = y" using Cons.prems(2) by simp
    moreover have "entryKey (snd y) \<notin> (\<lambda>z. entryKey (snd z)) ` set rows" using Cons.prems(1) by simp
    ultimately have "x = y" "\<forall>z \<in> set rows. entryKey (snd z) \<noteq> entryKey (snd x)"
      unfolding image_iff by metis+
    then show ?thesis
      using quarantineAll_other [of rows "entryKey (snd x)" r now ?s] step
      by (simp add: quarantined_def quarantinePut_def map_of_alist_update)
  qed
qed simp

lemma quarantineAll_finality [simp]: "sq_finality (lc_db (quarantineAll r now rows s)) = sq_finality (lc_db s)"
  by (induction rows arbitrary: s) (simp_all add: quarantineAll_def)

lemma quarantined_frame [simp]:
  "quarantined (upsertWriter d h) = quarantined d" "quarantined (d\<lparr>sq_log := rs\<rparr>) = quarantined d"
  by (simp_all add: quarantined_def fun_eq_iff upsertWriter_def)

text \<open>One writer of the certificate's topic: what is kept, and where the rest went.\<close>

definition cut_kept :: "FinalityCert \<Rightarrow> string \<Rightarrow> Db \<Rightarrow> bool" where
  "cut_kept cert w d \<longleftrightarrow> (\<forall>e. held d e \<longrightarrow> e_topic e = cert_topic cert \<longrightarrow> e_writer e = w \<longrightarrow>
     orderCompare (orderOf e) (cert_order cert) \<le> 0 \<longrightarrow> e_seq e \<le> coveredBy cert w)"

definition moved_out :: "nat \<Rightarrow> Db \<Rightarrow> Db \<Rightarrow> bool" where
  "moved_out now d d' \<longleftrightarrow> (\<forall>e. held d' e \<longrightarrow> held d e) \<and> sq_finality d' = sq_finality d \<and>
     (\<forall>e. held d e \<longrightarrow> held d' e \<or> quarantined d' (entryKey e) = Some (e, ''post_cut'', now)) \<and>
     (\<forall>k. (\<forall>e. held d e \<longrightarrow> entryKey e \<noteq> k) \<longrightarrow> quarantined d' k = quarantined d k)"

lemma moved_refl: "sq_log d' = sq_log d \<Longrightarrow> sq_finality d' = sq_finality d \<Longrightarrow> quarantined d' = quarantined d \<Longrightarrow> moved_out now d d'"
  using held_cong [of d' d] by (simp add: moved_out_def)

lemma moved_trans:
  assumes "log_table_ok d" "moved_out now d d1" "moved_out now d1 d2"
  shows "moved_out now d d2"
proof -
  have uniq: "held d x \<Longrightarrow> held d e \<Longrightarrow> entryKey x = entryKey e \<Longrightarrow> x = e" for x e
    unfolding entryKey_def prod.inject by (metis held_getEntry [OF assms(1)] option.inject)
  note m1 = assms(2) [unfolded moved_out_def] and m2 = assms(3) [unfolded moved_out_def]
  have "held d2 e \<or> quarantined d2 (entryKey e) = Some (e, ''post_cut'', now)" if e: "held d e" for e
  proof (cases "held d1 e")
    case True
    then show ?thesis using assms(3) by (simp add: moved_out_def)
  next
    case False
    then have "\<forall>x. held d1 x \<longrightarrow> entryKey x \<noteq> entryKey e"
      using uniq [OF _ e] assms(2) unfolding moved_out_def by blast
    then have "quarantined d2 (entryKey e) = quarantined d1 (entryKey e)"
      using assms(3) unfolding moved_out_def by blast
    moreover have "quarantined d1 (entryKey e) = Some (e, ''post_cut'', now)" using m1 e False by blast
    ultimately show ?thesis by simp
  qed
  moreover have "\<forall>e. held d2 e \<longrightarrow> held d e" using m1 m2 by blast
  moreover have "sq_finality d2 = sq_finality d" using m1 m2 by simp
  moreover have "quarantined d2 k = quarantined d k" if "\<forall>e. held d e \<longrightarrow> entryKey e \<noteq> k" for k
  proof -
    have "quarantined d1 k = quarantined d k" using m1 that by blast
    moreover have "\<forall>e. held d1 e \<longrightarrow> entryKey e \<noteq> k" using m1 that by blast
    then have "quarantined d2 k = quarantined d1 k" using m2 by blast
    ultimately show ?thesis by simp
  qed
  ultimately show ?thesis unfolding moved_out_def by blast
qed

lemma doomed_distinct: "log_table_ok d \<Longrightarrow> distinct (map (\<lambda>x. entryKey (snd x)) (entriesRange d t w a b))"
proof -
  assume "log_table_ok d"
  then have "distinct (map (\<lambda>x. entryKey (snd x)) (sq_log d))" by (simp add: log_table_ok_def)
  then have "inj_on (\<lambda>x. entryKey (snd x)) (set (sq_log d))" "distinct (sq_log d)" by (simp_all add: distinct_map)
  then show ?thesis unfolding entriesRange_def by (auto simp: distinct_map intro: inj_on_subset)
qed

lemma certWriter_spec:
  assumes inv: "core_inv E s" and run: "certWriter E now cert w s = (n, s')"
  shows "cut_kept cert w (lc_db s') \<and> moved_out now (lc_db s) (lc_db s')"
proof -
  let ?t = "cert_topic cert" and ?cut = "coveredBy cert w"
  obtain h s1 where gs: "getStream E ?t w s = (h, s1)" by fastforce
  note g = inv_getStream [OF inv gs]
  have s1: "lc_store s1 = lc_store s" using getStream_frame [OF gs] by simp
  have table: "log_table_ok (lc_db s)" using inv by (simp add: core_inv_def stream_ok_def)
  show ?thesis
  proof (cases "lastSeqAtOrBeforeOrder (lc_db s) ?t w (cert_order cert) > ?cut")
    case False
    have le: "e_seq e \<le> ?cut" if "held (lc_db s) e" "e_topic e = ?t" "e_writer e = w"
      "orderCompare (orderOf e) (cert_order cert) \<le> 0" for e
    proof -
      note e = that
      obtain r where "(r, e) \<in> set (sq_log (lc_db s))" using e(1) by (auto simp: held_def)
      then have "e_seq e \<le> lastSeqAtOrBeforeOrder (lc_db s) ?t w (cert_order cert)"
        using lastSeq_upper [of "(r, e)" "lc_db s" ?t w "cert_order cert"] e by (simp add: inStream_def)
      then show ?thesis using False by simp
    qed
    have "sq_log (lc_db s') = sq_log (lc_db s)" "sq_finality (lc_db s') = sq_finality (lc_db s)"
      "quarantined (lc_db s') = quarantined (lc_db s)"
      using run False s1 by (auto simp: certWriter_def gs Let_def forkUnlessSealed_def split: if_splits)
    note same = this
    have "cut_kept cert w (lc_db s')" using le unfolding cut_kept_def held_cong [OF same(1)] by blast
    then show ?thesis using moved_refl [OF same] by blast
  next
    case True
    let ?doomed = "entriesRange (lc_db s) ?t w (?cut + 1) (contigSeq h)"
    let ?s2 = "dropFrom ?t w (?cut + 1) (quarantineAll ''post_cut'' now ?doomed s1)"
    have same: "sq_log (lc_db s') = sq_log (lc_db ?s2)" "sq_finality (lc_db s') = sq_finality (lc_db s)"
      "quarantined (lc_db s') = quarantined (lc_db (quarantineAll ''post_cut'' now ?doomed s1))"
      using run True s1 by (auto simp: certWriter_def gs Let_def quarantined_def fun_eq_iff split: if_splits)
    have held': "held (lc_db s') e \<longleftrightarrow> held (lc_db s) e \<and> \<not> (e_topic e = ?t \<and> e_writer e = w \<and> ?cut + 1 \<le> e_seq e)" for e
      using held_cong [OF same(1)] held_dropFrom [of ?t w "?cut + 1"] by (simp add: held_def s1)
    have doomed: "x \<in> set ?doomed \<longleftrightarrow> x \<in> set (sq_log (lc_db s)) \<and> inStream ?t w x \<and> ?cut + 1 \<le> e_seq (snd x) \<and> e_seq (snd x) \<le> contigSeq h" for x
      by (auto simp: entriesRange_def)
    have "quarantined (lc_db s') (entryKey e) = Some (e, ''post_cut'', now)"
      if e: "held (lc_db s) e" "\<not> held (lc_db s') e" for e
    proof -
      obtain r where r: "(r, e) \<in> set (sq_log (lc_db s))" using e(1) by (auto simp: held_def)
      have k: "e_topic e = ?t" "e_writer e = w" "?cut + 1 \<le> e_seq e" using e held' by auto
      have "e_seq e \<le> contigSeq h"
        using inv_stored_fits [OF inv, of "(?t, w)"] g(3) e(1) k by (simp add: head_fits_def streamRow_def)
      then have "(r, e) \<in> set ?doomed" using r k by (simp add: entriesRange_def inStream_def)
      from quarantineAll_puts [OF doomed_distinct [OF table] this] show ?thesis using same(3) by simp
    qed
    moreover have "quarantined (lc_db s') k = quarantined (lc_db s) k" if "\<forall>e. held (lc_db s) e \<longrightarrow> entryKey e \<noteq> k" for k
    proof -
      have "\<forall>x \<in> set ?doomed. entryKey (snd x) \<noteq> k" using that doomed by (auto simp: held_def)
      from quarantineAll_other [OF this, of "''post_cut''" now s1] show ?thesis using same(3) s1 by simp
    qed
    ultimately have "moved_out now (lc_db s) (lc_db s')" using held' same(2) unfolding moved_out_def by blast
    moreover have "cut_kept cert w (lc_db s')" unfolding cut_kept_def held' by auto
    ultimately show ?thesis by blast
  qed
qed

lemma certWriters_spec:
  "certWriters E now cert ws (n, s) = (n', s') \<Longrightarrow> core_inv E s \<Longrightarrow>
   (\<forall>w \<in> set ws. cut_kept cert w (lc_db s')) \<and> moved_out now (lc_db s) (lc_db s')"
proof (induction ws arbitrary: n s)
  case Nil
  then show ?case by (simp add: moved_refl)
next
  case (Cons w ws)
  obtain m s1 where cw: "certWriter E now cert w s = (m, s1)" by fastforce
  note one = certWriter_spec [OF Cons.prems(2) cw] and inv1 = inv_certWriter [OF Cons.prems(2) cw]
  have rest: "(\<forall>w \<in> set ws. cut_kept cert w (lc_db s')) \<and> moved_out now (lc_db s1) (lc_db s')"
    using Cons.IH [of _ s1] Cons.prems(1) inv1 cw by simp
  have "cut_kept cert w (lc_db s')"
    using one rest unfolding cut_kept_def moved_out_def by blast
  moreover have "log_table_ok (lc_db s)" using Cons.prems(2) by (simp add: core_inv_def stream_ok_def)
  ultimately show ?case using one rest moved_trans by auto
qed

lemma held_writer_listed:
  assumes "core_inv E s" "held (lc_db s) e"
  shows "e_writer e \<in> w_writer ` set (listWriters (lc_db s) (Some (e_topic e)))"
proof -
  have fits: "head_fits (lc_db s) (e_topic e, e_writer e) (storedHead E (lc_db s) (e_topic e, e_writer e))"
    by (rule inv_stored_fits [OF assms(1)])
  have "1 \<le> contigSeq (storedHead E (lc_db s) (e_topic e, e_writer e))"
    using fits assms(2) by (fastforce simp: head_fits_def streamRow_def)
  then obtain h where h: "getWriter (lc_db s) (e_topic e) (e_writer e) = Some h"
    by (auto simp: storedHead_def freshHead_def split: option.splits)
  then have "w_topic h = e_topic e" "w_writer h = e_writer e"
    using assms(1) by (auto simp: core_inv_def stream_ok_def writers_keyed_def)
  moreover have "h \<in> set (listWriters (lc_db s) (Some (e_topic e)))"
    using h by (auto simp: getWriter_def listWriters_def dest!: map_of_SomeD intro!: image_eqI)
  ultimately show ?thesis by (metis imageI)
qed

text \<open>C25. Applying a finality certificate leaves no held row of its topic at or before the
  certified order that the certified cut does not cover; every row it removes is in quarantine,
  with its content, reason and time; the certificate is stored.\<close>

theorem cert_removes_uncovered:
  assumes "core_inv E s"
  shows "let d = lc_db s; d' = lc_db (processCert E now cert s) in
    (\<forall>e. held d' e \<longrightarrow> e_topic e = cert_topic cert \<longrightarrow> orderCompare (orderOf e) (cert_order cert) \<le> 0 \<longrightarrow>
       e_seq e \<le> coveredBy cert (e_writer e)) \<and>
    (\<forall>e. held d' e \<longrightarrow> held d e) \<and>
    (\<forall>e. held d e \<longrightarrow> held d' e \<or> quarantined d' (entryKey e) = Some (e, ''post_cut'', now)) \<and>
    finalityGet d' (cert_topic cert) = Some cert"
proof -
  let ?s1 = "withDb (\<lambda>d. finalitySet d cert) s"
  let ?s2 = "?s1\<lparr>certs := (certs ?s1)(cert_topic cert \<mapsto> Some cert),
      vectorsCache := map_option (certVec (cert_topic cert) (cert_generation cert)) (vectorsCache ?s1)\<rparr>"
  let ?ws = "map w_writer (listWriters (lc_db ?s2) (Some (cert_topic cert)))"
  obtain n s3 where run: "certWriters E now cert ?ws (0, ?s2) = (n, s3)" by fastforce
  have inv2: "core_inv E ?s2" using inv_setCert [OF assms, of cert] by simp
  have s': "processCert E now cert s = settle (RQuarantined n) s3" unfolding processCert_def Let_def run by simp
  note sp = certWriters_spec [OF run inv2]
  have h2: "held (lc_db ?s2) = held (lc_db s)" by (rule held_cong) simp
  have "finalityGet (lc_db s3) (cert_topic cert) = Some cert"
    using sp reads_cong(6) [of "lc_db s3" "finalitySet (lc_db s) cert"]
    by (simp add: moved_out_def finalityTab.lookup_put)
  moreover have "e_seq e \<le> coveredBy cert (e_writer e)"
    if e: "held (lc_db s3) e" "e_topic e = cert_topic cert" "orderCompare (orderOf e) (cert_order cert) \<le> 0" for e
  proof -
    have "held (lc_db ?s2) e" using sp e(1) unfolding moved_out_def by blast
    from held_writer_listed [OF inv2 this] have "e_writer e \<in> set ?ws" using e(2) by simp
    then show ?thesis using sp e by (auto simp: cut_kept_def)
  qed
  ultimately show ?thesis using sp h2 by (simp add: s' Let_def moved_out_def)
qed

definition demo_cert :: FinalityCert where
  "demo_cert = \<lparr>cert_topic = ''t'', cert_order = \<lparr>ord_l = 9, ord_c = 0, ord_w = ''z'', ord_s = 1\<rparr>,
     cert_cut = [], cert_generation = 1, cert_authority = ''pa'', cert_sig = []\<rparr>"

theorem cert_removes_uncovered_witness:
  "quarantined (lc_db (processCert demo_env 9 demo_cert (q_core demo_after))) (''t'', ''me'', 1) =
     Some (demo_first, ''post_cut'', 9)"
proof -
  note claim = cert_removes_uncovered [OF reach_core [OF demo_reach], of 9 demo_cert, unfolded Let_def]
  have "held (lc_db (q_core demo_after)) demo_first" by (simp add: held_def demo_after_log)
  moreover have "\<not> held (lc_db (processCert demo_env 9 demo_cert (q_core demo_after))) demo_first"
    using claim by (fastforce simp: demo_cert_def demo_first_def demo_row_def orderCompare_def orderOf_def demo_hlc_def coveredBy_def)
  ultimately show ?thesis using claim by (fastforce simp: entryKey_def demo_first_def demo_row_def)
qed

section \<open>Local pruning\<close>


lemma cursorFloor_le:
  "cursorFloor d t start \<le> start" "c \<in> set (cursorsForTopic d t) \<Longrightarrow> cursorFloor d t start \<le> fst (snd c)"
proof -
  have le: "foldl (\<lambda>m c. min m (fst (snd c))) n cs \<le> n \<and> (\<forall>c \<in> set cs. foldl (\<lambda>m c. min m (fst (snd c))) n cs \<le> fst (snd c))"
    for n :: nat and cs :: "(string \<times> nat \<times> nat) list"
  proof (induction cs arbitrary: n)
    case (Cons c cs)
    have "foldl (\<lambda>m c. min m (fst (snd c))) (min n (fst (snd c))) cs \<le> min n (fst (snd c))" using Cons.IH by blast
    then show ?case using Cons.IH [of "min n (fst (snd c))"] by simp
  qed simp
  show "cursorFloor d t start \<le> start" "c \<in> set (cursorsForTopic d t) \<Longrightarrow> cursorFloor d t start \<le> fst (snd c)"
    using le unfolding cursorFloor_def by blast+
qed

lemma keepNewestFloor_nat:
  assumes "1 \<le> n" "n \<le> MAX_SAFE_INTEGER" "log_table_ok d" "fst r < keepNewestFloor d t (Some (num_of_nat n))"
  shows "n \<le> length (filter (\<lambda>x. fst r < fst x) (topicRows d t))"
proof -
  have k: "keepNewestFloor d t (Some (num_of_nat n)) =
      (case rowidAtTailOffset d t (num_of_nat n) of Some r \<Rightarrow> r | None \<Rightarrow> 0)"
    using assms(1) by (simp add: keepNewestFloor_def num_floor_def num_of_nat_def num_less_def Let_def)
  show ?thesis
  proof (cases "drop (n - 1) (rev (topicRows d t))")
    case Nil
    then show ?thesis using assms(4) by (simp add: k rowidAtTailOffset_eq [OF assms(1,2)])
  next
    case (Cons x zs)
    have "fst r < fst x" using assms(4) unfolding k rowidAtTailOffset_eq [OF assms(1,2)] Cons by simp
    then have "set (filter (\<lambda>y. fst x \<le> fst y) (topicRows d t)) \<subseteq> set (filter (\<lambda>y. fst r < fst y) (topicRows d t))" by auto
    moreover have "filter (\<lambda>y. fst x \<le> fst y) (topicRows d t) =
        filter (\<lambda>y. fst x \<le> fst y) (filter (\<lambda>y. fst r < fst y) (topicRows d t))"
      unfolding filter_filter using \<open>fst r < fst x\<close> by (intro filter_cong) auto
    then have "length (filter (\<lambda>y. fst x \<le> fst y) (topicRows d t)) \<le> length (filter (\<lambda>y. fst r < fst y) (topicRows d t))"
      by (metis length_filter_le)
    then show ?thesis using tail_count [OF topicRows_sorted [OF assms(3)] Cons] assms(1) by simp
  qed
qed

text \<open>What a local prune may remove: rows of the topic, strictly before every consumer's
  cursor, older than the given age, with at least \<open>n\<close> newer rows of the topic kept.\<close>

definition prune_allowed :: "nat \<Rightarrow> Db \<Rightarrow> string \<Rightarrow> jsnum option \<Rightarrow> jsnum option \<Rightarrow> LogRow \<Rightarrow> bool" where
  "prune_allowed now d t older keep r \<longleftrightarrow> inTopic t r \<and>
     (\<forall>c \<in> set (cursorsForTopic d t). fst r < fst (snd c)) \<and>
     (\<forall>q. older = Some (JFin q) \<longrightarrow> of_nat (hlc_l (e_hlc (snd r))) < of_nat now - q) \<and>
     (\<forall>n. 1 \<le> n \<longrightarrow> n \<le> MAX_SAFE_INTEGER \<longrightarrow> keep = Some (num_of_nat n) \<longrightarrow>
        n \<le> length (filter (\<lambda>x. fst r < fst x) (topicRows d t)))"

text \<open>C30. A local prune either is refused and removes nothing, or removes exactly the rows it
  reports, every one of them of its topic, strictly before every consumer's cursor, older than
  the given age, and with at least the requested number of newer rows kept.\<close>

theorem prune_behind_consumers:
  assumes "core_inv E s" "processPruneTopic E now t older keep s = Inr s'"
  shows "(settled s' = settled s @ [RReject ERR_MISUSE] \<and> lc_store s' = lc_store s) \<or>
    (\<exists>P. sq_log (lc_db s') = filter (\<lambda>r. \<not> P r) (sq_log (lc_db s)) \<and>
       settled s' = settled s @ [RPruned (length (filter P (sq_log (lc_db s))))] \<and>
       (\<forall>r. P r \<longrightarrow> prune_allowed now (lc_db s) t older keep r))"
proof -
  have table: "log_table_ok (lc_db s)" using assms(1) by (simp add: core_inv_def stream_ok_def)
  let ?cf = "cursorFloor (lc_db s) t MAX_SAFE_INTEGER" and ?kf = "keepNewestFloor (lc_db s) t keep"
  let ?below = "min ?cf ?kf - 1"
  consider (refused) "s' = settle (RReject ERR_MISUSE) s" | (none) "s' = settle (RPruned 0) s"
    | (some) n st where "1 \<le> ?below"
        "deleteLogRowsUpToRowid (lc_store s) t ?below (hlcBound now older) = (n, st)"
        "s' = settle (RPruned n) (s\<lparr>lc_store := st\<rparr>)"
    using assms(2) by (auto simp: processPruneTopic_def rbind_eq_Inr Let_def split: if_splits prod.splits)
  then show ?thesis
  proof cases
    case none
    then have "sq_log (lc_db s') = filter (\<lambda>r. \<not> False) (sq_log (lc_db s)) \<and>
       settled s' = settled s @ [RPruned (length (filter (\<lambda>r. False) (sq_log (lc_db s))))]" by simp
    then show ?thesis by (intro disjI2 exI [of _ "\<lambda>r. False"]) simp
  next
    case some
    note sp = deleteLogRowsUpToRowid_spec [OF table some(2)]
    let ?P = "prunable t ?below (hlcBound now older)"
    have "prune_allowed now (lc_db s) t older keep r" if p: "?P r" for r
    proof -
      have "fst r < ?cf" "fst r < ?kf" using p some(1) by (auto simp: prunable_def)
      then have "\<forall>c \<in> set (cursorsForTopic (lc_db s) t). fst r < fst (snd c)"
        using cursorFloor_le(2) less_le_trans by blast
      moreover have "of_nat (hlc_l (e_hlc (snd r))) < of_nat now - q" if "older = Some (JFin q)" for q
        using p that by (simp add: prunable_def hlcBound_def)
      ultimately show ?thesis
        using p keepNewestFloor_nat [OF _ _ table, of _ r t] \<open>fst r < ?kf\<close>
        by (auto simp: prune_allowed_def prunable_def)
    qed
    then show ?thesis using sp some(3) by (intro disjI2 exI [of _ ?P]) simp
  qed simp
qed

section \<open>A keyed topic with two rows\<close>

definition two_row :: "nat \<Rightarrow> LogEntry" where
  "two_row n = (demo_row ''k'' ''me'' n \<lparr>hlc_l = n, hlc_c = 0\<rparr>)\<lparr>e_key := Some ''a''\<rparr>"

definition two_head :: WriterRow where
  "two_head = (freshHead demo_env ''k'' ''me'')\<lparr>contigSeq := 2, contigChain := demo_hash\<rparr>"

definition two_db :: Db where
  "two_db = empty_db\<lparr>sq_log := [(1, two_row 1), (2, two_row 2)], log_autoinc := 2,
     sq_writers := [((''k'', ''me''), two_head)], sq_cursors := [((''c'', ''k''), (2, 0))]\<rparr>"

definition two_core :: LogCore where
  "two_core = LogCore_new (empty_store\<lparr>db := two_db\<rparr>)"

lemma two_row_fields [simp]:
  "e_topic (two_row n) = ''k''" "e_writer (two_row n) = ''me''" "e_seq (two_row n) = n" "e_key (two_row n) = Some ''a''"
  "e_chain (two_row n) = demo_hash" "e_hlc (two_row n) = \<lparr>hlc_l = n, hlc_c = 0\<rparr>" "e_kind (two_row n) = ''k''"
  by (simp_all add: two_row_def demo_row_def)

lemma two_core_fields [simp]:
  "lc_db two_core = two_db" "sq_log two_db = [(1, two_row 1), (2, two_row 2)]" "log_autoinc two_db = 2"
  "sq_writers two_db = [((''k'', ''me''), two_head)]" "sq_cursors two_db = [((''c'', ''k''), (2, 0))]"
  "heads two_core = Map.empty" "certs two_core = Map.empty" "floors two_core = Map.empty"
  "logCounts (lc_store two_core) = Map.empty" "settled two_core = []" "recoveries two_core = Map.empty"
  "contigSeq two_head = 2" "contigChain two_head = demo_hash" "w_topic two_head = ''k''" "w_writer two_head = ''me''"
  "sealReason two_head = None" "finalSeq two_head = None" "sq_floors two_db = []" "sq_acks two_db = []" "sq_ack_nodes two_db = []"
  by (simp_all add: two_core_def LogCore_new_def two_db_def empty_store_def empty_db_def two_head_def freshHead_def)

lemma two_held: "held two_db e \<longleftrightarrow> e = two_row 1 \<or> e = two_row 2"
  by (auto simp: held_def)

lemma two_core_inv: "core_inv demo_env two_core"
proof -
  have stored: "storedHead demo_env two_db k = (if k = (''k'', ''me'') then two_head else freshHead demo_env (fst k) (snd k))" for k
    by (simp add: storedHead_def getWriter_def) 
  have "log_table_ok two_db" by (simp add: log_table_ok_def entryKey_def)
  moreover have "writers_keyed two_db" by (simp add: writers_keyed_def getWriter_def)
  moreover have "head_fits two_db k (storedHead demo_env two_db k)" for k
    by (cases k) (auto simp: head_fits_def stored streamRow_def two_held)
  moreover have "chainOf demo_lib p (two_row n) = Inr demo_hash" if "n \<le> 1000" for p n
    using that by (intro demo_chain) (simp_all add: small_hlc_def)
  then have "chain_linked demo_env two_db" by (auto simp: chain_linked_def two_held)
  ultimately have "stream_ok demo_env two_db" by (simp add: stream_ok_def)
  then show ?thesis
    by (simp add: core_inv_def headsCache.coherent_def certsCache.coherent_def floorsCache.coherent_def counts_ok_def)
qed

lemma two_topicRows [simp]: "topicRows two_db ''k'' = [(1, two_row 1), (2, two_row 2)]"
  by (simp add: topicRows_def inTopic_def)

theorem prune_behind_consumers_witness:
  "\<exists>s' P. processPruneTopic demo_env 9 ''k'' None (Some (num_of_nat 1)) two_core = Inr s' \<and>
     sq_log (lc_db s') = filter (\<lambda>r. \<not> P r) [(1, two_row 1), (2, two_row 2)] \<and>
     settled s' = [RPruned (length (filter P [(1, two_row 1), (2, two_row 2)]))]"
proof -
  have cf: "cursorFloor two_db ''k'' MAX_SAFE_INTEGER = 2"
    by (simp add: cursorFloor_def cursorsForTopic_def MAX_SAFE_INTEGER_def)
  have kf: "keepNewestFloor two_db ''k'' (Some (num_of_nat 1)) = 2"
    using rowidAtTailOffset_eq [of 1 two_db "''k''"]
    by (simp add: keepNewestFloor_def num_floor_def num_of_nat_def num_less_def MAX_SAFE_INTEGER_def Let_def)
  obtain n st where del: "deleteLogRowsUpToRowid (lc_store two_core) ''k'' 1 (hlcBound 9 None) = (n, st)" by fastforce
  have run: "processPruneTopic demo_env 9 ''k'' None (Some (num_of_nat 1)) two_core =
      Inr (settle (RPruned n) (two_core\<lparr>lc_store := st\<rparr>))"
    using del by (simp add: processPruneTopic_def demo_registry orAbort_def cf kf [simplified] subscriberRefuses_def Let_def)
  show ?thesis
    using prune_behind_consumers [OF two_core_inv run] run by auto
qed

section \<open>Keyed compaction\<close>

text \<open>Why compaction may remove a row of the topic.\<close>

definition compactable :: "string \<Rightarrow> string \<Rightarrow> string \<Rightarrow> nat \<Rightarrow> nat \<Rightarrow> bool \<Rightarrow> Db \<Rightarrow> LogRow \<Rightarrow> bool" where
  "compactable self t tk fl hi others d r \<longleftrightarrow> r \<in> set (topicRows d t) \<and> fst r \<le> fl \<and>
     (others \<and> e_writer (snd r) \<noteq> self \<or>
      keyRowBetween d t (e_key (snd r)) (fst r) hi \<or>
      e_key (snd r) \<noteq> None \<and> e_kind (snd r) = tk)"

text \<open>The state of a compaction that started on \<open>d0\<close> with a budget of \<open>n\<close>.\<close>

definition compacted :: "string \<Rightarrow> string \<Rightarrow> string \<Rightarrow> nat \<Rightarrow> nat \<Rightarrow> bool \<Rightarrow> Db \<Rightarrow> nat \<Rightarrow> nat \<times> nat \<times> Store \<Rightarrow> bool" where
  "compacted self t tk fl hi others d0 n b \<longleftrightarrow> (case b of (budget, pruned, st) \<Rightarrow>
     budget + pruned = n \<and>
     (\<exists>R. sq_log (db st) = filter (\<lambda>r. \<not> R r) (sq_log d0) \<and> pruned = length (filter R (sq_log d0)) \<and>
        (\<forall>r. R r \<longrightarrow> compactable self t tk fl hi others d0 r)))"

lemma rowids_in_rows:
  assumes "set rows \<subseteq> set (topicRows d t)"
  shows "fst r \<in> set (map fst (take k rows)) \<longrightarrow> (\<exists>x \<in> set rows. fst x = fst r)"
  using assms by (auto dest!: in_set_takeD) force

lemma filter_or_len:
  "length (filter (\<lambda>r. R r \<or> S r) xs) = length (filter R xs) + length (filter S (filter (\<lambda>r. \<not> R r) xs))"
  by (induction xs) auto

lemma compacted_drop:
  fixes rows :: "LogRow list"
  assumes table: "log_table_ok d0" and c: "compacted self t tk fl hi others d0 n (budget, pruned, st)"
    and rows: "distinct rows" "set rows \<subseteq> set (topicRows (db st) t)"
      "\<And>r. r \<in> set rows \<Longrightarrow> compactable self t tk fl hi others d0 r"
  shows "compacted self t tk fl hi others d0 n (pruneDrop t (map fst (take budget rows)) (budget, pruned, st))"
proof -
  obtain R where R: "sq_log (db st) = filter (\<lambda>r. \<not> R r) (sq_log d0)" "pruned = length (filter R (sq_log d0))"
    "\<forall>r. R r \<longrightarrow> compactable self t tk fl hi others d0 r" and n: "budget + pruned = n"
    using c by (auto simp: compacted_def)
  let ?gone = "take budget rows"
  let ?S = "\<lambda>r. r \<in> set ?gone"
  have sub: "set ?gone \<subseteq> set (sq_log (db st))"
    using rows(2) by (auto simp: topicRows_def dest: in_set_takeD)
  have id: "fst r \<in> set (map fst ?gone) \<longleftrightarrow> ?S r" if "r \<in> set (sq_log (db st))" for r
  proof -
    have "x = r" if "x \<in> set ?gone" "fst x = fst r" for x
      using log_table_rowid_unique [OF table, of x r] that sub \<open>r \<in> set (sq_log (db st))\<close> R(1) by auto
    then show ?thesis by force
  qed
  have topic: "inTopic t r" if "?S r" for r using that rows(2) by (auto simp: topicRows_def dest: in_set_takeD)
  have log: "sq_log (db (deleteLogRowids st t (map fst ?gone))) = filter (\<lambda>r. \<not> (R r \<or> ?S r)) (sq_log d0)"
  proof -
    have "sq_log (db (deleteLogRowids st t (map fst ?gone))) = filter (\<lambda>r. \<not> ?S r) (sq_log (db st))"
      unfolding deleteLogRowids_rows using id topic by (intro filter_cong refl) blast
    then show ?thesis by (simp add: R(1) conj_commute)
  qed
  have "distinct (map fst (sq_log d0))" using table by (simp add: log_table_ok_def strict_sorted_iff)
  then have dl: "distinct (sq_log d0)" by (simp add: distinct_map)
  have "length (filter ?S (sq_log (db st))) = length ?gone"
  proof -
    have "set (filter ?S (sq_log (db st))) = set ?gone" using sub by auto
    moreover have "distinct (filter ?S (sq_log (db st)))" using dl by (simp add: R(1))
    moreover have "distinct ?gone" using rows(1) by simp
    ultimately show ?thesis by (metis distinct_card)
  qed
  moreover have "length (filter (\<lambda>r. R r \<or> ?S r) (sq_log d0)) = length (filter R (sq_log d0)) + length (filter ?S (sq_log (db st)))"
    unfolding R(1) by (rule filter_or_len)
  ultimately have "pruned + length ?gone = length (filter (\<lambda>r. R r \<or> ?S r) (sq_log d0))" using R(2) by simp
  moreover have "compactable self t tk fl hi others d0 r" if "R r \<or> ?S r" for r
    using that R(3) rows(3) in_set_takeD [of r budget rows] by blast
  ultimately show ?thesis
    using n log by (auto simp: compacted_def pruneDrop_def intro!: exI [of _ "\<lambda>r. R r \<or> ?S r"])
qed

lemma compacted_sub:
  assumes "compacted self t tk fl hi others d0 n (budget, pruned, st)"
  shows "set (topicRows (db st) t) \<subseteq> set (topicRows d0 t)" "distinct (sq_log d0) \<Longrightarrow> distinct (topicRows (db st) t)"
  using assms by (auto simp: compacted_def topicRows_def)

lemma keyIndex_rows: "set (keyIndex rs) \<subseteq> set rs" "distinct rs \<Longrightarrow> distinct (keyIndex rs)"
  by (auto simp: keyIndex_def)

lemma keyRowBetween_mono:
  "keyRowBetween d t k lo hi \<Longrightarrow> set (topicRows d t) \<subseteq> set (topicRows d0 t) \<Longrightarrow> keyRowBetween d0 t k lo hi"
  by (auto simp: keyRowBetween_def list_ex_iff)

lemma supersedePass_compacted:
  assumes table: "log_table_ok d0" and st: "db st = d0"
  shows "compacted self t tk fl hi others d0 n (supersedePass self t tk fl hi others (n, 0, st))"
proof -
  let ?C = "compacted self t tk fl hi others d0 n"
  have "distinct (map fst (sq_log d0))" using table by (simp add: log_table_ok_def strict_sorted_iff)
  then have dl: "distinct (sq_log d0)" by (simp add: distinct_map)
  have c0: "?C (n, 0, st)"
    using st by (auto simp: compacted_def intro!: exI [of _ "\<lambda>_. False"])
  have other: "?C (pruneDrop t (otherWriterRowids (db (snd (snd b))) t self fl (fst b)) b)" if "?C b" others for b
  proof -
    obtain budget pruned st where b: "b = (budget, pruned, st)" by (cases b)
    show ?thesis
      using compacted_drop [OF table that(1) [unfolded b], of "filter (\<lambda>r. fst r \<le> fl \<and> e_writer (snd r) \<noteq> self) (topicRows (db st) t)"]
        compacted_sub [OF that(1) [unfolded b]] dl \<open>others\<close>
      by (auto simp: b otherWriterRowids_def compactable_def)
  qed
  have sup: "?C (pruneDrop t (supersededRowids (db (snd (snd b))) t fl hi (fst b)) b)" if "?C b" for b
  proof -
    obtain budget pruned st where b: "b = (budget, pruned, st)" by (cases b)
    note sub = compacted_sub [OF that [unfolded b]]
    show ?thesis
      using compacted_drop [OF table that [unfolded b], of "filter (\<lambda>a. fst a \<le> fl \<and> keyRowBetween (db st) t (e_key (snd a)) (fst a) hi)
          (keyIndex (topicRows (db st) t))"] sub dl keyIndex_rows [of "topicRows (db st) t"] keyRowBetween_mono [OF _ sub(1)]
      by (auto simp: b supersededRowids_def compactable_def)
  qed
  have lone: "?C (pruneDrop t (loneTombstoneRowids (db (snd (snd b))) t tk fl hi (fst b)) b)" if "?C b" for b
  proof -
    obtain budget pruned st where b: "b = (budget, pruned, st)" by (cases b)
    note sub = compacted_sub [OF that [unfolded b]]
    have keyed: "x \<in> set (keyIndex rs) \<Longrightarrow> e_key (snd x) \<noteq> None" for x and rs :: "LogRow list" by (auto simp: keyIndex_def)
    show ?thesis
      using compacted_drop [OF table that [unfolded b], of "filter (\<lambda>a. fst a \<le> fl \<and> e_kind (snd a) = tk \<and>
            \<not> otherKeyRowUpTo (db st) t a hi) (keyIndex (topicRows (db st) t))"] sub dl
        keyIndex_rows [of "topicRows (db st) t"] keyed [of _ "topicRows (db st) t"]
      by (auto simp: b loneTombstoneRowids_def compactable_def)
  qed
  have step1: "?C b \<Longrightarrow> ?C (if others \<and> fst b > 0
      then pruneDrop t (otherWriterRowids (db (snd (snd b))) t self fl (fst b)) b else b)"
    and step2: "?C b \<Longrightarrow> ?C (if fst b > 0 then pruneDrop t (supersededRowids (db (snd (snd b))) t fl hi (fst b)) b else b)"
    and step3: "?C b \<Longrightarrow> ?C (if fst b > 0 then pruneDrop t (loneTombstoneRowids (db (snd (snd b))) t tk fl hi (fst b)) b else b)"
    for b using other [of b] sup [of b] lone [of b] by (cases others, simp_all)
  show ?thesis unfolding supersedePass_def Let_def by (rule step3 [OF step2 [OF step1 [OF c0]]])
qed

definition tombstoneOf :: "LogEnv \<Rightarrow> string \<Rightarrow> string" where
  "tombstoneOf E t = (case reg_get (registry E) t of
     Inl _ \<Rightarrow> []
   | Inr te \<Rightarrow> (case Option.bind (p_keyed (te_policy te)) tombstoneKindOf of Some k \<Rightarrow> k | None \<Rightarrow> []))"

text \<open>C29. Keyed compaction either is refused and removes nothing, or removes exactly the rows it
  reports, within its row budget; each of them lies at or before every consumer's cursor and the
  caller's rowid bound, and is superseded by a newer row of its key within that bound, or a
  tombstone, or (when asked for) another writer's. So with \<open>others\<close> off the newest row of a
  key within the bound stays, unless it is a tombstone.\<close>

theorem compaction_keeps_newest:
  assumes "core_inv E s" "processPruneSuperseded E t hi n others s = Inr s'"
  shows "(settled s' = settled s @ [RReject ERR_MISUSE] \<and> lc_store s' = lc_store s) \<or>
    (\<exists>R. sq_log (lc_db s') = filter (\<lambda>r. \<not> R r) (sq_log (lc_db s)) \<and>
       settled s' = settled s @ [RPruned (length (filter R (sq_log (lc_db s))))] \<and>
       length (filter R (sq_log (lc_db s))) \<le> n \<and>
       (\<forall>r. R r \<longrightarrow> fst r \<le> hi \<and> (\<forall>c \<in> set (cursorsForTopic (lc_db s) t). fst r \<le> fst (snd c)) \<and>
          compactable (selfId E) t (tombstoneOf E t) (cursorFloor (lc_db s) t hi) hi others (lc_db s) r))"
proof -
  have table: "log_table_ok (lc_db s)" using assms(1) by (simp add: core_inv_def stream_ok_def)
  let ?fl = "cursorFloor (lc_db s) t hi"
  obtain te where te: "reg_get (registry E) t = Inr te"
    using assms(2) by (auto simp: processPruneSuperseded_def rbind_eq_Inr)
  show ?thesis
  proof (cases "p_keyed (te_policy te)")
    case None
    then show ?thesis using assms(2) te by (auto simp: processPruneSuperseded_def orAbort_def)
  next
    case (Some keyed)
    define tk where "tk = (case tombstoneKindOf keyed of Some k \<Rightarrow> k | None \<Rightarrow> [])"
    have tk: "tombstoneOf E t = tk" by (simp add: tombstoneOf_def te Some tk_def)
    obtain budget pruned st where pass: "supersedePass (selfId E) t tk ?fl hi others (n, 0, lc_store s) = (budget, pruned, st)"
      by (metis prod_cases3)
    have c: "compacted (selfId E) t tk ?fl hi others (lc_db s) n (budget, pruned, st)"
      using supersedePass_compacted [OF table refl, of "selfId E" t tk ?fl hi others n] pass by simp
    then obtain R where R: "sq_log (db st) = filter (\<lambda>r. \<not> R r) (sq_log (lc_db s))"
      "pruned = length (filter R (sq_log (lc_db s)))" "pruned \<le> n"
      "\<forall>r. R r \<longrightarrow> compactable (selfId E) t tk ?fl hi others (lc_db s) r" by (auto simp: compacted_def)
    have bound: "fst r \<le> hi \<and> (\<forall>c \<in> set (cursorsForTopic (lc_db s) t). fst r \<le> fst (snd c)) \<and>
        compactable (selfId E) t tk ?fl hi others (lc_db s) r" if "R r" for r
    proof -
      have "fst r \<le> ?fl" "compactable (selfId E) t tk ?fl hi others (lc_db s) r"
        using R(4) that unfolding compactable_def by blast+
      then show ?thesis
        using cursorFloor_le(1) [of "lc_db s" t hi] cursorFloor_le(2) [of _ "lc_db s" t hi] order_trans by blast
    qed
    show ?thesis
    proof (cases "?fl \<ge> 1")
      case True
      then have "s' = settle (RPruned pruned) (s\<lparr>lc_store := st\<rparr>)"
        using assms(2) te Some pass by (simp add: processPruneSuperseded_def orAbort_def Let_def tk_def)
      then have "sq_log (lc_db s') = filter (\<lambda>r. \<not> R r) (sq_log (lc_db s))"
        "settled s' = settled s @ [RPruned (length (filter R (sq_log (lc_db s))))]" using R by simp_all
      then show ?thesis using bound R(2,3) unfolding tk by blast
    next
      case False
      then have "s' = settle (RPruned 0) s"
        using assms(2) te Some by (simp add: processPruneSuperseded_def orAbort_def Let_def)
      then show ?thesis by (intro disjI2 exI [of _ "\<lambda>_. False"]) simp
    qed
  qed
qed

theorem compaction_keeps_newest_witness:
  "\<exists>s'. processPruneSuperseded demo_env ''k'' 2 10 False two_core = Inr s' \<and> (2, two_row 2) \<in> set (sq_log (lc_db s'))"
proof -
  obtain budget pruned st where pass:
    "supersedePass ''me'' ''k'' ''gone'' 2 2 False (10, 0, lc_store two_core) = (budget, pruned, st)" by (metis prod_cases3)
  have cf: "cursorFloor two_db ''k'' 2 = 2" by (simp add: cursorFloor_def cursorsForTopic_def)
  have run: "processPruneSuperseded demo_env ''k'' 2 10 False two_core = Inr (settle (RPruned pruned) (two_core\<lparr>lc_store := st\<rparr>))"
    using pass by (simp add: processPruneSuperseded_def demo_registry orAbort_def cf Let_def tombstoneKindOf_def getProp_def)
  from compaction_keeps_newest [OF two_core_inv run]
  obtain R where R: "sq_log (db st) = filter (\<lambda>r. \<not> R r) (sq_log two_db)"
    "\<forall>r. R r \<longrightarrow> compactable ''me'' ''k'' (tombstoneOf demo_env ''k'') 2 2 False two_db r" by (auto simp: cf)
  have "tombstoneOf demo_env ''k'' = ''gone''"
    by (simp add: tombstoneOf_def demo_registry tombstoneKindOf_def getProp_def)
  moreover have "\<not> keyRowBetween two_db ''k'' (Some ''a'') 2 2" by (simp add: keyRowBetween_def)
  ultimately have "\<not> compactable ''me'' ''k'' (tombstoneOf demo_env ''k'') 2 2 False two_db (2, two_row 2)"
    by (simp add: compactable_def)
  then have "\<not> R (2, two_row 2)" using R(2) by blast
  then show ?thesis using R(1) run by simp
qed

section \<open>Acknowledged retention\<close>

definition streamRows :: "Db \<Rightarrow> string \<Rightarrow> string \<Rightarrow> LogRow list" where
  "streamRows d t w = sort_key (\<lambda>r. e_seq (snd r)) (filter (inStream t w) (sq_log d))"

lemma streamRows_strict:
  assumes "log_table_ok d"
  shows "sorted_wrt (\<lambda>a b. e_seq (snd a) < e_seq (snd b)) (streamRows d t w)"
proof -
  let ?rs = "filter (inStream t w) (sq_log d)"
  have "distinct (sq_log d)" "inj_on (\<lambda>x. entryKey (snd x)) (set (sq_log d))"
    using assms by (simp_all add: log_table_ok_def distinct_map)
  then have "inj_on (\<lambda>r. e_seq (snd r)) (set ?rs)" "distinct ?rs"
    by (auto simp: inj_on_def entryKey_def inStream_def)
  then have "distinct (map (\<lambda>r. e_seq (snd r)) (streamRows d t w))"
    by (simp add: streamRows_def distinct_map)
  moreover have "sorted (map (\<lambda>r. e_seq (snd r)) (streamRows d t w))" by (simp add: streamRows_def)
  ultimately have "sorted_wrt (<) (map (\<lambda>r. e_seq (snd r)) (streamRows d t w))"
    unfolding strict_sorted_iff by blast
  then show ?thesis by (simp add: sorted_wrt_map)
qed

text \<open>The walk stops inside the rows it is given; what it counted is a prefix that qualifies.\<close>

lemma walkPrefix_spec:
  "walkPrefix target cutoff cf budget rows (n, l) = (n', l') \<Longrightarrow>
   \<exists>k \<le> length rows. n' = n + k \<and> (\<forall>i < k. prefixRow target cutoff cf (rows ! i)) \<and>
     (k = 0 \<and> l' = l \<or> 0 < k \<and> l' = fst (snd (rows ! (k - 1))))"
proof (induction rows arbitrary: n l)
  case (Cons r rows)
  show ?case
  proof (cases "\<not> prefixRow target cutoff cf r \<or> n = budget")
    case True
    then show ?thesis using Cons.prems by (intro exI [of _ 0]) auto
  next
    case False
    then have "walkPrefix target cutoff cf budget rows (n + 1, fst (snd r)) = (n', l')" using Cons.prems by simp
    from Cons.IH [OF this] obtain k where k: "k \<le> length rows" "n' = n + 1 + k"
      "\<forall>i < k. prefixRow target cutoff cf (rows ! i)" "k = 0 \<and> l' = fst (snd r) \<or> 0 < k \<and> l' = fst (snd (rows ! (k - 1)))"
      by blast
    show ?thesis
      by (rule exI [of _ "Suc k"]) (use k False in \<open>auto simp: nth_Cons less_Suc_eq_0_disj split: nat.split\<close>)
  qed
qed simp

lemma walked_rows_qualify:
  assumes table: "log_table_ok d"
    and walk: "walkPrefix target cutoff cf budget (streamHead d t w lmt) (0, 0) = (n, l)" "n \<noteq> 0"
    and x: "x \<in> set (sq_log d)" "inStream t w x" "e_seq (snd x) \<le> l"
  shows "prefixRow target cutoff cf (fst x, e_seq (snd x), hlc_l (e_hlc (snd x)))"
proof -
  let ?rows = "streamRows d t w" and ?f = "\<lambda>r :: LogRow. (fst r, e_seq (snd r), hlc_l (e_hlc (snd r)))"
  have sh: "streamHead d t w lmt = map ?f (take lmt ?rows)" by (simp add: streamHead_def streamRows_def)
  have nth: "i < length (take lmt ?rows) \<Longrightarrow> streamHead d t w lmt ! i = ?f (?rows ! i)" for i by (simp add: sh)
  obtain k where k0: "0 < k" "k \<le> length (take lmt ?rows)" "\<forall>i < k. prefixRow target cutoff cf (streamHead d t w lmt ! i)"
    "l = fst (snd (streamHead d t w lmt ! (k - 1)))"
    using walkPrefix_spec [OF walk(1)] walk(2) by (auto simp: sh)
  have k: "0 < k" "\<forall>i < k. prefixRow target cutoff cf (?f (?rows ! i))" "l = e_seq (snd (?rows ! (k - 1)))"
    using k0 nth by (auto simp del: length_take)
  have "x \<in> set ?rows" using x by (simp add: streamRows_def)
  then obtain i where i: "i < length ?rows" "?rows ! i = x" by (auto simp: in_set_conv_nth)
  have "i < k"
  proof (rule ccontr)
    assume "\<not> i < k"
    then have "k - 1 < i" using k(1) by simp
    then have "e_seq (snd (?rows ! (k - 1))) < e_seq (snd x)"
      using sorted_wrt_nth_less [OF streamRows_strict [OF table]] i by blast
    then show False using x(3) k(3) by simp
  qed
  then show ?thesis using k(2) i(2) by auto
qed

text \<open>Why acknowledged retention may remove a row: what the plan's floors, the age, the cursors
  and the floor recorded for it afterwards allow.\<close>

definition floorSeq :: "Db \<Rightarrow> string \<Rightarrow> string \<Rightarrow> nat" where
  "floorSeq d t w = (case floorGet d t w of None \<Rightarrow> 0 | Some (n, _) \<Rightarrow> n)"

definition ackFloorOf :: "(string \<times> nat \<times> string option) list \<Rightarrow> string \<Rightarrow> nat" where
  "ackFloorOf afs w = (case map_of afs w of None \<Rightarrow> 0 | Some (n, _) \<Rightarrow> n)"

definition acked_away ::
  "nat \<Rightarrow> string \<Rightarrow> AckedPruneOptions \<Rightarrow> nat \<Rightarrow> (string \<times> nat \<times> string option) list \<Rightarrow> StreamView \<Rightarrow>
   Db \<Rightarrow> Db \<Rightarrow> LogRow \<Rightarrow> bool" where
  "acked_away now t opts cf afs sv d d' x \<longleftrightarrow>
     inStream t (sv_writer sv) x \<and> sv_sealReason sv \<noteq> Some SealFork \<and> \<not> sv_recovering sv \<and>
     e_seq (snd x) \<le> max (ackedTarget sv (ackFloorOf afs (sv_writer sv)) 0) (floorSeq d t (sv_writer sv)) \<and>
     of_nat (hlc_l (e_hlc (snd x))) < of_nat now - o_olderThanMs opts \<and> fst x \<le> cf \<and>
     e_seq (snd x) \<le> floorSeq d' t (sv_writer sv)"

lemma floorGet_set: "floorGet (floorSet d t w n c k) t' w' =
   (if (t', w') = (t, w) \<and> floorSeq d t w < n then Some (n, c)
    else if (t', w') = (t, w) \<and> floorGet d t w = None then Some (n, c) else floorGet d t' w')"
  by (auto simp: floorGet_def floorSet_def floorSeq_def map_of_alist_update split: option.splits)

lemma ackedDelete_effect:
  assumes "ackedDelete now t w (floorSeq (lc_db s) t w) l rep s = Inr (rep', s')"
  shows "sq_log (lc_db s') = filter (\<lambda>r. \<not> (inStream t w r \<and> e_seq (snd r) \<le> l)) (sq_log (lc_db s))"
    "floorSeq (lc_db s') t' w' = (if (t', w') = (t, w) then max l (floorSeq (lc_db s) t w) else floorSeq (lc_db s) t' w')"
proof -
  have same: "floorGet (db (deleteStreamPrefix st t w l)) = floorGet (db st)" for st
    by (rule reads_cong(5)) (simp add: deleteStreamPrefix_def)
  have "sq_log (lc_db s') = filter (\<lambda>r. \<not> (inStream t w r \<and> e_seq (snd r) \<le> l)) (sq_log (lc_db s)) \<and>
     floorSeq (lc_db s') t' w' = (if (t', w') = (t, w) then max l (floorSeq (lc_db s) t w) else floorSeq (lc_db s) t' w')"
  proof (cases "floorSeq (lc_db s) t w < l")
    case True
    then obtain c where "lc_store s' = deleteStreamPrefix (lc_store (withDb (\<lambda>d. floorSet d t w l c now) s)) t w l"
      using assms by (auto simp: ackedDelete_def rbind_eq_Inr Let_def split: option.splits)
    then show ?thesis
      using True by (auto simp: floorSeq_def same floorGet_set) (auto simp: deleteStreamPrefix_def)
  next
    case False
    then have "lc_store s' = deleteStreamPrefix (lc_store s) t w l"
      using assms by (auto simp: ackedDelete_def)
    then show ?thesis
      using False by (auto simp: floorSeq_def same) (auto simp: deleteStreamPrefix_def)
  qed
  then show "sq_log (lc_db s') = filter (\<lambda>r. \<not> (inStream t w r \<and> e_seq (snd r) \<le> l)) (sq_log (lc_db s))"
    "floorSeq (lc_db s') t' w' = (if (t', w') = (t, w) then max l (floorSeq (lc_db s) t w) else floorSeq (lc_db s) t' w')"
    by blast+
qed

text \<open>One step of the run: rows that went, floors that moved.\<close>

definition away_step ::
  "nat \<Rightarrow> string \<Rightarrow> AckedPruneOptions \<Rightarrow> nat \<Rightarrow> (string \<times> nat \<times> string option) list \<Rightarrow> StreamView list \<Rightarrow>
   Db \<Rightarrow> Db \<Rightarrow> bool" where
  "away_step now t opts cf afs svs d d' \<longleftrightarrow>
     (\<exists>P. sq_log d' = filter (\<lambda>r. \<not> P r) (sq_log d) \<and> (o_dryRun opts \<longrightarrow> (\<forall>x. \<not> P x)) \<and>
        (\<forall>x \<in> set (sq_log d). P x \<longrightarrow> (\<exists>sv \<in> set svs. acked_away now t opts cf afs sv d d' x))) \<and>
     (\<forall>w. floorSeq d t w \<le> floorSeq d' t w) \<and>
     (\<forall>w. w \<notin> sv_writer ` set svs \<longrightarrow> floorSeq d' t w = floorSeq d t w)"

lemma away_none: "sq_log d' = sq_log d \<Longrightarrow> sq_floors d' = sq_floors d \<Longrightarrow> away_step now t opts cf afs svs d d'"
  using reads_cong(5) [of d' d]
  by (auto simp: away_step_def floorSeq_def intro!: exI [of _ "\<lambda>_. False"])

lemma ackedStream_away:
  assumes inv: "core_inv E s" and run: "ackedStream now t opts cf afs sv (rn, s) = Inr (rn', s')"
  shows "away_step now t opts cf afs [sv] (lc_db s) (lc_db s')"
proof -
  let ?w = "sv_writer sv" and ?p = "floorSeq (lc_db s) t (sv_writer sv)"
  let ?target = "ackedTarget sv (ackFloorOf afs ?w) ?p" and ?cutoff = "of_nat now - o_olderThanMs opts"
  obtain prev s1 where fo: "floorOf t ?w s = (prev, s1)" by fastforce
  note f = inv_floorOf [OF inv fo]
  have p: "(case prev of None \<Rightarrow> 0 | Some (n, _) \<Rightarrow> n) = ?p" by (simp add: f(2) floorSeq_def)
  obtain af pin where af: "(case map_of afs ?w of Some x \<Rightarrow> x | None \<Rightarrow> (0, None)) = (af, pin)" by fastforce
  then have af': "af = ackFloorOf afs ?w" by (auto simp: ackFloorOf_def split: option.splits)
  obtain n l where wk: "walkPrefix ?target ?cutoff cf (rn_budget rn) (streamHead (lc_db s) t ?w (Suc (rn_budget rn))) (0, 0) = (n, l)"
    by fastforce
  have table: "log_table_ok (lc_db s)" using inv by (simp add: core_inv_def stream_ok_def)
  have "s' = s1 \<or> (sv_sealReason sv \<noteq> Some SealFork \<and> \<not> sv_recovering sv \<and> n \<noteq> 0 \<and> \<not> o_dryRun opts \<and>
      (\<exists>rep rep'. ackedDelete now t ?w ?p l rep s1 = Inr (rep', s')))"
    using run f(3) unfolding ackedStream_def prod.case fo Let_def p af
    by (auto simp: af' [symmetric] wk [unfolded af' [symmetric]] rbind_eq_Inr split: prod.splits if_splits)
  then show ?thesis
  proof
    assume "s' = s1"
    then show ?thesis using f(3) by (simp add: away_none)
  next
    assume d: "sv_sealReason sv \<noteq> Some SealFork \<and> \<not> sv_recovering sv \<and> n \<noteq> 0 \<and> \<not> o_dryRun opts \<and>
      (\<exists>rep rep'. ackedDelete now t ?w ?p l rep s1 = Inr (rep', s'))"
    then obtain rep rep' where del: "ackedDelete now t ?w (floorSeq (lc_db s1) t ?w) l rep s1 = Inr (rep', s')"
      using f(3) by auto
    note eff = ackedDelete_effect [OF del, unfolded f(3)]
    let ?P = "\<lambda>r. inStream t ?w r \<and> e_seq (snd r) \<le> l"
    have "acked_away now t opts cf afs sv (lc_db s) (lc_db s') x" if "x \<in> set (sq_log (lc_db s))" "?P x" for x
    proof -
      have "prefixRow ?target ?cutoff cf (fst x, e_seq (snd x), hlc_l (e_hlc (snd x)))"
        using walked_rows_qualify [OF table wk _ that(1)] that(2) d by blast
      then show ?thesis
        using that(2) d eff(2) [of t ?w] by (auto simp: acked_away_def prefixRow_def ackedTarget_def Let_def)
    qed
    then show ?thesis
      using eff d unfolding away_step_def by (intro conjI exI [of _ ?P]) auto
  qed
qed

lemma away_cons:
  assumes one: "away_step now t opts cf afs [sv] d d1" and rest: "away_step now t opts cf afs svs d1 d2"
    and fresh: "sv_writer sv \<notin> sv_writer ` set svs"
  shows "away_step now t opts cf afs (sv # svs) d d2"
proof -
  obtain P where P: "sq_log d1 = filter (\<lambda>r. \<not> P r) (sq_log d)" "o_dryRun opts \<longrightarrow> (\<forall>x. \<not> P x)"
    "\<forall>x \<in> set (sq_log d). P x \<longrightarrow> acked_away now t opts cf afs sv d d1 x" using one by (auto simp: away_step_def)
  obtain Q where Q: "sq_log d2 = filter (\<lambda>r. \<not> Q r) (sq_log d1)" "o_dryRun opts \<longrightarrow> (\<forall>x. \<not> Q x)"
    "\<forall>x \<in> set (sq_log d1). Q x \<longrightarrow> (\<exists>sv \<in> set svs. acked_away now t opts cf afs sv d1 d2 x)"
    using rest by (auto simp: away_step_def)
  have mono: "floorSeq d t w \<le> floorSeq d1 t w" "floorSeq d1 t w \<le> floorSeq d2 t w"
    "w \<noteq> sv_writer sv \<Longrightarrow> floorSeq d1 t w = floorSeq d t w"
    "w \<notin> sv_writer ` set svs \<Longrightarrow> floorSeq d2 t w = floorSeq d1 t w" for w
    using one rest by (simp_all add: away_step_def)
  have keep: "acked_away now t opts cf afs sv' d d2 x"
    if "sv' \<in> set svs" "acked_away now t opts cf afs sv' d1 d2 x" for sv' x
  proof -
    have "sv_writer sv' \<noteq> sv_writer sv" using fresh that(1) by (metis imageI)
    then have "floorSeq d1 t (sv_writer sv') = floorSeq d t (sv_writer sv')" using mono(3) by blast
    then show ?thesis using that(2) unfolding acked_away_def by simp
  qed
  have first: "acked_away now t opts cf afs sv d d2 x" if "acked_away now t opts cf afs sv d d1 x" for x
    using that mono(2) order_trans unfolding acked_away_def by blast
  have "\<exists>sv' \<in> set (sv # svs). acked_away now t opts cf afs sv' d d2 x"
    if x: "x \<in> set (sq_log d)" "P x \<or> Q x" for x
  proof (cases "P x")
    case True
    then show ?thesis using P(3) x(1) first by auto
  next
    case False
    then have "x \<in> set (sq_log d1)" using P(1) x(1) by simp
    then obtain sv' where "sv' \<in> set svs" "acked_away now t opts cf afs sv' d1 d2 x" using Q(3) x(2) False by blast
    then show ?thesis using keep [of sv' x] by auto
  qed
  moreover have "sq_log d2 = filter (\<lambda>r. \<not> (P r \<or> Q r)) (sq_log d)" by (simp add: P(1) Q(1) conj_commute)
  ultimately show ?thesis
    unfolding away_step_def using P(2) Q(2) mono order_trans
    by (intro conjI exI [of _ "\<lambda>r. P r \<or> Q r"]) (auto intro: order_trans [OF mono(1) mono(2)])
qed

lemma ackedStreams_away:
  "ackedStreams now t opts cf afs svs (rn, s) = Inr (rn', s') \<Longrightarrow> core_inv E s \<Longrightarrow> distinct (map sv_writer svs) \<Longrightarrow>
   away_step now t opts cf afs svs (lc_db s) (lc_db s')"
proof (induction svs arbitrary: rn s)
  case Nil
  then show ?case by (simp add: away_none)
next
  case (Cons sv svs)
  obtain rn1 s1 where r: "ackedStream now t opts cf afs sv (rn, s) = Inr (rn1, s1)"
    "ackedStreams now t opts cf afs svs (rn1, s1) = Inr (rn', s')" using Cons.prems(1) by (auto simp: rbind_eq_Inr)
  have "away_step now t opts cf afs svs (lc_db s1) (lc_db s')"
    using Cons.IH [OF r(2) inv_ackedStream [OF Cons.prems(2) r(1)]] Cons.prems(3) by simp
  then show ?case
    using away_cons [OF ackedStream_away [OF Cons.prems(2) r(1)]] Cons.prems(3) by simp
qed

lemma ackedStreams_total: "core_inv E s \<Longrightarrow> \<exists>p. ackedStreams now t opts cf afs svs (rn, s) = Inr p"
proof (induction svs arbitrary: rn s)
  case (Cons sv svs)
  have "err = ERR_STORAGE" if "ackedStream now t opts cf afs sv (rn, s) = Inl (err, s1)" for err s1
    using that
    by (auto simp: ackedStream_def ackedDelete_def rbind_eq_Inl Let_def split: prod.splits if_splits option.splits)
  then obtain rn1 s1 where r: "ackedStream now t opts cf afs sv (rn, s) = Inr (rn1, s1)"
    using clean_ackedStream [OF Cons.prems, of now t opts cf afs sv rn]
    by (cases "ackedStream now t opts cf afs sv (rn, s)") auto
  show ?case using Cons.IH [OF inv_ackedStream [OF Cons.prems r], of rn1] r by simp
qed simp

lemma forgetNodes_fields [simp]:
  "sq_log (lc_db (forgetNodes t ns s)) = sq_log (lc_db s)" "sq_floors (lc_db (forgetNodes t ns s)) = sq_floors (lc_db s)"
  by (induction ns arbitrary: s) (simp_all add: forgetNodes_def)

lemma streamViews_distinct:
  assumes inv: "core_inv E s" and keys: "distinct (map fst (sq_writers (lc_db s)))"
    and run: "streamViews E t s = (svs, s1)"
  shows "core_inv E s1 \<and> lc_store s1 = lc_store s \<and> settled s1 = settled s \<and> distinct (map sv_writer svs)"
proof -
  let ?d = "lc_db s" and ?ws = "map w_writer (listWriters (lc_db s) (Some t))"
  obtain hs where ho: "headsOf E t ?ws s = (hs, s1)" and svs: "map sv_writer svs = map w_writer (sort_key w_writer hs)"
    using run by (auto simp: streamViews_def comp_def split: prod.splits)
  note h = inv_headsOf [OF ho inv]
  have keyed: "w_writer x = snd k" if "(k, x) \<in> set (sq_writers ?d)" for k x
  proof -
    have "getWriter ?d (fst k) (snd k) = Some x" using that keys by (simp add: getWriter_def)
    then show ?thesis using inv by (auto simp: core_inv_def stream_ok_def writers_keyed_def)
  qed
  have "?ws = map (\<lambda>p. snd (fst p)) (filter (\<lambda>p. fst (fst p) = t) (sq_writers ?d))"
    using keyed by (auto simp: listWriters_def)
  moreover have "distinct (map (\<lambda>p. snd (fst p)) (filter (\<lambda>p. fst (fst p) = t) (sq_writers ?d)))"
    using keys by (force simp: distinct_map inj_on_def)
  ultimately have "distinct ?ws" by simp
  moreover have "map w_writer hs = ?ws"
    using h inv stored_key by (auto simp: core_inv_def stream_ok_def)
  ultimately have "distinct (map w_writer hs)" by simp
  then have "distinct hs \<and> inj_on w_writer (set hs)" by (simp add: distinct_map)
  then have "distinct (map w_writer (sort_key w_writer hs))" by (simp add: distinct_map)
  then show ?thesis using h settled_headsOf [OF ho] svs by simp
qed

text \<open>C28. Acknowledged retention on a topic it accepts always answers, and removes only rows the
  acknowledgments cover: each removed row is at or below the floor its stream's included members
  have acknowledged (never the head of a live stream) or below the floor already recorded, older
  than the age limit, at or before every cursor, in a stream neither forked nor recovering; the
  floor recorded afterwards covers it. Floors never go down, and a dry run removes nothing.\<close>

theorem acked_retention_safe:
  assumes "core_inv E s" "distinct (map fst (sq_writers (lc_db s)))" "ackedRetentionRefusal (registry E) t = Inr False"
  shows "let svs = fst (streamViews E t s);
      pm = planMembers (lc_db s) t opts svs (selfId E) now;
      afs = ackFloors (fst pm) t svs (mp_included (snd pm));
      cf = cursorFloor (fst pm) t MAX_SAFE_INTEGER
    in \<exists>s' res. processPruneAcked E now t opts n s = Inr s' \<and> settled s' = settled s @ [RAcked res] \<and>
         away_step now t opts cf afs svs (lc_db s) (lc_db s')"
proof -
  obtain svs s1 where sv: "streamViews E t s = (svs, s1)" by fastforce
  note v = streamViews_distinct [OF assms(1,2) sv]
  obtain d' plan where pm: "planMembers (lc_db s) t opts svs (selfId E) now = (d', plan)" by fastforce
  let ?s2 = "withDb (\<lambda>_. d') s1"
  let ?afs = "ackFloors d' t svs (mp_included plan)" and ?cf = "cursorFloor d' t MAX_SAFE_INTEGER"
  note fields = planMembers_fields [OF pm]
  have inv2: "core_inv E ?s2" using v by (intro inv_withDb) (simp_all add: fields)
  let ?rn0 = "\<lparr>rn_budget = n, rn_pruned = 0, rn_more = False, rn_writers = []\<rparr>"
  obtain rn s3 where st: "ackedStreams now t opts ?cf ?afs svs (?rn0, ?s2) = Inr (rn, s3)"
    using ackedStreams_total [OF inv2] by (metis surj_pair)
  have "processPruneAcked E now t opts n s = Inr (finishAcked t opts plan rn s3)"
    using assms(3) pm v st by (simp add: processPruneAcked_def orAbort_def sv Let_def)
  moreover have "settled (finishAcked t opts plan rn s3) = settled s @
      [RAcked \<lparr>ar_prunedRows = rn_pruned rn, ar_more = rn_more rn, ar_writers = rn_writers rn, ar_members = mp_members plan\<rparr>]"
    using settled_ackedStreams [OF st] v by (simp add: finishAcked_def Let_def)
  moreover have "away_step now t opts ?cf ?afs svs d' (lc_db s3)"
    using ackedStreams_away [OF st inv2] v by simp
  moreover have "sq_log d' = sq_log (lc_db s)" "floorSeq d' = floorSeq (lc_db s)"
    "sq_log (lc_db (finishAcked t opts plan rn s3)) = sq_log (lc_db s3)"
    "floorSeq (lc_db (finishAcked t opts plan rn s3)) = floorSeq (lc_db s3)"
    using fields reads_cong(5) [of d' "lc_db s"]
      reads_cong(5) [of "lc_db (finishAcked t opts plan rn s3)" "lc_db s3"]
    by (simp_all add: finishAcked_def Let_def floorSeq_def fun_eq_iff)
  ultimately have "processPruneAcked E now t opts n s = Inr (finishAcked t opts plan rn s3)"
    "settled (finishAcked t opts plan rn s3) = settled s @
      [RAcked \<lparr>ar_prunedRows = rn_pruned rn, ar_more = rn_more rn, ar_writers = rn_writers rn, ar_members = mp_members plan\<rparr>]"
    "away_step now t opts ?cf ?afs svs (lc_db s) (lc_db (finishAcked t opts plan rn s3))"
    by (simp_all add: away_step_def acked_away_def)
  then show ?thesis by (simp add: sv pm Let_def)
qed

theorem acked_retention_safe_witness:
  "\<exists>s' res. processPruneAcked demo_env 9 ''t'' \<lparr>o_olderThanMs = 0, o_maxLagMs = 0, o_members = None, o_excludeMembers = [],
     o_dryRun = False\<rparr> 10 (q_core demo_after) = Inr s' \<and> settled s' = settled (q_core demo_after) @ [RAcked res]"
proof -
  have "ackedRetentionRefusal (registry demo_env) ''t'' = Inr False"
    by (simp add: ackedRetentionRefusal_def demo_registry)
  moreover have "distinct (map fst (sq_writers (lc_db (q_core demo_after))))"
    by (simp add: demo_after_core commitFlush_def demo_applied_def upsertWriter_def empty_db_def metaSetHlc_def
        AList.update.simps split: prod.split)
  ultimately show ?thesis
    using acked_retention_safe [OF demo_after_state(1)] by (simp add: Let_def) metis
qed

end
