(* ===== verification/Finality.thy ===== *)
theory Finality
  imports Log_Removal Log_Atomic
begin

text \<open>
  \<^verbatim>\<open>src/finality.ts\<close>: certificates. The library computes a proposal, the host
  signs it; ingestion verifies a certificate, classifies it against the stored one and hands
  it to the log's queue. Verification and application are two halves with an await between
  them: \<open>certBegin\<close> runs up to the point where the handler waits for the queue,
  \<open>certEnd\<close> resumes it. A host hook is a total function of its argument.
\<close>

section \<open>Proposals\<close>

text \<open>\<^verbatim>\<open>Omit<FinalityCert, "sig">\<close>.\<close>

record CertProposal =
  pr_topic :: string
  pr_order :: Order
  pr_cut :: Cut
  pr_generation :: nat
  pr_authority :: string

definition finality :: "LogEnv \<Rightarrow> string \<Rightarrow> LogCore \<Rightarrow> (FinalityCert option \<times> LogCore) result" where
  "finality E topic s = rbind (reg_get (registry E) topic) (\<lambda>_. Inr (getCert topic s))"

fun proposalCut :: "Db \<Rightarrow> string \<Rightarrow> Order \<Rightarrow> string list \<Rightarrow> Cut" where
  "proposalCut d topic p [] = []"
| "proposalCut d topic p (writer # ws) =
     (let seq = lastSeqAtOrBeforeOrder d topic writer p in
      if seq = 0 then proposalCut d topic p ws
      else (case chainAt d topic writer seq of
              None \<Rightarrow> proposalCut d topic p ws
            | Some chain \<Rightarrow> (writer, seq, chain) # proposalCut d topic p ws))"

definition proposeFinality ::
  "LogEnv \<Rightarrow> nat \<Rightarrow> string \<Rightarrow> LogCore \<Rightarrow> (CertProposal option \<times> LogCore) result" where
  "proposeFinality E now topic s0 =
     rbind (reg_get (registry E) topic) (\<lambda>te.
     case p_finalityAuthority (te_policy te) of
       None \<Rightarrow> Inl ERR_MISUSE
     | Some auth \<Rightarrow>
        (case maxOrderUpTo (lc_db s0) topic (int now - int (FINALITY_WINDOW_MS (constants E))) of
           None \<Rightarrow> Inr (None, s0)
         | Some p \<Rightarrow>
            (case getCert topic s0 of (existing, s) \<Rightarrow>
             if (case existing of None \<Rightarrow> False | Some c \<Rightarrow> orderCompare p (cert_order c) \<le> 0)
             then Inr (None, s)
             else Inr (Some \<lparr>pr_topic = topic, pr_order = p,
                    pr_cut = proposalCut (lc_db s) topic p (topicWriters (lc_db s) topic),
                    pr_generation = (case existing of None \<Rightarrow> 0 | Some c \<Rightarrow> cert_generation c) + 1,
                    pr_authority = auth\<rparr>, s))))"

text \<open>The certificate the host makes of a proposal.\<close>

definition signedProposal :: "CertProposal \<Rightarrow> string \<Rightarrow> FinalityCert" where
  "signedProposal p sig = \<lparr>cert_topic = pr_topic p, cert_order = pr_order p, cert_cut = pr_cut p,
     cert_generation = pr_generation p, cert_authority = pr_authority p, cert_sig = sig\<rparr>"

section \<open>Classification\<close>

definition order_js :: "Order \<Rightarrow> jsval" where
  "order_js p = JObj [(''l'', JNum (num_of_nat (ord_l p))), (''c'', JNum (num_of_nat (ord_c p))),
     (''writer'', JStr (ord_w p)), (''seq'', JNum (num_of_nat (ord_s p)))]"

definition cut_js :: "Cut \<Rightarrow> jsval" where
  "cut_js c = JObj (map (\<lambda>(w, s, ch). (w, JObj [(''seq'', JNum (num_of_nat s)), (''chain'', JStr ch)])) c)"

definition cert_js :: "FinalityCert \<Rightarrow> jsval" where
  "cert_js c = JObj [(''topic'', JStr (cert_topic c)), (''order'', order_js (cert_order c)),
     (''cut'', cut_js (cert_cut c)), (''generation'', JNum (num_of_nat (cert_generation c))),
     (''authority'', JStr (cert_authority c)), (''sig'', JStr (cert_sig c))]"

datatype CertVerdict = CAccept | CDuplicate | CStale | CBad

definition bad_cert :: "FinalityCert \<Rightarrow> Anomaly" where
  "bad_cert c = \<lparr>a_kind = A_bad_cert, a_entry = None, a_topic = Some (cert_topic c), a_writer = None\<rparr>"

definition classifyAgainst ::
  "LogEnv \<Rightarrow> FinalityCert \<Rightarrow> FinalityCert option \<Rightarrow> (CertVerdict \<times> Anomaly list) result" where
  "classifyAgainst E cert existing = (case existing of
     None \<Rightarrow> Inr (CAccept, [])
   | Some old \<Rightarrow>
       if cert_generation cert < cert_generation old then Inr (CStale, [])
       else if cert_generation cert = cert_generation old then
         rbind (jcs (prims E) (cert_js cert)) (\<lambda>a.
         rbind (jcs (prims E) (cert_js old)) (\<lambda>b.
           if a = b then Inr (CDuplicate, []) else Inr (CBad, [bad_cert cert])))
       else if orderCompare (cert_order cert) (cert_order old) < 0 then Inr (CBad, [bad_cert cert])
       else Inr (CAccept, []))"

definition verifyAndClassify ::
  "LogEnv \<Rightarrow> AuthorityHooks \<Rightarrow> FinalityCert \<Rightarrow> LogCore \<Rightarrow> (CertVerdict \<times> Anomaly list) result \<times> LogCore" where
  "verifyAndClassify E A cert s =
     (case map_of (registry E) (cert_topic cert) of
        None \<Rightarrow> (Inr (CBad, []), s)
      | Some te \<Rightarrow>
          if p_finalityAuthority (te_policy te) = None \<or>
             Some (cert_authority cert) \<noteq> p_finalityAuthority (te_policy te)
          then (Inr (CBad, [bad_cert cert]), s)
          else (case verifyFinality A of
             None \<Rightarrow> (Inr (CBad, []), s)
           | Some verify \<Rightarrow>
               if \<not> verify cert then (Inr (CBad, [bad_cert cert]), s)
               else (case getCert (cert_topic cert) s of (existing, s') \<Rightarrow>
                       (classifyAgainst E cert existing, s'))))"

section \<open>Ingestion\<close>

text \<open>
  Where a call stands after its synchronous part: it threw, it is done, or it waits for the
  ticket of a queue item.
\<close>

datatype CertCall = CertThrew ErrCode | CertDone | CertWaits nat

record FinalityHub =
  fh_accepted :: "(FinalityCert \<times> nat) list"       \<comment> \<open>calls of \<open>onAccepted\<close>\<close>
  fh_broadcast :: "(string \<times> FinalityCert) list"   \<comment> \<open>calls of \<open>broadcast\<close>\<close>

definition applyCert :: "LogEnv \<Rightarrow> FinalityCert \<Rightarrow> LogQueue \<Rightarrow> CertCall \<times> LogQueue" where
  "applyCert E cert q =
     (case preOpen (q_closed q) (QCert cert) of
        Inl err \<Rightarrow> (CertThrew err, q)
      | Inr item \<Rightarrow> (CertWaits (q_next q), push E item q))"

definition classified ::
  "LogEnv \<Rightarrow> AuthorityHooks \<Rightarrow> FinalityCert \<Rightarrow> LogQueue \<Rightarrow> (CertVerdict result) \<times> LogQueue" where
  "classified E A cert q =
     (case verifyAndClassify E A cert (q_core q) of (r, s) \<Rightarrow>
      let q' = q\<lparr>q_core := s\<rparr> in
      case r of Inl err \<Rightarrow> (Inl err, q')
      | Inr (v, anoms) \<Rightarrow> (Inr v, q'\<lparr>q_emitted := q_emitted q' @ anoms\<rparr>))"

definition certBegin :: "LogEnv \<Rightarrow> AuthorityHooks \<Rightarrow> FinalityCert \<Rightarrow> LogQueue \<Rightarrow> CertCall \<times> LogQueue" where
  "certBegin E A cert q =
     (case classified E A cert q of
        (Inl err, q') \<Rightarrow> (CertThrew err, q')
      | (Inr v, q') \<Rightarrow>
          if v = CDuplicate then (CertDone, q')
          else if v \<noteq> CAccept then (CertThrew ERR_MISUSE, q')
          else applyCert E cert q')"

definition wireCertBegin :: "LogEnv \<Rightarrow> AuthorityHooks \<Rightarrow> FinalityCert \<Rightarrow> LogQueue \<Rightarrow> CertCall \<times> LogQueue" where
  "wireCertBegin E A cert q =
     (case classified E A cert q of
        (Inl err, q') \<Rightarrow> (CertDone, q')
      | (Inr v, q') \<Rightarrow>
          if v \<noteq> CAccept then (CertDone, q')
          else (case applyCert E cert q' of
                  (CertThrew _, q'') \<Rightarrow> (CertDone, q'')
                | r \<Rightarrow> r))"

definition certEnd :: "FinalityCert \<Rightarrow> Outcome \<Rightarrow> FinalityHub \<Rightarrow> CertCall \<times> FinalityHub" where
  "certEnd cert out h = (case out of
     RQuarantined n \<Rightarrow> (CertDone, h\<lparr>fh_accepted := fh_accepted h @ [(cert, n)],
                                    fh_broadcast := fh_broadcast h @ [(cert_topic cert, cert)]\<rparr>)
   | RReject err \<Rightarrow> (CertThrew err, h)
   | _ \<Rightarrow> (CertDone, h))"

definition wireCertEnd :: "FinalityCert \<Rightarrow> Outcome \<Rightarrow> FinalityHub \<Rightarrow> FinalityHub" where
  "wireCertEnd cert out h = snd (certEnd cert out h)"

section \<open>What a proposal promises\<close>

lemma maxOrderUpTo_spec:
  assumes "maxOrderUpTo d t m = Some p"
  shows "\<exists>e. held d e \<and> e_topic e = t \<and> int (hlc_l (e_hlc e)) \<le> m \<and> p = orderOf e"
    and "held d f \<Longrightarrow> e_topic f = t \<Longrightarrow> int (hlc_l (e_hlc f)) \<le> m \<Longrightarrow> orderCompare (orderOf f) p \<le> 0"
proof -
  let ?xs = "filter (\<lambda>e. int (hlc_l (e_hlc e)) \<le> m) (map snd (topicRows d t))"
  let ?s = "sort_by (\<lambda>a b. orderCompare (orderOf a) (orderOf b)) ?xs"
  have eq: "entryCompare = (\<lambda>a b. orderCompare (orderOf a) (orderOf b))"
    by (simp add: entryCompare_def fun_eq_iff)
  obtain z zs where rev: "rev ?s = z # zs" and p: "p = orderOf z"
    using assms unfolding maxOrderUpTo_def eq by (cases "rev ?s") auto
  then have s: "?s = rev zs @ [z]" by (metis rev_rev_ident rev.simps(2))
  have "z \<in> set ?s" unfolding s by simp
  then have z: "z \<in> set ?xs" by simp
  then show "\<exists>e. held d e \<and> e_topic e = t \<and> int (hlc_l (e_hlc e)) \<le> m \<and> p = orderOf e"
    using p by (auto simp: held_def topicRows_def inTopic_def)
  show "orderCompare (orderOf f) p \<le> 0" if "held d f" "e_topic f = t" "int (hlc_l (e_hlc f)) \<le> m" for f
  proof -
    have "f \<in> set ?s" using that by (auto simp: held_def topicRows_def inTopic_def)
    moreover have "sorted_wrt (\<lambda>a b. orderCompare (orderOf a) (orderOf b) \<le> 0) ?s"
      by (rule entOrd.sorted_sort_by)
    ultimately show ?thesis
      unfolding s p by (auto simp: sorted_wrt_append entOrd.cmp_refl)
  qed
qed

lemma proposalCut_lookup:
  "distinct ws \<Longrightarrow> map_of (proposalCut d t p ws) w =
     (let n = lastSeqAtOrBeforeOrder d t w p in
      if w \<in> set ws \<and> n \<noteq> 0 then map_option (\<lambda>c. (n, c)) (chainAt d t w n) else None)"
  by (induction ws) (auto simp: Let_def split: option.splits)

lemma lastSeq_held:
  assumes "log_table_ok d" "lastSeqAtOrBeforeOrder d t w p = n" "n \<noteq> 0"
  shows "w \<in> set (topicWriters d t)" and "\<exists>e. getEntry d t w n = Some e \<and> held d e"
proof -
  obtain r where r: "r \<in> set (sq_log d)" "inStream t w r" "e_seq (snd r) = n"
    using lastSeq_attained assms by blast
  then have "held d (snd r)" by (auto simp: held_def)
  from held_getEntry [OF assms(1) this] show "\<exists>e. getEntry d t w n = Some e \<and> held d e"
    using r \<open>held d (snd r)\<close> by (auto simp: inStream_def)
  show "w \<in> set (topicWriters d t)"
    using r by (force simp: topicWriters_def topicRows_def inStream_def inTopic_def)
qed

text \<open>A proposed cut names, for every writer, its last sequence number at or before the order.\<close>

lemma proposed_cut:
  assumes "log_table_ok d"
  shows "map_of (proposalCut d t p (topicWriters d t)) w =
     (let n = lastSeqAtOrBeforeOrder d t w p in
      if n = 0 then None else map_option (\<lambda>e. (n, e_chain e)) (getEntry d t w n))"
proof -
  have "distinct (topicWriters d t)" by (simp add: topicWriters_def)
  then show ?thesis
    using lastSeq_held(1) [OF assms] by (auto simp: proposalCut_lookup Let_def chainAt_def option.map_comp o_def)
qed

lemma proposal_shape:
  assumes "proposeFinality E now t s = Inr (Some p, s')" "core_inv E s"
  shows "lc_store s' = lc_store s" "core_inv E s'" "pr_topic p = t"
    "maxOrderUpTo (lc_db s) t (int now - int (FINALITY_WINDOW_MS (constants E))) = Some (pr_order p)"
    "pr_cut p = proposalCut (lc_db s) t (pr_order p) (topicWriters (lc_db s) t)"
    "pr_generation p = (case finalityGet (lc_db s) t of None \<Rightarrow> 0 | Some c \<Rightarrow> cert_generation c) + 1"
    "finalityGet (lc_db s) t = Some c \<Longrightarrow> orderCompare (cert_order c) (pr_order p) < 0"
proof -
  obtain ex s1 where gc: "getCert t s = (ex, s1)" by fastforce
  have ex: "ex = finalityGet (lc_db s) t" "lc_store s1 = lc_store s" "core_inv E s1"
    using inv_getCert [OF assms(2) gc] by simp_all
  have main: "lc_store s' = lc_store s" "core_inv E s'" "pr_topic p = t"
    "maxOrderUpTo (lc_db s) t (int now - int (FINALITY_WINDOW_MS (constants E))) = Some (pr_order p)"
    "pr_cut p = proposalCut (lc_db s) t (pr_order p) (topicWriters (lc_db s) t)"
    "pr_generation p = (case finalityGet (lc_db s) t of None \<Rightarrow> 0 | Some c \<Rightarrow> cert_generation c) + 1"
    "\<not> (case ex of None \<Rightarrow> False | Some c \<Rightarrow> orderCompare (pr_order p) (cert_order c) \<le> 0)"
  proof -
    obtain te auth where te: "reg_get (registry E) t = Inr te" "p_finalityAuthority (te_policy te) = Some auth"
      using assms(1) by (cases "reg_get (registry E) t") (auto simp: proposeFinality_def split: option.splits)
    show "lc_store s' = lc_store s" "core_inv E s'" "pr_topic p = t"
      "maxOrderUpTo (lc_db s) t (int now - int (FINALITY_WINDOW_MS (constants E))) = Some (pr_order p)"
      "pr_cut p = proposalCut (lc_db s) t (pr_order p) (topicWriters (lc_db s) t)"
      "pr_generation p = (case finalityGet (lc_db s) t of None \<Rightarrow> 0 | Some c \<Rightarrow> cert_generation c) + 1"
      using assms(1) ex
      by (cases "maxOrderUpTo (lc_db s) t (int now - int (FINALITY_WINDOW_MS (constants E)))";
          auto simp: proposeFinality_def te gc split: if_splits)+
    show "\<not> (case ex of None \<Rightarrow> False | Some c \<Rightarrow> orderCompare (pr_order p) (cert_order c) \<le> 0)"
      using assms(1)
      by (cases "maxOrderUpTo (lc_db s) t (int now - int (FINALITY_WINDOW_MS (constants E)))"; cases ex)
        (auto simp: proposeFinality_def te gc split: if_splits)
  qed
  then show "lc_store s' = lc_store s" "core_inv E s'" "pr_topic p = t"
    "maxOrderUpTo (lc_db s) t (int now - int (FINALITY_WINDOW_MS (constants E))) = Some (pr_order p)"
    "pr_cut p = proposalCut (lc_db s) t (pr_order p) (topicWriters (lc_db s) t)"
    "pr_generation p = (case finalityGet (lc_db s) t of None \<Rightarrow> 0 | Some c \<Rightarrow> cert_generation c) + 1"
    by blast+
  show "orderCompare (cert_order c) (pr_order p) < 0" if "finalityGet (lc_db s) t = Some c"
    using main(7) ex(1) that entOrd.cmp_le_flip by auto
qed

text \<open>On the node that computed it, the signed proposal covers every writer.\<close>

definition covers_all :: "FinalityCert \<Rightarrow> Db \<Rightarrow> bool" where
  "covers_all cert d \<longleftrightarrow> (\<forall>w. coveredBy cert w = lastSeqAtOrBeforeOrder d (cert_topic cert) w (cert_order cert)) \<and>
     (\<forall>w n c e. map_of (cert_cut cert) w = Some (n, c) \<longrightarrow>
        getEntry d (cert_topic cert) w n = Some e \<longrightarrow> e_chain e = c)"

lemma proposal_covers:
  assumes "proposeFinality E now t s = Inr (Some p, s')" "core_inv E s"
  shows "covers_all (signedProposal p sig) (lc_db s)"
proof -
  have table: "log_table_ok (lc_db s)" using assms(2) by (simp add: core_inv_def stream_ok_def)
  note sh = proposal_shape [OF assms]
  have look: "map_of (pr_cut p) w = (let n = lastSeqAtOrBeforeOrder (lc_db s) t w (pr_order p) in
      if n = 0 then None else map_option (\<lambda>e. (n, e_chain e)) (getEntry (lc_db s) t w n))" for w
    unfolding sh(5) by (rule proposed_cut [OF table])
  have "coveredBy (signedProposal p sig) w = lastSeqAtOrBeforeOrder (lc_db s) t w (pr_order p)" for w
    using lastSeq_held(2) [OF table refl, of t w "pr_order p"]
    by (auto simp: coveredBy_def signedProposal_def look Let_def)
  moreover have "e_chain e = c" if "map_of (pr_cut p) w = Some (n, c)" "getEntry (lc_db s) t w n = Some e" for w n c e
    using that by (auto simp: look Let_def split: if_splits)
  ultimately show ?thesis using sh(3) by (simp add: covers_all_def signedProposal_def)
qed

lemma covered_writer_kept:
  assumes "covers_all cert (lc_db s)"
  shows "certWriter E now cert w s = (0, snd (getStream E (cert_topic cert) w s))"
proof -
  have cov: "coveredBy cert w = lastSeqAtOrBeforeOrder (lc_db s) (cert_topic cert) w (cert_order cert)"
    and chains: "map_of (cert_cut cert) w = Some (n, c) \<Longrightarrow>
      getEntry (lc_db s) (cert_topic cert) w (coveredBy cert w) = Some e \<Longrightarrow> e_chain e = c" for n c e
    using assms by (auto simp: covers_all_def coveredBy_def)
  show ?thesis
    using cov [symmetric] chains
    by (auto simp: certWriter_def Let_def getStream_frame split: prod.split option.split)
qed

lemma covered_writers_kept:
  "covers_all cert (lc_db s) \<Longrightarrow> certWriters E now cert ws (n, s) = (n', s') \<Longrightarrow>
   n' = n \<and> lc_store s' = lc_store s \<and> anomalies s' = anomalies s \<and> settled s' = settled s"
proof (induction ws arbitrary: s)
  case (Cons w ws)
  obtain h s1 where gs: "getStream E (cert_topic cert) w s = (h, s1)" by fastforce
  note fr = getStream_frame [OF gs]
  have "certWriters E now cert ws (n, s1) = (n', s')"
    using Cons.prems by (simp add: covered_writer_kept gs)
  then show ?case using Cons.IH [of s1] Cons.prems(1) fr by simp
qed simp

lemma proposal_cut_parts:
  assumes "core_inv E s" and "proposeFinality E now t s = Inr (Some p, s')"
  shows "(\<exists>e. held (lc_db s) e \<and> e_topic e = t \<and> pr_order p = orderOf e \<and>
             int (hlc_l (e_hlc e)) \<le> int now - int (FINALITY_WINDOW_MS (constants E)))"
    and "\<forall>e. held (lc_db s) e \<longrightarrow> e_topic e = t \<longrightarrow>
             int (hlc_l (e_hlc e)) \<le> int now - int (FINALITY_WINDOW_MS (constants E)) \<longrightarrow>
             orderCompare (orderOf e) (pr_order p) \<le> 0"
    and "\<forall>c. finalityGet (lc_db s) t = Some c \<longrightarrow>
             orderCompare (cert_order c) (pr_order p) < 0 \<and> pr_generation p = cert_generation c + 1"
    and "\<forall>w. map_of (pr_cut p) w = (let n = lastSeqAtOrBeforeOrder (lc_db s) t w (pr_order p) in
             if n = 0 then None else map_option (\<lambda>e. (n, e_chain e)) (getEntry (lc_db s) t w n))"
    and "\<forall>e. held (lc_db s) e \<longrightarrow> e_topic e = t \<longrightarrow> orderCompare (orderOf e) (pr_order p) \<le> 0 \<longrightarrow>
             e_seq e \<le> coveredBy (signedProposal p sig) (e_writer e)"
proof -
  have table: "log_table_ok (lc_db s)" using assms(1) by (simp add: core_inv_def stream_ok_def)
  note sh = proposal_shape [OF assms(2,1)]
  show "\<exists>e. held (lc_db s) e \<and> e_topic e = t \<and> pr_order p = orderOf e \<and>
      int (hlc_l (e_hlc e)) \<le> int now - int (FINALITY_WINDOW_MS (constants E))"
    using maxOrderUpTo_spec(1) [OF sh(4)] by blast
  show "\<forall>e. held (lc_db s) e \<longrightarrow> e_topic e = t \<longrightarrow>
      int (hlc_l (e_hlc e)) \<le> int now - int (FINALITY_WINDOW_MS (constants E)) \<longrightarrow>
      orderCompare (orderOf e) (pr_order p) \<le> 0"
    using maxOrderUpTo_spec(2) [OF sh(4)] by blast
  show "\<forall>c. finalityGet (lc_db s) t = Some c \<longrightarrow>
      orderCompare (cert_order c) (pr_order p) < 0 \<and> pr_generation p = cert_generation c + 1"
    using sh(6,7) by auto
  show "\<forall>w. map_of (pr_cut p) w = (let n = lastSeqAtOrBeforeOrder (lc_db s) t w (pr_order p) in
      if n = 0 then None else map_option (\<lambda>e. (n, e_chain e)) (getEntry (lc_db s) t w n))"
    unfolding sh(5) using proposed_cut [OF table] by blast
  have "coveredBy (signedProposal p sig) w = lastSeqAtOrBeforeOrder (lc_db s) t w (pr_order p)" for w
    using proposal_covers [OF assms(2,1)] sh(3) by (simp add: covers_all_def signedProposal_def)
  then show "\<forall>e. held (lc_db s) e \<longrightarrow> e_topic e = t \<longrightarrow> orderCompare (orderOf e) (pr_order p) \<le> 0 \<longrightarrow>
      e_seq e \<le> coveredBy (signedProposal p sig) (e_writer e)"
    using lastSeq_upper by (fastforce simp: held_def inStream_def)
qed

text \<open>C38. \<open>proposeFinality\<close> proposes exactly what the node holds: the order is that of a held
  entry of the topic that lies at least \<open>FINALITY_WINDOW_MS\<close> back, and the greatest such order;
  it is past the order of the stored certificate, whose generation it increments; and for every
  writer the cut names the last sequence number at or before that order, with its chain hash, so
  that every held entry at or before the order is covered.\<close>

theorem proposal_cut_exact:
  assumes "core_inv E s" and "proposeFinality E now t s = Inr (Some p, s')"
  shows "((\<exists>e. held (lc_db s) e \<and> e_topic e = t \<and> pr_order p = orderOf e \<and>
             int (hlc_l (e_hlc e)) \<le> int now - int (FINALITY_WINDOW_MS (constants E)))) \<and>
    (\<forall>e. held (lc_db s) e \<longrightarrow> e_topic e = t \<longrightarrow>
             int (hlc_l (e_hlc e)) \<le> int now - int (FINALITY_WINDOW_MS (constants E)) \<longrightarrow>
             orderCompare (orderOf e) (pr_order p) \<le> 0) \<and>
    (\<forall>c. finalityGet (lc_db s) t = Some c \<longrightarrow>
             orderCompare (cert_order c) (pr_order p) < 0 \<and> pr_generation p = cert_generation c + 1) \<and>
    (\<forall>w. map_of (pr_cut p) w = (let n = lastSeqAtOrBeforeOrder (lc_db s) t w (pr_order p) in
             if n = 0 then None else map_option (\<lambda>e. (n, e_chain e)) (getEntry (lc_db s) t w n))) \<and>
    (\<forall>e. held (lc_db s) e \<longrightarrow> e_topic e = t \<longrightarrow> orderCompare (orderOf e) (pr_order p) \<le> 0 \<longrightarrow>
             e_seq e \<le> coveredBy (signedProposal p sig) (e_writer e))"
  using proposal_cut_parts [OF assms] by blast

text \<open>A certificate signed from the node's own proposal removes nothing there: applied to the
  state it was proposed from, it quarantines no entry, seals no stream, raises no anomaly and
  leaves every held row; it only becomes the stored certificate.\<close>

theorem own_proposal_harmless:
  assumes "core_inv E s" and "proposeFinality E now t s = Inr (Some p, s')"
  shows "let s2 = processCert E later (signedProposal p sig) s' in
     settled s2 = settled s' @ [RQuarantined 0] \<and> anomalies s2 = anomalies s' \<and>
     lc_db s2 = finalitySet (lc_db s) (signedProposal p sig)"
proof -
  let ?c = "signedProposal p sig"
  note sh = proposal_shape [OF assms(2,1)]
  let ?s1 = "withDb (\<lambda>d. finalitySet d ?c) s'"
  let ?s2 = "?s1\<lparr>certs := (certs ?s1)(cert_topic ?c \<mapsto> Some ?c),
      vectorsCache := map_option (certVec (cert_topic ?c) (cert_generation ?c)) (vectorsCache ?s1)\<rparr>"
  let ?ws = "map w_writer (listWriters (lc_db ?s2) (Some (cert_topic ?c)))"
  obtain n s3 where run: "certWriters E later ?c ?ws (0, ?s2) = (n, s3)" by fastforce
  have "covers_all ?c (lc_db s)" by (rule proposal_covers [OF assms(2,1)])
  then have "covers_all ?c (lc_db ?s2)"
    using sh(1) by (simp add: covers_all_def lastSeqAtOrBeforeOrder_def getEntry_def)
  from covered_writers_kept [OF this run] show ?thesis
    using sh(1) unfolding processCert_def Let_def run by (simp add: settle_def withDb_def)
qed

section \<open>What ingestion accepts\<close>

text \<open>The verdict in terms of the stored certificate.\<close>

lemma verdict_accept:
  assumes "core_inv E s"
  shows "fst (verifyAndClassify E A cert s) = Inr (CAccept, anoms) \<longleftrightarrow>
    anoms = [] \<and>
    (\<exists>te verify. map_of (registry E) (cert_topic cert) = Some te \<and>
       p_finalityAuthority (te_policy te) = Some (cert_authority cert) \<and>
       verifyFinality A = Some verify \<and> verify cert) \<and>
    (\<forall>old. finalityGet (lc_db s) (cert_topic cert) = Some old \<longrightarrow>
       cert_generation old < cert_generation cert \<and> orderCompare (cert_order old) (cert_order cert) \<le> 0)"
proof -
  obtain ex s1 where gc: "getCert (cert_topic cert) s = (ex, s1)" by fastforce
  have "ex = finalityGet (lc_db s) (cert_topic cert)" using inv_getCert [OF assms gc] by simp
  then show ?thesis
    using entOrd.cmp_le_flip
    by (cases ex) (auto simp: verifyAndClassify_def classifyAgainst_def gc rbind_eq_Inr
        split: option.splits if_splits)
qed

lemma verify_core:
  assumes "core_inv E s"
  shows "core_inv E (snd (verifyAndClassify E A cert s))"
    and "lc_store (snd (verifyAndClassify E A cert s)) = lc_store s"
proof -
  obtain ex s1 where gc: "getCert (cert_topic cert) s = (ex, s1)" by fastforce
  then have "core_inv E s1" "lc_store s1 = lc_store s" using inv_getCert [OF assms gc] by simp_all
  then show "core_inv E (snd (verifyAndClassify E A cert s))"
    "lc_store (snd (verifyAndClassify E A cert s)) = lc_store s"
    using assms by (auto simp: verifyAndClassify_def gc split: option.split)
qed

definition stored_cert :: "LogQueue \<Rightarrow> string \<Rightarrow> FinalityCert option" where
  "stored_cert q t = finalityGet (lc_db (q_core q)) t"

lemma wireBegin_spec:
  assumes "wireCertBegin E A cert q = (r, q')" "core_inv E (q_core q)"
  shows "core_inv E (q_core q')" "lc_store (q_core q') = lc_store (q_core q)" "q_closed q' = q_closed q"
    "\<And>i. r = CertWaits i \<Longrightarrow> i = q_next q \<and> q_next q' = q_next q + 1 \<and> q_items q' = q_items q @ [(i, QCert cert)] \<and>
       fst (verifyAndClassify E A cert (q_core q)) = Inr (CAccept, []) \<and> \<not> q_closed q"
    "r = CertDone \<Longrightarrow> q_items q' = q_items q \<and> q_done q' = q_done q"
    "q_done q' = q_done q" "\<And>e. r \<noteq> CertThrew e"
proof -
  obtain rv s where vc: "verifyAndClassify E A cert (q_core q) = (rv, s)" by fastforce
  have s: "core_inv E s" "lc_store s = lc_store (q_core q)"
    using verify_core [OF assms(2), of A cert] vc by simp_all
  have acc: "rv = Inr (CAccept, an) \<Longrightarrow> an = []" for an
    using verdict_accept [OF assms(2), of A cert an] vc by simp
  have push: "q_core (push E item x) = q_core x" "q_closed (push E item x) = q_closed x"
    "q_done (push E item x) = q_done x" "q_next (push E item x) = q_next x + 1"
    "q_items (push E item x) = q_items x @ [(q_next x, item)]" for item x
    by (simp_all add: push_def Let_def)
  note defs = wireCertBegin_def classified_def applyCert_def preOpen_def vc Let_def push
  show "core_inv E (q_core q')" "lc_store (q_core q') = lc_store (q_core q)" "q_closed q' = q_closed q"
    "r = CertDone \<Longrightarrow> q_items q' = q_items q \<and> q_done q' = q_done q"
    "q_done q' = q_done q" "\<And>e. r \<noteq> CertThrew e"
    using assms(1) s by (auto simp: defs split: sum.splits if_splits)
  show "i = q_next q \<and> q_next q' = q_next q + 1 \<and> q_items q' = q_items q @ [(i, QCert cert)] \<and>
      fst (verifyAndClassify E A cert (q_core q)) = Inr (CAccept, []) \<and> \<not> q_closed q" if "r = CertWaits i" for i
    using assms(1) that acc by (auto simp: defs split: sum.splits if_splits)
qed

lemma processCert_stores:
  assumes "core_inv E s"
  shows "finalityGet (lc_db (processCert E now cert s)) t =
    (if t = cert_topic cert then Some cert else finalityGet (lc_db s) t)"
proof -
  let ?s1 = "withDb (\<lambda>d. finalitySet d cert) s"
  let ?s2 = "?s1\<lparr>certs := (certs ?s1)(cert_topic cert \<mapsto> Some cert),
      vectorsCache := map_option (certVec (cert_topic cert) (cert_generation cert)) (vectorsCache ?s1)\<rparr>"
  let ?ws = "map w_writer (listWriters (lc_db ?s2) (Some (cert_topic cert)))"
  obtain n s3 where run: "certWriters E now cert ?ws (0, ?s2) = (n, s3)" by fastforce
  have inv2: "core_inv E ?s2" using inv_setCert [OF assms, of cert] by simp
  have s': "processCert E now cert s = settle (RQuarantined n) s3" unfolding processCert_def Let_def run by simp
  have "finalityGet (lc_db s3) = finalityGet (finalitySet (lc_db s) cert)"
    using certWriters_spec [OF run inv2] reads_cong(6) [of "lc_db s3" "finalitySet (lc_db s) cert"]
    by (simp add: moved_out_def)
  then show ?thesis
    using finalityTab.lookup_put [of "lc_db s" cert t] by (auto simp: s' finalityTab.lookup_put_other)
qed

lemma flush_certs:
  assumes "q_closed q = False" "q_items q = map (\<lambda>(i, c). (i, QCert c)) cs" "cs \<noteq> []"
  shows "q_core (flush E clk None q) = commitFlush (let s = foldl (\<lambda>s (i, c). processCert E (clk i) c s) (beginFlush (q_core q)) cs
      in withDb (\<lambda>d. metaSetHlc d (hlcState s)) s)"
proof -
  have run: "runItems E clk (map (\<lambda>(i, c). (i, QCert c)) cs) s = Inr (foldl (\<lambda>s (i, c). processCert E (clk i) c s) s cs)" for s
    by (induction cs arbitrary: s) (auto simp: processItem_def)
  show ?thesis using assms by (simp add: flush_def flushTxn_def run Let_def)
qed

lemma begin_commit_finality:
  "finalityGet (lc_db (commitFlush (withDb (\<lambda>d. metaSetHlc d h) s))) = finalityGet (lc_db s)"
  "lc_store (beginFlush s) = lc_store s"
  by (simp_all add: commitFlush_def beginFlush_def finalityGet_def metaSetHlc_def fun_eq_iff)

text \<open>A certificate from the wire on an idle log: verified, queued, flushed.\<close>

definition serialIngest :: "LogEnv \<Rightarrow> AuthorityHooks \<Rightarrow> (nat \<Rightarrow> nat) \<Rightarrow> FinalityCert \<Rightarrow> LogQueue \<Rightarrow> LogQueue" where
  "serialIngest E A clk cert q = flush E clk None (snd (wireCertBegin E A cert q))"

lemma serial_stores:
  assumes inv: "core_inv E (q_core q)" and idle: "q_items q = []"
    and wb: "wireCertBegin E A cert q = (CertWaits i, q1)"
  shows "stored_cert (serialIngest E A clk cert q) t =
    (if t = cert_topic cert then Some cert else stored_cert q t)"
proof -
  note sp = wireBegin_spec [OF wb inv]
  note w = sp(4) [OF refl]
  have "q_core (serialIngest E A clk cert q) =
      commitFlush (withDb (\<lambda>d. metaSetHlc d (hlcState (processCert E (clk i) cert (beginFlush (q_core q1)))))
        (processCert E (clk i) cert (beginFlush (q_core q1))))"
    using flush_certs [of q1 "[(i, cert)]" E clk] w sp(3) idle by (simp add: serialIngest_def wb Let_def)
  then show ?thesis
    using processCert_stores [OF inv_begin [OF sp(1)], of "clk i" cert t] sp(2)
    by (simp add: stored_cert_def begin_commit_finality)
qed

lemma serial_certs_parts:
  assumes "core_reach E q" and "q_items q = []" and "\<not> q_closed q"
  shows "\<forall>err. fst (wireCertBegin E A cert q) \<noteq> CertThrew err"
    and "(\<forall>t. stored_cert (serialIngest E A clk cert q) t = stored_cert q t) \<or>
    (\<forall>t. stored_cert (serialIngest E A clk cert q) t =
       (if t = cert_topic cert then Some cert else stored_cert q t)) \<and>
    (\<exists>te verify. map_of (registry E) (cert_topic cert) = Some te \<and>
       p_finalityAuthority (te_policy te) = Some (cert_authority cert) \<and>
       verifyFinality A = Some verify \<and> verify cert) \<and>
    (\<forall>old. stored_cert q (cert_topic cert) = Some old \<longrightarrow>
       cert_generation old < cert_generation cert \<and> orderCompare (cert_order old) (cert_order cert) \<le> 0)"
proof -
  obtain r q1 where wb: "wireCertBegin E A cert q = (r, q1)" by fastforce
  note inv = reach_core [OF assms(1)]
  note sp = wireBegin_spec [OF wb inv]
  show "\<forall>err. fst (wireCertBegin E A cert q) \<noteq> CertThrew err" using sp(7) wb by auto
  show "(\<forall>t. stored_cert (serialIngest E A clk cert q) t = stored_cert q t) \<or>
    (\<forall>t. stored_cert (serialIngest E A clk cert q) t =
       (if t = cert_topic cert then Some cert else stored_cert q t)) \<and>
    (\<exists>te verify. map_of (registry E) (cert_topic cert) = Some te \<and>
       p_finalityAuthority (te_policy te) = Some (cert_authority cert) \<and>
       verifyFinality A = Some verify \<and> verify cert) \<and>
    (\<forall>old. stored_cert q (cert_topic cert) = Some old \<longrightarrow>
       cert_generation old < cert_generation cert \<and> orderCompare (cert_order old) (cert_order cert) \<le> 0)"
  proof (cases r)
    case (CertWaits i)
    note w = sp(4) [OF this]
    have "stored_cert (serialIngest E A clk cert q) t =
        (if t = cert_topic cert then Some cert else stored_cert q t)" for t
      by (rule serial_stores [OF inv assms(2) wb [unfolded CertWaits]])
    moreover have "(\<exists>te verify. map_of (registry E) (cert_topic cert) = Some te \<and>
        p_finalityAuthority (te_policy te) = Some (cert_authority cert) \<and>
        verifyFinality A = Some verify \<and> verify cert) \<and>
      (\<forall>old. stored_cert q (cert_topic cert) = Some old \<longrightarrow>
        cert_generation old < cert_generation cert \<and> orderCompare (cert_order old) (cert_order cert) \<le> 0)"
      using w verdict_accept [OF inv, of A cert "[]"] unfolding stored_cert_def by blast
    ultimately show ?thesis by blast
  next
    case CertDone
    then have "q_items q1 = []" "q_closed q1 = False" using sp(3,5) assms(2,3) by simp_all
    then have "lc_db (q_core (serialIngest E A clk cert q)) = lc_db (q_core q)"
      using sp(2) by (simp add: serialIngest_def wb flush_def Let_def)
    then show ?thesis by (simp add: stored_cert_def)
  qed (use sp(7) in blast)
qed

text \<open>Ingested one at a time, certificates only move a topic forward: a certificate from the wire
  either leaves every stored certificate as it was, or becomes its topic's certificate, and then it
  passed the host's verification, names the configured authority, has a strictly greater
  generation and an order that is not before the replaced one. The wire path never throws.\<close>

theorem serial_certs_advance:
  assumes "core_reach E q" and "q_items q = []" and "\<not> q_closed q"
  shows "(\<forall>err. fst (wireCertBegin E A cert q) \<noteq> CertThrew err) \<and>
    ((\<forall>t. stored_cert (serialIngest E A clk cert q) t = stored_cert q t) \<or>
    (\<forall>t. stored_cert (serialIngest E A clk cert q) t =
       (if t = cert_topic cert then Some cert else stored_cert q t)) \<and>
    (\<exists>te verify. map_of (registry E) (cert_topic cert) = Some te \<and>
       p_finalityAuthority (te_policy te) = Some (cert_authority cert) \<and>
       verifyFinality A = Some verify \<and> verify cert) \<and>
    (\<forall>old. stored_cert q (cert_topic cert) = Some old \<longrightarrow>
       cert_generation old < cert_generation cert \<and> orderCompare (cert_order old) (cert_order cert) \<le> 0))"
  using serial_certs_parts [OF assms] by blast

section \<open>Two calls at once\<close>

text \<open>The classification and the application of a certificate are separated by the wait for the
  queue, and the queue's handler does not compare again: when a second certificate of an older
  generation is verified while a newer one is still queued, both are applied in queue order and
  the older one ends as the stored certificate.\<close>

theorem concurrent_certs_regress:
  assumes "core_reach E q" and "q_items q = []"
    and "wireCertBegin E A newer q = (CertWaits i, q1)"
    and "wireCertBegin E A older q1 = (CertWaits j, q2)"
    and "cert_topic older = cert_topic newer" and "cert_generation older < cert_generation newer"
  shows "let q3 = flush E clk None q2 in
     stored_cert q3 (cert_topic newer) = Some older \<and>
     (\<exists>m n. q_done q3 = q_done q @ [(i, RQuarantined m), (j, RQuarantined n)])"
proof -
  note inv = reach_core [OF assms(1)]
  note s1 = wireBegin_spec [OF assms(3) inv]
  note s2 = wireBegin_spec [OF assms(4) s1(1)]
  have items: "q_items q2 = [(i, QCert newer), (j, QCert older)]"
    using s1(4) [OF refl] s2(4) [OF refl] assms(2) by simp
  have closed: "q_closed q2 = False" using s1(3,4) s2(3) by simp
  let ?a = "processCert E (clk i) newer (beginFlush (q_core q2))"
  let ?b = "processCert E (clk j) older ?a"
  have inv_a: "core_inv E ?a" by (rule inv_processCert [OF inv_begin [OF s2(1)]])
  have core: "q_core (flush E clk None q2) = commitFlush (withDb (\<lambda>d. metaSetHlc d (hlcState ?b)) ?b)"
    using flush_certs [of q2 "[(i, newer), (j, older)]" E clk] closed items by (simp add: Let_def)
  have stored: "stored_cert (flush E clk None q2) (cert_topic newer) = Some older"
    using processCert_stores [OF inv_a, of "clk j" older] assms(5)
    by (simp add: stored_cert_def core begin_commit_finality)
  have settles: "\<exists>n. settled (processCert E now c s) = settled s @ [RQuarantined n]" for now c s
    using settled_certWriters
    by (auto simp: processCert_def Let_def split: prod.split)
  obtain m where m: "settled ?a = [RQuarantined m]" using settles [of "clk i" newer "beginFlush (q_core q2)"]
    by (auto simp: beginFlush_def)
  obtain n where n: "settled ?b = [RQuarantined m, RQuarantined n]" using settles [of "clk j" older ?a] m by auto
  have "q_done (flush E clk None q2) = q_done q2 @ [(i, RQuarantined m), (j, RQuarantined n)]"
    using closed items n by (simp add: flush_def flushTxn_def processItem_def Let_def)
  then show ?thesis using stored s1(6) s2(6) by (auto simp: Let_def)
qed

section \<open>Witnesses\<close>

definition demo_final_env :: LogEnv where
  "demo_final_env = demo_env\<lparr>registry := [(''t'',
     \<lparr>te_policy = plain_policy\<lparr>p_finalityAuthority := Some ''pa''\<rparr>, te_schemaHash = demo_hash\<rparr>)],
     constants := DEFAULT_CONSTANTS\<lparr>FINALITY_WINDOW_MS := 5\<rparr>\<rparr>"

definition demo_hooks :: AuthorityHooks where
  "demo_hooks = no_hooks\<lparr>verifyFinality := Some (\<lambda>c. cert_sig c = ''ok'')\<rparr>"

definition demo_signed :: "nat \<Rightarrow> FinalityCert" where
  "demo_signed g = demo_cert\<lparr>cert_generation := g, cert_sig := ''ok''\<rparr>"

lemma demo_final_core: "core_reach demo_final_env (newQueue empty_store)"
  by (rule core_reach.fresh)

lemma demo_final_fields [simp]:
  "map_of (registry demo_final_env) ''t'' = Some \<lparr>te_policy = plain_policy\<lparr>p_finalityAuthority := Some ''pa''\<rparr>,
     te_schemaHash = demo_hash\<rparr>"
  "cert_topic (demo_signed g) = ''t''" "cert_authority (demo_signed g) = ''pa''"
  "cert_generation (demo_signed g) = g" "verifyFinality demo_hooks = Some (\<lambda>c. cert_sig c = ''ok'')"
  "cert_sig (demo_signed g) = ''ok''"
  by (simp_all add: demo_final_env_def demo_signed_def demo_cert_def demo_hooks_def)

lemma demo_waits:
  assumes "core_inv demo_final_env (q_core q)" "stored_cert q ''t'' = None" "\<not> q_closed q"
  shows "\<exists>q1. wireCertBegin demo_final_env demo_hooks (demo_signed g) q = (CertWaits (q_next q), q1)"
proof -
  have "fst (verifyAndClassify demo_final_env demo_hooks (demo_signed g) (q_core q)) = Inr (CAccept, [])"
    using assms(2) by (simp add: verdict_accept [OF assms(1)] stored_cert_def)
  then show ?thesis
    using assms(3) by (auto simp: wireCertBegin_def classified_def applyCert_def preOpen_def Let_def split: prod.split)
qed

lemma empty_stored: "stored_cert (newQueue empty_store) t = None"
  by (simp add: stored_cert_def newQueue_def LogCore_new_def finalityGet_def empty_store_def empty_db_def)

theorem serial_certs_advance_witness:
  "stored_cert (serialIngest demo_final_env demo_hooks (\<lambda>_. 9) (demo_signed 1) (newQueue empty_store)) ''t'' =
     Some (demo_signed 1)"
proof -
  let ?q = "newQueue empty_store"
  have q: "q_items ?q = []" "\<not> q_closed ?q" by (simp_all add: newQueue_def)
  note inv = reach_core [OF demo_final_core]
  obtain q1 where w: "wireCertBegin demo_final_env demo_hooks (demo_signed 1) ?q = (CertWaits (q_next ?q), q1)"
    using demo_waits [OF inv empty_stored q(2)] by blast
  show ?thesis
    using serial_certs_advance [OF demo_final_core q, of demo_hooks "demo_signed 1" "\<lambda>_. 9"]
      serial_stores [OF inv q(1) w, of "\<lambda>_. 9" "''t''"] by simp
qed

theorem concurrent_certs_regress_witness:
  "\<exists>q3. stored_cert q3 ''t'' = Some (demo_signed 1) \<and>
     (\<exists>m n. q_done q3 = [(0, RQuarantined m), (1, RQuarantined n)])"
proof -
  let ?q = "newQueue empty_store"
  have q: "q_items ?q = []" "\<not> q_closed ?q" "q_next ?q = 0" "q_done ?q = []" by (simp_all add: newQueue_def)
  note inv = reach_core [OF demo_final_core]
  obtain q1 where w1: "wireCertBegin demo_final_env demo_hooks (demo_signed 2) ?q = (CertWaits 0, q1)"
    using demo_waits [OF inv empty_stored q(2)] q(3) by auto
  note s1 = wireBegin_spec [OF w1 inv]
  have "stored_cert q1 ''t'' = None" using s1(2) empty_stored by (simp add: stored_cert_def)
  then obtain q2 where w2: "wireCertBegin demo_final_env demo_hooks (demo_signed 1) q1 = (CertWaits 1, q2)"
    using demo_waits [OF s1(1), of 1] s1(3,4) q by auto
  show ?thesis
    using concurrent_certs_regress [OF demo_final_core q(1) w1 w2, of "\<lambda>_. 9", unfolded Let_def] q(4)
    by (intro exI [of _ "flush demo_final_env (\<lambda>_. 9) None q2"]) simp
qed

lemma core_inv_prims: "prims E = prims E' \<Longrightarrow> core_inv E s = core_inv E' s"
  by (simp add: core_inv_def stream_ok_def storedHead_def freshHead_def chain_linked_def headsCache.coherent_def
      cong: option.case_cong)

lemma demo_after_inv: "core_inv demo_final_env (q_core demo_after)"
  using reach_core [OF demo_reach] core_inv_prims [of demo_final_env demo_env] by (simp add: demo_final_env_def)

lemma demo_after_db:
  "sq_finality (lc_db (q_core demo_after)) = []" "certs (q_core demo_after) = Map.empty"
  by (simp_all add: demo_after_core commitFlush_def demo_applied_def empty_db_def getStream_def LogCore_new_def
      beginFlush_def saveHead_def upsertWriter_def Let_def metaSetHlc_def settle_def pushApplied_def withDb_def onDb_def)

definition demo_proposal :: CertProposal where
  "demo_proposal = \<lparr>pr_topic = ''t'', pr_order = orderOf demo_first, pr_cut = [(''me'', 1, demo_hash)],
     pr_generation = 1, pr_authority = ''pa''\<rparr>"

lemma demo_proposes:
  "\<exists>s'. proposeFinality demo_final_env 20 ''t'' (q_core demo_after) = Inr (Some demo_proposal, s')"
proof -
  let ?d = "lc_db (q_core demo_after)"
  note row = demo_first_def demo_row_def demo_hlc_def
  have rows: "topicRows ?d ''t'' = [(1, demo_first)]"
    by (simp add: topicRows_def inTopic_def demo_after_log row)
  have mx: "maxOrderUpTo ?d ''t'' 15 = Some (orderOf demo_first)"
    by (simp add: maxOrderUpTo_def rows row)
  have ls: "lastSeqAtOrBeforeOrder ?d ''t'' ''me'' (orderOf demo_first) = 1"
    by (simp add: lastSeqAtOrBeforeOrder_def demo_after_log inStream_def sqlAtOrBefore_def Let_def orderOf_def row)
  have ch: "chainAt ?d ''t'' ''me'' 1 = Some demo_hash"
    by (simp add: chainAt_def getEntry_def demo_after_log entryKey_def row)
  have win: "FINALITY_WINDOW_MS (constants demo_final_env) = 5" by (simp add: demo_final_env_def)
  have gc: "fst (getCert ''t'' (q_core demo_after)) = None" "lc_db (snd (getCert ''t'' (q_core demo_after))) = ?d"
    by (simp_all add: getCert_def demo_after_db finalityGet_def Let_def)
  show ?thesis
    using mx ls ch gc rows
    by (auto simp: proposeFinality_def reg_get_def win topicWriters_def row demo_proposal_def orderOf_def
        split: prod.split)
qed

theorem proposal_cut_exact_witness:
  "coveredBy (signedProposal demo_proposal ''ok'') ''me'' \<ge> e_seq demo_first"
proof -
  obtain s' where p: "proposeFinality demo_final_env 20 ''t'' (q_core demo_after) = Inr (Some demo_proposal, s')"
    using demo_proposes by blast
  have "held (lc_db (q_core demo_after)) demo_first" by (simp add: held_def demo_after_log)
  moreover have "e_topic demo_first = ''t''" "e_writer demo_first = ''me''"
    by (simp_all add: demo_first_def demo_row_def)
  moreover have "orderCompare (orderOf demo_first) (pr_order demo_proposal) \<le> 0"
    by (simp add: demo_proposal_def entOrd.cmp_refl)
  ultimately show ?thesis using proposal_cut_exact [OF demo_after_inv p, of "''ok''"] by auto
qed

theorem own_proposal_harmless_witness:
  "\<exists>s. held (lc_db (processCert demo_final_env 30 (signedProposal demo_proposal ''ok'') s)) demo_first"
proof -
  obtain s' where p: "proposeFinality demo_final_env 20 ''t'' (q_core demo_after) = Inr (Some demo_proposal, s')"
    using demo_proposes by blast
  have "held (lc_db (q_core demo_after)) demo_first" by (simp add: held_def demo_after_log)
  then show ?thesis
    using own_proposal_harmless [OF demo_after_inv p, of 30 "''ok''"]
    by (intro exI [of _ s']) (simp add: Let_def held_def)
qed

end
