(* ===== verification/Register.thy ===== *)
theory Register
  imports Finality
begin

text \<open>
  \<^verbatim>\<open>src/register.ts\<close>: the register reducer. \<open>fold\<close> applies one entry to the state
  of a topic; it is run over the entries in total order, by \<open>materialize\<close> as rows arrive
  (with side effects: mode \<open>live\<close>) and by \<open>stateAt\<close> for a historical state
  (\<open>replay\<close>). A \<open>Map\<close> is an association list in insertion order.

  A JavaScript exception inside the fold (a \<open>TypeError\<close> on an ill-shaped payload) is a result,
  paired with the state reached when it is thrown. The events a pass defers hold references to
  the state of a key: \<open>None\<close> stands for the object that is in the map, \<open>Some ks\<close> for an object that
  a refold has since dropped from it. A pass runs without interleaving.
\<close>

section \<open>State\<close>

definition ANCESTOR_WALK_CAP :: nat where
  "ANCESTOR_WALK_CAP = 1024"

definition DEDUPE_CAP :: nat where
  "DEDUPE_CAP = 8192"

record MemberState =
  ms_present :: bool
  ms_entry :: EntryId
  ms_order :: Order
  ms_frontier :: "EntryId list"
  ms_superseded :: "EntryId list"

record RequestState =
  rq_entry :: EntryId
  rq_requester :: string
  rq_value :: jsval
  rq_at :: Hlc
  rq_approvedBy :: "EntryId option"

record KeyState =
  ks_value :: "jsval option"
  ks_scalar :: bool
  ks_winner :: "EntryId option"
  ks_winnerOrder :: "Order option"
  ks_owner :: "string option"
  ks_resetGen :: nat
  ks_members :: "(string \<times> MemberState) list"
  ks_frontier :: "EntryId list"
  ks_superseded :: "EntryId list"
  ks_requests :: "RequestState list"

type_synonym KeyMap = "(string \<times> KeyState) list"

record TopicState =
  st_keys :: KeyMap
  st_ord :: "Order option"
  st_lastRowid :: nat
  st_base :: "(KeyMap \<times> Order) option"

definition emptyTopicState :: TopicState where
  "emptyTopicState = \<lparr>st_keys = [], st_ord = None, st_lastRowid = 0, st_base = None\<rparr>"

definition emptyKeyState :: KeyState where
  "emptyKeyState = \<lparr>ks_value = None, ks_scalar = True, ks_winner = None, ks_winnerOrder = None, ks_owner = None,
     ks_resetGen = 0, ks_members = [], ks_frontier = [], ks_superseded = [], ks_requests = []\<rparr>"

text \<open>\<open>EvAsk\<close> is a deferred \<open>maybeAskOwner\<close>, \<open>EvConflict\<close> a deferred \<open>surfaceConflict\<close>.\<close>

datatype RegEvent =
    EvAsk string RequestState "KeyState option"
  | EvConflict string "string option" "KeyState option"

text \<open>What a fold touches outside the topic's state.\<close>

record FoldSide =
  fs_db :: Db
  fs_tails :: ScopeTails
  fs_verdicts :: "EntryId \<Rightarrow> bool option"
  fs_events :: "RegEvent list"
  fs_anomalies :: "Anomaly list"
  fs_surfaced :: "string list"

datatype JsError = TypeErr | Thrown ErrCode

record OwnedRequest =
  or_topic :: string
  or_key :: string
  or_value :: jsval
  or_requester :: string
  or_entry :: EntryId
  or_at :: Hlc

text \<open>The environment: the log's, the host's hooks, how many conflict callbacks and which request
  callbacks (\<open>True\<close>: approve) a topic has, and \<^verbatim>\<open>String(n)\<close> of a number.\<close>

record RegEnv =
  rg_log :: LogEnv
  rg_auth :: AuthorityHooks
  rg_conflictCbs :: "string \<Rightarrow> nat"
  rg_requestCbs :: "string \<Rightarrow> (OwnedRequest \<Rightarrow> bool) list"
  rg_numStr :: "jsnum \<Rightarrow> string"

datatype FoldMode = LiveMode | ReplayMode

section \<open>JavaScript conversions\<close>

text \<open>\<open>String(v)\<close>: an array joins its elements; an object is \<open>[object Object]\<close>, unless it has an
  own property \<open>toString\<close>, which in parsed JSON is never callable.\<close>

fun jsString :: "RegEnv \<Rightarrow> jsval \<Rightarrow> JsError + string"
  and jsJoin :: "RegEnv \<Rightarrow> jsval option list \<Rightarrow> JsError + string list" where
  "jsString R JUndef = Inr ''undefined''"
| "jsString R JNull = Inr ''null''"
| "jsString R (JBool b) = Inr (if b then ''true'' else ''false'')"
| "jsString R (JNum n) = Inr (rg_numStr R n)"
| "jsString R (JStr s) = Inr s"
| "jsString R (JArr vs) = rbind (jsJoin R vs) (\<lambda>xs. Inr (concat (case xs of [] \<Rightarrow> [] | y # ys \<Rightarrow>
     y # map (\<lambda>z. CHR '','' # z) ys)))"
| "jsString R (JObj ps) = (if map_of ps ''toString'' = None then Inr ''[object Object]'' else Inl TypeErr)"
| "jsString R (JInst ps) = (if map_of ps ''toString'' = None then Inr ''[object Object]'' else Inl TypeErr)"
| "jsString R JOther = Inl TypeErr"
| "jsJoin R [] = Inr []"
| "jsJoin R (None # vs) = rbind (jsJoin R vs) (\<lambda>xs. Inr ([] # xs))"
| "jsJoin R (Some v # vs) =
     rbind (if v = JUndef \<or> v = JNull then Inr [] else jsString R v) (\<lambda>x.
     rbind (jsJoin R vs) (\<lambda>xs. Inr (x # xs)))"

definition jsTruthy :: "jsval \<Rightarrow> bool" where
  "jsTruthy v = (case v of
     JUndef \<Rightarrow> False | JNull \<Rightarrow> False | JBool b \<Rightarrow> b | JStr s \<Rightarrow> s \<noteq> []
   | JNum n \<Rightarrow> n \<noteq> JFin 0 \<and> n \<noteq> JNaN | _ \<Rightarrow> True)"

definition nullish :: "jsval \<Rightarrow> jsval \<Rightarrow> jsval" where
  "nullish v dflt = (if v = JUndef \<or> v = JNull then dflt else v)"

text \<open>\<open>v[i]\<close> for an index 0, 1 or 2; on \<open>undefined\<close> and \<open>null\<close> it throws. A string's element is a
  one-character string.\<close>

definition jsIndex :: "jsval \<Rightarrow> nat \<Rightarrow> jsval option" where
  "jsIndex v i = (case v of
     JUndef \<Rightarrow> None | JNull \<Rightarrow> None
   | JArr xs \<Rightarrow> Some (arrGet xs i)
   | JStr s \<Rightarrow> Some (if i < length s then JStr [s ! i] else JUndef)
   | _ \<Rightarrow> Some (getProp v (nat_str i)))"

definition sameId :: "EntryId \<Rightarrow> EntryId \<Rightarrow> bool" where
  "sameId a b \<longleftrightarrow> a = b"

text \<open>\<open>sameId(h, s)\<close> with an untyped second argument: \<open>None\<close> when it throws.\<close>

definition sameIdJs :: "EntryId \<Rightarrow> jsval \<Rightarrow> bool option" where
  "sameIdJs a v = (case (jsIndex v 0, jsIndex v 1, jsIndex v 2) of
     (Some t, Some w, Some s) \<Rightarrow>
        Some (t = JStr (fst a) \<and> w = JStr (fst (snd a)) \<and> s = JNum (num_of_nat (snd (snd a))))
   | _ \<Rightarrow> None)"

section \<open>Ancestors\<close>

fun ancestorWalk :: "nat \<Rightarrow> Db \<Rightarrow> string \<Rightarrow> EntryId \<Rightarrow> LogEntry option \<Rightarrow> bool" where
  "ancestorWalk 0 d topic a cur = False"
| "ancestorWalk (Suc hops) d topic a None = False"
| "ancestorWalk (Suc hops) d topic a (Some e) =
     (case e_causal e of
        None \<Rightarrow> False
      | Some (w, s) \<Rightarrow>
          if w = fst (snd a) \<and> s = snd (snd a) then True
          else ancestorWalk hops d topic a (getEntry d topic w s))"

definition isAncestor :: "Db \<Rightarrow> string \<Rightarrow> EntryId \<Rightarrow> LogEntry \<Rightarrow> bool" where
  "isAncestor d topic a b = ancestorWalk ANCESTOR_WALK_CAP d topic a (Some b)"

section \<open>One operation on a key\<close>

definition pushEvent :: "RegEvent \<Rightarrow> FoldSide \<Rightarrow> FoldSide" where
  "pushEvent ev sd = sd\<lparr>fs_events := fs_events sd @ [ev]\<rparr>"

definition entryId :: "LogEntry \<Rightarrow> EntryId" where
  "entryId e = (e_topic e, e_writer e, e_seq e)"

definition foldKeyWrite ::
  "string \<Rightarrow> string \<Rightarrow> KeyState \<Rightarrow> LogEntry \<Rightarrow> EntryId \<Rightarrow> PolicyVal \<Rightarrow> jsval option \<Rightarrow> FoldSide \<Rightarrow> KeyState \<times> FoldSide" where
  "foldKeyWrite topic key ks e eid policy val sd =
     (let d = fs_db sd; ord = orderOf e; prevWinner = ks_winner ks;
          adopt = (case ks_winner ks of
             None \<Rightarrow> True
           | Some wn \<Rightarrow> if policy = PName ''fww'' then isAncestor d topic wn e
                       else (case ks_winnerOrder ks of None \<Rightarrow> False | Some wo \<Rightarrow> orderCompare ord wo > 0));
          ks1 = ks\<lparr>ks_frontier := filter (\<lambda>h. \<not> isAncestor d topic h e \<and> \<not> sameId h eid) (ks_frontier ks) @ [eid]\<rparr>;
          ks2 = (if adopt then
                   ks1\<lparr>ks_winner := Some eid, ks_winnerOrder := Some ord,
                       ks_value := (if e_kind e = ''del'' then None
                                    else case val of None \<Rightarrow> ks_value ks1 | Some v \<Rightarrow> Some v)\<rparr>
                 else ks1)
      in (ks2, if (case prevWinner of None \<Rightarrow> False
                   | Some pw \<Rightarrow> length (ks_frontier ks2) > 1 \<and> \<not> isAncestor d topic pw e)
               then pushEvent (EvConflict key None None) sd else sd))"

definition newMember :: "bool \<Rightarrow> EntryId \<Rightarrow> Order \<Rightarrow> MemberState" where
  "newMember present eid ord = \<lparr>ms_present = present, ms_entry = eid, ms_order = ord,
     ms_frontier = [eid], ms_superseded = []\<rparr>"

definition foldMember ::
  "Db \<Rightarrow> string \<Rightarrow> LogEntry \<Rightarrow> EntryId \<Rightarrow> PolicyVal \<Rightarrow> bool \<Rightarrow> MemberState \<Rightarrow> MemberState" where
  "foldMember d topic e eid policy present ms =
     (let ord = orderOf e;
          adopt = (if policy = PName ''fww'' then isAncestor d topic (ms_entry ms) e
                   else orderCompare ord (ms_order ms) > 0);
          ms1 = ms\<lparr>ms_frontier := filter (\<lambda>h. \<not> isAncestor d topic h e \<and> \<not> sameId h eid) (ms_frontier ms) @ [eid]\<rparr>
      in if adopt then ms1\<lparr>ms_present := present, ms_entry := eid, ms_order := ord\<rparr> else ms1)"

definition foldMemberOp ::
  "string \<Rightarrow> string \<Rightarrow> KeyState \<Rightarrow> LogEntry \<Rightarrow> EntryId \<Rightarrow> PolicyVal \<Rightarrow> string \<Rightarrow> bool \<Rightarrow> FoldSide \<Rightarrow> KeyState \<times> FoldSide" where
  "foldMemberOp topic key ks e eid policy member present sd =
     (let ord = orderOf e;
          ks1 = (if (case ks_winnerOrder ks of None \<Rightarrow> True | Some wo \<Rightarrow> orderCompare ord wo > 0)
                 then ks\<lparr>ks_winner := Some eid, ks_winnerOrder := Some ord\<rparr> else ks)
      in case map_of (ks_members ks1) member of
           None \<Rightarrow> (ks1\<lparr>ks_members := AList.update member (newMember present eid ord) (ks_members ks1)\<rparr>, sd)
         | Some ms \<Rightarrow>
             let ms' = foldMember (fs_db sd) topic e eid policy present ms in
             (ks1\<lparr>ks_members := AList.update member ms' (ks_members ks1)\<rparr>,
              if length (ms_frontier ms') > 1 \<and> \<not> isAncestor (fs_db sd) topic (ms_entry ms) e
              then pushEvent (EvConflict key (Some member) None) sd else sd))"

text \<open>\<open>frontier.findIndex(...)\<close>: the callback is not called on an empty frontier; \<open>None\<close> when it throws.\<close>

fun findHead :: "EntryId list \<Rightarrow> jsval \<Rightarrow> EntryId option option" where
  "findHead [] s = Some None"
| "findHead (h # hs) s = (case sameIdJs h s of
     None \<Rightarrow> None | Some True \<Rightarrow> Some (Some h) | Some False \<Rightarrow> findHead hs s)"

fun supersedeLoop :: "jsval list \<Rightarrow> EntryId list \<times> EntryId list \<Rightarrow> JsError option \<times> EntryId list \<times> EntryId list" where
  "supersedeLoop [] p = (None, p)"
| "supersedeLoop (s # ss) (frontier, superseded) = (case findHead frontier s of
     None \<Rightarrow> (Some TypeErr, frontier, superseded)
   | Some None \<Rightarrow> supersedeLoop ss (frontier, superseded)
   | Some (Some h) \<Rightarrow> supersedeLoop ss (remove1 h frontier, superseded @ [h]))"

text \<open>What \<open>for (const s of ids)\<close> iterates over; \<open>None\<close> for a value that is not iterable.\<close>

definition iterValues :: "jsval \<Rightarrow> jsval list option" where
  "iterValues v = (case v of
     JArr xs \<Rightarrow> Some (map (\<lambda>x. case x of None \<Rightarrow> JUndef | Some y \<Rightarrow> y) xs)
   | JStr s \<Rightarrow> Some (map (\<lambda>c. JStr [c]) s)
   | _ \<Rightarrow> None)"

definition applySupersedes :: "EntryId list \<Rightarrow> EntryId list \<Rightarrow> jsval \<Rightarrow> JsError option \<times> EntryId list \<times> EntryId list" where
  "applySupersedes frontier superseded ids = (case iterValues ids of
     None \<Rightarrow> (Some TypeErr, frontier, superseded)
   | Some ss \<Rightarrow> supersedeLoop ss (frontier, superseded))"

definition violation :: "nat \<Rightarrow> LogEntry \<Rightarrow> FoldSide \<Rightarrow> FoldSide" where
  "violation now e sd = sd\<lparr>
     fs_db := annotate (fs_db sd) (e_topic e) (e_writer e) (e_seq e) ''owned_violation'' now,
     fs_anomalies := fs_anomalies sd @ [\<lparr>a_kind = A_owned_violation, a_entry = Some e,
        a_topic = Some (e_topic e), a_writer = Some (e_writer e)\<rparr>]\<rparr>"

definition ownedWriteAllowed :: "nat \<Rightarrow> FoldMode \<Rightarrow> KeyState \<Rightarrow> LogEntry \<Rightarrow> FoldSide \<Rightarrow> bool \<times> FoldSide" where
  "ownedWriteAllowed now mode ks e sd =
     (if ks_owner ks = None \<or> ks_owner ks = Some (e_writer e) then (True, sd)
      else (False, if mode = LiveMode then violation now e sd else sd))"

fun approveFirst :: "EntryId \<Rightarrow> EntryId \<Rightarrow> RequestState list \<Rightarrow> RequestState list" where
  "approveFirst ref approver [] = []"
| "approveFirst ref approver (r # rs) =
     (if sameId (rq_entry r) ref then r\<lparr>rq_approvedBy := Some approver\<rparr> # rs
      else r # approveFirst ref approver rs)"

definition markApproved :: "KeyState \<Rightarrow> EntryId \<Rightarrow> EntryId \<Rightarrow> KeyState" where
  "markApproved ks ref approver = ks\<lparr>ks_requests := approveFirst ref approver (ks_requests ks)\<rparr>"

definition verifyTakeoverOf :: "RegEnv \<Rightarrow> LogEntry \<Rightarrow> FoldSide \<Rightarrow> bool \<times> FoldSide" where
  "verifyTakeoverOf R e sd = (case fs_verdicts sd (entryId e) of
     Some v \<Rightarrow> (v, sd)
   | None \<Rightarrow> let v = (case verifyTakeover (rg_auth R) of None \<Rightarrow> False | Some f \<Rightarrow> f e)
             in (v, sd\<lparr>fs_verdicts := (fs_verdicts sd)(entryId e \<mapsto> v)\<rparr>))"

definition takeoverInvalid :: "LogEntry \<Rightarrow> FoldSide \<Rightarrow> FoldSide" where
  "takeoverInvalid e sd = sd\<lparr>fs_anomalies := fs_anomalies sd @ [\<lparr>a_kind = A_takeover_invalid, a_entry = Some e,
     a_topic = Some (e_topic e), a_writer = Some (e_writer e)\<rparr>]\<rparr>"

definition claimOwner :: "PolicyVal \<Rightarrow> LogEntry \<Rightarrow> KeyState \<Rightarrow> KeyState" where
  "claimOwner policy e ks =
     (if policy = PName ''owned'' \<and> ks_owner ks = None then ks\<lparr>ks_owner := Some (e_writer e)\<rparr> else ks)"

text \<open>A payload's property, and \<open>String(payload.p ?? "")\<close>.\<close>

definition payloadProp :: "LogEntry \<Rightarrow> string \<Rightarrow> jsval" where
  "payloadProp e p = (case e_payload e of JNull \<Rightarrow> JUndef | v \<Rightarrow> getProp v p)"

definition payloadString :: "RegEnv \<Rightarrow> LogEntry \<Rightarrow> string \<Rightarrow> JsError + string" where
  "payloadString R e p = jsString R (nullish (payloadProp e p) (JStr []))"

definition payloadValue :: "LogEntry \<Rightarrow> jsval option" where
  "payloadValue e = (case payloadProp e ''value'' of JUndef \<Rightarrow> None | v \<Rightarrow> Some v)"

definition resetMembers :: "KeyState \<Rightarrow> KeyState" where
  "resetMembers ks = ks\<lparr>ks_members := [], ks_resetGen := ks_resetGen ks + 1, ks_scalar := True\<rparr>"

type_synonym FoldRes = "JsError option \<times> KeyState \<times> FoldSide"

definition setOwner :: "RegEnv \<Rightarrow> LogEntry \<Rightarrow> KeyState \<Rightarrow> FoldSide \<Rightarrow> FoldRes" where
  "setOwner R e ks sd = (case payloadString R e ''newOwner'' of
     Inl err \<Rightarrow> (Some err, ks, sd)
   | Inr w \<Rightarrow> (None, ks\<lparr>ks_owner := Some w\<rparr>, sd))"

definition foldRequest :: "LogEntry \<Rightarrow> string \<Rightarrow> KeyState \<Rightarrow> FoldSide \<Rightarrow> FoldRes" where
  "foldRequest e key ks sd =
     (let req = \<lparr>rq_entry = entryId e, rq_requester = e_writer e,
                 rq_value = nullish (payloadProp e ''value'') JNull, rq_at = e_hlc e, rq_approvedBy = None\<rparr>
      in (None, ks\<lparr>ks_requests := ks_requests ks @ [req]\<rparr>, pushEvent (EvAsk key req None) sd))"

definition foldChown :: "RegEnv \<Rightarrow> nat \<Rightarrow> FoldMode \<Rightarrow> LogEntry \<Rightarrow> KeyState \<Rightarrow> FoldSide \<Rightarrow> FoldRes" where
  "foldChown R now mode e ks sd =
     (if ks_owner ks \<noteq> None \<and> ks_owner ks \<noteq> Some (e_writer e)
      then (None, ks, if mode = LiveMode then violation now e sd else sd)
      else setOwner R e ks sd)"

definition foldTakeover :: "RegEnv \<Rightarrow> FoldMode \<Rightarrow> LogEntry \<Rightarrow> KeyState \<Rightarrow> FoldSide \<Rightarrow> FoldRes" where
  "foldTakeover R mode e ks sd =
     (case verifyTakeoverOf R e sd of (ok, sd1) \<Rightarrow>
      if ok then setOwner R e ks sd1
      else (None, ks, if mode = LiveMode then takeoverInvalid e sd1 else sd1))"

definition foldSetDel ::
  "string \<Rightarrow> nat \<Rightarrow> FoldMode \<Rightarrow> PolicyVal \<Rightarrow> LogEntry \<Rightarrow> string \<Rightarrow> KeyState \<Rightarrow> FoldSide \<Rightarrow> FoldRes" where
  "foldSetDel topic now mode policy e key ks sd =
     (case (if policy = PName ''owned'' then ownedWriteAllowed now mode ks e sd else (True, sd)) of (ok, sd1) \<Rightarrow>
      if \<not> ok then (None, ks, sd1)
      else
        let ks1 = (if e_kind e = ''set'' then (if \<not> ks_scalar ks then resetMembers ks else ks)
                   else resetMembers ks) in
        (case foldKeyWrite topic key ks1 e (entryId e) policy
                (if e_kind e = ''set'' then payloadValue e else None) sd1 of (ks2, sd2) \<Rightarrow>
         let ks3 = (case e_ref e of
                Some ref \<Rightarrow> if e_kind e = ''set'' then markApproved ks2 ref (entryId e) else ks2
              | None \<Rightarrow> ks2)
         in (None, claimOwner policy e ks3, sd2)))"

definition foldResolve :: "string \<Rightarrow> PolicyVal \<Rightarrow> LogEntry \<Rightarrow> string \<Rightarrow> KeyState \<Rightarrow> FoldSide \<Rightarrow> FoldRes" where
  "foldResolve topic policy e key ks sd =
     (case applySupersedes (ks_frontier ks) (ks_superseded ks) (nullish (payloadProp e ''supersedes'') (JArr [])) of
        (err, frontier, superseded) \<Rightarrow>
      let ks1 = ks\<lparr>ks_frontier := frontier, ks_superseded := superseded\<rparr> in
      case err of Some x \<Rightarrow> (Some x, ks1, sd)
      | None \<Rightarrow> (None, foldKeyWrite topic key ks1 e (entryId e) policy (payloadValue e) sd))"

definition foldAddRemove ::
  "RegEnv \<Rightarrow> string \<Rightarrow> nat \<Rightarrow> FoldMode \<Rightarrow> PolicyVal \<Rightarrow> LogEntry \<Rightarrow> string \<Rightarrow> KeyState \<Rightarrow> FoldSide \<Rightarrow> FoldRes" where
  "foldAddRemove R topic now mode policy e key ks sd =
     (case (if policy = PName ''owned'' then ownedWriteAllowed now mode ks e sd else (True, sd)) of (ok, sd1) \<Rightarrow>
      if \<not> ok then (None, ks, sd1)
      else
        let ks1 = (if ks_scalar ks \<and> ks_value ks \<noteq> None
                   then ks\<lparr>ks_value := None, ks_resetGen := ks_resetGen ks + 1\<rparr> else ks);
            ks2 = ks1\<lparr>ks_scalar := False\<rparr>
        in (case payloadString R e ''member'' of
              Inl err \<Rightarrow> (Some err, ks2, sd1)
            | Inr member \<Rightarrow>
                (case foldMemberOp topic key ks2 e (entryId e) policy member (e_kind e = ''add'') sd1 of (ks3, sd2) \<Rightarrow>
                 (None, claimOwner policy e ks3, sd2))))"

definition foldResolveMember ::
  "RegEnv \<Rightarrow> string \<Rightarrow> PolicyVal \<Rightarrow> LogEntry \<Rightarrow> string \<Rightarrow> KeyState \<Rightarrow> FoldSide \<Rightarrow> FoldRes" where
  "foldResolveMember R topic policy e key ks sd =
     (case payloadString R e ''member'' of
        Inl err \<Rightarrow> (Some err, ks, sd)
      | Inr member \<Rightarrow>
         (case (case map_of (ks_members ks) member of
                  None \<Rightarrow> (None, ks)
                | Some ms \<Rightarrow>
                   (case applySupersedes (ms_frontier ms) (ms_superseded ms)
                           (nullish (payloadProp e ''supersedes'') (JArr [])) of (err, front, olds) \<Rightarrow>
                    (err, ks\<lparr>ks_members := AList.update member (ms\<lparr>ms_frontier := front, ms_superseded := olds\<rparr>)
                       (ks_members ks)\<rparr>))) of
            (Some err, ks1) \<Rightarrow> (Some err, ks1, sd)
          | (None, ks1) \<Rightarrow>
             (None, foldMemberOp topic key ks1 e (entryId e) policy member
                (jsTruthy (payloadProp e ''present'')) sd)))"

definition foldOp ::
  "RegEnv \<Rightarrow> string \<Rightarrow> nat \<Rightarrow> FoldMode \<Rightarrow> PolicyVal \<Rightarrow> LogEntry \<Rightarrow> string \<Rightarrow> KeyState \<Rightarrow> FoldSide \<Rightarrow> FoldRes" where
  "foldOp R topic now mode policy e key ks sd =
     (if e_kind e = ''request'' then foldRequest e key ks sd
      else if e_kind e = ''chown'' then foldChown R now mode e ks sd
      else if e_kind e = ''chown-takeover'' then foldTakeover R mode e ks sd
      else if e_kind e = ''set'' \<or> e_kind e = ''del'' then foldSetDel topic now mode policy e key ks sd
      else if e_kind e = ''resolve'' then foldResolve topic policy e key ks sd
      else if e_kind e = ''add'' \<or> e_kind e = ''remove'' then foldAddRemove R topic now mode policy e key ks sd
      else if e_kind e = ''resolve-member'' then foldResolveMember R topic policy e key ks sd
      else (None, ks, sd))"

section \<open>The fold\<close>

text \<open>Own uncommitted tails of the topic shrink as own entries materialize.\<close>

definition dropTails :: "string \<Rightarrow> string \<Rightarrow> LogEntry \<Rightarrow> ScopeTails \<Rightarrow> ScopeTails" where
  "dropTails self topic e tails = (\<lambda>scope. case tails scope of
     None \<Rightarrow> None
   | Some (w, n) \<Rightarrow> if w = self \<and> n \<le> e_seq e \<and> startsWith scope (topic @ [CHR 0x00]) then None else Some (w, n))"

definition keyStateOf :: "KeyMap \<Rightarrow> string \<Rightarrow> KeyState" where
  "keyStateOf keys key = (case map_of keys key of None \<Rightarrow> emptyKeyState | Some ks \<Rightarrow> ks)"

definition foldEntry ::
  "RegEnv \<Rightarrow> string \<Rightarrow> nat \<Rightarrow> FoldMode \<Rightarrow> LogEntry \<Rightarrow> TopicState \<times> FoldSide \<Rightarrow>
   JsError option \<times> TopicState \<times> FoldSide" where
  "foldEntry R topic now mode e p =
     (case p of (st, sd) \<Rightarrow>
      let self = selfId (rg_log R);
          st1 = st\<lparr>st_ord := Some (orderOf e)\<rparr>;
          sd1 = (if mode = LiveMode \<and> e_writer e = self
                 then sd\<lparr>fs_tails := dropTails self topic e (fs_tails sd)\<rparr> else sd)
      in case e_key e of
           None \<Rightarrow> (None, st1, sd1)
         | Some key \<Rightarrow>
             let ks = keyStateOf (st_keys st1) key;
                 st2 = st1\<lparr>st_keys := AList.update key ks (st_keys st1)\<rparr>
             in case reg_get (registry (rg_log R)) topic of
                  Inl err \<Rightarrow> (Some (Thrown err), st2, sd1)
                | Inr te \<Rightarrow>
                    (case foldOp R topic now mode (conflictPolicyFor (te_policy te) key) e key ks sd1 of
                       (err, ks', sd2) \<Rightarrow>
                         (err, st2\<lparr>st_keys := AList.update key ks' (st_keys st2)\<rparr>, sd2)))"

fun foldAll ::
  "RegEnv \<Rightarrow> string \<Rightarrow> nat \<Rightarrow> FoldMode \<Rightarrow> LogEntry list \<Rightarrow> TopicState \<times> FoldSide \<Rightarrow>
   JsError option \<times> TopicState \<times> FoldSide" where
  "foldAll R topic now mode [] p = (None, p)"
| "foldAll R topic now mode (e # es) p =
     (case foldEntry R topic now mode e p of
        (None, p') \<Rightarrow> foldAll R topic now mode es p'
      | (Some err, p') \<Rightarrow> (Some err, p'))"

section \<open>The fold leaves the log alone\<close>

definition same_log :: "Db \<Rightarrow> Db \<Rightarrow> bool" where
  "same_log d d' \<longleftrightarrow> sq_log d' = sq_log d \<and> log_autoinc d' = log_autoinc d"

lemma same_log_refl [simp]: "same_log d d"
  by (simp add: same_log_def)

lemma same_log_trans: "same_log a b \<Longrightarrow> same_log b c \<Longrightarrow> same_log a c"
  by (simp add: same_log_def)

lemma same_log_violation [simp]: "same_log (fs_db sd) (fs_db (violation now e sd))"
  by (simp add: same_log_def violation_def)

lemma fs_db_push [simp]: "fs_db (pushEvent ev sd) = fs_db sd"
  by (simp add: pushEvent_def)

lemma fs_db_ops:
  "foldKeyWrite t k ks e i p v sd = (ks', sd') \<Longrightarrow> fs_db sd' = fs_db sd"
  "foldMemberOp t k ks e i p m b sd = (ks', sd') \<Longrightarrow> fs_db sd' = fs_db sd"
  "verifyTakeoverOf R e sd = (ok, sd') \<Longrightarrow> fs_db sd' = fs_db sd"
  by (auto simp: foldKeyWrite_def foldMemberOp_def verifyTakeoverOf_def Let_def split: option.splits if_splits)

lemma ownedWrite_log: "ownedWriteAllowed now mode ks e sd = (ok, sd') \<Longrightarrow> same_log (fs_db sd) (fs_db sd')"
  by (auto simp: ownedWriteAllowed_def split: if_splits)

lemma foldOp_log: "foldOp R t now mode pol e k ks sd = (err, ks', sd') \<Longrightarrow> same_log (fs_db sd) (fs_db sd')"
  unfolding foldOp_def
  by (auto simp: foldRequest_def foldChown_def foldTakeover_def setOwner_def foldSetDel_def foldResolve_def
      foldAddRemove_def foldResolveMember_def takeoverInvalid_def Let_def
      dest!: fs_db_ops ownedWrite_log split: if_splits prod.splits option.splits sum.splits)

lemma foldEntry_log: "foldEntry R t now mode e p = (err, st', sd') \<Longrightarrow> same_log (fs_db (snd p)) (fs_db sd')"
  by (auto simp: foldEntry_def Let_def dest!: foldOp_log split: prod.splits option.splits sum.splits if_splits)

lemma foldAll_log: "foldAll R t now mode es p = (err, st', sd') \<Longrightarrow> same_log (fs_db (snd p)) (fs_db sd')"
proof (induction es arbitrary: p)
  case (Cons e es)
  obtain err1 st1 sd1 where f: "foldEntry R t now mode e p = (err1, st1, sd1)" by (metis prod_cases3)
  note l = foldEntry_log [OF f]
  show ?case
    using Cons.prems Cons.IH [of "(st1, sd1)"] l by (cases err1) (auto simp: f dest: same_log_trans)
qed simp

lemma foldAll_append:
  "foldAll R t now mode (xs @ ys) p =
     (case foldAll R t now mode xs p of
        (None, p') \<Rightarrow> foldAll R t now mode ys p' | (Some err, p') \<Rightarrow> (Some err, p'))"
  by (induction xs arbitrary: p) (auto split: prod.splits option.splits)

lemma foldEntry_ord: "foldEntry R t now mode e p = (err, st', sd') \<Longrightarrow>
    st_ord st' = Some (orderOf e) \<and> st_lastRowid st' = st_lastRowid (fst p) \<and> st_base st' = st_base (fst p)"
  by (auto simp: foldEntry_def Let_def split: prod.splits option.splits sum.splits if_splits)

lemma foldAll_ord: "foldAll R t now mode es p = (err, st', sd') \<Longrightarrow>
    st_lastRowid st' = st_lastRowid (fst p) \<and> st_base st' = st_base (fst p) \<and>
    (err = None \<longrightarrow> st_ord st' = (if es = [] then st_ord (fst p) else Some (orderOf (last es))))"
proof (induction es arbitrary: p)
  case (Cons e es)
  obtain err1 st1 sd1 where f: "foldEntry R t now mode e p = (err1, st1, sd1)" by (metis prod_cases3)
  note l = foldEntry_ord [OF f]
  show ?case
    using Cons.prems Cons.IH [of "(st1, sd1)"] l by (cases err1) (auto simp: f)
qed simp

end
