(* ===== verification/Register_Hub.thy ===== *)
theory Register_Hub
  imports Register
begin

text \<open>
  The hub of \<^verbatim>\<open>src/register.ts\<close> around the fold: the passes that bring a topic's
  state up to date with the log, snapshots and the base floor, the built-in table, conflict and
  request surfacing, the public reads, and the write path with its causal stamping. Property
  order of JavaScript objects is insertion order (integer-like names are not moved to the
  front); an assignment to the property \<^verbatim>\<open>__proto__\<close> creates no own property.
\<close>

section \<open>Passes over the log\<close>

definition REG_PAGE :: nat where
  "REG_PAGE = 500"

definition clearedState :: "TopicState \<Rightarrow> TopicState" where
  "clearedState st = (case st_base st of
     Some (keys, ord) \<Rightarrow> st\<lparr>st_keys := keys, st_ord := Some ord\<rparr>
   | None \<Rightarrow> st\<lparr>st_keys := [], st_ord := None\<rparr>)"

text \<open>Events already deferred keep the key objects that the refold drops from the map.\<close>

definition detachEvent :: "KeyMap \<Rightarrow> RegEvent \<Rightarrow> RegEvent" where
  "detachEvent keys ev = (case ev of
     EvAsk k r None \<Rightarrow> EvAsk k r (map_of keys k)
   | EvConflict k m None \<Rightarrow> EvConflict k m (map_of keys k)
   | _ \<Rightarrow> ev)"

definition startRefold :: "TopicState \<times> FoldSide \<Rightarrow> TopicState \<times> FoldSide" where
  "startRefold p = (case p of (st, sd) \<Rightarrow>
     (clearedState st, sd\<lparr>fs_events := map (detachEvent (st_keys st)) (fs_events sd), fs_surfaced := []\<rparr>))"

definition afterCursor :: "Order option \<Rightarrow> LogEntry \<Rightarrow> bool" where
  "afterCursor cursor e = (case cursor of None \<Rightarrow> True | Some a \<Rightarrow> sqlAfter a e)"

definition entriesLeft :: "Db \<Rightarrow> string \<Rightarrow> Order option \<Rightarrow> nat" where
  "entriesLeft d topic cursor = length (filter (afterCursor cursor) (map snd (topicRows d topic)))"

lemma entriesAfter_subset:
  "set (entriesAfterOrder d topic cursor n) \<subseteq> set (filter (afterCursor cursor) (map snd (topicRows d topic)))"
  by (auto simp: entriesAfterOrder_def afterCursor_def dest!: in_set_takeD split: option.splits)

lemma entriesLeft_less:
  assumes "e \<in> set (entriesAfterOrder d topic cursor n)"
  shows "entriesLeft d topic (Some (orderOf e)) < entriesLeft d topic cursor"
proof -
  have e: "e \<in> set (map snd (topicRows d topic))" "afterCursor cursor e"
    using entriesAfter_subset assms by fastforce+
  have imp: "afterCursor cursor x" if "afterCursor (Some (orderOf e)) x" for x
    using that e(2) entOrd.cmp_trans by (auto simp: afterCursor_def sqlAfter_iff split: option.splits)
  have "filter (afterCursor (Some (orderOf e))) (map snd (topicRows d topic)) =
      filter (afterCursor (Some (orderOf e))) (filter (afterCursor cursor) (map snd (topicRows d topic)))"
    using imp by (auto intro!: filter_cong simp: filter_filter)
  moreover have "\<not> afterCursor (Some (orderOf e)) e"
    by (simp add: afterCursor_def sqlAfter_iff entOrd.cmp_refl)
  ultimately show ?thesis
    unfolding entriesLeft_def using e
    by (simp only:) (rule length_filter_less [of e], auto)
qed

text \<open>The refold: pages of entries in total order from the cursor.\<close>

function refoldLoop ::
  "RegEnv \<Rightarrow> string \<Rightarrow> nat \<Rightarrow> Order option \<Rightarrow> TopicState \<times> FoldSide \<Rightarrow> JsError option \<times> TopicState \<times> FoldSide" where
  "refoldLoop R topic now cursor p =
     (let batch = entriesAfterOrder (fs_db (snd p)) topic cursor REG_PAGE in
      if batch = [] then (None, p)
      else (case foldAll R topic now LiveMode batch p of
              (Some err, p') \<Rightarrow> (Some err, p')
            | (None, p') \<Rightarrow> refoldLoop R topic now (st_ord (fst p')) p'))"
  by pat_completeness auto
termination
proof (relation "measure (\<lambda>(R, topic, now, cursor, p). entriesLeft (fs_db (snd p)) topic cursor)", goal_cases)
  case (2 R topic now cursor p batch x p')
  obtain st sd where p': "p' = (st, sd)" by fastforce
  have "foldAll R topic now LiveMode batch p = (None, st, sd)" using 2 p' by simp
  note fo = foldAll_ord [OF this] foldAll_log [OF this]
  have "last batch \<in> set batch" using 2(2) by simp
  then have "entriesLeft (fs_db (snd p)) topic (Some (orderOf (last batch))) < entriesLeft (fs_db (snd p)) topic cursor"
    unfolding 2(1) by (rule entriesLeft_less)
  moreover have "entriesLeft (fs_db sd) topic c = entriesLeft (fs_db (snd p)) topic c" for c
    using fo(2) by (simp add: entriesLeft_def topicRows_def same_log_def)
  ultimately show ?case using fo(1) 2(2) p' by simp
qed simp

declare refoldLoop.simps [simp del]

definition rowsLeft :: "Db \<Rightarrow> string \<Rightarrow> nat \<Rightarrow> nat" where
  "rowsLeft d topic lastRowid = length (filter (\<lambda>r. lastRowid < fst r) (topicRows d topic))"

lemma rowsLeft_less:
  assumes "rows = entriesForTopicFromRowid d topic lastRowid n" "rows \<noteq> []"
  shows "rowsLeft d topic (fst (last rows)) < rowsLeft d topic lastRowid"
proof -
  have "last rows \<in> set rows" using assms(2) by simp
  then have l: "last rows \<in> set (topicRows d topic)" "lastRowid < fst (last rows)"
    using assms(1) by (auto simp: entriesForTopicFromRowid_def dest!: in_set_takeD)
  have "filter (\<lambda>r. fst (last rows) < fst r) (topicRows d topic) =
      filter (\<lambda>r. fst (last rows) < fst r) (filter (\<lambda>r. lastRowid < fst r) (topicRows d topic))"
    using l(2) by (auto intro!: filter_cong simp: filter_filter)
  then show ?thesis
    unfolding rowsLeft_def using l
    by (simp only:) (rule length_filter_less [of "last rows"], auto)
qed

text \<open>One pass: pages of new rows in arrival order; a page that reaches back behind the folded order
  starts the refold, which ends the pass.\<close>

function passLoop ::
  "RegEnv \<Rightarrow> string \<Rightarrow> nat \<Rightarrow> TopicState \<times> FoldSide \<Rightarrow> JsError option \<times> TopicState \<times> FoldSide" where
  "passLoop R topic now p =
     (case p of (st, sd) \<Rightarrow>
      let rows = entriesForTopicFromRowid (fs_db sd) topic (st_lastRowid st) REG_PAGE in
      if rows = [] then (None, p)
      else
        let sorted = sort_by entryCompare (map snd rows) in
        if (case st_ord st of None \<Rightarrow> False | Some o' \<Rightarrow> orderCompare (orderOf (hd sorted)) o' \<le> 0)
        then (let q = startRefold p in
              case refoldLoop R topic now (st_ord (fst q)) q of
                (Some err, q') \<Rightarrow> (Some err, q')
              | (None, (st', sd')) \<Rightarrow> (None, (st'\<lparr>st_lastRowid := maxRowid (fs_db sd') topic\<rparr>, sd')))
        else (case foldAll R topic now LiveMode sorted p of
                (Some err, q') \<Rightarrow> (Some err, q')
              | (None, (st', sd')) \<Rightarrow> passLoop R topic now (st'\<lparr>st_lastRowid := fst (last rows)\<rparr>, sd')))"
  by pat_completeness auto
termination
proof (relation "measure (\<lambda>(R, topic, now, p). rowsLeft (fs_db (snd p)) topic (st_lastRowid (fst p)))", goal_cases)
  case (2 R topic now p st sd rows sorted x q st' sd')
  have "foldAll R topic now LiveMode sorted p = (None, st', sd')" using 2 by simp
  then have "same_log (fs_db sd) (fs_db sd')" using foldAll_log 2(1) by fastforce
  then have "rowsLeft (fs_db sd') topic n = rowsLeft (fs_db sd) topic n" for n
    by (simp add: rowsLeft_def topicRows_def same_log_def)
  then show ?case using rowsLeft_less [OF 2(2,3)] 2(1) by auto
qed simp

declare passLoop.simps [simp del]

section \<open>Snapshots\<close>

text \<open>\<open>o[k] = v\<close> on a plain object: the name \<^verbatim>\<open>__proto__\<close> sets the prototype instead.\<close>

definition objSet :: "string \<Rightarrow> 'a \<Rightarrow> (string \<times> 'a) list \<Rightarrow> (string \<times> 'a) list" where
  "objSet k v ps = (if k = ''__proto__'' then ps else AList.update k v ps)"

record SnapMember =
  sm_present :: bool
  sm_entry :: EntryId
  sm_order :: Order
  sm_frontier :: "EntryId list option"
  sm_superseded :: "EntryId list option"

record SnapKey =
  sk_value :: "jsval option"
  sk_winner :: EntryId
  sk_winnerOrder :: Order
  sk_owner :: "string option"
  sk_resetGen :: nat
  sk_members :: "(string \<times> SnapMember) list option"
  sk_frontier :: "EntryId list"
  sk_superseded :: "EntryId list option"

type_synonym RegisterSnapshotState = "(string \<times> SnapKey) list"

definition nonEmpty :: "'a list \<Rightarrow> 'a list option" where
  "nonEmpty xs = (if length xs > 0 then Some xs else None)"

definition orEmpty :: "'a list option \<Rightarrow> 'a list" where
  "orEmpty x = (case x of None \<Rightarrow> [] | Some xs \<Rightarrow> xs)"

definition memberFromSnap :: "SnapMember \<Rightarrow> MemberState" where
  "memberFromSnap mm = \<lparr>ms_present = sm_present mm, ms_entry = sm_entry mm, ms_order = sm_order mm,
     ms_frontier = (case sm_frontier mm of None \<Rightarrow> [sm_entry mm] | Some f \<Rightarrow> f),
     ms_superseded = orEmpty (sm_superseded mm)\<rparr>"

definition keyFromSnap :: "SnapKey \<Rightarrow> KeyState" where
  "keyFromSnap k =
     (let members = map (\<lambda>(m, mm). (m, memberFromSnap mm)) (orEmpty (sk_members k))
      in \<lparr>ks_value = sk_value k, ks_scalar = (members = []), ks_winner = Some (sk_winner k),
          ks_winnerOrder = Some (sk_winnerOrder k), ks_owner = sk_owner k, ks_resetGen = sk_resetGen k,
          ks_members = members, ks_frontier = sk_frontier k, ks_superseded = orEmpty (sk_superseded k),
          ks_requests = []\<rparr>)"

definition keysFromSnapshot :: "RegisterSnapshotState \<Rightarrow> KeyMap" where
  "keysFromSnapshot snap = map (\<lambda>(key, k). (key, keyFromSnap k)) snap"

text \<open>A deep copy of immutable values is the value itself.\<close>

definition cloneKeys :: "KeyMap \<Rightarrow> KeyMap" where
  "cloneKeys keys = keys"

definition memberToSnap :: "MemberState \<Rightarrow> SnapMember" where
  "memberToSnap ms = \<lparr>sm_present = ms_present ms, sm_entry = ms_entry ms, sm_order = ms_order ms,
     sm_frontier = nonEmpty (ms_frontier ms), sm_superseded = nonEmpty (ms_superseded ms)\<rparr>"

definition membersToSnap :: "(string \<times> MemberState) list \<Rightarrow> (string \<times> SnapMember) list option" where
  "membersToSnap ms = (if length ms > 0
     then Some (foldl (\<lambda>acc (m, x). objSet m (memberToSnap x) acc) [] ms) else None)"

definition keyToSnap :: "KeyState \<Rightarrow> EntryId \<Rightarrow> Order \<Rightarrow> SnapKey" where
  "keyToSnap ks winner ord = \<lparr>sk_value = (if ks_scalar ks then ks_value ks else None),
     sk_winner = winner, sk_winnerOrder = ord, sk_owner = ks_owner ks, sk_resetGen = ks_resetGen ks,
     sk_members = membersToSnap (ks_members ks), sk_frontier = ks_frontier ks,
     sk_superseded = nonEmpty (ks_superseded ks)\<rparr>"

definition snapshotOf :: "KeyMap \<Rightarrow> RegisterSnapshotState" where
  "snapshotOf keys = foldl (\<lambda>acc (key, ks). case (ks_winner ks, ks_winnerOrder ks) of
       (Some w, Some ord) \<Rightarrow> objSet key (keyToSnap ks w ord) acc
     | _ \<Rightarrow> acc) [] keys"

section \<open>The state at a cut\<close>

text \<open>A replay from the base floor up to \<open>ord\<close>; the fold's side effects are dropped with its result.\<close>

function stateAtLoop ::
  "RegEnv \<Rightarrow> string \<Rightarrow> nat \<Rightarrow> Order \<Rightarrow> Order option \<Rightarrow> TopicState \<times> FoldSide \<Rightarrow> JsError option \<times> TopicState \<times> FoldSide" where
  "stateAtLoop R topic now ord cursor p =
     (let entries = entriesAfterOrder (fs_db (snd p)) topic cursor REG_PAGE;
          upToCut = takeWhile (\<lambda>e. orderCompare (orderOf e) ord \<le> 0) entries
      in if entries = [] then (None, p)
         else (case foldAll R topic now ReplayMode upToCut p of
                 (Some err, p') \<Rightarrow> (Some err, p')
               | (None, p') \<Rightarrow>
                   if length upToCut < length entries then (None, p')
                   else stateAtLoop R topic now ord (Some (orderOf (last entries))) p'))"
  by pat_completeness auto
termination
proof (relation "measure (\<lambda>(R, topic, now, ord, cursor, p). entriesLeft (fs_db (snd p)) topic cursor)", goal_cases)
  case (2 R topic now ord cursor p entries upToCut x p')
  obtain st sd where p': "p' = (st, sd)" by fastforce
  have "foldAll R topic now ReplayMode upToCut p = (None, st, sd)" using 2 p' by simp
  note fo = foldAll_log [OF this]
  have "last entries \<in> set entries" using 2(3) by simp
  then have "entriesLeft (fs_db (snd p)) topic (Some (orderOf (last entries))) < entriesLeft (fs_db (snd p)) topic cursor"
    unfolding 2(1) by (rule entriesLeft_less)
  moreover have "entriesLeft (fs_db sd) topic c = entriesLeft (fs_db (snd p)) topic c" for c
    using fo by (simp add: entriesLeft_def topicRows_def same_log_def)
  ultimately show ?case using p' by simp
qed simp

declare stateAtLoop.simps [simp del]

section \<open>The hub\<close>

text \<open>A row of the built-in table: value, owner, reset_gen, members present, conflicted.\<close>

record RegRow =
  rr_key :: string
  rr_value :: "jsval option"
  rr_owner :: "string option"
  rr_reset_gen :: nat
  rr_members :: "string list option"
  rr_conflicted :: bool

record ConflictCall =
  cc_topic :: string
  cc_key :: string
  cc_member :: "string option"
  cc_entries :: "LogEntry list"
  cc_winner :: LogEntry
  cc_frontier :: "EntryId list"

record RegisterHub =
  rh_states :: "string \<Rightarrow> TopicState option"
  rh_surfaced :: "string list"
  rh_handled :: "string list"
  rh_verdicts :: "EntryId \<Rightarrow> bool option"
  rh_scheduled :: "string list"
  rh_materializing :: "string list"
  rh_closed :: bool
  rh_regbase :: "string \<Rightarrow> (RegisterSnapshotState \<times> Order) option"   \<comment> \<open>\<open>sq_meta\<close> rows \<open>regbase:\<close>\<close>
  rh_tables :: "string \<Rightarrow> RegRow list option"
  rh_changed :: "string list"
  rh_conflicts :: "ConflictCall list"
  rh_appends :: "AppendItem list"
  rh_emitted :: "Anomaly list"

definition RegisterHub_new :: "(string \<Rightarrow> (RegisterSnapshotState \<times> Order) option) \<Rightarrow> RegisterHub" where
  "RegisterHub_new regbase = \<lparr>rh_states = Map.empty, rh_surfaced = [], rh_handled = [], rh_verdicts = Map.empty,
     rh_scheduled = [], rh_materializing = [], rh_closed = False, rh_regbase = regbase, rh_tables = Map.empty,
     rh_changed = [], rh_conflicts = [], rh_appends = [], rh_emitted = []\<rparr>"

definition freshState :: "RegisterHub \<Rightarrow> string \<Rightarrow> TopicState" where
  "freshState h topic = (case rh_regbase h topic of
     None \<Rightarrow> emptyTopicState
   | Some (snap, ord) \<Rightarrow> emptyTopicState\<lparr>st_base := Some (keysFromSnapshot snap, ord),
        st_keys := keysFromSnapshot snap, st_ord := Some ord\<rparr>)"

definition topicState :: "RegisterHub \<Rightarrow> string \<Rightarrow> TopicState" where
  "topicState h topic = (case rh_states h topic of Some st \<Rightarrow> st | None \<Rightarrow> freshState h topic)"

definition putState :: "string \<Rightarrow> TopicState \<Rightarrow> RegisterHub \<Rightarrow> RegisterHub" where
  "putState topic st h = h\<lparr>rh_states := (rh_states h)(topic \<mapsto> st)\<rparr>"

definition capSet :: "string list \<Rightarrow> string list" where
  "capSet s = drop (length s - DEDUPE_CAP) s"

definition addSet :: "string \<Rightarrow> string list \<Rightarrow> string list" where
  "addSet x s = capSet (if x \<in> set s then s else s @ [x])"

section \<open>The built-in table\<close>

text \<open>Assigning a boolean to \<^verbatim>\<open>__proto__\<close> of the member map does nothing.\<close>

definition presentMembers :: "KeyState \<Rightarrow> string list" where
  "presentMembers ks = map fst (filter (\<lambda>(m, ms). ms_present ms) (ks_members ks))"

definition regRow :: "string \<Rightarrow> KeyState \<Rightarrow> RegRow option" where
  "regRow key ks =
     (let hasScalar = (ks_scalar ks \<and> ks_value ks \<noteq> None);
          hasMembers = (presentMembers ks \<noteq> []);
          conflicted = (length (ks_frontier ks) > 1 \<or>
             list_ex (\<lambda>(m, ms). length (ms_frontier ms) > 1) (ks_members ks))
      in if \<not> hasScalar \<and> \<not> hasMembers \<and> length (ks_requests ks) = 0 then None
         else Some \<lparr>rr_key = key, rr_value = (if hasScalar then ks_value ks else None), rr_owner = ks_owner ks,
            rr_reset_gen = ks_resetGen ks,
            rr_members = (if hasMembers then Some (filter (\<lambda>m. m \<noteq> ''__proto__'') (presentMembers ks)) else None),
            rr_conflicted = conflicted\<rparr>)"

definition rewriteTable :: "string \<Rightarrow> TopicState \<Rightarrow> RegisterHub \<Rightarrow> RegisterHub" where
  "rewriteTable topic st h =
     h\<lparr>rh_tables := (rh_tables h)(topic \<mapsto> List.map_filter (\<lambda>(key, ks). regRow key ks) (st_keys st))\<rparr>"

definition tableRowsSorted :: "RegisterHub \<Rightarrow> string \<Rightarrow> RegRow list option" where
  "tableRowsSorted h topic = map_option (sort_key rr_key) (rh_tables h topic)"

section \<open>Causal stamping\<close>

definition NUL :: string where
  "NUL = [CHR 0x00]"

definition scopeKey :: "RegisterHub \<Rightarrow> string \<Rightarrow> string \<Rightarrow> string option \<Rightarrow> string" where
  "scopeKey h topic key member = (case member of
     Some m \<Rightarrow> let gen = (case map_of (st_keys (topicState h topic)) key of None \<Rightarrow> 0 | Some ks \<Rightarrow> ks_resetGen ks)
       in topic @ NUL @ key @ NUL @ ''m'' @ NUL @ m @ NUL @ nat_str gen
   | None \<Rightarrow> topic @ NUL @ key)"

definition idTail :: "EntryId \<Rightarrow> string \<times> nat" where
  "idTail i = (fst (snd i), snd (snd i))"

definition materializedLastObserved :: "RegisterHub \<Rightarrow> string \<Rightarrow> string \<Rightarrow> string option \<Rightarrow> (string \<times> nat) option" where
  "materializedLastObserved h topic key member =
     (case map_of (st_keys (topicState h topic)) key of
        None \<Rightarrow> None
      | Some ks \<Rightarrow> (case member of
          Some m \<Rightarrow> map_option (\<lambda>ms. idTail (ms_entry ms)) (map_of (ks_members ks) m)
        | None \<Rightarrow> map_option idTail (ks_winner ks)))"

text \<open>The provider runs while the queue processes the append; \<open>h\<close> is the hub at that moment.\<close>

definition causalProvider ::
  "RegEnv \<Rightarrow> RegisterHub \<Rightarrow> string \<Rightarrow> string \<Rightarrow> string option \<Rightarrow> string \<Rightarrow> ScopeTails \<Rightarrow> nat \<Rightarrow>
   (string \<times> nat) option \<times> ScopeTails" where
  "causalProvider R h topic key member scope tails seq =
     ((case tails scope of Some t \<Rightarrow> Some t | None \<Rightarrow> materializedLastObserved h topic key member),
      tails(scope \<mapsto> (selfId (rg_log R), seq)))"

definition writeItem ::
  "RegEnv \<Rightarrow> RegisterHub \<Rightarrow> string \<Rightarrow> string \<Rightarrow> string \<Rightarrow> jsval \<Rightarrow> string option \<Rightarrow> EntryId option \<Rightarrow> AppendItem" where
  "writeItem R h topic key kind payload member ref =
     \<lparr>ai_topic = topic, ai_kind = kind, ai_payload = payload, ai_key = Some key, ai_causal = None,
      ai_provider = Some (causalProvider R h topic key member (scopeKey h topic key member)), ai_ref = ref\<rparr>"

text \<open>The operations of a register handle.\<close>

datatype RegOp =
    OpSet string jsval
  | OpDel string
  | OpAdd string string
  | OpRemove string string
  | OpResolve string "EntryId list" jsval
  | OpResolveMember string string "EntryId list" bool
  | OpChown string string
  | OpTakeover string string
  | OpRequest string jsval

definition ids_js :: "EntryId list \<Rightarrow> jsval" where
  "ids_js is = JArr (map (\<lambda>i. Some (entryId_js i)) is)"

definition regWrite :: "RegEnv \<Rightarrow> RegisterHub \<Rightarrow> string \<Rightarrow> RegOp \<Rightarrow> AppendItem result" where
  "regWrite R h topic x =
     rbind (reg_get (registry (rg_log R)) topic) (\<lambda>te.
     if p_kind (te_policy te) \<noteq> ''register'' then Inl ERR_MISUSE
     else let W = (\<lambda>key kind payload member. Inr (writeItem R h topic key kind payload member None)) in
       (case x of
         OpSet key v \<Rightarrow> W key ''set'' (JObj [(''value'', v)]) None
       | OpDel key \<Rightarrow> W key ''del'' JNull None
       | OpAdd key m \<Rightarrow> W key ''add'' (JObj [(''member'', JStr m)]) (Some m)
       | OpRemove key m \<Rightarrow> W key ''remove'' (JObj [(''member'', JStr m)]) (Some m)
       | OpResolve key ids v \<Rightarrow> W key ''resolve'' (JObj [(''supersedes'', ids_js ids), (''value'', v)]) None
       | OpResolveMember key m ids p \<Rightarrow> W key ''resolve-member''
            (JObj [(''member'', JStr m), (''supersedes'', ids_js ids), (''present'', JBool p)]) (Some m)
       | OpChown key w \<Rightarrow> W key ''chown'' (JObj [(''newOwner'', JStr w)]) None
       | OpTakeover key w \<Rightarrow>
           (case issueTakeover (rg_auth R) of
              None \<Rightarrow> Inl ERR_MISUSE
            | Some issue \<Rightarrow> W key ''chown-takeover''
                (JObj [(''newOwner'', JStr w), (''hostSig'', JStr (issue (topic, key, w)))]) None)
       | OpRequest key v \<Rightarrow> W key ''request'' (JObj [(''value'', v)]) None))"

section \<open>Deferred events\<close>

definition frontierOf :: "KeyState \<Rightarrow> string option \<Rightarrow> EntryId list" where
  "frontierOf ks member = (case member of
     None \<Rightarrow> ks_frontier ks
   | Some m \<Rightarrow> (case map_of (ks_members ks) m of None \<Rightarrow> [] | Some ms \<Rightarrow> ms_frontier ms))"

definition winnerOf :: "KeyState \<Rightarrow> string option \<Rightarrow> EntryId option" where
  "winnerOf ks member = (case member of
     None \<Rightarrow> ks_winner ks
   | Some m \<Rightarrow> map_option ms_entry (map_of (ks_members ks) m))"

definition surfaceConflict ::
  "RegEnv \<Rightarrow> Db \<Rightarrow> string \<Rightarrow> string \<Rightarrow> KeyState \<Rightarrow> string option \<Rightarrow> RegisterHub \<Rightarrow> JsError option \<times> RegisterHub" where
  "surfaceConflict R d topic key ks member h =
     (let frontier = frontierOf ks member in
      if length frontier < 2 then (None, h)
      else case jcs (prims (rg_log R)) (ids_js frontier) of
        Inl err \<Rightarrow> (Some (Thrown err), h)
      | Inr text \<Rightarrow>
         let sig = topic @ NUL @ key @ NUL @ (case member of None \<Rightarrow> [] | Some m \<Rightarrow> m) @ NUL @ text in
         if sig \<in> set (rh_surfaced h) then (None, h)
         else
           let h1 = h\<lparr>rh_surfaced := addSet sig (rh_surfaced h)\<rparr>;
               entries = List.map_filter (\<lambda>i. getEntry d topic (fst (snd i)) (snd (snd i))) frontier
           in (case winnerOf ks member of
                 None \<Rightarrow> (None, h1)
               | Some wn \<Rightarrow>
                  (case getEntry d topic (fst (snd wn)) (snd (snd wn)) of
                     None \<Rightarrow> (None, h1)
                   | Some winner \<Rightarrow>
                       (None, h1\<lparr>rh_conflicts := rh_conflicts h1 @ replicate (rg_conflictCbs R topic)
                          \<lparr>cc_topic = topic, cc_key = key, cc_member = member, cc_entries = entries,
                           cc_winner = winner, cc_frontier = frontier\<rparr>\<rparr>))))"

definition maybeAskOwner ::
  "RegEnv \<Rightarrow> string \<Rightarrow> string \<Rightarrow> KeyState \<Rightarrow> RequestState \<Rightarrow> RegisterHub \<Rightarrow> JsError option \<times> RegisterHub" where
  "maybeAskOwner R topic key ks req h =
     (if ks_owner ks \<noteq> Some (selfId (rg_log R)) then (None, h)
      else case jcs (prims (rg_log R)) (entryId_js (rq_entry req)) of
        Inl err \<Rightarrow> (Some (Thrown err), h)
      | Inr text \<Rightarrow>
         let sig = topic @ NUL @ text in
         if sig \<in> set (rh_handled h) then (None, h)
         else
           let h1 = h\<lparr>rh_handled := addSet sig (rh_handled h)\<rparr>;
               call = \<lparr>or_topic = topic, or_key = key, or_value = rq_value req, or_requester = rq_requester req,
                       or_entry = rq_entry req, or_at = rq_at req\<rparr>
           in (None, if list_ex (\<lambda>cb. cb call) (rg_requestCbs R topic)
                then h1\<lparr>rh_appends := rh_appends h1 @ [writeItem R h1 topic key ''set''
                       (JObj [(''value'', rq_value req)]) None (Some (rq_entry req))]\<rparr>
                else h1))"

definition currentKey :: "RegisterHub \<Rightarrow> string \<Rightarrow> string \<Rightarrow> KeyState option \<Rightarrow> KeyState" where
  "currentKey h topic key bound = (case bound of
     Some ks \<Rightarrow> ks | None \<Rightarrow> keyStateOf (st_keys (topicState h topic)) key)"

definition runEvent ::
  "RegEnv \<Rightarrow> Db \<Rightarrow> string \<Rightarrow> RegEvent \<Rightarrow> RegisterHub \<Rightarrow> JsError option \<times> RegisterHub" where
  "runEvent R d topic ev h = (case ev of
     EvAsk key req bound \<Rightarrow> maybeAskOwner R topic key (currentKey h topic key bound) req h
   | EvConflict key member bound \<Rightarrow> surfaceConflict R d topic key (currentKey h topic key bound) member h)"

fun runEvents ::
  "RegEnv \<Rightarrow> Db \<Rightarrow> string \<Rightarrow> RegEvent list \<Rightarrow> RegisterHub \<Rightarrow> JsError option \<times> RegisterHub" where
  "runEvents R d topic [] h = (None, h)"
| "runEvents R d topic (ev # evs) h = (case runEvent R d topic ev h of
     (None, h') \<Rightarrow> runEvents R d topic evs h' | (Some err, h') \<Rightarrow> (Some err, h'))"

section \<open>Materialization\<close>

definition sideOf :: "RegisterHub \<Rightarrow> LogCore \<Rightarrow> FoldSide" where
  "sideOf h s = \<lparr>fs_db = lc_db s, fs_tails = scopeTails s, fs_verdicts = rh_verdicts h, fs_events = [],
     fs_anomalies = [], fs_surfaced = rh_surfaced h\<rparr>"

definition takeSide :: "FoldSide \<Rightarrow> RegisterHub \<Rightarrow> RegisterHub" where
  "takeSide sd h = h\<lparr>rh_verdicts := fs_verdicts sd, rh_surfaced := fs_surfaced sd,
     rh_emitted := rh_emitted h @ fs_anomalies sd\<rparr>"

definition coreSide :: "FoldSide \<Rightarrow> LogCore \<Rightarrow> LogCore" where
  "coreSide sd s = (withDb (\<lambda>_. fs_db sd) s)\<lparr>scopeTails := fs_tails sd\<rparr>"

definition notifyApplied :: "RegEnv \<Rightarrow> string \<Rightarrow> RegisterHub \<Rightarrow> RegisterHub result" where
  "notifyApplied R topic h =
     (if rh_closed h then Inr h
      else rbind (reg_get (registry (rg_log R)) topic) (\<lambda>te.
        if p_kind (te_policy te) \<noteq> ''register'' then Inr h
        else if topic \<in> set (rh_scheduled h) then Inr h
        else Inr (h\<lparr>rh_scheduled := rh_scheduled h @ [topic]\<rparr>)))"

text \<open>The scheduled timer: forget the schedule, then run the pass.\<close>

definition materialize ::
  "RegEnv \<Rightarrow> nat \<Rightarrow> string \<Rightarrow> RegisterHub \<Rightarrow> LogCore \<Rightarrow> JsError option \<times> RegisterHub \<times> LogCore" where
  "materialize R now topic h s =
     (if rh_closed h then (None, h, s)
      else if topic \<in> set (rh_materializing h) then
        (case notifyApplied R topic h of Inl err \<Rightarrow> (Some (Thrown err), h, s) | Inr h' \<Rightarrow> (None, h', s))
      else
        (case passLoop R topic now (topicState h topic, sideOf h s) of (err, st, sd) \<Rightarrow>
         let h1 = takeSide sd (putState topic st h); s1 = coreSide sd s in
         case err of
           Some x \<Rightarrow> (Some x, h1, s1)
         | None \<Rightarrow>
             (case runEvents R (fs_db sd) topic (fs_events sd) (rewriteTable topic st h1) of
                (Some x, h2) \<Rightarrow> (Some x, h2, s1)
              | (None, h2) \<Rightarrow> (None, h2\<lparr>rh_changed := rh_changed h2 @ [topic]\<rparr>, s1))))"

definition timerFires :: "RegEnv \<Rightarrow> nat \<Rightarrow> string \<Rightarrow> RegisterHub \<Rightarrow> LogCore \<Rightarrow> JsError option \<times> RegisterHub \<times> LogCore" where
  "timerFires R now topic h s = materialize R now topic (h\<lparr>rh_scheduled := removeAll topic (rh_scheduled h)\<rparr>) s"

definition closeHub :: "RegisterHub \<Rightarrow> RegisterHub" where
  "closeHub h = h\<lparr>rh_closed := True, rh_scheduled := []\<rparr>"

section \<open>Reads, snapshots, the base floor\<close>

definition ownerOf :: "RegisterHub \<Rightarrow> string \<Rightarrow> string \<Rightarrow> string option" where
  "ownerOf h topic key = (case map_of (st_keys (topicState h topic)) key of None \<Rightarrow> None | Some ks \<Rightarrow> ks_owner ks)"

definition hintMember :: "((string \<times> nat) \<times> Order) option \<Rightarrow> MemberState \<Rightarrow> ((string \<times> nat) \<times> Order) option" where
  "hintMember best ms = (case best of
     Some (_, bo) \<Rightarrow> if orderCompare (ms_order ms) bo \<le> 0 then best else Some (idTail (ms_entry ms), ms_order ms)
   | None \<Rightarrow> Some (idTail (ms_entry ms), ms_order ms))"

definition hintOf :: "KeyState \<Rightarrow> (string \<times> nat) option" where
  "hintOf ks = map_option fst (foldl (\<lambda>b (m, ms). hintMember b ms)
     (case (ks_winner ks, ks_winnerOrder ks) of (Some w, Some o') \<Rightarrow> Some (idTail w, o') | _ \<Rightarrow> None)
     (ks_members ks))"

definition hintsFor :: "RegisterHub \<Rightarrow> string \<Rightarrow> (string \<times> string \<times> nat) list" where
  "hintsFor h topic = foldl (\<lambda>out (key, ks). case hintOf ks of None \<Rightarrow> out | Some b \<Rightarrow> objSet key b out)
     [] (st_keys (topicState h topic))"

definition pendingRequests :: "RegEnv \<Rightarrow> nat \<Rightarrow> string \<Rightarrow> RegisterHub \<Rightarrow> OwnedRequest list" where
  "pendingRequests R now topic h =
     concat (map (\<lambda>(key, ks).
       map (\<lambda>r. \<lparr>or_topic = topic, or_key = key, or_value = rq_value r, or_requester = rq_requester r,
                 or_entry = rq_entry r, or_at = rq_at r\<rparr>)
         (filter (\<lambda>r. rq_approvedBy r = None \<and>
            \<not> int (hlc_l (rq_at r)) < int now - int (REQUEST_TTL_MS (constants (rg_log R)))) (ks_requests ks)))
       (st_keys (topicState h topic)))"

definition snapshotState :: "RegisterHub \<Rightarrow> string \<Rightarrow> RegisterSnapshotState" where
  "snapshotState h topic = snapshotOf (st_keys (topicState h topic))"

text \<open>A verdict cached during a replay stays cached.\<close>

definition stateAt ::
  "RegEnv \<Rightarrow> nat \<Rightarrow> string \<Rightarrow> Order \<Rightarrow> RegisterHub \<Rightarrow> LogCore \<Rightarrow> (JsError + RegisterSnapshotState) \<times> RegisterHub" where
  "stateAt R now topic ord h s =
     (let live = topicState h topic;
          start = (case st_base live of
             Some (keys, bo) \<Rightarrow> if orderCompare bo ord \<le> 0
               then (emptyTopicState\<lparr>st_keys := cloneKeys keys, st_ord := Some bo\<rparr>, Some bo)
               else (emptyTopicState, None)
           | None \<Rightarrow> (emptyTopicState, None))
      in case stateAtLoop R topic now ord (snd start) (fst start, sideOf h s) of
           (err, st, sd) \<Rightarrow>
             ((case err of Some x \<Rightarrow> Inl x | None \<Rightarrow> Inr (snapshotOf (st_keys st))),
              h\<lparr>rh_verdicts := fs_verdicts sd\<rparr>))"

definition installSnapshot :: "string \<Rightarrow> RegisterSnapshotState \<Rightarrow> Order \<Rightarrow> Db \<Rightarrow> RegisterHub \<Rightarrow> RegisterHub" where
  "installSnapshot topic snap ord d h =
     (let st = (topicState h topic)\<lparr>st_keys := keysFromSnapshot snap, st_ord := Some ord,
                 st_lastRowid := maxRowid d topic, st_base := Some (keysFromSnapshot snap, ord)\<rparr>
      in rewriteTable topic st ((putState topic st h)\<lparr>rh_regbase := (rh_regbase h)(topic \<mapsto> (snap, ord))\<rparr>))"

definition rebaseAtCut ::
  "RegEnv \<Rightarrow> nat \<Rightarrow> string \<Rightarrow> Order \<Rightarrow> RegisterHub \<Rightarrow> LogCore \<Rightarrow> JsError option \<times> RegisterHub" where
  "rebaseAtCut R now topic ord h s =
     (case reg_get (registry (rg_log R)) topic of
        Inl err \<Rightarrow> (Some (Thrown err), h)
      | Inr te \<Rightarrow>
          if p_kind (te_policy te) \<noteq> ''register'' then (None, h)
          else (case stateAt R now topic ord h s of
                  (Inl x, h') \<Rightarrow> (Some x, h')
                | (Inr snap, h') \<Rightarrow>
                    let st = (topicState h' topic)\<lparr>st_base := Some (keysFromSnapshot snap, ord)\<rparr> in
                    (None, (putState topic st h')\<lparr>rh_regbase := (rh_regbase h')(topic \<mapsto> (snap, ord))\<rparr>)))"

end
