(* ===== verification/Register_Fold.thy ===== *)
theory Register_Fold
  imports Register_Hub
begin

text \<open>
  What the register fold computes: which parts of its surroundings it reads, the total order its
  passes follow, and the proof that a state kept up to date incrementally is the fold of the held
  entries in total order, whatever the order in which the rows arrived.
\<close>

section \<open>What one step of the fold reads\<close>

text \<open>The verdict of the host on a takeover entry.\<close>

definition verdictOf :: "RegEnv \<Rightarrow> LogEntry \<Rightarrow> bool" where
  "verdictOf R e = (case verifyTakeover (rg_auth R) of None \<Rightarrow> False | Some f \<Rightarrow> f e)"

definition verdictNow :: "RegEnv \<Rightarrow> FoldSide \<Rightarrow> LogEntry \<Rightarrow> bool" where
  "verdictNow R sd e = (case fs_verdicts sd (entryId e) of Some v \<Rightarrow> v | None \<Rightarrow> verdictOf R e)"

definition sides_agree :: "RegEnv \<Rightarrow> string \<Rightarrow> LogEntry \<Rightarrow> FoldSide \<Rightarrow> FoldSide \<Rightarrow> bool" where
  "sides_agree R t e sd sd' \<longleftrightarrow>
     (\<forall>a. isAncestor (fs_db sd) t a e = isAncestor (fs_db sd') t a e) \<and> verdictNow R sd e = verdictNow R sd' e"

lemma isAncestor_cong:
  assumes "same_log d d'"
  shows "isAncestor d' t a e = isAncestor d t a e"
proof -
  have "getEntry d' = getEntry d" using assms by (simp add: getEntry_def same_log_def fun_eq_iff)
  then have "ancestorWalk n d' t a c = ancestorWalk n d t a c" for n c
    by (induction n d t a c rule: ancestorWalk.induct) (auto split: option.splits)
  then show ?thesis by (simp add: isAncestor_def)
qed

lemma isAncestor_violation [simp]:
  "isAncestor (fs_db (violation now x sd)) t a e = isAncestor (fs_db sd) t a e"
  by (rule isAncestor_cong) simp

lemma keyWrite_reads:
  "(\<And>a. isAncestor (fs_db sd) t a e = isAncestor (fs_db sd') t a e) \<Longrightarrow>
   fst (foldKeyWrite t k ks e i p v sd) = fst (foldKeyWrite t k ks e i p v sd')"
  by (simp add: foldKeyWrite_def Let_def cong: option.case_cong)

lemma memberOp_reads:
  "(\<And>a. isAncestor (fs_db sd) t a e = isAncestor (fs_db sd') t a e) \<Longrightarrow>
   fst (foldMemberOp t k ks e i p m b sd) = fst (foldMemberOp t k ks e i p m b sd')"
  by (simp add: foldMemberOp_def foldMember_def Let_def split: option.split)

lemma owned_reads:
  "fst (ownedWriteAllowed now mode ks e sd) = fst (ownedWriteAllowed now' mode' ks e sd')"
  "isAncestor (fs_db (snd (ownedWriteAllowed now mode ks e sd))) t a x = isAncestor (fs_db sd) t a x"
  by (simp_all add: ownedWriteAllowed_def)

lemma verdict_reads:
  "fst (verifyTakeoverOf R e sd) = verdictNow R sd e"
  by (simp add: verifyTakeoverOf_def verdictNow_def verdictOf_def Let_def split: option.split)

definition resKey :: "FoldRes \<Rightarrow> JsError option \<times> KeyState" where
  "resKey r = (fst r, fst (snd r))"

lemma resKey_simps [simp]: "resKey (err, ks, sd) = (err, ks)"
  by (simp add: resKey_def)

lemma setDel_reads:
  assumes "\<And>a. isAncestor (fs_db sd) t a e = isAncestor (fs_db sd') t a e"
  shows "resKey (foldSetDel t now mode pol e k ks sd) = resKey (foldSetDel t now' mode' pol e k ks sd')"
proof -
  define r where "r = (if pol = PName ''owned'' then ownedWriteAllowed now mode ks e sd else (True, sd))"
  define r' where "r' = (if pol = PName ''owned'' then ownedWriteAllowed now' mode' ks e sd' else (True, sd'))"
  have ok: "fst r = fst r'" using owned_reads(1) by (auto simp: r_def r'_def)
  have anc: "isAncestor (fs_db (snd r)) t a e = isAncestor (fs_db (snd r')) t a e" for a
    using assms by (auto simp: r_def r'_def owned_reads(2))
  show ?thesis
    unfolding foldSetDel_def r_def [symmetric] r'_def [symmetric] Let_def
    using ok by (simp add: resKey_def split_beta keyWrite_reads [OF anc] split: option.split)
qed

lemma addRemove_reads:
  assumes "\<And>a. isAncestor (fs_db sd) t a e = isAncestor (fs_db sd') t a e"
  shows "resKey (foldAddRemove R t now mode pol e k ks sd) = resKey (foldAddRemove R t now' mode' pol e k ks sd')"
proof -
  define r where "r = (if pol = PName ''owned'' then ownedWriteAllowed now mode ks e sd else (True, sd))"
  define r' where "r' = (if pol = PName ''owned'' then ownedWriteAllowed now' mode' ks e sd' else (True, sd'))"
  have ok: "fst r = fst r'" using owned_reads(1) by (auto simp: r_def r'_def)
  have anc: "isAncestor (fs_db (snd r)) t a e = isAncestor (fs_db (snd r')) t a e" for a
    using assms by (auto simp: r_def r'_def owned_reads(2))
  show ?thesis
    unfolding foldAddRemove_def r_def [symmetric] r'_def [symmetric] Let_def
    using ok by (simp add: resKey_def split_beta memberOp_reads [OF anc] split: sum.split)
qed

lemma resolveMember_reads:
  assumes "\<And>a. isAncestor (fs_db sd) t a e = isAncestor (fs_db sd') t a e"
  shows "resKey (foldResolveMember R t pol e k ks sd) = resKey (foldResolveMember R t pol e k ks sd')"
  unfolding foldResolveMember_def
  by (simp add: resKey_def split_beta memberOp_reads [OF assms] split: sum.split option.split)

lemma resolve_reads:
  assumes "\<And>a. isAncestor (fs_db sd) t a e = isAncestor (fs_db sd') t a e"
  shows "resKey (foldResolve t pol e k ks sd) = resKey (foldResolve t pol e k ks sd')"
  unfolding foldResolve_def
  by (simp add: resKey_def split_beta Let_def keyWrite_reads [OF assms] split: option.split)

lemma foldOp_reads:
  assumes "sides_agree R t e sd sd'"
  shows "resKey (foldOp R t now mode pol e k ks sd) = resKey (foldOp R t now' mode' pol e k ks sd')"
proof -
  have anc: "isAncestor (fs_db sd) t a e = isAncestor (fs_db sd') t a e" for a
    using assms unfolding sides_agree_def by blast
  have ver: "fst (verifyTakeoverOf R e sd) = fst (verifyTakeoverOf R e sd')"
    using assms by (simp add: sides_agree_def verdict_reads)
  show ?thesis
    unfolding foldOp_def
    using setDel_reads [OF anc, where now = now and now' = now' and mode = mode and mode' = mode']
      addRemove_reads [OF anc, where now = now and now' = now' and mode = mode and mode' = mode']
      resolve_reads [OF anc] resolveMember_reads [OF anc] ver
    by (auto simp: foldRequest_def foldChown_def foldTakeover_def setOwner_def Let_def resKey_def split_beta
        split: sum.split)
qed

definition resState :: "JsError option \<times> TopicState \<times> FoldSide \<Rightarrow> JsError option \<times> TopicState" where
  "resState r = (fst r, fst (snd r))"

text \<open>The part of a step after the tails are dropped.\<close>

definition foldEntryAt ::
  "RegEnv \<Rightarrow> string \<Rightarrow> nat \<Rightarrow> FoldMode \<Rightarrow> LogEntry \<Rightarrow> TopicState \<Rightarrow> FoldSide \<Rightarrow> JsError option \<times> TopicState \<times> FoldSide" where
  "foldEntryAt R topic now mode e st sd1 =
     (let st1 = st\<lparr>st_ord := Some (orderOf e)\<rparr> in
      case e_key e of
        None \<Rightarrow> (None, st1, sd1)
      | Some key \<Rightarrow>
          let ks = keyStateOf (st_keys st1) key;
              st2 = st1\<lparr>st_keys := AList.update key ks (st_keys st1)\<rparr>
          in case reg_get (registry (rg_log R)) topic of
               Inl err \<Rightarrow> (Some (Thrown err), st2, sd1)
             | Inr te \<Rightarrow>
                 (case foldOp R topic now mode (conflictPolicyFor (te_policy te) key) e key ks sd1 of
                    (err, ks', sd2) \<Rightarrow> (err, st2\<lparr>st_keys := AList.update key ks' (st_keys st2)\<rparr>, sd2)))"

lemma foldEntry_reads:
  assumes "sides_agree R t e sd sd'"
  shows "resState (foldEntry R t now mode e (st, sd)) = resState (foldEntry R t now' mode' e (st, sd'))"
proof -
  define s where "s = (if mode = LiveMode \<and> e_writer e = selfId (rg_log R)
     then sd\<lparr>fs_tails := dropTails (selfId (rg_log R)) t e (fs_tails sd)\<rparr> else sd)"
  define s' where "s' = (if mode' = LiveMode \<and> e_writer e = selfId (rg_log R)
     then sd'\<lparr>fs_tails := dropTails (selfId (rg_log R)) t e (fs_tails sd')\<rparr> else sd')"
  have "sides_agree R t e s s'"
    using assms unfolding sides_agree_def by (simp add: s_def s'_def verdictNow_def del: split_paired_All)
  note eq = foldOp_reads [OF this, where now = now and now' = now' and mode = mode and mode' = mode', unfolded resKey_def prod.inject]
  have f: "foldEntry R t now mode e (st, sd) = foldEntryAt R t now mode e st s"
    "foldEntry R t now' mode' e (st, sd') = foldEntryAt R t now' mode' e st s'"
    by (simp_all add: foldEntry_def foldEntryAt_def s_def s'_def Let_def cong: if_cong)
  show ?thesis
    unfolding f
    by (simp add: foldEntryAt_def resState_def split_beta eq [THEN conjunct1] eq [THEN conjunct2] Let_def
        split: option.split sum.split)
qed

section \<open>What the fold leaves behind\<close>

text \<open>Cached verdicts are the host's.\<close>

definition verdicts_ok :: "RegEnv \<Rightarrow> LogEntry set \<Rightarrow> FoldSide \<Rightarrow> bool" where
  "verdicts_ok R X sd \<longleftrightarrow> (\<forall>e \<in> X. \<forall>v. fs_verdicts sd (entryId e) = Some v \<longrightarrow> v = verdictOf R e)"

lemma verdicts_now: "verdicts_ok R X sd \<Longrightarrow> e \<in> X \<Longrightarrow> verdictNow R sd e = verdictOf R e"
  by (auto simp: verdicts_ok_def verdictNow_def split: option.split)

lemma verdicts_pure:
  "fs_verdicts (pushEvent ev sd) = fs_verdicts sd"
  "fs_verdicts (violation now e sd) = fs_verdicts sd"
  "fs_verdicts (takeoverInvalid e sd) = fs_verdicts sd"
  "foldKeyWrite t k ks e i p v sd = (ks', sd') \<Longrightarrow> fs_verdicts sd' = fs_verdicts sd"
  "foldMemberOp t k ks e i p m b sd = (ks', sd') \<Longrightarrow> fs_verdicts sd' = fs_verdicts sd"
  "ownedWriteAllowed now mode ks e sd = (ok, sd') \<Longrightarrow> fs_verdicts sd' = fs_verdicts sd"
  by (auto simp: pushEvent_def violation_def takeoverInvalid_def foldKeyWrite_def foldMemberOp_def
      ownedWriteAllowed_def Let_def split: option.splits if_splits)

lemma foldOp_verdicts:
  "foldOp R t now mode pol e k ks sd = (err, ks', sd') \<Longrightarrow>
   fs_verdicts sd' = fs_verdicts sd \<or> fs_verdicts sd' = (fs_verdicts sd)(entryId e \<mapsto> verdictNow R sd e)"
  unfolding foldOp_def
  by (auto simp: foldRequest_def foldChown_def foldTakeover_def setOwner_def foldSetDel_def foldResolve_def
      foldAddRemove_def foldResolveMember_def Let_def verifyTakeoverOf_def verdictNow_def verdictOf_def verdicts_pure(1-3)
      dest!: verdicts_pure(4-6) split: if_splits prod.splits option.splits sum.splits)

lemma foldEntry_verdicts:
  assumes "foldEntry R t now mode e (st, sd) = (err, st', sd')" "verdicts_ok R X sd" "inj_on entryId X" "e \<in> X"
  shows "verdicts_ok R X sd'"
proof -
  have "fs_verdicts sd' = fs_verdicts sd \<or> fs_verdicts sd' = (fs_verdicts sd)(entryId e \<mapsto> verdictNow R sd e)"
    using assms(1) foldOp_verdicts
    by (fastforce simp: foldEntry_def Let_def verdictNow_def split: prod.splits option.splits sum.splits if_splits)
  then show ?thesis
  proof
    assume eq: "fs_verdicts sd' = (fs_verdicts sd)(entryId e \<mapsto> verdictNow R sd e)"
    have "v = verdictOf R x" if x: "x \<in> X" "fs_verdicts sd' (entryId x) = Some v" for x v
    proof (cases "entryId x = entryId e")
      case True
      then have "x = e" using assms(3,4) x(1) by (blast dest: inj_onD)
      then show ?thesis using x(2) eq verdicts_now [OF assms(2,4)] by simp
    next
      case False
      then show ?thesis using x eq assms(2) unfolding verdicts_ok_def by simp
    qed
    then show ?thesis unfolding verdicts_ok_def by blast
  qed (use assms(2) in \<open>simp add: verdicts_ok_def\<close>)
qed

text \<open>Two runs over the same entries whose surroundings agree end in the same state.\<close>

lemma foldAll_reads:
  assumes "inj_on entryId X" "set es \<subseteq> X" "verdicts_ok R X sd" "verdicts_ok R X sd'"
    and "\<And>e a. e \<in> set es \<Longrightarrow> isAncestor (fs_db sd) t a e = isAncestor (fs_db sd') t a e"
  shows "resState (foldAll R t now mode es (st, sd)) = resState (foldAll R t now' mode' es (st, sd'))"
  using assms(2-5)
proof (induction es arbitrary: st sd sd')
  case (Cons e es)
  have e: "e \<in> X" using Cons.prems by simp
  have "sides_agree R t e sd sd'"
    using Cons.prems verdicts_now [OF _ e] by (simp add: sides_agree_def)
  note eq = foldEntry_reads [OF this, of now mode st now' mode']
  obtain err st1 sd1 where f: "foldEntry R t now mode e (st, sd) = (err, st1, sd1)" by (metis prod_cases3)
  obtain sd1' where f': "foldEntry R t now' mode' e (st, sd') = (err, st1, sd1')"
    using eq f by (metis fst_conv snd_conv resState_def prod_cases3)
  have "same_log (fs_db sd) (fs_db sd1)" "same_log (fs_db sd') (fs_db sd1')"
    using foldEntry_log [OF f] foldEntry_log [OF f'] by simp_all
  then have anc: "isAncestor (fs_db sd1) t a x = isAncestor (fs_db sd1') t a x" if "x \<in> set es" for a x
    using Cons.prems(4) that isAncestor_cong by (metis list.set_intros(2))
  have "verdicts_ok R X sd1" "verdicts_ok R X sd1'"
    using foldEntry_verdicts [OF f _ assms(1) e] foldEntry_verdicts [OF f' _ assms(1) e] Cons.prems by blast+
  then show ?case
    using Cons.IH [of sd1 sd1' st1] anc Cons.prems(1) by (cases err) (auto simp: f f' resState_def)
qed (simp add: resState_def)

lemma foldAll_verdicts:
  "foldAll R t now mode es (st, sd) = (err, st', sd') \<Longrightarrow> verdicts_ok R X sd \<Longrightarrow> inj_on entryId X \<Longrightarrow>
   set es \<subseteq> X \<Longrightarrow> verdicts_ok R X sd'"
proof (induction es arbitrary: st sd)
  case (Cons e es)
  obtain err1 st1 sd1 where f: "foldEntry R t now mode e (st, sd) = (err1, st1, sd1)" by (metis prod_cases3)
  have "verdicts_ok R X sd1" using foldEntry_verdicts [OF f] Cons.prems by simp
  then show ?case using Cons by (cases err1) (auto simp: f)
qed simp

section \<open>The entries of a topic in total order\<close>

definition topicEntries :: "Db \<Rightarrow> string \<Rightarrow> LogEntry list" where
  "topicEntries d t = map snd (topicRows d t)"

definition sortedEntries :: "Db \<Rightarrow> string \<Rightarrow> Order option \<Rightarrow> LogEntry list" where
  "sortedEntries d t cursor = sort_by entryCompare (filter (afterCursor cursor) (topicEntries d t))"

abbreviation in_order :: "LogEntry list \<Rightarrow> bool" where
  "in_order \<equiv> sorted_wrt (\<lambda>a b. orderCompare (orderOf a) (orderOf b) < 0)"

lemma entryCompare_eq: "entryCompare = (\<lambda>a b. orderCompare (orderOf a) (orderOf b))"
  by (simp add: entryCompare_def fun_eq_iff)

lemma entriesAfterOrder_page: "entriesAfterOrder d t cursor n = take n (sortedEntries d t cursor)"
proof -
  have "afterCursor cursor = (\<lambda>e. case cursor of None \<Rightarrow> True | Some a \<Rightarrow> sqlAfter a e)"
    by (simp add: fun_eq_iff afterCursor_def)
  then show ?thesis by (simp add: entriesAfterOrder_def sortedEntries_def topicEntries_def)
qed

lemma topicEntries_distinct:
  assumes "log_table_ok d"
  shows "distinct (topicEntries d t)" "inj_on orderOf (set (topicEntries d t))" "inj_on entryId (set (topicEntries d t))"
    "e \<in> set (topicEntries d t) \<Longrightarrow> e_topic e = t"
proof -
  have "distinct (map (\<lambda>r. entryKey (snd r)) (topicRows d t))"
    unfolding topicRows_def using assms by (simp add: log_table_ok_def distinct_map_filter)
  then have k: "distinct (map entryKey (topicEntries d t))" by (simp add: topicEntries_def o_def)
  then show "distinct (topicEntries d t)" by (simp add: distinct_map)
  show top: "e_topic e = t" if "e \<in> set (topicEntries d t)" for e
    using that by (auto simp: topicEntries_def topicRows_def inTopic_def)
  have inj: "inj_on entryKey (set (topicEntries d t))" using k by (simp add: distinct_map)
  show "inj_on orderOf (set (topicEntries d t))"
    using inj top by (auto simp: inj_on_def orderOf_def entryKey_def)
  show "inj_on entryId (set (topicEntries d t))"
    using inj by (simp add: inj_on_def entryId_def entryKey_def)
qed

lemma sortedEntries_set:
  "set (sortedEntries d t cursor) = {e \<in> set (topicEntries d t). afterCursor cursor e}"
  by (auto simp: sortedEntries_def)

lemma sort_in_order:
  assumes "log_table_ok d" "distinct xs" "set xs \<subseteq> set (topicEntries d t)"
  shows "in_order (sort_by entryCompare xs)"
  unfolding entryCompare_eq
  using assms topicEntries_distinct(2) [OF assms(1)] by (intro entOrd.sort_by_strict) (auto intro: inj_on_subset)

lemma sortedEntries_in_order: "log_table_ok d \<Longrightarrow> in_order (sortedEntries d t cursor)"
  unfolding sortedEntries_def by (rule sort_in_order) (auto simp: topicEntries_distinct)

lemmas in_order_unique = entOrd.strict_sorted_unique [where f = orderOf]

lemma sortedEntries_next:
  assumes "log_table_ok d" "sortedEntries d t cursor = xs @ ys" "xs \<noteq> []"
  shows "sortedEntries d t (Some (orderOf (last xs))) = ys"
proof (rule in_order_unique)
  have io: "in_order (xs @ ys)" using sortedEntries_in_order [OF assms(1), of t cursor] assms(2) by simp
  show "in_order (sortedEntries d t (Some (orderOf (last xs))))" by (rule sortedEntries_in_order [OF assms(1)])
  show "in_order ys" using io by (simp add: sorted_wrt_append)
  have xs: "xs = butlast xs @ [last xs]" using assms(3) by simp
  have lt: "orderCompare (orderOf (last xs)) (orderOf y) < 0" if "y \<in> set ys" for y
    using io that assms(3) by (simp add: sorted_wrt_append)
  have ge: "\<not> orderCompare (orderOf (last xs)) (orderOf x) < 0" if "x \<in> set xs" for x
  proof (cases "x = last xs")
    case False
    then have "x \<in> set (butlast xs)" using that xs by (metis in_set_butlastD set_ConsD rotate1.simps(2) set_rotate1)
    then have "orderCompare (orderOf x) (orderOf (last xs)) < 0"
      using io xs by (metis last_in_set assms(3) sorted_wrt_append append.assoc list.set_intros(1) append_Cons)
    then show ?thesis using entOrd.cmp_flip by (metis less_asym)
  qed (simp add: entOrd.cmp_refl)
  have all: "set (xs @ ys) = {e \<in> set (topicEntries d t). afterCursor cursor e}"
    using assms(2) sortedEntries_set by metis
  have cur: "afterCursor cursor e" if "orderCompare (orderOf (last xs)) (orderOf e) < 0" for e
  proof -
    have "afterCursor cursor (last xs)" using all assms(3) by (metis (mono_tags, lifting) UnI1 last_in_set mem_Collect_eq set_append)
    then show ?thesis using that entOrd.cmp_trans by (auto simp: afterCursor_def sqlAfter_iff split: option.splits)
  qed
  show "set (sortedEntries d t (Some (orderOf (last xs)))) = set ys"
    using all lt ge cur by (auto simp: sortedEntries_set afterCursor_def sqlAfter_iff)
qed

text \<open>The refold, page by page, is the fold of all entries after the cursor in total order.\<close>

lemma sortedEntries_cong: "same_log d d' \<Longrightarrow> sortedEntries d' t c = sortedEntries d t c"
  by (simp add: sortedEntries_def topicEntries_def topicRows_def same_log_def)

lemma log_table_same: "same_log d d' \<Longrightarrow> log_table_ok d' = log_table_ok d"
  by (simp add: log_table_ok_def same_log_def)

lemma refoldLoop_is_fold:
  "log_table_ok (fs_db (snd p)) \<Longrightarrow>
   refoldLoop R t now cursor p = foldAll R t now LiveMode (sortedEntries (fs_db (snd p)) t cursor) p"
proof (induction R t now cursor p rule: refoldLoop.induct)
  case (1 R t now cursor p)
  let ?all = "sortedEntries (fs_db (snd p)) t cursor"
  let ?batch = "take REG_PAGE ?all"
  have page: "entriesAfterOrder (fs_db (snd p)) t cursor REG_PAGE = ?batch" by (rule entriesAfterOrder_page)
  show ?case
  proof (cases "?batch = []")
    case True
    then have "?all = []" by (simp add: REG_PAGE_def)
    then show ?thesis by (simp add: refoldLoop.simps [of R t now cursor p] page)
  next
    case False
    obtain err st sd where f: "foldAll R t now LiveMode ?batch p = (err, st, sd)" by (metis prod_cases3)
    have log: "same_log (fs_db (snd p)) (fs_db sd)" using foldAll_log [OF f] .
    have split: "?all = ?batch @ drop REG_PAGE ?all" by simp
    have fold: "foldAll R t now LiveMode ?all p = (case (err, st, sd) of
        (None, p') \<Rightarrow> foldAll R t now LiveMode (drop REG_PAGE ?all) p' | (Some x, p') \<Rightarrow> (Some x, p'))"
      by (subst split) (simp only: foldAll_append f)
    show ?thesis
    proof (cases err)
      case None
      have "st_ord st = Some (orderOf (last ?batch))" using foldAll_ord [OF f] None False by simp
      then have "sortedEntries (fs_db sd) t (st_ord st) = drop REG_PAGE ?all"
        using sortedEntries_next [OF 1(2) split False] sortedEntries_cong [OF log] by simp
      moreover have "refoldLoop R t now (st_ord st) (st, sd) =
          foldAll R t now LiveMode (sortedEntries (fs_db sd) t (st_ord st)) (st, sd)"
        using 1(1) [OF page [symmetric] False f [unfolded None, symmetric]] 1(2) log_table_same [OF log] by simp
      ultimately show ?thesis
        using False fold None by (simp add: refoldLoop.simps [of R t now cursor p] page f Let_def)
    next
      case (Some x)
      then show ?thesis
        using False fold by (simp add: refoldLoop.simps [of R t now cursor p] page f Let_def)
    qed
  qed
qed

section \<open>The reference state\<close>

definition pureSide :: "Db \<Rightarrow> FoldSide" where
  "pureSide d = \<lparr>fs_db = d, fs_tails = Map.empty, fs_verdicts = Map.empty, fs_events = [],
     fs_anomalies = [], fs_surfaced = []\<rparr>"

definition baseOrd :: "TopicState \<Rightarrow> Order option" where
  "baseOrd st = map_option snd (st_base st)"

definition refStart :: "(KeyMap \<times> Order) option \<Rightarrow> TopicState" where
  "refStart base = clearedState (emptyTopicState\<lparr>st_base := base\<rparr>)"

text \<open>The fold of a list of entries from a base floor, with no side effects.\<close>

definition regRef ::
  "RegEnv \<Rightarrow> string \<Rightarrow> Db \<Rightarrow> (KeyMap \<times> Order) option \<Rightarrow> LogEntry list \<Rightarrow> JsError option \<times> TopicState" where
  "regRef R t d base es = resState (foldAll R t 0 ReplayMode es (refStart base, pureSide d))"

definition noRowid :: "TopicState \<Rightarrow> TopicState" where
  "noRowid st = st\<lparr>st_lastRowid := 0\<rparr>"

lemma noRowid_fields [simp]:
  "st_keys (noRowid st) = st_keys st" "st_ord (noRowid st) = st_ord st" "st_base (noRowid st) = st_base st"
  "noRowid (st\<lparr>st_lastRowid := n\<rparr>) = noRowid st" "noRowid (noRowid st) = noRowid st"
  by (simp_all add: noRowid_def)

lemma foldEntry_noRowid:
  "foldEntry R t now mode e (noRowid st, sd) =
     (case foldEntry R t now mode e (st, sd) of (err, st', sd') \<Rightarrow> (err, noRowid st', sd'))"
  by (simp add: foldEntry_def noRowid_def Let_def split: option.split sum.split prod.split)

lemma foldAll_noRowid:
  "foldAll R t now mode es (noRowid st, sd) =
     (case foldAll R t now mode es (st, sd) of (err, st', sd') \<Rightarrow> (err, noRowid st', sd'))"
proof (induction es arbitrary: st sd)
  case (Cons e es)
  obtain err st1 sd1 where "foldEntry R t now mode e (st, sd) = (err, st1, sd1)" by (metis prod_cases3)
  then show ?case using Cons.IH by (cases err) (simp_all add: foldEntry_noRowid)
qed simp

lemma cleared_noRowid: "noRowid (clearedState st) = refStart (st_base st)"
  by (simp add: noRowid_def clearedState_def refStart_def emptyTopicState_def split: option.split prod.split)

lemma refStart_ord: "st_ord (refStart base) = map_option snd base" "st_base (refStart base) = base"
    "noRowid (refStart base) = refStart base"
  by (simp_all add: refStart_def clearedState_def emptyTopicState_def noRowid_def split: option.split prod.split)

text \<open>A live run over entries of the topic continues the reference run.\<close>

definition topic_sided :: "RegEnv \<Rightarrow> string \<Rightarrow> FoldSide \<Rightarrow> bool" where
  "topic_sided R t sd \<longleftrightarrow> log_table_ok (fs_db sd) \<and> verdicts_ok R (set (topicEntries (fs_db sd) t)) sd"

lemma topicEntries_cong: "same_log d d' \<Longrightarrow> topicEntries d' t = topicEntries d t"
  by (simp add: topicEntries_def topicRows_def same_log_def)

lemma sided_pure: "log_table_ok d \<Longrightarrow> topic_sided R t (pureSide d)"
  by (simp add: topic_sided_def pureSide_def verdicts_ok_def)

lemma sided_fold:
  assumes "foldAll R t now mode es p = (err, st', sd')" "topic_sided R t (snd p)"
    "set es \<subseteq> set (topicEntries (fs_db (snd p)) t)"
  shows "topic_sided R t sd'"
proof -
  obtain st sd where p: "p = (st, sd)" by fastforce
  have log: "same_log (fs_db sd) (fs_db sd')" using foldAll_log [OF assms(1)] p by simp
  have "verdicts_ok R (set (topicEntries (fs_db sd) t)) sd'"
    using foldAll_verdicts [OF assms(1) [unfolded p]] assms(2,3) topicEntries_distinct(3)
    unfolding p topic_sided_def by simp
  then show ?thesis
    using assms(2) log unfolding topic_sided_def p by (simp add: topicEntries_cong log_table_same)
qed

lemma same_fold:
  assumes "topic_sided R t sd" "topic_sided R t sd'" "same_log (fs_db sd) (fs_db sd')"
    "set es \<subseteq> set (topicEntries (fs_db sd) t)"
  shows "resState (foldAll R t now mode es (st, sd)) = resState (foldAll R t now' mode' es (st, sd'))"
proof (rule foldAll_reads [of "set (topicEntries (fs_db sd) t)"])
  show "inj_on entryId (set (topicEntries (fs_db sd) t))"
    using assms(1) topicEntries_distinct(3) by (simp add: topic_sided_def)
  show "verdicts_ok R (set (topicEntries (fs_db sd) t)) sd" using assms(1) by (simp add: topic_sided_def)
  show "verdicts_ok R (set (topicEntries (fs_db sd) t)) sd'"
    using assms(2,3) by (simp add: topic_sided_def topicEntries_cong)
  show "isAncestor (fs_db sd) t a e = isAncestor (fs_db sd') t a e" for a e
    using isAncestor_cong [OF assms(3)] by simp
qed (use assms(4) in simp)

lemma regRef_cong:
  assumes "log_table_ok d" "same_log d d'" "set es \<subseteq> set (topicEntries d t)"
  shows "regRef R t d' base es = regRef R t d base es"
proof -
  have db: "fs_db (pureSide x) = x" for x by (simp add: pureSide_def)
  have "topic_sided R t (pureSide d)" "topic_sided R t (pureSide d')"
    using assms(1,2) by (simp_all add: sided_pure log_table_same)
  from same_fold [OF this, of es 0 ReplayMode "refStart base" 0 ReplayMode] show ?thesis
    using assms(2,3) by (simp add: regRef_def db)
qed

lemma regRef_extend:
  assumes ref: "regRef R t (fs_db sd) (st_base st) es = (None, noRowid st)"
    and sided: "topic_sided R t sd" and sub: "set (es @ fs) \<subseteq> set (topicEntries (fs_db sd) t)"
    and run: "foldAll R t now mode fs (st, sd) = (None, st', sd')"
  shows "regRef R t (fs_db sd) (st_base st) (es @ fs) = (None, noRowid st')"
proof -
  let ?p = "pureSide (fs_db sd)"
  obtain sd1 where f: "foldAll R t 0 ReplayMode es (refStart (st_base st), ?p) = (None, noRowid st, sd1)"
    using ref unfolding regRef_def resState_def by (metis fst_conv snd_conv prod_cases3)
  have table: "log_table_ok (fs_db sd)" using sided by (simp add: topic_sided_def)
  have db: "fs_db ?p = fs_db sd" by (simp add: pureSide_def)
  have s1: "topic_sided R t sd1"
    using sided_fold [OF f] sided_pure [OF table] sub by (simp add: db)
  have log: "same_log (fs_db sd) (fs_db sd1)" using foldAll_log [OF f] by (simp add: db)
  have "resState (foldAll R t 0 ReplayMode fs (noRowid st, sd1)) = resState (foldAll R t now mode fs (noRowid st, sd))"
    using same_fold [OF sided s1 log] sub by (metis le_sup_iff set_append)
  also have "\<dots> = (None, noRowid st')" by (simp add: foldAll_noRowid run resState_def)
  finally show ?thesis unfolding regRef_def by (simp add: foldAll_append f)
qed

section \<open>Keeping a state up to date\<close>

text \<open>A causal pointer to a held entry points back in the total order.\<close>

definition causal_backward :: "string \<Rightarrow> Db \<Rightarrow> bool" where
  "causal_backward t d \<longleftrightarrow> (\<forall>e w s f. e \<in> set (topicEntries d t) \<longrightarrow> e_causal e = Some (w, s) \<longrightarrow>
     getEntry d t w s = Some f \<longrightarrow> orderCompare (orderOf f) (orderOf e) < 0)"

text \<open>Rows are only appended, with fresh row ids.\<close>

definition grows :: "Db \<Rightarrow> Db \<Rightarrow> bool" where
  "grows d d' \<longleftrightarrow> (\<exists>new. sq_log d' = sq_log d @ new \<and> (\<forall>r \<in> set new. log_autoinc d < fst r)) \<and>
     log_autoinc d \<le> log_autoinc d'"

definition upToDate :: "RegEnv \<Rightarrow> string \<Rightarrow> Db \<Rightarrow> TopicState \<Rightarrow> bool" where
  "upToDate R t d st \<longleftrightarrow>
     regRef R t d (st_base st) (sortedEntries d t (baseOrd st)) = (None, noRowid st) \<and>
     (\<forall>r \<in> set (topicRows d t). fst r \<le> st_lastRowid st) \<and> st_lastRowid st \<le> log_autoinc d"

definition seenEntries :: "Db \<Rightarrow> string \<Rightarrow> TopicState \<Rightarrow> LogEntry list" where
  "seenEntries d t st = sort_by entryCompare (filter (afterCursor (baseOrd st))
     (map snd (filter (\<lambda>r. fst r \<le> st_lastRowid st) (topicRows d t))))"

definition ordOk :: "TopicState \<Rightarrow> bool" where
  "ordOk st \<longleftrightarrow> (case baseOrd st of None \<Rightarrow> True
     | Some b \<Rightarrow> (case st_ord st of None \<Rightarrow> False | Some c \<Rightarrow> orderCompare b c \<le> 0))"

text \<open>In the middle of a pass: unless an unread row reaches back behind the state's order, the state
  is the reference fold of the rows read so far.\<close>

definition midPass :: "RegEnv \<Rightarrow> string \<Rightarrow> Db \<Rightarrow> TopicState \<Rightarrow> bool" where
  "midPass R t d st \<longleftrightarrow> ordOk st \<and> st_lastRowid st \<le> log_autoinc d \<and>
     ((\<forall>r \<in> set (topicRows d t). st_lastRowid st < fst r \<longrightarrow> afterCursor (st_ord st) (snd r)) \<longrightarrow>
      regRef R t d (st_base st) (seenEntries d t st) = (None, noRowid st))"

lemma seen_subset: "set (seenEntries d t st) \<subseteq> set (topicEntries d t)"
  by (auto simp: seenEntries_def topicEntries_def)

lemma seen_member: "e \<in> set (seenEntries d t st) \<longleftrightarrow>
    (\<exists>r \<in> set (topicRows d t). snd r = e \<and> fst r \<le> st_lastRowid st \<and> afterCursor (baseOrd st) e)"
  unfolding seenEntries_def by (simp add: image_iff conj_commute Bex_def) (metis prod.exhaust_sel)

lemma regRef_ord:
  assumes "regRef R t d base es = (None, noRowid st)"
  shows "st_ord st = (if es = [] then map_option snd base else Some (orderOf (last es)))" "st_base st = base"
proof -
  obtain st1 sd1 where f: "foldAll R t 0 ReplayMode es (refStart base, pureSide d) = (None, st1, sd1)" "st1 = noRowid st"
    using assms unfolding regRef_def resState_def by (metis fst_conv snd_conv prod_cases3)
  show "st_ord st = (if es = [] then map_option snd base else Some (orderOf (last es)))" "st_base st = base"
    using foldAll_ord [OF f(1)] f(2) refStart_ord [of base] by (auto split: if_splits)
qed

lemma sorted_last_max:
  assumes "in_order es" "e \<in> set es"
  shows "orderCompare (orderOf e) (orderOf (last es)) \<le> 0"
proof (cases "e = last es")
  case False
  have ne: "es \<noteq> []" using assms(2) by auto
  then have es: "es = butlast es @ [last es]" by simp
  then have "e \<in> set (butlast es)" using assms(2) False by (metis in_set_butlastD set_ConsD rotate1.simps(2) set_rotate1)
  then show ?thesis using assms(1) es by (metis less_imp_le list.set_intros(1) sorted_wrt_append)
qed (simp add: entOrd.cmp_refl)

lemma upToDate_ordOk:
  assumes "log_table_ok d" "upToDate R t d st"
  shows "ordOk st"
proof -
  have ref: "regRef R t d (st_base st) (sortedEntries d t (baseOrd st)) = (None, noRowid st)"
    using assms(2) by (simp add: upToDate_def)
  note ord = regRef_ord(1) [OF ref]
  show ?thesis
  proof (cases "baseOrd st")
    case (Some b)
    have "orderCompare b (orderOf e) < 0" if "e \<in> set (sortedEntries d t (baseOrd st))" for e
      using that Some by (simp add: sortedEntries_set afterCursor_def sqlAfter_iff)
    then show ?thesis
      using ord Some last_in_set [of "sortedEntries d t (baseOrd st)"]
      by (auto simp: ordOk_def baseOrd_def entOrd.cmp_refl less_imp_le split: if_splits)
  qed (simp add: ordOk_def)
qed

text \<open>Appending rows that lie after \<open>ord\<close> changes no ancestor walk from an entry up to \<open>ord\<close>.\<close>

lemma grows_entries:
  assumes "grows d d'" "e \<in> set (topicEntries d t)"
  shows "e \<in> set (topicEntries d' t)"
  using assms by (auto simp: grows_def topicEntries_def topicRows_def)

lemma getEntry_topic:
  assumes "log_table_ok d"
  shows "getEntry d t w s = Some f \<longleftrightarrow> f \<in> set (topicEntries d t) \<and> e_writer f = w \<and> e_seq f = s"
  by (auto simp: getEntry_iff [OF assms] topicEntries_def topicRows_def inTopic_def entryKey_def image_iff)

lemma walk_stable:
  assumes ok: "log_table_ok d" "log_table_ok d'" and gr: "grows d d'" and bwd: "causal_backward t d'"
    and later: "\<And>f. f \<in> set (topicEntries d' t) \<Longrightarrow> f \<notin> set (topicEntries d t) \<Longrightarrow> orderCompare ord (orderOf f) < 0"
    and e: "e \<in> set (topicEntries d t)" "orderCompare (orderOf e) ord \<le> 0"
  shows "ancestorWalk n d t a (Some e) = ancestorWalk n d' t a (Some e)"
  using e
proof (induction n arbitrary: e)
  case (Suc n)
  show ?case
  proof (cases "e_causal e")
    case (Some c)
    obtain w s where c: "c = (w, s)" by (cases c)
    show ?thesis
    proof (cases "getEntry d' t w s")
      case None
      have "getEntry d t w s = None"
      proof (rule ccontr)
        assume "getEntry d t w s \<noteq> None"
        then obtain g where "getEntry d t w s = Some g" by blast
        then have "g \<in> set (topicEntries d' t)" "e_writer g = w" "e_seq g = s"
          using grows_entries [OF gr] by (simp_all add: getEntry_topic [OF ok(1)])
        then have "getEntry d' t w s = Some g" by (simp add: getEntry_topic [OF ok(2)])
        then show False using None by simp
      qed
      then show ?thesis using None Some c by (cases n) simp_all
    next
      case f: (Some f)
      then have f': "f \<in> set (topicEntries d' t)" using getEntry_topic [OF ok(2)] by blast
      have "orderCompare (orderOf f) (orderOf e) < 0"
        using bwd f Some c grows_entries [OF gr Suc.prems(1)] unfolding causal_backward_def by blast
      then have le: "orderCompare (orderOf f) ord < 0" using Suc.prems(2) by (rule entOrd.cmp_less_le_trans)
      then have "\<not> orderCompare ord (orderOf f) < 0" using entOrd.cmp_flip by (metis less_asym)
      then have mem: "f \<in> set (topicEntries d t)" using later f' by blast
      then have "getEntry d t w s = Some f"
        using f by (simp add: getEntry_topic [OF ok(1)] getEntry_topic [OF ok(2)])
      then show ?thesis using Suc.IH [OF mem] le f Some c by simp
    qed
  qed simp
qed simp

lemma midPass_start:
  assumes ok: "log_table_ok d" "log_table_ok d'" and gr: "grows d d'" and bwd: "causal_backward t d'"
    and up: "upToDate R t d st"
  shows "midPass R t d' st"
proof -
  let ?es = "sortedEntries d t (baseOrd st)"
  have ref: "regRef R t d (st_base st) ?es = (None, noRowid st)" and low: "st_lastRowid st \<le> log_autoinc d"
    and read: "\<And>r. r \<in> set (topicRows d t) \<Longrightarrow> fst r \<le> st_lastRowid st"
    using up by (auto simp: upToDate_def)
  obtain new where new: "sq_log d' = sq_log d @ new" "\<And>r. r \<in> set new \<Longrightarrow> log_autoinc d < fst r"
    and inc: "log_autoinc d \<le> log_autoinc d'" using gr by (auto simp: grows_def)
  have rows: "filter (\<lambda>r. fst r \<le> st_lastRowid st) (topicRows d' t) = topicRows d t"
  proof -
    have a: "filter (\<lambda>r. fst r \<le> st_lastRowid st) (topicRows d t) = topicRows d t" using read by (simp add: filter_id_conv)
    have b: "filter (\<lambda>r. fst r \<le> st_lastRowid st) (filter (inTopic t) new) = []"
      using new(2) low by (fastforce simp: filter_empty_conv)
    have "topicRows d' t = topicRows d t @ filter (inTopic t) new" by (simp add: topicRows_def new(1))
    then show ?thesis using a b by simp
  qed
  then have seen: "seenEntries d' t st = ?es"
    by (simp add: seenEntries_def sortedEntries_def topicEntries_def)
  have "regRef R t d' (st_base st) ?es = (None, noRowid st)"
    if unread: "\<forall>r \<in> set (topicRows d' t). st_lastRowid st < fst r \<longrightarrow> afterCursor (st_ord st) (snd r)"
  proof -
    have "resState (foldAll R t 0 ReplayMode ?es (refStart (st_base st), pureSide d')) =
      resState (foldAll R t 0 ReplayMode ?es (refStart (st_base st), pureSide d))"
    proof (rule foldAll_reads [of "set (topicEntries d t)"])
      show "inj_on entryId (set (topicEntries d t))" by (rule topicEntries_distinct(3) [OF ok(1)])
      show "set ?es \<subseteq> set (topicEntries d t)" by (auto simp: sortedEntries_set)
      show "verdicts_ok R (set (topicEntries d t)) (pureSide d)" "verdicts_ok R (set (topicEntries d t)) (pureSide d')"
        by (simp_all add: pureSide_def verdicts_ok_def)
      show "isAncestor (fs_db (pureSide d')) t a e = isAncestor (fs_db (pureSide d)) t a e" if e: "e \<in> set ?es" for e a
      proof -
        have ord: "st_ord st = Some (orderOf (last ?es))" using regRef_ord(1) [OF ref] e by auto
        have "e \<in> set (topicEntries d t)" using e by (simp add: sortedEntries_set)
        moreover have "orderCompare (orderOf e) (orderOf (last ?es)) \<le> 0"
          by (rule sorted_last_max [OF sortedEntries_in_order [OF ok(1)] e])
        moreover have "orderCompare (orderOf (last ?es)) (orderOf f) < 0"
          if f: "f \<in> set (topicEntries d' t)" "f \<notin> set (topicEntries d t)" for f
        proof -
          obtain r where r: "r \<in> set (topicRows d' t)" "snd r = f" using f(1) by (auto simp: topicEntries_def)
          then have "r \<notin> set (topicRows d t)" using f(2) by (auto simp: topicEntries_def)
          then have "r \<in> set new" using r(1) new(1) by (auto simp: topicRows_def)
          then have "st_lastRowid st < fst r" using new(2) low by fastforce
          then show ?thesis using unread r ord by (auto simp: afterCursor_def sqlAfter_iff)
        qed
        ultimately show ?thesis
          unfolding isAncestor_def pureSide_def FoldSide.select_convs
          by (intro walk_stable [OF ok gr bwd, symmetric]) blast+
      qed
    qed
    then show ?thesis using ref by (simp add: regRef_def)
  qed
  then show ?thesis using upToDate_ordOk [OF ok(1) up] low inc by (simp add: midPass_def seen)
qed

lemma same_rows: "same_log d d' \<Longrightarrow> topicRows d' t = topicRows d t"
  by (simp add: topicRows_def same_log_def)

lemma midPass_cong:
  assumes "log_table_ok d" "same_log d d'"
  shows "midPass R t d' st = midPass R t d st"
  using regRef_cong [OF assms seen_subset, where R = R and base = "st_base st"] assms(2) same_rows [OF assms(2)]
  by (simp add: midPass_def seenEntries_def same_log_def)

lemma upToDate_cong:
  assumes "log_table_ok d" "same_log d d'"
  shows "upToDate R t d' st = upToDate R t d st"
proof -
  have "set (sortedEntries d t c) \<subseteq> set (topicEntries d t)" for c by (auto simp: sortedEntries_set)
  from regRef_cong [OF assms this, where R = R and base = "st_base st"] show ?thesis
    using assms(2) same_rows [OF assms(2)] sortedEntries_cong [OF assms(2)]
    by (simp add: upToDate_def same_log_def)
qed

text \<open>A page of unread rows holds every unread row up to its last one.\<close>

lemma page_rows:
  assumes "log_table_ok d" "rows = entriesForTopicFromRowid d t n k" "rows \<noteq> []"
  shows "set rows = {r \<in> set (topicRows d t). n < fst r \<and> fst r \<le> fst (last rows)}"
    and "n < fst (last rows)"
proof -
  let ?left = "filter (\<lambda>r. n < fst r) (topicRows d t)"
  have "sorted_wrt (<) (map fst (topicRows d t))"
    using assms(1) by (simp add: log_table_ok_def topicRows_def sorted_wrt_map sorted_wrt_filter)
  then have s: "sorted_wrt (\<lambda>a b. fst a < fst b) ?left" by (simp add: sorted_wrt_map sorted_wrt_filter)
  have rows: "rows = take k ?left" using assms(2) by (simp add: entriesForTopicFromRowid_def)
  have split: "?left = rows @ drop k ?left" unfolding rows by simp
  have rs: "sorted_wrt (\<lambda>a b. fst a < fst b) rows" unfolding rows using s by (rule sorted_wrt_take)
  have max: "fst r \<le> fst (last rows)" if "r \<in> set rows" for r
  proof (cases "r = last rows")
    case False
    have e: "rows = butlast rows @ [last rows]" using assms(3) by simp
    then have "r \<in> set (butlast rows)" using that False by (metis in_set_butlastD set_ConsD rotate1.simps(2) set_rotate1)
    then show ?thesis using rs e by (metis less_imp_le list.set_intros(1) sorted_wrt_append)
  qed simp
  have above: "fst (last rows) < fst r" if "r \<in> set (drop k ?left)" for r
  proof -
    have "sorted_wrt (\<lambda>a b. fst a < fst b) (rows @ drop k ?left)" using s split by simp
    then show ?thesis using that last_in_set [OF assms(3)] unfolding sorted_wrt_append by blast
  qed
  have parts: "set ?left = set rows \<union> set (drop k ?left)" using split by (metis set_append)
  show "set rows = {r \<in> set (topicRows d t). n < fst r \<and> fst r \<le> fst (last rows)}"
  proof (intro equalityI subsetI)
    fix r assume r: "r \<in> set rows"
    then have "r \<in> set ?left" using parts by blast
    then show "r \<in> {r \<in> set (topicRows d t). n < fst r \<and> fst r \<le> fst (last rows)}" using max [OF r] by simp
  next
    fix r assume r: "r \<in> {r \<in> set (topicRows d t). n < fst r \<and> fst r \<le> fst (last rows)}"
    then have "r \<in> set ?left" by simp
    moreover have "r \<notin> set (drop k ?left)" using above [of r] r by auto
    ultimately show "r \<in> set rows" using parts by blast
  qed
  have "last rows \<in> set rows" using assms(3) by simp
  then show "n < fst (last rows)" unfolding rows by (auto dest!: in_set_takeD)
qed

lemma midPass_page:
  assumes mid: "midPass R t (fs_db sd) st" and sided: "topic_sided R t sd"
    and rows: "rows = entriesForTopicFromRowid (fs_db sd) t (st_lastRowid st) k" "rows \<noteq> []"
    and sorted: "es = sort_by entryCompare (map snd rows)"
    and ahead: "\<not> (case st_ord st of None \<Rightarrow> False | Some c \<Rightarrow> orderCompare (orderOf (hd es)) c \<le> 0)"
    and run: "foldAll R t now LiveMode es (st, sd) = (None, st', sd')"
  shows "midPass R t (fs_db sd') (st'\<lparr>st_lastRowid := fst (last rows)\<rparr>)"
proof -
  let ?d = "fs_db sd" and ?st = "st'\<lparr>st_lastRowid := fst (last rows)\<rparr>"
  have table: "log_table_ok ?d" using sided by (simp add: topic_sided_def)
  note page = page_rows [OF table rows]
  have es_set: "set es = snd ` set rows" using sorted by simp
  have dist: "distinct (map snd rows)"
    using topicEntries_distinct(1) [OF table, of t] rows(1)
    by (simp add: entriesForTopicFromRowid_def topicEntries_def take_map [symmetric] distinct_map_filter)
  have es_sub: "set es \<subseteq> set (topicEntries ?d t)" using es_set page(1) by (auto simp: topicEntries_def)
  have es_order: "in_order es" unfolding sorted
    by (rule sort_in_order [OF table dist]) (use es_set es_sub in simp)
  have es_ne: "es \<noteq> []" using rows(2) es_set by auto
  have hd_min: "orderCompare (orderOf (hd es)) (orderOf e) \<le> 0" if "e \<in> set es" for e
    using es_order es_ne that by (cases es) (auto simp: entOrd.cmp_refl less_imp_le)
  have after: "afterCursor (st_ord st) e" if "e \<in> set es" for e
  proof (cases "st_ord st")
    case (Some c)
    then have "orderCompare c (orderOf (hd es)) < 0" using ahead entOrd.cmp_le_flip by simp
    then have "orderCompare c (orderOf e) < 0" using hd_min [OF that] by (rule entOrd.cmp_less_le_trans)
    then show ?thesis using Some by (simp add: afterCursor_def sqlAfter_iff)
  qed (simp add: afterCursor_def)
  note fo = foldAll_ord [OF run]
  have st': "st_ord ?st = Some (orderOf (last es))" "st_base ?st = st_base st" "baseOrd ?st = baseOrd st"
    using fo es_ne by (simp_all add: baseOrd_def)
  have base_after: "afterCursor (baseOrd st) e" if "afterCursor (st_ord st) e" for e
    using mid that entOrd.cmp_le_less_trans
    by (auto simp: midPass_def ordOk_def afterCursor_def sqlAfter_iff split: option.splits)
  have ord: "ordOk ?st"
    using base_after [OF after [OF last_in_set [OF es_ne]]] st' 
    by (auto simp: ordOk_def afterCursor_def sqlAfter_iff less_imp_le split: option.splits)
  have low: "fst (last rows) \<le> log_autoinc ?d"
    using table page(1) rows(2) last_in_set [OF rows(2)] by (auto simp: log_table_ok_def topicRows_def)
  have imp: "regRef R t ?d (st_base ?st) (seenEntries ?d t ?st) = (None, noRowid ?st)"
    if unread: "\<forall>r \<in> set (topicRows ?d t). st_lastRowid ?st < fst r \<longrightarrow> afterCursor (st_ord ?st) (snd r)"
  proof -
    have "afterCursor (st_ord st) (snd r)" if r: "r \<in> set (topicRows ?d t)" "st_lastRowid st < fst r" for r
    proof (cases "fst r \<le> fst (last rows)")
      case True
      then have "snd r \<in> set es" using r page(1) es_set by blast
      then show ?thesis by (rule after)
    next
      case False
      then have "orderCompare (orderOf (last es)) (orderOf (snd r)) < 0"
        using unread r st'(1) by (auto simp: afterCursor_def sqlAfter_iff)
      then show ?thesis
        using after [OF last_in_set [OF es_ne]] entOrd.cmp_trans
        by (auto simp: afterCursor_def sqlAfter_iff split: option.splits)
    qed
    then have ref: "regRef R t ?d (st_base st) (seenEntries ?d t st) = (None, noRowid st)"
      using mid by (simp add: midPass_def)
    let ?old = "seenEntries ?d t st"
    have old_order: "in_order ?old"
      unfolding seenEntries_def
      using topicEntries_distinct(1) [OF table, of t]
      by (intro sort_in_order [OF table]) (auto simp: topicEntries_def distinct_map_filter)
    have "orderCompare (orderOf a) (orderOf b) < 0" if "a \<in> set ?old" "b \<in> set es" for a b
    proof -
      have "st_ord st = Some (orderOf (last ?old))" using regRef_ord(1) [OF ref] that(1) by auto
      then have "orderCompare (orderOf (last ?old)) (orderOf b) < 0"
        using after [OF that(2)] by (simp add: afterCursor_def sqlAfter_iff)
      then show ?thesis using sorted_last_max [OF old_order that(1)] by (rule entOrd.cmp_le_less_trans [rotated])
    qed
    then have both: "in_order (?old @ es)" using old_order es_order by (simp add: sorted_wrt_append)
    have "seenEntries ?d t ?st = ?old @ es"
    proof (rule in_order_unique)
      show "in_order (seenEntries ?d t ?st)"
        unfolding seenEntries_def
        using topicEntries_distinct(1) [OF table, of t]
        by (intro sort_in_order [OF table]) (auto simp: topicEntries_def distinct_map_filter)
      have mem: "e \<in> set (seenEntries ?d t ?st) \<longleftrightarrow>
          (\<exists>r \<in> set (topicRows ?d t). snd r = e \<and> fst r \<le> fst (last rows) \<and> afterCursor (baseOrd st) e)" for e
        by (auto simp: seen_member st'(3))
      have "fst r \<le> fst (last rows) \<longleftrightarrow> fst r \<le> st_lastRowid st \<or> r \<in> set rows" if "r \<in> set (topicRows ?d t)" for r
        unfolding page(1) using page(2) that by auto
      then have grown: "(\<exists>r \<in> set (topicRows ?d t). snd r = e \<and> fst r \<le> fst (last rows) \<and> afterCursor (baseOrd st) e) \<longleftrightarrow>
          (\<exists>r \<in> set (topicRows ?d t). snd r = e \<and> (fst r \<le> st_lastRowid st \<or> r \<in> set rows) \<and>
             afterCursor (baseOrd st) e)" for e
        by (intro bex_cong) simp_all
      have sub: "set rows \<subseteq> set (topicRows ?d t)" unfolding page(1) by blast
      have mem2: "e \<in> set (seenEntries ?d t ?st) \<longleftrightarrow> e \<in> set ?old \<or>
          (\<exists>r \<in> set rows. snd r = e \<and> afterCursor (baseOrd st) e)" for e
        unfolding mem grown unfolding seen_member using sub by blast
      have "afterCursor (baseOrd st) (snd r)" if "r \<in> set rows" for r
        using base_after after es_set that by blast
      then show "set (seenEntries ?d t ?st) = set (?old @ es)"
        unfolding set_append es_set by (intro set_eqI) (simp only: mem2 Un_iff image_iff, blast)
    qed (rule both)
    then show ?thesis
      using regRef_extend [OF ref sided _ run] es_sub seen_subset [of ?d t st] st'(2) by simp
  qed
  have "st_lastRowid ?st \<le> log_autoinc ?d" using low by simp
  then have "midPass R t ?d ?st" unfolding midPass_def by (intro conjI impI ord imp)
  then show ?thesis using midPass_cong [OF table foldAll_log [OF run, unfolded snd_conv]] by blast
qed

lemma maxRowid_ge: "r \<in> set (topicRows d t) \<Longrightarrow> fst r \<le> maxRowid d t"
proof -
  have "r \<in> set rs \<Longrightarrow> fst r \<le> foldr (\<lambda>r m. max (fst r) m) rs 0" for rs :: "LogRow list"
    by (induction rs) auto
  then show "r \<in> set (topicRows d t) \<Longrightarrow> fst r \<le> maxRowid d t" by (simp add: maxRowid_def)
qed

lemma maxRowid_le: "log_table_ok d \<Longrightarrow> maxRowid d t \<le> log_autoinc d"
proof -
  assume ok: "log_table_ok d"
  have "(\<forall>r \<in> set rs. fst r \<le> n) \<Longrightarrow> foldr (\<lambda>r m. max (fst r) m) rs 0 \<le> n" for n and rs :: "LogRow list"
    by (induction rs) auto
  then show ?thesis using ok by (simp add: maxRowid_def log_table_ok_def topicRows_def)
qed

lemma refold_upToDate:
  assumes sided: "topic_sided R t sd" and bound: "st_base st' = st_base st"
    and run: "foldAll R t now LiveMode (sortedEntries (fs_db sd) t (baseOrd st)) (clearedState st, sd) = (None, st', sd')"
  shows "upToDate R t (fs_db sd') (st'\<lparr>st_lastRowid := maxRowid (fs_db sd') t\<rparr>)"
proof -
  let ?d = "fs_db sd"
  have table: "log_table_ok ?d" using sided by (simp add: topic_sided_def)
  have log: "same_log ?d (fs_db sd')" using foldAll_log [OF run] by simp
  have base: "st_base (clearedState st) = st_base st" by (simp add: clearedState_def split: option.split prod.split)
  have "regRef R t ?d (st_base (clearedState st)) [] = (None, noRowid (clearedState st))"
    by (simp add: regRef_def resState_def cleared_noRowid base)
  from regRef_extend [OF this sided _ run]
  have "regRef R t ?d (st_base st) (sortedEntries ?d t (baseOrd st)) = (None, noRowid st')"
    by (simp add: sortedEntries_set base)
  then have "upToDate R t ?d (st'\<lparr>st_lastRowid := maxRowid (fs_db sd') t\<rparr>)"
    using maxRowid_ge maxRowid_le [OF table] bound same_rows [OF log]
    by (simp add: upToDate_def baseOrd_def maxRowid_def)
  then show ?thesis using upToDate_cong [OF table log] by blast
qed

lemma midPass_done:
  assumes "log_table_ok d" "midPass R t d st" "entriesForTopicFromRowid d t (st_lastRowid st) REG_PAGE = []"
  shows "upToDate R t d st"
proof -
  have none: "\<not> st_lastRowid st < fst r" if "r \<in> set (topicRows d t)" for r
    using assms(3) that by (auto simp: entriesForTopicFromRowid_def REG_PAGE_def filter_empty_conv)
  then have "filter (\<lambda>r. fst r \<le> st_lastRowid st) (topicRows d t) = topicRows d t"
    by (simp add: filter_id_conv not_less)
  then have "seenEntries d t st = sortedEntries d t (baseOrd st)"
    by (simp add: seenEntries_def sortedEntries_def topicEntries_def)
  then show ?thesis
    using assms(2) none unfolding midPass_def upToDate_def by (metis not_less)
qed

text \<open>A pass that ends without an exception brings the state up to date.\<close>

lemma passLoop_upToDate:
  "passLoop R t now (st, sd) = (None, st', sd') \<Longrightarrow> topic_sided R t sd \<Longrightarrow> midPass R t (fs_db sd) st \<Longrightarrow>
   upToDate R t (fs_db sd') st' \<and> same_log (fs_db sd) (fs_db sd') \<and> st_base st' = st_base st"
proof (induction R t now "(st, sd)" arbitrary: st sd rule: passLoop.induct)
  case (1 R t now st sd)
  let ?rows = "entriesForTopicFromRowid (fs_db sd) t (st_lastRowid st) REG_PAGE"
  let ?es = "sort_by entryCompare (map snd ?rows)"
  have table: "log_table_ok (fs_db sd)" using 1(3) by (simp add: topic_sided_def)
  show ?case
  proof (cases "?rows = []")
    case True
    then have "st' = st" "sd' = sd" using 1(2) by (simp_all add: passLoop.simps [of R t now "(st, sd)"])
    then show ?thesis using midPass_done [OF table 1(4) True] by simp
  next
    case rows: False
    let ?late = "case st_ord st of None \<Rightarrow> False | Some c \<Rightarrow> orderCompare (orderOf (hd ?es)) c \<le> 0"
    show ?thesis
    proof (cases ?late)
      case True
      let ?sd = "sd\<lparr>fs_events := map (detachEvent (st_keys st)) (fs_events sd), fs_surfaced := []\<rparr>"
      have start: "startRefold (st, sd) = (clearedState st, ?sd)" by (simp add: startRefold_def)
      have cur: "st_ord (clearedState st) = baseOrd st"
        by (simp add: clearedState_def baseOrd_def split: option.split prod.split)
      have sided: "topic_sided R t ?sd" using 1(3) by (simp add: topic_sided_def verdicts_ok_def)
      obtain st1 where run: "refoldLoop R t now (baseOrd st) (clearedState st, ?sd) = (None, st1, sd')"
        and st': "st' = st1\<lparr>st_lastRowid := maxRowid (fs_db sd') t\<rparr>"
        using 1(2) rows True
        by (auto simp: passLoop.simps [of R t now "(st, sd)"] Let_def start cur split: prod.splits option.splits)
      have fold: "foldAll R t now LiveMode (sortedEntries (fs_db ?sd) t (baseOrd st)) (clearedState st, ?sd) = (None, st1, sd')"
        using run refoldLoop_is_fold [of "(clearedState st, ?sd)" R t now "baseOrd st"] table by simp
      have base: "st_base st1 = st_base st"
        using foldAll_ord [OF fold] by (simp add: clearedState_def split: option.split prod.split)
      show ?thesis
        using refold_upToDate [OF sided base fold] foldAll_log [OF fold] st' base by simp
    next
      case False
      obtain err st1 sd1 where f: "foldAll R t now LiveMode ?es (st, sd) = (err, st1, sd1)" by (metis prod_cases3)
      have err: "err = None"
        using 1(2) rows False f by (cases err) (auto simp: passLoop.simps [of R t now "(st, sd)"] Let_def)
      let ?st1 = "st1\<lparr>st_lastRowid := fst (last ?rows)\<rparr>"
      have next_pass: "passLoop R t now (?st1, sd1) = (None, st', sd')"
        using 1(2) rows False f err by (simp add: passLoop.simps [of R t now "(st, sd)"] Let_def)
      have es_sub: "set ?es \<subseteq> set (topicEntries (fs_db sd) t)"
        using page_rows(1) [OF table refl rows] by (auto simp: topicEntries_def)
      have sided1: "topic_sided R t sd1" using sided_fold [OF f] 1(3) es_sub by simp
      have mid1: "midPass R t (fs_db sd1) ?st1"
        by (rule midPass_page [OF 1(4,3) refl rows refl False f [unfolded err]])
      have log1: "same_log (fs_db sd) (fs_db sd1)" using foldAll_log [OF f] by simp
      have "upToDate R t (fs_db sd') st' \<and> same_log (fs_db sd1) (fs_db sd') \<and> st_base st' = st_base ?st1"
        by (rule 1(1) [OF refl refl rows refl False f [unfolded err, symmetric] refl refl next_pass sided1 mid1])
      moreover have "st_base ?st1 = st_base st" using foldAll_ord [OF f] by simp
      ultimately show ?thesis using same_log_trans [OF log1] by metis
    qed
  qed
qed

end
