(* ===== verification/Register_Converge.thy ===== *)
theory Register_Converge
  imports Register_Fold
begin

text \<open>
  The properties of the register passes: a pass brings a topic's state up to the fold of the held
  entries in total order, replicas that hold the same entries agree, a historical state is the
  fold of a prefix, and the ill-shaped entry no pass gets past.
\<close>

section \<open>What replicas must share\<close>

definition same_rules :: "RegEnv \<Rightarrow> RegEnv \<Rightarrow> bool" where
  "same_rules R R' \<longleftrightarrow> registry (rg_log R) = registry (rg_log R') \<and>
     verifyTakeover (rg_auth R) = verifyTakeover (rg_auth R') \<and> rg_numStr R = rg_numStr R'"

lemma jsString_rules:
  assumes "rg_numStr R = rg_numStr R'"
  shows "jsString R v = jsString R' v" "jsJoin R vs = jsJoin R' vs"
  using assms by (induction v and vs rule: jsString_jsJoin.induct) auto

lemma foldOp_rules:
  assumes "same_rules R R'"
  shows "foldOp R t now mode pol e k ks sd = foldOp R' t now mode pol e k ks sd"
proof -
  have s: "payloadString R e p = payloadString R' e p" for p
    using assms by (simp add: payloadString_def jsString_rules(1) [of R R'] same_rules_def)
  have v: "verifyTakeoverOf R e sd = verifyTakeoverOf R' e sd"
  proof -
    have "verifyTakeover (rg_auth R) = verifyTakeover (rg_auth R')" using assms by (simp add: same_rules_def)
    then show ?thesis by (simp only: verifyTakeoverOf_def)
  qed
  show ?thesis
    unfolding foldOp_def foldChown_def foldTakeover_def setOwner_def foldAddRemove_def foldResolveMember_def s v ..
qed

lemma foldAll_rules:
  "same_rules R R' \<Longrightarrow> foldAll R t now ReplayMode es p = foldAll R' t now ReplayMode es p"
proof (induction es arbitrary: p)
  case (Cons e es)
  have "foldEntry R t now ReplayMode e p = foldEntry R' t now ReplayMode e p"
  proof -
    have "registry (rg_log R) = registry (rg_log R')" using Cons.prems by (simp add: same_rules_def)
    then show ?thesis unfolding foldEntry_def foldOp_rules [OF Cons.prems] by (simp only: FoldMode.distinct simp_thms if_False Let_def)
  qed
  then show ?case using Cons by (simp split: prod.split option.split)
qed simp

lemma regRef_rules: "same_rules R R' \<Longrightarrow> regRef R t d base es = regRef R' t d base es"
  by (simp add: regRef_def foldAll_rules)

lemma sorted_same_set:
  assumes "log_table_ok d" "log_table_ok d'" "set (topicEntries d t) = set (topicEntries d' t)"
  shows "sortedEntries d t c = sortedEntries d' t c"
  by (rule in_order_unique)
    (use assms in \<open>simp_all add: sortedEntries_in_order sortedEntries_set\<close>)

lemma regRef_same_set:
  assumes ok: "log_table_ok d" "log_table_ok d'" and same: "set (topicEntries d t) = set (topicEntries d' t)"
    and sub: "set es \<subseteq> set (topicEntries d t)"
  shows "regRef R t d base es = regRef R t d' base es"
proof -
  have get: "getEntry d t w s = getEntry d' t w s" for w s
  proof (cases "getEntry d t w s")
    case None
    then have none: "f \<notin> set (topicEntries d t) \<or> e_writer f \<noteq> w \<or> e_seq f \<noteq> s" for f
      using getEntry_topic [OF ok(1), of t w s f] by auto
    have "getEntry d' t w s \<noteq> Some f" for f
      using none [of f] same by (simp add: getEntry_topic [OF ok(2)])
    then show ?thesis using None by (cases "getEntry d' t w s") auto
  next
    case (Some f)
    then have "getEntry d' t w s = Some f"
      using same by (simp add: getEntry_topic [OF ok(1)] getEntry_topic [OF ok(2)])
    then show ?thesis using Some by simp
  qed
  have walk: "ancestorWalk n d t a c = ancestorWalk n d' t a c" for n a c
  proof (induction n arbitrary: c)
    case (Suc n)
    then show ?case by (cases c) (auto simp: get split: option.split)
  qed simp
  show ?thesis
    unfolding regRef_def
    by (rule foldAll_reads [OF topicEntries_distinct(3) [OF ok(1)] sub])
      (simp_all add: pureSide_def verdicts_ok_def isAncestor_def walk)
qed

section \<open>Tracking a log\<close>

text \<open>
  The state of a topic is up to date with some earlier table from which the log has grown, and
  cached verdicts come from entries of that table.
\<close>

definition verdicts_from :: "RegEnv \<Rightarrow> string \<Rightarrow> Db \<Rightarrow> (EntryId \<Rightarrow> bool option) \<Rightarrow> bool" where
  "verdicts_from R t d vs \<longleftrightarrow> (\<forall>i v. fst i = t \<longrightarrow> vs i = Some v \<longrightarrow>
     (\<exists>e \<in> set (topicEntries d t). entryId e = i \<and> v = verdictOf R e))"

definition tracked :: "RegEnv \<Rightarrow> string \<Rightarrow> RegisterHub \<Rightarrow> LogCore \<Rightarrow> bool" where
  "tracked R t h s \<longleftrightarrow> (\<exists>d0. log_table_ok d0 \<and> grows d0 (lc_db s) \<and>
     upToDate R t d0 (topicState h t) \<and> verdicts_from R t d0 (rh_verdicts h))"

lemma grows_refl: "grows d d"
  by (auto simp: grows_def)

lemma grows_trans:
  assumes "grows a b" "grows b c"
  shows "grows a c"
proof -
  obtain n where n: "sq_log b = sq_log a @ n" "\<forall>r \<in> set n. log_autoinc a < fst r" "log_autoinc a \<le> log_autoinc b"
    using assms(1) by (auto simp: grows_def)
  obtain m where m: "sq_log c = sq_log b @ m" "\<forall>r \<in> set m. log_autoinc b < fst r" "log_autoinc b \<le> log_autoinc c"
    using assms(2) by (auto simp: grows_def)
  show ?thesis
    unfolding grows_def using n m by (intro conjI exI [of _ "n @ m"]) (auto intro: le_less_trans)
qed

lemma grows_same: "same_log d d' \<Longrightarrow> grows d d'"
  by (auto simp: grows_def same_log_def)

lemma verdicts_sided:
  assumes "log_table_ok d'" "grows d d'" "verdicts_from R t d (fs_verdicts sd)" "fs_db sd = d'"
  shows "topic_sided R t sd"
proof -
  have "v = verdictOf R e" if e: "e \<in> set (topicEntries d' t)" "fs_verdicts sd (entryId e) = Some v" for e v
  proof -
    have "fst (entryId e) = t" using topicEntries_distinct(4) [OF assms(1) e(1)] by (simp add: entryId_def)
    then obtain x where x: "x \<in> set (topicEntries d t)" "entryId x = entryId e" "v = verdictOf R x"
      using assms(3) e(2) unfolding verdicts_from_def by blast
    have "x = e"
      using x(1,2) e(1) grows_entries [OF assms(2)] topicEntries_distinct(3) [OF assms(1)] by (blast dest: inj_onD)
    then show ?thesis using x(3) by simp
  qed
  then show ?thesis using assms(1,4) by (simp add: topic_sided_def verdicts_ok_def)
qed

text \<open>The verdict cache only gains entries of folded rows.\<close>

lemma foldEntry_verdicts_from:
  assumes "foldEntry R t now mode e (st, sd) = (err, st', sd')" "topic_sided R t sd"
    "e \<in> set (topicEntries d t)" "fs_db sd = d" "verdicts_from R t d (fs_verdicts sd)"
  shows "verdicts_from R t d (fs_verdicts sd')"
proof -
  have "fs_verdicts sd' = fs_verdicts sd \<or> fs_verdicts sd' = (fs_verdicts sd)(entryId e \<mapsto> verdictNow R sd e)"
    using assms(1) foldOp_verdicts
    by (fastforce simp: foldEntry_def Let_def verdictNow_def split: prod.splits option.splits sum.splits if_splits)
  moreover have "verdictNow R sd e = verdictOf R e"
    by (rule verdicts_now [of R "set (topicEntries d t)"]) (use assms(2-4) in \<open>auto simp: topic_sided_def\<close>)
  ultimately show ?thesis using assms(3,5) unfolding verdicts_from_def by (metis fun_upd_apply option.inject)
qed

lemma verdicts_from_cong: "same_log d d' \<Longrightarrow> verdicts_from R t d' vs = verdicts_from R t d vs"
  by (simp add: verdicts_from_def topicEntries_cong)

lemma foldAll_verdicts_from:
  "foldAll R t now mode es (st, sd) = (err, st', sd') \<Longrightarrow> topic_sided R t sd \<Longrightarrow>
   set es \<subseteq> set (topicEntries (fs_db sd) t) \<Longrightarrow> verdicts_from R t (fs_db sd) (fs_verdicts sd) \<Longrightarrow>
   verdicts_from R t (fs_db sd) (fs_verdicts sd')"
proof (induction es arbitrary: st sd)
  case (Cons e es)
  obtain err1 st1 sd1 where f: "foldEntry R t now mode e (st, sd) = (err1, st1, sd1)" by (metis prod_cases3)
  have log: "same_log (fs_db sd) (fs_db sd1)" using foldEntry_log [OF f] by simp
  have v: "verdicts_from R t (fs_db sd) (fs_verdicts sd1)"
    using foldEntry_verdicts_from [OF f Cons.prems(2) _ refl Cons.prems(4)] Cons.prems(3) by simp
  have one: "foldAll R t now mode [e] (st, sd) = (err1, st1, sd1)" by (cases err1) (simp_all add: f)
  have "topic_sided R t sd1" using sided_fold [OF one] Cons.prems by simp
  then show ?case
    using Cons.IH [of st1 sd1] Cons.prems v log
    by (cases err1) (simp_all add: f verdicts_from_cong topicEntries_cong)
qed simp

lemma passLoop_verdicts:
  "passLoop R t now (st, sd) = (err, st', sd') \<Longrightarrow> topic_sided R t sd \<Longrightarrow>
   verdicts_from R t (fs_db sd) (fs_verdicts sd) \<Longrightarrow> verdicts_from R t (fs_db sd) (fs_verdicts sd')"
proof (induction R t now "(st, sd)" arbitrary: st sd rule: passLoop.induct)
  case (1 R t now st sd)
  let ?rows = "entriesForTopicFromRowid (fs_db sd) t (st_lastRowid st) REG_PAGE"
  let ?es = "sort_by entryCompare (map snd ?rows)"
  have table: "log_table_ok (fs_db sd)" using 1(3) by (simp add: topic_sided_def)
  show ?case
  proof (cases "?rows = []")
    case True
    then show ?thesis using 1 by (simp add: passLoop.simps [of R t now "(st, sd)"])
  next
    case rows: False
    let ?late = "case st_ord st of None \<Rightarrow> False | Some c \<Rightarrow> orderCompare (orderOf (hd ?es)) c \<le> 0"
    show ?thesis
    proof (cases ?late)
      case True
      let ?sd = "sd\<lparr>fs_events := map (detachEvent (st_keys st)) (fs_events sd), fs_surfaced := []\<rparr>"
      have start: "startRefold (st, sd) = (clearedState st, ?sd)" by (simp add: startRefold_def)
      have sided: "topic_sided R t ?sd" using 1(3) by (simp add: topic_sided_def verdicts_ok_def)
      obtain err1 st1 sd1 where run: "refoldLoop R t now (st_ord (clearedState st)) (clearedState st, ?sd) = (err1, st1, sd1)"
        by (metis prod_cases3)
      then have "sd' = sd1"
        using 1(2) rows True by (cases err1) (auto simp: passLoop.simps [of R t now "(st, sd)"] Let_def start)
      moreover have "foldAll R t now LiveMode (sortedEntries (fs_db ?sd) t (st_ord (clearedState st))) (clearedState st, ?sd)
          = (err1, st1, sd1)"
        using run refoldLoop_is_fold [of "(clearedState st, ?sd)" R t now] table by simp
      ultimately show ?thesis
        using foldAll_verdicts_from [OF _ sided] 1(4) by (auto simp: sortedEntries_set)
    next
      case False
      obtain err1 st1 sd1 where f: "foldAll R t now LiveMode ?es (st, sd) = (err1, st1, sd1)" by (metis prod_cases3)
      have es_sub: "set ?es \<subseteq> set (topicEntries (fs_db sd) t)"
        using page_rows(1) [OF table refl rows] by (auto simp: topicEntries_def)
      have v1: "verdicts_from R t (fs_db sd) (fs_verdicts sd1)"
        by (rule foldAll_verdicts_from [OF f 1(3) es_sub 1(4)])
      show ?thesis
      proof (cases err1)
        case None
        let ?st1 = "st1\<lparr>st_lastRowid := fst (last ?rows)\<rparr>"
        have next_pass: "passLoop R t now (?st1, sd1) = (err, st', sd')"
          using 1(2) rows False f None by (simp add: passLoop.simps [of R t now "(st, sd)"] Let_def)
        have sided1: "topic_sided R t sd1" using sided_fold [OF f] 1(3) es_sub by simp
        have log1: "same_log (fs_db sd) (fs_db sd1)" using foldAll_log [OF f] by simp
        have "verdicts_from R t (fs_db sd1) (fs_verdicts sd')"
          using 1(1) [OF refl refl rows refl False f [unfolded None, symmetric] refl refl next_pass sided1] v1
            verdicts_from_cong [OF log1] by simp
        then show ?thesis using verdicts_from_cong [OF log1] by simp
      next
        case (Some x)
        then show ?thesis
          using 1(2) rows False f v1 by (simp add: passLoop.simps [of R t now "(st, sd)"] Let_def)
      qed
    qed
  qed
qed

section \<open>Materialization\<close>

lemma materialize_shape:
  assumes "\<not> rh_closed h" "t \<notin> set (rh_materializing h)"
    "passLoop R t now (topicState h t, sideOf h s) = (err, st, sd)"
    "materialize R now t h s = (err', h', s')"
  shows "topicState h' t = st" "lc_db s' = fs_db sd" "rh_verdicts h' = fs_verdicts sd" "scopeTails s' = fs_tails sd"
    "err = None \<Longrightarrow> rh_tables h' t = Some (List.map_filter (\<lambda>(key, ks). regRow key ks) (st_keys st))"
    "\<And>x. err = Some x \<Longrightarrow> err' = Some x \<and> rh_tables h' = rh_tables h \<and> rh_changed h' = rh_changed h"
    "rh_closed h' = rh_closed h" "rh_materializing h' = rh_materializing h"
proof -
  have ev: "rh_states h2 = rh_states h1 \<and> rh_verdicts h2 = rh_verdicts h1 \<and> rh_tables h2 = rh_tables h1 \<and>
      rh_closed h2 = rh_closed h1 \<and> rh_materializing h2 = rh_materializing h1"
    if "runEvent R d t e h1 = (x, h2)" for d e h1 h2 x
    using that
    by (auto simp: runEvent_def maybeAskOwner_def surfaceConflict_def Let_def
        split: RegEvent.splits if_splits sum.splits option.splits)
  have evs: "rh_states h2 = rh_states h1 \<and> rh_verdicts h2 = rh_verdicts h1 \<and> rh_tables h2 = rh_tables h1 \<and>
      rh_closed h2 = rh_closed h1 \<and> rh_materializing h2 = rh_materializing h1"
    if "runEvents R d t es h1 = (x, h2)" for d es h1 h2 x
    using that
  proof (induction es arbitrary: h1)
    case (Cons e es)
    obtain y h3 where "runEvent R d t e h1 = (y, h3)" by fastforce
    with Cons ev [OF this] show ?case by (cases y) auto
  qed simp
  obtain x h2 where r: "runEvents R (fs_db sd) t (fs_events sd) (rewriteTable t st (takeSide sd (putState t st h))) = (x, h2)"
    by fastforce
  note e = evs [OF r]
  have m: "(err', h', s') = (case err of Some y \<Rightarrow> (Some y, takeSide sd (putState t st h), coreSide sd s)
     | None \<Rightarrow> (case x of Some y \<Rightarrow> (Some y, h2, coreSide sd s)
         | None \<Rightarrow> (None, h2\<lparr>rh_changed := rh_changed h2 @ [t]\<rparr>, coreSide sd s)))"
    using assms r by (cases err; cases x) (auto simp: materialize_def Let_def)
  show "topicState h' t = st" "lc_db s' = fs_db sd" "rh_verdicts h' = fs_verdicts sd" "scopeTails s' = fs_tails sd"
    "rh_closed h' = rh_closed h" "rh_materializing h' = rh_materializing h"
    using m e by (auto simp: topicState_def takeSide_def putState_def coreSide_def rewriteTable_def split: option.splits)
  show "rh_tables h' t = Some (List.map_filter (\<lambda>(key, ks). regRow key ks) (st_keys st))" if "err = None"
    using m e that by (auto simp: takeSide_def putState_def rewriteTable_def split: option.splits)
  show "err' = Some x \<and> rh_tables h' = rh_tables h \<and> rh_changed h' = rh_changed h" if "err = Some x" for x
    using m that by (auto simp: takeSide_def putState_def)
qed

text \<open>The pass of a materialization ended without an exception in the fold.\<close>

definition fold_ok :: "RegEnv \<Rightarrow> nat \<Rightarrow> string \<Rightarrow> RegisterHub \<Rightarrow> LogCore \<Rightarrow> bool" where
  "fold_ok R now t h s \<longleftrightarrow> fst (passLoop R t now (topicState h t, sideOf h s)) = None"

definition runnable :: "string \<Rightarrow> RegisterHub \<Rightarrow> bool" where
  "runnable t h \<longleftrightarrow> \<not> rh_closed h \<and> t \<notin> set (rh_materializing h)"

lemma materialize_upToDate:
  assumes "tracked R t h s" "log_table_ok (lc_db s)" "causal_backward t (lc_db s)" "runnable t h" "fold_ok R now t h s"
    and run: "materialize R now t h s = (err, h', s')"
  shows "upToDate R t (lc_db s') (topicState h' t)" "same_log (lc_db s) (lc_db s')"
    "st_base (topicState h' t) = st_base (topicState h t)" "tracked R t h' s'"
    "rh_tables h' t = Some (List.map_filter (\<lambda>(key, ks). regRow key ks) (st_keys (topicState h' t)))"
proof -
  obtain d0 where d0: "log_table_ok d0" "grows d0 (lc_db s)" "upToDate R t d0 (topicState h t)"
    "verdicts_from R t d0 (rh_verdicts h)" using assms(1) by (auto simp: tracked_def)
  obtain st sd where p: "passLoop R t now (topicState h t, sideOf h s) = (None, st, sd)"
    using assms(5) unfolding fold_ok_def by (metis fst_conv prod_cases3)
  note sh = materialize_shape [OF _ _ p run]
  have db: "fs_db (sideOf h s) = lc_db s" "fs_verdicts (sideOf h s) = rh_verdicts h" by (simp_all add: sideOf_def)
  have sided: "topic_sided R t (sideOf h s)"
    using verdicts_sided [OF assms(2) d0(2) _ db(1)] d0(4) by (simp add: db)
  have mid: "midPass R t (fs_db (sideOf h s)) (topicState h t)"
    unfolding db by (rule midPass_start [OF d0(1) assms(2) d0(2) assms(3) d0(3)])
  note up = passLoop_upToDate [OF p sided mid]
  have r: "topicState h' t = st" "lc_db s' = fs_db sd" "rh_verdicts h' = fs_verdicts sd"
    "rh_tables h' t = Some (List.map_filter (\<lambda>(key, ks). regRow key ks) (st_keys st))"
    using sh assms(4) by (simp_all add: runnable_def)
  show "upToDate R t (lc_db s') (topicState h' t)" "same_log (lc_db s) (lc_db s')"
    "st_base (topicState h' t) = st_base (topicState h t)"
    "rh_tables h' t = Some (List.map_filter (\<lambda>(key, ks). regRow key ks) (st_keys (topicState h' t)))"
    using up r db by simp_all
  have ent: "e \<in> set (topicEntries (lc_db s) t)" if "e \<in> set (topicEntries d0 t)" for e
    using grows_entries [OF d0(2) that] .
  have vf: "verdicts_from R t (lc_db s) (rh_verdicts h)"
    using d0(4) ent unfolding verdicts_from_def by blast
  have "verdicts_from R t (lc_db s) (fs_verdicts sd)"
    using passLoop_verdicts [OF p sided] vf by (simp add: db)
  then have "verdicts_from R t (lc_db s') (rh_verdicts h')"
    using up r db verdicts_from_cong by metis
  then show "tracked R t h' s'"
    unfolding tracked_def using up r db log_table_same assms(2) grows_refl by metis
qed

text \<open>A hub that has just started tracks any log.\<close>

lemma tracked_fresh:
  assumes "rh_states h t = None" "rh_verdicts h = Map.empty" "log_table_ok (lc_db s)"
  shows "tracked R t h s"
proof -
  have st: "topicState h t = freshState h t" using assms(1) by (simp add: topicState_def)
  have e: "topicRows empty_db t = []" by (simp add: topicRows_def empty_db_def)
  have s: "sortedEntries empty_db t c = []" for c by (simp add: sortedEntries_def topicEntries_def e)
  have "st_lastRowid (freshState h t) = 0"
    by (simp add: freshState_def emptyTopicState_def split: option.split prod.split)
  moreover have "noRowid (freshState h t) = refStart (st_base (freshState h t))"
    by (simp add: freshState_def refStart_def clearedState_def emptyTopicState_def noRowid_def
        split: option.split prod.split)
  ultimately have "upToDate R t empty_db (topicState h t)"
    unfolding upToDate_def s st e by (simp add: regRef_def resState_def)
  moreover have "grows empty_db (lc_db s)"
    using assms(3) by (auto simp: grows_def empty_db_def log_table_ok_def)
  ultimately show ?thesis
    unfolding tracked_def using assms(2) by (intro exI [of _ empty_db]) (simp add: verdicts_from_def)
qed



section \<open>The state at a cut\<close>

definition uptoOrd :: "Order \<Rightarrow> LogEntry list \<Rightarrow> LogEntry list" where
  "uptoOrd ord es = takeWhile (\<lambda>e. orderCompare (orderOf e) ord \<le> 0) es"

lemma takeWhile_stops: "length (takeWhile P b) < length b \<Longrightarrow> takeWhile P (b @ r) = takeWhile P b"
  by (induction b) auto

lemma takeWhile_whole: "\<not> length (takeWhile P b) < length b \<Longrightarrow>
    takeWhile P b = b \<and> takeWhile P (b @ r) = b @ takeWhile P r"
  by (induction b) (auto split: if_splits)

lemma stateAtLoop_is_fold:
  "log_table_ok (fs_db (snd p)) \<Longrightarrow>
   stateAtLoop R t now ord cursor p = foldAll R t now ReplayMode (uptoOrd ord (sortedEntries (fs_db (snd p)) t cursor)) p"
proof (induction R t now ord cursor p rule: stateAtLoop.induct)
  case (1 R t now ord cursor p)
  let ?P = "\<lambda>e. orderCompare (orderOf e) ord \<le> 0"
  let ?all = "sortedEntries (fs_db (snd p)) t cursor"
  let ?batch = "take REG_PAGE ?all"
  let ?front = "takeWhile ?P ?batch"
  have page: "entriesAfterOrder (fs_db (snd p)) t cursor REG_PAGE = ?batch" by (rule entriesAfterOrder_page)
  have split: "?all = ?batch @ drop REG_PAGE ?all" by simp
  show ?case
  proof (cases "?batch = []")
    case True
    then have "?all = []" by (simp add: REG_PAGE_def)
    then show ?thesis by (simp add: stateAtLoop.simps [of R t now ord cursor p] page uptoOrd_def)
  next
    case False
    obtain err st sd where f: "foldAll R t now ReplayMode ?front p = (err, st, sd)" by (metis prod_cases3)
    show ?thesis
    proof (cases "length ?front < length ?batch")
      case True
      then have "uptoOrd ord ?all = ?front"
        unfolding uptoOrd_def by (subst split) (rule takeWhile_stops)
      then show ?thesis
        using False True by (cases err) (simp_all add: stateAtLoop.simps [of R t now ord cursor p] page f Let_def)
    next
      case full: False
      have front: "?front = ?batch" using takeWhile_whole [OF full] by blast
      have upto: "uptoOrd ord ?all = ?batch @ uptoOrd ord (drop REG_PAGE ?all)"
        unfolding uptoOrd_def using takeWhile_whole [OF full, of "drop REG_PAGE ?all"] by (subst split) blast
      have log: "same_log (fs_db (snd p)) (fs_db sd)" using foldAll_log [OF f] .
      have rest: "sortedEntries (fs_db sd) t (Some (orderOf (last ?batch))) = drop REG_PAGE ?all"
        using sortedEntries_next [OF 1(2) _ False, of t cursor "drop REG_PAGE ?all"] sortedEntries_cong [OF log] by simp
      show ?thesis
      proof (cases err)
        case None
        have "stateAtLoop R t now ord (Some (orderOf (last ?batch))) (st, sd) =
            foldAll R t now ReplayMode (uptoOrd ord (sortedEntries (fs_db sd) t (Some (orderOf (last ?batch))))) (st, sd)"
          using 1(1) [OF page [symmetric] refl False f [unfolded None, symmetric]] full 1(2) log_table_same [OF log] by simp
        then show ?thesis
          using False full f None unfolding upto foldAll_append rest
          by (simp add: stateAtLoop.simps [of R t now ord cursor p] page front Let_def)
      next
        case (Some x)
        then show ?thesis
          using False f unfolding upto foldAll_append
          by (simp add: stateAtLoop.simps [of R t now ord cursor p] page front Let_def)
      qed
    qed
  qed
qed

lemma foldEntry_base:
  "foldEntry R t now mode e (st\<lparr>st_base := b\<rparr>, sd) =
     (case foldEntry R t now mode e (st, sd) of (err, st', sd') \<Rightarrow> (err, st'\<lparr>st_base := b\<rparr>, sd'))"
  by (simp add: foldEntry_def Let_def split: option.split sum.split prod.split)

lemma foldAll_base:
  "foldAll R t now mode es (st\<lparr>st_base := b\<rparr>, sd) =
     (case foldAll R t now mode es (st, sd) of (err, st', sd') \<Rightarrow> (err, st'\<lparr>st_base := b\<rparr>, sd'))"
proof (induction es arbitrary: st sd)
  case (Cons e es)
  obtain err st1 sd1 where "foldEntry R t now mode e (st, sd) = (err, st1, sd1)" by (metis prod_cases3)
  then show ?case using Cons.IH by (cases err) (simp_all add: foldEntry_base)
qed simp

text \<open>The floor is absent or not past the cut.\<close>

definition base_before :: "TopicState \<Rightarrow> Order \<Rightarrow> bool" where
  "base_before st ord \<longleftrightarrow> (case baseOrd st of None \<Rightarrow> True | Some b \<Rightarrow> orderCompare b ord \<le> 0)"

lemma stateAt_is_fold:
  assumes "topic_sided R t (sideOf h s)" "base_before (topicState h t) ord"
  shows "fst (stateAt R now t ord h s) =
    (case regRef R t (lc_db s) (st_base (topicState h t))
        (uptoOrd ord (sortedEntries (lc_db s) t (baseOrd (topicState h t)))) of
       (None, st) \<Rightarrow> Inr (snapshotOf (st_keys st)) | (Some x, st) \<Rightarrow> Inl x)"
proof -
  let ?live = "topicState h t" and ?sd = "sideOf h s"
  let ?es = "uptoOrd ord (sortedEntries (lc_db s) t (baseOrd ?live))"
  define start where "start = (refStart (st_base ?live))\<lparr>st_base := None\<rparr>"
  have db: "fs_db ?sd = lc_db s" by (simp add: sideOf_def)
  have table: "log_table_ok (fs_db ?sd)" using assms(1) by (simp add: topic_sided_def)
  have sub: "set ?es \<subseteq> set (topicEntries (lc_db s) t)"
    by (auto simp: uptoOrd_def sortedEntries_set dest!: set_takeWhileD)
  obtain err st sd where f: "foldAll R t now ReplayMode ?es (start, ?sd) = (err, st, sd)" by (metis prod_cases3)
  have loop: "stateAtLoop R t now ord (baseOrd ?live) (start, ?sd) = (err, st, sd)"
    using stateAtLoop_is_fold [of "(start, ?sd)" R t now ord "baseOrd ?live"] table f db by simp
  have shape: "fst (stateAt R now t ord h s) = (case err of Some x \<Rightarrow> Inl x | None \<Rightarrow> Inr (snapshotOf (st_keys st)))"
  proof (cases "st_base ?live")
    case None
    then show ?thesis
      using loop by (simp add: stateAt_def Let_def start_def refStart_def clearedState_def emptyTopicState_def baseOrd_def)
  next
    case (Some b)
    then show ?thesis
      using loop assms(2)
      by (cases b) (simp add: stateAt_def Let_def start_def refStart_def clearedState_def emptyTopicState_def
          baseOrd_def base_before_def cloneKeys_def)
  qed
  have "refStart (st_base ?live) = start\<lparr>st_base := st_base ?live\<rparr>"
    by (simp add: start_def refStart_def clearedState_def emptyTopicState_def split: option.split prod.split)
  moreover have "topic_sided R t (pureSide (lc_db s))" using table db by (simp add: sided_pure)
  ultimately have "regRef R t (lc_db s) (st_base ?live) ?es = (err, st\<lparr>st_base := st_base ?live\<rparr>)"
    unfolding regRef_def
    using same_fold [OF assms(1), of "pureSide (lc_db s)" ?es now ReplayMode start 0 ReplayMode] f sub db
    by (simp add: foldAll_base resState_def pureSide_def split_beta)
  then show ?thesis using shape by (cases err) simp_all
qed

text \<open>C9. A historical state is the fold of a prefix: \<open>stateAt\<close> a cut that is not before the base floor
  is the snapshot of the fold, in total order from the floor, of exactly the held entries at or
  before the cut; and at the order a live, up-to-date state has reached it is the live snapshot.\<close>

theorem state_at_cut_is_prefix_fold:
  assumes "topic_sided R t (sideOf h s)" and "base_before (topicState h t) ord"
  shows "fst (stateAt R now t ord h s) =
    (case regRef R t (lc_db s) (st_base (topicState h t))
        (uptoOrd ord (sortedEntries (lc_db s) t (baseOrd (topicState h t)))) of
       (None, st) \<Rightarrow> Inr (snapshotOf (st_keys st)) | (Some x, st) \<Rightarrow> Inl x) \<and>
    (upToDate R t (lc_db s) (topicState h t) \<longrightarrow> st_ord (topicState h t) = Some ord \<longrightarrow>
      fst (stateAt R now t ord h s) = Inr (snapshotState h t))"
proof (intro conjI impI)
  let ?st = "topicState h t"
  let ?es = "sortedEntries (lc_db s) t (baseOrd ?st)"
  show main: "fst (stateAt R now t ord h s) =
    (case regRef R t (lc_db s) (st_base ?st) (uptoOrd ord ?es) of
       (None, st) \<Rightarrow> Inr (snapshotOf (st_keys st)) | (Some x, st) \<Rightarrow> Inl x)"
    by (rule stateAt_is_fold [OF assms])
  assume up: "upToDate R t (lc_db s) ?st" and ord: "st_ord ?st = Some ord"
  have ref: "regRef R t (lc_db s) (st_base ?st) ?es = (None, noRowid ?st)" using up by (simp add: upToDate_def)
  have table: "log_table_ok (lc_db s)" using assms(1) by (simp add: topic_sided_def sideOf_def)
  have "orderCompare (orderOf e) ord \<le> 0" if "e \<in> set ?es" for e
    using sorted_last_max [OF sortedEntries_in_order [OF table] that] regRef_ord(1) [OF ref] ord that
    by (auto split: if_splits)
  then have "uptoOrd ord ?es = ?es" by (simp add: uptoOrd_def takeWhile_eq_all_conv)
  then show "fst (stateAt R now t ord h s) = Inr (snapshotState h t)"
    using main ref by (simp add: snapshotState_def)
qed

end
