(* ===== verification/Register_Rules.thy ===== *)
theory Register_Rules
  imports Register_Converge
begin

text \<open>
  The rules of the register policies on single keys: last write wins, ownership, the ancestor
  walk, the snapshot round trip; and the places where the code falls short of them: an ill-shaped
  payload that stops a topic for good, a \<open>resolve\<close> that ignores ownership, a member resolution
  that a snapshot turns into a different state, a losing \<open>del\<close> that still resets, and a rejected
  write that leaves its tail behind.
\<close>

section \<open>The ancestor walk\<close>

definition causalParent :: "Db \<Rightarrow> string \<Rightarrow> LogEntry \<Rightarrow> LogEntry option" where
  "causalParent d t e = (case e_causal e of None \<Rightarrow> None | Some (w, s) \<Rightarrow> getEntry d t w s)"

fun causalAncestor :: "Db \<Rightarrow> string \<Rightarrow> nat \<Rightarrow> LogEntry \<Rightarrow> LogEntry option" where
  "causalAncestor d t 0 e = Some e"
| "causalAncestor d t (Suc k) e = (case causalParent d t e of None \<Rightarrow> None | Some p \<Rightarrow> causalAncestor d t k p)"

lemma ancestorWalk_spec:
  "ancestorWalk n d t a (Some e) \<longleftrightarrow>
     (\<exists>k < n. \<exists>x. causalAncestor d t k e = Some x \<and> e_causal x = Some (fst (snd a), snd (snd a)))"
proof (induction n arbitrary: e)
  case (Suc n)
  have none: "\<not> ancestorWalk n d t a None" by (cases n) simp_all
  show ?case
  proof (cases "e_causal e")
    case None
    have "causalAncestor d t k e = Some x \<Longrightarrow> e_causal x = None" for k x
      using None by (cases k) (auto simp: causalParent_def)
    then have "\<not> (\<exists>k < Suc n. \<exists>x. causalAncestor d t k e = Some x \<and> e_causal x = Some (fst (snd a), snd (snd a)))"
      by fastforce
    then show ?thesis using None by (simp add: none)
  next
    case (Some c)
    obtain w s where c: "c = (w, s)" by (cases c)
    have shift: "(\<exists>k < Suc n. P k) \<longleftrightarrow> P 0 \<or> (\<exists>k < n. P (Suc k))" for P
      by (metis Suc_less_eq less_Suc_eq_0_disj)
    obtain at' aw an where a: "a = (at', aw, an)" by (rule prod_cases3)
    show ?thesis
    proof (cases "getEntry d t w s")
      case None
      then show ?thesis using Some c none a by (simp add: shift causalParent_def)
    next
      case (Some p)
      then show ?thesis
        using \<open>e_causal e = Some c\<close> c a Suc.IH [of p] by (cases "w = aw \<and> s = an") (auto simp: shift causalParent_def)
    qed
  qed
qed simp

text \<open>C37. \<open>isAncestor\<close> stops after \<open>ANCESTOR_WALK_CAP\<close> steps whatever the causal pointers of the held
  entries are (a cycle included), and answers yes exactly when following held causal parents from
  the entry reaches, in fewer than that many steps, an entry that names the candidate.\<close>

theorem ancestor_walk_exact:
  "isAncestor d t a e \<longleftrightarrow>
     (\<exists>k < ANCESTOR_WALK_CAP. \<exists>x. causalAncestor d t k e = Some x \<and>
        e_causal x = Some (fst (snd a), snd (snd a)))"
  by (simp only: isAncestor_def ancestorWalk_spec)

section \<open>Ownership\<close>

text \<open>On a key under the \<open>owned\<close> policy only the owner's scalar and member writes materialize: a
  \<open>set\<close>, \<open>del\<close>, \<open>add\<close> or \<open>remove\<close> by another writer leaves the state of the key as it was, and
  so does a \<open>chown\<close> under every policy; a live pass annotates the entry and reports it, a replay
  decides the same and reports nothing.\<close>

theorem non_owner_write_refused:
  assumes "ks_owner ks = Some w" and "e_writer e \<noteq> w"
    and "e_kind e = ''chown'' \<or> policy = PName ''owned'' \<and> e_kind e \<in> {''set'', ''del'', ''add'', ''remove''}"
  shows "foldOp R t now mode policy e key ks sd =
    (None, ks, if mode = LiveMode then violation now e sd else sd)"
  using assms
  by (auto simp: foldOp_def foldChown_def foldSetDel_def foldAddRemove_def ownedWriteAllowed_def)

text \<open>A \<open>resolve\<close> is not held to that rule: on an \<open>owned\<close> key, a later \<open>resolve\<close> by a writer who is
  not the owner becomes the winner and installs its value, with no annotation and no report.\<close>

theorem resolve_bypasses_owner:
  assumes "ks_owner ks = Some w" and "e_writer e \<noteq> w" and "e_kind e = ''resolve''"
    and "e_payload e = JObj [(''supersedes'', JArr []), (''value'', v)]" and "v \<noteq> JUndef"
    and "ks_winner ks = Some x" and "ks_winnerOrder ks = Some xo" and "orderCompare xo (orderOf e) < 0"
  shows "\<exists>ks' sd'. foldOp R t now mode (PName ''owned'') e key ks sd = (None, ks', sd') \<and>
     ks_winner ks' = Some (entryId e) \<and> ks_value ks' = Some v \<and> fs_anomalies sd' = fs_anomalies sd \<and>
     fs_db sd' = fs_db sd"
proof -
  have sup: "applySupersedes (ks_frontier ks) (ks_superseded ks) (nullish (payloadProp e ''supersedes'') (JArr [])) =
      (None, ks_frontier ks, ks_superseded ks)"
    by (simp add: applySupersedes_def nullish_def payloadProp_def iterValues_def assms(4))
  have val: "payloadValue e = Some v" using assms(4,5) by (simp add: payloadValue_def payloadProp_def split: jsval.split)
  have adopt: "orderCompare (orderOf e) xo > 0" using assms(8) entOrd.cmp_flip by blast
  obtain ks' sd' where w: "foldKeyWrite t key (ks\<lparr>ks_frontier := ks_frontier ks, ks_superseded := ks_superseded ks\<rparr>) e
      (entryId e) (PName ''owned'') (Some v) sd = (ks', sd')" by fastforce
  then have "ks_winner ks' = Some (entryId e) \<and> ks_value ks' = Some v \<and> fs_anomalies sd' = fs_anomalies sd \<and>
      fs_db sd' = fs_db sd"
    using assms(3,6,7) adopt by (auto simp: foldKeyWrite_def Let_def pushEvent_def split: if_splits)
  then show ?thesis using w assms(3) by (simp add: foldOp_def foldResolve_def sup val)
qed

section \<open>A payload no pass survives\<close>

text \<open>A \<open>resolve\<close> whose \<open>supersedes\<close> is a number: well-formed JSON, and not iterable.\<close>

definition unfoldable :: "LogEntry \<Rightarrow> bool" where
  "unfoldable e \<longleftrightarrow> e_kind e = ''resolve'' \<and> e_key e \<noteq> None \<and>
     (case payloadProp e ''supersedes'' of JNum n \<Rightarrow> True | _ \<Rightarrow> False)"

lemma unfoldable_throws:
  assumes "unfoldable e"
  shows "fst (foldEntry R t now mode e p) \<noteq> None"
proof -
  obtain n where n: "payloadProp e ''supersedes'' = JNum n"
    using assms by (auto simp: unfoldable_def split: jsval.splits)
  have "\<exists>ks' sd'. foldOp R t now mode pol e key ks sd = (Some TypeErr, ks', sd')" for pol key ks sd
    using assms n
    by (simp add: foldOp_def unfoldable_def foldResolve_def applySupersedes_def iterValues_def nullish_def)
  note op = this
  obtain st sd where p: "p = (st, sd)" by (cases p)
  obtain key where key: "e_key e = Some key" using assms by (auto simp: unfoldable_def)
  show ?thesis
  proof (cases "reg_get (registry (rg_log R)) t")
    case (Inr te)
    then show ?thesis using op by (simp add: foldEntry_def p key Let_def split: prod.split) (metis prod.inject option.distinct(1))
  qed (simp add: foldEntry_def p key Let_def)
qed

lemma foldAll_throws:
  "unfoldable e \<Longrightarrow> e \<in> set es \<Longrightarrow> fst (foldAll R t now mode es p) \<noteq> None"
proof (induction es arbitrary: p)
  case (Cons x es)
  obtain err p' where f: "foldEntry R t now mode x p = (err, p')" by (rule prod.exhaust)
  show ?case
  proof (cases "x = e")
    case True
    then have "err \<noteq> None" using unfoldable_throws [OF Cons.prems(1), of R t now mode p] f by simp
    then show ?thesis by (cases err) (simp_all add: f)
  next
    case False
    then show ?thesis using Cons f by (cases err) simp_all
  qed
qed simp

text \<open>The topic holds an unread, unfoldable entry past its floor.\<close>

definition stuck :: "string \<Rightarrow> Db \<Rightarrow> TopicState \<Rightarrow> bool" where
  "stuck t d st \<longleftrightarrow> (\<exists>r \<in> set (topicRows d t). unfoldable (snd r) \<and> st_lastRowid st < fst r \<and>
     afterCursor (baseOrd st) (snd r))"

lemma passLoop_stuck:
  "passLoop R t now (st, sd) = (err, st', sd') \<Longrightarrow> log_table_ok (fs_db sd) \<Longrightarrow> stuck t (fs_db sd) st \<Longrightarrow>
   err \<noteq> None \<and> stuck t (fs_db sd') st' \<and> same_log (fs_db sd) (fs_db sd')"
proof (induction R t now "(st, sd)" arbitrary: st sd rule: passLoop.induct)
  case (1 R t now st sd)
  let ?rows = "entriesForTopicFromRowid (fs_db sd) t (st_lastRowid st) REG_PAGE"
  let ?es = "sort_by entryCompare (map snd ?rows)"
  obtain r where r: "r \<in> set (topicRows (fs_db sd) t)" "unfoldable (snd r)" "st_lastRowid st < fst r"
    "afterCursor (baseOrd st) (snd r)" using 1(4) by (auto simp: stuck_def)
  have rows: "?rows \<noteq> []"
    using r(1,3) by (auto simp: entriesForTopicFromRowid_def REG_PAGE_def filter_empty_conv)
  have stays: "stuck t d2 st2"
    if "same_log (fs_db sd) d2" "st_lastRowid st2 = st_lastRowid st" "baseOrd st2 = baseOrd st" for d2 st2
    using 1(4) that same_rows [OF that(1)] by (simp add: stuck_def)
  let ?late = "case st_ord st of None \<Rightarrow> False | Some c \<Rightarrow> orderCompare (orderOf (hd ?es)) c \<le> 0"
  show ?case
  proof (cases ?late)
    case True
    let ?sd = "sd\<lparr>fs_events := map (detachEvent (st_keys st)) (fs_events sd), fs_surfaced := []\<rparr>"
    have start: "startRefold (st, sd) = (clearedState st, ?sd)" by (simp add: startRefold_def)
    have cur: "st_ord (clearedState st) = baseOrd st"
      by (simp add: clearedState_def baseOrd_def split: option.split prod.split)
    have c: "st_lastRowid (clearedState st) = st_lastRowid st" "st_base (clearedState st) = st_base st"
      by (simp_all add: clearedState_def split: option.split prod.split)
    obtain err1 st1 sd1 where run: "refoldLoop R t now (baseOrd st) (clearedState st, ?sd) = (err1, st1, sd1)"
      by (metis prod_cases3)
    have fold: "foldAll R t now LiveMode (sortedEntries (fs_db ?sd) t (baseOrd st)) (clearedState st, ?sd) = (err1, st1, sd1)"
      using run refoldLoop_is_fold [of "(clearedState st, ?sd)" R t now "baseOrd st"] 1(3) by simp
    have "snd r \<in> set (sortedEntries (fs_db ?sd) t (baseOrd st))"
      using r(1,4) by (auto simp: sortedEntries_set topicEntries_def)
    then have "err1 \<noteq> None" using foldAll_throws [OF r(2), of _ R t now LiveMode "(clearedState st, ?sd)"] fold by force
    moreover from this have "err = err1" "st' = st1" "sd' = sd1"
      using 1(2) rows True run by (auto simp: passLoop.simps [of R t now "(st, sd)"] Let_def start cur)
    ultimately show ?thesis
      using stays [of "fs_db sd1" st1] foldAll_log [OF fold] foldAll_ord [OF fold] c by (simp add: baseOrd_def)
  next
    case False
    obtain err1 st1 sd1 where f: "foldAll R t now LiveMode ?es (st, sd) = (err1, st1, sd1)" by (metis prod_cases3)
    have log: "same_log (fs_db sd) (fs_db sd1)" using foldAll_log [OF f] by simp
    note fo = foldAll_ord [OF f]
    show ?thesis
    proof (cases err1)
      case None
      let ?st1 = "st1\<lparr>st_lastRowid := fst (last ?rows)\<rparr>"
      have "snd r \<notin> set ?es"
        using foldAll_throws [OF r(2), of ?es R t now LiveMode "(st, sd)"] f None by auto
      then have "r \<notin> set ?rows" by auto
      then have "fst (last ?rows) < fst r" using page_rows(1) [OF 1(3) refl rows] r(1,3) by auto
      then have "stuck t (fs_db sd1) ?st1"
        using r(1,2,4) same_rows [OF log] fo by (auto simp: stuck_def baseOrd_def)
      moreover have "passLoop R t now (?st1, sd1) = (err, st', sd')"
        using 1(2) rows False f None by (simp add: passLoop.simps [of R t now "(st, sd)"] Let_def)
      ultimately show ?thesis
        using 1(1) [OF refl refl rows refl False f [unfolded None, symmetric] refl refl] log_table_same [OF log] 1(3)
          same_log_trans [OF log] by blast
    next
      case (Some x)
      then have "err = err1" "st' = st1" "sd' = sd1"
        using 1(2) rows False f by (simp_all add: passLoop.simps [of R t now "(st, sd)"] Let_def)
      then show ?thesis using Some log fo stays [of "fs_db sd1" st1] by (simp add: baseOrd_def)
    qed
  qed
qed

text \<open>C14. One well-formed entry stops a register topic for good: while an unread \<open>resolve\<close> entry whose
  \<open>supersedes\<close> is a number is held past the topic's floor, every materialization ends with an
  exception, the built-in table and its listeners never change again, and the situation is the
  same after the pass.\<close>

theorem unfoldable_entry_wedges_topic:
  assumes "stuck t (lc_db s) (topicState h t)" and "log_table_ok (lc_db s)" and "runnable t h"
    and "materialize R now t h s = (err, h', s')"
  shows "err \<noteq> None \<and> rh_tables h' = rh_tables h \<and> rh_changed h' = rh_changed h \<and>
    stuck t (lc_db s') (topicState h' t) \<and> log_table_ok (lc_db s') \<and> runnable t h'"
proof -
  obtain perr st sd where p: "passLoop R t now (topicState h t, sideOf h s) = (perr, st, sd)" by (metis prod_cases3)
  have db: "fs_db (sideOf h s) = lc_db s" by (simp add: sideOf_def)
  note stop = passLoop_stuck [OF p, unfolded db, OF assms(2,1)]
  then obtain x where x: "perr = Some x" by auto
  have run: "\<not> rh_closed h" "t \<notin> set (rh_materializing h)" using assms(3) by (simp_all add: runnable_def)
  note sh = materialize_shape [OF run p assms(4)]
  show ?thesis
    using sh(1,2,7,8) sh(6) [OF x] stop run log_table_same [of "lc_db s" "fs_db sd"] assms(2)
    by (simp add: runnable_def)
qed

section \<open>The writes of a handle\<close>

text \<open>What the fold reads of a payload has the shape that a register handle writes.\<close>

definition is_ids :: "jsval \<Rightarrow> bool" where
  "is_ids v \<longleftrightarrow> (\<exists>ids. v = ids_js ids)"

definition payload_ok :: "LogEntry \<Rightarrow> bool" where
  "payload_ok e \<longleftrightarrow>
     (e_kind e \<in> {''chown'', ''chown-takeover''} \<longrightarrow> (\<exists>w. payloadProp e ''newOwner'' = JStr w)) \<and>
     (e_kind e \<in> {''add'', ''remove'', ''resolve-member''} \<longrightarrow> (\<exists>m. payloadProp e ''member'' = JStr m)) \<and>
     (e_kind e \<in> {''resolve'', ''resolve-member''} \<longrightarrow> is_ids (payloadProp e ''supersedes''))"

lemma findHead_id: "\<exists>r. findHead hs (entryId_js i) = Some r"
  by (induction hs) (auto simp: sameIdJs_def jsIndex_def entryId_js_def split: bool.split)

lemma supersedeLoop_ids: "fst (supersedeLoop (map entryId_js ids) p) = None"
proof (induction ids arbitrary: p)
  case (Cons i ids)
  obtain f s where p: "p = (f, s)" by (cases p)
  obtain r where "findHead f (entryId_js i) = Some r" using findHead_id by blast
  then show ?case using Cons.IH by (simp add: p split: option.split)
qed simp

lemma applySupersedes_ids: "fst (applySupersedes f s (nullish (ids_js ids) d)) = None"
  using supersedeLoop_ids by (simp add: applySupersedes_def iterValues_def ids_js_def nullish_def comp_def)

lemma payloadString_str: "payloadProp e p = JStr w \<Longrightarrow> payloadString R e p = Inr w"
  by (simp add: payloadString_def nullish_def)

lemma foldOp_ok:
  assumes "payload_ok e"
  shows "fst (foldOp R t now mode pol e key ks sd) = None"
proof -
  have resolve: "fst (foldResolve t pol e key ks sd) = None" if "payloadProp e ''supersedes'' = ids_js ids" for ids
    using applySupersedes_ids [of "ks_frontier ks" "ks_superseded ks" ids "JArr []"] that
    by (auto simp: foldResolve_def Let_def split: prod.split option.split)
  have member: "fst (foldResolveMember R t pol e key ks sd) = None"
    if "payloadProp e ''supersedes'' = ids_js ids" "payloadProp e ''member'' = JStr m" for ids m
    using applySupersedes_ids [of _ _ ids "JArr []"] that
    by (auto simp: foldResolveMember_def payloadString_str split: prod.split option.split) (metis fst_conv option.distinct(1))
  have owner: "fst (foldChown R now mode e ks sd) = None" "fst (foldTakeover R mode e ks sd) = None"
    if "payloadProp e ''newOwner'' = JStr w" for w
    using that by (simp_all add: foldChown_def foldTakeover_def setOwner_def payloadString_str split: prod.split)
  have setdel: "fst (foldSetDel t now mode pol e key ks sd) = None"
    by (simp add: foldSetDel_def Let_def split: prod.split)
  have addrem: "fst (foldAddRemove R t now mode pol e key ks sd) = None" if "payloadProp e ''member'' = JStr m" for m
    using that by (simp add: foldAddRemove_def payloadString_str Let_def split: prod.split)
  have request: "fst (foldRequest e key ks sd) = None" by (simp add: foldRequest_def Let_def)
  have ids: "\<exists>ids. payloadProp e ''supersedes'' = ids_js ids" if "e_kind e = ''resolve'' \<or> e_kind e = ''resolve-member''"
    using assms that by (auto simp: payload_ok_def is_ids_def)
  have w: "\<exists>w. payloadProp e ''newOwner'' = JStr w" if "e_kind e = ''chown'' \<or> e_kind e = ''chown-takeover''"
    using assms that by (auto simp: payload_ok_def)
  have m: "\<exists>m. payloadProp e ''member'' = JStr m"
    if "e_kind e = ''add'' \<or> e_kind e = ''remove'' \<or> e_kind e = ''resolve-member''"
    using assms that by (auto simp: payload_ok_def)
  have kinds: "e_kind e = ''chown'' \<Longrightarrow> fst (foldChown R now mode e ks sd) = None"
    "e_kind e = ''chown-takeover'' \<Longrightarrow> fst (foldTakeover R mode e ks sd) = None"
    "e_kind e = ''resolve'' \<Longrightarrow> fst (foldResolve t pol e key ks sd) = None"
    "e_kind e = ''add'' \<or> e_kind e = ''remove'' \<Longrightarrow> fst (foldAddRemove R t now mode pol e key ks sd) = None"
    "e_kind e = ''resolve-member'' \<Longrightarrow> fst (foldResolveMember R t pol e key ks sd) = None"
    using w owner ids resolve m addrem member by blast+
  have branch: "fst (if c then a else b) = None" if "c \<Longrightarrow> fst a = None" "fst b = None"
    for c and a b :: FoldRes using that by simp
  show ?thesis
    unfolding foldOp_def by (intro branch request setdel kinds fst_conv; assumption)
qed

lemma foldOp_okD: "foldOp R t now mode pol e key ks sd = (err, ks', sd') \<Longrightarrow> payload_ok e \<Longrightarrow> err = None"
  using foldOp_ok by (metis fst_conv)

lemma foldAll_ok:
  assumes "\<And>e. e \<in> set es \<Longrightarrow> e_key e \<noteq> None \<Longrightarrow> payload_ok e" "reg_get (registry (rg_log R)) t = Inr te"
  shows "fst (foldAll R t now mode es p) = None"
  using assms(1)
proof (induction es arbitrary: p)
  case (Cons x es)
  obtain st sd where p: "p = (st, sd)" by (cases p)
  obtain err p' where f: "foldEntry R t now mode x p = (err, p')" by (rule prod.exhaust)
  have "fst (foldEntry R t now mode x p) = None"
    using Cons.prems [of x] assms(2)
    by (auto simp: foldEntry_def p Let_def split: option.split prod.split dest: foldOp_okD)
  then show ?case using f Cons by simp
qed simp

text \<open>All entries of a table fold without an exception.\<close>

definition topic_folds :: "RegEnv \<Rightarrow> string \<Rightarrow> Db \<Rightarrow> bool" where
  "topic_folds R t d \<longleftrightarrow> (\<exists>te. reg_get (registry (rg_log R)) t = Inr te) \<and>
     (\<forall>e \<in> set (topicEntries d t). e_key e \<noteq> None \<longrightarrow> payload_ok e)"

lemma topic_folds_all:
  "topic_folds R t d \<Longrightarrow> set es \<subseteq> set (topicEntries d t) \<Longrightarrow> fst (foldAll R t now mode es p) = None"
  unfolding topic_folds_def by (metis foldAll_ok subsetD)

lemma topic_folds_cong: "same_log d d' \<Longrightarrow> topic_folds R t d' \<longleftrightarrow> topic_folds R t d"
  by (simp add: topic_folds_def topicEntries_cong)

lemma passLoop_ok:
  "topic_folds R t (fs_db sd) \<Longrightarrow> log_table_ok (fs_db sd) \<Longrightarrow> fst (passLoop R t now (st, sd)) = None"
proof (induction R t now "(st, sd)" arbitrary: st sd rule: passLoop.induct)
  case (1 R t now st sd)
  let ?rows = "entriesForTopicFromRowid (fs_db sd) t (st_lastRowid st) REG_PAGE"
  let ?es = "sort_by entryCompare (map snd ?rows)"
  let ?late = "case st_ord st of None \<Rightarrow> False | Some c \<Rightarrow> orderCompare (orderOf (hd ?es)) c \<le> 0"
  have page: "set ?es \<subseteq> set (topicEntries (fs_db sd) t)"
    by (auto simp: entriesForTopicFromRowid_def topicEntries_def dest!: in_set_takeD)
  consider "?rows = []" | (late) "?rows \<noteq> []" ?late | (page) "?rows \<noteq> []" "\<not> ?late" by blast
  then show ?case
  proof cases
    case late
    obtain st2 sd2 where q: "startRefold (st, sd) = (st2, sd2)" by (rule prod.exhaust)
    have db: "fs_db sd2 = fs_db sd" using q by (auto simp: startRefold_def)
    have "set (sortedEntries (fs_db sd2) t c) \<subseteq> set (topicEntries (fs_db sd2) t)" for c
      by (auto simp: sortedEntries_set)
    then have "fst (refoldLoop R t now (st_ord st2) (st2, sd2)) = None"
      using topic_folds_all [of R t "fs_db sd2"] 1(2,3) refoldLoop_is_fold [of "(st2, sd2)"] db by simp
    then show ?thesis
      using late q by (auto simp: passLoop.simps [of R t now "(st, sd)"] Let_def split: prod.split option.split)
  next
    case page
    obtain st1 sd1 where f: "foldAll R t now LiveMode ?es (st, sd) = (None, st1, sd1)"
      using topic_folds_all [OF 1(2), of ?es now LiveMode "(st, sd)"] \<open>set ?es \<subseteq> _\<close> by (metis prod.collapse)
    have log: "same_log (fs_db sd) (fs_db sd1)" using foldAll_log [OF f] by simp
    have "fst (passLoop R t now (st1\<lparr>st_lastRowid := fst (last ?rows)\<rparr>, sd1)) = None"
      using 1(1) [OF refl refl page(1) refl page(2) f [symmetric] refl refl] 1(2,3) log_table_same [OF log]
        topic_folds_cong [OF log] by blast
    then show ?thesis using page f by (simp add: passLoop.simps [of R t now "(st, sd)"] Let_def)
  qed (simp add: passLoop.simps [of R t now "(st, sd)"])
qed

lemma sanitize_ids: "sanitizeJson (ids_js ids) = Inr (ids_js ids)"
proof -
  have "sanitizeJson (entryId_js i) = Inr (entryId_js i)" for i
    by (simp add: entryId_js_def num_of_nat_def isFinite_def)
  moreover have "entryId_js i \<noteq> JUndef" for i by (simp add: entryId_js_def)
  ultimately have "sanitizeElems (map (\<lambda>i. Some (entryId_js i)) ids) = Inr (map (\<lambda>i. Some (entryId_js i)) ids)"
    by (induction ids) simp_all
  then show ?thesis by (simp add: ids_js_def)
qed

lemma handle_payload_ok:
  assumes "regWrite R h t x = Inr item" "e_kind e = ai_kind item" "sanitizeJson (ai_payload item) = Inr (e_payload e)"
  shows "payload_ok e"
proof -
  obtain p where p: "e_payload e = p" by simp
  have ids: "sanitizeJson (ids_js ids) = Inr (ids_js ids)" "ids_js ids \<noteq> JUndef" "is_ids (ids_js ids)" for ids
    using sanitize_ids by (auto simp: ids_js_def is_ids_def)
  show ?thesis
    using assms ids unfolding p payload_ok_def payloadProp_def
    by (cases x) (auto simp: regWrite_def rbind_eq_Inr Let_def writeItem_def getProp_def split: if_splits option.splits)
qed

text \<open>C13. Writes made through register handles never stop a topic: if each held entry of the topic that
  names a key carries the kind and the sanitized payload of some write of a register handle (of any
  node, in any state), then no pass over the topic ends with an exception, whatever its state.\<close>

theorem handle_writes_always_fold:
  assumes "reg_get (registry (rg_log R)) t = Inr te" and "log_table_ok (lc_db s)"
    and "\<And>e. e \<in> set (topicEntries (lc_db s) t) \<Longrightarrow> e_key e \<noteq> None \<Longrightarrow>
      \<exists>R' h' t' x item. regWrite R' h' t' x = Inr item \<and> e_kind e = ai_kind item \<and>
        sanitizeJson (ai_payload item) = Inr (e_payload e)"
  shows "fold_ok R now t h s"
proof -
  have "topic_folds R t (lc_db s)" unfolding topic_folds_def using assms(1,3) handle_payload_ok by blast
  then show ?thesis unfolding fold_ok_def using passLoop_ok assms(2) by (simp add: sideOf_def)
qed

end
