(* ===== verification/Register_Keys.thy ===== *)
theory Register_Keys
  imports Register_Rules
begin

text \<open>
  Single keys of a register: the value that a sequence of writes leaves behind, what a losing
  write of a first-writer-wins key does, and how the state of keys survives a snapshot.
\<close>

section \<open>Last write wins\<close>

definition wins_over :: "KeyState \<Rightarrow> Order option \<Rightarrow> bool" where
  "wins_over ks c \<longleftrightarrow> (case ks_winnerOrder ks of None \<Rightarrow> ks_winner ks = None
     | Some w \<Rightarrow> ks_winner ks \<noteq> None \<and> (case c of None \<Rightarrow> False | Some x \<Rightarrow> orderCompare w x \<le> 0))"

definition write_value :: "LogEntry \<Rightarrow> jsval option" where
  "write_value e = (if e_kind e = ''del'' then None else payloadValue e)"

lemma foldKeyWrite_wins:
  assumes "policy \<noteq> PName ''fww''" "ks_winner ks = None \<or> (\<exists>w. ks_winnerOrder ks = Some w \<and> orderCompare w (orderOf e) < 0)"
    and "foldKeyWrite t key ks e (entryId e) policy val sd = (ks', sd')"
  shows "ks_winner ks' = Some (entryId e) \<and> ks_winnerOrder ks' = Some (orderOf e) \<and> ks_scalar ks' = ks_scalar ks \<and>
    ks_owner ks' = ks_owner ks \<and>
    ks_value ks' = (if e_kind e = ''del'' then None else case val of None \<Rightarrow> ks_value ks | Some v \<Rightarrow> Some v)"
proof -
  have "orderCompare (orderOf e) w > 0" if "orderCompare w (orderOf e) < 0" for w
    using that entOrd.cmp_flip by blast
  then show ?thesis
    using assms by (auto simp: foldKeyWrite_def Let_def split: option.splits)
qed

lemma foldOp_write:
  assumes "policy \<noteq> PName ''fww''" "policy \<noteq> PName ''owned''" "e_kind e = ''set'' \<and> payloadValue e \<noteq> None \<or> e_kind e = ''del''"
    and "ks_winner ks = None \<or> (\<exists>w. ks_winnerOrder ks = Some w \<and> orderCompare w (orderOf e) < 0)"
    and "foldOp R t now mode policy e key ks sd = (err, ks', sd')"
  shows "err = None \<and> ks_winner ks' = Some (entryId e) \<and> ks_winnerOrder ks' = Some (orderOf e) \<and>
    ks_value ks' = write_value e"
proof -
  let ?ks1 = "if e_kind e = ''set'' then (if \<not> ks_scalar ks then resetMembers ks else ks) else resetMembers ks"
  let ?val = "if e_kind e = ''set'' then payloadValue e else None"
  obtain k2 sd2 where w: "foldKeyWrite t key ?ks1 e (entryId e) policy ?val sd = (k2, sd2)" by (rule prod.exhaust)
  have start: "ks_winner ?ks1 = None \<or> (\<exists>w. ks_winnerOrder ?ks1 = Some w \<and> orderCompare w (orderOf e) < 0)"
    using assms(4) by (simp add: resetMembers_def)
  note f = foldKeyWrite_wins [OF assms(1) start w]
  show ?thesis
    using assms(2,3,5) f w
    by (auto simp: foldOp_def foldSetDel_def Let_def claimOwner_def markApproved_def write_value_def split: option.splits)
qed

definition writes_only :: "string \<Rightarrow> LogEntry list \<Rightarrow> bool" where
  "writes_only key es \<longleftrightarrow> (\<forall>e \<in> set es. e_key e = Some key \<longrightarrow> e_kind e = ''set'' \<and> payloadValue e \<noteq> None \<or> e_kind e = ''del'')"

definition key_writes :: "string \<Rightarrow> LogEntry list \<Rightarrow> LogEntry list" where
  "key_writes key es = filter (\<lambda>e. e_key e = Some key) es"

lemma foldEntry_other:
  assumes "e_key e \<noteq> Some key" "foldEntry R t now mode e (st, sd) = (err, st', sd')"
  shows "map_of (st_keys st') key = map_of (st_keys st) key"
  using assms by (auto simp: foldEntry_def Let_def update_conv split: option.splits sum.splits prod.splits)

lemma lww_fold:
  assumes "reg_get (registry (rg_log R)) t = Inr te" "conflictPolicyFor (te_policy te) key = PName ''lww''"
  shows "foldAll R t now mode es (emptyTopicState, sd0) = (None, st, sd) \<Longrightarrow> in_order es \<Longrightarrow> writes_only key es \<Longrightarrow>
    (case key_writes key es of [] \<Rightarrow> map_of (st_keys st) key = None
     | _ \<Rightarrow> \<exists>ks. map_of (st_keys st) key = Some ks \<and> ks_winner ks = Some (entryId (last (key_writes key es))) \<and>
         ks_winnerOrder ks = Some (orderOf (last (key_writes key es))) \<and> ks_value ks = write_value (last (key_writes key es)))"
proof (induction es arbitrary: st sd rule: rev_induct)
  case Nil
  then show ?case by (auto simp: key_writes_def emptyTopicState_def)
next
  case (snoc e es)
  obtain err st1 sd1 where f: "foldAll R t now mode es (emptyTopicState, sd0) = (err, st1, sd1)" by (rule prod_cases3)
  then have none: "err = None" and e: "foldEntry R t now mode e (st1, sd1) = (None, st, sd)"
    using snoc.prems(1) by (auto simp: foldAll_append split: option.splits prod.splits)
  have io: "in_order es" "\<And>x. x \<in> set es \<Longrightarrow> orderCompare (orderOf x) (orderOf e) < 0"
    using snoc.prems(2) by (simp_all add: sorted_wrt_append)
  have wo: "writes_only key es" "writes_only key [e]" using snoc.prems(3) by (simp_all add: writes_only_def)
  note IH = snoc.IH [OF f [unfolded none] io(1) wo(1)]
  show ?case
  proof (cases "e_key e = Some key")
    case False
    then have same: "key_writes key (es @ [e]) = key_writes key es" by (simp add: key_writes_def)
    show ?thesis unfolding same foldEntry_other [OF False e] by (rule IH)
  next
    case True
    let ?ks = "keyStateOf (st_keys st1) key"
    have kind: "e_kind e = ''set'' \<and> payloadValue e \<noteq> None \<or> e_kind e = ''del''" using wo(2) True by (simp add: writes_only_def)
    have start: "ks_winner ?ks = None \<or> (\<exists>w. ks_winnerOrder ?ks = Some w \<and> orderCompare w (orderOf e) < 0)"
    proof (cases "key_writes key es")
      case Nil
      then show ?thesis using IH by (simp add: keyStateOf_def emptyKeyState_def)
    next
      case (Cons x xs)
      then have "last (key_writes key es) \<in> set (key_writes key es)" by (intro last_in_set) simp
      then have "last (key_writes key es) \<in> set es" by (simp add: key_writes_def)
      then show ?thesis using IH Cons io(2) by (auto simp: keyStateOf_def)
    qed
    define sdx where "sdx = (if mode = LiveMode \<and> e_writer e = selfId (rg_log R)
        then sd1\<lparr>fs_tails := dropTails (selfId (rg_log R)) t e (fs_tails sd1)\<rparr> else sd1)"
    obtain err' ks' sd' where fo: "foldOp R t now mode (PName ''lww'') e key ?ks sdx = (err', ks', sd')" by (rule prod_cases3)
    note w = foldOp_write [OF _ _ kind start fo]
    have "map_of (st_keys st) key = Some ks'"
      using e True assms fo
      by (auto simp: foldEntry_def Let_def sdx_def update_conv split: prod.splits)
    moreover have "key_writes key (es @ [e]) = key_writes key es @ [e]" using True by (simp add: key_writes_def)
    ultimately show ?thesis using w by (cases "key_writes key es") simp_all
  qed
qed

text \<open>Last write wins: on a key under \<open>lww\<close> that only ever saw \<open>set\<close> (of a value) and \<open>del\<close>
  entries, the fold of entries in total order ends with the latest of them as the winner, and
  its value, or none after a \<open>del\<close>; the key is absent when there was none.\<close>

theorem lww_keeps_latest_write:
  assumes "reg_get (registry (rg_log R)) t = Inr te" and "conflictPolicyFor (te_policy te) key = PName ''lww''"
    and "foldAll R t now mode es (emptyTopicState, sd0) = (None, st, sd)" and "in_order es" and "writes_only key es"
  shows "case key_writes key es of [] \<Rightarrow> map_of (st_keys st) key = None
     | _ \<Rightarrow> \<exists>ks. map_of (st_keys st) key = Some ks \<and> ks_winner ks = Some (entryId (last (key_writes key es))) \<and>
         ks_value ks = write_value (last (key_writes key es))"
  using lww_fold [OF assms] by (auto split: list.splits)

section \<open>First write wins\<close>

text \<open>On a key under \<open>fww\<close>, a \<open>del\<close> that loses (it does not descend from the current winner)
  leaves winner and value alone and still empties the member map and starts a new reset
  epoch: the effect that the specification reserves for an adopted \<open>del\<close>.\<close>

theorem losing_fww_del_resets:
  assumes "e_kind e = ''del''" and "ks_winner ks = Some w" and "\<not> isAncestor (fs_db sd) t w e"
  shows "\<exists>ks' sd'. foldOp R t now mode (PName ''fww'') e key ks sd = (None, ks', sd') \<and>
    ks_winner ks' = Some w \<and> ks_value ks' = ks_value ks \<and>
    ks_members ks' = [] \<and> ks_resetGen ks' = ks_resetGen ks + 1"
proof -
  obtain k2 sd2 where w: "foldKeyWrite t key (resetMembers ks) e (entryId e) (PName ''fww'') None sd = (k2, sd2)"
    by (rule prod.exhaust)
  then have "ks_winner k2 = Some w \<and> ks_value k2 = ks_value ks \<and> ks_members k2 = [] \<and> ks_resetGen k2 = ks_resetGen ks + 1"
    using assms(2,3) by (auto simp: foldKeyWrite_def Let_def resetMembers_def)
  then show ?thesis
    using assms(1) w by (simp add: foldOp_def foldSetDel_def claimOwner_def split: option.split)
qed

section \<open>Snapshots\<close>

text \<open>The keys that a snapshot represents faithfully.\<close>

definition member_regular :: "string \<times> MemberState \<Rightarrow> bool" where
  "member_regular x \<longleftrightarrow> fst x \<noteq> ''__proto__'' \<and> ms_frontier (snd x) \<noteq> []"

definition key_regular :: "string \<times> KeyState \<Rightarrow> bool" where
  "key_regular x \<longleftrightarrow> (case x of (key, ks) \<Rightarrow> key \<noteq> ''__proto__'' \<and> ks_winner ks \<noteq> None \<and> ks_winnerOrder ks \<noteq> None \<and>
     (ks_scalar ks \<longleftrightarrow> ks_members ks = []) \<and> (\<not> ks_scalar ks \<longrightarrow> ks_value ks = None) \<and> ks_requests ks = [] \<and>
     distinct (map fst (ks_members ks)) \<and> list_all member_regular (ks_members ks))"

lemma update_new: "k \<notin> set (map fst ps) \<Longrightarrow> AList.update k v ps = ps @ [(k, v)]"
  by (induction ps) auto

lemma objSet_fold:
  assumes "distinct (map fst acc @ map fst xs)" "''__proto__'' \<notin> set (map fst xs)"
  shows "foldl (\<lambda>acc (m, x). objSet m (f x) acc) acc xs = acc @ map (\<lambda>(m, x). (m, f x)) xs"
  using assms
proof (induction xs arbitrary: acc)
  case (Cons a xs)
  obtain m x where a: "a = (m, x)" by (cases a)
  have "objSet m (f x) acc = acc @ [(m, f x)]" using Cons.prems a by (auto simp: objSet_def update_new)
  then show ?case using Cons.IH [of "acc @ [(m, f x)]"] Cons.prems a by simp
qed simp

lemma members_roundtrip:
  assumes "distinct (map fst ms)" "list_all member_regular ms"
  shows "map (\<lambda>(m, mm). (m, memberFromSnap mm)) (orEmpty (membersToSnap ms)) = ms"
proof -
  have proto: "''__proto__'' \<notin> set (map fst ms)" using assms(2) by (force simp: list_all_iff member_regular_def)
  have restore: "memberFromSnap (memberToSnap (snd x)) = snd x" if "x \<in> set ms" for x
    using assms(2) that by (simp add: list_all_iff member_regular_def memberFromSnap_def memberToSnap_def nonEmpty_def orEmpty_def)
  have "foldl (\<lambda>acc (m, x). objSet m (memberToSnap x) acc) [] ms = map (\<lambda>(m, x). (m, memberToSnap x)) ms"
    using objSet_fold [of "[]" ms memberToSnap] assms(1) proto by simp
  then show ?thesis
    using restore by (cases "ms = []") (auto simp: membersToSnap_def orEmpty_def comp_def split_def intro!: map_idI)
qed

lemma key_roundtrip:
  assumes "key_regular (key, ks)" "ks_winner ks = Some w" "ks_winnerOrder ks = Some ord"
  shows "keyFromSnap (keyToSnap ks w ord) = ks"
proof -
  have m: "map (\<lambda>(m, mm). (m, memberFromSnap mm)) (orEmpty (membersToSnap (ks_members ks))) = ks_members ks"
    using assms(1) by (intro members_roundtrip) (simp_all add: key_regular_def)
  have s: "orEmpty (nonEmpty x) = x" for x :: "'a list" by (cases x) (simp_all add: orEmpty_def nonEmpty_def)
  show ?thesis
    using assms by (auto simp: keyFromSnap_def keyToSnap_def m s Let_def key_regular_def intro!: KeyState.equality)
qed

lemma snapshotOf_regular:
  assumes "distinct (map fst keys)" "list_all key_regular keys"
  shows "snapshotOf keys = map (\<lambda>(key, ks). (key, keyToSnap ks (the (ks_winner ks)) (the (ks_winnerOrder ks)))) keys"
proof -
  let ?f = "\<lambda>ks. keyToSnap ks (the (ks_winner ks)) (the (ks_winnerOrder ks))"
  have step: "foldl (\<lambda>acc (key, ks). case (ks_winner ks, ks_winnerOrder ks) of
       (Some w, Some ord) \<Rightarrow> objSet key (keyToSnap ks w ord) acc | _ \<Rightarrow> acc) acc keys =
     foldl (\<lambda>acc (key, ks). objSet key (?f ks) acc) acc keys" for acc
    using assms(2) by (induction keys arbitrary: acc) (auto simp: key_regular_def)
  have "''__proto__'' \<notin> set (map fst keys)" using assms(2) by (force simp: list_all_iff key_regular_def)
  then show ?thesis using objSet_fold [of "[]" keys ?f] assms(1) step by (simp add: snapshotOf_def)
qed

text \<open>A snapshot round trip: a register state whose keys are regular (a winner, no pending
  requests, scalar exactly when there are no members, no name \<^verbatim>\<open>__proto__\<close>) is restored from its
  snapshot as it was.\<close>

theorem snapshot_roundtrip:
  assumes "distinct (map fst keys)" and "list_all key_regular keys"
  shows "keysFromSnapshot (snapshotOf keys) = keys"
proof -
  have "keyFromSnap (keyToSnap ks (the (ks_winner ks)) (the (ks_winnerOrder ks))) = ks" if "(key, ks) \<in> set keys" for key ks
    using key_roundtrip [of key ks] assms(2) that by (auto simp: list_all_iff key_regular_def)
  then show ?thesis
    by (auto simp: snapshotOf_regular [OF assms] keysFromSnapshot_def comp_def split_def intro!: map_idI)
qed

lemma foldMemberOp_empty:
  assumes "foldMemberOp t key ks e eid policy m p sd = (ks', sd')" "ks_members ks = []"
  shows "ks_members ks' = [(m, newMember p eid (orderOf e))] \<and> ks_scalar ks' = ks_scalar ks \<and> ks_value ks' = ks_value ks"
proof (cases "case ks_winnerOrder ks of None \<Rightarrow> True | Some wo \<Rightarrow> orderCompare (orderOf e) wo > 0")
  case True
  then show ?thesis using assms by (auto simp: foldMemberOp_def Let_def)
next
  case False
  then show ?thesis using assms by (auto simp: foldMemberOp_def Let_def)
qed

text \<open>A member resolution on a scalar key does not survive a snapshot: the live state keeps the
  scalar value beside the new member, and shows it in its table row; the state restored from
  its snapshot has no scalar value in its row, so a node that bootstraps from the snapshot
  shows something else than the one that made it.\<close>

theorem member_resolution_lost_in_snapshot:
  assumes "e_kind e = ''resolve-member''" and "payloadProp e ''member'' = JStr m" and "m \<noteq> ''__proto__''"
    and "payloadProp e ''supersedes'' = ids_js ids" and "key \<noteq> ''__proto__''"
    and "ks_scalar ks" and "ks_members ks = []" and "ks_value ks = Some v"
    and "foldOp R t now mode policy e key ks sd = (err, ks', sd')"
  shows "err = None \<and> map_option rr_value (regRow key ks') = Some (Some v) \<and>
    (ks_winner ks' \<noteq> None \<and> ks_winnerOrder ks' \<noteq> None \<longrightarrow>
      (\<exists>ks2. keysFromSnapshot (snapshotOf [(key, ks')]) = [(key, ks2)] \<and> map_option rr_value (regRow key ks2) \<noteq> Some (Some v)))"
proof -
  have "err = None \<and> ks_scalar ks' \<and> ks_value ks' = Some v \<and> length (ks_members ks') = 1 \<and> fst (hd (ks_members ks')) = m"
    using assms(1,2,6,7,8,9)
    by (auto simp: foldOp_def foldResolveMember_def payloadString_str dest!: foldMemberOp_empty)
  then obtain ms where k: "err = None" "ks_scalar ks'" "ks_value ks' = Some v" "ks_members ks' = [(m, ms)]"
    by (cases "ks_members ks'") auto
  show ?thesis
    using k assms(3,5)
    by (auto simp: regRow_def Let_def snapshotOf_def objSet_def keysFromSnapshot_def keyFromSnap_def keyToSnap_def
        membersToSnap_def orEmpty_def)
qed

end
