(* ===== verification/Register_Demo.thy ===== *)
theory Register_Demo
  imports Register_Keys Log_Demo
begin

text \<open>
  A concrete register topic \<open>r\<close> on which the properties of the registers are instantiated: two
  nodes that received the same two writes of one key in opposite orders, and a node that holds a
  \<open>resolve\<close> whose \<open>supersedes\<close> is a number.
\<close>

section \<open>The topic and its entries\<close>

definition demo_reg_env :: RegEnv where
  "demo_reg_env = \<lparr>rg_log = demo_env\<lparr>registry := [(''r'',
       \<lparr>te_policy = plain_policy\<lparr>p_kind := ''register''\<rparr>, te_schemaHash = demo_hash\<rparr>)]\<rparr>,
     rg_auth = no_hooks, rg_conflictCbs = (\<lambda>t. 0), rg_requestCbs = (\<lambda>t. []), rg_numStr = (\<lambda>n. ''0'')\<rparr>"

definition demo_write :: "string \<Rightarrow> nat \<Rightarrow> nat \<Rightarrow> string \<Rightarrow> jsval \<Rightarrow> LogEntry" where
  "demo_write w n l kind payload = \<lparr>e_topic = ''r'', e_writer = w, e_seq = n, e_hlc = \<lparr>hlc_l = l, hlc_c = 0\<rparr>,
     e_kind = kind, e_key = Some ''x'', e_causal = None, e_ref = None, e_payload = payload, e_chain = demo_hash\<rparr>"

definition demo_set1 :: LogEntry where
  "demo_set1 = demo_write ''me'' 1 5 ''set'' (JObj [(''value'', JStr ''a'')])"

definition demo_set2 :: LogEntry where
  "demo_set2 = demo_write ''pa'' 1 7 ''set'' (JObj [(''value'', JStr ''b'')])"

definition demo_poison :: LogEntry where
  "demo_poison = demo_write ''pa'' 1 7 ''resolve'' (JObj [(''supersedes'', JNum (JFin 1))])"

definition core_with :: "LogEntry list \<Rightarrow> LogCore" where
  "core_with es = LogCore_new (empty_store\<lparr>db := empty_db\<lparr>
     sq_log := zip [1..<Suc (length es)] es, log_autoinc := length es\<rparr>\<rparr>)"

definition demo_hub :: RegisterHub where
  "demo_hub = RegisterHub_new Map.empty"

lemma demo_core_db: "lc_db (core_with es) = empty_db\<lparr>sq_log := zip [1..<Suc (length es)] es, log_autoinc := length es\<rparr>"
  by (simp add: core_with_def LogCore_new_def empty_store_def)

lemma demo_policy: "reg_get (registry (rg_log demo_reg_env)) ''r'' =
    Inr \<lparr>te_policy = plain_policy\<lparr>p_kind := ''register''\<rparr>, te_schemaHash = demo_hash\<rparr>"
  by (simp add: reg_get_def demo_reg_env_def)

lemma demo_conflict: "conflictPolicyFor (plain_policy\<lparr>p_kind := ''register''\<rparr>) ''x'' = PName ''lww''"
  by (simp add: conflictPolicyFor_def overridesOf_def defaultOf_def plain_policy_def indexOverrides_def objectProtoNames_def)

lemmas demo_entries = demo_set1_def demo_set2_def demo_poison_def demo_write_def

lemma demo_tables [simp]:
  "log_table_ok (lc_db (core_with [demo_set1, demo_set2]))"
  "log_table_ok (lc_db (core_with [demo_set2, demo_set1]))"
  "log_table_ok (lc_db (core_with [demo_poison]))"
  by (simp_all add: demo_core_db log_table_ok_def entryKey_def demo_entries empty_db_def)

lemma demo_causal [simp]:
  "causal_backward ''r'' (lc_db (core_with [demo_set1, demo_set2]))"
  "causal_backward ''r'' (lc_db (core_with [demo_set2, demo_set1]))"
  by (simp_all add: demo_core_db causal_backward_def topicEntries_def topicRows_def inTopic_def empty_db_def demo_entries)

lemma demo_runnable [simp]: "runnable ''r'' demo_hub"
  by (simp add: runnable_def demo_hub_def RegisterHub_new_def)

lemma demo_tracked: "log_table_ok (lc_db s) \<Longrightarrow> tracked demo_reg_env ''r'' demo_hub s"
  by (rule tracked_fresh) (simp_all add: demo_hub_def RegisterHub_new_def)

lemma demo_state: "topicState demo_hub ''r'' = emptyTopicState"
  by (simp add: topicState_def demo_hub_def RegisterHub_new_def freshState_def)

section \<open>Convergence\<close>

lemma demo_folds [simp]:
  "fold_ok demo_reg_env now ''r'' h (core_with [demo_set1, demo_set2])"
  "fold_ok demo_reg_env now ''r'' h (core_with [demo_set2, demo_set1])"
  unfolding fold_ok_def
  by (rule passLoop_ok; simp add: sideOf_def topic_folds_def demo_policy demo_core_db topicEntries_def topicRows_def
      inTopic_def payload_ok_def demo_entries empty_db_def log_table_ok_def entryKey_def)+

lemma demo_sorted:
  "sortedEntries (lc_db (core_with [demo_set1, demo_set2])) ''r'' None = [demo_set1, demo_set2]"
  "sortedEntries (lc_db (core_with [demo_set2, demo_set1])) ''r'' None = [demo_set1, demo_set2]"
  by (simp_all add: demo_core_db sortedEntries_def topicEntries_def topicRows_def inTopic_def afterCursor_def
      entryCompare_def orderCompare_def orderOf_def demo_entries empty_db_def)

lemma not_ancestor [simp]: "e_causal e = None \<Longrightarrow> \<not> isAncestor d t a e"
  by (simp add: isAncestor_def ANCESTOR_WALK_CAP_def eval_nat_numeral)

definition demo_run :: "LogEntry list \<Rightarrow> JsError option \<times> RegisterHub \<times> LogCore" where
  "demo_run es = materialize demo_reg_env 9 ''r'' demo_hub (core_with es)"

lemma demo_base: "baseOrd (topicState demo_hub ''r'') = None" "st_base (topicState demo_hub ''r'') = None"
  by (simp_all add: demo_state emptyTopicState_def baseOrd_def)



theorem state_at_cut_is_prefix_fold_witness:
  "fst (stateAt demo_reg_env 9 ''r'' (orderOf demo_set1) demo_hub (core_with [demo_set2, demo_set1])) =
    (case regRef demo_reg_env ''r'' (lc_db (core_with [demo_set2, demo_set1])) None [demo_set1] of
       (None, st) \<Rightarrow> Inr (snapshotOf (st_keys st)) | (Some x, st) \<Rightarrow> Inl x)"
proof -
  have "topic_sided demo_reg_env ''r'' (sideOf demo_hub (core_with [demo_set2, demo_set1]))"
    by (simp add: topic_sided_def sideOf_def verdicts_ok_def demo_hub_def RegisterHub_new_def)
  moreover have "uptoOrd (orderOf demo_set1) [demo_set1, demo_set2] = [demo_set1]"
    by (simp add: uptoOrd_def orderCompare_def orderOf_def demo_entries)
  ultimately show ?thesis
    using state_at_cut_is_prefix_fold [of demo_reg_env "''r''" demo_hub "core_with [demo_set2, demo_set1]" "orderOf demo_set1" 9]
    by (simp add: base_before_def demo_base demo_sorted)
qed

theorem handle_writes_always_fold_witness:
  "fold_ok demo_reg_env 9 ''r'' demo_hub (core_with [demo_set2, demo_set1])"
proof (rule handle_writes_always_fold [OF demo_policy demo_tables(2)])
  fix e assume e: "e \<in> set (topicEntries (lc_db (core_with [demo_set2, demo_set1])) ''r'')"
  then obtain v where v: "e_kind e = ''set''" "e_payload e = JObj [(''value'', JStr v)]"
    by (auto simp: demo_core_db topicEntries_def topicRows_def inTopic_def empty_db_def demo_entries)
  show "\<exists>R' h' t' x item. regWrite R' h' t' x = Inr item \<and> e_kind e = ai_kind item \<and>
      sanitizeJson (ai_payload item) = Inr (e_payload e)"
    by (intro exI [of _ demo_reg_env] exI [of _ demo_hub] exI [of _ "''r''"] exI [of _ "OpSet ''x'' (JStr v)"])
      (simp add: regWrite_def demo_policy writeItem_def v)
qed

section \<open>Ownership\<close>

definition owned_key :: KeyState where
  "owned_key = emptyKeyState\<lparr>ks_value := Some (JStr ''a''), ks_winner := Some (entryId demo_set1),
     ks_winnerOrder := Some (orderOf demo_set1), ks_owner := Some ''me'', ks_frontier := [entryId demo_set1]\<rparr>"

theorem non_owner_write_refused_witness:
  "foldOp demo_reg_env ''r'' 9 LiveMode (PName ''owned'') demo_set2 ''x'' owned_key (sideOf demo_hub (core_with [])) =
    (None, owned_key, violation 9 demo_set2 (sideOf demo_hub (core_with [])))"
  using non_owner_write_refused [of owned_key "''me''" demo_set2 "PName ''owned''" demo_reg_env "''r''" 9 LiveMode]
  by (simp add: owned_key_def demo_entries)

definition demo_resolve :: LogEntry where
  "demo_resolve = demo_write ''pa'' 1 7 ''resolve'' (JObj [(''supersedes'', JArr []), (''value'', JStr ''mine'')])"

theorem resolve_bypasses_owner_witness:
  "\<exists>ks' sd'. foldOp demo_reg_env ''r'' 9 LiveMode (PName ''owned'') demo_resolve ''x'' owned_key
       (sideOf demo_hub (core_with [])) = (None, ks', sd') \<and>
     ks_winner ks' = Some (''r'', ''pa'', 1) \<and> ks_value ks' = Some (JStr ''mine'') \<and> fs_anomalies sd' = []"
  using resolve_bypasses_owner [of owned_key "''me''" demo_resolve "JStr ''mine''" "entryId demo_set1" "orderOf demo_set1"
      demo_reg_env "''r''" 9 LiveMode "''x''" "sideOf demo_hub (core_with [])"]
  by (auto simp: owned_key_def demo_resolve_def demo_entries orderCompare_def orderOf_def entryId_def sideOf_def)

section \<open>The entry no pass survives\<close>

text \<open>The entry is one the codec accepts.\<close>

theorem unfoldable_entry_wedges_topic_witness:
  "validateEntry demo_lib DEFAULT_CONSTANTS (entry_js demo_poison) = Inr demo_poison \<and>
   fst (demo_run [demo_poison]) \<noteq> None \<and> rh_tables (fst (snd (demo_run [demo_poison]))) = rh_tables demo_hub"
proof -
  obtain err h s where m: "demo_run [demo_poison] = (err, h, s)" by (rule prod_cases3)
  have "stuck ''r'' (lc_db (core_with [demo_poison])) (topicState demo_hub ''r'')"
    by (simp add: stuck_def demo_core_db topicRows_def inTopic_def empty_db_def demo_entries unfoldable_def
        payloadProp_def getProp_def demo_state emptyTopicState_def afterCursor_def baseOrd_def)
  moreover have "wf_entry demo_poison"
    using demo_names by (auto simp: wf_entry_def demo_entries MAX_SAFE_INTEGER_def HLC_C_LIMIT_def isFinite_def
        TOPIC_RE_def topic_char_def name_ok_def RESERVED_NAME_def MAX_KEY_BYTES_def list_all_iff)
  ultimately show ?thesis
    using unfoldable_entry_wedges_topic [OF _ demo_tables(3) demo_runnable m [unfolded demo_run_def]]
    by (simp add: m validateEntry_roundtrip demo_fits)
qed

section \<open>Single keys\<close>

theorem lww_keeps_latest_write_witness:
  "\<exists>st sd ks. foldAll demo_reg_env ''r'' 9 ReplayMode [demo_set1, demo_set2]
       (emptyTopicState, sideOf demo_hub (core_with [])) = (None, st, sd) \<and>
     map_of (st_keys st) ''x'' = Some ks \<and> ks_winner ks = Some (''r'', ''pa'', 1) \<and> ks_value ks = Some (JStr ''b'')"
proof -
  let ?p = "(emptyTopicState, sideOf demo_hub (core_with []))"
  obtain err st sd where f: "foldAll demo_reg_env ''r'' 9 ReplayMode [demo_set1, demo_set2] ?p = (err, st, sd)"
    by (rule prod_cases3)
  have "fst (foldAll demo_reg_env ''r'' 9 ReplayMode [demo_set1, demo_set2] ?p) = None"
    by (rule foldAll_ok [OF _ demo_policy]) (auto simp: payload_ok_def demo_entries)
  then have g: "foldAll demo_reg_env ''r'' 9 ReplayMode [demo_set1, demo_set2] ?p = (None, st, sd)" using f by simp
  have "in_order [demo_set1, demo_set2]" by (simp add: demo_entries orderCompare_def orderOf_def)
  moreover have "writes_only ''x'' [demo_set1, demo_set2]"
    by (simp add: writes_only_def demo_entries payloadValue_def payloadProp_def getProp_def)
  moreover have "conflictPolicyFor (te_policy \<lparr>te_policy = plain_policy\<lparr>p_kind := ''register''\<rparr>, te_schemaHash = demo_hash\<rparr>) ''x''
      = PName ''lww''" by (simp add: demo_conflict)
  moreover have "key_writes ''x'' [demo_set1, demo_set2] = [demo_set1, demo_set2]"
    by (simp add: key_writes_def demo_entries)
  ultimately obtain ks where "map_of (st_keys st) ''x'' = Some ks" "ks_winner ks = Some (entryId demo_set2)"
    "ks_value ks = write_value demo_set2"
    using lww_keeps_latest_write [OF demo_policy _ g, of "''x''"] by auto
  moreover have "entryId demo_set2 = (''r'', ''pa'', 1)" "write_value demo_set2 = Some (JStr ''b'')"
    by (simp_all add: entryId_def write_value_def demo_entries payloadValue_def payloadProp_def getProp_def)
  ultimately show ?thesis using g by auto
qed

definition member_key :: KeyState where
  "member_key = owned_key\<lparr>ks_value := None, ks_scalar := False,
     ks_members := [(''m'', newMember True (entryId demo_set1) (orderOf demo_set1))]\<rparr>"

definition demo_del :: LogEntry where
  "demo_del = demo_write ''pa'' 1 7 ''del'' JNull"

theorem losing_fww_del_resets_witness:
  "\<exists>ks' sd'. foldOp demo_reg_env ''r'' 9 LiveMode (PName ''fww'') demo_del ''x'' member_key
       (sideOf demo_hub (core_with [])) = (None, ks', sd') \<and>
     ks_winner ks' = Some (entryId demo_set1) \<and> ks_members ks' = [] \<and> ks_resetGen ks' = 1"
  using losing_fww_del_resets [of demo_del member_key "entryId demo_set1" "sideOf demo_hub (core_with [])" "''r''"
      demo_reg_env 9 LiveMode "''x''"]
  by (auto simp: member_key_def owned_key_def emptyKeyState_def demo_del_def demo_write_def)

theorem snapshot_roundtrip_witness:
  "keysFromSnapshot (snapshotOf [(''x'', owned_key), (''y'', member_key)]) = [(''x'', owned_key), (''y'', member_key)]"
  by (rule snapshot_roundtrip)
    (simp_all add: key_regular_def member_regular_def owned_key_def member_key_def emptyKeyState_def newMember_def entryId_def)

definition demo_member :: LogEntry where
  "demo_member = demo_write ''pa'' 1 7 ''resolve-member''
     (JObj [(''member'', JStr ''m''), (''supersedes'', ids_js []), (''present'', JBool True)])"

theorem member_resolution_lost_in_snapshot_witness:
  "\<exists>ks' sd' ks2. foldOp demo_reg_env ''r'' 9 LiveMode (PName ''lww'') demo_member ''x'' owned_key
       (sideOf demo_hub (core_with [])) = (None, ks', sd') \<and>
     map_option rr_value (regRow ''x'' ks') = Some (Some (JStr ''a'')) \<and>
     keysFromSnapshot (snapshotOf [(''x'', ks')]) = [(''x'', ks2)] \<and>
     map_option rr_value (regRow ''x'' ks2) \<noteq> Some (Some (JStr ''a''))"
proof -
  obtain err ks' sd' where f: "foldOp demo_reg_env ''r'' 9 LiveMode (PName ''lww'') demo_member ''x'' owned_key
      (sideOf demo_hub (core_with [])) = (err, ks', sd')" by (rule prod_cases3)
  have "ks_winner ks' \<noteq> None \<and> ks_winnerOrder ks' \<noteq> None"
    using f by (auto simp: foldOp_def foldResolveMember_def payloadString_str foldMemberOp_def Let_def owned_key_def
        demo_member_def demo_write_def payloadProp_def getProp_def emptyKeyState_def payloadString_def nullish_def
        demo_set1_def entryId_def orderOf_def orderCompare_def)
  then show ?thesis
    using member_resolution_lost_in_snapshot [OF _ _ _ _ _ _ _ _ f, of "''m''" "[]" "JStr ''a''"] f
    by (auto simp: demo_member_def demo_write_def payloadProp_def getProp_def owned_key_def emptyKeyState_def)
qed

end
