(* ===== verification/Directives.thy ===== *)
theory Directives
  imports Register_Hub
begin

text \<open>
  \<^verbatim>\<open>src/directives.ts\<close>: writer directives. The host path \<open>publishWriterDirective\<close>
  and the wire path \<open>ingestFromWire\<close> check a directive, queue it in the log, and act on the
  outcome; each is split at the wait for the queue into a \<open>Begin\<close> and an \<open>End\<close>. \<open>retire\<close> and
  \<open>unretire\<close> prepare one unsigned directive per stream when they are called and then sign and
  publish them one after the other: a job with the proposals that are left.
\<close>

section \<open>Checks\<close>

definition directiveShape :: "LogEnv \<Rightarrow> WriterDirective \<Rightarrow> unit result" where
  "directiveShape E d =
     (if d_rgen d > MAX_SAFE_INTEGER \<or> d_rgen d < 1 then Inl ERR_MISUSE
      else if d_state d = Retired \<and> (d_finalSeq d = None \<or> d_finalChain d = None) then Inl ERR_MISUSE
      else rbind (reg_get (registry E) (d_topic d)) (\<lambda>_. Inr ()))"

definition verifyDirective :: "AuthorityHooks \<Rightarrow> WriterDirective \<Rightarrow> bool" where
  "verifyDirective A d = (case verifyWriterDirective A of None \<Rightarrow> False | Some verify \<Rightarrow> verify d)"

definition unsigned_js :: "UnsignedDirective \<Rightarrow> jsval" where
  "unsigned_js u = JObj ([(''topic'', JStr (u_topic u)), (''writer'', JStr (u_writer u)),
     (''state'', JStr (case u_state u of Live \<Rightarrow> ''live'' | Retired \<Rightarrow> ''retired'')),
     (''rgen'', JNum (num_of_nat (u_rgen u)))] @
     (case u_finalSeq u of None \<Rightarrow> [] | Some n \<Rightarrow> [(''finalSeq'', JNum (num_of_nat n))]) @
     (case u_finalChain u of None \<Rightarrow> [] | Some c \<Rightarrow> [(''finalChain'', JStr c)]))"

text \<open>The signed directive without \<open>authority\<close> and \<open>sig\<close>.\<close>

definition restOf :: "WriterDirective \<Rightarrow> UnsignedDirective" where
  "restOf d = \<lparr>u_topic = d_topic d, u_writer = d_writer d, u_state = d_state d, u_rgen = d_rgen d,
     u_finalSeq = d_finalSeq d, u_finalChain = d_finalChain d\<rparr>"

definition assertMatchesProposal :: "Prims \<Rightarrow> UnsignedDirective \<Rightarrow> WriterDirective \<Rightarrow> unit result" where
  "assertMatchesProposal P u d =
     rbind (jcs P (unsigned_js (restOf d))) (\<lambda>a.
     rbind (jcs P (unsigned_js u)) (\<lambda>b. if a \<noteq> b then Inl ERR_MISUSE else Inr ()))"

definition latestDirective :: "LogCore \<Rightarrow> string \<Rightarrow> string \<Rightarrow> WriterDirective option" where
  "latestDirective s topic writer = directiveLatest (lc_db s) topic writer"

section \<open>Publishing and ingesting\<close>

datatype DirCall = DirThrew ErrCode | DirDone | DirWaits nat

record DirectiveHub =
  dh_applied :: "(WriterDirective \<times> DirResult) list"   \<comment> \<open>calls of \<open>onApplied\<close>\<close>
  dh_broadcast :: "WriterDirective list"
  dh_anomalies :: "Anomaly list"

definition applyDirective :: "LogEnv \<Rightarrow> WriterDirective \<Rightarrow> LogQueue \<Rightarrow> DirCall \<times> LogQueue" where
  "applyDirective E d q = (case preOpen (q_closed q) (QDirective d) of
     Inl err \<Rightarrow> (DirThrew err, q)
   | Inr item \<Rightarrow> (DirWaits (q_next q), push E item q))"

definition publishBegin :: "LogEnv \<Rightarrow> AuthorityHooks \<Rightarrow> WriterDirective \<Rightarrow> LogQueue \<Rightarrow> DirCall \<times> LogQueue" where
  "publishBegin E A d q = (case directiveShape E d of
     Inl err \<Rightarrow> (DirThrew err, q)
   | Inr _ \<Rightarrow> if \<not> verifyDirective A d then (DirThrew ERR_MISUSE, q) else applyDirective E d q)"

definition dirApplied :: "WriterDirective \<Rightarrow> DirResult \<Rightarrow> DirectiveHub \<Rightarrow> DirectiveHub" where
  "dirApplied d r h = h\<lparr>dh_applied := dh_applied h @ [(d, r)], dh_broadcast := dh_broadcast h @ [d]\<rparr>"

definition publishEnd :: "WriterDirective \<Rightarrow> Outcome \<Rightarrow> DirectiveHub \<Rightarrow> DirCall \<times> DirectiveHub" where
  "publishEnd d out h = (case out of
     RDirective r \<Rightarrow> if r = DirRefused then (DirThrew ERR_MISUSE, h) else (DirDone, dirApplied d r h)
   | RReject err \<Rightarrow> (DirThrew err, h)
   | _ \<Rightarrow> (DirDone, h))"

definition wireDirBegin ::
  "LogEnv \<Rightarrow> AuthorityHooks \<Rightarrow> WriterDirective \<Rightarrow> LogQueue \<Rightarrow> DirectiveHub \<Rightarrow> DirCall \<times> LogQueue \<times> DirectiveHub" where
  "wireDirBegin E A d q h = (case directiveShape E d of
     Inl err \<Rightarrow> (DirDone, q, h)
   | Inr _ \<Rightarrow>
       if \<not> verifyDirective A d
       then (DirDone, q, h\<lparr>dh_anomalies := dh_anomalies h @ [\<lparr>a_kind = A_bad_directive, a_entry = None,
               a_topic = Some (d_topic d), a_writer = Some (d_writer d)\<rparr>]\<rparr>)
       else (case applyDirective E d q of
               (DirThrew _, q') \<Rightarrow> (DirDone, q', h)
             | (r, q') \<Rightarrow> (r, q', h)))"

definition wireDirEnd :: "WriterDirective \<Rightarrow> Outcome \<Rightarrow> DirectiveHub \<Rightarrow> DirectiveHub" where
  "wireDirEnd d out h = (case out of
     RDirective r \<Rightarrow> if r = DirApplied \<or> r = DirRecovery then dirApplied d r h else h
   | _ \<Rightarrow> h)"

section \<open>Retiring a writer\<close>

definition streamsOf :: "LogCore \<Rightarrow> string \<Rightarrow> WriterRow list" where
  "streamsOf s writer = filter (\<lambda>w. w_writer w = writer) (listWriters (lc_db s) None)"

definition retireProposal :: "string \<Rightarrow> WriterRow \<Rightarrow> UnsignedDirective" where
  "retireProposal writer w = \<lparr>u_topic = w_topic w, u_writer = writer, u_state = Retired, u_rgen = rgen w + 1,
     u_finalSeq = Some (contigSeq w), u_finalChain = Some (contigChain w)\<rparr>"

definition unretireProposal :: "string \<Rightarrow> WriterRow \<Rightarrow> UnsignedDirective" where
  "unretireProposal writer w = \<lparr>u_topic = w_topic w, u_writer = writer, u_state = Live, u_rgen = rgen w + 1,
     u_finalSeq = None, u_finalChain = None\<rparr>"

text \<open>\<open>retire\<close> after the bulk transfer of ownership, and \<open>unretire\<close>: the proposals, or the refusal.\<close>

definition retireStart :: "AuthorityHooks \<Rightarrow> string \<Rightarrow> LogCore \<Rightarrow> UnsignedDirective list result" where
  "retireStart A writer s =
     (if issueWriterDirective A = None then Inl ERR_MISUSE
      else let ws = streamsOf s writer in
        if ws = [] then Inl ERR_MISUSE else Inr (map (retireProposal writer) ws))"

definition unretireStart :: "AuthorityHooks \<Rightarrow> string \<Rightarrow> LogCore \<Rightarrow> UnsignedDirective list result" where
  "unretireStart A writer s =
     (if issueWriterDirective A = None then Inl ERR_MISUSE
      else let ws = filter (\<lambda>w. sealReason w = Some SealRetired) (streamsOf s writer) in
        if ws = [] then Inl ERR_MISUSE else Inr (map (unretireProposal writer) ws))"

text \<open>One turn of the loop up to the wait: sign, compare, publish.\<close>

definition signNext ::
  "LogEnv \<Rightarrow> AuthorityHooks \<Rightarrow> UnsignedDirective \<Rightarrow> LogQueue \<Rightarrow> DirCall \<times> WriterDirective option \<times> LogQueue" where
  "signNext E A u q = (case issueWriterDirective A of
     None \<Rightarrow> (DirThrew ERR_MISUSE, None, q)
   | Some issue \<Rightarrow> let d = issue u in
       (case assertMatchesProposal (prims E) u d of
         Inl err \<Rightarrow> (DirThrew err, None, q)
       | Inr _ \<Rightarrow> (case publishBegin E A d q of (r, q') \<Rightarrow> (r, Some d, q'))))"

text \<open>The job on an otherwise idle log: each publication is flushed before the next one starts.\<close>

fun runJob ::
  "LogEnv \<Rightarrow> AuthorityHooks \<Rightarrow> (nat \<Rightarrow> nat) \<Rightarrow> UnsignedDirective list \<Rightarrow> LogQueue \<times> DirectiveHub \<Rightarrow>
   DirCall \<times> LogQueue \<times> DirectiveHub" where
  "runJob E A clk [] (q, h) = (DirDone, q, h)"
| "runJob E A clk (u # us) (q, h) = (case signNext E A u q of
     (DirWaits i, Some d, q1) \<Rightarrow>
       let q2 = flush E clk None q1 in
       (case map_of (q_done q2) i of
          None \<Rightarrow> (DirWaits i, q2, h)
        | Some out \<Rightarrow> (case publishEnd d out h of
            (DirDone, h') \<Rightarrow> runJob E A clk us (q2, h')
          | (r, h') \<Rightarrow> (r, q2, h')))
   | (r, _, q1) \<Rightarrow> (r, q1, h))"

section \<open>Bulk transfer of ownership\<close>

text \<open>Of one topic, after its pass: a \<open>chown\<close> for each key that the writer owns in the snapshot.\<close>

definition chownTopic ::
  "RegEnv \<Rightarrow> nat \<Rightarrow> string \<Rightarrow> string \<Rightarrow> string \<Rightarrow> RegisterHub \<Rightarrow> LogCore \<Rightarrow>
   (JsError + AppendItem list) \<times> RegisterHub \<times> LogCore" where
  "chownTopic R now writer chownTo topic h s =
     (case materialize R now topic h s of
        (Some err, h', s') \<Rightarrow> (Inl err, h', s')
      | (None, h', s') \<Rightarrow>
          let owned = map fst (filter (\<lambda>(key, k). sk_owner k = Some writer) (snapshotState h' topic));
              writes = map (\<lambda>key. regWrite R h' topic (OpChown key chownTo)) owned
          in ((if list_all is_ok writes then Inr (List.map_filter (\<lambda>w. case w of Inr x \<Rightarrow> Some x | Inl _ \<Rightarrow> None) writes)
               else Inl (Thrown ERR_MISUSE)), h', s'))"

fun bulkChown ::
  "RegEnv \<Rightarrow> nat \<Rightarrow> string \<Rightarrow> string \<Rightarrow> string list \<Rightarrow> RegisterHub \<times> LogCore \<Rightarrow>
   (JsError + AppendItem list) \<times> RegisterHub \<times> LogCore" where
  "bulkChown R now writer chownTo [] (h, s) = (Inr [], h, s)"
| "bulkChown R now writer chownTo (topic # topics) (h, s) =
     (case reg_get (registry (rg_log R)) topic of
        Inl err \<Rightarrow> (Inl (Thrown err), h, s)
      | Inr te \<Rightarrow>
          if p_kind (te_policy te) \<noteq> ''register'' then bulkChown R now writer chownTo topics (h, s)
          else (case chownTopic R now writer chownTo topic h s of
                  (Inl err, h', s') \<Rightarrow> (Inl err, h', s')
                | (Inr items, h', s') \<Rightarrow>
                    (case bulkChown R now writer chownTo topics (h', s') of
                       (Inr rest, r) \<Rightarrow> (Inr (items @ rest), r)
                     | (Inl err, r) \<Rightarrow> (Inl err, r))))"

end
