(* ===== verification/Directive_Rules.thy ===== *)
theory Directive_Rules
  imports Directives Log_Removal
begin

text \<open>
  What directives do to a stream: a retirement at the head seals it, \<open>retire\<close> seals all streams
  of a writer, generations only grow on streams that are not fork-sealed; and two ways in which
  the fork seal defeats the generations.
\<close>

section \<open>The queue's identifiers\<close>

definition queue_ids :: "LogQueue \<Rightarrow> bool" where
  "queue_ids q \<longleftrightarrow> (\<forall>p \<in> set (q_items q). fst p < q_next q) \<and> (\<forall>p \<in> set (q_done q). fst p < q_next q)"

lemma queue_ids_push: "queue_ids q \<Longrightarrow> queue_ids (push E item q)"
  by (auto simp: queue_ids_def push_def Let_def less_Suc_eq)

lemma queue_ids_flush: "queue_ids q \<Longrightarrow> queue_ids (flush E clk fault q)"
  by (auto simp: queue_ids_def flush_def Let_def rejectQueueClosed_def rejectAll_def dest!: set_zip_leftD
      split: sum.split prod.split)

lemma reach_ids: "core_reach E q \<Longrightarrow> queue_ids q"
proof (induction rule: core_reach.induct)
  case (step q q')
  note keeps = queue_ids_push [OF step.IH] queue_ids_flush [OF step.IH]
  show ?case
    using step.hyps(2)
  proof cases
    case enqueue
    then show ?thesis using keeps(1) by simp
  next
    case flushed
    then show ?thesis using keeps(2) by simp
  next
    case aborted
    then show ?thesis using keeps(2) by simp
  qed (use step.IH in \<open>auto simp: queue_ids_def newQueue_def closeQueue_def rejectQueueClosed_def rejectAll_def\<close>)
qed (simp add: queue_ids_def newQueue_def)

section \<open>One directive\<close>

abbreviation headIn :: "LogEnv \<Rightarrow> LogCore \<Rightarrow> string \<Rightarrow> string \<Rightarrow> WriterRow" where
  "headIn E s t w \<equiv> storedHead E (lc_db s) (t, w)"

definition seed_head :: "LogEnv \<Rightarrow> WriterRow \<Rightarrow> bool" where
  "seed_head E h \<longleftrightarrow> (contigSeq h = 0 \<longrightarrow> contigChain h = seedOf (prims E) (w_topic h) (w_writer h))"

lemma entriesRange_empty: "a > b \<Longrightarrow> entriesRange d t w a b = []"
  by (auto simp: entriesRange_def filter_empty_conv)

lemma retire_at_head:
  assumes inv: "core_inv E s" and h: "headIn E s (d_topic d) (d_writer d) = h" and seed: "seed_head E h"
    and d: "d_state d = Retired" "d_finalSeq d = Some (contigSeq h)" "d_finalChain d = Some (contigChain h)"
      "rgen h < d_rgen d \<or> sealReason h = Some SealFork"
    and stored: "directiveGet (lc_db s) (d_topic d) (d_writer d) (d_rgen d) = None"
    and run: "processDirective E now d s = s'"
  shows "settled s' = settled s @ [RDirective DirApplied]"
    and "lc_db s' = (upsertWriter (directivePut (lc_db s) (d_topic d) (d_writer d) (d_rgen d) d)
      (retireHead (d_rgen d) now (contigSeq h) (contigChain h) h))\<lparr>sq_log := sq_log (lc_db s)\<rparr>"
    and "hlcState s' = hlcState s"
proof -
  obtain h0 s1 where gs: "getStream E (d_topic d) (d_writer d) s = (h0, s1)" by fastforce
  note g = inv_getStream [OF inv gs] and fr = getStream_frame [OF gs]
  have key: "w_topic h = d_topic d" "w_writer h = d_writer d"
    using inv h stored_key [of "lc_db s" E "(d_topic d, d_writer d)"] by (simp_all add: core_inv_def stream_ok_def)
  have h0: "h0 = h" using g(2) h fr(1) by simp
  let ?put = "withDb (\<lambda>x. directivePut x (d_topic d) (d_writer d) (d_rgen d) d) s1"
  have fit: "head_fits (lc_db s) (d_topic d, d_writer d) h" using inv h by (auto simp: core_inv_def stream_ok_def)
  have keep: "filter (\<lambda>r. \<not> (inStream (d_topic d) (d_writer d) r \<and> Suc (contigSeq h) \<le> e_seq (snd r))) (sq_log (lc_db s)) = sq_log (lc_db s)"
    using fit by (fastforce simp: head_fits_def held_def streamRow_def inStream_def filter_id_conv)
  have final: "directiveFinal E d = (contigSeq h, contigChain h)" using d by (simp add: directiveFinal_def)
  have chain: "localChainAt E d h (contigSeq h) x = Some (contigChain h)" for x
    using seed key by (simp add: localChainAt_def seed_head_def)
  have doomed: "entriesRange x t w (Suc (contigSeq h)) (contigSeq h) = []" for x t w by (rule entriesRange_empty) simp
  have p: "processDirective E now d s = retireStream E now d h ?put"
    using gs h0 stored d(1,4) fr(1) by (auto simp: processDirective_def Let_def)
  show "settled s' = settled s @ [RDirective DirApplied]" "hlcState s' = hlcState s"
    using run fr by (auto simp: p retireStream_def final chain doomed Let_def settle_def forgetRecovery_def saveHead_def
        dropFrom_def quarantineAll_def)
  have "lc_db s' = upsertWriter ((directivePut (lc_db s) (d_topic d) (d_writer d) (d_rgen d) d)
      \<lparr>sq_log := sq_log (lc_db s)\<rparr>) (retireHead (d_rgen d) now (contigSeq h) (contigChain h) (h\<lparr>contigSeq := contigSeq h, contigChain := contigChain h\<rparr>))"
    using run fr(1) keep by (auto simp: p retireStream_def final chain doomed Let_def settle_def forgetRecovery_def
        quarantineAll_def directivePut_def)
  then show "lc_db s' = (upsertWriter (directivePut (lc_db s) (d_topic d) (d_writer d) (d_rgen d) d)
      (retireHead (d_rgen d) now (contigSeq h) (contigChain h) h))\<lparr>sq_log := sq_log (lc_db s)\<rparr>"
    by (simp add: upsertWriter_def directivePut_def)
qed

lemma flush_directive:
  assumes "\<not> q_closed q" "q_items q = []" "queue_ids q" "publishBegin E A d q = (DirWaits i, q1)"
    and "s' = processDirective E (clk i) d (beginFlush (q_core q))"
  shows "i = q_next q" and "q_core (flush E clk None q1) = commitFlush (withDb (\<lambda>x. metaSetHlc x (hlcState s')) s')"
    and "q_items (flush E clk None q1) = []" and "\<not> q_closed (flush E clk None q1)" and "queue_ids (flush E clk None q1)"
    and "settled s' = [r] \<Longrightarrow> map_of (q_done (flush E clk None q1)) i = Some r"
proof -
  have q1: "i = q_next q" "q1 = push E (QDirective d) q"
    using assms(1,4) by (auto simp: publishBegin_def applyDirective_def preOpen_def split: sum.splits if_splits)
  then show "i = q_next q" by simp
  have p: "q_items q1 = [(i, QDirective d)]" "q_closed q1 = False" "q_core q1 = q_core q" "q_done q1 = q_done q"
    using q1 assms(1,2) by (auto simp: push_def Let_def)
  have run: "runItems E clk [(i, QDirective d)] (beginFlush (q_core q)) = Inr s'"
    by (simp add: processItem_def assms(5))
  show "q_core (flush E clk None q1) = commitFlush (withDb (\<lambda>x. metaSetHlc x (hlcState s')) s')"
    "q_items (flush E clk None q1) = []" "\<not> q_closed (flush E clk None q1)"
    using run by (simp_all add: flush_def flushTxn_def p Let_def)
  show "queue_ids (flush E clk None q1)" using queue_ids_flush queue_ids_push assms(3) q1(2) by blast
  assume one: "settled s' = [r]"
  have "i \<notin> fst ` set (q_done q)" using assms(3) q1(1) by (auto simp: queue_ids_def)
  then show "map_of (q_done (flush E clk None q1)) i = Some r"
    using run one by (simp add: flush_def flushTxn_def p Let_def map_add_def map_of_eq_None_iff [THEN iffD2])
qed

section \<open>Retiring all streams of a writer\<close>

text \<open>The premises under which \<open>retire\<close> of a writer goes through: an issuer that adds its
  signature and nothing else, a verifier that accepts it, and streams on known topics with no
  stored directive of the next generation.\<close>

definition honest_issuer :: "LogEnv \<Rightarrow> AuthorityHooks \<Rightarrow> bool" where
  "honest_issuer E A \<longleftrightarrow> (\<exists>issue verify. issueWriterDirective A = Some issue \<and> verifyWriterDirective A = Some verify \<and>
     (\<forall>u. restOf (issue u) = u \<and> verify (issue u) \<and> (\<exists>x. jcs (prims E) (unsigned_js u) = Inr x)))"

definition retirable :: "LogEnv \<Rightarrow> LogCore \<Rightarrow> WriterRow \<Rightarrow> bool" where
  "retirable E s w \<longleftrightarrow> (\<exists>te. reg_get (registry E) (w_topic w) = Inr te) \<and> rgen w + 1 \<le> MAX_SAFE_INTEGER \<and>
     seed_head E w \<and> directiveGet (lc_db s) (w_topic w) (w_writer w) (rgen w + 1) = None"

lemma publish_retirement:
  assumes inv: "core_inv E (q_core q)" "queue_ids q" "q_items q = []" "\<not> q_closed q"
    and honest: "honest_issuer E A" and w: "headIn E (q_core q) (w_topic w) (w_writer w) = w" "retirable E (q_core q) w"
  obtains d i q1 q2 now where "signNext E A (retireProposal (w_writer w) w) q = (DirWaits i, Some d, q1)"
    "flush E clk None q1 = q2" "map_of (q_done q2) i = Some (RDirective DirApplied)" "core_inv E (q_core q2)" "queue_ids q2"
    "q_items q2 = []" "\<not> q_closed q2" "sq_log (lc_db (q_core q2)) = sq_log (lc_db (q_core q))"
    "\<And>t x. headIn E (q_core q2) t x = (if t = w_topic w \<and> x = w_writer w
       then retireHead (rgen w + 1) now (contigSeq w) (contigChain w) w else headIn E (q_core q) t x)"
    "\<And>t x g. (t, x) \<noteq> (w_topic w, w_writer w) \<Longrightarrow>
       directiveGet (lc_db (q_core q2)) t x g = directiveGet (lc_db (q_core q)) t x g"
proof -
  let ?u = "retireProposal (w_writer w) w"
  obtain issue verify where A: "issueWriterDirective A = Some issue" "verifyWriterDirective A = Some verify"
    "\<And>u. restOf (issue u) = u" "\<And>u. verify (issue u)" "\<And>u. \<exists>x. jcs (prims E) (unsigned_js u) = Inr x"
    using honest by (auto simp: honest_issuer_def)
  let ?d = "issue ?u"
  have d: "d_topic ?d = w_topic w" "d_writer ?d = w_writer w" "d_state ?d = Retired" "d_rgen ?d = rgen w + 1"
    "d_finalSeq ?d = Some (contigSeq w)" "d_finalChain ?d = Some (contigChain w)"
    using A(3) [of ?u] by (simp_all add: restOf_def retireProposal_def)
  have match: "assertMatchesProposal (prims E) ?u ?d = Inr ()"
    using A(5) [of ?u] A(3) by (auto simp: assertMatchesProposal_def rbind_def)
  have shape: "directiveShape E ?d = Inr ()"
    using w(2) d by (auto simp: directiveShape_def retirable_def rbind_def)
  let ?i = "q_next q" and ?q1 = "push E (QDirective ?d) q"
  have pub: "publishBegin E A ?d q = (DirWaits ?i, ?q1)"
    using inv(4) shape A(2,4) by (simp add: publishBegin_def verifyDirective_def applyDirective_def preOpen_def)
  have sign: "signNext E A ?u q = (DirWaits ?i, Some ?d, ?q1)"
    using A(1) match pub by (simp add: signNext_def Let_def)
  let ?now = "clk ?i"
  define s' where "s' = processDirective E ?now ?d (beginFlush (q_core q))"
  note fl = flush_directive [where clk = clk, OF inv(4,3,2) pub s'_def]
  have begin': "lc_db (beginFlush (q_core q)) = lc_db (q_core q)" "settled (beginFlush (q_core q)) = []"
    by (simp_all add: beginFlush_def)
  have pre: "headIn E (beginFlush (q_core q)) (d_topic ?d) (d_writer ?d) = w" "seed_head E w"
    "directiveGet (lc_db (beginFlush (q_core q))) (d_topic ?d) (d_writer ?d) (d_rgen ?d) = None"
    using w d begin' by (simp_all add: retirable_def)
  have newer: "rgen w < d_rgen ?d \<or> sealReason w = Some SealFork" using d(4) by simp
  note rh = retire_at_head [OF inv_begin [OF inv(1)] pre(1,2) d(3,5,6) newer pre(3) s'_def [symmetric]]
  let ?q2 = "flush E clk None ?q1"
  have db: "lc_db (q_core ?q2) = metaSetHlc (lc_db s') (hlcState s')"
    using fl(2) by (simp add: commitFlush_def)
  have ci: "core_inv E (q_core ?q2)"
  proof -
    have run: "flushTxn E clk None [(?i, QDirective ?d)] (beginFlush (q_core q)) =
        Inr (withDb (\<lambda>x. metaSetHlc x (hlcState s')) s')"
      by (simp add: flushTxn_def processItem_def s'_def)
    show ?thesis using inv_flushTxn [OF inv_begin [OF inv(1)] _ run] fl(2) by (simp add: item_ok_def)
  qed
  have key: "w_topic w = w_topic w \<and> w_writer w = w_writer w" by simp
  show ?thesis
  proof (rule that [OF sign refl])
    show "map_of (q_done ?q2) ?i = Some (RDirective DirApplied)" using fl(6) rh(1) begin'(2) d(4) by simp
    show "core_inv E (q_core ?q2)" "queue_ids ?q2" "q_items ?q2 = []" "\<not> q_closed ?q2" using ci fl by simp_all
    show "sq_log (lc_db (q_core ?q2)) = sq_log (lc_db (q_core q))"
      using db rh(2) d(4) begin' by (simp add: metaSetHlc_def)
    show "headIn E (q_core ?q2) t x = (if t = w_topic w \<and> x = w_writer w
       then retireHead (rgen w + 1) ?now (contigSeq w) (contigChain w) w else headIn E (q_core q) t x)" for t x
      using db rh(2) d begin' by (simp add: storedHead_def getWriter_def metaSetHlc_def upsertWriter_def directivePut_def
          map_of_alist_update retireHead_def)
    show "directiveGet (lc_db (q_core ?q2)) t x g = directiveGet (lc_db (q_core q)) t x g"
      if "(t, x) \<noteq> (w_topic w, w_writer w)" for t x g
      using db rh(2) d begin' that by (auto simp: directiveGet_def metaSetHlc_def upsertWriter_def directivePut_def
          map_of_alist_update)
  qed
qed

lemma job_retires:
  assumes "honest_issuer E A"
  shows "core_inv E (q_core q) \<Longrightarrow> queue_ids q \<Longrightarrow> q_items q = [] \<Longrightarrow> \<not> q_closed q \<Longrightarrow>
    distinct (map w_topic ws) \<Longrightarrow> (\<And>w. w \<in> set ws \<Longrightarrow> w_writer w = writer \<and> headIn E (q_core q) (w_topic w) writer = w \<and> retirable E (q_core q) w) \<Longrightarrow>
    \<exists>q' h'. runJob E A clk (map (retireProposal writer) ws) (q, h) = (DirDone, q', h') \<and>
      sq_log (lc_db (q_core q')) = sq_log (lc_db (q_core q)) \<and>
      (\<forall>w \<in> set ws. \<exists>now. headIn E (q_core q') (w_topic w) writer = retireHead (rgen w + 1) now (contigSeq w) (contigChain w) w) \<and>
      (\<forall>t x. x \<noteq> writer \<or> t \<notin> w_topic ` set ws \<longrightarrow> headIn E (q_core q') t x = headIn E (q_core q) t x)"
proof (induction ws arbitrary: q h)
  case (Cons w ws)
  have w: "w_writer w = writer" "headIn E (q_core q) (w_topic w) (w_writer w) = w" "retirable E (q_core q) w"
    using Cons.prems(6) [of w] by auto
  obtain d i q1 q2 now where step: "signNext E A (retireProposal writer w) q = (DirWaits i, Some d, q1)"
    "flush E clk None q1 = q2" "map_of (q_done q2) i = Some (RDirective DirApplied)"
    and q2: "core_inv E (q_core q2)" "queue_ids q2" "q_items q2 = []" "\<not> q_closed q2"
      "sq_log (lc_db (q_core q2)) = sq_log (lc_db (q_core q))"
    and heads: "\<And>t x. headIn E (q_core q2) t x = (if t = w_topic w \<and> x = writer
       then retireHead (rgen w + 1) now (contigSeq w) (contigChain w) w else headIn E (q_core q) t x)"
    and dirs: "\<And>t x g. (t, x) \<noteq> (w_topic w, writer) \<Longrightarrow>
       directiveGet (lc_db (q_core q2)) t x g = directiveGet (lc_db (q_core q)) t x g"
    using publish_retirement [OF Cons.prems(1-4) assms w(2,3), of clk] unfolding w(1) by metis
  have rest: "w_writer v = writer \<and> headIn E (q_core q2) (w_topic v) writer = v \<and> retirable E (q_core q2) v"
    if "v \<in> set ws" for v
  proof -
    have "w_topic v \<noteq> w_topic w" using Cons.prems(5) that by (auto simp: image_iff)
    then show ?thesis using Cons.prems(6) [of v] that heads dirs by (auto simp: retirable_def)
  qed
  have "distinct (map w_topic ws)" using Cons.prems(5) by simp
  from Cons.IH [OF q2(1-4) this rest, of "snd (publishEnd d (RDirective DirApplied) h)"]
  obtain q' h' where r: "runJob E A clk (map (retireProposal writer) ws) (q2, dirApplied d DirApplied h) = (DirDone, q', h')"
    "sq_log (lc_db (q_core q')) = sq_log (lc_db (q_core q2))"
    "\<forall>v \<in> set ws. \<exists>now. headIn E (q_core q') (w_topic v) writer = retireHead (rgen v + 1) now (contigSeq v) (contigChain v) v"
    "\<forall>t x. x \<noteq> writer \<or> t \<notin> w_topic ` set ws \<longrightarrow> headIn E (q_core q') t x = headIn E (q_core q2) t x"
    by (auto simp: publishEnd_def)
  have "runJob E A clk (map (retireProposal writer) (w # ws)) (q, h) = (DirDone, q', h')"
    using step r(1) by (simp add: publishEnd_def Let_def)
  moreover have "headIn E (q_core q') (w_topic w) writer = retireHead (rgen w + 1) now (contigSeq w) (contigChain w) w"
    using r(4) heads Cons.prems(5) by simp
  ultimately show ?case using r(2-4) q2(5) heads by auto
qed auto


section \<open>Generations\<close>

lemma directive_cases:
  assumes inv: "core_inv E s" and h: "headIn E s (d_topic d) (d_writer d) = h" and run: "processDirective E now d s = s'"
  obtains (refused) "settled s' = settled s @ [RDirective DirRefused]" "\<And>t x. headIn E s' t x = headIn E s t x"
    | (stale) "settled s' = settled s @ [RDirective DirStale]" "\<And>t x. headIn E s' t x = headIn E s t x"
    | (applied) h' where "settled s' = settled s @ [RDirective DirApplied]" "rgen h' = d_rgen d" "contigSeq h' \<le> contigSeq h"
        "rgen h < d_rgen d \<or> sealReason h = Some SealFork"
        "\<And>t x. headIn E s' t x = (if t = d_topic d \<and> x = d_writer d then h' else headIn E s t x)"
    | (recovery) h' where "settled s' = settled s @ [RDirective DirRecovery]" "rgen h' = rgen h" "contigSeq h' = contigSeq h"
        "\<And>t x. headIn E s' t x = (if t = d_topic d \<and> x = d_writer d then h' else headIn E s t x)"
proof -
  obtain h0 s1 where gs: "getStream E (d_topic d) (d_writer d) s = (h0, s1)" by fastforce
  note g = inv_getStream [OF inv gs] and fr = getStream_frame [OF gs]
  have h0: "h0 = h" using g(2) h fr(1) by simp
  have key: "w_topic h = d_topic d" "w_writer h = d_writer d" using g(4,5) h0 by simp_all
  let ?put = "withDb (\<lambda>x. directivePut x (d_topic d) (d_writer d) (d_rgen d) d) s1"
  have put: "storedHead E (lc_db ?put) = storedHead E (lc_db s)" "settled ?put = settled s"
    using fr(1,7) by (auto simp: directivePut_def intro!: storedHead_cong)
  consider (diff) "directiveGet (lc_db s) (d_topic d) (d_writer d) (d_rgen d) \<notin> {None, Some d}"
    | (old) "directiveGet (lc_db s) (d_topic d) (d_writer d) (d_rgen d) \<in> {None, Some d}" "d_rgen d \<le> rgen h" "sealReason h \<noteq> Some SealFork"
    | (live) "directiveGet (lc_db s) (d_topic d) (d_writer d) (d_rgen d) \<in> {None, Some d}" "rgen h < d_rgen d \<or> sealReason h = Some SealFork"
        "d_state d = Live"
    | (retire) "directiveGet (lc_db s) (d_topic d) (d_writer d) (d_rgen d) \<in> {None, Some d}" "rgen h < d_rgen d \<or> sealReason h = Some SealFork"
        "d_state d = Retired" using not_less by (cases "d_state d") blast+
  then show ?thesis
  proof cases
    case diff
    then have "s' = settle (RDirective DirRefused) (pushAnomaly (anomaly_plain A_bad_directive) s1)"
      using run gs fr(1) by (auto simp: processDirective_def Let_def)
    then show ?thesis using fr(1,7) by (intro refused) (simp_all add: settle_def pushAnomaly_def)
  next
    case old
    then have "s' = settle (RDirective DirStale) ?put"
      using run gs fr(1) h0 by (auto simp: processDirective_def Let_def)
    then show ?thesis using put by (intro stale) (simp_all add: settle_def)
  next
    case live
    show ?thesis
    proof (cases "sealReason h = Some SealFork")
      case True
      then have "s' = settle (RDirective DirRefused) (pushAnomaly (anomaly_plain A_bad_directive) ?put)"
        using run gs fr(1) h0 live by (auto simp: processDirective_def Let_def)
      then show ?thesis using put by (intro refused) (simp_all add: settle_def pushAnomaly_def)
    next
      case False
      let ?h' = "h\<lparr>sealReason := None, rgen := d_rgen d, retiredAt := None, finalSeq := None, finalChain := None\<rparr>"
      have "s' = settle (RDirective DirApplied) (forgetRecovery (d_topic d) (d_writer d) (saveHead E now ?h' ?put))"
        using run gs fr(1) h0 live False by (auto simp: processDirective_def Let_def)
      then show ?thesis
        using put live(2) key
        by (intro applied [of ?h']) (simp_all add: settle_def forgetRecovery_def storedHead_upsert fr(1) saveHead_def Let_def)
    qed
  next
    case retire
    have s': "s' = retireStream E now d h ?put"
      using run gs fr(1) h0 retire by (auto simp: processDirective_def Let_def)
    obtain fs fc where final: "directiveFinal E d = (fs, fc)" by fastforce
    show ?thesis
    proof (cases "contigSeq h \<ge> fs \<and> localChainAt E d h fs (lc_db ?put) = Some fc")
      case True
      let ?doomed = "entriesRange (lc_db ?put) (d_topic d) (d_writer d) (fs + 1) (contigSeq h)"
      let ?s2 = "dropFrom (d_topic d) (d_writer d) (fs + 1) (quarantineAll ''canonicalized'' now ?doomed ?put)"
      let ?h' = "retireHead (d_rgen d) now fs fc (h\<lparr>contigSeq := fs, contigChain := fc\<rparr>)"
      have eq: "s' = settle (RDirective DirApplied) (forgetRecovery (d_topic d) (d_writer d) (saveHead E now ?h' ?s2))"
        using True by (simp add: s' retireStream_def final Let_def)
      have "storedHead E (lc_db ?s2) = storedHead E (lc_db s)"
        using fr(1) by (intro storedHead_cong) (simp add: directivePut_def)
      moreover have "settled (quarantineAll r now rows x) = settled x" for r rows x
        by (induction rows arbitrary: x) (simp_all add: quarantineAll_def pushAnomaly_def)
      ultimately show ?thesis
        using put(2) retire(2) key True eq
        by (intro applied [of ?h'])
          (simp_all add: settle_def forgetRecovery_def storedHead_upsert retireHead_def saveHead_def Let_def dropFrom_def)
    next
      case False
      let ?h' = "if sealReason h = None then h\<lparr>sealReason := Some SealFork\<rparr> else h"
      let ?s2 = "if sealReason h = None then saveHead E now (h\<lparr>sealReason := Some SealFork\<rparr>) ?put else ?put"
      have eq: "s' = settle (RDirective DirRecovery) (?s2\<lparr>recoveries := (recoveries ?s2)((d_topic d, d_writer d) \<mapsto>
          \<lparr>rt_finalSeq = fs, rt_finalChain = fc, rt_rgen = d_rgen d, rt_unavailableReported = False\<rparr>)\<rparr>)"
        by (simp only: s' retireStream_def final prod.case Let_def if_not_P [OF False])
      have "settled s' = settled s @ [RDirective DirRecovery]"
        using put(2) by (simp add: eq settle_def saveHead_def Let_def)
      moreover have "headIn E s' t x = (if t = d_topic d \<and> x = d_writer d then ?h' else headIn E s t x)" for t x
        using put(1) key h by (simp add: eq settle_def storedHead_upsert)
      ultimately show ?thesis by (intro recovery [of ?h']) auto
    qed
  qed
qed

text \<open>The generation rule: on a stream that is not fork-sealed a directive never lowers the
  generation, it is applied only when its generation is the higher one (which the stream then
  has), and it touches no other stream; a stale or refused directive changes no head.\<close>

theorem directive_generations_grow:
  assumes "core_inv E s" and "sealReason (headIn E s (d_topic d) (d_writer d)) \<noteq> Some SealFork"
    and "processDirective E now d s = s'"
  shows "rgen (headIn E s (d_topic d) (d_writer d)) \<le> rgen (headIn E s' (d_topic d) (d_writer d)) \<and>
    (\<forall>t x. (t, x) \<noteq> (d_topic d, d_writer d) \<longrightarrow> headIn E s' t x = headIn E s t x) \<and>
    (\<exists>r. settled s' = settled s @ [RDirective r] \<and>
      (r = DirApplied \<longrightarrow> rgen (headIn E s (d_topic d) (d_writer d)) < d_rgen d \<and>
         rgen (headIn E s' (d_topic d) (d_writer d)) = d_rgen d) \<and>
      (r = DirStale \<or> r = DirRefused \<longrightarrow> (\<forall>t x. headIn E s' t x = headIn E s t x)))"
  by (rule directive_cases [OF assms(1) refl assms(3)]) (use assms(2) in auto)

text \<open>A fork seal switches the rule off: a retirement at the head of a fork-sealed stream is
  applied whatever its generation, so the generation of the stream goes back to an older one.\<close>

theorem fork_seal_lowers_generation:
  assumes "core_inv E s" and "headIn E s (d_topic d) (d_writer d) = h" and "seed_head E h"
    and "sealReason h = Some SealFork" and "d_state d = Retired" and "d_rgen d < rgen h"
    and "d_finalSeq d = Some (contigSeq h)" and "d_finalChain d = Some (contigChain h)"
    and "directiveGet (lc_db s) (d_topic d) (d_writer d) (d_rgen d) = None"
    and "processDirective E now d s = s'"
  shows "settled s' = settled s @ [RDirective DirApplied] \<and> rgen (headIn E s' (d_topic d) (d_writer d)) < rgen h"
proof -
  note rh = retire_at_head [OF assms(1,2,3,5,7,8) disjI2 [OF assms(4)] assms(9,10)]
  have "w_topic h = d_topic d" "w_writer h = d_writer d"
    using assms(1,2) stored_key [of "lc_db s" E "(d_topic d, d_writer d)"] by (simp_all add: core_inv_def stream_ok_def)
  then have "headIn E s' (d_topic d) (d_writer d) = retireHead (d_rgen d) now (contigSeq h) (contigChain h) h"
    using rh(2) by (simp add: storedHead_def getWriter_def upsertWriter_def retireHead_def map_of_alist_update)
  then show ?thesis using rh(1) assms(6) by (simp add: retireHead_def)
qed

text \<open>A refused directive is remembered and blocks the repair: on a fork-sealed stream a \<open>live\<close>
  directive of the next generation is refused but stays stored, so the directive that \<open>retire\<close>
  proposes next (it has the same generation) is refused as well, and the stream keeps its head.\<close>

theorem refused_live_blocks_retire:
  assumes "core_inv E s" and "headIn E s (d_topic dl) (d_writer dl) = h" and "sealReason h = Some SealFork"
    and "d_state dl = Live" and "d_rgen dl = rgen h + 1"
    and "directiveGet (lc_db s) (d_topic dl) (d_writer dl) (d_rgen dl) = None"
    and "restOf dr = retireProposal (d_writer dl) h"
    and "processDirective E now dl s = s1" and "processDirective E later dr s1 = s2"
  shows "settled s2 = settled s @ [RDirective DirRefused, RDirective DirRefused] \<and>
    headIn E s2 (d_topic dl) (d_writer dl) = h"
proof -
  have key: "w_topic h = d_topic dl" "w_writer h = d_writer dl"
    using assms(1,2) stored_key [of "lc_db s" E "(d_topic dl, d_writer dl)"] by (simp_all add: core_inv_def stream_ok_def)
  have dr: "d_topic dr = d_topic dl" "d_writer dr = d_writer dl" "d_state dr = Retired" "d_rgen dr = d_rgen dl"
    using assms(5,7) key by (simp_all add: restOf_def retireProposal_def)
  obtain h0 x where gs: "getStream E (d_topic dl) (d_writer dl) s = (h0, x)" by fastforce
  note g = inv_getStream [OF assms(1) gs] and fr = getStream_frame [OF gs]
  have s1: "s1 = settle (RDirective DirRefused) (pushAnomaly (anomaly_plain A_bad_directive)
      (withDb (\<lambda>y. directivePut y (d_topic dl) (d_writer dl) (d_rgen dl) dl) x))"
    using assms(2-6,8) gs g(2) fr(1) by (auto simp: processDirective_def Let_def)
  obtain h1 y where gs1: "getStream E (d_topic dl) (d_writer dl) s1 = (h1, y)" by fastforce
  note fr1 = getStream_frame [OF gs1]
  have "directiveGet (lc_db y) (d_topic dl) (d_writer dl) (d_rgen dl) = Some dl"
    using fr1(1) by (simp add: s1 settle_def pushAnomaly_def directiveGet_def directivePut_def map_of_alist_update)
  moreover have "dl \<noteq> dr" using assms(4) dr(3) by auto
  ultimately have s2: "s2 = settle (RDirective DirRefused) (pushAnomaly (anomaly_plain A_bad_directive) y)"
    using assms(9) gs1 dr by (auto simp: processDirective_def Let_def)
  have "storedHead E (lc_db s2) = storedHead E (lc_db s)"
    by (rule storedHead_cong) (simp add: s2 s1 settle_def pushAnomaly_def fr1(1) fr(1) directivePut_def)
  then show ?thesis using assms(2) fr1(7) fr(7) by (simp add: s2 s1 settle_def pushAnomaly_def)
qed

end
