(* ===== verification/Directive_Demo.thy ===== *)
theory Directive_Demo
  imports Directive_Rules Log_Demo
begin

text \<open>
  The properties of directives on concrete nodes: the node that committed one append, and nodes
  whose only stream is fork-sealed.
\<close>

definition demo_issuer :: AuthorityHooks where
  "demo_issuer = no_hooks\<lparr>verifyWriterDirective := Some (\<lambda>d. d_sig d = ''ok''),
     issueWriterDirective := Some (\<lambda>u. \<lparr>d_topic = u_topic u, d_writer = u_writer u, d_state = u_state u, d_rgen = u_rgen u,
       d_finalSeq = u_finalSeq u, d_finalChain = u_finalChain u, d_authority = ''host'', d_sig = ''ok''\<rparr>)\<rparr>"

lemma demo_honest: "honest_issuer demo_env demo_issuer"
  by (simp add: honest_issuer_def demo_issuer_def restOf_def jcs_def demo_lib_def)

definition demo_head :: WriterRow where
  "demo_head = setContig demo_first (freshHead demo_env ''t'' ''me'')"

lemma demo_writers: "sq_writers (lc_db (q_core demo_after)) = [((''t'', ''me''), demo_head)]"
proof -
  obtain head s1 where gs: "getStream demo_env ''t'' ''me'' (beginFlush (LogCore_new empty_store)) = (head, s1)"
    by fastforce
  have "head = freshHead demo_env ''t'' ''me''"
    using gs by (auto simp: getStream_def beginFlush_def LogCore_new_def storedHead_def getWriter_def
        empty_store_def empty_db_def Let_def)
  then show ?thesis
    by (simp add: demo_after_core commitFlush_def metaSetHlc_def demo_applied_def gs demo_head_def
        upsertWriter_def pushApplied_def settle_def setContig_def freshHead_def empty_db_def)
qed

definition demo_dirhub :: DirectiveHub where
  "demo_dirhub = \<lparr>dh_applied = [], dh_broadcast = [], dh_anomalies = []\<rparr>"


definition forked_head :: "nat \<Rightarrow> WriterRow" where
  "forked_head g = (freshHead demo_env ''t'' ''me'')\<lparr>sealReason := Some SealFork, rgen := g\<rparr>"

definition forked_core :: "nat \<Rightarrow> LogCore" where
  "forked_core g = LogCore_new (empty_store\<lparr>db := empty_db\<lparr>sq_writers := [((''t'', ''me''), forked_head g)]\<rparr>\<rparr>)"

definition demo_directive :: "DirState \<Rightarrow> nat \<Rightarrow> WriterDirective" where
  "demo_directive st g = \<lparr>d_topic = ''t'', d_writer = ''me'', d_state = st, d_rgen = g,
     d_finalSeq = (if st = Retired then Some 0 else None),
     d_finalChain = (if st = Retired then Some (contigChain (forked_head g)) else None), d_authority = ''host'', d_sig = ''ok''\<rparr>"

lemma forked_inv: "core_inv demo_env (forked_core g)"
  by (auto simp: forked_core_def LogCore_new_def core_inv_def stream_ok_def empty_store_def
      writers_keyed_def head_fits_def chain_linked_def held_def empty_db_def getWriter_def forked_head_def freshHead_def
      headsCache.coherent_def certsCache.coherent_def floorsCache.coherent_def counts_ok_def log_table_ok_def split: if_splits)

lemma forked_stored:
  "headIn demo_env (forked_core g) ''t'' ''me'' = forked_head g" "directiveGet (lc_db (forked_core g)) t w k = None"
  by (simp_all add: forked_core_def LogCore_new_def storedHead_def getWriter_def directiveGet_def empty_store_def empty_db_def)

theorem directive_generations_grow_witness:
  "rgen (headIn demo_env (processDirective demo_env 9 (demo_directive Retired 1) (LogCore_new empty_store)) ''t'' ''me'') \<ge> 0 \<and>
   (\<exists>r. settled (processDirective demo_env 9 (demo_directive Retired 1) (LogCore_new empty_store)) = [RDirective r])"
proof -
  have s: "headIn demo_env (LogCore_new empty_store) ''t'' ''me'' = freshHead demo_env ''t'' ''me''" "settled (LogCore_new empty_store) = []"
    by (simp_all add: LogCore_new_def storedHead_def getWriter_def empty_store_def empty_db_def)
  have "core_inv demo_env (LogCore_new empty_store)" using queue_inv_new by (simp add: queue_inv_def newQueue_def)
  then show ?thesis
    using directive_generations_grow [of demo_env "LogCore_new empty_store" "demo_directive Retired 1" 9, OF _ _ refl] s
    by (auto simp: demo_directive_def freshHead_def)
qed

theorem fork_seal_lowers_generation_witness:
  "rgen (headIn demo_env (processDirective demo_env 9 (demo_directive Retired 2) (forked_core 5)) ''t'' ''me'') < 5"
  using fork_seal_lowers_generation [of demo_env "forked_core 5" "demo_directive Retired 2" "forked_head 5", OF forked_inv _ _ _ _ _ _ _ _ refl, of 9]
    forked_stored
  by (simp add: demo_directive_def seed_head_def forked_head_def freshHead_def)

theorem refused_live_blocks_retire_witness:
  "let s1 = processDirective demo_env 9 (demo_directive Live 1) (forked_core 0);
       s2 = processDirective demo_env 9 (demo_directive Retired 1) s1
   in settled s2 = [RDirective DirRefused, RDirective DirRefused] \<and> headIn demo_env s2 ''t'' ''me'' = forked_head 0"
proof -
  have "restOf (demo_directive Retired 1) = retireProposal ''me'' (forked_head 0)"
    by (simp add: restOf_def retireProposal_def demo_directive_def forked_head_def freshHead_def)
  moreover have "settled (forked_core 0) = []" by (simp add: forked_core_def LogCore_new_def)
  ultimately show ?thesis
    using refused_live_blocks_retire [of demo_env "forked_core 0" "demo_directive Live 1" "forked_head 0" "demo_directive Retired 1",
        OF forked_inv _ _ _ _ _ _ refl refl, of 9 9] forked_stored
    by (simp add: demo_directive_def forked_head_def freshHead_def Let_def)
qed

end
