(* ===== verification/Consume.thy ===== *)
theory Consume
  imports Log_Removal
begin

text \<open>
  \<^verbatim>\<open>src/consume.ts\<close>: durable consumers. A consumer is an object of the hub, named by
  a number; \<open>ch_consumers\<close> is the map from \<^verbatim>\<open>topic name\<close> (a pair here: a topic contains no
  space) to the registered object. A drain runs synchronously up to the call of the callback and
  waits there: \<open>co_batch\<close> holds the rows of the current page from the one whose callback is
  pending; \<open>callbackDone\<close> is the continuation. Promises of \<open>caughtUp\<close> are numbers with an outcome.
\<close>

section \<open>State\<close>

definition BATCH :: nat where
  "BATCH = 64"

definition BACKOFF_BASE_MS :: nat where
  "BACKOFF_BASE_MS = 100"

definition BACKOFF_MAX_MS :: nat where
  "BACKOFF_MAX_MS = 30000"

record CatchUpWaiter =
  cw_through :: nat
  cw_promise :: nat

record Consumer =
  co_topic :: string
  co_name :: string
  co_running :: bool
  co_rerun :: bool
  co_failures :: nat
  co_retry :: "nat option"
  co_gone :: bool
  co_waiters :: "CatchUpWaiter list"
  co_batch :: "LogRow list option"
  co_advanced :: bool

record ConsumerHub =
  ch_consumers :: "((string \<times> string) \<times> nat) list"
  ch_objs :: "nat \<Rightarrow> Consumer option"
  ch_next :: nat
  ch_closed :: bool
  ch_promises :: nat
  ch_settled :: "(nat \<times> nat result) list"
  ch_calls :: "(nat \<times> LogRow) list"
  ch_advances :: "string list"

definition ConsumerHub_new :: ConsumerHub where
  "ConsumerHub_new = \<lparr>ch_consumers = [], ch_objs = Map.empty, ch_next = 0, ch_closed = False, ch_promises = 0,
     ch_settled = [], ch_calls = [], ch_advances = []\<rparr>"

type_synonym ConsState = "ConsumerHub \<times> Db"

definition putObj :: "nat \<Rightarrow> Consumer \<Rightarrow> ConsumerHub \<Rightarrow> ConsumerHub" where
  "putObj i c h = h\<lparr>ch_objs := (ch_objs h)(i \<mapsto> c)\<rparr>"

definition rejectWaiters :: "nat \<Rightarrow> ConsumerHub \<Rightarrow> ConsumerHub" where
  "rejectWaiters i h = (case ch_objs h i of
     None \<Rightarrow> h
   | Some c \<Rightarrow> putObj i (c\<lparr>co_waiters := []\<rparr>)
       (h\<lparr>ch_settled := ch_settled h @ map (\<lambda>w. (cw_promise w, Inl ERR_MISUSE)) (co_waiters c)\<rparr>))"

section \<open>The drain\<close>

text \<open>The end of a drain: report the advance, release the consumer.\<close>

definition endDrain :: "nat \<Rightarrow> Consumer \<Rightarrow> ConsumerHub \<Rightarrow> ConsumerHub" where
  "endDrain i c h = putObj i (c\<lparr>co_running := False, co_batch := None, co_advanced := False\<rparr>)
     (if co_advanced c then h\<lparr>ch_advances := ch_advances h @ [co_topic c]\<rparr> else h)"

text \<open>The head of the drain's loop: the next page from the durable cursor, or the end.\<close>

definition drainLoop :: "nat \<Rightarrow> Consumer \<Rightarrow> ConsState \<Rightarrow> ConsState" where
  "drainLoop i c s = (case s of (h, d) \<Rightarrow>
     if co_gone c then (endDrain i c h, d)
     else case entriesForTopicFromRowid d (co_topic c) (cursorGet d (co_name c) (co_topic c)) BATCH of
       [] \<Rightarrow> (endDrain i c h, d)
     | row # rest \<Rightarrow> (putObj i (c\<lparr>co_batch := Some (row # rest)\<rparr>) (h\<lparr>ch_calls := ch_calls h @ [(i, row)]\<rparr>), d))"

definition startDrain :: "nat \<Rightarrow> Consumer \<Rightarrow> ConsState \<Rightarrow> ConsState" where
  "startDrain i c s = drainLoop i (c\<lparr>co_running := True, co_advanced := False\<rparr>) s"

text \<open>After a drain has ended: run again when something arrived meanwhile.\<close>

definition afterDrain :: "nat \<Rightarrow> ConsState \<Rightarrow> ConsState" where
  "afterDrain i s = (case ch_objs (fst s) i of
     None \<Rightarrow> s
   | Some c \<Rightarrow> if \<not> co_running c \<and> co_rerun c \<and> \<not> co_gone c then startDrain i (c\<lparr>co_rerun := False\<rparr>) s else s)"

definition pump :: "nat \<Rightarrow> ConsState \<Rightarrow> ConsState" where
  "pump i s = (case ch_objs (fst s) i of
     None \<Rightarrow> s
   | Some c \<Rightarrow> if co_running c \<or> co_gone c then (putObj i (c\<lparr>co_rerun := co_running c\<rparr>) (fst s), snd s)
               else afterDrain i (startDrain i c s))"

definition backoff :: "nat \<Rightarrow> nat" where
  "backoff failures = min (BACKOFF_BASE_MS * 2 ^ (failures - 1)) BACKOFF_MAX_MS"

definition resolveWaiters :: "nat \<Rightarrow> nat \<Rightarrow> Consumer \<Rightarrow> ConsumerHub \<Rightarrow> Consumer \<times> ConsumerHub" where
  "resolveWaiters i rowid c h =
     (c\<lparr>co_waiters := filter (\<lambda>w. rowid < cw_through w) (co_waiters c)\<rparr>,
      h\<lparr>ch_settled := ch_settled h @ map (\<lambda>w. (cw_promise w, Inr (cw_through w)))
          (filter (\<lambda>w. rowid \<ge> cw_through w) (co_waiters c))\<rparr>)"

text \<open>The promise of the pending callback settles.\<close>

definition callbackDone :: "nat \<Rightarrow> bool \<Rightarrow> nat \<Rightarrow> ConsState \<Rightarrow> ConsState" where
  "callbackDone i success now s = (case s of (h, d) \<Rightarrow>
     case ch_objs h i of
       None \<Rightarrow> s
     | Some c \<Rightarrow> (case co_batch c of
         Some ((rowid, entry) # rest) \<Rightarrow>
           if co_gone c then (endDrain i c h, d)
           else if \<not> success then
             (let d' = cursorSet d (co_name c) (co_topic c) (cursorGet d (co_name c) (co_topic c)) now;
                  c' = c\<lparr>co_failures := co_failures c + 1, co_retry := Some (backoff (co_failures c + 1))\<rparr>
              in afterDrain i (endDrain i c' h, d'))
           else
             (let d' = cursorSet d (co_name c) (co_topic c) rowid now in
              case resolveWaiters i rowid (c\<lparr>co_failures := 0, co_advanced := True\<rparr>) h of (c', h') \<Rightarrow>
                (case rest of
                   [] \<Rightarrow> afterDrain i (drainLoop i c' (h', d'))
                 | row # _ \<Rightarrow> (putObj i (c'\<lparr>co_batch := Some rest\<rparr>) (h'\<lparr>ch_calls := ch_calls h' @ [(i, row)]\<rparr>), d')))
       | _ \<Rightarrow> s))"

definition retryFires :: "nat \<Rightarrow> ConsState \<Rightarrow> ConsState" where
  "retryFires i s = (case ch_objs (fst s) i of
     None \<Rightarrow> s
   | Some c \<Rightarrow> pump i (putObj i (c\<lparr>co_retry := None\<rparr>) (fst s), snd s))"

definition pumpTopic :: "string \<Rightarrow> nat \<Rightarrow> ConsState \<Rightarrow> ConsState" where
  "pumpTopic topic i s = (case ch_objs (fst s) i of
     None \<Rightarrow> s | Some c \<Rightarrow> if co_topic c = topic then pump i s else s)"

definition consNotify :: "string \<Rightarrow> ConsState \<Rightarrow> ConsState" where
  "consNotify topic s = fold (pumpTopic topic) (map snd (ch_consumers (fst s))) s"

section \<open>Registration\<close>

definition hasCursor :: "Db \<Rightarrow> string \<Rightarrow> string \<Rightarrow> bool" where
  "hasCursor d topic name \<longleftrightarrow> list_ex (\<lambda>c. fst c = name) (cursorsForTopic d topic)"

definition onEntry :: "LogEnv \<Rightarrow> string \<Rightarrow> string \<Rightarrow> nat \<Rightarrow> ConsState \<Rightarrow> nat result \<times> ConsState" where
  "onEntry E topic name now s = (case s of (h, d) \<Rightarrow>
     if ch_closed h then (Inl ERR_MISUSE, s)
     else case reg_get (registry E) topic of
       Inl err \<Rightarrow> (Inl err, s)
     | Inr te \<Rightarrow>
         if p_mode (te_policy te) \<noteq> ''full'' then (Inl ERR_MISUSE, s)
         else if map_of (ch_consumers h) (topic, name) \<noteq> None then (Inl ERR_MISUSE, s)
         else
           let d' = (if \<not> hasCursor d topic name then cursorSet d name topic 0 now else d);
               i = ch_next h;
               c = \<lparr>co_topic = topic, co_name = name, co_running = False, co_rerun = False, co_failures = 0,
                     co_retry = None, co_gone = False, co_waiters = [], co_batch = None, co_advanced = False\<rparr>;
               h' = putObj i c (h\<lparr>ch_consumers := ch_consumers h @ [((topic, name), i)], ch_next := i + 1\<rparr>)
           in (Inr i, pump i (h', d')))"

text \<open>The function that \<open>onEntry\<close> returned for the object \<open>i\<close>: it deletes the entry of the map by name.\<close>

definition unsubscribe :: "nat \<Rightarrow> ConsState \<Rightarrow> ConsState" where
  "unsubscribe i s = (case s of (h, d) \<Rightarrow>
     case ch_objs h i of
       None \<Rightarrow> s
     | Some c \<Rightarrow>
         let h1 = rejectWaiters i (putObj i (c\<lparr>co_gone := True, co_retry := None\<rparr>) h)
         in (h1\<lparr>ch_consumers := filter (\<lambda>p. fst p \<noteq> (co_topic c, co_name c)) (ch_consumers h1)\<rparr>, d))"

definition closeOne :: "nat \<Rightarrow> ConsumerHub \<Rightarrow> ConsumerHub" where
  "closeOne i h = (case ch_objs h i of
     None \<Rightarrow> h | Some c \<Rightarrow> rejectWaiters i (putObj i (c\<lparr>co_gone := True, co_retry := None\<rparr>) h))"

definition consClose :: "ConsState \<Rightarrow> ConsState" where
  "consClose s = (case s of (h, d) \<Rightarrow>
     ((fold closeOne (map snd (ch_consumers h)) (h\<lparr>ch_closed := True\<rparr>))\<lparr>ch_consumers := []\<rparr>, d))"

section \<open>Lifecycle of durable consumers\<close>

definition isActive :: "ConsumerHub \<Rightarrow> string \<Rightarrow> string \<Rightarrow> bool" where
  "isActive h topic name \<longleftrightarrow> map_of (ch_consumers h) (topic, name) \<noteq> None"

definition assertInactive :: "LogEnv \<Rightarrow> ConsumerHub \<Rightarrow> string \<Rightarrow> string \<Rightarrow> unit result" where
  "assertInactive E h topic name =
     (if ch_closed h then Inl ERR_MISUSE
      else rbind (reg_get (registry E) topic) (\<lambda>_.
        if isActive h topic name then Inl ERR_MISUSE else Inr ()))"

record ConsumerResetResult =
  cr_existed :: bool
  cr_fromHead :: bool
  cr_replayFromRowid :: nat
  cr_archivedRows :: nat

definition resetConsumer ::
  "LogEnv \<Rightarrow> string \<Rightarrow> string \<Rightarrow> bool \<Rightarrow> nat \<Rightarrow> ConsumerHub \<Rightarrow> Store \<Rightarrow> ConsumerResetResult result \<times> Store" where
  "resetConsumer E topic name fromHead now h st =
     (case assertInactive E h topic name of
        Inl err \<Rightarrow> (Inl err, st)
      | Inr _ \<Rightarrow>
          let existed = hasCursor (db st) topic name;
              start = (if fromHead then maxRowid (db st) topic else 0);
              st1 = st\<lparr>db := cursorSet (db st) name topic start now\<rparr>
          in (case (if fromHead then (0, st1) else archivedCount st1 topic) of (n, st2) \<Rightarrow>
               (Inr \<lparr>cr_existed = existed, cr_fromHead = fromHead, cr_replayFromRowid = start, cr_archivedRows = n\<rparr>, st2)))"

definition deleteConsumer :: "LogEnv \<Rightarrow> string \<Rightarrow> string \<Rightarrow> ConsState \<Rightarrow> bool result \<times> ConsState" where
  "deleteConsumer E topic name s = (case s of (h, d) \<Rightarrow>
     case assertInactive E h topic name of
       Inl err \<Rightarrow> (Inl err, s)
     | Inr _ \<Rightarrow>
         if hasCursor d topic name
         then (Inr True, h\<lparr>ch_advances := ch_advances h @ [topic]\<rparr>, cursorDelete d name topic)
         else (Inr False, s))"

definition listConsumers :: "LogEnv \<Rightarrow> string \<Rightarrow> ConsState \<Rightarrow> (string \<times> nat \<times> nat \<times> bool) list result" where
  "listConsumers E topic s = (case s of (h, d) \<Rightarrow>
     if ch_closed h then Inl ERR_MISUSE
     else rbind (reg_get (registry E) topic) (\<lambda>_.
       Inr (map (\<lambda>(name, lastRowid, at'). (name, lastRowid, at', isActive h topic name)) (cursorsForTopic d topic))))"

text \<open>The rows that \<open>pruneConsumers\<close> selects.\<close>

definition prunableCursor :: "ConsumerHub \<Rightarrow> string \<Rightarrow> string option \<Rightarrow> int option \<Rightarrow> string \<times> nat \<times> nat \<Rightarrow> bool" where
  "prunableCursor h topic prefix' inactiveBefore c \<longleftrightarrow> (case c of (name, lastRowid, at') \<Rightarrow>
     \<not> isActive h topic name \<and>
     (case prefix' of None \<Rightarrow> True | Some p \<Rightarrow> startsWith name p) \<and>
     (case inactiveBefore of None \<Rightarrow> True | Some t \<Rightarrow> int at' < t))"

definition pruneConsumers ::
  "LogEnv \<Rightarrow> string \<Rightarrow> string option \<Rightarrow> int option \<Rightarrow> ConsState \<Rightarrow> string list result \<times> ConsState" where
  "pruneConsumers E topic prefix' inactiveBefore s = (case s of (h, d) \<Rightarrow>
     if ch_closed h then (Inl ERR_MISUSE, s)
     else case reg_get (registry E) topic of
       Inl err \<Rightarrow> (Inl err, s)
     | Inr _ \<Rightarrow>
         let pruned = map fst (filter (prunableCursor h topic prefix' inactiveBefore) (cursorsForTopic d topic));
             d' = foldl (\<lambda>x name. cursorDelete x name topic) d pruned
         in (Inr pruned, (if pruned \<noteq> [] then h\<lparr>ch_advances := ch_advances h @ [topic]\<rparr> else h), d'))"

text \<open>\<open>caughtUp\<close>: a new promise, already settled or waiting at the consumer.\<close>

definition caughtUp :: "LogEnv \<Rightarrow> string \<Rightarrow> string \<Rightarrow> ConsState \<Rightarrow> nat \<times> ConsState" where
  "caughtUp E topic name s = (case s of (h, d) \<Rightarrow>
     let p = ch_promises h; h1 = h\<lparr>ch_promises := p + 1\<rparr>;
         done = (\<lambda>r. (h1\<lparr>ch_settled := ch_settled h1 @ [(p, r)]\<rparr>, d))
     in (p, if ch_closed h then done (Inl ERR_MISUSE)
         else case reg_get (registry E) topic of
           Inl err \<Rightarrow> done (Inl err)
         | Inr _ \<Rightarrow> (case map_of (ch_consumers h) (topic, name) of
             None \<Rightarrow> done (Inl ERR_MISUSE)
           | Some i \<Rightarrow> (case ch_objs h i of
               None \<Rightarrow> (h1, d)
             | Some c \<Rightarrow>
                 let through = maxRowid d topic in
                 if cursorGet d name topic \<ge> through then done (Inr through)
                 else (putObj i (c\<lparr>co_waiters := co_waiters c @ [\<lparr>cw_through = through, cw_promise = p\<rparr>]\<rparr>) h1, d)))))"

end
