(* ===== verification/Consume_Rules.thy ===== *)
theory Consume_Rules
  imports Consume Register_Fold
begin

text \<open>
  What durable consumers promise: the cursor of a consumer moves only over the row whose callback
  has just succeeded, and never past a held row; a failure keeps the cursor and schedules a
  bounded retry; no \<open>caughtUp\<close> promise waits for a mark that is reached; nothing happens after
  \<open>close\<close>. And what a second call of an old unsubscribe function does.
\<close>

section \<open>The steps of a node with consumers\<close>

text \<open>Between the steps of the hub, rows are appended and removed; nothing else writes cursors.
  An unsubscribe function is called at most while its consumer is registered.\<close>

inductive cons_step :: "LogEnv \<Rightarrow> ConsState \<Rightarrow> ConsState \<Rightarrow> bool" for E where
  register: "onEntry E t n now s = (Inr i, s') \<Longrightarrow> cons_step E s s'"
| delivered: "cons_step E s (callbackDone i success now s)"
| retried: "cons_step E s (retryFires i s)"
| notified: "cons_step E s (consNotify t s)"
| waits: "caughtUp E t n s = (p, s') \<Longrightarrow> cons_step E s s'"
| leaves: "map_of (ch_consumers (fst s)) (t, n) = Some i \<Longrightarrow> cons_step E s (unsubscribe i s)"
| reset: "resetConsumer E t n fromHead now (fst s) st = (Inr r, st') \<Longrightarrow> db st = snd s \<Longrightarrow> cons_step E s (fst s, db st')"
| delete: "deleteConsumer E t n s = (Inr b, s') \<Longrightarrow> cons_step E s s'"
| prune: "pruneConsumers E t p before s = (Inr ns, s') \<Longrightarrow> cons_step E s s'"
| closes: "cons_step E s (consClose s)"
| log: "log_table_ok d' \<Longrightarrow> sq_cursors d' = sq_cursors d \<Longrightarrow> log_autoinc d \<le> log_autoinc d' \<Longrightarrow>
    (\<forall>r \<in> set (sq_log d'). r \<in> set (sq_log d) \<or> log_autoinc d < fst r) \<Longrightarrow> cons_step E (h, d) (h, d')"

inductive cons_reach :: "LogEnv \<Rightarrow> ConsState \<Rightarrow> bool" for E where
  fresh: "log_table_ok d \<Longrightarrow> cons_reach E (ConsumerHub_new, d)"
| step: "cons_reach E s \<Longrightarrow> cons_step E s s' \<Longrightarrow> cons_reach E s'"

section \<open>The invariant\<close>

definition cursorOf :: "Db \<Rightarrow> Consumer \<Rightarrow> nat" where
  "cursorOf d c = cursorGet d (co_name c) (co_topic c)"

definition batch_ok :: "(nat \<times> LogRow) list \<Rightarrow> Db \<Rightarrow> nat \<Rightarrow> Consumer \<Rightarrow> bool" where
  "batch_ok calls d i c \<longleftrightarrow> (case co_batch c of None \<Rightarrow> True | Some rows \<Rightarrow>
     rows \<noteq> [] \<and> sorted_wrt (<) (map fst rows) \<and> (\<forall>r \<in> set rows. fst r \<le> log_autoinc d) \<and>
     cursorOf d c < fst (hd rows) \<and> (i, hd rows) \<in> set calls \<and>
     (\<forall>r \<in> set (topicRows d (co_topic c)). cursorOf d c < fst r \<longrightarrow> fst r \<le> fst (last rows) \<longrightarrow> r \<in> set rows))"

definition obj_ok :: "(nat \<times> LogRow) list \<Rightarrow> Db \<Rightarrow> nat \<Rightarrow> Consumer \<Rightarrow> bool" where
  "obj_ok calls d i c \<longleftrightarrow> (co_running c \<longleftrightarrow> co_batch c \<noteq> None) \<and>
     (\<not> co_gone c \<longrightarrow> batch_ok calls d i c \<and> (\<forall>w \<in> set (co_waiters c). cursorOf d c < cw_through w))"

definition same_consumer :: "Consumer \<Rightarrow> Consumer \<Rightarrow> bool" where
  "same_consumer c c' \<longleftrightarrow> co_topic c = co_topic c' \<and> co_name c = co_name c' \<and> co_gone c = co_gone c'"

definition reg_ok :: "ConsumerHub \<Rightarrow> bool" where
  "reg_ok h \<longleftrightarrow> distinct (map fst (ch_consumers h)) \<and>
     (\<forall>t n i. ((t, n), i) \<in> set (ch_consumers h) \<longleftrightarrow>
        (\<exists>c. ch_objs h i = Some c \<and> \<not> co_gone c \<and> co_topic c = t \<and> co_name c = n)) \<and>
     (\<forall>i \<ge> ch_next h. ch_objs h i = None) \<and> (ch_closed h \<longrightarrow> ch_consumers h = [])"

definition others_ok :: "nat \<Rightarrow> ConsumerHub \<Rightarrow> Db \<Rightarrow> bool" where
  "others_ok i h d \<longleftrightarrow> log_table_ok d \<and> reg_ok h \<and> (\<forall>j c. j \<noteq> i \<longrightarrow> ch_objs h j = Some c \<longrightarrow> obj_ok (ch_calls h) d j c)"

definition cons_inv :: "ConsState \<Rightarrow> bool" where
  "cons_inv s \<longleftrightarrow> log_table_ok (snd s) \<and> reg_ok (fst s) \<and>
     (\<forall>i c. ch_objs (fst s) i = Some c \<longrightarrow> obj_ok (ch_calls (fst s)) (snd s) i c)"

lemma cons_inv_iff: "cons_inv (h, d) \<longleftrightarrow> others_ok i h d \<and> (\<forall>c. ch_objs h i = Some c \<longrightarrow> obj_ok (ch_calls h) d i c)"
  by (auto simp: cons_inv_def others_ok_def)

lemma batch_okI:
  assumes "co_batch c = Some rows" "rows \<noteq> []" "sorted_wrt (<) (map fst rows)" "\<And>r. r \<in> set rows \<Longrightarrow> fst r \<le> log_autoinc d"
    and "cursorOf d c < fst (hd rows)" "(i, hd rows) \<in> set calls"
    and "\<And>r. r \<in> set (topicRows d (co_topic c)) \<Longrightarrow> cursorOf d c < fst r \<Longrightarrow> fst r \<le> fst (last rows) \<Longrightarrow> r \<in> set rows"
  shows "batch_ok calls d i c"
  unfolding batch_ok_def assms(1) option.case using assms(2-) by blast

lemma cursorOf_same: "same_consumer c' c \<Longrightarrow> cursorOf d c' = cursorOf d c"
  by (simp add: cursorOf_def same_consumer_def)

lemma batch_ok_same: "same_consumer c' c \<Longrightarrow> co_batch c' = co_batch c \<Longrightarrow> batch_ok calls d i c' \<longleftrightarrow> batch_ok calls d i c"
proof -
  assume a: "same_consumer c' c" "co_batch c' = co_batch c"
  then have t: "co_topic c' = co_topic c" by (simp add: same_consumer_def)
  show ?thesis unfolding batch_ok_def cursorOf_same [OF a(1)] a(2) t ..
qed

lemma same_consumer_refl [simp]: "same_consumer c c"
  by (simp add: same_consumer_def)

lemma obj_ok_calls: "obj_ok calls d i c \<Longrightarrow> obj_ok (calls @ more') d i c"
  by (auto simp: obj_ok_def batch_ok_def split: option.splits)

lemma reg_ok_put: "reg_ok h \<Longrightarrow> ch_objs h i = Some c0 \<Longrightarrow> same_consumer c c0 \<Longrightarrow> reg_ok (putObj i c h)"
  unfolding reg_ok_def putObj_def same_consumer_def by (auto split: if_splits)

lemma reg_ok_cong: "ch_consumers h' = ch_consumers h \<Longrightarrow> ch_objs h' = ch_objs h \<Longrightarrow> ch_next h' = ch_next h \<Longrightarrow>
    ch_closed h' = ch_closed h \<Longrightarrow> reg_ok h' = reg_ok h"
  by (simp add: reg_ok_def)

lemma putObj_fields [simp]:
  "ch_consumers (putObj i c h) = ch_consumers h" "ch_objs (putObj i c h) = (ch_objs h)(i \<mapsto> c)"
  "ch_calls (putObj i c h) = ch_calls h" "ch_settled (putObj i c h) = ch_settled h" "ch_closed (putObj i c h) = ch_closed h"
  "ch_next (putObj i c h) = ch_next h" "ch_advances (putObj i c h) = ch_advances h"
  by (simp_all add: putObj_def)

text \<open>Put a consumer back, with calls and outcomes appended.\<close>

lemma inv_put:
  assumes "others_ok i h d" "ch_objs h i = Some c0" "same_consumer c c0" "obj_ok (ch_calls h @ calls) d i c"
  shows "cons_inv (putObj i c (h\<lparr>ch_calls := ch_calls h @ calls, ch_settled := x, ch_advances := y\<rparr>), d)"
proof -
  have "reg_ok (putObj i c (h\<lparr>ch_calls := ch_calls h @ calls, ch_settled := x, ch_advances := y\<rparr>))"
    by (rule reg_ok_put [OF _ _ assms(3)]) (use assms(1,2) in \<open>auto simp: others_ok_def reg_ok_def\<close>)
  then show ?thesis
    using assms(1,4) obj_ok_calls by (auto simp: cons_inv_def others_ok_def)
qed

definition ready :: "nat \<Rightarrow> Consumer \<Rightarrow> ConsumerHub \<Rightarrow> Db \<Rightarrow> bool" where
  "ready i c h d \<longleftrightarrow> others_ok i h d \<and> (\<exists>c0. ch_objs h i = Some c0 \<and> same_consumer c c0) \<and>
     (\<not> co_gone c \<longrightarrow> (\<forall>w \<in> set (co_waiters c). cursorOf d c < cw_through w))"

lemma inv_put_ready:
  assumes "ready i c0 h d" "same_consumer c c0" "obj_ok (ch_calls h @ calls) d i c"
    and "h' = h\<lparr>ch_calls := ch_calls h @ calls, ch_settled := x, ch_advances := y\<rparr>"
  shows "cons_inv (putObj i c h', d)"
proof -
  obtain c1 where "ch_objs h i = Some c1" "same_consumer c0 c1" using assms(1) by (auto simp: ready_def)
  then show ?thesis
    using inv_put [where i = i and h = h and d = d and ?c0.0 = c1 and c = c and calls = calls and x = x and y = y] assms
    by (auto simp: ready_def same_consumer_def)
qed

lemma endDrain_inv:
  assumes "ready i c h d"
  shows "cons_inv (endDrain i c h, d)"
proof -
  let ?c = "c\<lparr>co_running := False, co_batch := None, co_advanced := False\<rparr>"
  have ok: "obj_ok (ch_calls h @ []) d i ?c"
    using assms by (auto simp: ready_def obj_ok_def batch_ok_def cursorOf_def)
  have same: "same_consumer ?c c" by (simp add: same_consumer_def)
  show ?thesis
    using inv_put_ready [OF assms same ok refl, where x = "ch_settled h" and y = "ch_advances h"]
      inv_put_ready [OF assms same ok refl, where x = "ch_settled h" and y = "ch_advances h @ [co_topic c]"]
    by (simp add: endDrain_def)
qed

lemma page_ok:
  assumes "log_table_ok d" "entriesForTopicFromRowid d t n k = rows" "rows \<noteq> []"
  shows "sorted_wrt (<) (map fst rows)" "\<And>r. r \<in> set rows \<Longrightarrow> r \<in> set (topicRows d t) \<and> n < fst r \<and> fst r \<le> log_autoinc d"
    "n < fst (hd rows)" "\<And>r. r \<in> set (topicRows d t) \<Longrightarrow> n < fst r \<Longrightarrow> fst r \<le> fst (last rows) \<Longrightarrow> r \<in> set rows"
proof -
  note set = page_rows [OF assms(1) assms(2) [symmetric] assms(3)]
  have "sorted_wrt (<) (map fst (topicRows d t))"
    using assms(1) by (simp add: log_table_ok_def topicRows_def sorted_wrt_map sorted_wrt_filter)
  then show "sorted_wrt (<) (map fst rows)"
    unfolding assms(2) [symmetric] entriesForTopicFromRowid_def
    by (simp add: sorted_wrt_map sorted_wrt_filter sorted_wrt_take)
  show mem: "r \<in> set (topicRows d t) \<and> n < fst r \<and> fst r \<le> log_autoinc d" if "r \<in> set rows" for r
    using that set(1) assms(1) by (auto simp: topicRows_def log_table_ok_def)
  show "n < fst (hd rows)" using mem assms(3) hd_in_set by blast
  show "r \<in> set rows" if "r \<in> set (topicRows d t)" "n < fst r" "fst r \<le> fst (last rows)" for r
    using that set(1) by blast
qed

lemma drainLoop_inv:
  assumes "ready i c h d" "co_running c"
  shows "cons_inv (drainLoop i c (h, d)) \<and> snd (drainLoop i c (h, d)) = d"
proof -
  let ?rows = "entriesForTopicFromRowid d (co_topic c) (cursorGet d (co_name c) (co_topic c)) BATCH"
  consider (stop) "co_gone c \<or> ?rows = []" | (page) row rest where "\<not> co_gone c" "?rows = row # rest"
    by (cases ?rows) auto
  then show ?thesis
  proof cases
    case stop
    then have "drainLoop i c (h, d) = (endDrain i c h, d)" by (auto simp: drainLoop_def)
    then show ?thesis using endDrain_inv [OF assms(1)] by simp
  next
    case (page row rest)
    have table: "log_table_ok d" using assms(1) by (simp add: ready_def others_ok_def)
    have ne: "?rows \<noteq> []" using page by simp
    note pg = page_ok [OF table page(2), OF list.distinct(2)]
    let ?c = "c\<lparr>co_batch := Some (row # rest)\<rparr>"
    have "batch_ok (ch_calls h @ [(i, row)]) d i ?c"
    proof (rule batch_okI [of _ "row # rest"])
      have f: "co_topic ?c = co_topic c" "cursorOf d ?c = cursorGet d (co_name c) (co_topic c)" by (simp_all add: cursorOf_def)
      fix r assume "r \<in> set (topicRows d (co_topic ?c))" "cursorOf d ?c < fst r" "fst r \<le> fst (last (row # rest))"
      then show "r \<in> set (row # rest)" unfolding f by (rule pg(4))
    next
      show "sorted_wrt (<) (map fst (row # rest))" using pg(1) by simp
      show "cursorOf d ?c < fst (hd (row # rest))" using pg(3) by (simp add: cursorOf_def)
      fix r assume "r \<in> set (row # rest)"
      then show "fst r \<le> log_autoinc d" using pg(2) by blast
    qed simp_all
    then have "obj_ok (ch_calls h @ [(i, row)]) d i ?c"
      using assms by (simp add: obj_ok_def ready_def cursorOf_def)
    moreover have "same_consumer ?c c" by (simp add: same_consumer_def)
    ultimately have "cons_inv (putObj i ?c (h\<lparr>ch_calls := ch_calls h @ [(i, row)]\<rparr>), d)"
      using inv_put_ready [OF assms(1) _ _ refl, where c = ?c and calls = "[(i, row)]" and x = "ch_settled h" and y = "ch_advances h"]
      by simp
    then show ?thesis using page by (simp add: drainLoop_def)
  qed
qed

lemma startDrain_inv: "ready i c h d \<Longrightarrow> cons_inv (startDrain i c (h, d)) \<and> snd (startDrain i c (h, d)) = d"
  unfolding startDrain_def by (rule drainLoop_inv) (simp_all add: ready_def same_consumer_def cursorOf_def)

lemma ready_of_inv: "cons_inv (h, d) \<Longrightarrow> ch_objs h i = Some c \<Longrightarrow> ready i c h d"
  by (auto simp: cons_inv_def ready_def others_ok_def obj_ok_def)

lemma ready_cong:
  "ready i c h d \<Longrightarrow> same_consumer c' c \<Longrightarrow> co_waiters c' = co_waiters c \<Longrightarrow> ready i c' h d"
  by (auto simp: ready_def same_consumer_def cursorOf_def)

lemma afterDrain_inv:
  assumes "cons_inv s"
  shows "cons_inv (afterDrain i s) \<and> snd (afterDrain i s) = snd s"
proof (cases "ch_objs (fst s) i")
  case (Some c)
  obtain h d where s: "s = (h, d)" by (cases s)
  have "ready i (c\<lparr>co_rerun := False\<rparr>) h d"
    using ready_cong [OF ready_of_inv [OF assms [unfolded s]]] Some s by (simp add: same_consumer_def)
  then show ?thesis using startDrain_inv assms Some s by (simp add: afterDrain_def)
qed (use assms in \<open>simp add: afterDrain_def\<close>)

lemma inv_flag:
  assumes "cons_inv (h, d)" "ch_objs h i = Some c" "same_consumer c' c"
    and "co_waiters c' = co_waiters c" "co_batch c' = co_batch c" "co_running c' = co_running c"
  shows "cons_inv (putObj i c' h, d)"
proof -
  have r: "ready i c h d" by (rule ready_of_inv [OF assms(1,2)])
  have "obj_ok (ch_calls h) d i c" using assms(1,2) by (simp add: cons_inv_def)
  then have "obj_ok (ch_calls h @ []) d i c'"
    using assms(3-6) unfolding obj_ok_def append_Nil2 batch_ok_same [OF assms(3,5)] cursorOf_same [OF assms(3)]
    by (simp add: same_consumer_def)
  then show ?thesis
    using inv_put_ready [OF r assms(3) _ refl, where calls = "[]" and x = "ch_settled h" and y = "ch_advances h"] by simp
qed

lemma pump_inv:
  assumes "cons_inv s"
  shows "cons_inv (pump i s) \<and> snd (pump i s) = snd s"
proof (cases "ch_objs (fst s) i")
  case (Some c)
  obtain h d where s: "s = (h, d)" by (cases s)
  have r: "ready i c h d" using ready_of_inv assms Some s by simp
  have flag: "cons_inv (putObj i (c\<lparr>co_rerun := co_running c\<rparr>) h, d)"
    using inv_flag [of h d i c] assms Some s by (simp add: same_consumer_def)
  show ?thesis
    using flag afterDrain_inv [of "startDrain i c (h, d)" i] startDrain_inv [OF r] Some by (simp add: pump_def s)
qed (use assms in \<open>simp add: pump_def\<close>)

lemma retry_inv:
  assumes "cons_inv s"
  shows "cons_inv (retryFires i s) \<and> snd (retryFires i s) = snd s"
proof (cases "ch_objs (fst s) i")
  case (Some c)
  obtain h d where s: "s = (h, d)" by (cases s)
  have "cons_inv (putObj i (c\<lparr>co_retry := None\<rparr>) h, d)"
    using inv_flag [of h d i c] assms Some s by (simp add: same_consumer_def)
  then show ?thesis using pump_inv Some by (simp add: retryFires_def s)
qed (use assms in \<open>simp add: retryFires_def\<close>)

lemma notify_inv:
  assumes "cons_inv s"
  shows "cons_inv (consNotify t s) \<and> snd (consNotify t s) = snd s"
proof -
  have "cons_inv (fold (pumpTopic t) is s) \<and> snd (fold (pumpTopic t) is s) = snd s" for "is"
    using assms
  proof (induction "is" arbitrary: s)
    case (Cons i "is")
    have "cons_inv (pumpTopic t i s) \<and> snd (pumpTopic t i s) = snd s"
      using pump_inv Cons.prems by (simp add: pumpTopic_def split: option.split)
    then show ?case using Cons.IH [of "pumpTopic t i s"] by simp
  qed simp
  then show ?thesis by (simp add: consNotify_def)
qed

section \<open>Cursor writes\<close>

lemma cursor_fields [simp]:
  "sq_log (cursorSet d n t r x) = sq_log d" "log_autoinc (cursorSet d n t r x) = log_autoinc d"
  "sq_log (cursorDelete d n t) = sq_log d" "log_autoinc (cursorDelete d n t) = log_autoinc d"
  "cursorGet (cursorSet d n t r x) n' t' = (if n' = n \<and> t' = t then r else cursorGet d n' t')"
  "cursorGet (cursorDelete d n t) n' t' = (if n' = n \<and> t' = t then 0 else cursorGet d n' t')"
  by (simp_all add: cursorSet_def cursorDelete_def cursorGet_def map_of_alist_update delete_conv')

lemma obj_ok_db:
  assumes "sq_log d' = sq_log d" "log_autoinc d' = log_autoinc d" "\<not> co_gone c \<Longrightarrow> cursorOf d' c = cursorOf d c"
  shows "obj_ok calls d' i c \<longleftrightarrow> obj_ok calls d i c"
proof (cases "co_gone c")
  case False
  have rows: "topicRows d' t = topicRows d t" for t by (simp add: topicRows_def assms(1))
  show ?thesis unfolding obj_ok_def batch_ok_def assms(2) assms(3) [OF False] rows ..
qed (simp add: obj_ok_def)

lemma table_cong: "sq_log d' = sq_log d \<Longrightarrow> log_autoinc d' = log_autoinc d \<Longrightarrow> log_table_ok d' = log_table_ok d"
  by (simp add: log_table_ok_def)

text \<open>Two registered consumers have different names.\<close>

lemma registered_apart:
  assumes "reg_ok h" "ch_objs h i = Some c" "ch_objs h j = Some c'" "\<not> co_gone c" "\<not> co_gone c'" "i \<noteq> j"
  shows "(co_topic c, co_name c) \<noteq> (co_topic c', co_name c')"
proof
  assume same: "(co_topic c, co_name c) = (co_topic c', co_name c')"
  have "((co_topic c, co_name c), i) \<in> set (ch_consumers h)" "((co_topic c, co_name c), j) \<in> set (ch_consumers h)"
    using assms same by (auto simp: reg_ok_def)
  moreover have "distinct (map fst (ch_consumers h))" using assms(1) by (simp add: reg_ok_def)
  ultimately show False using assms(6) eq_key_imp_eq_value by fast
qed

lemma others_cursor:
  assumes "others_ok i h d" "ch_objs h i = Some c" "\<not> co_gone c"
  shows "others_ok i h (cursorSet d (co_name c) (co_topic c) r x)"
proof -
  let ?d = "cursorSet d (co_name c) (co_topic c) r x"
  have "obj_ok (ch_calls h) ?d j c'" if "j \<noteq> i" "ch_objs h j = Some c'" for j c'
  proof -
    have ok: "obj_ok (ch_calls h) d j c'" and reg: "reg_ok h" using assms(1) that by (auto simp: others_ok_def)
    have "cursorOf ?d c' = cursorOf d c'" if "\<not> co_gone c'"
      using registered_apart [OF reg assms(2) \<open>ch_objs h j = Some c'\<close> assms(3) that] \<open>j \<noteq> i\<close> by (auto simp: cursorOf_def)
    then show ?thesis using ok obj_ok_db [of ?d d c'] by simp
  qed
  then show ?thesis using assms(1) table_cong [of ?d d] by (simp add: others_ok_def)
qed

section \<open>The continuation of a callback\<close>

lemma done_cases:
  assumes "ch_objs h i = Some c" "co_batch c = Some ((rowid, e) # rest)" "\<not> co_gone c"
  shows "callbackDone i False now (h, d) =
      afterDrain i (endDrain i (c\<lparr>co_failures := co_failures c + 1, co_retry := Some (backoff (co_failures c + 1))\<rparr>) h,
        cursorSet d (co_name c) (co_topic c) (cursorOf d c) now)"
    and "callbackDone i True now (h, d) =
      (let d' = cursorSet d (co_name c) (co_topic c) rowid now;
           c' = c\<lparr>co_failures := 0, co_advanced := True, co_waiters := filter (\<lambda>w. rowid < cw_through w) (co_waiters c)\<rparr>;
           h' = h\<lparr>ch_settled := ch_settled h @ map (\<lambda>w. (cw_promise w, Inr (cw_through w)))
              (filter (\<lambda>w. rowid \<ge> cw_through w) (co_waiters c))\<rparr>
       in (case rest of [] \<Rightarrow> afterDrain i (drainLoop i c' (h', d'))
           | row # _ \<Rightarrow> (putObj i (c'\<lparr>co_batch := Some rest\<rparr>) (h'\<lparr>ch_calls := ch_calls h' @ [(i, row)]\<rparr>), d')))"
  using assms by (simp_all add: callbackDone_def resolveWaiters_def Let_def cursorOf_def)

lemma failed_inv:
  assumes "cons_inv (h, d)" "ch_objs h i = Some c" "co_batch c = Some ((rowid, e) # rest)" "\<not> co_gone c"
  shows "cons_inv (callbackDone i False now (h, d)) \<and>
    snd (callbackDone i False now (h, d)) = cursorSet d (co_name c) (co_topic c) (cursorOf d c) now"
proof -
  let ?d = "cursorSet d (co_name c) (co_topic c) (cursorOf d c) now"
  let ?c = "c\<lparr>co_failures := co_failures c + 1, co_retry := Some (backoff (co_failures c + 1))\<rparr>"
  have r: "ready i c h d" by (rule ready_of_inv [OF assms(1,2)])
  have "ready i c h ?d"
    using r others_cursor [OF _ assms(2,4)] by (auto simp: ready_def cursorOf_def)
  then have "ready i ?c h ?d" by (rule ready_cong) (simp_all add: same_consumer_def)
  from afterDrain_inv [OF endDrain_inv [OF this]] show ?thesis
    unfolding done_cases(1) [OF assms(2-4)] by simp
qed

lemma success_inv:
  assumes "cons_inv (h, d)" "ch_objs h i = Some c" "co_batch c = Some ((rowid, e) # rest)" "\<not> co_gone c"
  shows "cons_inv (callbackDone i True now (h, d)) \<and>
    snd (callbackDone i True now (h, d)) = cursorSet d (co_name c) (co_topic c) rowid now"
proof -
  let ?d = "cursorSet d (co_name c) (co_topic c) rowid now"
  let ?c = "c\<lparr>co_failures := 0, co_advanced := True, co_waiters := filter (\<lambda>w. rowid < cw_through w) (co_waiters c)\<rparr>"
  let ?s = "ch_settled h @ map (\<lambda>w. (cw_promise w, Inr (cw_through w))) (filter (\<lambda>w. rowid \<ge> cw_through w) (co_waiters c))"
  let ?h = "h\<lparr>ch_settled := ?s\<rparr>"
  have ok: "obj_ok (ch_calls h) d i c" and r: "ready i c h d"
    using assms(1,2) ready_of_inv by (auto simp: cons_inv_def)
  have oth: "others_ok i h ?d" using r others_cursor [OF _ assms(2,4)] by (simp add: ready_def)
  have oth': "others_ok i ?h ?d" using oth reg_ok_cong [of ?h h] by (simp add: others_ok_def)
  have cur: "cursorOf ?d c = rowid" "cursorOf ?d ?c = rowid" by (simp_all add: cursorOf_def)
  have rdy: "ready i ?c ?h ?d"
    unfolding ready_def using oth' assms(2) cur by (auto simp: same_consumer_def)
  note dc = done_cases(2) [OF assms(2-4), unfolded Let_def]
  show ?thesis
  proof (cases rest)
    case Nil
    have "co_running ?c" using ok assms(3) by (simp add: obj_ok_def)
    from drainLoop_inv [OF rdy this]
    show ?thesis using afterDrain_inv [of "drainLoop i ?c (?h, ?d)" i] unfolding dc Nil by simp
  next
    case (Cons row rest')
    have b: "batch_ok (ch_calls h) d i c" using ok assms(4) by (simp add: obj_ok_def)
    note b' = b [unfolded batch_ok_def assms(3) option.case]
    let ?c' = "?c\<lparr>co_batch := Some rest\<rparr>"
    have cur': "cursorOf ?d ?c' = rowid" by (simp add: cursorOf_def)
    have "batch_ok (ch_calls ?h @ [(i, row)]) ?d i ?c'"
    proof (rule batch_okI [of _ rest])
      fix x assume "x \<in> set (topicRows ?d (co_topic ?c'))" "cursorOf ?d ?c' < fst x" "fst x \<le> fst (last rest)"
      then have x: "x \<in> set (topicRows d (co_topic c))" "rowid < fst x" "fst x \<le> fst (last ((rowid, e) # rest))"
        using cur' Cons by (simp_all add: topicRows_def)
      then have "x \<in> set ((rowid, e) # rest)" using b' by fastforce
      then show "x \<in> set rest" using x(2) by auto
    qed (use b' Cons cur' in auto)
    then have "obj_ok (ch_calls ?h @ [(i, row)]) ?d i ?c'"
      using ok assms(3) cur' unfolding obj_ok_def by simp
    then have "cons_inv (putObj i ?c' (?h\<lparr>ch_calls := ch_calls ?h @ [(i, row)]\<rparr>), ?d)"
      by (intro inv_put_ready [OF rdy, where calls = "[(i, row)]" and x = "?s" and y = "ch_advances h"])
        (simp_all add: same_consumer_def)
    then show ?thesis unfolding dc Cons by (simp add: Cons)
  qed
qed

lemma done_inv:
  assumes "cons_inv s"
  shows "cons_inv (callbackDone i success now s)"
proof -
  obtain h d where s: "s = (h, d)" by (cases s)
  consider (none) "callbackDone i success now s = s"
    | (gone) c where "ch_objs h i = Some c" "callbackDone i success now s = (endDrain i c h, d)"
    | (row) c rowid e rest where "ch_objs h i = Some c" "co_batch c = Some ((rowid, e) # rest)" "\<not> co_gone c"
  proof (cases "ch_objs h i")
    case (Some c)
    show ?thesis
    proof (cases "co_batch c")
      case None
      then show ?thesis using none Some by (simp add: callbackDone_def s)
    next
      case b: (Some rows)
      show ?thesis
      proof (cases rows)
        case Nil
        then show ?thesis using none Some b by (simp add: callbackDone_def s)
      next
        case (Cons r rest)
        then show ?thesis using gone row Some b by (cases r; cases "co_gone c") (simp_all add: callbackDone_def s)
      qed
    qed
  qed (use none in \<open>simp add: callbackDone_def s\<close>)
  then show ?thesis
  proof cases
    case gone
    then show ?thesis using endDrain_inv [OF ready_of_inv] assms s by simp
  next
    case row
    then show ?thesis using failed_inv success_inv assms s by (cases success) simp_all
  qed (use assms in simp)
qed

section \<open>The other steps\<close>

lemma inactive_cursor:
  assumes "cons_inv (h, d)" "map_of (ch_consumers h) (t, n) = None" "sq_log d' = sq_log d" "log_autoinc d' = log_autoinc d"
    and "\<And>t' n'. (t', n') \<noteq> (t, n) \<Longrightarrow> cursorGet d' n' t' = cursorGet d n' t'"
  shows "cons_inv (h, d')"
proof -
  have "obj_ok (ch_calls h) d' i c" if c: "ch_objs h i = Some c" for i c
  proof -
    have ok: "obj_ok (ch_calls h) d i c" and reg: "reg_ok h" using assms(1) c by (auto simp: cons_inv_def)
    have "cursorOf d' c = cursorOf d c" if "\<not> co_gone c"
    proof -
      have "((co_topic c, co_name c), i) \<in> set (ch_consumers h)" using reg c that by (auto simp: reg_ok_def)
      then have "(co_topic c, co_name c) \<noteq> (t, n)" using assms(2) by (force simp: map_of_eq_None_iff)
      then show ?thesis using assms(5) by (simp add: cursorOf_def)
    qed
    then show ?thesis using ok obj_ok_db [OF assms(3,4)] by simp
  qed
  then show ?thesis using assms(1) table_cong [OF assms(3,4)] by (simp add: cons_inv_def)
qed

lemma advance_inv: "cons_inv (h, d) \<Longrightarrow> cons_inv (h\<lparr>ch_advances := x\<rparr>, d)"
  using reg_ok_cong [of "h\<lparr>ch_advances := x\<rparr>" h] by (simp add: cons_inv_def)

lemma settled_inv: "cons_inv (h, d) \<Longrightarrow> cons_inv (h\<lparr>ch_promises := p, ch_settled := x\<rparr>, d)"
  using reg_ok_cong [of "h\<lparr>ch_promises := p, ch_settled := x\<rparr>" h] by (simp add: cons_inv_def)

lemma onEntry_inv:
  assumes "cons_inv s" "onEntry E t n now s = (Inr i, s')"
  shows "cons_inv s' \<and> map_of (ch_consumers (fst s)) (t, n) = None \<and>
    snd s' = (if \<not> hasCursor (snd s) t n then cursorSet (snd s) n t 0 now else snd s)"
proof -
  obtain h d where s: "s = (h, d)" by (cases s)
  let ?d = "if \<not> hasCursor d t n then cursorSet d n t 0 now else d"
  let ?c = "\<lparr>co_topic = t, co_name = n, co_running = False, co_rerun = False, co_failures = 0,
     co_retry = None, co_gone = False, co_waiters = [], co_batch = None, co_advanced = False\<rparr>"
  let ?h = "putObj (ch_next h) ?c (h\<lparr>ch_consumers := ch_consumers h @ [((t, n), ch_next h)], ch_next := ch_next h + 1\<rparr>)"
  have free: "map_of (ch_consumers h) (t, n) = None" and opened: "\<not> ch_closed h" and s': "s' = pump i (?h, ?d)"
    using assms(2) by (auto simp: onEntry_def s Let_def split: if_splits sum.splits)
  have d: "cons_inv (h, ?d)"
    by (rule inactive_cursor [OF assms(1) [unfolded s] free]) auto
  have reg: "reg_ok h" using d by (simp add: cons_inv_def)
  have "reg_ok ?h"
    unfolding reg_ok_def
  proof (intro conjI allI)
    show "distinct (map fst (ch_consumers ?h))"
      using reg free by (auto simp: reg_ok_def map_of_eq_None_iff)
    fix t' n' j
    have "ch_objs h (ch_next h) = None" using reg by (simp add: reg_ok_def)
    then have "((t', n'), ch_next h) \<notin> set (ch_consumers h)" using reg by (force simp: reg_ok_def)
    then show "((t', n'), j) \<in> set (ch_consumers ?h) \<longleftrightarrow>
        (\<exists>c. ch_objs ?h j = Some c \<and> \<not> co_gone c \<and> co_topic c = t' \<and> co_name c = n')"
      using reg by (auto simp: reg_ok_def)
  qed (use reg opened in \<open>auto simp: reg_ok_def\<close>)
  moreover have "obj_ok (ch_calls ?h) ?d (ch_next h) ?c" by (simp add: obj_ok_def batch_ok_def)
  ultimately have "cons_inv (?h, ?d)" using d by (auto simp: cons_inv_def)
  from pump_inv [OF this, of i] show ?thesis using free by (simp add: s' s)
qed

lemma caughtUp_inv:
  assumes "cons_inv s" "caughtUp E t n s = (p, s')"
  shows "cons_inv s'"
proof -
  obtain h d where s: "s = (h, d)" by (cases s)
  let ?h = "h\<lparr>ch_promises := ch_promises h + 1\<rparr>"
  have plain: "cons_inv (?h, d)" using settled_inv [where h = h and d = d and p = "ch_promises h + 1" and x = "ch_settled h"] assms(1) s by simp
  have answered: "cons_inv (?h\<lparr>ch_settled := x\<rparr>, d)" for x using settled_inv assms(1) s by simp
  consider (settled) x where "s' = (?h\<lparr>ch_settled := x\<rparr>, d)" | (none) "s' = (?h, d)"
    | (wait) i c where "map_of (ch_consumers h) (t, n) = Some i" "ch_objs h i = Some c" "cursorGet d n t < maxRowid d t"
        "s' = (putObj i (c\<lparr>co_waiters := co_waiters c @ [\<lparr>cw_through = maxRowid d t, cw_promise = p\<rparr>]\<rparr>) ?h, d)"
    using assms(2) by (auto simp: caughtUp_def s Let_def not_le split: if_splits sum.splits option.splits)
  then show ?thesis
  proof cases
    case wait
    have reg: "reg_ok h" and ok: "obj_ok (ch_calls h) d i c" using assms(1) wait s by (auto simp: cons_inv_def)
    have "((t, n), i) \<in> set (ch_consumers h)" using wait(1) by (rule map_of_SomeD)
    then have id: "co_topic c = t" "co_name c = n" using reg wait(2) by (auto simp: reg_ok_def)
    let ?c = "c\<lparr>co_waiters := co_waiters c @ [\<lparr>cw_through = maxRowid d t, cw_promise = p\<rparr>]\<rparr>"
    have same: "same_consumer ?c c" "co_batch ?c = co_batch c" by (simp_all add: same_consumer_def)
    have "obj_ok (ch_calls ?h) d i ?c"
      using ok wait(3) id unfolding obj_ok_def batch_ok_same [OF same] cursorOf_same [OF same(1)]
      by (auto simp: cursorOf_def)
    moreover have "reg_ok (putObj i ?c ?h)"
      by (rule reg_ok_put [OF _ _ same(1)]) (use reg wait(2) reg_ok_cong [of ?h h] in simp_all)
    ultimately show ?thesis using plain wait(4) by (auto simp: cons_inv_def)
  qed (use plain answered in simp_all)
qed

text \<open>Objects leave the map: they are gone, the others stay.\<close>

lemma leave_inv:
  assumes "cons_inv (h, d)" and same: "ch_next h' = ch_next h" "ch_closed h' \<longrightarrow> ch_consumers h' = []" "ch_calls h' = ch_calls h"
    and sub: "ch_consumers h' = filter P (ch_consumers h)"
    and kept: "\<And>k i. (k, i) \<in> set (ch_consumers h) \<Longrightarrow> P (k, i) \<Longrightarrow> ch_objs h' i = ch_objs h i"
    and gone: "\<And>k i. (k, i) \<in> set (ch_consumers h) \<Longrightarrow> \<not> P (k, i) \<Longrightarrow>
      \<exists>c c'. ch_objs h i = Some c \<and> ch_objs h' i = Some c' \<and> co_gone c' \<and> co_running c' = co_running c \<and> co_batch c' = co_batch c"
    and other: "\<And>i. i \<notin> snd ` set (ch_consumers h) \<Longrightarrow> ch_objs h' i = ch_objs h i"
  shows "cons_inv (h', d)"
proof -
  have reg: "reg_ok h" and ok: "\<And>i c. ch_objs h i = Some c \<Longrightarrow> obj_ok (ch_calls h) d i c"
    using assms(1) by (auto simp: cons_inv_def)
  have in_map: "\<exists>k. (k, i) \<in> set (ch_consumers h) \<and> P (k, i)"
    if "ch_objs h' i = Some c" "\<not> co_gone c" for i c
  proof (cases "i \<in> snd ` set (ch_consumers h)")
    case True
    then show ?thesis using that gone by fastforce
  next
    case False
    then have "ch_objs h i = Some c" using that other by simp
    then show ?thesis using False reg that by (force simp: reg_ok_def)
  qed
  have "reg_ok h'"
    unfolding reg_ok_def
  proof (intro conjI allI impI)
    show "distinct (map fst (ch_consumers h'))" using reg sub by (simp add: reg_ok_def distinct_map_filter)
    show "((t, n), i) \<in> set (ch_consumers h') \<longleftrightarrow>
        (\<exists>c. ch_objs h' i = Some c \<and> \<not> co_gone c \<and> co_topic c = t \<and> co_name c = n)" for t n i
    proof
      assume "((t, n), i) \<in> set (ch_consumers h')"
      then show "\<exists>c. ch_objs h' i = Some c \<and> \<not> co_gone c \<and> co_topic c = t \<and> co_name c = n"
        using reg kept [of "(t, n)" i] by (auto simp: sub reg_ok_def)
    next
      assume "\<exists>c. ch_objs h' i = Some c \<and> \<not> co_gone c \<and> co_topic c = t \<and> co_name c = n"
      then obtain c where c: "ch_objs h' i = Some c" "\<not> co_gone c" "co_topic c = t" "co_name c = n" by blast
      obtain k where k: "(k, i) \<in> set (ch_consumers h)" "P (k, i)" using in_map [OF c(1,2)] by blast
      then have "ch_objs h i = Some c" using kept c(1) by simp
      then have "((t, n), i) \<in> set (ch_consumers h)" using reg c by (auto simp: reg_ok_def)
      moreover have "k = (t, n)" using reg k(1) \<open>ch_objs h i = Some c\<close> c by (cases k) (auto simp: reg_ok_def)
      ultimately show "((t, n), i) \<in> set (ch_consumers h')" using k by (simp add: sub)
    qed
    show "ch_objs h' i = None" if "ch_next h' \<le> i" for i
    proof -
      have none: "ch_objs h i = None" using reg that same(1) by (simp add: reg_ok_def)
      then have "i \<notin> snd ` set (ch_consumers h)" using reg by (force simp: reg_ok_def)
      then show ?thesis using other none by simp
    qed
  qed (use same(2) in simp)
  moreover have "obj_ok (ch_calls h') d i c" if c: "ch_objs h' i = Some c" for i c
  proof (cases "\<exists>k. (k, i) \<in> set (ch_consumers h) \<and> \<not> P (k, i)")
    case True
    then obtain c0 c' where "ch_objs h i = Some c0" "ch_objs h' i = Some c'" "co_gone c'" "co_running c' = co_running c0"
      "co_batch c' = co_batch c0" using gone by blast
    then show ?thesis using ok [of i c0] c by (simp add: obj_ok_def)
  next
    case False
    then have "ch_objs h i = Some c" using c kept other by fastforce
    then show ?thesis using ok same(3) by simp
  qed
  ultimately show ?thesis using assms(1) by (simp add: cons_inv_def)
qed

lemma closeOne_objs:
  "ch_objs (closeOne i h) = (ch_objs h)(i := map_option (\<lambda>c. c\<lparr>co_gone := True, co_retry := None, co_waiters := []\<rparr>) (ch_objs h i))"
  "ch_calls (closeOne i h) = ch_calls h" "ch_consumers (closeOne i h) = ch_consumers h" "ch_next (closeOne i h) = ch_next h"
  "ch_closed (closeOne i h) = ch_closed h" "ch_advances (closeOne i h) = ch_advances h"
  by (auto simp: closeOne_def rejectWaiters_def putObj_def fun_eq_iff split: option.split)

lemma unsubscribe_closeOne:
  "ch_objs h i = Some c \<Longrightarrow> unsubscribe i (h, d) =
     ((closeOne i h)\<lparr>ch_consumers := filter (\<lambda>p. fst p \<noteq> (co_topic c, co_name c)) (ch_consumers h)\<rparr>, d)"
  by (simp add: unsubscribe_def closeOne_def Let_def rejectWaiters_def)

lemma reg_ok_lookup: "reg_ok h \<Longrightarrow> (k, i) \<in> set (ch_consumers h) \<Longrightarrow>
    \<exists>c. ch_objs h i = Some c \<and> \<not> co_gone c \<and> k = (co_topic c, co_name c)"
  by (cases k) (auto simp: reg_ok_def)

lemma unsubscribe_inv:
  assumes "cons_inv s" "map_of (ch_consumers (fst s)) (t, n) = Some i"
  shows "cons_inv (unsubscribe i s)"
proof -
  obtain h d where s: "s = (h, d)" by (cases s)
  have reg: "reg_ok h" using assms(1) s by (simp add: cons_inv_def)
  have mem: "((t, n), i) \<in> set (ch_consumers h)" using assms(2) s by (simp add: map_of_SomeD)
  then obtain c where c: "ch_objs h i = Some c" "\<not> co_gone c" "(t, n) = (co_topic c, co_name c)"
    using reg_ok_lookup [OF reg] by blast
  have d: "distinct (map fst (ch_consumers h))" using reg by (simp add: reg_ok_def)
  have only: "k = (t, n) \<longleftrightarrow> j = i" if "(k, j) \<in> set (ch_consumers h)" for k j
  proof
    assume "k = (t, n)"
    then show "j = i" using eq_key_imp_eq_value [OF d] that mem by blast
  next
    assume "j = i"
    then show "k = (t, n)" using reg_ok_lookup [OF reg that] c by simp
  qed
  let ?h = "(closeOne i h)\<lparr>ch_consumers := filter (\<lambda>p. fst p \<noteq> (co_topic c, co_name c)) (ch_consumers h)\<rparr>"
  have "cons_inv (?h, d)"
  proof (rule leave_inv [where h = h and P = "\<lambda>p. fst p \<noteq> (co_topic c, co_name c)"])
    show "cons_inv (h, d)" using assms(1) s by simp
    show "ch_closed ?h \<longrightarrow> ch_consumers ?h = []" using reg by (simp add: closeOne_objs reg_ok_def)
    show "ch_objs ?h j = ch_objs h j" if "(k, j) \<in> set (ch_consumers h)" "fst (k, j) \<noteq> (co_topic c, co_name c)" for k j
      using only [OF that(1)] that(2) c(3) by (auto simp: closeOne_objs)
    show "\<exists>c c'. ch_objs h j = Some c \<and> ch_objs ?h j = Some c' \<and> co_gone c' \<and> co_running c' = co_running c \<and> co_batch c' = co_batch c"
      if "(k, j) \<in> set (ch_consumers h)" "\<not> fst (k, j) \<noteq> (co_topic c, co_name c)" for k j
      using only [OF that(1)] that(2) c by (auto simp: closeOne_objs)
    show "ch_objs ?h j = ch_objs h j" if "j \<notin> snd ` set (ch_consumers h)" for j
      using that mem by (force simp: closeOne_objs)
  qed (simp_all add: closeOne_objs)
  then show ?thesis unfolding s unsubscribe_closeOne [OF c(1)] .
qed

lemma fold_closeOne:
  "ch_objs (fold closeOne is h) = (\<lambda>i. if i \<in> set is then
      map_option (\<lambda>c. c\<lparr>co_gone := True, co_retry := None, co_waiters := []\<rparr>) (ch_objs h i) else ch_objs h i)
   \<and> ch_calls (fold closeOne is h) = ch_calls h \<and> ch_next (fold closeOne is h) = ch_next h
   \<and> ch_closed (fold closeOne is h) = ch_closed h \<and> ch_advances (fold closeOne is h) = ch_advances h"
  by (induction "is" arbitrary: h) (auto simp: closeOne_objs fun_eq_iff option.map_comp comp_def)

lemma close_inv:
  assumes "cons_inv s"
  shows "cons_inv (consClose s)"
proof -
  obtain h d where s: "s = (h, d)" by (cases s)
  have reg: "reg_ok h" using assms s by (simp add: cons_inv_def)
  let ?h = "(fold closeOne (map snd (ch_consumers h)) (h\<lparr>ch_closed := True\<rparr>))\<lparr>ch_consumers := []\<rparr>"
  have "cons_inv (?h, d)"
  proof (rule leave_inv [where h = h and P = "\<lambda>_. False"])
    show "\<exists>c c'. ch_objs h i = Some c \<and> ch_objs ?h i = Some c' \<and> co_gone c' \<and> co_running c' = co_running c \<and> co_batch c' = co_batch c"
      if "(k, i) \<in> set (ch_consumers h)" for k i
      using reg_ok_lookup [OF reg that] that by (force simp: fold_closeOne image_iff)
  qed (use assms s in \<open>auto simp: fold_closeOne\<close>)
  then show ?thesis by (simp add: consClose_def s)
qed

lemma fold_delete_fields:
  "sq_log (foldl (\<lambda>x n. cursorDelete x n t) d ns) = sq_log d \<and> log_autoinc (foldl (\<lambda>x n. cursorDelete x n t) d ns) = log_autoinc d"
  by (induction ns arbitrary: d) simp_all

lemma delete_inactive_inv:
  "cons_inv (h, d) \<Longrightarrow> (\<And>n. n \<in> set ns \<Longrightarrow> map_of (ch_consumers h) (t, n) = None) \<Longrightarrow>
   cons_inv (h, foldl (\<lambda>x n. cursorDelete x n t) d ns)"
proof (induction ns arbitrary: d)
  case (Cons n ns)
  have "cons_inv (h, cursorDelete d n t)"
    by (rule inactive_cursor [OF Cons.prems(1), of t n]) (use Cons.prems(2) in auto)
  then show ?case using Cons.IH Cons.prems(2) by simp
qed simp

lemma prune_inv:
  assumes "cons_inv s" "pruneConsumers E t p before s = (Inr ns, s')"
  shows "cons_inv s'"
proof -
  obtain h d where s: "s = (h, d)" by (cases s)
  have ns: "ns = map fst (filter (prunableCursor h t p before) (cursorsForTopic d t))"
    and s': "s' = ((if ns \<noteq> [] then h\<lparr>ch_advances := ch_advances h @ [t]\<rparr> else h), foldl (\<lambda>x n. cursorDelete x n t) d ns)"
    using assms(2) by (auto simp: pruneConsumers_def s Let_def split: if_splits sum.splits)
  have "map_of (ch_consumers h) (t, n) = None" if "n \<in> set ns" for n
    using that unfolding ns by (auto simp: prunableCursor_def isActive_def)
  then have "cons_inv (h, foldl (\<lambda>x n. cursorDelete x n t) d ns)"
    using delete_inactive_inv assms(1) s by simp
  then show ?thesis unfolding s' using advance_inv by (cases "ns = []") simp_all
qed

lemma delete_inv:
  assumes "cons_inv s" "deleteConsumer E t n s = (Inr b, s')"
  shows "cons_inv s'"
proof -
  obtain h d where s: "s = (h, d)" by (cases s)
  have free: "map_of (ch_consumers h) (t, n) = None"
    and s': "s' = (h\<lparr>ch_advances := ch_advances h @ [t]\<rparr>, cursorDelete d n t) \<or> s' = s"
    using assms(2) by (auto simp: deleteConsumer_def assertInactive_def isActive_def s Let_def rbind_def
      split: if_splits sum.splits)
  have "cons_inv (h, cursorDelete d n t)"
    by (rule inactive_cursor [OF _ free]) (use assms(1) s in auto)
  then show ?thesis using s' advance_inv assms(1) by auto
qed

lemma reset_inv:
  assumes "cons_inv (h, db st)" "resetConsumer E t n fromHead now h st = (Inr r, st')"
  shows "cons_inv (h, db st')"
proof -
  have free: "map_of (ch_consumers h) (t, n) = None"
    and cur: "\<exists>k. db st' = cursorSet (db st) n t k now"
    using assms(2) by (auto simp: resetConsumer_def assertInactive_def isActive_def archivedCount_def Let_def rbind_def
      split: if_splits sum.splits prod.splits option.splits)
  obtain k where k: "db st' = cursorSet (db st) n t k now" using cur by blast
  show ?thesis unfolding k by (rule inactive_cursor [OF assms(1) free]) auto
qed

lemma log_inv:
  assumes "cons_inv (h, d)" "log_table_ok d'" "sq_cursors d' = sq_cursors d" "log_autoinc d \<le> log_autoinc d'"
    and rows: "\<forall>r \<in> set (sq_log d'). r \<in> set (sq_log d) \<or> log_autoinc d < fst r"
  shows "cons_inv (h, d')"
proof -
  have cur: "cursorOf d' c = cursorOf d c" for c by (simp add: cursorOf_def cursorGet_def assms(3))
  have new: "r \<in> set (topicRows d t)" if "r \<in> set (topicRows d' t)" "fst r \<le> log_autoinc d" for r t
    using that rows by (fastforce simp: topicRows_def)
  have "obj_ok (ch_calls h) d' i c" if "ch_objs h i = Some c" for i c
  proof -
    have ok: "obj_ok (ch_calls h) d i c" using assms(1) that by (simp add: cons_inv_def)
    have "batch_ok (ch_calls h) d' i c" if b: "batch_ok (ch_calls h) d i c"
    proof (cases "co_batch c")
      case (Some rs)
      note b' = b [unfolded batch_ok_def Some option.case]
      show ?thesis
      proof (rule batch_okI [OF Some])
        fix r assume r: "r \<in> set (topicRows d' (co_topic c))" "cursorOf d' c < fst r" "fst r \<le> fst (last rs)"
        have "fst (last rs) \<le> log_autoinc d" using b' last_in_set by blast
        then have "r \<in> set (topicRows d (co_topic c))" using new [OF r(1)] r(3) by simp
        then show "r \<in> set rs" using b' r(2,3) unfolding cur by blast
      next
        show "fst r \<le> log_autoinc d'" if "r \<in> set rs" for r using b' that assms(4) by fastforce
      qed (use b' cur in simp_all)
    qed (simp add: batch_ok_def)
    then show ?thesis using ok by (simp add: obj_ok_def cur)
  qed
  then show ?thesis using assms(1,2) by (simp add: cons_inv_def)
qed

lemma step_inv: "cons_step E s s' \<Longrightarrow> cons_inv s \<Longrightarrow> cons_inv s'"
proof (induction rule: cons_step.induct)
  case (register t n now s i s') then show ?case using onEntry_inv by blast
next
  case (delivered s i success now) then show ?case using done_inv by blast
next
  case (retried s i) then show ?case using retry_inv by blast
next
  case (notified s t) then show ?case using notify_inv by blast
next
  case (waits t n s p s') then show ?case using caughtUp_inv by blast
next
  case (leaves s t n i) then show ?case using unsubscribe_inv by blast
next
  case (reset t n fromHead now s st r st')
  then show ?case using reset_inv [of "fst s" st E t n fromHead now r st'] by simp
next
  case (delete t n s b s') then show ?case using delete_inv by blast
next
  case (prune t p before s ns s') then show ?case using prune_inv by blast
next
  case (closes s) then show ?case using close_inv by blast
next
  case (log d' d h) then show ?case using log_inv by blast
qed

lemma cons_reach_inv: "cons_reach E s \<Longrightarrow> cons_inv s"
proof (induction rule: cons_reach.induct)
  case (fresh d)
  then show ?case by (simp add: cons_inv_def ConsumerHub_new_def reg_ok_def)
qed (use step_inv in blast)

section \<open>What the consumer of a topic can rely on\<close>

lemma done_cursor:
  assumes "cons_inv (h, d)" "ch_objs h i = Some c" "\<not> co_gone c" "callbackDone j success now (h, d) = (h', d')"
    "cursorOf d' c \<noteq> cursorOf d c"
  shows "\<exists>rowid e rest. i = j \<and> co_batch c = Some ((rowid, e) # rest) \<and> cursorOf d' c = rowid"
proof -
  obtain cj rowid e rest where cj: "ch_objs h j = Some cj" "co_batch cj = Some ((rowid, e) # rest)" "\<not> co_gone cj"
    using assms(4,5) by (force simp: callbackDone_def endDrain_def split: option.splits list.splits prod.splits if_splits)
  have reg: "reg_ok h" using assms(1) by (simp add: cons_inv_def)
  have d': "d' = (if success then cursorSet d (co_name cj) (co_topic cj) rowid now
      else cursorSet d (co_name cj) (co_topic cj) (cursorOf d cj) now)"
    using failed_inv [OF assms(1) cj, of now] success_inv [OF assms(1) cj, of now] assms(4) by (cases success) simp_all
  have "i = j"
  proof (rule ccontr)
    assume "i \<noteq> j"
    then have "(co_topic c, co_name c) \<noteq> (co_topic cj, co_name cj)"
      using registered_apart [OF reg assms(2) cj(1) assms(3) cj(3)] by simp
    then show False using assms(5) unfolding d' by (auto simp: cursorOf_def split: if_splits)
  qed
  moreover then have "c = cj" using assms(2) cj(1) by simp
  moreover have success using assms(5) \<open>c = cj\<close> unfolding d' by (auto simp: cursorOf_def split: if_splits)
  ultimately show ?thesis using cj unfolding d' by (auto simp: cursorOf_def)
qed

lemma other_steps_cursor:
  assumes "cons_inv (h, d)" "ch_objs h i = Some c" "\<not> co_gone c" "cons_step E (h, d) (h', d')" "cursorOf d' c \<noteq> cursorOf d c"
  shows "\<exists>j success now. callbackDone j success now (h, d) = (h', d')"
proof -
  have mem: "map_of (ch_consumers h) (co_topic c, co_name c) = Some i"
    using assms(1-3) by (auto simp: cons_inv_def reg_ok_def)
  have inact: "(co_topic c, co_name c) \<noteq> (t, n)" if "map_of (ch_consumers h) (t, n) = None" for t n
    using that mem by auto
  from assms(4) show ?thesis
  proof (cases rule: cons_step.cases)
    case (register t n now k)
    from onEntry_inv [OF assms(1) this(1)] have free: "map_of (ch_consumers h) (t, n) = None"
      and d': "d' = (if \<not> hasCursor d t n then cursorSet d n t 0 now else d)"
      by simp_all
    then show ?thesis using inact [OF free] assms(5) by (auto simp: cursorOf_def split: if_splits)
  next
    case (delivered k success now)
    then show ?thesis by metis
  next
    case (retried k)
    then show ?thesis using retry_inv [OF assms(1)] assms(5) by (metis snd_conv)
  next
    case (notified t)
    then show ?thesis using notify_inv [OF assms(1)] assms(5) by (metis snd_conv)
  next
    case (waits t n p)
    then have "d' = d" by (auto simp: caughtUp_def Let_def split: if_splits sum.splits option.splits)
    then show ?thesis using assms(5) by simp
  next
    case (leaves t n k)
    then have "d' = d" by (auto simp: unsubscribe_def Let_def split: option.splits)
    then show ?thesis using assms(5) by simp
  next
    case (reset t n fromHead now st r st')
    then have free: "map_of (ch_consumers h) (t, n) = None" and "\<exists>k. d' = cursorSet d n t k now"
      by (auto simp: resetConsumer_def assertInactive_def isActive_def archivedCount_def Let_def rbind_def
        split: if_splits sum.splits prod.splits option.splits)
    then show ?thesis using inact [OF free] assms(5) by (auto simp: cursorOf_def split: if_splits)
  next
    case (delete t n b)
    then have free: "map_of (ch_consumers h) (t, n) = None" and "d' = cursorDelete d n t \<or> d' = d"
      by (auto simp: deleteConsumer_def assertInactive_def isActive_def Let_def rbind_def split: if_splits sum.splits)
    then show ?thesis using inact [OF free] assms(5) by (auto simp: cursorOf_def split: if_splits)
  next
    case (prune t p before ns)
    then have d': "d' = foldl (\<lambda>x n. cursorDelete x n t) d ns" and
      ns: "\<forall>n \<in> set ns. map_of (ch_consumers h) (t, n) = None"
      by (auto simp: pruneConsumers_def prunableCursor_def isActive_def Let_def split: if_splits sum.splits)
    have "cursorOf (foldl (\<lambda>x n. cursorDelete x n t) d ns) c = cursorOf d c"
      using ns
    proof (induction ns arbitrary: d)
      case (Cons n ns)
      then have "cursorOf (cursorDelete d n t) c = cursorOf d c" using inact by (auto simp: cursorOf_def)
      then show ?case using Cons by simp
    qed simp
    then show ?thesis using assms(5) d' by simp
  next
    case closes
    then have "d' = d" by (simp add: consClose_def)
    then show ?thesis using assms(5) by simp
  next
    case log
    then have "cursorOf d' c = cursorOf d c" by (simp add: cursorOf_def cursorGet_def)
    then show ?thesis using assms(5) by simp
  qed
qed


text \<open>No \<^verbatim>\<open>caughtUp\<close> promise is left behind: in every reachable state a promise that a registered
  consumer still holds waits for a rowid that its durable cursor has not reached.
\<close>

theorem no_waiter_left_behind:
  assumes "cons_reach E (h, d)" "ch_objs h i = Some c" "\<not> co_gone c" "w \<in> set (co_waiters c)"
  shows "cursorGet d (co_name c) (co_topic c) < cw_through w"
  using cons_reach_inv [OF assms(1)] assms(2-) by (auto simp: cons_inv_def obj_ok_def cursorOf_def)

lemma first_page:
  assumes "batch_ok calls d i c" "co_batch c = Some ((rowid, e) # rest)" "(rowid, e) \<in> set (topicRows d (co_topic c))"
    and "log_table_ok d"
  shows "\<exists>more'. entriesForTopicFromRowid d (co_topic c) (cursorOf d c) BATCH = (rowid, e) # more'"
proof -
  let ?all = "filter (\<lambda>r. cursorOf d c < fst r) (topicRows d (co_topic c))"
  note ok = assms(1) [unfolded batch_ok_def assms(2) option.case]
  have sorted: "sorted_wrt (<) (map fst ?all)"
    using assms(4) by (simp add: log_table_ok_def topicRows_def sorted_wrt_map sorted_wrt_filter)
  have mem: "(rowid, e) \<in> set ?all" using assms(3) ok by simp
  then obtain x xs where x: "?all = x # xs" by (cases ?all) auto
  have ge: "rowid \<le> fst y" if "y \<in> set ((rowid, e) # rest)" for y using ok that by fastforce
  have "fst x \<le> rowid" using sorted mem unfolding x by fastforce
  also have "rowid \<le> fst (last ((rowid, e) # rest))" by (rule ge [OF last_in_set]) simp
  finally have "fst x \<le> fst (last ((rowid, e) # rest))" .
  moreover have "x \<in> set ?all" unfolding x by simp
  ultimately have "x \<in> set ((rowid, e) # rest)" using ok by simp
  then have "fst x = rowid" using ge \<open>fst x \<le> rowid\<close> by fastforce
  moreover have "(rowid, e) = x \<or> fst x < rowid" using mem sorted unfolding x by fastforce
  ultimately have "x = (rowid, e)" by auto
  then show ?thesis using x by (simp add: entriesForTopicFromRowid_def BATCH_def)
qed


section \<open>After close\<close>

lemma closed_gone: "cons_inv s \<Longrightarrow> ch_closed (fst s) \<Longrightarrow> ch_objs (fst s) i = Some c \<Longrightarrow> co_gone c"
  by (fastforce simp: cons_inv_def reg_ok_def)

lemma closed_pump:
  assumes "cons_inv s" "ch_closed (fst s)"
  shows "ch_calls (fst (pump i s)) = ch_calls (fst s)"
  using closed_gone [OF assms] by (auto simp: pump_def split: option.split)

lemma closed_done:
  assumes "cons_inv s" "ch_closed (fst s)"
  shows "ch_calls (fst (callbackDone i success now s)) = ch_calls (fst s) \<and> snd (callbackDone i success now s) = snd s"
proof -
  obtain h d where s: "s = (h, d)" by (cases s)
  have "co_gone c" if "ch_objs h i = Some c" for c using closed_gone [OF assms] that s by simp
  then show ?thesis by (auto simp: callbackDone_def endDrain_def s split: option.split list.split)
qed

lemma closed_retry:
  assumes "cons_inv s" "ch_closed (fst s)"
  shows "ch_calls (fst (retryFires i s)) = ch_calls (fst s)"
  using closed_gone [OF assms] by (auto simp: retryFires_def pump_def split: option.split)

text \<open>After \<^verbatim>\<open>close\<close> the hub is quiet. In every reachable state in which the hub is closed, no step makes
  a callback run or writes a cursor: not the settling of a callback that was in flight, not a timer,
  not a notification, and every operation that would write a cursor is refused.
\<close>

theorem quiet_after_close:
  assumes "cons_reach E s" "ch_closed (fst s)" "cons_step E s s'"
  shows "ch_calls (fst s') = ch_calls (fst s) \<and> sq_cursors (snd s') = sq_cursors (snd s) \<and> ch_closed (fst s')"
proof -
  have inv: "cons_inv s" by (rule cons_reach_inv [OF assms(1)])
  then have none: "ch_consumers (fst s) = []" using assms(2) by (simp add: cons_inv_def reg_ok_def)
  have shut: "ch_closed (fst (afterDrain i x)) = ch_closed (fst x)" "ch_closed (fst (pump i x)) = ch_closed (fst x)" for i x
    by (cases x; simp add: afterDrain_def startDrain_def drainLoop_def endDrain_def pump_def split: option.split list.split)+
  from assms(3) show ?thesis
  proof (cases rule: cons_step.cases)
    case (register t n now i)
    then show ?thesis using assms(2) by (cases s) (simp add: onEntry_def)
  next
    case (delivered i success now)
    have "ch_closed (fst (callbackDone i success now s))"
      using assms(2) closed_gone [OF inv assms(2)] by (cases s) (auto simp: callbackDone_def endDrain_def split: option.split list.split)
    then show ?thesis using closed_done [OF inv assms(2)] delivered by simp
  next
    case (retried i)
    have "ch_closed (fst (retryFires i s))" using assms(2) by (simp add: retryFires_def shut split: option.split)
    then show ?thesis using closed_retry [OF inv assms(2)] retry_inv [OF inv] retried by simp
  next
    case (notified t)
    then show ?thesis using assms(2) none by (simp add: consNotify_def)
  next
    case (waits t n p)
    then show ?thesis using assms(2) by (cases s) (auto simp: caughtUp_def Let_def)
  next
    case (leaves t n i)
    then show ?thesis using none by simp
  next
    case (reset t n fromHead now st r st')
    then show ?thesis using assms(2) by (simp add: resetConsumer_def assertInactive_def)
  next
    case (delete t n b)
    then show ?thesis using assms(2) by (cases s) (simp add: deleteConsumer_def assertInactive_def)
  next
    case (prune t p before ns)
    then show ?thesis using assms(2) by (cases s) (simp add: pruneConsumers_def)
  next
    case closes
    then show ?thesis using assms(2) none by (cases s) (simp add: consClose_def)
  next
    case (log d' d h)
    then show ?thesis using assms(2) by simp
  qed
qed

section \<open>A second call of an old unsubscribe function\<close>

lemma pump_other:
  "ch_consumers (fst (pump i s)) = ch_consumers (fst s) \<and> (j \<noteq> i \<longrightarrow> ch_objs (fst (pump i s)) j = ch_objs (fst s) j)"
proof -
  have "ch_consumers (fst (startDrain i c s)) = ch_consumers (fst s) \<and>
      (j \<noteq> i \<longrightarrow> ch_objs (fst (startDrain i c s)) j = ch_objs (fst s) j)" for c s
    by (cases s) (simp add: startDrain_def drainLoop_def endDrain_def split: list.split)
  then show ?thesis by (simp add: pump_def afterDrain_def split: option.split)
qed

lemma notify_other:
  "new \<notin> snd ` set (ch_consumers (fst s)) \<Longrightarrow> ch_objs (fst (consNotify t s)) new = ch_objs (fst s) new"
proof -
  have "new \<notin> set is \<Longrightarrow> ch_objs (fst (fold (pumpTopic t) is s)) new = ch_objs (fst s) new" for "is"
  proof (induction "is" arbitrary: s)
    case (Cons i "is")
    have "ch_objs (fst (pumpTopic t i s)) new = ch_objs (fst s) new"
      using pump_other Cons.prems by (simp add: pumpTopic_def split: option.split)
    then show ?case using Cons by simp
  qed simp
  then show "new \<notin> snd ` set (ch_consumers (fst s)) \<Longrightarrow> ch_objs (fst (consNotify t s)) new = ch_objs (fst s) new"
    by (simp add: consNotify_def)
qed

lemma close_other:
  "new \<notin> snd ` set (ch_consumers (fst s)) \<Longrightarrow> ch_objs (fst (consClose s)) new = ch_objs (fst s) new"
  by (cases s) (auto simp: consClose_def fold_closeOne image_iff)

lemma onEntry_new:
  assumes "cons_inv s" "onEntry E t n now s = (Inr new, s1)"
  shows "ch_objs (fst s) new = None \<and> (\<forall>j. j \<noteq> new \<longrightarrow> ch_objs (fst s1) j = ch_objs (fst s) j) \<and>
    ((t, n), new) \<in> set (ch_consumers (fst s1))"
proof -
  obtain h d where s: "s = (h, d)" by (cases s)
  have "ch_objs h (ch_next h) = None" using assms(1) s by (simp add: cons_inv_def reg_ok_def)
  then show ?thesis
    using assms(2) by (auto simp: onEntry_def s Let_def pump_other split: if_splits sum.splits dest!: arg_cong [where f = fst])
qed

text \<open>A stale unsubscribe detaches a later consumer. Subscribe, unsubscribe, subscribe again
  under the same topic and name, then call the first unsubscribe function a second time: the entry of the
  map is deleted by its name, so the second consumer, not gone, is no longer in the map. A notification of new rows does
  not reach it any more, \<^verbatim>\<open>isActive\<close> denies it, and \<^verbatim>\<open>close\<close> does not stop it.
\<close>

theorem stale_unsubscribe_detaches:
  assumes "cons_reach E s" "ch_objs (fst s) old = Some c" "co_gone c"
    and "onEntry E (co_topic c) (co_name c) now s = (Inr new, s1)"
  shows "let s2 = unsubscribe old s1 in
    (\<exists>c2. ch_objs (fst s2) new = Some c2 \<and> \<not> co_gone c2 \<and>
      ch_objs (fst (consNotify t s2)) new = Some c2 \<and> ch_objs (fst (consClose s2)) new = Some c2) \<and>
    \<not> isActive (fst s2) (co_topic c) (co_name c)"
proof -
  have inv: "cons_inv s" by (rule cons_reach_inv [OF assms(1)])
  obtain h1 d1 where s1: "s1 = (h1, d1)" by (cases s1)
  note new = onEntry_new [OF inv assms(4), unfolded s1 fst_conv]
  have reg: "reg_ok h1" using onEntry_inv [OF inv assms(4)] s1 by (simp add: cons_inv_def)
  have neq: "old \<noteq> new" using new assms(2) by fastforce
  then have old: "old \<noteq> new" "ch_objs h1 old = Some c" using new assms(2) by simp_all
  let ?h2 = "(closeOne old h1)\<lparr>ch_consumers := filter (\<lambda>p. fst p \<noteq> (co_topic c, co_name c)) (ch_consumers h1)\<rparr>"
  have s2: "unsubscribe old s1 = (?h2, d1)" using unsubscribe_closeOne [OF old(2)] by (simp add: s1)
  obtain c2 where c2: "ch_objs h1 new = Some c2" "\<not> co_gone c2" "(co_topic c, co_name c) = (co_topic c2, co_name c2)"
    using reg_ok_lookup [OF reg] new by blast
  have out: "new \<notin> snd ` set (ch_consumers (fst (unsubscribe old s1)))"
    using reg_ok_lookup [OF reg] c2 by (fastforce simp: s2)
  have kept: "ch_objs (fst (unsubscribe old s1)) new = Some c2" using c2(1) old(1) by (simp add: s2 closeOne_objs)
  have "\<not> isActive (fst (unsubscribe old s1)) (co_topic c) (co_name c)"
    by (auto simp: s2 isActive_def map_of_eq_None_iff)
  then show ?thesis
    using c2(2) kept notify_other [OF out] close_other [OF out] by (simp add: Let_def)
qed

end
