(* ===== verification/Consume_Demo.thy ===== *)
theory Consume_Demo
  imports Consume_Rules Log_Demo
begin

text \<open>
  The properties of consumers on a concrete node: a log with two rows of the topic \<open>t\<close>, a consumer
  registered at once, its first callback pending, and what follows.
\<close>

definition demo_cdb :: Db where
  "demo_cdb = empty_db\<lparr>sq_log := [(1, demo_row ''t'' ''me'' 1 demo_hlc), (2, demo_row ''t'' ''me'' 2 demo_hlc)], log_autoinc := 2\<rparr>"

definition demo_consumer :: Consumer where
  "demo_consumer = \<lparr>co_topic = ''t'', co_name = ''c'', co_running = True, co_rerun = False, co_failures = 0,
     co_retry = None, co_gone = False, co_waiters = [],
     co_batch = Some (sq_log demo_cdb), co_advanced = False\<rparr>"

definition demo_first_call :: ConsState where
  "demo_first_call = (ConsumerHub_new\<lparr>ch_consumers := [((''t'', ''c''), 0)], ch_objs := [0 \<mapsto> demo_consumer],
     ch_next := 1, ch_calls := [(0, hd (sq_log demo_cdb))]\<rparr>, cursorSet demo_cdb ''c'' ''t'' 0 5)"

lemma demo_cdb_rows: "topicRows (cursorSet demo_cdb n t r x) ''t'' = sq_log demo_cdb" "sq_log demo_cdb \<noteq> []"
  "hd (sq_log demo_cdb) = (1, demo_row ''t'' ''me'' 1 demo_hlc)" "log_table_ok demo_cdb"
  by (simp_all add: demo_cdb_def topicRows_def inTopic_def cursorSet_def demo_row_def log_table_ok_def entryKey_def)

lemma demo_call_fields: "ch_objs (fst demo_first_call) 0 = Some demo_consumer"
  "ch_calls (fst demo_first_call) = [(0, hd (sq_log demo_cdb))]"
  "topicRows (snd demo_first_call) ''t'' = sq_log demo_cdb" "cursorGet (snd demo_first_call) ''c'' ''t'' = 0"
  by (simp_all add: demo_first_call_def demo_cdb_rows(1))

lemma demo_subscribes: "onEntry demo_env ''t'' ''c'' 5 (ConsumerHub_new, demo_cdb) = (Inr 0, demo_first_call)"
proof -
  have rows: "entriesForTopicFromRowid (cursorSet demo_cdb ''c'' ''t'' 0 5) ''t'' 0 BATCH = sq_log demo_cdb"
    by (simp add: entriesForTopicFromRowid_def demo_cdb_rows(1)) (simp add: demo_cdb_def BATCH_def)
  have "\<not> hasCursor demo_cdb ''t'' ''c''"
    by (simp add: hasCursor_def cursorsForTopic_def demo_cdb_def empty_db_def)
  then show ?thesis
    using rows by (simp add: onEntry_def ConsumerHub_new_def demo_registry Let_def pump_def startDrain_def drainLoop_def
      afterDrain_def demo_first_call_def demo_consumer_def putObj_def demo_cdb_def)
qed

lemma demo_cons_reach: "cons_reach demo_env (ConsumerHub_new, demo_cdb)" "cons_reach demo_env demo_first_call"
proof -
  show "cons_reach demo_env (ConsumerHub_new, demo_cdb)" by (rule cons_reach.fresh [OF demo_cdb_rows(4)])
  then show "cons_reach demo_env demo_first_call"
    by (rule cons_reach.step) (rule cons_step.register [OF demo_subscribes])
qed

lemma demo_delivers: "snd (callbackDone 0 True 6 demo_first_call) = cursorSet (snd demo_first_call) ''c'' ''t'' 1 6"
  by (simp add: callbackDone_def demo_first_call_def demo_consumer_def demo_cdb_def resolveWaiters_def)



text \<open>A promise that waits for the second row.\<close>

definition demo_waiting :: ConsState where
  "demo_waiting = snd (caughtUp demo_env ''t'' ''c'' demo_first_call)"

lemma demo_waiting_state:
  "cons_reach demo_env demo_waiting" "snd demo_waiting = snd demo_first_call"
  "ch_objs (fst demo_waiting) 0 = Some (demo_consumer\<lparr>co_waiters := [\<lparr>cw_through = 2, cw_promise = 0\<rparr>]\<rparr>)"
proof -
  show "cons_reach demo_env demo_waiting"
    unfolding demo_waiting_def
    by (rule cons_reach.step [OF demo_cons_reach(2)])
      (rule cons_step.waits [of demo_env "''t''" "''c''" demo_first_call "fst (caughtUp demo_env ''t'' ''c'' demo_first_call)"], simp)
  have "maxRowid (cursorSet demo_cdb ''c'' ''t'' 0 5) ''t'' = 2"
    by (simp add: maxRowid_def demo_cdb_rows(1)) (simp add: demo_cdb_def)
  then show "ch_objs (fst demo_waiting) 0 = Some (demo_consumer\<lparr>co_waiters := [\<lparr>cw_through = 2, cw_promise = 0\<rparr>]\<rparr>)"
    "snd demo_waiting = snd demo_first_call"
    by (simp_all add: demo_waiting_def demo_first_call_def caughtUp_def demo_registry ConsumerHub_new_def Let_def)
      (simp_all add: demo_consumer_def)
qed

theorem no_waiter_left_behind_witness: "cursorGet (snd demo_waiting) ''c'' ''t'' < 2"
proof -
  obtain h d where s: "demo_waiting = (h, d)" by (cases demo_waiting)
  have "cursorGet d ''c'' ''t'' < 2"
    using no_waiter_left_behind [OF demo_waiting_state(1) [unfolded s] demo_waiting_state(3) [unfolded s fst_conv], of "\<lparr>cw_through = 2, cw_promise = 0\<rparr>"]
    by (simp add: demo_consumer_def)
  then show ?thesis by (simp add: s)
qed

theorem quiet_after_close_witness:
  "ch_calls (fst (callbackDone 0 True 6 (consClose demo_first_call))) = [(0, hd (sq_log demo_cdb))]"
proof -
  have reach: "cons_reach demo_env (consClose demo_first_call)"
    by (rule cons_reach.step [OF demo_cons_reach(2) cons_step.closes])
  have fields: "ch_closed (fst (consClose demo_first_call))" "ch_calls (fst (consClose demo_first_call)) = [(0, hd (sq_log demo_cdb))]"
    by (simp_all add: consClose_def demo_first_call_def closeOne_objs)
  show ?thesis
    using quiet_after_close [OF reach fields(1) cons_step.delivered [where i = 0 and success = True and now = 6]] fields(2) by simp
qed

theorem stale_unsubscribe_detaches_witness:
  "\<exists>s1. onEntry demo_env ''t'' ''c'' 7 (unsubscribe 0 demo_first_call) = (Inr 1, s1) \<and>
    \<not> isActive (fst (unsubscribe 0 s1)) ''t'' ''c'' \<and>
    (\<exists>c2. ch_objs (fst (consClose (unsubscribe 0 s1))) 1 = Some c2 \<and> \<not> co_gone c2)"
proof -
  have reach: "cons_reach demo_env (unsubscribe 0 demo_first_call)"
    by (rule cons_reach.step [OF demo_cons_reach(2)], rule cons_step.leaves [of _ "''t''" "''c''"])
      (simp add: demo_first_call_def)
  let ?c = "demo_consumer\<lparr>co_gone := True\<rparr>"
  have old: "ch_objs (fst (unsubscribe 0 demo_first_call)) 0 = Some ?c"
    by (simp add: unsubscribe_def demo_first_call_def rejectWaiters_def Let_def demo_consumer_def)
  obtain s1 where s1: "onEntry demo_env ''t'' ''c'' 7 (unsubscribe 0 demo_first_call) = (Inr 1, s1)"
    by (simp add: unsubscribe_def demo_first_call_def rejectWaiters_def Let_def demo_consumer_def onEntry_def
      ConsumerHub_new_def demo_registry)
  have c: "co_gone ?c" "co_topic ?c = ''t''" "co_name ?c = ''c''" by (simp_all add: demo_consumer_def)
  show ?thesis
    using stale_unsubscribe_detaches [OF reach old c(1), unfolded c, OF s1] s1 by (auto simp: Let_def)
qed

end
