(* ===== verification/Messages.thy ===== *)
theory Messages
  imports Finality
begin

text \<open>
  \<^verbatim>\<open>src/messages.ts\<close>: the wire messages, the structural validation every inbound frame
  passes, and the frame codec. \<open>JSON.parse\<close> and \<open>JSON.stringify\<close> on the text of a frame are
  parameters (\<open>WireJson\<close>); everything after the parse works on the JavaScript value. A message is
  the typed reading \<open>msg_of\<close> of a validated value; \<open>msg_js\<close> is the object a sender builds.
  Certificates, directives and the order of an offer are only validated structurally here
  and stay JavaScript values.
\<close>

record WireJson =
  jsonParse :: "string \<Rightarrow> jsval option"
  jsonStringify :: "jsval \<Rightarrow> string"

section \<open>Messages\<close>

datatype GrantMode = GFull | GServe | GNone

type_synonym WireGrants = "(string \<times> (GrantMode \<times> string)) list"

datatype WireMsg =
    HELLO (protoMin: nat) (protoMax: nat) (m_node: string) (m_grants: WireGrants)
      (m_grantsGen: "nat option") (m_ackGen: "nat option")
  | HAVE_GET (m_req: int)
  | HAVE (m_req: int) (m_page: nat) (m_of: nat) (m_vectors: HaveVectors)
  | WANT (m_req: int) (m_topic: string) (m_writer: string) (m_fromSeq: nat)
  | ENTRIES (m_mid: int) (m_reqOpt: "int option") (m_topic: string) (m_writer: string) (m_fromSeq: nat)
      (m_toSeq: nat) (m_entries: "jsval list") (m_done: bool)
  | PROBE (m_topic: string) (m_writer: string) (m_seqs: "nat list")
  | PROBE_RES (m_topic: string) (m_writer: string) (m_points: "(nat \<times> string) list") (m_belowSeq: "nat option")
  | TRUNCATED (m_req: int) (m_topic: string) (m_writer: string) (m_floorSeq: nat) (m_floorChain: string)
  | FINALITY (m_topic: string) (m_cert: jsval)
  | WRITER_DIRECTIVE (m_directive: jsval)
  | SNAPSHOT_OFFER (m_topic: string) (m_snapshotId: string) (m_order: jsval) (m_cut: Cut) (m_certHash: string)
  | SNAPSHOT_GET (m_topic: string) (m_snapshotId: string) (m_wants: "(string \<times> string) list")
  | SNAPSHOT (m_mid: int) (m_topic: string) (m_snapshotId: string) (m_chunk: nat) (m_of: nat) (m_data: string)
      (m_totalHash: "string option")
  | SUB (m_subId: int) (m_view: string) (m_params: jsval) (m_fromCursor: "string option")
  | SNAP (m_mid: int) (m_subId: int) (m_chunk: nat) (m_of: nat) (m_data: string) (m_cursor: string) (m_reset: bool)
      (m_totalHash: "string option")
  | DELTA (m_mid: int) (m_subId: int) (m_upserts: "jsval list") (m_deletes: "string list") (m_cursor: string)
  | UNSUB (m_subId: int)
  | SUB_ERR (m_subId: int) (m_code: string)
  | ACK (m_upTo: nat)
  | ERR (m_code: string) (m_ref: "string option") (m_detail: "string option")

definition DATA_TYPES :: "string list" where
  "DATA_TYPES = [''ENTRIES'', ''SNAPSHOT'', ''SNAP'', ''DELTA'']"

definition ALL_TYPES :: "string list" where
  "ALL_TYPES = [''HELLO'', ''HAVE_GET'', ''HAVE'', ''WANT'', ''ENTRIES'', ''PROBE'', ''PROBE_RES'', ''TRUNCATED'',
     ''FINALITY'', ''WRITER_DIRECTIVE'', ''SNAPSHOT_OFFER'', ''SNAPSHOT_GET'', ''SNAPSHOT'', ''SUB'', ''SNAP'',
     ''DELTA'', ''UNSUB'', ''SUB_ERR'', ''ACK'', ''ERR'']"

definition isData :: "WireMsg \<Rightarrow> bool" where
  "isData m \<longleftrightarrow> (case m of ENTRIES _ _ _ _ _ _ _ _ \<Rightarrow> True | SNAPSHOT _ _ _ _ _ _ _ \<Rightarrow> True
     | SNAP _ _ _ _ _ _ _ _ \<Rightarrow> True | DELTA _ _ _ _ _ \<Rightarrow> True | _ \<Rightarrow> False)"

section \<open>Structural validation\<close>

text \<open>Every failed check throws \<open>ERR_ENTRY_ENCODING\<close>, so a check is a predicate.\<close>

definition MAX_PROBE_SEQS :: nat where
  "MAX_PROBE_SEQS = 64"

definition vInt :: "jsval \<Rightarrow> bool" where
  "vInt v \<longleftrightarrow> (case v of JNum n \<Rightarrow> isSafeInteger n | _ \<Rightarrow> False)"

definition vNonNeg :: "jsval \<Rightarrow> bool" where
  "vNonNeg v \<longleftrightarrow> (case v of JNum n \<Rightarrow> isSafeInteger n \<and> \<not> num_less n 0 | _ \<Rightarrow> False)"

definition vPos :: "jsval \<Rightarrow> bool" where
  "vPos v \<longleftrightarrow> (case v of JNum n \<Rightarrow> isSafeInteger n \<and> \<not> num_less n 1 | _ \<Rightarrow> False)"

definition vStr :: "jsval \<Rightarrow> bool" where
  "vStr v \<longleftrightarrow> (case v of JStr _ \<Rightarrow> True | _ \<Rightarrow> False)"

definition vBool :: "jsval \<Rightarrow> bool" where
  "vBool v \<longleftrightarrow> (case v of JBool _ \<Rightarrow> True | _ \<Rightarrow> False)"

definition vTopic :: "jsval \<Rightarrow> bool" where
  "vTopic v \<longleftrightarrow> (case v of JStr s \<Rightarrow> TOPIC_RE s | _ \<Rightarrow> False)"

definition vWriter :: "jsval \<Rightarrow> bool" where
  "vWriter v \<longleftrightarrow> (case v of JStr s \<Rightarrow> WRITER_RE s | _ \<Rightarrow> False)"

definition vChain :: "jsval \<Rightarrow> bool" where
  "vChain v \<longleftrightarrow> (case v of JStr s \<Rightarrow> CHAIN_RE s | _ \<Rightarrow> False)"

definition arrElems :: "jsval \<Rightarrow> jsval list" where
  "arrElems v = (case v of JArr xs \<Rightarrow> map (\<lambda>x. case x of None \<Rightarrow> JUndef | Some y \<Rightarrow> y) xs | _ \<Rightarrow> [])"

definition vArr :: "jsval \<Rightarrow> bool" where
  "vArr v \<longleftrightarrow> (case v of JArr _ \<Rightarrow> True | _ \<Rightarrow> False)"

definition objEntries :: "jsval \<Rightarrow> (string \<times> jsval) list" where
  "objEntries v = (case v of JObj ps \<Rightarrow> ps | JInst ps \<Rightarrow> ps | _ \<Rightarrow> [])"

definition vMap :: "jsval \<Rightarrow> bool" where
  "vMap v \<longleftrightarrow> isObject v \<and> \<not> vArr v \<and> list_all (\<lambda>p. fst p \<noteq> RESERVED_NAME) (objEntries v)"

definition vOpt :: "(jsval \<Rightarrow> bool) \<Rightarrow> jsval \<Rightarrow> bool" where
  "vOpt f v \<longleftrightarrow> v \<noteq> JUndef \<longrightarrow> f v"

definition vHaveWriter :: "jsval \<Rightarrow> bool" where
  "vHaveWriter w \<longleftrightarrow> isObject w \<and>
     (if getProp w ''retired'' \<noteq> JUndef
      then getProp w ''retired'' = JBool True \<and> vNonNeg (getProp w ''finalSeq'') \<and> vChain (getProp w ''finalChain'')
        \<and> vNonNeg (getProp w ''rgen'')
      else vNonNeg (getProp w ''contig'') \<and> vChain (getProp w ''chain'') \<and> vOpt vNonNeg (getProp w ''rgen''))"

definition vGrant :: "string \<times> jsval \<Rightarrow> bool" where
  "vGrant p \<longleftrightarrow> (case p of (topic, g) \<Rightarrow> vTopic (JStr topic) \<and> isObject g \<and>
     getProp g ''mode'' \<in> {JStr ''full'', JStr ''serve'', JStr ''none''} \<and> vStr (getProp g ''schemaHash''))"

definition vTopicVec :: "string \<times> jsval \<Rightarrow> bool" where
  "vTopicVec p \<longleftrightarrow> (case p of (topic, v) \<Rightarrow> vTopic (JStr topic) \<and> isObject v \<and> vOpt vNonNeg (getProp v ''fgen'') \<and>
     vMap (getProp v ''writers'') \<and>
     list_all (\<lambda>(writer, w). vWriter (JStr writer) \<and> vHaveWriter w) (objEntries (getProp v ''writers'')))"

definition vCut :: "jsval \<Rightarrow> bool" where
  "vCut v \<longleftrightarrow> vMap v \<and> list_all (\<lambda>(writer, cut). vWriter (JStr writer) \<and> isObject cut \<and>
     vNonNeg (getProp cut ''seq'') \<and> vStr (getProp cut ''chain'')) (objEntries v)"

text \<open>\<open>vPos(t, m.page, "page") > of\<close>, both validated.\<close>

definition vWithin :: "jsval \<Rightarrow> jsval \<Rightarrow> bool" where
  "vWithin page of' \<longleftrightarrow> vPos of' \<and> vPos page \<and>
     (case (page, of') of (JNum a, JNum b) \<Rightarrow> nat_of_num a \<le> nat_of_num b | _ \<Rightarrow> False)"

definition vCert :: "jsval \<Rightarrow> bool" where
  "vCert c \<longleftrightarrow> isObject c \<and> vTopic (getProp c ''topic'') \<and> vNonNeg (getProp c ''generation'') \<and>
     vStr (getProp c ''authority'') \<and> vStr (getProp c ''sig'') \<and> isObject (getProp c ''order'') \<and> vCut (getProp c ''cut'')"

definition vDirective :: "jsval \<Rightarrow> bool" where
  "vDirective d \<longleftrightarrow> isObject d \<and> vTopic (getProp d ''topic'') \<and> vWriter (getProp d ''writer'') \<and>
     getProp d ''state'' \<in> {JStr ''live'', JStr ''retired''} \<and> vNonNeg (getProp d ''rgen'') \<and>
     vOpt vNonNeg (getProp d ''finalSeq'') \<and> vOpt vStr (getProp d ''finalChain'') \<and>
     vStr (getProp d ''authority'') \<and> vStr (getProp d ''sig'')"

definition vCode :: "jsval \<Rightarrow> bool" where
  "vCode v \<longleftrightarrow> (case v of JStr s \<Rightarrow> s \<noteq> [] | _ \<Rightarrow> False)"

definition isRow :: "jsval \<Rightarrow> bool" where
  "isRow v \<longleftrightarrow> isObject v \<and> \<not> vArr v"

definition validateShape :: "string \<Rightarrow> jsval \<Rightarrow> bool" where
  "validateShape t m = (let f = getProp m in
     if t = ''HELLO'' then vNonNeg (f ''protoMin'') \<and> vNonNeg (f ''protoMax'') \<and> vWriter (f ''node'') \<and>
       vOpt vNonNeg (f ''grantsGen'') \<and> vOpt vNonNeg (f ''ackGen'') \<and> vMap (f ''grants'') \<and> list_all vGrant (objEntries (f ''grants''))
     else if t = ''HAVE_GET'' then vInt (f ''req'')
     else if t = ''HAVE'' then vInt (f ''req'') \<and> vWithin (f ''page'') (f ''of'') \<and> vMap (f ''vectors'') \<and>
       list_all vTopicVec (objEntries (f ''vectors''))
     else if t = ''WANT'' then vInt (f ''req'') \<and> vTopic (f ''topic'') \<and> vWriter (f ''writer'') \<and> vPos (f ''fromSeq'')
     else if t = ''ENTRIES'' then vOpt vInt (f ''req'') \<and> vTopic (f ''topic'') \<and> vWriter (f ''writer'') \<and>
       vPos (f ''fromSeq'') \<and> vNonNeg (f ''toSeq'') \<and> vArr (f ''entries'') \<and> vBool (f ''done'')
     else if t = ''PROBE'' then vTopic (f ''topic'') \<and> vWriter (f ''writer'') \<and> vArr (f ''seqs'') \<and>
       length (arrElems (f ''seqs'')) \<le> MAX_PROBE_SEQS \<and> list_all vPos (arrElems (f ''seqs''))
     else if t = ''PROBE_RES'' then vTopic (f ''topic'') \<and> vWriter (f ''writer'') \<and> vArr (f ''points'') \<and>
       list_all (\<lambda>p. isObject p \<and> vPos (getProp p ''seq'') \<and> vChain (getProp p ''chain'')) (arrElems (f ''points'')) \<and>
       vOpt (\<lambda>u. isObject u \<and> vPos (getProp u ''belowSeq'')) (f ''unavailable'')
     else if t = ''TRUNCATED'' then vInt (f ''req'') \<and> vTopic (f ''topic'') \<and> vWriter (f ''writer'') \<and>
       vPos (f ''floorSeq'') \<and> vChain (f ''floorChain'')
     else if t = ''FINALITY'' then vTopic (f ''topic'') \<and> vCert (f ''cert'')
     else if t = ''WRITER_DIRECTIVE'' then vDirective (f ''directive'')
     else if t = ''SNAPSHOT_OFFER'' then vTopic (f ''topic'') \<and> vChain (f ''snapshotId'') \<and> vChain (f ''certHash'') \<and>
       isObject (f ''order'') \<and> vCut (f ''cut'')
     else if t = ''SNAPSHOT_GET'' then vTopic (f ''topic'') \<and> vChain (f ''snapshotId'') \<and> vArr (f ''wants'') \<and>
       list_all (\<lambda>w. isObject w \<and> vStr (getProp w ''name'') \<and> vStr (getProp w ''version'')) (arrElems (f ''wants''))
     else if t = ''SNAPSHOT'' then vTopic (f ''topic'') \<and> vChain (f ''snapshotId'') \<and> vWithin (f ''chunk'') (f ''of'') \<and>
       vStr (f ''data'') \<and> vOpt vChain (f ''totalHash'')
     else if t = ''SUB'' then vInt (f ''subId'') \<and> vStr (f ''view'') \<and> vOpt vStr (f ''fromCursor'')
     else if t = ''SNAP'' then vInt (f ''subId'') \<and> vWithin (f ''chunk'') (f ''of'') \<and> vStr (f ''data'') \<and>
       vStr (f ''cursor'') \<and> vBool (f ''reset'') \<and> vOpt vStr (f ''totalHash'')
     else if t = ''DELTA'' then vInt (f ''subId'') \<and> vStr (f ''cursor'') \<and> isObject (f ''changes'') \<and>
       vArr (getProp (f ''changes'') ''upserts'') \<and> list_all isRow (arrElems (getProp (f ''changes'') ''upserts'')) \<and>
       vArr (getProp (f ''changes'') ''deletes'') \<and> list_all vStr (arrElems (getProp (f ''changes'') ''deletes''))
     else if t = ''UNSUB'' then vInt (f ''subId'')
     else if t = ''SUB_ERR'' then vInt (f ''subId'') \<and> vCode (f ''code'')
     else if t = ''ACK'' then vNonNeg (f ''upTo'')
     else if t = ''ERR'' then vCode (f ''code'') \<and> vOpt vStr (f ''ref'') \<and> vOpt vStr (f ''detail'')
     else True)"

section \<open>The typed reading of a validated value\<close>

definition toInt :: "jsval \<Rightarrow> int" where
  "toInt v = (case v of JNum (JFin q) \<Rightarrow> fst (quotient_of q) | _ \<Rightarrow> 0)"

definition toNat :: "jsval \<Rightarrow> nat" where
  "toNat v = (case v of JNum n \<Rightarrow> nat_of_num n | _ \<Rightarrow> 0)"

definition toStr :: "jsval \<Rightarrow> string" where
  "toStr v = (case v of JStr s \<Rightarrow> s | _ \<Rightarrow> [])"

definition toOpt :: "(jsval \<Rightarrow> 'a) \<Rightarrow> jsval \<Rightarrow> 'a option" where
  "toOpt f v = (if v = JUndef then None else Some (f v))"

definition toMode :: "jsval \<Rightarrow> GrantMode" where
  "toMode v = (if v = JStr ''full'' then GFull else if v = JStr ''serve'' then GServe else GNone)"

definition toVecEntry :: "jsval \<Rightarrow> VecEntry" where
  "toVecEntry w = (if getProp w ''retired'' \<noteq> JUndef
     then VRetired (toNat (getProp w ''finalSeq'')) (toStr (getProp w ''finalChain'')) (toNat (getProp w ''rgen''))
     else VLive (toNat (getProp w ''contig'')) (toStr (getProp w ''chain'')) (toOpt toNat (getProp w ''rgen'')))"

definition toTopicVec :: "jsval \<Rightarrow> TopicVec" where
  "toTopicVec v = \<lparr>fgen = toOpt toNat (getProp v ''fgen''),
     writers = map (\<lambda>(w, e). (w, toVecEntry e)) (objEntries (getProp v ''writers''))\<rparr>"

definition toCut :: "jsval \<Rightarrow> Cut" where
  "toCut v = map (\<lambda>(w, c). (w, toNat (getProp c ''seq''), toStr (getProp c ''chain''))) (objEntries v)"

definition msg_of :: "string \<Rightarrow> jsval \<Rightarrow> WireMsg" where
  "msg_of t m = (let f = getProp m in
     if t = ''HELLO'' then HELLO (toNat (f ''protoMin'')) (toNat (f ''protoMax'')) (toStr (f ''node''))
       (map (\<lambda>(k, g). (k, toMode (getProp g ''mode''), toStr (getProp g ''schemaHash''))) (objEntries (f ''grants'')))
       (toOpt toNat (f ''grantsGen'')) (toOpt toNat (f ''ackGen''))
     else if t = ''HAVE_GET'' then HAVE_GET (toInt (f ''req''))
     else if t = ''HAVE'' then HAVE (toInt (f ''req'')) (toNat (f ''page'')) (toNat (f ''of''))
       (map (\<lambda>(k, v). (k, toTopicVec v)) (objEntries (f ''vectors'')))
     else if t = ''WANT'' then WANT (toInt (f ''req'')) (toStr (f ''topic'')) (toStr (f ''writer'')) (toNat (f ''fromSeq''))
     else if t = ''ENTRIES'' then ENTRIES (toInt (f ''mid'')) (toOpt toInt (f ''req'')) (toStr (f ''topic'')) (toStr (f ''writer''))
       (toNat (f ''fromSeq'')) (toNat (f ''toSeq'')) (arrElems (f ''entries'')) (f ''done'' = JBool True)
     else if t = ''PROBE'' then PROBE (toStr (f ''topic'')) (toStr (f ''writer'')) (map toNat (arrElems (f ''seqs'')))
     else if t = ''PROBE_RES'' then PROBE_RES (toStr (f ''topic'')) (toStr (f ''writer''))
       (map (\<lambda>p. (toNat (getProp p ''seq''), toStr (getProp p ''chain''))) (arrElems (f ''points'')))
       (toOpt (\<lambda>u. toNat (getProp u ''belowSeq'')) (f ''unavailable''))
     else if t = ''TRUNCATED'' then TRUNCATED (toInt (f ''req'')) (toStr (f ''topic'')) (toStr (f ''writer''))
       (toNat (f ''floorSeq'')) (toStr (f ''floorChain''))
     else if t = ''FINALITY'' then FINALITY (toStr (f ''topic'')) (f ''cert'')
     else if t = ''WRITER_DIRECTIVE'' then WRITER_DIRECTIVE (f ''directive'')
     else if t = ''SNAPSHOT_OFFER'' then SNAPSHOT_OFFER (toStr (f ''topic'')) (toStr (f ''snapshotId'')) (f ''order'')
       (toCut (f ''cut'')) (toStr (f ''certHash''))
     else if t = ''SNAPSHOT_GET'' then SNAPSHOT_GET (toStr (f ''topic'')) (toStr (f ''snapshotId''))
       (map (\<lambda>w. (toStr (getProp w ''name''), toStr (getProp w ''version''))) (arrElems (f ''wants'')))
     else if t = ''SNAPSHOT'' then SNAPSHOT (toInt (f ''mid'')) (toStr (f ''topic'')) (toStr (f ''snapshotId''))
       (toNat (f ''chunk'')) (toNat (f ''of'')) (toStr (f ''data'')) (toOpt toStr (f ''totalHash''))
     else if t = ''SUB'' then SUB (toInt (f ''subId'')) (toStr (f ''view'')) (f ''params'') (toOpt toStr (f ''fromCursor''))
     else if t = ''SNAP'' then SNAP (toInt (f ''mid'')) (toInt (f ''subId'')) (toNat (f ''chunk'')) (toNat (f ''of''))
       (toStr (f ''data'')) (toStr (f ''cursor'')) (f ''reset'' = JBool True) (toOpt toStr (f ''totalHash''))
     else if t = ''DELTA'' then DELTA (toInt (f ''mid'')) (toInt (f ''subId'')) (arrElems (getProp (f ''changes'') ''upserts''))
       (map toStr (arrElems (getProp (f ''changes'') ''deletes''))) (toStr (f ''cursor''))
     else if t = ''UNSUB'' then UNSUB (toInt (f ''subId''))
     else if t = ''SUB_ERR'' then SUB_ERR (toInt (f ''subId'')) (toStr (f ''code''))
     else if t = ''ACK'' then ACK (toNat (f ''upTo''))
     else ERR (toStr (f ''code'')) (toOpt toStr (f ''ref'')) (toOpt toStr (f ''detail'')))"

section \<open>The object of a message\<close>

text \<open>An object literal: \<open>JSON.stringify\<close> drops the properties that are undefined.\<close>

definition obj :: "(string \<times> jsval) list \<Rightarrow> jsval" where
  "obj ps = JObj (filter (\<lambda>p. snd p \<noteq> JUndef) ps)"

definition jInt :: "int \<Rightarrow> jsval" where "jInt i = JNum (JFin (of_int i))"
definition jNat :: "nat \<Rightarrow> jsval" where "jNat n = JNum (num_of_nat n)"
definition jOpt :: "('a \<Rightarrow> jsval) \<Rightarrow> 'a option \<Rightarrow> jsval" where
  "jOpt f v = (case v of None \<Rightarrow> JUndef | Some x \<Rightarrow> f x)"
definition jArr :: "('a \<Rightarrow> jsval) \<Rightarrow> 'a list \<Rightarrow> jsval" where
  "jArr f xs = JArr (map (\<lambda>x. Some (f x)) xs)"

definition mode_js :: "GrantMode \<Rightarrow> jsval" where
  "mode_js g = JStr (case g of GFull \<Rightarrow> ''full'' | GServe \<Rightarrow> ''serve'' | GNone \<Rightarrow> ''none'')"

definition vecEntry_js :: "VecEntry \<Rightarrow> jsval" where
  "vecEntry_js v = (case v of
     VLive n c g \<Rightarrow> obj [(''contig'', jNat n), (''chain'', JStr c), (''rgen'', jOpt jNat g)]
   | VRetired s c r \<Rightarrow> obj [(''retired'', JBool True), (''finalSeq'', jNat s), (''finalChain'', JStr c), (''rgen'', jNat r)])"

definition topicVec_js :: "TopicVec \<Rightarrow> jsval" where
  "topicVec_js v = obj [(''fgen'', jOpt jNat (fgen v)),
     (''writers'', JObj (map (\<lambda>(w, e). (w, vecEntry_js e)) (writers v)))]"

definition vectors_js :: "HaveVectors \<Rightarrow> jsval" where
  "vectors_js vs = JObj (map (\<lambda>(k, v). (k, topicVec_js v)) vs)"

definition msgType :: "WireMsg \<Rightarrow> string" where
  "msgType m = (case m of HELLO _ _ _ _ _ _ \<Rightarrow> ''HELLO'' | HAVE_GET _ \<Rightarrow> ''HAVE_GET'' | HAVE _ _ _ _ \<Rightarrow> ''HAVE''
   | WANT _ _ _ _ \<Rightarrow> ''WANT'' | ENTRIES _ _ _ _ _ _ _ _ \<Rightarrow> ''ENTRIES'' | PROBE _ _ _ \<Rightarrow> ''PROBE'' | PROBE_RES _ _ _ _ \<Rightarrow> ''PROBE_RES''
   | TRUNCATED _ _ _ _ _ \<Rightarrow> ''TRUNCATED'' | FINALITY _ _ \<Rightarrow> ''FINALITY'' | WRITER_DIRECTIVE _ \<Rightarrow> ''WRITER_DIRECTIVE''
   | SNAPSHOT_OFFER _ _ _ _ _ \<Rightarrow> ''SNAPSHOT_OFFER'' | SNAPSHOT_GET _ _ _ \<Rightarrow> ''SNAPSHOT_GET'' | SNAPSHOT _ _ _ _ _ _ _ \<Rightarrow> ''SNAPSHOT''
   | SUB _ _ _ _ \<Rightarrow> ''SUB'' | SNAP _ _ _ _ _ _ _ _ \<Rightarrow> ''SNAP'' | DELTA _ _ _ _ _ \<Rightarrow> ''DELTA'' | UNSUB _ \<Rightarrow> ''UNSUB''
   | SUB_ERR _ _ \<Rightarrow> ''SUB_ERR'' | ACK _ \<Rightarrow> ''ACK'' | ERR _ _ _ \<Rightarrow> ''ERR'')"

definition msgProps :: "WireMsg \<Rightarrow> (string \<times> jsval) list" where
  "msgProps m = (case m of
     HELLO a b node gs gen ack \<Rightarrow> [(''protoMin'', jNat a), (''protoMax'', jNat b), (''node'', JStr node),
       (''grants'', JObj (map (\<lambda>(k, mode, h). (k, obj [(''mode'', mode_js mode), (''schemaHash'', JStr h)])) gs)),
       (''grantsGen'', jOpt jNat gen), (''ackGen'', jOpt jNat ack)]
   | HAVE_GET r \<Rightarrow> [(''req'', jInt r)]
   | HAVE r p n vs \<Rightarrow> [(''req'', jInt r), (''page'', jNat p), (''of'', jNat n), (''vectors'', vectors_js vs)]
   | WANT r t w s \<Rightarrow> [(''req'', jInt r), (''topic'', JStr t), (''writer'', JStr w), (''fromSeq'', jNat s)]
   | ENTRIES mid r t w s1 s2 es dn \<Rightarrow> [(''mid'', jInt mid), (''req'', jOpt jInt r), (''topic'', JStr t), (''writer'', JStr w),
       (''fromSeq'', jNat s1), (''toSeq'', jNat s2), (''entries'', jArr (\<lambda>e. e) es), (''done'', JBool dn)]
   | PROBE t w ss \<Rightarrow> [(''topic'', JStr t), (''writer'', JStr w), (''seqs'', jArr jNat ss)]
   | PROBE_RES t w ps un \<Rightarrow> [(''topic'', JStr t), (''writer'', JStr w),
       (''points'', jArr (\<lambda>(s, c). obj [(''seq'', jNat s), (''chain'', JStr c)]) ps),
       (''unavailable'', jOpt (\<lambda>b. obj [(''belowSeq'', jNat b)]) un)]
   | TRUNCATED r t w s c \<Rightarrow> [(''req'', jInt r), (''topic'', JStr t), (''writer'', JStr w), (''floorSeq'', jNat s), (''floorChain'', JStr c)]
   | FINALITY t c \<Rightarrow> [(''topic'', JStr t), (''cert'', c)]
   | WRITER_DIRECTIVE d \<Rightarrow> [(''directive'', d)]
   | SNAPSHOT_OFFER t i ord cut' h \<Rightarrow> [(''topic'', JStr t), (''snapshotId'', JStr i), (''order'', ord), (''cut'', cut_js cut'), (''certHash'', JStr h)]
   | SNAPSHOT_GET t i ws \<Rightarrow> [(''topic'', JStr t), (''snapshotId'', JStr i),
       (''wants'', jArr (\<lambda>(n, v). obj [(''name'', JStr n), (''version'', JStr v)]) ws)]
   | SNAPSHOT mid t i c n d h \<Rightarrow> [(''mid'', jInt mid), (''topic'', JStr t), (''snapshotId'', JStr i), (''chunk'', jNat c), (''of'', jNat n),
       (''data'', JStr d), (''totalHash'', jOpt JStr h)]
   | SUB i v p c \<Rightarrow> [(''subId'', jInt i), (''view'', JStr v), (''params'', p), (''fromCursor'', jOpt JStr c)]
   | SNAP mid i c n d cur rs h \<Rightarrow> [(''mid'', jInt mid), (''subId'', jInt i), (''chunk'', jNat c), (''of'', jNat n), (''data'', JStr d),
       (''cursor'', JStr cur), (''reset'', JBool rs), (''totalHash'', jOpt JStr h)]
   | DELTA mid i us ds c \<Rightarrow> [(''mid'', jInt mid), (''subId'', jInt i),
       (''changes'', obj [(''upserts'', jArr (\<lambda>e. e) us), (''deletes'', jArr JStr ds)]), (''cursor'', JStr c)]
   | UNSUB i \<Rightarrow> [(''subId'', jInt i)]
   | SUB_ERR i c \<Rightarrow> [(''subId'', jInt i), (''code'', JStr c)]
   | ACK n \<Rightarrow> [(''upTo'', jNat n)]
   | ERR c r d \<Rightarrow> [(''code'', JStr c), (''ref'', jOpt JStr r), (''detail'', jOpt JStr d)])"

definition msg_js :: "WireMsg \<Rightarrow> jsval" where
  "msg_js m = obj ((''t'', JStr (msgType m)) # msgProps m)"

section \<open>Frames\<close>

definition serializeMsg :: "WireJson \<Rightarrow> Constants \<Rightarrow> WireMsg \<Rightarrow> string result" where
  "serializeMsg J K m = (let s = jsonStringify J (msg_js m) in
     if utf8ByteLength s > MAX_FRAME_BYTES K then Inl ERR_ENTRY_ENCODING else Inr s)"

definition parseMsg :: "WireJson \<Rightarrow> Constants \<Rightarrow> string \<Rightarrow> WireMsg result" where
  "parseMsg J K raw = (
     if utf8ByteLength raw > MAX_FRAME_BYTES K then Inl ERR_ENTRY_ENCODING
     else case jsonParse J raw of None \<Rightarrow> Inl ERR_ENTRY_ENCODING
     | Some v \<Rightarrow>
         if \<not> isObject v then Inl ERR_ENTRY_ENCODING
         else case getProp v ''t'' of
           JStr t \<Rightarrow>
             if t \<notin> set ALL_TYPES then Inl ERR_ENTRY_ENCODING
             else if t \<in> set DATA_TYPES \<and> \<not> vInt (getProp v ''mid'') then Inl ERR_ENTRY_ENCODING
             else if \<not> validateShape t v then Inl ERR_ENTRY_ENCODING
             else Inr (msg_of t v)
         | _ \<Rightarrow> Inl ERR_ENTRY_ENCODING)"

end
