(* ===== verification/Message_Rules.thy ===== *)
theory Message_Rules
  imports Messages
begin

text \<open>
  What the wire gate guarantees: every frame it lets through is a well-formed message, and every
  well-formed message a sender builds passes it unchanged at the other end.
\<close>

section \<open>Well-formed messages\<close>

abbreviation safe :: "nat \<Rightarrow> bool" where "safe n \<equiv> n \<le> MAX_SAFE_INTEGER"
abbreviation pos :: "nat \<Rightarrow> bool" where "pos n \<equiv> 0 < n \<and> n \<le> MAX_SAFE_INTEGER"
abbreviation safe_int :: "int \<Rightarrow> bool" where "safe_int i \<equiv> \<bar>i\<bar> \<le> int MAX_SAFE_INTEGER"

definition wf_vec :: "VecEntry \<Rightarrow> bool" where
  "wf_vec v \<longleftrightarrow> (case v of VLive n c g \<Rightarrow> safe n \<and> CHAIN_RE c \<and> pred_option safe g
     | VRetired s c r \<Rightarrow> safe s \<and> CHAIN_RE c \<and> safe r)"

definition wf_vectors :: "HaveVectors \<Rightarrow> bool" where
  "wf_vectors vs \<longleftrightarrow> (\<forall>(t, v) \<in> set vs. TOPIC_RE t \<and> name_ok t \<and> pred_option safe (fgen v) \<and>
     (\<forall>(w, e) \<in> set (writers v). WRITER_RE w \<and> name_ok w \<and> wf_vec e))"

definition wf_cut :: "Cut \<Rightarrow> bool" where
  "wf_cut c \<longleftrightarrow> (\<forall>(w, s, ch) \<in> set c. WRITER_RE w \<and> name_ok w \<and> safe s)"

definition wf_msg :: "WireMsg \<Rightarrow> bool" where
  "wf_msg m \<longleftrightarrow> (case m of
     HELLO a b node gs gen ack \<Rightarrow> safe a \<and> safe b \<and> WRITER_RE node \<and> pred_option safe gen \<and> pred_option safe ack \<and>
       (\<forall>(t, g) \<in> set gs. TOPIC_RE t \<and> name_ok t)
   | HAVE_GET r \<Rightarrow> safe_int r
   | HAVE r p n vs \<Rightarrow> safe_int r \<and> pos p \<and> pos n \<and> p \<le> n \<and> wf_vectors vs
   | WANT r t w s \<Rightarrow> safe_int r \<and> TOPIC_RE t \<and> WRITER_RE w \<and> pos s
   | ENTRIES mid r t w s1 s2 es dn \<Rightarrow> safe_int mid \<and> pred_option safe_int r \<and> TOPIC_RE t \<and> WRITER_RE w \<and> pos s1 \<and> safe s2
   | PROBE t w ss \<Rightarrow> TOPIC_RE t \<and> WRITER_RE w \<and> length ss \<le> 64 \<and> list_all pos ss
   | PROBE_RES t w ps un \<Rightarrow> TOPIC_RE t \<and> WRITER_RE w \<and> (\<forall>(s, c) \<in> set ps. pos s \<and> CHAIN_RE c) \<and> pred_option pos un
   | TRUNCATED r t w s c \<Rightarrow> safe_int r \<and> TOPIC_RE t \<and> WRITER_RE w \<and> pos s \<and> CHAIN_RE c
   | FINALITY t c \<Rightarrow> TOPIC_RE t \<and> vCert c
   | WRITER_DIRECTIVE d \<Rightarrow> vDirective d
   | SNAPSHOT_OFFER t i ord cut' h \<Rightarrow> TOPIC_RE t \<and> CHAIN_RE i \<and> isObject ord \<and> wf_cut cut' \<and> CHAIN_RE h
   | SNAPSHOT_GET t i ws \<Rightarrow> TOPIC_RE t \<and> CHAIN_RE i
   | SNAPSHOT mid t i c n d h \<Rightarrow> safe_int mid \<and> TOPIC_RE t \<and> CHAIN_RE i \<and> pos c \<and> pos n \<and> c \<le> n \<and> pred_option CHAIN_RE h
   | SUB i v p c \<Rightarrow> safe_int i
   | SNAP mid i c n d cur rs h \<Rightarrow> safe_int mid \<and> safe_int i \<and> pos c \<and> pos n \<and> c \<le> n
   | DELTA mid i us ds c \<Rightarrow> safe_int mid \<and> safe_int i \<and> list_all isRow us
   | UNSUB i \<Rightarrow> safe_int i
   | SUB_ERR i c \<Rightarrow> safe_int i \<and> c \<noteq> []
   | ACK n \<Rightarrow> safe n
   | ERR c r d \<Rightarrow> c \<noteq> [])"

section \<open>Reading an object literal\<close>

lemma getProp_obj: "distinct (map fst ps) \<Longrightarrow> getProp (obj ps) k = (case map_of ps k of None \<Rightarrow> JUndef | Some v \<Rightarrow> v)"
proof (induction ps)
  case (Cons p ps)
  have "map_of (filter (\<lambda>p. snd p \<noteq> JUndef) ps) (fst p) = None" if "fst p \<notin> fst ` set ps"
    using that by (auto simp: map_of_eq_None_iff)
  then show ?case using Cons by (auto simp: obj_def getProp_def split: option.split)
qed (simp add: obj_def getProp_def)

lemma read_simps [simp]:
  "toInt (jInt i) = i" "toStr (JStr s) = s" "vInt (jInt i) \<longleftrightarrow> safe_int i"
  "vStr (JStr s)" "vBool (JBool b)" "vTopic (JStr s) \<longleftrightarrow> TOPIC_RE s" "vWriter (JStr s) \<longleftrightarrow> WRITER_RE s"
  "vChain (JStr s) \<longleftrightarrow> CHAIN_RE s" "vCode (JStr s) \<longleftrightarrow> s \<noteq> []"
  "vArr (JArr xs)" "vArr (jArr f ys)" "jNat n \<noteq> JUndef" "jInt i \<noteq> JUndef" "isObject (obj ps)" "isObject (JObj ps)" "obj ps \<noteq> JUndef"
  "objEntries (JObj ps) = ps" "vMap (JObj ps) \<longleftrightarrow> list_all (\<lambda>p. name_ok (fst p)) ps"
  "arrElems (jArr f ys) = map f ys" "toMode (mode_js g) = g" "mode_js g \<in> {JStr ''full'', JStr ''serve'', JStr ''none''}"
  by (auto simp: toInt_def jInt_def jNat_def toStr_def vInt_def vStr_def vBool_def vTopic_def vWriter_def vChain_def vCode_def vArr_def jArr_def isObject_def obj_def objEntries_def vMap_def name_ok_def arrElems_def
      toMode_def mode_js_def isSafeInteger_def split: GrantMode.split)

lemma nat_simps [simp]: "toNat (jNat n) = n" "vNonNeg (jNat n) \<longleftrightarrow> safe n" "vPos (jNat n) \<longleftrightarrow> pos n"
  by (auto simp: toNat_def jNat_def vNonNeg_def vPos_def)

lemma toOpt_jOpt [simp]: "(\<And>x. g x \<noteq> JUndef) \<Longrightarrow> toOpt h (jOpt g v) = map_option (\<lambda>x. h (g x)) v"
  by (cases v) (simp_all add: toOpt_def jOpt_def)

lemma vOpt_jOpt [simp]: "vOpt f (jOpt g v) \<longleftrightarrow> pred_option (\<lambda>x. g x \<noteq> JUndef \<longrightarrow> f (g x)) v"
  by (cases v) (simp_all add: vOpt_def jOpt_def)

lemma option_ident [simp]: "map_option (\<lambda>x. x) v = v" "pred_option (\<lambda>x. True) u"
  by (rule option.map_ident) (cases u; simp)

lemma mode_cases: "mode_js g = JStr ''full'' \<or> mode_js g = JStr ''serve'' \<or> mode_js g = JStr ''none''"
  by (cases g) (simp_all add: mode_js_def)

lemma within_jNat [simp]: "vWithin (jNat a) (jNat b) \<longleftrightarrow> pos a \<and> pos b \<and> a \<le> b"
proof -
  have "(case (jNat a, jNat b) of (JNum x, JNum y) \<Rightarrow> nat_of_num x \<le> nat_of_num y | _ \<Rightarrow> False) \<longleftrightarrow> a \<le> b"
    by (simp add: jNat_def)
  then show ?thesis unfolding vWithin_def by auto
qed

lemma vec_read: "wf_vec e \<Longrightarrow> vHaveWriter (vecEntry_js e) \<and> toVecEntry (vecEntry_js e) = e"
  by (cases e) (auto simp: wf_vec_def vHaveWriter_def toVecEntry_def vecEntry_js_def getProp_obj split: option.split option.splits)

lemma topicVec_read:
  assumes "TOPIC_RE t" "pred_option safe (fgen v)" "\<forall>(w, e) \<in> set (writers v). WRITER_RE w \<and> name_ok w \<and> wf_vec e"
  shows "vTopicVec (t, topicVec_js v) \<and> toTopicVec (topicVec_js v) = v"
proof -
  have props: "getProp (topicVec_js v) ''fgen'' = jOpt jNat (fgen v)"
    "getProp (topicVec_js v) ''writers'' = JObj (map (\<lambda>(w, e). (w, vecEntry_js e)) (writers v))" "isObject (topicVec_js v)"
    by (simp_all add: topicVec_js_def getProp_obj)
  have "map (\<lambda>(w, e). (w, toVecEntry e)) (map (\<lambda>(w, e). (w, vecEntry_js e)) (writers v)) = writers v"
    using assms(3) vec_read by (auto intro!: map_idI)
  then show ?thesis
    using assms vec_read by (auto simp: vTopicVec_def toTopicVec_def props list_all_iff)
qed

lemma vectors_read:
  assumes "wf_vectors vs"
  shows "vMap (vectors_js vs) \<and> list_all vTopicVec (objEntries (vectors_js vs)) \<and>
    map (\<lambda>(k, v). (k, toTopicVec v)) (objEntries (vectors_js vs)) = vs"
proof -
  have each: "vTopicVec (t, topicVec_js v) \<and> toTopicVec (topicVec_js v) = v \<and> name_ok t" if "(t, v) \<in> set vs" for t v
    using assms that topicVec_read [of t v] by (auto simp: wf_vectors_def)
  have "map (\<lambda>(k, v). (k, toTopicVec v)) (map (\<lambda>(k, v). (k, topicVec_js v)) vs) = vs"
    using each by (auto intro!: map_idI)
  then show ?thesis using each by (auto simp: vectors_js_def list_all_iff)
qed

lemma cut_read: "wf_cut c \<Longrightarrow> vCut (cut_js c) \<and> toCut (cut_js c) = c"
  by (auto simp: wf_cut_def vCut_def toCut_def cut_js_def list_all_iff getProp_def isObject_def vNonNeg_def vStr_def toNat_def toStr_def
      intro!: map_idI)

section \<open>Every message passes the gate unchanged\<close>

lemma jArr_read: "(\<And>x. x \<in> set xs \<Longrightarrow> h (g x) = x) \<Longrightarrow> map h (arrElems (jArr g xs)) = xs"
  by (simp add: map_idI)

lemma read_some: "getProp (msg_js m) ''t'' = JStr (msgType m)" "isObject (msg_js m)"
  by (simp_all add: msg_js_def getProp_def obj_def)

lemma known_type: "msgType m \<in> set ALL_TYPES" "msgType m \<in> set DATA_TYPES \<longleftrightarrow> isData m"
  by (cases m; simp add: msgType_def ALL_TYPES_def DATA_TYPES_def isData_def)+

lemmas read_defs = msg_js_def msgType_def msgProps_def wf_msg_def validateShape_def msg_of_def Let_def getProp_obj

lemma msg_read: "wf_msg m \<Longrightarrow> validateShape (msgType m) (msg_js m) \<and> msg_of (msgType m) (msg_js m) = m"
proof (cases m)
  case (HELLO a b node gs gen ack)
  moreover assume "wf_msg m"
  ultimately have gs: "\<forall>(t, g) \<in> set gs. TOPIC_RE t \<and> name_ok t" by (simp add: wf_msg_def)
  have "map (\<lambda>(k, g). (k, toMode (getProp g ''mode''), toStr (getProp g ''schemaHash'')))
      (map (\<lambda>(k, mode, h). (k, obj [(''mode'', mode_js mode), (''schemaHash'', JStr h)])) gs) = gs"
    by (auto simp: getProp_obj intro!: map_idI)
  moreover have "list_all vGrant (map (\<lambda>(k, mode, h). (k, obj [(''mode'', mode_js mode), (''schemaHash'', JStr h)])) gs)"
    using gs mode_cases by (fastforce simp: list_all_iff vGrant_def getProp_obj)
  ultimately show ?thesis using HELLO \<open>wf_msg m\<close> gs by (auto simp: read_defs list_all_iff)
next
  case (HAVE r p n vs)
  moreover assume "wf_msg m"
  ultimately have "wf_vectors vs" by (simp add: wf_msg_def)
  then show ?thesis using HAVE \<open>wf_msg m\<close> vectors_read [of vs] by (simp add: read_defs)
qed (auto simp: read_defs cut_read list_all_iff MAX_PROBE_SEQS_def jArr_read intro!: map_idI)

section \<open>What passes the gate is well formed\<close>

lemma read_inv:
  "vNonNeg v \<Longrightarrow> safe (toNat v)" "vPos v \<Longrightarrow> pos (toNat v)" "vInt v \<Longrightarrow> safe_int (toInt v)"
  "vTopic v \<Longrightarrow> TOPIC_RE (toStr v)" "vWriter v \<Longrightarrow> WRITER_RE (toStr v)" "vChain v \<Longrightarrow> CHAIN_RE (toStr v)"
  "vCode v \<Longrightarrow> toStr v \<noteq> []" "vWithin v u \<Longrightarrow> toNat v \<le> toNat u"
proof -
  have nn: "nat_of_num n \<le> MAX_SAFE_INTEGER" if "isSafeInteger n" "\<not> num_less n 0" for n
    using nonNegSafe_eq(2) that by (simp add: nonNegSafe_def)
  have p: "0 < nat_of_num n \<and> \<not> num_less n 0" if n: "isSafeInteger n" "\<not> num_less n 1" for n
  proof -
    have "\<not> num_less n 0" using n(2) by (cases n) (auto simp: num_less_def)
    then have "n = num_of_nat (nat_of_num n)" using nonNegSafe_eq(1) n by (simp add: nonNegSafe_def)
    then have "\<not> num_less (num_of_nat (nat_of_num n)) 1" using n(2) by simp
    then show ?thesis using \<open>\<not> num_less n 0\<close> by simp
  qed
  show "vNonNeg v \<Longrightarrow> safe (toNat v)" using nn by (auto simp: vNonNeg_def toNat_def split: jsval.splits)
  show "vPos v \<Longrightarrow> pos (toNat v)" using nn p by (auto simp: vPos_def toNat_def split: jsval.splits)
  show "vInt v \<Longrightarrow> safe_int (toInt v)"
    by (auto simp: vInt_def toInt_def isSafeInteger_def split: jsval.splits jsnum.splits)
qed (auto simp: vTopic_def vWriter_def vChain_def vCode_def vWithin_def toStr_def toNat_def split: jsval.splits)

lemma within_inv:
  assumes "vWithin v u"
  shows "0 < toNat v" "toNat v \<le> MAX_SAFE_INTEGER" "0 < toNat u" "toNat u \<le> MAX_SAFE_INTEGER"
proof -
  have "vPos v" "vPos u" using assms by (simp_all add: vWithin_def)
  then show "0 < toNat v" "toNat v \<le> MAX_SAFE_INTEGER" "0 < toNat u" "toNat u \<le> MAX_SAFE_INTEGER"
    using read_inv(2) by simp_all
qed

lemma opt_inv: "vOpt f v \<Longrightarrow> (f v \<Longrightarrow> P (g v)) \<Longrightarrow> pred_option P (toOpt g v)"
  by (auto simp: vOpt_def toOpt_def)

lemma vMap_keys: "vMap v \<Longrightarrow> p \<in> set (objEntries v) \<Longrightarrow> name_ok (fst p)"
  by (auto simp: vMap_def name_ok_def list_all_iff)

lemma vec_inv: "vHaveWriter w \<Longrightarrow> wf_vec (toVecEntry w)"
  by (auto simp: vHaveWriter_def toVecEntry_def wf_vec_def read_inv opt_inv split: if_splits)

lemma vectors_inv:
  assumes "vMap v" "list_all vTopicVec (objEntries v)"
  shows "wf_vectors (map (\<lambda>(k, v). (k, toTopicVec v)) (objEntries v))"
proof -
  have "TOPIC_RE t \<and> name_ok t \<and> pred_option safe (fgen (toTopicVec x)) \<and>
      (\<forall>(w, e) \<in> set (writers (toTopicVec x)). WRITER_RE w \<and> name_ok w \<and> wf_vec e)" if x: "(t, x) \<in> set (objEntries v)" for t x
  proof -
    have tv: "vTopicVec (t, x)" using assms(2) x by (auto simp: list_all_iff)
    have "name_ok (fst (w, e))" if "(w, e) \<in> set (objEntries (getProp x ''writers''))" for w e
      using tv that by (intro vMap_keys) (auto simp: vTopicVec_def)
    then show ?thesis
      using tv vMap_keys [OF assms(1) x]
      by (auto simp: vTopicVec_def toTopicVec_def list_all_iff vec_inv opt_inv read_inv vTopic_def vWriter_def)
  qed
  then show ?thesis by (fastforce simp: wf_vectors_def)
qed

lemma cut_inv: "vCut v \<Longrightarrow> wf_cut (toCut v)"
  by (auto simp: vCut_def wf_cut_def toCut_def list_all_iff read_inv dest: vMap_keys)

lemma grants_inv:
  "vMap v \<Longrightarrow> list_all vGrant (objEntries v) \<Longrightarrow> (t, g) \<in> set (objEntries v) \<Longrightarrow> TOPIC_RE t \<and> name_ok t"
  using vMap_keys [of v "(t, g)"] by (auto simp: list_all_iff vGrant_def vTopic_def)

lemma gate:
  assumes "t \<in> set ALL_TYPES" "t \<in> set DATA_TYPES \<Longrightarrow> vInt (getProp v ''mid'')" "validateShape t v"
  shows "wf_msg (msg_of t v) \<and> msgType (msg_of t v) = t"
proof -
  have "t = ''HELLO'' \<or> t = ''HAVE_GET'' \<or> t = ''HAVE'' \<or> t = ''WANT'' \<or> t = ''ENTRIES'' \<or> t = ''PROBE'' \<or> t = ''PROBE_RES'' \<or>
    t = ''TRUNCATED'' \<or> t = ''FINALITY'' \<or> t = ''WRITER_DIRECTIVE'' \<or> t = ''SNAPSHOT_OFFER'' \<or> t = ''SNAPSHOT_GET'' \<or> t = ''SNAPSHOT'' \<or>
    t = ''SUB'' \<or> t = ''SNAP'' \<or> t = ''DELTA'' \<or> t = ''UNSUB'' \<or> t = ''SUB_ERR'' \<or> t = ''ACK'' \<or> t = ''ERR''"
    using assms(1) unfolding ALL_TYPES_def by simp
  then show ?thesis
    using assms(2,3)
    by (elim disjE; hypsubst_thin)
      (auto simp: validateShape_def msg_of_def wf_msg_def msgType_def DATA_TYPES_def MAX_PROBE_SEQS_def Let_def list_all_iff
        read_inv opt_inv vectors_inv cut_inv grants_inv isRow_def within_inv intro!: opt_inv)
qed

text \<open>C39. The wire gate admits only well-formed messages. Whatever bytes arrive, when \<^verbatim>\<open>parseMsg\<close> returns a
  message, the frame is within \<^verbatim>\<open>MAX_FRAME_BYTES\<close>, and the message has valid topics, writers and hashes, numbers in their
  ranges, page and chunk numbers between 1 and their total, at most 64 probe points, structurally
  valid certificates and directives, and no map with the key \<^verbatim>\<open>__proto__\<close>.
\<close>

theorem parsed_message_wf:
  assumes "parseMsg J K raw = Inr m"
  shows "wf_msg m \<and> utf8ByteLength raw \<le> MAX_FRAME_BYTES K"
  using assms gate by (fastforce simp: parseMsg_def split: if_splits option.splits jsval.splits)

lemma parse_serialized:
  assumes "wf_msg m" "jsonParse J (jsonStringify J (msg_js m)) = Some (msg_js m)" "serializeMsg J K m = Inr raw"
  shows "parseMsg J K raw = Inr m"
proof -
  have raw: "raw = jsonStringify J (msg_js m)" "utf8ByteLength raw \<le> MAX_FRAME_BYTES K"
    using assms(3) by (auto simp: serializeMsg_def Let_def split: if_splits)
  have "isData m \<Longrightarrow> vInt (getProp (msg_js m) ''mid'')"
    using assms(1) by (cases m) (simp_all add: isData_def read_defs)
  then show ?thesis
    using msg_read [OF assms(1)] raw assms(2) known_type [of m] read_some [of m]
    by (simp add: parseMsg_def)
qed

text \<open>C40. The wire round trip. Whenever a sender can serialize a well-formed message, the receiver with the
  same frame limit parses that frame to the same message: no field is checked more strictly than it
  is produced, and no optional field is lost. (\<^verbatim>\<open>JSON.parse\<close> inverts \<^verbatim>\<open>JSON.stringify\<close> on
  the object of the message.)
\<close>

theorem wire_roundtrip:
  assumes "wf_msg m" "jsonParse J (jsonStringify J (msg_js m)) = Some (msg_js m)" "serializeMsg J K m = Inr raw"
  shows "parseMsg J K raw = Inr m"
  by (rule parse_serialized [OF assms])

definition demo_json :: WireJson where
  "demo_json = \<lparr>jsonParse = (\<lambda>s. Some (msg_js (WANT 3 ''t'' ''w'' 7))), jsonStringify = (\<lambda>v. ''frame'')\<rparr>"

theorem wire_roundtrip_witness: "parseMsg demo_json DEFAULT_CONSTANTS ''frame'' = Inr (WANT 3 ''t'' ''w'' 7)"
proof -
  have "wf_msg (WANT 3 ''t'' ''w'' 7)"
    by (simp add: wf_msg_def TOPIC_RE_def WRITER_RE_def topic_char_def writer_char_def MAX_SAFE_INTEGER_def)
  moreover have "serializeMsg demo_json DEFAULT_CONSTANTS (WANT 3 ''t'' ''w'' 7) = Inr ''frame''"
    by (simp add: serializeMsg_def demo_json_def DEFAULT_CONSTANTS_def utf8ByteLength_def)
  ultimately show ?thesis
    using wire_roundtrip [of "WANT 3 ''t'' ''w'' 7" demo_json DEFAULT_CONSTANTS "''frame''"] by (simp add: demo_json_def)
qed

theorem parsed_message_wf_witness: "wf_msg (HAVE_GET 4)"
proof -
  let ?J = "\<lparr>jsonParse = (\<lambda>s. Some (msg_js (HAVE_GET 4))), jsonStringify = (\<lambda>v. ''frame'')\<rparr>"
  have "getProp (msg_js (HAVE_GET 4)) ''t'' = JStr ''HAVE_GET''" "getProp (msg_js (HAVE_GET 4)) ''req'' = jInt 4"
    by (simp_all add: read_defs)
  then have "parseMsg ?J DEFAULT_CONSTANTS ''frame'' = Inr (HAVE_GET 4)"
    by (simp add: parseMsg_def DEFAULT_CONSTANTS_def utf8ByteLength_def read_some(2) ALL_TYPES_def DATA_TYPES_def validateShape_def
      msg_of_def Let_def MAX_SAFE_INTEGER_def)
  from parsed_message_wf [OF this] show ?thesis ..
qed

end
