(* ===== verification/Session.thy ===== *)
theory Session
  imports Messages Log_State
begin

text \<open>
  \<^verbatim>\<open>src/session.ts\<close>: one channel to a peer. The channel is a list of frames handed to it
  (\<open>ss_out\<close>, with the message each frame serializes) and a closed flag; timers are flags, their
  firing is an operation. The callbacks of \<^verbatim>\<open>SessionOpts\<close> are parameters: functions on the pair of the
  session and the world outside, so a callback may call back into the session. What is called
  on a throw is explicit: an operation returns \<open>Inl\<close> the code and the state it left.
\<close>

section \<open>Operations that may throw\<close>

definition sthen :: "unit result \<times> 's \<Rightarrow> ('s \<Rightarrow> unit result \<times> 's) \<Rightarrow> unit result \<times> 's" where
  "sthen x f = (case x of (Inl e, s) \<Rightarrow> (Inl e, s) | (Inr _, s) \<Rightarrow> f s)"

fun seach :: "('a \<Rightarrow> 's \<Rightarrow> unit result \<times> 's) \<Rightarrow> 'a list \<Rightarrow> 's \<Rightarrow> unit result \<times> 's" where
  "seach f [] s = (Inr (), s)"
| "seach f (x # xs) s = sthen (f x s) (seach f xs)"

definition ok :: "'s \<Rightarrow> unit result \<times> 's" where
  "ok s = (Inr (), s)"

section \<open>State\<close>

definition PROTO_MIN :: nat where "PROTO_MIN = 1"
definition PROTO_MAX :: nat where "PROTO_MAX = 3"

datatype SessionState = SAttached | SReady | SClosed

datatype SessionCloseReason = CR_hello_timeout | CR_transport | CR_protocol | CR_stall | CR_detach | CR_node_closed

datatype PeerLifecycleEvent = LAttached | LReady | LClosed SessionCloseReason

datatype PeerClass = PContent | PMetadata

datatype ReqMake = RHello | RMsg WireMsg

record Unacked =
  un_mid :: nat
  un_at :: nat
  un_msg :: WireMsg
  un_frame :: string
  un_sentAt :: nat

record Session =
  ss_peerId :: string
  ss_peerClass :: PeerClass
  ss_grants :: "(string \<times> GrantMode) list"
  ss_proto :: nat
  ss_peerNode :: "string option"
  ss_state :: SessionState
  ss_closeReason :: "SessionCloseReason option"
  ss_lifecycle :: "PeerLifecycleEvent list"
  ss_peerGrants :: WireGrants
  ss_grantsGen :: nat
  ss_peerGrantsGen :: nat
  ss_refused :: "string list"
  ss_nextMid :: nat
  ss_unacked :: "Unacked list"
  ss_outQueue :: "(nat \<Rightarrow> WireMsg) list"
  ss_retryTimer :: bool
  ss_ackProgressAt :: nat
  ss_recvContig :: nat
  ss_recvBuffer :: "(int \<times> WireMsg) list"
  ss_preReady :: "WireMsg list"
  ss_requests :: "(string \<times> (ReqMake \<times> bool)) list"
  ss_helloTimer :: bool
  ss_stallTimer :: bool
  ss_out :: "(WireMsg \<times> string) list"       \<comment> \<open>frames handed to the channel\<close>
  ss_sent :: "WireMsg list"                         \<comment> \<open>data messages in the order they got their mids\<close>
  ss_shut :: bool                                   \<comment> \<open>\<open>channel.close\<close> was called\<close>
  ss_delivered :: "WireMsg list"                    \<comment> \<open>calls of \<open>onData\<close>\<close>

type_synonym 'w SW = "Session \<times> 'w"

record 'w SessionCb =
  cb_onReady :: "'w SW \<Rightarrow> unit result \<times> 'w SW"
  cb_onClose :: "'w SW \<Rightarrow> 'w SW"
  cb_onControl :: "WireMsg \<Rightarrow> 'w SW \<Rightarrow> unit result \<times> 'w SW"
  cb_onData :: "WireMsg \<Rightarrow> 'w SW \<Rightarrow> unit result \<times> 'w SW"
  cb_onCapacity :: "'w SW \<Rightarrow> unit result \<times> 'w SW"
  cb_onGrantsUpdated :: "'w SW \<Rightarrow> unit result \<times> 'w SW"

definition onSess :: "(Session \<Rightarrow> unit result \<times> Session) \<Rightarrow> 'w SW \<Rightarrow> unit result \<times> 'w SW" where
  "onSess f x = (case f (fst x) of (r, s) \<Rightarrow> (r, s, snd x))"

definition upd :: "(Session \<Rightarrow> Session) \<Rightarrow> 'w SW \<Rightarrow> 'w SW" where
  "upd f x = (f (fst x), snd x)"

definition errName :: "ErrCode \<Rightarrow> string" where
  "errName c = (case c of ERR_PROTO_VERSION \<Rightarrow> ''ERR_PROTO_VERSION'' | ERR_PROTOCOL \<Rightarrow> ''ERR_PROTOCOL''
     | ERR_SCHEMA_MISMATCH \<Rightarrow> ''ERR_SCHEMA_MISMATCH'' | ERR_ACL_DENIED \<Rightarrow> ''ERR_ACL_DENIED'' | ERR_UNKNOWN_TOPIC \<Rightarrow> ''ERR_UNKNOWN_TOPIC''
     | ERR_UNKNOWN_VIEW \<Rightarrow> ''ERR_UNKNOWN_VIEW'' | ERR_FUTURE_CURSOR \<Rightarrow> ''ERR_FUTURE_CURSOR''
     | ERR_ENTRY_TOO_LARGE \<Rightarrow> ''ERR_ENTRY_TOO_LARGE'' | ERR_ENTRY_ENCODING \<Rightarrow> ''ERR_ENTRY_ENCODING''
     | ERR_PRE_FINALITY \<Rightarrow> ''ERR_PRE_FINALITY'' | ERR_OWNED_REJECT \<Rightarrow> ''ERR_OWNED_REJECT'' | ERR_WRITER_SEALED \<Rightarrow> ''ERR_WRITER_SEALED''
     | ERR_DB_OWNED \<Rightarrow> ''ERR_DB_OWNED'' | ERR_STORAGE \<Rightarrow> ''ERR_STORAGE'' | ERR_MISUSE \<Rightarrow> ''ERR_MISUSE'')"

definition errMsg :: "ErrCode \<Rightarrow> string option \<Rightarrow> string option \<Rightarrow> WireMsg" where
  "errMsg c ref' detail = ERR (errName c) ref' detail"

section \<open>Grants\<close>

definition assertGrants :: "LogEnv \<Rightarrow> PeerClass \<Rightarrow> (string \<times> GrantMode) list \<Rightarrow> unit result" where
  "assertGrants E cls gs = fst (seach (\<lambda>(topic, mode) _.
     case reg_get (registry E) topic of
       Inl e \<Rightarrow> (Inl e, ())
     | Inr te \<Rightarrow>
         if mode = GNone then (Inr (), ())
         else if cls = PMetadata \<and> p_access (te_policy te) = ''content'' then (Inl ERR_MISUSE, ())
         else if mode = GFull \<and> p_replication (te_policy te) = ''subscribe-only'' then (Inl ERR_MISUSE, ())
         else (Inr (), ())) gs ())"

definition mutualFull :: "Session \<Rightarrow> string \<Rightarrow> bool" where
  "mutualFull s topic \<longleftrightarrow> ss_state s = SReady \<and> topic \<notin> set (ss_refused s) \<and>
     map_of (ss_grants s) topic = Some GFull \<and> map_option fst (map_of (ss_peerGrants s) topic) = Some GFull"

definition peerMaySub :: "Session \<Rightarrow> string \<Rightarrow> bool" where
  "peerMaySub s topic \<longleftrightarrow> ss_state s = SReady \<and> map_of (ss_grants s) topic \<in> {Some GFull, Some GServe}"

definition helloMsg :: "LogEnv \<Rightarrow> Session \<Rightarrow> WireMsg result" where
  "helloMsg E s = rbind (foldr (\<lambda>(topic, mode) acc. rbind (reg_get (registry E) topic) (\<lambda>te.
       rbind acc (\<lambda>gs. Inr ((topic, mode, te_schemaHash te) # gs)))) (ss_grants s) (Inr []))
     (\<lambda>gs. Inr (HELLO PROTO_MIN PROTO_MAX (selfId E) gs (Some (ss_grantsGen s)) None))"

section \<open>The control lane\<close>

definition sendControl :: "WireJson \<Rightarrow> LogEnv \<Rightarrow> WireMsg \<Rightarrow> Session \<Rightarrow> unit result \<times> Session" where
  "sendControl J E m s = (if ss_state s = SClosed then ok s
     else case serializeMsg J (constants E) m of
       Inl e \<Rightarrow> (Inl e, s)
     | Inr raw \<Rightarrow> ok (s\<lparr>ss_out := ss_out s @ [(m, raw)]\<rparr>))"

definition makeReq :: "LogEnv \<Rightarrow> ReqMake \<Rightarrow> Session \<Rightarrow> WireMsg result" where
  "makeReq E r s = (case r of RHello \<Rightarrow> helloMsg E s | RMsg m \<Rightarrow> Inr m)"

definition cancelRequest :: "string \<Rightarrow> Session \<Rightarrow> Session" where
  "cancelRequest key s = s\<lparr>ss_requests := AList.delete key (ss_requests s)\<rparr>"

text \<open>\<open>fire\<close>: send, then arm the retry timer of the request.\<close>

definition fireRequest :: "WireJson \<Rightarrow> LogEnv \<Rightarrow> string \<Rightarrow> ReqMake \<Rightarrow> Session \<Rightarrow> unit result \<times> Session" where
  "fireRequest J E key r s = (case makeReq E r s of
     Inl e \<Rightarrow> (Inl e, s)
   | Inr m \<Rightarrow> sthen (sendControl J E m s) (\<lambda>s.
       ok (if map_of (ss_requests s) key = None then s
           else s\<lparr>ss_requests := AList.update key (r, True) (ss_requests s)\<rparr>)))"

definition request :: "WireJson \<Rightarrow> LogEnv \<Rightarrow> string \<Rightarrow> ReqMake \<Rightarrow> Session \<Rightarrow> unit result \<times> Session" where
  "request J E key r s = (if ss_state s = SClosed then ok s
     else fireRequest J E key r ((cancelRequest key s)\<lparr>ss_requests := ss_requests (cancelRequest key s) @ [(key, r, False)]\<rparr>))"

definition satisfyRequest :: "string \<Rightarrow> Session \<Rightarrow> Session" where
  "satisfyRequest key s = cancelRequest key s"

text \<open>The retry timer of a request fires. A throw leaves the request without a timer.\<close>

definition requestTimer :: "WireJson \<Rightarrow> LogEnv \<Rightarrow> string \<Rightarrow> Session \<Rightarrow> unit result \<times> Session" where
  "requestTimer J E key s = (case map_of (ss_requests s) key of
     Some (r, True) \<Rightarrow> fireRequest J E key r (s\<lparr>ss_requests := AList.update key (r, False) (ss_requests s)\<rparr>)
   | _ \<Rightarrow> ok s)"

section \<open>The data lane, sender side\<close>

definition armRetry :: "Session \<Rightarrow> Session" where
  "armRetry s = (if ss_unacked s \<noteq> [] \<and> \<not> ss_retryTimer s then s\<lparr>ss_retryTimer := True\<rparr> else s)"

text \<open>Transmit from the queue while there are credits. The mid is taken before the frame is serialized.\<close>

fun pumpQueue :: "WireJson \<Rightarrow> LogEnv \<Rightarrow> nat \<Rightarrow> (nat \<Rightarrow> WireMsg) list \<Rightarrow> Session \<Rightarrow> unit result \<times> Session" where
  "pumpQueue J E now [] s = ok (s\<lparr>ss_outQueue := []\<rparr>)"
| "pumpQueue J E now (mk # rest) s = (
     if ss_state s = SClosed \<or> length (ss_unacked s) \<ge> INFLIGHT_CREDITS (constants E)
     then ok (s\<lparr>ss_outQueue := mk # rest\<rparr>)
     else let mid = ss_nextMid s; s1 = s\<lparr>ss_nextMid := mid + 1, ss_outQueue := rest\<rparr>
          in (case serializeMsg J (constants E) (mk mid) of
               Inl e \<Rightarrow> (Inl e, s1)
             | Inr raw \<Rightarrow> pumpQueue J E now rest (s1\<lparr>
                 ss_unacked := ss_unacked s @ [\<lparr>un_mid = mid, un_at = now, un_msg = mk mid, un_frame = raw, un_sentAt = now\<rparr>],
                 ss_out := ss_out s @ [(mk mid, raw)], ss_sent := ss_sent s @ [mk mid]\<rparr>)))"

definition pumpData :: "WireJson \<Rightarrow> LogEnv \<Rightarrow> nat \<Rightarrow> Session \<Rightarrow> unit result \<times> Session" where
  "pumpData J E now s = sthen (pumpQueue J E now (ss_outQueue s) s) (\<lambda>s. ok (armRetry s))"

text \<open>The answer of \<open>sendData\<close> is False when the message was dropped at the tail of the queue.\<close>

definition sendData :: "WireJson \<Rightarrow> LogEnv \<Rightarrow> nat \<Rightarrow> (nat \<Rightarrow> WireMsg) \<Rightarrow> Session \<Rightarrow> bool result \<times> Session" where
  "sendData J E now mk s = (
     if ss_state s = SClosed \<or> length (ss_outQueue s) \<ge> SEND_QUEUE_CAP (constants E) then (Inr False, s)
     else case pumpData J E now (s\<lparr>ss_outQueue := ss_outQueue s @ [mk]\<rparr>) of
       (Inl e, s') \<Rightarrow> (Inl e, s')
     | (Inr _, s') \<Rightarrow> (Inr True, s'))"

definition hasSendCapacity :: "LogEnv \<Rightarrow> Session \<Rightarrow> bool" where
  "hasSendCapacity E s \<longleftrightarrow> ss_state s = SReady \<and> length (ss_outQueue s) < SEND_QUEUE_CAP (constants E)"

definition queuedData :: "Session \<Rightarrow> nat" where
  "queuedData s = length (ss_outQueue s) + length (ss_unacked s)"

text \<open>The retry timer of the data lane fires: every frame that has waited long enough is sent again.\<close>

definition overdue :: "LogEnv \<Rightarrow> nat \<Rightarrow> Unacked \<Rightarrow> bool" where
  "overdue E now u \<longleftrightarrow> int now - int (un_sentAt u) \<ge> int (CONTROL_RETRY_MS (constants E))"

definition retryUnacked :: "LogEnv \<Rightarrow> nat \<Rightarrow> Session \<Rightarrow> Session" where
  "retryUnacked E now s = (let s0 = s\<lparr>ss_retryTimer := False\<rparr> in
     if ss_state s = SClosed then s0
     else armRetry (s0\<lparr>
       ss_unacked := map (\<lambda>u. if overdue E now u then u\<lparr>un_sentAt := now\<rparr> else u) (ss_unacked s),
       ss_out := ss_out s @ map (\<lambda>u. (un_msg u, un_frame u)) (filter (overdue E now) (ss_unacked s))\<rparr>))"

section \<open>Lifecycle\<close>

definition violationCode :: "Session \<Rightarrow> ErrCode" where
  "violationCode s = (if ss_proto s \<ge> 2 then ERR_PROTOCOL else ERR_ENTRY_ENCODING)"

text \<open>\<open>close\<close>: the state, the timers and requests, the channel; then the callback.\<close>

definition closeSession :: "SessionCloseReason \<Rightarrow> Session \<Rightarrow> Session" where
  "closeSession reason s = s\<lparr>ss_state := SClosed, ss_closeReason := Some reason, ss_requests := [], ss_helloTimer := False,
     ss_stallTimer := False, ss_retryTimer := False, ss_shut := True, ss_lifecycle := ss_lifecycle s @ [LClosed reason]\<rparr>"

definition close :: "'w SessionCb \<Rightarrow> SessionCloseReason \<Rightarrow> 'w SW \<Rightarrow> 'w SW" where
  "close C reason x = (if ss_state (fst x) = SClosed then x else cb_onClose C (upd (closeSession reason) x))"

definition helloTimeout :: "'w SessionCb \<Rightarrow> 'w SW \<Rightarrow> 'w SW" where
  "helloTimeout C x = (if ss_helloTimer (fst x) then close C CR_hello_timeout x else x)"

definition stallCheck :: "'w SessionCb \<Rightarrow> LogEnv \<Rightarrow> nat \<Rightarrow> 'w SW \<Rightarrow> 'w SW" where
  "stallCheck C E now x = (let s = fst x in
     if ss_state s = SClosed then x
     else case ss_unacked s of
       [] \<Rightarrow> upd (\<lambda>s. s\<lparr>ss_stallTimer := True\<rparr>) x
     | oldest # _ \<Rightarrow>
         if int now - int (max (un_at oldest) (ss_ackProgressAt s)) > int (CHANNEL_STALL_MS (constants E))
         then close C CR_stall x
         else upd (\<lambda>s. s\<lparr>ss_stallTimer := True\<rparr>) x)"

definition emptySession :: "string \<Rightarrow> PeerClass \<Rightarrow> (string \<times> GrantMode) list \<Rightarrow> Session" where
  "emptySession peerId cls gs = \<lparr>ss_peerId = peerId, ss_peerClass = cls, ss_grants = gs, ss_proto = 1, ss_peerNode = None,
     ss_state = SAttached, ss_closeReason = None, ss_lifecycle = [LAttached], ss_peerGrants = [], ss_grantsGen = 0,
     ss_peerGrantsGen = 0, ss_refused = [], ss_nextMid = 1, ss_unacked = [], ss_outQueue = [], ss_retryTimer = False,
     ss_ackProgressAt = 0, ss_recvContig = 0, ss_recvBuffer = [], ss_preReady = [], ss_requests = [], ss_helloTimer = False,
     ss_stallTimer = False, ss_out = [], ss_sent = [], ss_shut = False, ss_delivered = []\<rparr>"

definition newSession :: "WireJson \<Rightarrow> LogEnv \<Rightarrow> string \<Rightarrow> PeerClass \<Rightarrow> (string \<times> GrantMode) list \<Rightarrow> Session result" where
  "newSession J E peerId cls gs = rbind (assertGrants E cls gs) (\<lambda>_.
     case request J E ''HELLO'' RHello (emptySession peerId cls gs) of
       (Inl e, _) \<Rightarrow> Inl e
     | (Inr _, s) \<Rightarrow> Inr (s\<lparr>ss_helloTimer := True, ss_stallTimer := True\<rparr>))"

section \<open>Negotiation\<close>

definition refusedNow :: "LogEnv \<Rightarrow> Session \<Rightarrow> string list result" where
  "refusedNow E s = foldr (\<lambda>(topic, mine) acc.
     if mine \<noteq> GFull then acc
     else case map_of (ss_peerGrants s) topic of
       Some (GFull, h) \<Rightarrow> rbind (reg_get (registry E) topic) (\<lambda>te. rbind acc (\<lambda>ts.
         Inr (if h \<noteq> te_schemaHash te then topic # ts else ts)))
     | _ \<Rightarrow> acc) (ss_grants s) (Inr [])"

definition recomputeRefusals :: "WireJson \<Rightarrow> LogEnv \<Rightarrow> Session \<Rightarrow> unit result \<times> Session" where
  "recomputeRefusals J E s = (case refusedNow E s of
     Inl e \<Rightarrow> (Inl e, s)
   | Inr next' \<Rightarrow>
       sthen (seach (\<lambda>t. sendControl J E (errMsg ERR_SCHEMA_MISMATCH (Some t) None))
           (filter (\<lambda>t. t \<notin> set (ss_refused s)) next') s)
         (\<lambda>s. ok (s\<lparr>ss_refused := next'\<rparr>)))"

definition updateGrants ::
  "'w SessionCb \<Rightarrow> WireJson \<Rightarrow> LogEnv \<Rightarrow> (string \<times> GrantMode) list \<Rightarrow> 'w SW \<Rightarrow> unit result \<times> 'w SW" where
  "updateGrants C J E gs x = (
     if ss_state (fst x) = SClosed then (Inl ERR_MISUSE, x)
     else case assertGrants E (ss_peerClass (fst x)) gs of
       Inl e \<Rightarrow> (Inl e, x)
     | Inr _ \<Rightarrow>
         sthen (onSess (recomputeRefusals J E) (upd (\<lambda>s. s\<lparr>ss_grants := gs, ss_grantsGen := ss_grantsGen s + 1\<rparr>) x)) (\<lambda>x.
         sthen (onSess (request J E ''HELLO'' RHello) x) (\<lambda>x.
           if ss_state (fst x) = SReady then cb_onGrantsUpdated C x else ok x)))"

section \<open>Inbound data\<close>

text \<open>Deliver the buffered messages in mid order; the buffer's size bounds the loop.\<close>

fun drainBuffer :: "'w SessionCb \<Rightarrow> nat \<Rightarrow> 'w SW \<Rightarrow> unit result \<times> 'w SW" where
  "drainBuffer C 0 x = ok x"
| "drainBuffer C (Suc n) x = (let s = fst x; k = int (ss_recvContig s) + 1 in
     case map_of (ss_recvBuffer s) k of
       None \<Rightarrow> ok x
     | Some m \<Rightarrow> sthen (cb_onData C m (upd (\<lambda>s. s\<lparr>ss_recvBuffer := AList.delete k (ss_recvBuffer s),
           ss_recvContig := ss_recvContig s + 1, ss_delivered := ss_delivered s @ [m]\<rparr>) x)) (drainBuffer C n))"

definition drainData :: "'w SessionCb \<Rightarrow> WireJson \<Rightarrow> LogEnv \<Rightarrow> 'w SW \<Rightarrow> unit result \<times> 'w SW" where
  "drainData C J E x = sthen (drainBuffer C (length (ss_recvBuffer (fst x))) x) (\<lambda>y.
     if ss_recvContig (fst y) > ss_recvContig (fst x)
     then onSess (\<lambda>s. sendControl J E (ACK (ss_recvContig s)) s) y else ok y)"

definition onDataMsg :: "'w SessionCb \<Rightarrow> WireJson \<Rightarrow> LogEnv \<Rightarrow> WireMsg \<Rightarrow> 'w SW \<Rightarrow> unit result \<times> 'w SW" where
  "onDataMsg C J E m x = (let s = fst x in
     if m_mid m \<le> int (ss_recvContig s) then onSess (sendControl J E (ACK (ss_recvContig s))) x
     else if m_mid m > int (ss_recvContig s) + int (INFLIGHT_CREDITS (constants E)) then
       sthen (onSess (sendControl J E (errMsg (violationCode s) None (Some ''beyond credit window''))) x)
         (\<lambda>x. ok (close C CR_protocol x))
     else let x1 = upd (\<lambda>s. s\<lparr>ss_recvBuffer := AList.update (m_mid m) m (ss_recvBuffer s)\<rparr>) x
          in if ss_state s = SReady then drainData C J E x1 else ok x1)"

section \<open>Inbound control\<close>

definition onHelloUpdate :: "'w SessionCb \<Rightarrow> WireJson \<Rightarrow> LogEnv \<Rightarrow> WireMsg \<Rightarrow> 'w SW \<Rightarrow> unit result \<times> 'w SW" where
  "onHelloUpdate C J E m x = (let gen = (case m_grantsGen m of None \<Rightarrow> 0 | Some g \<Rightarrow> g) in
     sthen (if gen > ss_peerGrantsGen (fst x)
       then sthen (onSess (recomputeRefusals J E) (upd (\<lambda>s. s\<lparr>ss_peerGrants := m_grants m, ss_peerGrantsGen := gen\<rparr>) x))
              (cb_onGrantsUpdated C)
       else ok x) (\<lambda>x. case m_ackGen m of
         Some a \<Rightarrow> ok (if a = ss_grantsGen (fst x) then upd (satisfyRequest ''HELLO'') x else x)
       | None \<Rightarrow> (case helloMsg E (fst x) of
           Inl e \<Rightarrow> (Inl e, x)
         | Inr (HELLO a b node gs g _) \<Rightarrow> onSess (sendControl J E (HELLO a b node gs g (Some gen))) x
         | Inr _ \<Rightarrow> ok x)))"

definition onHello :: "'w SessionCb \<Rightarrow> WireJson \<Rightarrow> LogEnv \<Rightarrow> WireMsg \<Rightarrow> 'w SW \<Rightarrow> unit result \<times> 'w SW" where
  "onHello C J E m x = (
     if ss_state (fst x) = SReady then onHelloUpdate C J E m x
     else if ss_state (fst x) \<noteq> SAttached then ok x
     else let proto = min PROTO_MAX (protoMax m) in
       if proto < max PROTO_MIN (protoMin m) then
         sthen (onSess (sendControl J E (errMsg ERR_PROTO_VERSION None None)) x) (\<lambda>x. ok (close C CR_protocol x))
       else
         sthen (onSess (recomputeRefusals J E) (upd (\<lambda>s. s\<lparr>ss_proto := proto, ss_peerNode := Some (m_node m),
             ss_peerGrants := m_grants m, ss_peerGrantsGen := (case m_grantsGen m of None \<Rightarrow> 0 | Some g \<Rightarrow> g)\<rparr>) x)) (\<lambda>x.
         let x1 = upd (\<lambda>s. (satisfyRequest ''HELLO'' s)\<lparr>ss_helloTimer := False, ss_state := SReady,
                ss_lifecycle := ss_lifecycle s @ [LReady]\<rparr>) x
         in sthen (if ss_grantsGen (fst x1) > 0 then onSess (request J E ''HELLO'' RHello) x1 else ok x1) (\<lambda>x.
         sthen (cb_onReady C x) (\<lambda>x.
         sthen (seach (cb_onControl C) (ss_preReady (fst x)) (upd (\<lambda>s. s\<lparr>ss_preReady := []\<rparr>) x)) (drainData C J E)))))"

definition onAck :: "'w SessionCb \<Rightarrow> WireJson \<Rightarrow> LogEnv \<Rightarrow> nat \<Rightarrow> nat \<Rightarrow> 'w SW \<Rightarrow> unit result \<times> 'w SW" where
  "onAck C J E now n x = (let s = fst x; kept = dropWhile (\<lambda>u. un_mid u \<le> n) (ss_unacked s);
       s1 = s\<lparr>ss_unacked := kept, ss_ackProgressAt := (if length kept < length (ss_unacked s) then now else ss_ackProgressAt s)\<rparr>
     in sthen (onSess (pumpData J E now) (s1, snd x)) (\<lambda>x. if hasSendCapacity E (fst x) then cb_onCapacity C x else ok x))"

definition dispatch :: "'w SessionCb \<Rightarrow> WireJson \<Rightarrow> LogEnv \<Rightarrow> nat \<Rightarrow> WireMsg \<Rightarrow> 'w SW \<Rightarrow> unit result \<times> 'w SW" where
  "dispatch C J E now m x = (case m of
     HELLO _ _ _ _ _ _ \<Rightarrow> onHello C J E m x
   | ACK n \<Rightarrow> onAck C J E now n x
   | _ \<Rightarrow> if isData m then onDataMsg C J E m x
          else if ss_state (fst x) \<noteq> SReady then ok (upd (\<lambda>s. s\<lparr>ss_preReady := ss_preReady s @ [m]\<rparr>) x)
          else cb_onControl C m x)"

text \<open>A frame arrives: nothing but the sending of the error itself throws into the channel.\<close>

definition onRaw :: "'w SessionCb \<Rightarrow> WireJson \<Rightarrow> LogEnv \<Rightarrow> nat \<Rightarrow> string \<Rightarrow> 'w SW \<Rightarrow> unit result \<times> 'w SW" where
  "onRaw C J E now raw x = (
     if ss_state (fst x) = SClosed then ok x
     else case parseMsg J (constants E) raw of
       Inl e \<Rightarrow> onSess (sendControl J E (errMsg e None (Some ''unparseable frame''))) x
     | Inr m \<Rightarrow> (case dispatch C J E now m x of
         (Inr _, y) \<Rightarrow> ok y
       | (Inl e, y) \<Rightarrow> onSess (sendControl J E (errMsg e None (Some (msgType m @ '' handler failed''))) ) y))"

end
