(* ===== verification/Sync.thy ===== *)
theory Sync
  imports Session Directives
begin

text \<open>
  \<^verbatim>\<open>src/sync.ts\<close>: the engine that coordinates the sessions of a node. An operation on behalf of
  one peer works on the pair of that peer's session and the engine; the peer is named by the number under
  which it was attached. A \<open>PeerState\<close> outlives its entry in \<open>peers\<close>, as the object does. One clock
  reading serves one event. A promise chain is split at its wait: the synchronous part leaves an entry in
  \<open>en_waits\<close>, the continuation is an operation of its own. What the finality and directive hubs get
  from the wire is recorded; the subscription and snapshot hubs are parameters.
\<close>

section \<open>State\<close>

definition MAX_WANT_CONCURRENT :: nat where "MAX_WANT_CONCURRENT = 4"
definition ENTRIES_BATCH_MAX :: nat where "ENTRIES_BATCH_MAX = 100"
definition SYNC_HOTSPOT_TOP_N :: nat where "SYNC_HOTSPOT_TOP_N = 5"

record TopicSyncCounters =
  servedEntries :: nat
  servedBytes :: nat
  appliedEntries :: nat
  appliedBytes :: nat
  wantRoundsRequested :: nat
  wantRoundsServed :: nat

record WantState =
  wa_topic :: string
  wa_writer :: string
  wa_fromSeq :: nat

record PeerState =
  ps_lastActivity :: nat
  ps_haveReq :: int
  ps_wantReq :: int
  ps_expectedHaveReq :: "int option"
  ps_havePages :: "(nat \<times> WireMsg) list"
  ps_haveBytes :: int
  ps_captured :: "(int \<times> (nat \<times> nat \<times> HaveVectors) list) option"  \<comment> \<open>req; page, of, vectors\<close>
  ps_activeWants :: "(int \<times> WantState) list"
  ps_wantQueue :: "(string \<times> string) list"
  ps_wantedStreams :: "string list"
  ps_recoveryProgress :: "string \<Rightarrow> nat option"
  ps_syncProgress :: "string \<Rightarrow> nat option"
  ps_stalled :: "string list"
  ps_antiEntropyTimer :: bool
  ps_probes :: "string \<Rightarrow> (string \<times> string \<times> nat) option"     \<comment> \<open>what the callback captured\<close>
  ps_known :: "string \<Rightarrow> nat option"
  ps_dirty :: "(string \<times> (string \<times> string \<times> nat)) list"
  ps_pumpTimer :: "nat option"                                      \<comment> \<open>when it fires\<close>
  ps_unservable :: "string list"

datatype SyncAnomaly = SyncHot string string | SyncStalled string string string | FloorUnservable string string string

datatype Wait =
    WEntries nat WireMsg "(nat \<times> nat) list"      \<comment> \<open>peer, message, tickets of the applies with their cost\<close>
  | WFloor nat WireMsg nat "nat option"           \<comment> \<open>peer, message, peer's head, ticket; none: rejected\<close>

record 'h Engine =
  en_now :: nat
  en_log :: LogQueue
  en_peers :: "nat list"
  en_ps :: "nat \<Rightarrow> PeerState"
  en_rejects :: "string \<Rightarrow> ApplyResult option \<Rightarrow> nat"
  en_interval :: "string \<Rightarrow> TopicSyncCounters option"
  en_pairBytes :: "((string \<times> string) \<times> nat) list"
  en_hotStart :: nat
  en_hotBytes :: nat
  en_hotEmitted :: bool
  en_finality :: bool                             \<comment> \<open>\<open>finalityHub\<close> is set\<close>
  en_directives :: bool                           \<comment> \<open>\<open>directiveHub\<close> is set\<close>
  en_acks :: "AckRecorder option"                 \<comment> \<open>set together with \<open>retention\<close>\<close>
  en_ackFault :: bool                             \<comment> \<open>the next transaction of the recorder fails\<close>
  en_meta :: "string \<Rightarrow> (nat \<times> nat \<times> nat) option"  \<comment> \<open>fork evidence: lastCommon, upTo, at\<close>
  en_anomalies :: "SyncAnomaly list"
  en_certCalls :: "jsval list"
  en_directiveCalls :: "jsval list"
  en_waits :: "Wait list"
  en_hubs :: 'h

type_synonym 'h EW = "Session \<times> 'h Engine"

text \<open>The subscription and snapshot hubs, on the peer's session, the log queue and their own state.\<close>

type_synonym 'h HW = "Session \<times> LogQueue \<times> 'h"

record 'h Hubs =
  hub_capacity :: "nat \<Rightarrow> 'h HW \<Rightarrow> unit result \<times> 'h HW"
  hub_closed :: "nat \<Rightarrow> 'h HW \<Rightarrow> 'h HW"
  hub_offer :: "nat \<Rightarrow> WireMsg \<Rightarrow> 'h HW \<Rightarrow> unit result \<times> 'h HW"
  hub_get :: "nat \<Rightarrow> WireMsg \<Rightarrow> 'h HW \<Rightarrow> unit result \<times> 'h HW"
  hub_chunk :: "nat \<Rightarrow> WireMsg \<Rightarrow> 'h HW \<Rightarrow> unit result \<times> 'h HW"
  hub_sub :: "nat \<Rightarrow> WireMsg \<Rightarrow> 'h HW \<Rightarrow> unit result \<times> 'h HW"
  hub_maybeOffer :: "nat \<Rightarrow> string \<Rightarrow> string \<Rightarrow> nat \<Rightarrow> 'h HW \<Rightarrow> bool result \<times> 'h HW"

definition callHub :: "('h HW \<Rightarrow> 'r \<times> 'h HW) \<Rightarrow> 'h EW \<Rightarrow> 'r \<times> 'h EW" where
  "callHub f x = (case f (fst x, en_log (snd x), en_hubs (snd x)) of
     (r, (s, q, h)) \<Rightarrow> (r, (s, (snd x)\<lparr>en_log := q, en_hubs := h\<rparr>)))"

text \<open>A node on which neither hub is set: every call is skipped.\<close>

definition noHubs :: "'h Hubs" where
  "noHubs = \<lparr>hub_capacity = \<lambda>i x. ok x, hub_closed = \<lambda>i x. x, hub_offer = \<lambda>i m x. ok x, hub_get = \<lambda>i m x. ok x,
     hub_chunk = \<lambda>i m x. ok x, hub_sub = \<lambda>i m x. ok x, hub_maybeOffer = \<lambda>i t w n x. (Inr False, x)\<rparr>"

section \<open>Access\<close>

definition reqKey :: "string \<Rightarrow> int \<Rightarrow> string" where
  "reqKey prefix n = prefix @ (if n < 0 then ''-'' @ nat_str (nat (- n)) else nat_str (nat n))"

definition wantKey :: "string \<Rightarrow> string \<Rightarrow> string" where
  "wantKey topic writer = topic @ '' '' @ writer"

definition knownKey :: "string \<Rightarrow> string \<Rightarrow> string" where
  "knownKey topic writer = topic @ [CHR 0x00] @ writer"

definition evidenceKey :: "string \<Rightarrow> string \<Rightarrow> string \<Rightarrow> string" where
  "evidenceKey topic writer peerId = ''fork_evidence:'' @ topic @ '':'' @ writer @ '':'' @ peerId"

definition thePeer :: "nat \<Rightarrow> 'h EW \<Rightarrow> PeerState" where
  "thePeer i x = en_ps (snd x) i"

definition onPeer :: "nat \<Rightarrow> (PeerState \<Rightarrow> PeerState) \<Rightarrow> 'h EW \<Rightarrow> 'h EW" where
  "onPeer i f x = (fst x, (snd x)\<lparr>en_ps := (en_ps (snd x))(i := f (en_ps (snd x) i))\<rparr>)"

definition onEngine :: "('h Engine \<Rightarrow> 'h Engine) \<Rightarrow> 'h EW \<Rightarrow> 'h EW" where
  "onEngine f x = (fst x, f (snd x))"

definition theCore :: "'h EW \<Rightarrow> LogCore" where
  "theCore x = q_core (en_log (snd x))"

definition readCore :: "(LogCore \<Rightarrow> 'a \<times> LogCore) \<Rightarrow> 'h EW \<Rightarrow> 'a \<times> 'h EW" where
  "readCore f x = (case f (theCore x) of (v, c) \<Rightarrow>
     (v, onEngine (\<lambda>e. e\<lparr>en_log := (en_log e)\<lparr>q_core := c\<rparr>\<rparr>) x))"

definition control :: "WireJson \<Rightarrow> LogEnv \<Rightarrow> WireMsg \<Rightarrow> 'h EW \<Rightarrow> unit result \<times> 'h EW" where
  "control J E m = onSess (sendControl J E m)"

definition ask :: "WireJson \<Rightarrow> LogEnv \<Rightarrow> string \<Rightarrow> WireMsg \<Rightarrow> 'h EW \<Rightarrow> unit result \<times> 'h EW" where
  "ask J E key m = onSess (request J E key (RMsg m))"

definition dataOut :: "WireJson \<Rightarrow> LogEnv \<Rightarrow> (nat \<Rightarrow> WireMsg) \<Rightarrow> 'h EW \<Rightarrow> bool result \<times> 'h EW" where
  "dataOut J E mk x = (case sendData J E (en_now (snd x)) mk (fst x) of (r, s) \<Rightarrow> (r, (s, snd x)))"

definition satisfied :: "string \<Rightarrow> 'h EW \<Rightarrow> 'h EW" where
  "satisfied key x = upd (satisfyRequest key) x"

definition jsBytes :: "WireJson \<Rightarrow> jsval \<Rightarrow> nat" where
  "jsBytes J v = utf8ByteLength (jsonStringify J v)"

definition directive_js :: "WriterDirective \<Rightarrow> jsval" where
  "directive_js d = JObj (objEntries (unsigned_js (restOf d)) @
     [(''authority'', JStr (d_authority d)), (''sig'', JStr (d_sig d))])"

definition anomalyOut :: "SyncAnomaly \<Rightarrow> 'h EW \<Rightarrow> 'h EW" where
  "anomalyOut a = onEngine (\<lambda>e. e\<lparr>en_anomalies := en_anomalies e @ [a]\<rparr>)"

definition newPeer :: "nat \<Rightarrow> PeerState" where
  "newPeer now = \<lparr>ps_lastActivity = now, ps_haveReq = 0, ps_wantReq = 0, ps_expectedHaveReq = None, ps_havePages = [],
     ps_haveBytes = 0, ps_captured = None, ps_activeWants = [], ps_wantQueue = [], ps_wantedStreams = [],
     ps_recoveryProgress = Map.empty, ps_syncProgress = Map.empty, ps_stalled = [], ps_antiEntropyTimer = False,
     ps_probes = Map.empty, ps_known = Map.empty, ps_dirty = [], ps_pumpTimer = None, ps_unservable = []\<rparr>"

section \<open>Throughput\<close>

definition zeroCounters :: TopicSyncCounters where
  "zeroCounters = \<lparr>servedEntries = 0, servedBytes = 0, appliedEntries = 0, appliedBytes = 0,
     wantRoundsRequested = 0, wantRoundsServed = 0\<rparr>"

definition counters :: "string \<Rightarrow> 'h Engine \<Rightarrow> TopicSyncCounters" where
  "counters topic e = (case en_interval e topic of Some c \<Rightarrow> c | None \<Rightarrow> zeroCounters)"

definition setCounters :: "string \<Rightarrow> (TopicSyncCounters \<Rightarrow> TopicSyncCounters) \<Rightarrow> 'h EW \<Rightarrow> 'h EW" where
  "setCounters topic f = onEngine (\<lambda>e. e\<lparr>en_interval := (en_interval e)(topic \<mapsto> f (counters topic e))\<rparr>)"

definition noteThroughput :: "LogEnv \<Rightarrow> string \<Rightarrow> string \<Rightarrow> nat \<Rightarrow> nat \<Rightarrow> bool \<Rightarrow> 'h EW \<Rightarrow> 'h EW" where
  "noteThroughput E topic peerId n bytes served x = (
     let x1 = setCounters topic (\<lambda>c. if served
            then c\<lparr>servedEntries := servedEntries c + n, servedBytes := servedBytes c + bytes\<rparr>
            else c\<lparr>appliedEntries := appliedEntries c + n, appliedBytes := appliedBytes c + bytes\<rparr>) x;
         pk = (topic, peerId);
         x2 = onEngine (\<lambda>e. e\<lparr>en_pairBytes := AList.update pk
            ((case map_of (en_pairBytes e) pk of None \<Rightarrow> 0 | Some b \<Rightarrow> b) + bytes) (en_pairBytes e)\<rparr>) x1;
         x3 = onEngine (\<lambda>e. if int (en_now e) - int (en_hotStart e) \<ge> int (SYNC_HOT_WINDOW_MS (constants E))
            then e\<lparr>en_hotStart := en_now e, en_hotBytes := 0, en_hotEmitted := False\<rparr> else e) x2;
         x4 = onEngine (\<lambda>e. e\<lparr>en_hotBytes := en_hotBytes e + bytes\<rparr>) x3
     in if \<not> en_hotEmitted (snd x4) \<and> en_hotBytes (snd x4) \<ge> SYNC_HOT_BYTES (constants E)
        then anomalyOut (SyncHot topic peerId) (onEngine (\<lambda>e. e\<lparr>en_hotEmitted := True\<rparr>) x4) else x4)"

definition hotOrder :: "(string \<times> string) \<times> nat \<Rightarrow> (string \<times> string) \<times> nat \<Rightarrow> int" where
  "hotOrder a b = (if snd a \<noteq> snd b then int (snd b) - int (snd a)
     else if fst (fst a) < fst (fst b) then -1 else if fst (fst b) < fst (fst a) then 1
     else if snd (fst a) < snd (fst b) then -1 else 1)"

definition readIntervalStats :: "'h Engine \<Rightarrow> (string \<Rightarrow> TopicSyncCounters option) \<times> ((string \<times> string) \<times> nat) list" where
  "readIntervalStats e = (en_interval e, take SYNC_HOTSPOT_TOP_N (sort_by hotOrder (en_pairBytes e)))"

definition drainIntervalStats ::
  "'h Engine \<Rightarrow> ((string \<Rightarrow> TopicSyncCounters option) \<times> ((string \<times> string) \<times> nat) list) \<times> 'h Engine" where
  "drainIntervalStats e = (readIntervalStats e, e\<lparr>en_interval := Map.empty, en_pairBytes := []\<rparr>)"

definition rejectStats :: "string \<Rightarrow> 'h Engine \<Rightarrow> ApplyResult option \<Rightarrow> nat" where
  "rejectStats topic e = en_rejects e topic"

section \<open>Asking for a HAVE round\<close>

definition startHaveRound :: "WireJson \<Rightarrow> LogEnv \<Rightarrow> nat \<Rightarrow> 'h EW \<Rightarrow> unit result \<times> 'h EW" where
  "startHaveRound J E i x = (let req = ps_haveReq (thePeer i x) + 1 in
     ask J E (reqKey ''HAVE:'' req) (HAVE_GET req)
       (onPeer i (\<lambda>p. p\<lparr>ps_haveReq := req, ps_expectedHaveReq := Some req, ps_havePages := [], ps_haveBytes := 0\<rparr>) x))"

section \<open>WANT, requester side\<close>

text \<open>The loop takes the queue's head each time; its length bounds the loop.\<close>

definition recoveryStart :: "nat \<Rightarrow> string \<Rightarrow> string \<Rightarrow> 'h EW \<Rightarrow> nat" where
  "recoveryStart i topic writer x = (case en_meta (snd x) (evidenceKey topic writer (ss_peerId (fst x))) of
     Some (lastCommon, _) \<Rightarrow> if lastCommon \<le> MAX_SAFE_INTEGER \<and> lastCommon > 0 then lastCommon + 1 else 1
   | None \<Rightarrow> 1)"

definition sendWant :: "WireJson \<Rightarrow> LogEnv \<Rightarrow> nat \<Rightarrow> string \<Rightarrow> string \<Rightarrow> nat \<Rightarrow> 'h EW \<Rightarrow> unit result \<times> 'h EW" where
  "sendWant J E i topic writer from x = (let req = ps_wantReq (thePeer i x) + 1;
       w = \<lparr>wa_topic = topic, wa_writer = writer, wa_fromSeq = from\<rparr>
     in ask J E (reqKey ''WANT:'' req) (WANT req topic writer from)
          (setCounters topic (\<lambda>c. c\<lparr>wantRoundsRequested := wantRoundsRequested c + 1\<rparr>)
            (onPeer i (\<lambda>p. p\<lparr>ps_wantReq := req, ps_activeWants := AList.update req w (ps_activeWants p)\<rparr>) x)))"

fun pumpWantsLoop :: "WireJson \<Rightarrow> LogEnv \<Rightarrow> nat \<Rightarrow> nat \<Rightarrow> 'h EW \<Rightarrow> unit result \<times> 'h EW" where
  "pumpWantsLoop J E i 0 x = ok x"
| "pumpWantsLoop J E i (Suc n) x = (
     if length (ps_activeWants (thePeer i x)) \<ge> MAX_WANT_CONCURRENT then ok x
     else case ps_wantQueue (thePeer i x) of
       [] \<Rightarrow> ok x
     | (topic, writer) # rest \<Rightarrow>
         (case readCore (getStream E topic writer) (onPeer i (\<lambda>p. p\<lparr>ps_wantQueue := rest\<rparr>) x) of (head, x1) \<Rightarrow>
           let recovery = recoveryTarget (theCore x1) topic writer in
           if sealReason head \<noteq> None \<and> recovery = None then
             pumpWantsLoop J E i n (onPeer i (\<lambda>p. p\<lparr>ps_wantedStreams := removeAll (wantKey topic writer) (ps_wantedStreams p)\<rparr>) x1)
           else sthen (sendWant J E i topic writer
                   (if recovery \<noteq> None then recoveryStart i topic writer x1 else contigSeq head + 1) x1)
                 (pumpWantsLoop J E i n)))"

definition pumpWants :: "WireJson \<Rightarrow> LogEnv \<Rightarrow> nat \<Rightarrow> 'h EW \<Rightarrow> unit result \<times> 'h EW" where
  "pumpWants J E i x = pumpWantsLoop J E i (length (ps_wantQueue (thePeer i x))) x"

definition queueWant :: "WireJson \<Rightarrow> LogEnv \<Rightarrow> nat \<Rightarrow> string \<Rightarrow> string \<Rightarrow> 'h EW \<Rightarrow> unit result \<times> 'h EW" where
  "queueWant J E i topic writer x = (
     if wantKey topic writer \<in> set (ps_wantedStreams (thePeer i x)) then ok x
     else pumpWants J E i (onPeer i (\<lambda>p. p\<lparr>ps_wantedStreams := ps_wantedStreams p @ [wantKey topic writer],
            ps_wantQueue := ps_wantQueue p @ [(topic, writer)]\<rparr>) x))"

definition finishWant :: "WireJson \<Rightarrow> LogEnv \<Rightarrow> nat \<Rightarrow> int \<Rightarrow> 'h EW \<Rightarrow> unit result \<times> 'h EW" where
  "finishWant J E i req x = (case map_of (ps_activeWants (thePeer i x)) req of
     None \<Rightarrow> ok x
   | Some w \<Rightarrow> pumpWants J E i (onPeer i (\<lambda>p. p\<lparr>ps_activeWants := AList.delete req (ps_activeWants p),
         ps_wantedStreams := removeAll (wantKey (wa_topic w) (wa_writer w)) (ps_wantedStreams p)\<rparr>)
       (satisfied (reqKey ''WANT:'' req) x)))"

section \<open>Pushing what the peer lacks\<close>

definition schedulePump :: "nat \<Rightarrow> nat \<Rightarrow> 'h EW \<Rightarrow> 'h EW" where
  "schedulePump i delay x = onPeer i (\<lambda>p. if ps_pumpTimer p \<noteq> None then p
     else p\<lparr>ps_pumpTimer := Some (en_now (snd x) + delay)\<rparr>) x"

definition markDirty :: "nat \<Rightarrow> string \<Rightarrow> string \<Rightarrow> nat \<Rightarrow> 'h EW \<Rightarrow> 'h EW" where
  "markDirty i topic writer delay x = (
     if ss_state (fst x) \<noteq> SReady \<or> \<not> mutualFull (fst x) topic then x
     else let readyAt = en_now (snd x) + delay; key = knownKey topic writer in
       schedulePump i delay (onPeer i (\<lambda>p. p\<lparr>ps_dirty := (case map_of (ps_dirty p) key of
           Some (t, w, at0) \<Rightarrow> AList.update key (t, w, min at0 readyAt) (ps_dirty p)
         | None \<Rightarrow> ps_dirty p @ [(key, (topic, writer, readyAt))])\<rparr>) x))"

definition batchBudget :: "LogEnv \<Rightarrow> nat" where
  "batchBudget E = MAX_FRAME_BYTES (constants E) div 2"

text \<open>The longest prefix within the budget, never empty when there is an entry; with its bytes.\<close>

fun fitBatch :: "WireJson \<Rightarrow> nat \<Rightarrow> LogEntry list \<Rightarrow> LogEntry list \<Rightarrow> nat \<Rightarrow> LogEntry list \<times> nat" where
  "fitBatch J budget [] batch bytes = (batch, bytes)"
| "fitBatch J budget (e # es) batch bytes = (let cost = jsBytes J (entry_js e) in
     if batch \<noteq> [] \<and> bytes + cost > budget then (batch, bytes)
     else fitBatch J budget es (batch @ [e]) (bytes + cost))"

definition batchFrom :: "WireJson \<Rightarrow> LogEnv \<Rightarrow> Db \<Rightarrow> string \<Rightarrow> string \<Rightarrow> nat \<Rightarrow> nat \<Rightarrow> LogEntry list \<times> nat" where
  "batchFrom J E d topic writer from to = fitBatch J (batchBudget E) (map snd (entriesRange d topic writer from to)) [] 0"

definition entriesMsg :: "int option \<Rightarrow> string \<Rightarrow> string \<Rightarrow> nat \<Rightarrow> nat \<Rightarrow> LogEntry list \<Rightarrow> bool \<Rightarrow> nat \<Rightarrow> WireMsg" where
  "entriesMsg req topic writer from to es done' mid = ENTRIES (int mid) req topic writer from to (map entry_js es) done'"

definition dropDirty :: "nat \<Rightarrow> string \<Rightarrow> 'h EW \<Rightarrow> 'h EW" where
  "dropDirty i key = onPeer i (\<lambda>p. p\<lparr>ps_dirty := AList.delete key (ps_dirty p)\<rparr>)"

definition knownOf :: "nat \<Rightarrow> string \<Rightarrow> 'h EW \<Rightarrow> nat" where
  "knownOf i key x = (case ps_known (thePeer i x) key of None \<Rightarrow> 0 | Some n \<Rightarrow> n)"

text \<open>One push: the answer is False when the lane refused it.\<close>

definition pushBatch ::
  "WireJson \<Rightarrow> LogEnv \<Rightarrow> nat \<Rightarrow> string \<Rightarrow> string \<Rightarrow> string \<Rightarrow> nat \<Rightarrow> LogEntry list \<times> nat \<Rightarrow> 'h EW \<Rightarrow> bool result \<times> 'h EW" where
  "pushBatch J E i key topic writer to p x = (case p of (batch, bytes) \<Rightarrow>
     let done' = e_seq (last batch) \<ge> to in
     case dataOut J E (entriesMsg None topic writer (e_seq (hd batch)) to batch done') x of
       (Inr True, y) \<Rightarrow>
         let y1 = noteThroughput E topic (ss_peerId (fst y)) (length batch) bytes True y;
             y2 = onPeer i (\<lambda>p. p\<lparr>ps_known := (ps_known p)(key \<mapsto> e_seq (last batch))\<rparr>) y1
         in (Inr True, if done' then dropDirty i key y2 else y2)
     | r \<Rightarrow> r)"

fun pumpDirtyLoop ::
  "WireJson \<Rightarrow> LogEnv \<Rightarrow> nat \<Rightarrow> nat option \<Rightarrow> (string \<times> (string \<times> string \<times> nat)) list \<Rightarrow> 'h EW \<Rightarrow> unit result \<times> 'h EW" where
  "pumpDirtyLoop J E i future [] x = ok (case future of None \<Rightarrow> x | Some t \<Rightarrow> schedulePump i (t - en_now (snd x)) x)"
| "pumpDirtyLoop J E i future ((key, (topic, writer, readyAt)) # ds) x = (
     if readyAt > en_now (snd x) then
       pumpDirtyLoop J E i (Some (case future of None \<Rightarrow> readyAt | Some t \<Rightarrow> min t readyAt)) ds x
     else if \<not> hasSendCapacity E (fst x) then ok x
     else case readCore (getStream E topic writer) x of (head, x1) \<Rightarrow>
       let known = knownOf i key x1; to = contigSeq head in
       if known \<ge> to then pumpDirtyLoop J E i future ds (dropDirty i key x1)
       else case readCore (floorOf topic writer) x1 of (flr, x2) \<Rightarrow>
         if (case flr of None \<Rightarrow> False | Some (fs, _) \<Rightarrow> known < fs) then pumpDirtyLoop J E i future ds (dropDirty i key x2)
         else let p = batchFrom J E (lc_db (theCore x2)) topic writer (known + 1) (min to (known + ENTRIES_BATCH_MAX)) in
           if fst p = [] then pumpDirtyLoop J E i future ds (dropDirty i key x2)
           else (case pushBatch J E i key topic writer to p x2 of
                (Inl e, x3) \<Rightarrow> (Inl e, x3)
              | (Inr False, x3) \<Rightarrow> ok x3
              | (Inr True, x3) \<Rightarrow> pumpDirtyLoop J E i future ds x3))"

definition pumpDirty :: "WireJson \<Rightarrow> LogEnv \<Rightarrow> nat \<Rightarrow> 'h EW \<Rightarrow> unit result \<times> 'h EW" where
  "pumpDirty J E i x = (if ss_state (fst x) \<noteq> SReady then ok x
     else pumpDirtyLoop J E i None (ps_dirty (thePeer i x)) x)"

section \<open>PROBE, requester side\<close>

text \<open>Log-spaced sequence numbers from \<open>upTo\<close> down: \<open>upTo\<close>, then 1, 2, 4, \<open>\<dots>\<close> below it.\<close>

fun probeSeqs :: "nat \<Rightarrow> nat \<Rightarrow> nat \<Rightarrow> nat list" where
  "probeSeqs 0 upTo d = []"
| "probeSeqs (Suc n) upTo d = (if upTo \<le> d then [] else (upTo - d) # probeSeqs n upTo (if d = 0 then 1 else d * 2))"

definition locateFork :: "WireJson \<Rightarrow> LogEnv \<Rightarrow> nat \<Rightarrow> string \<Rightarrow> string \<Rightarrow> nat \<Rightarrow> 'h EW \<Rightarrow> unit result \<times> 'h EW" where
  "locateFork J E i topic writer upTo x = (let seqs = probeSeqs 32 upTo 0; key = wantKey topic writer in
     if seqs = [] then ok x
     else ask J E (''PROBE:'' @ key) (PROBE topic writer seqs)
            (onPeer i (\<lambda>p. p\<lparr>ps_probes := (ps_probes p)(key \<mapsto> (topic, writer, upTo))\<rparr>) x))"

definition lastCommonOf :: "Db \<Rightarrow> string \<Rightarrow> string \<Rightarrow> (nat \<times> string) list \<Rightarrow> nat" where
  "lastCommonOf d topic writer points = foldl (\<lambda>acc (seq, chain).
     if (case getEntry d topic writer seq of None \<Rightarrow> False | Some e \<Rightarrow> e_chain e = chain) \<and> seq > acc then seq else acc) 0 points"

definition onProbeRes :: "nat \<Rightarrow> WireMsg \<Rightarrow> 'h EW \<Rightarrow> 'h EW" where
  "onProbeRes i m x = (let key = wantKey (m_topic m) (m_writer m) in
     case ps_probes (thePeer i x) key of None \<Rightarrow> x
     | Some (topic, writer, upTo) \<Rightarrow>
         onEngine (\<lambda>e. e\<lparr>en_meta := (en_meta e)(evidenceKey topic writer (ss_peerId (fst x)) \<mapsto>
              (lastCommonOf (lc_db (theCore x)) topic writer (m_points m), upTo, en_now e))\<rparr>)
           (satisfied (''PROBE:'' @ key) (onPeer i (\<lambda>p. p\<lparr>ps_probes := (ps_probes p)(key := None)\<rparr>) x)))"

section \<open>A completed HAVE round\<close>

definition sealStream :: "LogEnv \<Rightarrow> string \<Rightarrow> string \<Rightarrow> 'h EW \<Rightarrow> unit result \<times> 'h EW" where
  "sealStream E topic writer x = (case preOpen (q_closed (en_log (snd x))) (QSeal topic writer) of
     Inl e \<Rightarrow> (Inl e, x) | Inr item \<Rightarrow> ok (onEngine (\<lambda>e. e\<lparr>en_log := push E item (en_log e)\<rparr>) x))"

definition peerRgen :: "VecEntry \<Rightarrow> nat" where
  "peerRgen w = (case w of VLive _ _ r \<Rightarrow> (case r of None \<Rightarrow> 0 | Some n \<Rightarrow> n) | VRetired _ _ r \<Rightarrow> r)"

definition pushDirective :: "WireJson \<Rightarrow> LogEnv \<Rightarrow> WriterRow \<Rightarrow> VecEntry \<Rightarrow> string \<Rightarrow> string \<Rightarrow> 'h EW \<Rightarrow> unit result \<times> 'h EW" where
  "pushDirective J E head w topic writer x = (
     if peerRgen w < rgen head \<and> en_directives (snd x) then
       (case latestDirective (theCore x) topic writer of
          Some d \<Rightarrow> if d_rgen d = rgen head then control J E (WRITER_DIRECTIVE (directive_js d)) x else ok x
        | None \<Rightarrow> ok x)
     else ok x)"

text \<open>The peer's chain at a sequence number both hold differs from ours.\<close>

definition contradicts :: "Db \<Rightarrow> WriterRow \<Rightarrow> string \<Rightarrow> string \<Rightarrow> nat \<Rightarrow> string \<Rightarrow> bool" where
  "contradicts d head topic writer contig chain \<longleftrightarrow> contig > 0 \<and> contig \<le> contigSeq head \<and>
     (case (if contig = contigSeq head then Some (contigChain head) else chainAt d topic writer contig) of
        None \<Rightarrow> False | Some mine \<Rightarrow> mine \<noteq> chain)"

definition wantForRecovery :: "WireJson \<Rightarrow> LogEnv \<Rightarrow> nat \<Rightarrow> string \<Rightarrow> string \<Rightarrow> 'h EW \<Rightarrow> unit result \<times> 'h EW" where
  "wantForRecovery J E i topic writer x = (
     if recoveryTarget (theCore x) topic writer \<noteq> None then queueWant J E i topic writer x else ok x)"

definition processWriter :: "WireJson \<Rightarrow> LogEnv \<Rightarrow> nat \<Rightarrow> string \<Rightarrow> string \<times> VecEntry \<Rightarrow> 'h EW \<Rightarrow> unit result \<times> 'h EW" where
  "processWriter J E i topic p x = (case p of (writer, w) \<Rightarrow>
     case readCore (getStream E topic writer) x of (head, x1) \<Rightarrow>
     sthen (pushDirective J E head w topic writer
         (onPeer i (\<lambda>p. p\<lparr>ps_known := (ps_known p)(knownKey topic writer \<mapsto> vec_seq w)\<rparr>) x1)) (\<lambda>x.
       case w of
         VRetired _ _ _ \<Rightarrow> wantForRecovery J E i topic writer x
       | VLive contig chain _ \<Rightarrow>
           if sealReason head \<noteq> None then wantForRecovery J E i topic writer x
           else if contradicts (lc_db (theCore x)) head topic writer contig chain then
             sthen (sealStream E topic writer x) (locateFork J E i topic writer (min contig (contigSeq head)))
           else if contig > contigSeq head then queueWant J E i topic writer x
           else if contig < contigSeq head then ok (markDirty i topic writer 0 x)
           else ok x))"

definition processTopic :: "WireJson \<Rightarrow> LogEnv \<Rightarrow> nat \<Rightarrow> string \<times> TopicVec \<Rightarrow> 'h EW \<Rightarrow> unit result \<times> 'h EW" where
  "processTopic J E i p x = (case p of (topic, v) \<Rightarrow>
     if \<not> reg_has (registry E) topic \<or> \<not> mutualFull (fst x) topic then ok x
     else case readCore (getCert topic) x of (myCert, x1) \<Rightarrow>
       let peerGen = (case fgen v of None \<Rightarrow> 0 | Some g \<Rightarrow> g) in
       sthen (case myCert of
           Some c \<Rightarrow> if peerGen < cert_generation c then control J E (FINALITY topic (cert_js c)) x1 else ok x1
         | None \<Rightarrow> ok x1) (\<lambda>x.
         if myCert = None \<and> peerGen > 0 then ok x
         else seach (processWriter J E i topic) (writers v) x))"

text \<open>The round is the peer's acknowledgment of the topics that are mutually full.\<close>

definition recordAcks :: "LogEnv \<Rightarrow> HaveVectors \<Rightarrow> 'h EW \<Rightarrow> 'h EW" where
  "recordAcks E vs x = (case (en_acks (snd x), ss_peerNode (fst x)) of
     (Some r, Some node) \<Rightarrow>
       let mutual = filter (\<lambda>p. reg_has (registry E) (fst p) \<and> mutualFull (fst x) (fst p)) vs in
       (case ack_record (registry E) (selfId E) (en_ackFault (snd x)) r (lc_db (theCore x)) node mutual
               (en_now (snd x)) (Some (ss_proto (fst x))) of
          (r', d) \<Rightarrow> onEngine (\<lambda>e. e\<lparr>en_acks := Some r', en_log := (en_log e)\<lparr>q_core := withDb (\<lambda>_. d) (q_core (en_log e))\<rparr>\<rparr>) x)
   | _ \<Rightarrow> x)"

definition processPeerVectors :: "WireJson \<Rightarrow> LogEnv \<Rightarrow> nat \<Rightarrow> HaveVectors \<Rightarrow> 'h EW \<Rightarrow> unit result \<times> 'h EW" where
  "processPeerVectors J E i vs x = seach (processTopic J E i) vs (recordAcks E vs x)"

section \<open>Closing\<close>

definition onClosed :: "'h Hubs \<Rightarrow> nat \<Rightarrow> 'h EW \<Rightarrow> 'h EW" where
  "onClosed H i x = onEngine (\<lambda>e. e\<lparr>en_peers := removeAll i (en_peers e)\<rparr>)
     (snd (callHub (\<lambda>y. ((), hub_closed H i y))
       (if i \<in> set (en_peers (snd x))
        then onPeer i (\<lambda>p. p\<lparr>ps_antiEntropyTimer := False, ps_pumpTimer := None\<rparr>) x else x)))"

definition closePeer :: "'h Hubs \<Rightarrow> nat \<Rightarrow> SessionCloseReason \<Rightarrow> 'h EW \<Rightarrow> 'h EW" where
  "closePeer H i reason x = (if ss_state (fst x) = SClosed then x else onClosed H i (upd (closeSession reason) x))"

section \<open>Reassembling a HAVE round\<close>

definition mergeTopic :: "HaveVectors \<Rightarrow> string \<times> TopicVec \<Rightarrow> HaveVectors" where
  "mergeTopic merged p = (case p of (topic, v) \<Rightarrow> let t = vecOf merged topic in
     AList.update topic \<lparr>fgen = (if fgen v = None then fgen t else fgen v),
       writers = foldl (\<lambda>ws (w, e). AList.update w e ws) (writers t) (writers v)\<rparr> merged)"

definition mergePages :: "WireMsg list \<Rightarrow> HaveVectors" where
  "mergePages pages = foldl (\<lambda>merged page. foldl mergeTopic merged (m_vectors page)) [] pages"

definition pageBytes :: "WireJson \<Rightarrow> WireMsg \<Rightarrow> nat" where
  "pageBytes J m = jsBytes J (msg_js m)"

definition onHavePage :: "'h Hubs \<Rightarrow> WireJson \<Rightarrow> LogEnv \<Rightarrow> nat \<Rightarrow> WireMsg \<Rightarrow> 'h EW \<Rightarrow> unit result \<times> 'h EW" where
  "onHavePage H J E i m x = (let p = thePeer i x in
     if Some (m_req m) \<noteq> ps_expectedHaveReq p then ok x
     else let bytes = ps_haveBytes p + int (pageBytes J m) -
                (case map_of (ps_havePages p) (m_page m) of None \<Rightarrow> 0 | Some prev \<Rightarrow> int (pageBytes J prev)) in
       if bytes > int (MAX_REASSEMBLY_BYTES (constants E)) then
         sthen (control J E (errMsg (violationCode (fst x)) None (Some ''HAVE reassembly exceeds MAX_REASSEMBLY_BYTES''))
             (onPeer i (\<lambda>p. p\<lparr>ps_havePages := [], ps_haveBytes := 0, ps_expectedHaveReq := None\<rparr>) x))
           (\<lambda>x. ok (closePeer H i CR_protocol x))
       else let pages = AList.update (m_page m) m (ps_havePages p) in
         if length pages < m_of m then ok (onPeer i (\<lambda>p. p\<lparr>ps_havePages := pages, ps_haveBytes := bytes\<rparr>) x)
         else processPeerVectors J E i (mergePages (map snd pages))
           (onPeer i (\<lambda>p. p\<lparr>ps_havePages := [], ps_haveBytes := 0, ps_expectedHaveReq := None\<rparr>)
             (satisfied (reqKey ''HAVE:'' (m_req m)) x)))"

section \<open>HAVE, responder side\<close>

text \<open>The pages done, the current one and its bytes.\<close>

definition pageWriter ::
  "WireJson \<Rightarrow> nat \<Rightarrow> string \<Rightarrow> nat option \<Rightarrow> HaveVectors list \<times> HaveVectors \<times> nat \<Rightarrow> string \<times> VecEntry \<Rightarrow>
   HaveVectors list \<times> HaveVectors \<times> nat" where
  "pageWriter J budget topic gen st p = (case (st, p) of ((pages, current, bytes), (writer, w)) \<Rightarrow>
     let cost = jsBytes J (JObj [(topic, JObj [(writer, vecEntry_js w)])]);
         (pages1, current1, bytes1) = (if bytes + cost > budget \<and> current \<noteq> [] then (pages @ [current], [], 0) else (pages, current, bytes));
         t = vecOf current1 topic
     in (pages1, AList.update topic \<lparr>fgen = (if gen = None then fgen t else gen),
           writers = AList.update writer w (writers t)\<rparr> current1, bytes1 + cost))"

definition pageTopic ::
  "WireJson \<Rightarrow> nat \<Rightarrow> HaveVectors list \<times> HaveVectors \<times> nat \<Rightarrow> string \<times> TopicVec \<Rightarrow> HaveVectors list \<times> HaveVectors \<times> nat" where
  "pageTopic J budget st p = (case p of (topic, v) \<Rightarrow>
     if writers v = [] then (case st of (pages, current, bytes) \<Rightarrow>
       let t = vecOf current topic in
       (pages, AList.update topic (t\<lparr>fgen := (if fgen v = None then fgen t else fgen v)\<rparr>) current, bytes))
     else foldl (pageWriter J budget topic (fgen v)) st (writers v))"

definition havePages :: "WireJson \<Rightarrow> nat \<Rightarrow> HaveVectors \<Rightarrow> HaveVectors list" where
  "havePages J budget vs = (case foldl (pageTopic J budget) ([], [], 0) vs of (pages, current, _) \<Rightarrow> pages @ [current])"

definition paginateHave :: "WireJson \<Rightarrow> LogEnv \<Rightarrow> HaveVectors \<Rightarrow> (nat \<times> nat \<times> HaveVectors) list" where
  "paginateHave J E vs = (let pages = havePages J (batchBudget E) vs in
     map (\<lambda>(k, p). (k + 1, length pages, p)) (zip [0..<length pages] pages))"

definition sendPage :: "WireJson \<Rightarrow> LogEnv \<Rightarrow> int \<Rightarrow> nat \<times> nat \<times> HaveVectors \<Rightarrow> 'h EW \<Rightarrow> unit result \<times> 'h EW" where
  "sendPage J E req p = (case p of (k, n, v) \<Rightarrow> control J E (HAVE req k n v))"

definition serveHave :: "WireJson \<Rightarrow> LogEnv \<Rightarrow> nat \<Rightarrow> WireMsg \<Rightarrow> 'h EW \<Rightarrow> unit result \<times> 'h EW" where
  "serveHave J E i m x = (
     let x1 = (if map_option fst (ps_captured (thePeer i x)) = Some (m_req m) then x
       else case readCore (vectors E (en_now (snd x))) x of (full, y) \<Rightarrow>
         onPeer i (\<lambda>p. p\<lparr>ps_captured := Some (m_req m, paginateHave J E
           (filter (\<lambda>p. mutualFull (fst x) (fst p)) full))\<rparr>) y)
     in case ps_captured (thePeer i x1) of None \<Rightarrow> ok x1 | Some (req, pages) \<Rightarrow> seach (sendPage J E req) pages x1)"

section \<open>WANT, responder side\<close>

definition emptyEntries :: "WireJson \<Rightarrow> LogEnv \<Rightarrow> WireMsg \<Rightarrow> nat \<Rightarrow> 'h EW \<Rightarrow> unit result \<times> 'h EW" where
  "emptyEntries J E m to x = (case dataOut J E (entriesMsg (Some (m_req m)) (m_topic m) (m_writer m) (m_fromSeq m) to [] True) x of
     (Inl e, y) \<Rightarrow> (Inl e, y) | (Inr _, y) \<Rightarrow> ok y)"

definition bumpRetention :: "string \<Rightarrow> RetKey \<Rightarrow> 'h EW \<Rightarrow> 'h EW" where
  "bumpRetention topic key = onEngine (\<lambda>e. if en_acks e = None then e
     else e\<lparr>en_log := (en_log e)\<lparr>q_core := (q_core (en_log e))\<lparr>retStats := ret_bump (retStats (q_core (en_log e))) topic key 1\<rparr>\<rparr>\<rparr>)"

definition serveBelowFloor :: "WireJson \<Rightarrow> LogEnv \<Rightarrow> nat \<Rightarrow> WireMsg \<Rightarrow> nat \<times> string \<Rightarrow> nat \<Rightarrow> 'h EW \<Rightarrow> unit result \<times> 'h EW" where
  "serveBelowFloor J E i m flr to x = (
     if ss_proto (fst x) \<ge> 3 then
       sthen (control J E (TRUNCATED (m_req m) (m_topic m) (m_writer m) (fst flr) (snd flr)) x)
         (\<lambda>x. ok (bumpRetention (m_topic m) K_truncatedServed x))
     else sthen (emptyEntries J E m to x) (\<lambda>x.
       let x1 = bumpRetention (m_topic m) K_truncatedUnservable x; key = knownKey (m_topic m) (m_writer m) in
       ok (if key \<in> set (ps_unservable (thePeer i x1)) then x1
           else anomalyOut (FloorUnservable (m_topic m) (m_writer m) (ss_peerId (fst x1)))
                  (onPeer i (\<lambda>p. p\<lparr>ps_unservable := ps_unservable p @ [key]\<rparr>) x1))))"

text \<open>Batches from \<open>from\<close> on; every turn moves \<open>from\<close> up, so the distance to the end bounds the loop.\<close>

definition serveBatch ::
  "WireJson \<Rightarrow> LogEnv \<Rightarrow> WireMsg \<Rightarrow> nat \<Rightarrow> nat \<Rightarrow> LogEntry list \<times> nat \<Rightarrow> 'h EW \<Rightarrow> bool result \<times> 'h EW" where
  "serveBatch J E m to from p x = (case p of (batch, bytes) \<Rightarrow>
     case dataOut J E (entriesMsg (Some (m_req m)) (m_topic m) (m_writer m) from to batch (e_seq (last batch) \<ge> to)) x of
       (Inr True, y) \<Rightarrow> (Inr True, noteThroughput E (m_topic m) (ss_peerId (fst y)) (length batch) bytes True y)
     | r \<Rightarrow> r)"

fun serveLoop :: "WireJson \<Rightarrow> LogEnv \<Rightarrow> WireMsg \<Rightarrow> nat \<Rightarrow> nat \<Rightarrow> nat \<Rightarrow> 'h EW \<Rightarrow> unit result \<times> 'h EW" where
  "serveLoop J E m 0 to from x = ok x"
| "serveLoop J E m (Suc n) to from x = (
     if from > to then ok x
     else let p = batchFrom J E (lc_db (theCore x)) (m_topic m) (m_writer m) from (min to (from + ENTRIES_BATCH_MAX - 1)) in
       if fst p = [] then ok x
       else (case serveBatch J E m to from p x of
            (Inl e, y) \<Rightarrow> (Inl e, y)
          | (Inr False, y) \<Rightarrow> ok y
          | (Inr True, y) \<Rightarrow> serveLoop J E m n to (e_seq (last (fst p)) + 1) y))"

definition serveWant :: "'h Hubs \<Rightarrow> WireJson \<Rightarrow> LogEnv \<Rightarrow> nat \<Rightarrow> WireMsg \<Rightarrow> 'h EW \<Rightarrow> unit result \<times> 'h EW" where
  "serveWant H J E i m x = (
     if \<not> mutualFull (fst x) (m_topic m) then control J E (errMsg ERR_ACL_DENIED (Some (m_topic m)) None) x
     else case callHub (hub_maybeOffer H i (m_topic m) (m_writer m) (m_fromSeq m))
            (setCounters (m_topic m) (\<lambda>c. c\<lparr>wantRoundsServed := wantRoundsServed c + 1\<rparr>) x) of
       (Inl e, x1) \<Rightarrow> (Inl e, x1)
     | (Inr offered, x1) \<Rightarrow>
         (case readCore (getStream E (m_topic m) (m_writer m)) x1 of (head, x2) \<Rightarrow>
           if offered then emptyEntries J E m (contigSeq head) x2
           else case readCore (floorOf (m_topic m) (m_writer m)) x2 of (flr, x3) \<Rightarrow>
             (case flr of
                Some f \<Rightarrow> if m_fromSeq m \<le> fst f then serveBelowFloor J E i m f (contigSeq head) x3
                          else if m_fromSeq m > contigSeq head then emptyEntries J E m (contigSeq head) x3
                          else serveLoop J E m (Suc (contigSeq head) - m_fromSeq m) (contigSeq head) (m_fromSeq m) x3
              | None \<Rightarrow> if m_fromSeq m > contigSeq head then emptyEntries J E m (contigSeq head) x3
                        else serveLoop J E m (Suc (contigSeq head) - m_fromSeq m) (contigSeq head) (m_fromSeq m) x3)))"

section \<open>TRUNCATED, requester side\<close>

definition onTruncated :: "WireJson \<Rightarrow> LogEnv \<Rightarrow> nat \<Rightarrow> WireMsg \<Rightarrow> 'h EW \<Rightarrow> unit result \<times> 'h EW" where
  "onTruncated J E i m x = (
     if \<not> mutualFull (fst x) (m_topic m) then ok x
     else case map_of (ps_activeWants (thePeer i x)) (m_req m) of
       None \<Rightarrow> ok x
     | Some w \<Rightarrow>
         if wa_topic w \<noteq> m_topic m \<or> wa_writer w \<noteq> m_writer m then ok x
         else let x1 = satisfied (reqKey ''WANT:'' (m_req m)) x; peerHead = knownOf i (knownKey (m_topic m) (m_writer m)) x1 in
           if m_floorSeq m < wa_fromSeq w \<or> m_floorSeq m > peerHead then finishWant J E i (m_req m) x1
           else let q = en_log (snd x1) in
             (case preOpen (q_closed q) (QAdoptFloor (m_topic m) (m_writer m) (m_floorSeq m) (m_floorChain m)) of
                Inl _ \<Rightarrow> ok (onEngine (\<lambda>e. e\<lparr>en_waits := en_waits e @ [WFloor i m peerHead None]\<rparr>) x1)
              | Inr item \<Rightarrow> ok (onEngine (\<lambda>e. e\<lparr>en_log := push E item q,
                    en_waits := en_waits e @ [WFloor i m peerHead (Some (q_next q))]\<rparr>) x1)))"

definition floorSettled :: "WireJson \<Rightarrow> LogEnv \<Rightarrow> nat \<Rightarrow> WireMsg \<Rightarrow> nat \<Rightarrow> bool \<Rightarrow> 'h EW \<Rightarrow> unit result \<times> 'h EW" where
  "floorSettled J E i m peerHead refused x = sthen (finishWant J E i (m_req m) x) (\<lambda>x.
     if refused \<or> ss_state (fst x) \<noteq> SReady then ok x
     else case readCore (getStream E (m_topic m) (m_writer m)) x of (head, x1) \<Rightarrow>
       if contigSeq head < peerHead then queueWant J E i (m_topic m) (m_writer m) x1 else ok x1)"

section \<open>ENTRIES\<close>

text \<open>Each entry is validated and queued; a refused one is reported and skipped; a throw of
  \<open>applyExternal\<close> itself escapes.\<close>

fun applyEntries ::
  "WireJson \<Rightarrow> LogEnv \<Rightarrow> WireMsg \<Rightarrow> jsval list \<Rightarrow> (nat \<times> nat) list \<Rightarrow> 'h EW \<Rightarrow> (unit result \<times> 'h EW) \<times> (nat \<times> nat) list" where
  "applyEntries J E m [] ts x = (ok x, ts)"
| "applyEntries J E m (raw # raws) ts x = (case validateEntry (prims E) (constants E) raw of
     Inl code \<Rightarrow> (case control J E (errMsg code (Some (m_topic m @ ''/'' @ m_writer m)) None) x of
         (Inl e, y) \<Rightarrow> ((Inl e, y), ts)
       | (Inr _, y) \<Rightarrow> applyEntries J E m raws ts y)
   | Inr entry \<Rightarrow>
       if e_topic entry \<noteq> m_topic m \<or> e_writer entry \<noteq> m_writer m then applyEntries J E m raws ts x
       else let q = en_log (snd x) in
         (case preExternal E (q_closed q) entry (Some (ss_peerId (fst x))) of
            Inl e \<Rightarrow> ((Inl e, x), ts)
          | Inr item \<Rightarrow> applyEntries J E m raws (ts @ [(q_next q, jsBytes J (entry_js entry))])
              (onEngine (\<lambda>e. e\<lparr>en_log := push E item q\<rparr>) x)))"

definition onEntries :: "WireJson \<Rightarrow> LogEnv \<Rightarrow> nat \<Rightarrow> WireMsg \<Rightarrow> 'h EW \<Rightarrow> unit result \<times> 'h EW" where
  "onEntries J E i m x = (
     if \<not> mutualFull (fst x) (m_topic m) then ok x
     else let key = knownKey (m_topic m) (m_writer m);
         x1 = (if knownOf i key x < m_toSeq m then onPeer i (\<lambda>p. p\<lparr>ps_known := (ps_known p)(key \<mapsto> m_toSeq m)\<rparr>) x else x)
       in case applyEntries J E m (m_entries m) [] x1 of
         ((Inl e, y), ts) \<Rightarrow> (Inl e, y)
       | ((Inr _, y), ts) \<Rightarrow> ok (onEngine (\<lambda>e. e\<lparr>en_waits := en_waits e @ [WEntries i m ts]\<rparr>) y))"

text \<open>The outcome of a ticket as the chain sees it: \<open>None\<close> is \<open>"error"\<close>.\<close>

definition applyOutcome :: "LogQueue \<Rightarrow> nat \<Rightarrow> ApplyResult option" where
  "applyOutcome q t = (case map_of (q_done q) t of Some (RApply r) \<Rightarrow> Some r | _ \<Rightarrow> None)"

definition landed :: "ApplyResult option \<Rightarrow> bool" where
  "landed r \<longleftrightarrow> r \<in> {Some Applied, Some Duplicate, Some Pended}"

fun countRejects :: "string \<Rightarrow> ApplyResult option list \<Rightarrow> 'h EW \<Rightarrow> 'h EW" where
  "countRejects topic [] x = x"
| "countRejects topic (r # rs) x = countRejects topic rs
     (onEngine (\<lambda>e. e\<lparr>en_rejects := (en_rejects e)(topic := (en_rejects e topic)(r := en_rejects e topic r + 1))\<rparr>) x)"

text \<open>\<open>reportCanonicalUnavailable\<close> outside a flush emits at once.\<close>

definition reportUnavailable :: "string \<Rightarrow> string \<Rightarrow> 'h EW \<Rightarrow> 'h EW" where
  "reportUnavailable topic writer = onEngine (\<lambda>e. let q = en_log e;
       c = reportCanonicalUnavailable topic writer ((q_core q)\<lparr>anomalies := []\<rparr>)
     in e\<lparr>en_log := q\<lparr>q_core := c\<lparr>anomalies := anomalies (q_core q)\<rparr>, q_emitted := q_emitted q @ anomalies c\<rparr>\<rparr>)"

definition notAhead :: "nat option \<Rightarrow> nat \<Rightarrow> bool" where
  "notAhead before contig \<longleftrightarrow> (case before of None \<Rightarrow> False | Some b \<Rightarrow> b \<ge> contig)"

definition afterRecoveryRound :: "WireJson \<Rightarrow> LogEnv \<Rightarrow> nat \<Rightarrow> string \<Rightarrow> string \<Rightarrow> nat \<Rightarrow> 'h EW \<Rightarrow> unit result \<times> 'h EW" where
  "afterRecoveryRound J E i topic writer contig x = (let key = wantKey topic writer; before = ps_recoveryProgress (thePeer i x) key;
       x1 = onPeer i (\<lambda>p. p\<lparr>ps_recoveryProgress := (ps_recoveryProgress p)(key \<mapsto> contig)\<rparr>) x
     in if notAhead before contig then ok (reportUnavailable topic writer x1) else queueWant J E i topic writer x1)"

definition afterShortRound :: "WireJson \<Rightarrow> LogEnv \<Rightarrow> nat \<Rightarrow> string \<Rightarrow> string \<Rightarrow> nat \<Rightarrow> 'h EW \<Rightarrow> unit result \<times> 'h EW" where
  "afterShortRound J E i topic writer contig x = (let key = wantKey topic writer; before = ps_syncProgress (thePeer i x) key;
       x1 = onPeer i (\<lambda>p. p\<lparr>ps_syncProgress := (ps_syncProgress p)(key \<mapsto> contig)\<rparr>) x
     in if notAhead before contig then
          ok (if key \<in> set (ps_stalled (thePeer i x1)) then x1
              else anomalyOut (SyncStalled topic (ss_peerId (fst x1)) writer)
                     (onPeer i (\<lambda>p. p\<lparr>ps_stalled := ps_stalled p @ [key]\<rparr>) x1))
        else queueWant J E i topic writer (onPeer i (\<lambda>p. p\<lparr>ps_stalled := removeAll key (ps_stalled p)\<rparr>) x1))"

definition afterWant :: "WireJson \<Rightarrow> LogEnv \<Rightarrow> nat \<Rightarrow> WireMsg \<Rightarrow> 'h EW \<Rightarrow> unit result \<times> 'h EW" where
  "afterWant J E i m x = (let topic = m_topic m; writer = m_writer m; key = wantKey topic writer in
     case readCore (getStream E topic writer) x of (head, x1) \<Rightarrow>
     if recoveryTarget (theCore x1) topic writer \<noteq> None then afterRecoveryRound J E i topic writer (contigSeq head) x1
     else if sealReason head = None \<and> m_toSeq m > contigSeq head then
       (case readCore (getCert topic) x1 of (cert, x2) \<Rightarrow>
          if (case cert of None \<Rightarrow> False | Some c \<Rightarrow> coveredBy c writer > contigSeq head) then ok x2
          else afterShortRound J E i topic writer (contigSeq head) x2)
     else ok (onPeer i (\<lambda>p. p\<lparr>ps_syncProgress := (ps_syncProgress p)(key := None), ps_stalled := removeAll key (ps_stalled p)\<rparr>) x1))"

definition entriesSettled :: "WireJson \<Rightarrow> LogEnv \<Rightarrow> nat \<Rightarrow> WireMsg \<Rightarrow> (nat \<times> nat) list \<Rightarrow> 'h EW \<Rightarrow> unit result \<times> 'h EW" where
  "entriesSettled J E i m ts x = (
     let results = map (\<lambda>(t, cost). (applyOutcome (en_log (snd x)) t, cost)) ts;
         good = filter (\<lambda>p. landed (fst p)) results;
         x1 = countRejects (m_topic m) (filter (\<lambda>r. \<not> landed r) (map fst results)) x;
         x2 = (if good = [] then x1
               else noteThroughput E (m_topic m) (ss_peerId (fst x1)) (length good) (sum_list (map snd good)) False x1)
     in case (m_reqOpt m, m_done m) of
          (Some req, True) \<Rightarrow>
            let w = map_of (ps_activeWants (thePeer i x2)) req in
            sthen (finishWant J E i req x2) (\<lambda>x. if w = None then ok x else afterWant J E i m x)
        | _ \<Rightarrow> ok x2)"

section \<open>PROBE, responder side\<close>

definition probeStep :: "Db \<Rightarrow> WriterRow \<Rightarrow> string \<Rightarrow> string \<Rightarrow> (nat \<times> string) list \<times> nat option \<Rightarrow> nat \<Rightarrow> (nat \<times> string) list \<times> nat option" where
  "probeStep d head topic writer acc seq = (case acc of (points, missing) \<Rightarrow>
     case getEntry d topic writer seq of
       Some e \<Rightarrow> (points @ [(seq, e_chain e)], missing)
     | None \<Rightarrow> (points, if seq \<le> contigSeq head \<and> (case missing of None \<Rightarrow> True | Some n \<Rightarrow> seq < n) then Some seq else missing))"

definition serveProbe :: "WireJson \<Rightarrow> LogEnv \<Rightarrow> WireMsg \<Rightarrow> 'h EW \<Rightarrow> unit result \<times> 'h EW" where
  "serveProbe J E m x = (case readCore (getStream E (m_topic m) (m_writer m)) x of (head, x1) \<Rightarrow>
     case foldl (probeStep (lc_db (theCore x1)) head (m_topic m) (m_writer m)) ([], None) (m_seqs m) of (points, missing) \<Rightarrow>
       control J E (PROBE_RES (m_topic m) (m_writer m) points (map_option (\<lambda>n. n + 1) missing)) x1)"

section \<open>Dispatch\<close>

definition skipHub :: "('h HW \<Rightarrow> unit result \<times> 'h HW) \<Rightarrow> bool \<Rightarrow> 'h EW \<Rightarrow> unit result \<times> 'h EW" where
  "skipHub f c x = (if c then callHub f x else ok x)"

definition touch :: "nat \<Rightarrow> 'h EW \<Rightarrow> 'h EW" where
  "touch i x = onPeer i (\<lambda>p. p\<lparr>ps_lastActivity := en_now (snd x)\<rparr>) x"

definition onControl :: "'h Hubs \<Rightarrow> WireJson \<Rightarrow> LogEnv \<Rightarrow> nat \<Rightarrow> WireMsg \<Rightarrow> 'h EW \<Rightarrow> unit result \<times> 'h EW" where
  "onControl H J E i m x0 = (if i \<notin> set (en_peers (snd x0)) then ok x0 else let x = touch i x0 in case m of
     HAVE_GET _ \<Rightarrow> serveHave J E i m x
   | HAVE _ _ _ _ \<Rightarrow> onHavePage H J E i m x
   | WANT _ _ _ _ \<Rightarrow> serveWant H J E i m x
   | PROBE _ _ _ \<Rightarrow> serveProbe J E m x
   | TRUNCATED _ _ _ _ _ \<Rightarrow> onTruncated J E i m x
   | PROBE_RES _ _ _ _ \<Rightarrow> ok (onProbeRes i m x)
   | FINALITY topic cert \<Rightarrow> ok (if en_finality (snd x) \<and> mutualFull (fst x) topic
       then onEngine (\<lambda>e. e\<lparr>en_certCalls := en_certCalls e @ [cert]\<rparr>) x else x)
   | WRITER_DIRECTIVE d \<Rightarrow> ok (if en_directives (snd x) \<and> mutualFull (fst x) (toStr (getProp d ''topic''))
       then onEngine (\<lambda>e. e\<lparr>en_directiveCalls := en_directiveCalls e @ [d]\<rparr>) x else x)
   | SNAPSHOT_OFFER topic _ _ _ _ \<Rightarrow> skipHub (hub_offer H i m) (mutualFull (fst x) topic) x
   | SNAPSHOT_GET topic _ _ \<Rightarrow> skipHub (hub_get H i m) (mutualFull (fst x) topic) x
   | SUB _ _ _ _ \<Rightarrow> callHub (hub_sub H i m) x
   | UNSUB _ \<Rightarrow> callHub (hub_sub H i m) x
   | SUB_ERR _ _ \<Rightarrow> callHub (hub_sub H i m) x
   | _ \<Rightarrow> ok x)"

definition onData :: "'h Hubs \<Rightarrow> WireJson \<Rightarrow> LogEnv \<Rightarrow> nat \<Rightarrow> WireMsg \<Rightarrow> 'h EW \<Rightarrow> unit result \<times> 'h EW" where
  "onData H J E i m x0 = (if i \<notin> set (en_peers (snd x0)) then ok x0 else let x = touch i x0 in case m of
     ENTRIES _ _ _ _ _ _ _ _ \<Rightarrow> onEntries J E i m x
   | SNAP _ _ _ _ _ _ _ _ \<Rightarrow> callHub (hub_sub H i m) x
   | DELTA _ _ _ _ _ \<Rightarrow> callHub (hub_sub H i m) x
   | SNAPSHOT _ _ _ _ _ _ _ \<Rightarrow> callHub (hub_chunk H i m) x
   | _ \<Rightarrow> ok x)"

section \<open>The callbacks of a session\<close>

definition onReady :: "WireJson \<Rightarrow> LogEnv \<Rightarrow> nat \<Rightarrow> 'h EW \<Rightarrow> unit result \<times> 'h EW" where
  "onReady J E i x = (if i \<notin> set (en_peers (snd x)) then ok x
     else sthen (startHaveRound J E i (touch i x)) (\<lambda>x. ok (onPeer i (\<lambda>p. p\<lparr>ps_antiEntropyTimer := True\<rparr>) x)))"

definition onCapacity :: "'h Hubs \<Rightarrow> WireJson \<Rightarrow> LogEnv \<Rightarrow> nat \<Rightarrow> 'h EW \<Rightarrow> unit result \<times> 'h EW" where
  "onCapacity H J E i x = sthen (callHub (hub_capacity H i) x) (\<lambda>x.
     if i \<in> set (en_peers (snd x)) then pumpDirty J E i x else ok x)"

definition onGrantsUpdated :: "WireJson \<Rightarrow> LogEnv \<Rightarrow> nat \<Rightarrow> 'h EW \<Rightarrow> unit result \<times> 'h EW" where
  "onGrantsUpdated J E i x = (if i \<in> set (en_peers (snd x)) \<and> ss_state (fst x) = SReady then startHaveRound J E i x else ok x)"

definition engineCb :: "'h Hubs \<Rightarrow> WireJson \<Rightarrow> LogEnv \<Rightarrow> nat \<Rightarrow> 'h Engine SessionCb" where
  "engineCb H J E i = \<lparr>cb_onReady = onReady J E i, cb_onClose = onClosed H i, cb_onControl = onControl H J E i,
     cb_onData = onData H J E i, cb_onCapacity = onCapacity H J E i, cb_onGrantsUpdated = onGrantsUpdated J E i\<rparr>"

text \<open>Timers: anti-entropy, and the delayed pump.\<close>

definition antiEntropyTick :: "WireJson \<Rightarrow> LogEnv \<Rightarrow> nat \<Rightarrow> 'h EW \<Rightarrow> unit result \<times> 'h EW" where
  "antiEntropyTick J E i x = (if \<not> ps_antiEntropyTimer (thePeer i x) \<or> ss_state (fst x) \<noteq> SReady then ok x
     else sthen (startHaveRound J E i (onPeer i (\<lambda>p. p\<lparr>ps_antiEntropyTimer := False\<rparr>) x))
       (\<lambda>x. ok (onPeer i (\<lambda>p. p\<lparr>ps_antiEntropyTimer := True\<rparr>) x)))"

definition pumpTick :: "WireJson \<Rightarrow> LogEnv \<Rightarrow> nat \<Rightarrow> 'h EW \<Rightarrow> unit result \<times> 'h EW" where
  "pumpTick J E i x = (case ps_pumpTimer (thePeer i x) of
     None \<Rightarrow> ok x
   | Some due \<Rightarrow> if en_now (snd x) < due then ok x
       else pumpDirty J E i (onPeer i (\<lambda>p. p\<lparr>ps_pumpTimer := None\<rparr>) x))"

section \<open>The node's sessions\<close>

type_synonym 'h Net = "(nat \<Rightarrow> Session) \<times> 'h Engine"

definition atPeer :: "nat \<Rightarrow> ('h EW \<Rightarrow> unit result \<times> 'h EW) \<Rightarrow> 'h Net \<Rightarrow> unit result \<times> 'h Net" where
  "atPeer i f N = (case f (fst N i, snd N) of (r, (s, e)) \<Rightarrow> (r, ((fst N)(i := s), e)))"

definition eachPeer :: "(nat \<Rightarrow> 'h EW \<Rightarrow> unit result \<times> 'h EW) \<Rightarrow> nat list \<Rightarrow> 'h Net \<Rightarrow> unit result \<times> 'h Net" where
  "eachPeer f = seach (\<lambda>i. atPeer i (f i))"

definition attach ::
  "WireJson \<Rightarrow> LogEnv \<Rightarrow> nat \<Rightarrow> string \<Rightarrow> PeerClass \<Rightarrow> (string \<times> GrantMode) list \<Rightarrow> 'h Net \<Rightarrow> unit result \<times> 'h Net" where
  "attach J E i peerId cls gs N = (case newSession J E peerId cls gs of
     Inl e \<Rightarrow> (Inl e, N)
   | Inr s \<Rightarrow> ok ((fst N)(i := s), (snd N)\<lparr>en_peers := en_peers (snd N) @ [i],
       en_ps := (en_ps (snd N))(i := newPeer (en_now (snd N)))\<rparr>))"

definition closeAll :: "'h Hubs \<Rightarrow> 'h Net \<Rightarrow> unit result \<times> 'h Net" where
  "closeAll H N = eachPeer (\<lambda>i x. ok (closePeer H i CR_node_closed x)) (en_peers (snd N)) N"

definition peerStats :: "'h Net \<Rightarrow> (string \<times> SessionState \<times> nat \<times> nat \<times> nat) list" where
  "peerStats N = map (\<lambda>i. (ss_peerId (fst N i), ss_state (fst N i), length (ps_dirty (en_ps (snd N) i)),
     queuedData (fst N i), length (ps_stalled (en_ps (snd N) i)))) (en_peers (snd N))"

definition whenFull :: "string \<Rightarrow> ('h EW \<Rightarrow> unit result \<times> 'h EW) \<Rightarrow> 'h EW \<Rightarrow> unit result \<times> 'h EW" where
  "whenFull topic f x = (if ss_state (fst x) = SReady \<and> mutualFull (fst x) topic then f x else ok x)"

text \<open>What the hubs call back: broadcast a certificate or a directive, look for the canonical range of a recovery,
  refresh the rounds after a certificate or an adopted snapshot.\<close>

definition broadcastCert :: "WireJson \<Rightarrow> LogEnv \<Rightarrow> string \<Rightarrow> FinalityCert \<Rightarrow> 'h Net \<Rightarrow> unit result \<times> 'h Net" where
  "broadcastCert J E topic cert N = eachPeer (\<lambda>i. whenFull topic (control J E (FINALITY topic (cert_js cert)))) (en_peers (snd N)) N"

definition broadcastDirective :: "WireJson \<Rightarrow> LogEnv \<Rightarrow> WriterDirective \<Rightarrow> 'h Net \<Rightarrow> unit result \<times> 'h Net" where
  "broadcastDirective J E d N =
     eachPeer (\<lambda>i. whenFull (d_topic d) (control J E (WRITER_DIRECTIVE (directive_js d)))) (en_peers (snd N)) N"

definition directiveApplied :: "WireJson \<Rightarrow> LogEnv \<Rightarrow> WriterDirective \<Rightarrow> DirResult \<Rightarrow> 'h Net \<Rightarrow> unit result \<times> 'h Net" where
  "directiveApplied J E d r N = (if r \<noteq> DirRecovery then ok N
     else eachPeer (\<lambda>i. whenFull (d_topic d) (queueWant J E i (d_topic d) (d_writer d))) (en_peers (snd N)) N)"

definition refreshRounds :: "WireJson \<Rightarrow> LogEnv \<Rightarrow> 'h Net \<Rightarrow> unit result \<times> 'h Net" where
  "refreshRounds J E N = eachPeer (\<lambda>i x. if ss_state (fst x) = SReady then startHaveRound J E i x else ok x) (en_peers (snd N)) N"

text \<open>Own appends go to the most recently active peers, foreign ones to all but the one they came from.\<close>

definition activityOrder :: "'h Net \<Rightarrow> nat \<Rightarrow> nat \<Rightarrow> int" where
  "activityOrder N i j = (let a = ps_lastActivity (en_ps (snd N) i); b = ps_lastActivity (en_ps (snd N) j) in
     if a \<noteq> b then int b - int a else if ss_peerId (fst N i) < ss_peerId (fst N j) then -1 else 1)"

definition eagerTargets :: "LogEnv \<Rightarrow> string \<Rightarrow> 'h Net \<Rightarrow> nat list" where
  "eagerTargets E topic N = take (EAGER_PUSH_K (constants E)) (sort_by (activityOrder N)
     (filter (\<lambda>i. ss_state (fst N i) = SReady \<and> mutualFull (fst N i) topic) (en_peers (snd N))))"

definition handleApplied :: "LogEnv \<Rightarrow> LogEntry \<Rightarrow> string option \<Rightarrow> 'h Net \<Rightarrow> unit result \<times> 'h Net" where
  "handleApplied E e via N = (
     if via = None \<and> e_writer e = selfId E then
       (case reg_get (registry E) (e_topic e) of
          Inl err \<Rightarrow> (Inl err, N)
        | Inr te \<Rightarrow> eachPeer (\<lambda>i x. ok (markDirty i (e_topic e) (e_writer e)
              (case p_flushThrottleMs (te_policy te) of None \<Rightarrow> 0 | Some n \<Rightarrow> nat_of_num n) x)) (eagerTargets E (e_topic e) N) N)
     else if via = None then ok N
     else eachPeer (\<lambda>i x. ok (if Some (ss_peerId (fst x)) = via then x else markDirty i (e_topic e) (e_writer e) 0 x))
            (en_peers (snd N)) N)"

text \<open>The waits whose tickets are all settled.\<close>

definition settledTicket :: "LogQueue \<Rightarrow> nat \<Rightarrow> bool" where
  "settledTicket q t \<longleftrightarrow> map_of (q_done q) t \<noteq> None"

definition floorRefused :: "LogQueue \<Rightarrow> nat option \<Rightarrow> bool" where
  "floorRefused q t = (case t of None \<Rightarrow> True | Some k \<Rightarrow>
     (case map_of (q_done q) k of Some (RFloor r) \<Rightarrow> r = FloorRefused | _ \<Rightarrow> True))"

definition resumeWait :: "WireJson \<Rightarrow> LogEnv \<Rightarrow> Wait \<Rightarrow> 'h Net \<Rightarrow> unit result \<times> 'h Net" where
  "resumeWait J E w N = (let q = en_log (snd N); N1 = (fst N, (snd N)\<lparr>en_waits := remove1 w (en_waits (snd N))\<rparr>) in
     case w of
       WEntries i m ts \<Rightarrow> if \<forall>p \<in> set ts. settledTicket q (fst p) then atPeer i (entriesSettled J E i m ts) N1 else ok N
     | WFloor i m peerHead t \<Rightarrow> if (case t of None \<Rightarrow> True | Some k \<Rightarrow> settledTicket q k)
         then atPeer i (floorSettled J E i m peerHead (floorRefused q t)) N1 else ok N)"

end
