(* ===== verification/Session_Rules.thy ===== *)
theory Session_Rules
  imports Session "HOL-Library.Sublist"
begin

text \<open>
  What the data lane of a session promises: over a channel that loses, duplicates and reorders
  frames, the messages delivered are a prefix of the messages sent, in order and without repetition,
  the receive buffer stays within the credit window, and a conforming sender never trips the
  window check. The callbacks are an interface: they may use the operations of the session,
  and nothing else.
\<close>

section \<open>What a client may do to a session\<close>

definition plain :: "WireMsg \<Rightarrow> bool" where
  "plain m \<longleftrightarrow> \<not> isData m \<and> (\<forall>n. m \<noteq> ACK n)"

text \<open>A builder makes a data message and stamps the mid it gets. Its frame may turn out too large.\<close>

definition good_make :: "(nat \<Rightarrow> WireMsg) \<Rightarrow> bool" where
  "good_make mk \<longleftrightarrow> (\<forall>k. isData (mk k) \<and> m_mid (mk k) = int k)"

inductive sess_op :: "WireJson \<Rightarrow> LogEnv \<Rightarrow> Session \<Rightarrow> Session \<Rightarrow> bool" for J E where
  control: "plain m \<Longrightarrow> sess_op J E s (snd (sendControl J E m s))"
| ask: "plain m \<Longrightarrow> sess_op J E s (snd (request J E key (RMsg m) s))"
| satisfied: "sess_op J E s (satisfyRequest key s)"
| data: "good_make mk \<Longrightarrow> sess_op J E s (snd (sendData J E now mk s))"
| closed: "ss_state s \<noteq> SClosed \<Longrightarrow> sess_op J E s (closeSession reason s)"

locale session_client =
  fixes C :: "'w SessionCb" and J :: WireJson and E :: LogEnv
  assumes ready_ops: "(sess_op J E)\<^sup>*\<^sup>* (fst x) (fst (snd (cb_onReady C x)))"
    and close_ops: "(sess_op J E)\<^sup>*\<^sup>* (fst x) (fst (cb_onClose C x))"
    and control_ops: "(sess_op J E)\<^sup>*\<^sup>* (fst x) (fst (snd (cb_onControl C m x)))"
    and data_ops: "(sess_op J E)\<^sup>*\<^sup>* (fst x) (fst (snd (cb_onData C m x)))"
    and capacity_ops: "(sess_op J E)\<^sup>*\<^sup>* (fst x) (fst (snd (cb_onCapacity C x)))"
    and grants_ops: "(sess_op J E)\<^sup>*\<^sup>* (fst x) (fst (snd (cb_onGrantsUpdated C x)))"
begin
end

definition req_ok :: "ReqMake \<Rightarrow> bool" where
  "req_ok r \<longleftrightarrow> r = RHello \<or> (\<exists>m. r = RMsg m \<and> plain m)"

section \<open>The invariant of one session\<close>

definition retired :: "Session \<Rightarrow> WireMsg list" where
  "retired s = take (length (ss_sent s) - length (ss_unacked s)) (ss_sent s)"

text \<open>What was sent is what was acknowledged, then what is not.\<close>

definition lanes_ok :: "Session \<Rightarrow> bool" where
  "lanes_ok s \<longleftrightarrow> ss_sent s = retired s @ map un_msg (ss_unacked s) \<and> length (ss_unacked s) \<le> length (ss_sent s) \<and>
     (\<forall>u \<in> set (ss_unacked s). int (un_mid u) = m_mid (un_msg u))"

lemma lanes_split: "lanes_ok s \<Longrightarrow> ss_sent s = retired s @ map un_msg (ss_unacked s)"
  by (simp add: lanes_ok_def)

definition send_ok :: "WireJson \<Rightarrow> LogEnv \<Rightarrow> Session \<Rightarrow> bool" where
  "send_ok J E s \<longleftrightarrow>
     lanes_ok s \<and>
     length (ss_unacked s) \<le> INFLIGHT_CREDITS (constants E) \<and> 1 \<le> ss_nextMid s \<and>
     (\<forall>p \<in> set (ss_out s). isData (fst p) \<longrightarrow> fst p \<in> set (ss_sent s)) \<and>
     sorted_wrt (<) (map m_mid (ss_sent s)) \<and>
     (\<forall>m \<in> set (ss_sent s). isData m \<and> 1 \<le> m_mid m \<and> m_mid m < int (ss_nextMid s)) \<and>
     (\<forall>mk \<in> set (ss_outQueue s). good_make mk) \<and>
     (\<forall>p \<in> set (ss_out s). \<forall>n. fst p = ACK n \<longrightarrow> n \<le> ss_recvContig s) \<and>
     (\<forall>p \<in> set (ss_requests s). req_ok (fst (snd p)))"

definition recv_ok :: "LogEnv \<Rightarrow> Session \<Rightarrow> bool" where
  "recv_ok E s \<longleftrightarrow> distinct (map fst (ss_recvBuffer s)) \<and>
     (\<forall>p \<in> set (ss_recvBuffer s). m_mid (snd p) = fst p \<and> int (ss_recvContig s) < fst p \<and>
        fst p \<le> int (ss_recvContig s) + int (INFLIGHT_CREDITS (constants E))) \<and>
     map m_mid (ss_delivered s) = map int [1..<ss_recvContig s + 1]"

definition sess_inv :: "WireJson \<Rightarrow> LogEnv \<Rightarrow> Session \<Rightarrow> bool" where
  "sess_inv J E s \<longleftrightarrow> send_ok J E s \<and> recv_ok E s"

definition got :: "Session \<Rightarrow> WireMsg set" where
  "got s = set (ss_delivered s) \<union> snd ` set (ss_recvBuffer s)"

text \<open>A step keeps the invariant, takes in only the messages \<open>D\<close>, and retires mids only up to \<open>a\<close>.\<close>

definition keeps :: "WireJson \<Rightarrow> LogEnv \<Rightarrow> WireMsg set \<Rightarrow> nat \<Rightarrow> Session \<Rightarrow> Session \<Rightarrow> bool" where
  "keeps J E D a s s' \<longleftrightarrow> (sess_inv J E s \<longrightarrow> sess_inv J E s' \<and> got s' \<subseteq> got s \<union> D \<and> (\<forall>m \<in> set (retired s'). m \<in> set (retired s) \<or> m_mid m \<le> int a) \<and>
     ss_recvContig s \<le> ss_recvContig s' \<and> set (ss_sent s) \<subseteq> set (ss_sent s') \<and> set (ss_out s) \<subseteq> set (ss_out s'))"

lemma keeps_refl [simp, intro]: "keeps J E D a s s"
  by (simp add: keeps_def)

lemma keeps_trans [trans]: "keeps J E D a s s1 \<Longrightarrow> keeps J E D a s1 s2 \<Longrightarrow> keeps J E D a s s2"
  unfolding keeps_def by (auto 0 3)

lemma keeps_mono: "keeps J E {} 0 s s' \<Longrightarrow> keeps J E D a s s'"
  unfolding keeps_def by auto

lemma keeps_sthen:
  assumes "keeps J E D a (fst x) (fst (snd r))" "\<And>y. keeps J E D a (fst y) (fst (snd (f y)))"
  shows "keeps J E D a (fst x) (fst (snd (sthen r f)))"
proof -
  obtain e y where r: "r = (e, y)" by (cases r)
  have "keeps J E D a (fst x) (fst y)" using assms(1) r by simp
  then show ?thesis using assms(2) keeps_trans by (fastforce simp: sthen_def r split: sum.split)
qed

lemma keeps_sthen_s:
  assumes "keeps J E D a s (snd r)" "\<And>y. keeps J E D a y (snd (f y))"
  shows "keeps J E D a s (snd (sthen r f))"
proof -
  obtain e y where r: "r = (e, y)" by (cases r)
  have "keeps J E D a s y" using assms(1) r by simp
  then show ?thesis using assms(2) keeps_trans by (fastforce simp: sthen_def r split: sum.split)
qed

lemma keeps_ok [simp]: "keeps J E D a s (snd (ok s))" "keeps J E D a (fst x) (fst (snd (ok x)))"
  by (simp_all add: ok_def)

text \<open>Fields outside both lanes.\<close>

lemma keeps_cong:
  assumes "ss_unacked s' = ss_unacked s" "ss_nextMid s' = ss_nextMid s" "ss_out s' = ss_out s" "ss_sent s' = ss_sent s"
    "ss_outQueue s' = ss_outQueue s" "ss_recvContig s' = ss_recvContig s" "ss_recvBuffer s' = ss_recvBuffer s"
    "ss_delivered s' = ss_delivered s" "\<forall>p \<in> set (ss_requests s'). p \<in> set (ss_requests s) \<or> req_ok (fst (snd p))"
  shows "keeps J E D a s s'"
  unfolding keeps_def sess_inv_def send_ok_def recv_ok_def got_def lanes_ok_def retired_def assms(1-8) using assms(9) by fastforce

lemma keeps_out:
  assumes "plain m \<or> (\<exists>n \<le> ss_recvContig s. m = ACK n)"
  shows "keeps J E D a s (s\<lparr>ss_out := ss_out s @ [(m, raw)]\<rparr>)"
proof -
  have "\<not> isData m" using assms by (auto simp: plain_def isData_def)
  then show ?thesis
    using assms unfolding keeps_def sess_inv_def send_ok_def recv_ok_def got_def lanes_ok_def retired_def by (auto simp: plain_def)
qed

lemma keeps_sendControl:
  "plain m \<or> (\<exists>n \<le> ss_recvContig s. m = ACK n) \<Longrightarrow> keeps J E D a s (snd (sendControl J E m s))"
  using keeps_out by (simp add: sendControl_def ok_def split: sum.split)

lemma helloMsg_plain: "helloMsg E s = Inr m \<Longrightarrow> plain m"
  by (auto simp: helloMsg_def rbind_eq_Inr plain_def isData_def)

lemma update_subset: "set (AList.update k v xs) \<subseteq> insert (k, v) (set xs)"
  by (induction xs) auto

lemma keeps_cancel: "keeps J E D a s (cancelRequest key s)"
  by (rule keeps_cong) (auto simp: cancelRequest_def AList.delete_eq)

lemma keeps_rearm: "req_ok r \<Longrightarrow> keeps J E D a s (s\<lparr>ss_requests := AList.update key (r, b) (ss_requests s)\<rparr>)"
  by (rule keeps_cong) (use update_subset [of key "(r, b)" "ss_requests s"] in auto)

lemma keeps_fire:
  assumes "req_ok r"
  shows "keeps J E D a s (snd (fireRequest J E key r s))"
proof (cases "makeReq E r s")
  case (Inr m)
  then have "plain m" using assms helloMsg_plain by (auto simp: makeReq_def req_ok_def)
  then show ?thesis
    using Inr assms by (simp add: fireRequest_def) (intro keeps_sthen_s keeps_sendControl; simp add: ok_def keeps_rearm)
qed (simp add: fireRequest_def)

lemma keeps_request:
  assumes "req_ok r"
  shows "keeps J E D a s (snd (request J E key r s))"
proof (cases "ss_state s = SClosed")
  case False
  have "keeps J E D a s ((cancelRequest key s)\<lparr>ss_requests := ss_requests (cancelRequest key s) @ [(key, r, False)]\<rparr>)"
    by (rule keeps_cong) (use assms in \<open>auto simp: cancelRequest_def AList.delete_eq\<close>)
  also note keeps_fire [OF assms]
  finally show ?thesis using False by (simp add: request_def)
qed (simp add: request_def ok_def)

lemma send_ok_transmit:
  assumes "send_ok J E s" "length (ss_unacked s) < INFLIGHT_CREDITS (constants E)" "good_make mk"
    "\<forall>mk \<in> set rest. good_make mk" "u = \<lparr>un_mid = ss_nextMid s, un_at = now, un_msg = mk (ss_nextMid s), un_frame = raw, un_sentAt = now\<rparr>"
    and s': "s' = s\<lparr>ss_nextMid := ss_nextMid s + 1, ss_outQueue := rest, ss_unacked := ss_unacked s @ [u],
    ss_out := ss_out s @ [(mk (ss_nextMid s), raw)], ss_sent := ss_sent s @ [mk (ss_nextMid s)]\<rparr>"
  shows "send_ok J E s'" and "retired s' = retired s"
proof -
  let ?n = "ss_nextMid s"
  note ok = assms(1) [unfolded send_ok_def]
  have mk: "isData (mk ?n)" "m_mid (mk ?n) = int ?n" using assms(3) by (simp_all add: good_make_def)
  then have no_ack: "mk ?n \<noteq> ACK i" for i by (auto simp: isData_def)
  have lanes: "lanes_ok s" using ok by simp
  then have le: "length (ss_unacked s) \<le> length (ss_sent s)" by (simp add: lanes_ok_def)
  show ret: "retired s' = retired s" using le by (simp add: retired_def s')
  show "send_ok J E s'"
    unfolding send_ok_def
  proof (intro conjI)
    show "lanes_ok s'"
      unfolding lanes_ok_def ret using lanes mk(2) assms(5) by (auto simp: lanes_ok_def s')
    show "\<forall>p \<in> set (ss_out s'). isData (fst p) \<longrightarrow> fst p \<in> set (ss_sent s')" using ok by (auto simp: s')
    show "\<forall>p \<in> set (ss_out s'). \<forall>n. fst p = ACK n \<longrightarrow> n \<le> ss_recvContig s'" using ok no_ack by (auto simp: s')
    show "sorted_wrt (<) (map m_mid (ss_sent s'))" using ok mk by (auto simp: s' sorted_wrt_append)
    show "\<forall>m \<in> set (ss_sent s'). isData m \<and> 1 \<le> m_mid m \<and> m_mid m < int (ss_nextMid s')" using ok mk by (fastforce simp: s')
  qed (use ok assms(2,4,5) mk in \<open>auto simp: s'\<close>)
qed

lemma keeps_skip:
  assumes "\<forall>mk \<in> set rest. good_make mk"
  shows "keeps J E D a s (s\<lparr>ss_nextMid := ss_nextMid s + 1, ss_outQueue := rest\<rparr>)"
  using assms unfolding keeps_def sess_inv_def send_ok_def recv_ok_def got_def lanes_ok_def retired_def by auto

lemma keeps_pumpQueue:
  "(\<forall>mk \<in> set q. good_make mk) \<Longrightarrow> keeps J E D a s (snd (pumpQueue J E now q s))"
proof (induction q arbitrary: s)
  case Nil
  show ?case unfolding keeps_def sess_inv_def send_ok_def recv_ok_def got_def lanes_ok_def retired_def by (simp add: ok_def)
next
  case (Cons mk rest)
  consider (stop) "ss_state s = SClosed \<or> length (ss_unacked s) \<ge> INFLIGHT_CREDITS (constants E)"
    | (go) "ss_state s \<noteq> SClosed" "length (ss_unacked s) < INFLIGHT_CREDITS (constants E)"
    by linarith
  then show ?case
  proof cases
    case stop
    have "keeps J E D a s (s\<lparr>ss_outQueue := mk # rest\<rparr>)"
      using Cons.prems unfolding keeps_def sess_inv_def send_ok_def recv_ok_def got_def lanes_ok_def retired_def by simp
    then show ?thesis using stop by (simp add: ok_def)
  next
    case go
    show ?thesis
    proof (cases "serializeMsg J (constants E) (mk (ss_nextMid s))")
      case (Inl e)
      then show ?thesis using go keeps_skip [of rest J E D a s] Cons.prems by (simp add: Let_def)
    next
      case (Inr raw)
      let ?s = "s\<lparr>ss_nextMid := ss_nextMid s + 1, ss_outQueue := rest, ss_unacked := ss_unacked s @
          [\<lparr>un_mid = ss_nextMid s, un_at = now, un_msg = mk (ss_nextMid s), un_frame = raw, un_sentAt = now\<rparr>],
        ss_out := ss_out s @ [(mk (ss_nextMid s), raw)], ss_sent := ss_sent s @ [mk (ss_nextMid s)]\<rparr>"
      have "keeps J E D a s ?s"
        using send_ok_transmit [OF _ go(2), of J mk rest _ now raw ?s] Cons.prems
        unfolding keeps_def sess_inv_def recv_ok_def got_def by auto
      also have "keeps J E D a ?s (snd (pumpQueue J E now rest ?s))" using Cons by simp
      finally show ?thesis using go Inr by (simp add: Let_def)
    qed
  qed
qed

lemma keeps_pumpData: "keeps J E D a s (snd (pumpData J E now s))"
proof -
  have "keeps J E D a y (snd (ok (armRetry y)))" for y
    by (auto simp: ok_def armRetry_def intro: keeps_cong)
  moreover have "keeps J E D a s (snd (pumpQueue J E now (ss_outQueue s) s))" if "sess_inv J E s"
    using that by (intro keeps_pumpQueue) (simp add: sess_inv_def send_ok_def)
  ultimately have "keeps J E D a s (snd (pumpData J E now s))" if "sess_inv J E s"
    unfolding pumpData_def using that by (intro keeps_sthen_s) auto
  then show ?thesis by (auto simp: keeps_def)
qed

lemma keeps_sendData:
  assumes "good_make mk"
  shows "keeps J E D a s (snd (sendData J E now mk s))"
proof (cases "ss_state s = SClosed \<or> length (ss_outQueue s) \<ge> SEND_QUEUE_CAP (constants E)")
  case False
  have "keeps J E D a s (s\<lparr>ss_outQueue := ss_outQueue s @ [mk]\<rparr>)"
    using assms unfolding keeps_def sess_inv_def send_ok_def recv_ok_def got_def lanes_ok_def retired_def by auto
  also note keeps_pumpData [of J E D a _ now]
  finally show ?thesis using False by (cases "pumpData J E now (s\<lparr>ss_outQueue := ss_outQueue s @ [mk]\<rparr>)")
    (simp add: sendData_def split: sum.split)
qed (auto simp: sendData_def)

lemma keeps_close: "keeps J E D a s (closeSession reason s)"
  by (rule keeps_cong) (simp_all add: closeSession_def)

lemma keeps_op: "sess_op J E s s' \<Longrightarrow> keeps J E D a s s'"
  by (induction rule: sess_op.induct)
    (auto simp: satisfyRequest_def req_ok_def intro: keeps_sendControl keeps_request keeps_cancel keeps_sendData keeps_close)

lemma keeps_ops: "(sess_op J E)\<^sup>*\<^sup>* s s' \<Longrightarrow> keeps J E D a s s'"
  by (induction rule: rtranclp_induct) (auto intro: keeps_trans keeps_op)

lemma keeps_retry: "keeps J E D a s (retryUnacked E now s)"
proof -
  let ?s = "s\<lparr>ss_retryTimer := False,
       ss_unacked := map (\<lambda>u. if overdue E now u then u\<lparr>un_sentAt := now\<rparr> else u) (ss_unacked s),
       ss_out := ss_out s @ map (\<lambda>u. (un_msg u, un_frame u)) (filter (overdue E now) (ss_unacked s))\<rparr>"
  have ret: "retired ?s = retired s" by (simp add: retired_def)
  have "map un_msg (ss_unacked ?s) = map un_msg (ss_unacked s)" by simp
  then have lanes: "lanes_ok ?s" if "lanes_ok s" using that unfolding lanes_ok_def ret by auto
  have "send_ok J E ?s" if ok: "send_ok J E s"
    unfolding send_ok_def
  proof (intro conjI)
    have data: "isData (un_msg u)" "un_msg u \<in> set (ss_sent s)" if "u \<in> set (ss_unacked s)" for u
    proof -
      have "un_msg u \<in> set (retired s @ map un_msg (ss_unacked s))" using that by simp
      then show "un_msg u \<in> set (ss_sent s)" using ok by (simp only: send_ok_def lanes_split)
      then show "isData (un_msg u)" using ok by (simp add: send_ok_def)
    qed
    then show "\<forall>p \<in> set (ss_out ?s). isData (fst p) \<longrightarrow> fst p \<in> set (ss_sent ?s)" using ok by (auto simp: send_ok_def)
    show "\<forall>p \<in> set (ss_out ?s). \<forall>n. fst p = ACK n \<longrightarrow> n \<le> ss_recvContig ?s"
    proof -
      have "un_msg u \<noteq> ACK n" if "u \<in> set (ss_unacked s)" for u n using data(1) [OF that] by (auto simp: isData_def)
      then show ?thesis using ok by (auto simp: send_ok_def)
    qed
  qed (use ok lanes in \<open>auto simp: send_ok_def\<close>)
  then have "keeps J E D a s ?s" unfolding keeps_def sess_inv_def ret by (auto simp: recv_ok_def got_def)
  also have "keeps J E D a ?s (armRetry ?s)" by (auto simp: armRetry_def intro: keeps_cong)
  finally have "keeps J E D a s (armRetry ?s)" .
  moreover have "keeps J E D a s (s\<lparr>ss_retryTimer := False\<rparr>)" by (rule keeps_cong) simp_all
  ultimately show ?thesis by (simp add: retryUnacked_def Let_def)
qed

section \<open>Inbound messages\<close>

lemma keeps_pop:
  assumes "map_of (ss_recvBuffer s) (int (ss_recvContig s) + 1) = Some m"
  shows "keeps J E D a s (s\<lparr>ss_recvBuffer := AList.delete (int (ss_recvContig s) + 1) (ss_recvBuffer s),
    ss_recvContig := ss_recvContig s + 1, ss_delivered := ss_delivered s @ [m]\<rparr>)"
proof -
  let ?k = "int (ss_recvContig s) + 1"
  have mem: "(?k, m) \<in> set (ss_recvBuffer s)" using assms by (rule map_of_SomeD)
  have del: "set (AList.delete ?k (ss_recvBuffer s)) \<subseteq> set (ss_recvBuffer s)"
    "\<And>p. p \<in> set (AList.delete ?k (ss_recvBuffer s)) \<Longrightarrow> fst p \<noteq> ?k"
    by (auto simp: AList.delete_eq)
  have r: "recv_ok E (s\<lparr>ss_recvBuffer := AList.delete ?k (ss_recvBuffer s),
      ss_recvContig := ss_recvContig s + 1, ss_delivered := ss_delivered s @ [m]\<rparr>)" if ok: "recv_ok E s"
    unfolding recv_ok_def
  proof (intro conjI ballI)
    have "m_mid m = ?k" using ok mem by (auto simp: recv_ok_def)
    then show "map m_mid (ss_delivered (s\<lparr>ss_recvBuffer := AList.delete ?k (ss_recvBuffer s),
        ss_recvContig := ss_recvContig s + 1, ss_delivered := ss_delivered s @ [m]\<rparr>)) = map int [1 ..< ss_recvContig
        (s\<lparr>ss_recvBuffer := AList.delete ?k (ss_recvBuffer s), ss_recvContig := ss_recvContig s + 1, ss_delivered := ss_delivered s @ [m]\<rparr>) + 1]"
      using ok by (simp add: recv_ok_def)
  qed (use ok del in \<open>force simp: recv_ok_def distinct_delete\<close>)+
  have "snd ` set (AList.delete ?k (ss_recvBuffer s)) \<union> {m} \<subseteq> snd ` set (ss_recvBuffer s)"
    using del(1) mem by force
  then show ?thesis
    using r unfolding keeps_def sess_inv_def send_ok_def got_def lanes_ok_def retired_def by (auto intro: le_SucI)
qed

lemma keeps_buffer:
  assumes "isData m" "int (ss_recvContig s) < m_mid m" "m_mid m \<le> int (ss_recvContig s) + int (INFLIGHT_CREDITS (constants E))"
    and "m \<in> D"
  shows "keeps J E D a s (s\<lparr>ss_recvBuffer := AList.update (m_mid m) m (ss_recvBuffer s)\<rparr>)"
proof -
  have sub: "set (AList.update (m_mid m) m (ss_recvBuffer s)) \<subseteq> insert (m_mid m, m) (set (ss_recvBuffer s))" for s :: Session
  proof -
    have "set (AList.update k v xs) \<subseteq> insert (k, v) (set xs)" for k :: int and v and xs :: "(int \<times> WireMsg) list"
      by (induction xs) auto
    then show ?thesis .
  qed
  have "recv_ok E (s\<lparr>ss_recvBuffer := AList.update (m_mid m) m (ss_recvBuffer s)\<rparr>)" if "recv_ok E s"
    using that assms(2,3) sub [of s] by (auto simp: recv_ok_def distinct_update)
  then show ?thesis
    using sub [of s] assms(4) unfolding keeps_def sess_inv_def send_ok_def got_def lanes_ok_def retired_def by auto
qed

lemma keeps_ack:
  "keeps J E D n s (s\<lparr>ss_unacked := dropWhile (\<lambda>u. un_mid u \<le> n) (ss_unacked s), ss_ackProgressAt := t\<rparr>)"
proof -
  obtain gone kept where gone: "gone = takeWhile (\<lambda>u. un_mid u \<le> n) (ss_unacked s)"
    and kept: "kept = dropWhile (\<lambda>u. un_mid u \<le> n) (ss_unacked s)" by blast
  have split: "ss_unacked s = gone @ kept" by (simp add: gone kept)
  let ?s = "s\<lparr>ss_unacked := kept, ss_ackProgressAt := t\<rparr>"
  have "send_ok J E ?s \<and> (\<forall>m \<in> set (retired ?s). m \<in> set (retired s) \<or> m_mid m \<le> int n)" if ok: "send_ok J E s"
  proof -
    have lanes: "lanes_ok s" using ok by (simp add: send_ok_def)
    then have sent: "ss_sent s = (retired s @ map un_msg gone) @ map un_msg kept" using split by (simp add: lanes_ok_def)
    have ret: "retired ?s = retired s @ map un_msg gone"
      unfolding retired_def [of ?s] using arg_cong [OF sent, of length] by (simp, subst sent, simp)
    have "m_mid (un_msg u) \<le> int n" if "u \<in> set gone" for u
    proof -
      have "un_mid u \<le> n" "u \<in> set (ss_unacked s)" using that split set_takeWhileD unfolding gone by fastforce+
      then show ?thesis using lanes by (fastforce simp: lanes_ok_def)
    qed
    moreover have "lanes_ok ?s" unfolding lanes_ok_def ret using lanes sent split by (simp add: lanes_ok_def)
    then have "send_ok J E ?s" using ok split by (simp add: send_ok_def)
    ultimately show ?thesis unfolding ret by auto
  qed
  then show ?thesis
    unfolding kept [symmetric] keeps_def sess_inv_def recv_ok_def got_def by auto
qed

lemma keeps_onSess:
  "(\<And>s. keeps J E D a s (snd (f s))) \<Longrightarrow> keeps J E D a (fst x) (fst (snd (onSess f x)))"
  by (simp add: onSess_def split: prod.split) (metis snd_conv)

lemma keeps_upd_then:
  "keeps J E D a (fst x) (f (fst x)) \<Longrightarrow> keeps J E D a (f (fst x)) (fst (snd (g (upd f x)))) \<Longrightarrow> keeps J E D a (fst x) (fst (snd (g (upd f x))))"
  by (rule keeps_trans)

lemma keeps_seach:
  "(\<And>v s. v \<in> set vs \<Longrightarrow> keeps J E D a s (snd (f v s))) \<Longrightarrow> keeps J E D a s (snd (seach f vs s))"
proof (induction vs arbitrary: s)
  case (Cons v vs)
  show ?case unfolding seach.simps by (rule keeps_sthen_s) (use Cons in auto)
qed simp

lemma keeps_seach_w:
  "(\<And>v x. keeps J E D a (fst x) (fst (snd (f v x)))) \<Longrightarrow> keeps J E D a (fst x) (fst (snd (seach f vs x)))"
proof (induction vs arbitrary: x)
  case (Cons v vs)
  show ?case unfolding seach.simps by (rule keeps_sthen) (use Cons in auto)
qed simp

lemma keeps_err: "keeps J E D a s (snd (sendControl J E (errMsg c r d) s))"
  by (rule keeps_sendControl) (simp add: plain_def errMsg_def isData_def)

lemma keeps_refusals: "keeps J E D a s (snd (recomputeRefusals J E s))"
proof (cases "refusedNow E s")
  case (Inr next')
  have "keeps J E D a y (snd (ok (y\<lparr>ss_refused := next'\<rparr>)))" for y
    by (simp add: ok_def keeps_cong)
  then show ?thesis
    unfolding recomputeRefusals_def Inr sum.case by (intro keeps_sthen_s keeps_seach keeps_err)
qed (simp add: recomputeRefusals_def)

lemma keeps_ackNow: "keeps J E D a s (snd (sendControl J E (ACK (ss_recvContig s)) s))"
  by (rule keeps_sendControl) auto

context session_client
begin

lemmas callbacks = ready_ops [THEN keeps_ops] control_ops [THEN keeps_ops] data_ops [THEN keeps_ops]
  capacity_ops [THEN keeps_ops] grants_ops [THEN keeps_ops]

lemma keeps_close_cb: "keeps J E D a (fst x) (fst (close C reason x))"
proof (cases "ss_state (fst x) = SClosed")
  case False
  have "keeps J E D a (fst x) (fst (upd (closeSession reason) x))" by (simp add: upd_def keeps_close)
  also note close_ops [THEN keeps_ops]
  finally show ?thesis using False by (simp add: close_def)
qed (simp add: close_def)

lemma keeps_drainBuffer: "keeps J E D a (fst x) (fst (snd (drainBuffer C n x)))"
proof (induction n arbitrary: x)
  case (Suc n)
  let ?s = "fst x"
  show ?case
  proof (cases "map_of (ss_recvBuffer ?s) (int (ss_recvContig ?s) + 1)")
    case (Some m)
    let ?f = "\<lambda>s. s\<lparr>ss_recvBuffer := AList.delete (int (ss_recvContig ?s) + 1) (ss_recvBuffer s),
           ss_recvContig := ss_recvContig s + 1, ss_delivered := ss_delivered s @ [m]\<rparr>"
    have "keeps J E D a ?s (fst (upd ?f x))" using keeps_pop [OF Some] by (simp add: upd_def)
    also have "keeps J E D a (fst (upd ?f x)) (fst (snd (cb_onData C m (upd ?f x))))" by (rule callbacks)
    finally have "keeps J E D a ?s (fst (snd (cb_onData C m (upd ?f x))))" .
    then show ?thesis using Some Suc.IH by (simp add: Let_def keeps_sthen)
  qed (simp add: Let_def)
qed simp

lemma keeps_drainData: "keeps J E D a (fst x) (fst (snd (drainData C J E x)))"
  unfolding drainData_def
proof (rule keeps_sthen [OF keeps_drainBuffer])
  fix y
  show "keeps J E D a (fst y) (fst (snd (if ss_recvContig (fst y) > ss_recvContig (fst x)
      then onSess (\<lambda>s. sendControl J E (ACK (ss_recvContig s)) s) y else ok y)))"
    by (simp add: keeps_onSess keeps_ackNow)
qed

lemma keeps_onDataMsg:
  assumes "isData m"
  shows "keeps J E {m} a (fst x) (fst (snd (onDataMsg C J E m x)))"
proof -
  let ?s = "fst x"
  consider (dup) "m_mid m \<le> int (ss_recvContig ?s)"
    | (far) "\<not> m_mid m \<le> int (ss_recvContig ?s)" "m_mid m > int (ss_recvContig ?s) + int (INFLIGHT_CREDITS (constants E))"
    | (near) "\<not> m_mid m \<le> int (ss_recvContig ?s)" "\<not> m_mid m > int (ss_recvContig ?s) + int (INFLIGHT_CREDITS (constants E))"
    by blast
  then show ?thesis
  proof cases
    case dup
    have "keeps J E {m} a ?s (fst (snd (onSess (sendControl J E (ACK (ss_recvContig ?s))) x)))"
      by (simp add: onSess_def split: prod.split) (metis keeps_ackNow snd_conv)
    then show ?thesis using dup by (simp add: onDataMsg_def)
  next
    case far
    have "keeps J E {m} a (fst y) (fst (snd (ok (close C CR_protocol y))))" for y
      by (simp add: ok_def keeps_close_cb)
    then have "keeps J E {m} a ?s (fst (snd (sthen (onSess (sendControl J E (errMsg (violationCode ?s) None (Some ''beyond credit window''))) x)
         (\<lambda>x. ok (close C CR_protocol x)))))"
      by (intro keeps_sthen keeps_onSess keeps_err)
    then show ?thesis using far by (simp add: onDataMsg_def Let_def)
  next
    case near
    let ?x = "upd (\<lambda>s. s\<lparr>ss_recvBuffer := AList.update (m_mid m) m (ss_recvBuffer s)\<rparr>) x"
    have first: "keeps J E {m} a ?s (fst ?x)"
      unfolding upd_def fst_conv by (rule keeps_buffer) (use near assms in simp_all)
    have "keeps J E {m} a (fst ?x) (fst (snd (if ss_state ?s = SReady then drainData C J E ?x else ok ?x)))"
      by (simp add: keeps_drainData)
    with first have "keeps J E {m} a ?s (fst (snd (if ss_state ?s = SReady then drainData C J E ?x else ok ?x)))" by (rule keeps_trans)
    then show ?thesis using near by (simp add: onDataMsg_def Let_def)
  qed
qed

end

context session_client
begin

lemma keeps_onAck: "keeps J E D n (fst x) (fst (snd (onAck C J E now n x)))"
proof -
  let ?s = "fst x" let ?kept = "dropWhile (\<lambda>u. un_mid u \<le> n) (ss_unacked ?s)"
  let ?s1 = "?s\<lparr>ss_unacked := ?kept, ss_ackProgressAt := (if length ?kept < length (ss_unacked ?s) then now else ss_ackProgressAt ?s)\<rparr>"
  have ack: "keeps J E D n ?s ?s1" by (rule keeps_ack)
  have pump: "keeps J E D n (fst (?s1, snd x)) (fst (snd (sthen (onSess (pumpData J E now) (?s1, snd x))
      (\<lambda>x. if hasSendCapacity E (fst x) then cb_onCapacity C x else ok x))))"
    by (intro keeps_sthen keeps_onSess keeps_pumpData) (simp add: callbacks)
  show ?thesis using keeps_trans [OF ack pump [unfolded fst_conv]] by (simp add: onAck_def Let_def)
qed

lemma keeps_hello_reply: "keeps J E D a (fst x) (fst (snd (case m_ackGen m of
         Some g \<Rightarrow> ok (if g = ss_grantsGen (fst x) then upd (satisfyRequest ''HELLO'') x else x)
       | None \<Rightarrow> (case helloMsg E (fst x) of
           Inl e \<Rightarrow> (Inl e, x)
         | Inr (HELLO p q node gs g u) \<Rightarrow> onSess (sendControl J E (HELLO p q node gs g (Some gen))) x
         | Inr _ \<Rightarrow> ok x))))"
proof -
  have "keeps J E D a (fst x) (fst (snd (onSess (sendControl J E (HELLO p q node gs g (Some gen))) x)))" for p q node gs g
    by (intro keeps_onSess keeps_sendControl) (simp add: plain_def isData_def)
  then show ?thesis
    by (simp add: ok_def upd_def satisfyRequest_def keeps_cancel split: option.split sum.split WireMsg.split)
qed

lemma keeps_onHelloUpdate: "keeps J E D a (fst x) (fst (snd (onHelloUpdate C J E m x)))"
proof -
  let ?gen = "case m_grantsGen m of None \<Rightarrow> 0 | Some g \<Rightarrow> g"
  let ?x = "upd (\<lambda>s. s\<lparr>ss_peerGrants := m_grants m, ss_peerGrantsGen := ?gen\<rparr>) x"
  have "keeps J E D a (fst x) (fst ?x)" by (simp add: upd_def keeps_cong)
  also have "keeps J E D a (fst ?x) (fst (snd (sthen (onSess (recomputeRefusals J E) ?x) (cb_onGrantsUpdated C))))"
    by (intro keeps_sthen keeps_onSess keeps_refusals callbacks)
  finally show ?thesis
    unfolding onHelloUpdate_def Let_def by (intro keeps_sthen keeps_hello_reply) simp
qed

lemma keeps_onHello: "keeps J E D a (fst x) (fst (snd (onHello C J E m x)))"
proof -
  have refuse: "keeps J E D a (fst x) (fst (snd (sthen (onSess (sendControl J E (errMsg ERR_PROTO_VERSION None None)) x)
      (\<lambda>x. ok (close C CR_protocol x)))))"
    by (intro keeps_sthen keeps_onSess keeps_err) (simp add: ok_def keeps_close_cb)
  let ?f = "\<lambda>s. (satisfyRequest ''HELLO'' s)\<lparr>ss_helloTimer := False, ss_state := SReady, ss_lifecycle := ss_lifecycle s @ [LReady]\<rparr>"
  let ?held = "\<lambda>x. sthen (seach (cb_onControl C) (ss_preReady (fst x)) (upd (\<lambda>s. s\<lparr>ss_preReady := []\<rparr>) x)) (drainData C J E)"
  have held: "keeps J E D a (fst y) (fst (snd (?held y)))" for y :: "'w SW"
  proof -
    have "keeps J E D a (fst y) (fst (upd (\<lambda>s. s\<lparr>ss_preReady := []\<rparr>) y))" by (simp add: upd_def keeps_cong)
    also have "keeps J E D a (fst (upd (\<lambda>s. s\<lparr>ss_preReady := []\<rparr>) y)) (fst (snd (?held y)))"
      by (intro keeps_sthen keeps_seach_w keeps_drainData callbacks)
    finally show ?thesis .
  qed
  let ?ready = "\<lambda>x. let x1 = upd ?f x in sthen (if ss_grantsGen (fst x1) > 0 then onSess (request J E ''HELLO'' RHello) x1 else ok x1)
      (\<lambda>x. sthen (cb_onReady C x) ?held)"
  have ready: "keeps J E D a (fst y) (fst (snd (?ready y)))" for y :: "'w SW"
  proof -
    have "keeps J E D a (fst y) (fst (upd ?f y))"
      unfolding upd_def fst_conv by (rule keeps_cong) (auto simp: satisfyRequest_def cancelRequest_def AList.delete_eq)
    also have "keeps J E D a (fst (upd ?f y)) (fst (snd (if ss_grantsGen (fst (upd ?f y)) > 0
        then onSess (request J E ''HELLO'' RHello) (upd ?f y) else ok (upd ?f y))))"
      by (simp add: keeps_onSess keeps_request req_ok_def)
    finally show ?thesis unfolding Let_def by (intro keeps_sthen held callbacks) simp
  qed
  let ?neg = "upd (\<lambda>s. s\<lparr>ss_proto := min PROTO_MAX (protoMax m), ss_peerNode := Some (m_node m),
             ss_peerGrants := m_grants m, ss_peerGrantsGen := (case m_grantsGen m of None \<Rightarrow> 0 | Some g \<Rightarrow> g)\<rparr>) x"
  have "keeps J E D a (fst x) (fst ?neg)" by (simp add: upd_def keeps_cong)
  also have "keeps J E D a (fst ?neg) (fst (snd (sthen (onSess (recomputeRefusals J E) ?neg) ?ready)))"
    by (intro keeps_sthen keeps_onSess keeps_refusals ready)
  finally have neg: "keeps J E D a (fst x) (fst (snd (sthen (onSess (recomputeRefusals J E) ?neg) ?ready)))" .
  show ?thesis
    unfolding onHello_def Let_def using refuse neg [unfolded Let_def] keeps_onHelloUpdate by simp
qed

lemma keeps_dispatch:
  "keeps J E (if isData m then {m} else {}) (case m of ACK n \<Rightarrow> n | _ \<Rightarrow> 0) (fst x) (fst (snd (dispatch C J E now m x)))"
proof -
  have wait: "keeps J E D a (fst x) (fst (snd (ok (upd (\<lambda>s. s\<lparr>ss_preReady := ss_preReady s @ [m]\<rparr>) x))))" for D a
    by (simp add: ok_def upd_def keeps_cong)
  consider (hello) "\<exists>a b c d e f. m = HELLO a b c d e f" | (ack) n where "m = ACK n" | (data) "isData m"
    | (other) "\<not> isData m" "\<nexists>a b c d e f. m = HELLO a b c d e f" "\<nexists>n. m = ACK n" by blast
  then show ?thesis
  proof cases
    case hello
    then obtain a b c d e f where "m = HELLO a b c d e f" by blast
    then show ?thesis using keeps_onHello by (simp add: dispatch_def isData_def)
  next
    case ack
    then show ?thesis using keeps_onAck by (simp add: dispatch_def isData_def)
  next
    case data
    then have "dispatch C J E now m x = onDataMsg C J E m x" by (cases m) (simp_all add: dispatch_def isData_def)
    then show ?thesis using keeps_onDataMsg [OF data] data by simp
  next
    case other
    then have "dispatch C J E now m x = (if ss_state (fst x) \<noteq> SReady then ok (upd (\<lambda>s. s\<lparr>ss_preReady := ss_preReady s @ [m]\<rparr>) x)
          else cb_onControl C m x)" by (cases m) (simp_all add: dispatch_def)
    then show ?thesis using wait callbacks by simp
  qed
qed

lemma keeps_onRaw:
  assumes "\<And>m. parseMsg J (constants E) raw = Inr m \<Longrightarrow> (isData m \<longrightarrow> m \<in> D) \<and> (\<forall>n. m = ACK n \<longrightarrow> n \<le> a)"
  shows "keeps J E D a (fst x) (fst (snd (onRaw C J E now raw x)))"
proof (cases "parseMsg J (constants E) raw")
  case (Inr m)
  have a: "(case m of ACK n \<Rightarrow> n | _ \<Rightarrow> 0) \<le> a" using assms [OF Inr] by (cases m) simp_all
  have "(if isData m then {m} else {}) \<subseteq> D" using assms [OF Inr] by simp
  then have d: "keeps J E D a (fst x) (fst (snd (dispatch C J E now m x)))"
    using keeps_dispatch [of m x now] a unfolding keeps_def by (auto 0 4)
  obtain r y where y: "dispatch C J E now m x = (r, y)" by (cases "dispatch C J E now m x")
  have "keeps J E D a (fst x) (fst (snd (onSess (sendControl J E (errMsg c None t)) y)))" for c t
    by (rule keeps_trans [OF _ keeps_onSess [OF keeps_err]]) (use d y in simp)
  then show ?thesis using d y Inr by (simp add: onRaw_def ok_def split: sum.split)
qed (simp add: onRaw_def keeps_onSess keeps_err)

end

section \<open>Everything that can happen to one session\<close>

inductive local_step :: "'w SessionCb \<Rightarrow> WireJson \<Rightarrow> LogEnv \<Rightarrow> 'w SW \<Rightarrow> 'w SW \<Rightarrow> bool" for C J E where
  engine: "(sess_op J E)\<^sup>*\<^sup>* (fst x) s \<Longrightarrow> local_step C J E x (s, w)"
| regrant: "local_step C J E x (snd (updateGrants C J E gs x))"
| retryTimer: "local_step C J E x (upd (retryUnacked E now) x)"
| requestTimer: "local_step C J E x (snd (onSess (requestTimer J E key) x))"
| stallTimer: "local_step C J E x (stallCheck C E now x)"
| helloTimer: "local_step C J E x (helloTimeout C x)"
| close: "local_step C J E x (close C reason x)"

text \<open>A session against any peer: whatever frames arrive.\<close>

inductive sess_reach :: "'w SessionCb \<Rightarrow> WireJson \<Rightarrow> LogEnv \<Rightarrow> 'w SW \<Rightarrow> bool" for C J E where
  attach: "newSession J E p cls gs = Inr s \<Longrightarrow> sess_reach C J E (s, w)"
| local: "sess_reach C J E x \<Longrightarrow> local_step C J E x y \<Longrightarrow> sess_reach C J E y"
| frame: "sess_reach C J E x \<Longrightarrow> sess_reach C J E (snd (onRaw C J E now raw x))"

text \<open>Two sessions on the two ends of a channel that may lose, repeat and reorder frames: a frame that was
  ever handed to it may arrive, any number of times, and parses to the message it was made from.\<close>

inductive link_reach :: "'v SessionCb \<Rightarrow> 'w SessionCb \<Rightarrow> WireJson \<Rightarrow> LogEnv \<Rightarrow> LogEnv \<Rightarrow> 'v SW \<Rightarrow> 'w SW \<Rightarrow> bool"
  for C C' J E E' where
  attach: "newSession J E p cls gs = Inr s \<Longrightarrow> newSession J E' p' cls' gs' = Inr s' \<Longrightarrow> link_reach C C' J E E' (s, v) (s', w)"
| left: "link_reach C C' J E E' x y \<Longrightarrow> local_step C J E x x' \<Longrightarrow> link_reach C C' J E E' x' y"
| right: "link_reach C C' J E E' x y \<Longrightarrow> local_step C' J E' y y' \<Longrightarrow> link_reach C C' J E E' x y'"
| to_right: "link_reach C C' J E E' x y \<Longrightarrow> (m, raw) \<in> set (ss_out (fst x)) \<Longrightarrow> parseMsg J (constants E') raw = Inr m \<Longrightarrow>
    link_reach C C' J E E' x (snd (onRaw C' J E' now raw y))"
| to_left: "link_reach C C' J E E' x y \<Longrightarrow> (m, raw) \<in> set (ss_out (fst y)) \<Longrightarrow> parseMsg J (constants E) raw = Inr m \<Longrightarrow>
    link_reach C C' J E E' (snd (onRaw C J E now raw x)) y"

lemma new_session_inv:
  assumes "newSession J E p cls gs = Inr s"
  shows "sess_inv J E s \<and> got s = {} \<and> (\<forall>m \<in> set (retired s). m_mid m \<le> 0)"
proof -
  let ?s = "emptySession p cls gs"
  obtain r s1 where r: "request J E ''HELLO'' RHello ?s = (r, s1)" by (cases "request J E ''HELLO'' RHello ?s")
  have s: "s = s1\<lparr>ss_helloTimer := True, ss_stallTimer := True\<rparr>"
    using assms r by (auto simp: newSession_def rbind_eq_Inr split: sum.splits)
  have inv: "sess_inv J E ?s" "got ?s = {}" "retired ?s = []"
    by (simp_all add: sess_inv_def send_ok_def recv_ok_def got_def lanes_ok_def retired_def emptySession_def)
  have "keeps J E {} 0 ?s s1" using keeps_request [of RHello J E "{}" 0 ?s "''HELLO''"] r by (simp add: req_ok_def)
  also have "keeps J E {} 0 s1 s" unfolding s by (rule keeps_cong) simp_all
  finally show ?thesis using inv by (auto simp: keeps_def)
qed

context session_client
begin

lemma keeps_local: "local_step C J E x y \<Longrightarrow> keeps J E {} 0 (fst x) (fst y)"
proof (induction rule: local_step.induct)
  case (regrant x gs)
  let ?x = "upd (\<lambda>s. s\<lparr>ss_grants := gs, ss_grantsGen := ss_grantsGen s + 1\<rparr>) x"
  have "keeps J E {} 0 (fst x) (fst ?x)" by (simp add: upd_def keeps_cong)
  also have "keeps J E {} 0 (fst ?x) (fst (snd (sthen (onSess (recomputeRefusals J E) ?x) (\<lambda>x.
      sthen (onSess (request J E ''HELLO'' RHello) x) (\<lambda>x. if ss_state (fst x) = SReady then cb_onGrantsUpdated C x else ok x)))))"
    by (intro keeps_sthen keeps_onSess keeps_refusals keeps_request) (simp_all add: req_ok_def callbacks)
  finally show ?case by (simp add: updateGrants_def split: sum.split)
next
  case (requestTimer x key)
  have "keeps J E {} 0 s (snd (requestTimer J E key s))" if "sess_inv J E s" for s
  proof -
    consider (fire) r where "map_of (ss_requests s) key = Some (r, True)" | (none) "requestTimer J E key s = ok s"
    proof (cases "\<exists>r. map_of (ss_requests s) key = Some (r, True)")
      case False
      then have "requestTimer J E key s = ok s" by (auto simp: requestTimer_def split: option.split bool.split)
      then show ?thesis by (rule none)
    qed (use fire in blast)
    then show ?thesis
    proof cases
      case fire
      then have r: "req_ok r" using that by (fastforce simp: sess_inv_def send_ok_def dest: map_of_SomeD)
      show ?thesis using keeps_trans [OF keeps_rearm [OF r] keeps_fire [OF r]] fire by (simp add: requestTimer_def)
    qed simp
  qed
  then have "keeps J E {} 0 s (snd (requestTimer J E key s))" for s by (auto simp: keeps_def)
  then show ?case by (rule keeps_onSess)
next
  case (stallTimer x now)
  have "keeps J E {} 0 (fst x) (fst (upd (\<lambda>s. s\<lparr>ss_stallTimer := True\<rparr>) x))" by (simp add: upd_def keeps_cong)
  then show ?case by (simp add: stallCheck_def Let_def keeps_close_cb split: list.split)
qed (simp_all add: keeps_ops upd_def keeps_retry helloTimeout_def keeps_close_cb)

lemma sess_reach_inv: "sess_reach C J E x \<Longrightarrow> sess_inv J E (fst x)"
proof (induction rule: sess_reach.induct)
  case (attach p cls gs s w)
  then show ?case using new_session_inv by simp
next
  case (local x y)
  then show ?case using keeps_local by (auto simp: keeps_def)
next
  case (frame x now raw)
  have "\<exists>a. \<forall>m. parseMsg J (constants E) raw = Inr m \<longrightarrow> (\<forall>n. m = ACK n \<longrightarrow> n \<le> a)"
    by (cases "\<exists>n. parseMsg J (constants E) raw = Inr (ACK n)") auto
  then obtain a where "\<And>m n. parseMsg J (constants E) raw = Inr m \<Longrightarrow> m = ACK n \<Longrightarrow> n \<le> a" by blast
  then have "keeps J E UNIV a (fst x) (fst (snd (onRaw C J E now raw x)))" by (intro keeps_onRaw) auto
  then show ?case using frame by (auto simp: keeps_def)
qed

text \<open>The receive buffer is bounded by the credits, whatever the peer sends.\<close>

lemma buffer_bounded:
  assumes "sess_reach C J E x"
  shows "length (ss_recvBuffer (fst x)) \<le> INFLIGHT_CREDITS (constants E)"
proof -
  let ?b = "ss_recvBuffer (fst x)" and ?c = "int (ss_recvContig (fst x))" and ?k = "int (INFLIGHT_CREDITS (constants E))"
  have ok: "distinct (map fst ?b)" "\<forall>p \<in> set ?b. ?c < fst p \<and> fst p \<le> ?c + ?k"
    using sess_reach_inv [OF assms] by (auto simp: sess_inv_def recv_ok_def)
  have "length ?b = card (set (map fst ?b))" using distinct_card [OF ok(1)] by simp
  also have "\<dots> \<le> card {?c <.. ?c + ?k}" using ok(2) by (intro card_mono) auto
  finally show ?thesis by simp
qed

end

definition link_inv :: "WireJson \<Rightarrow> LogEnv \<Rightarrow> LogEnv \<Rightarrow> Session \<Rightarrow> Session \<Rightarrow> bool" where
  "link_inv J E E' s t \<longleftrightarrow> sess_inv J E s \<and> sess_inv J E' t \<and> got t \<subseteq> set (ss_sent s) \<and> got s \<subseteq> set (ss_sent t) \<and>
     (\<forall>m \<in> set (retired s). m_mid m \<le> int (ss_recvContig t)) \<and>
     (\<forall>m \<in> set (retired t). m_mid m \<le> int (ss_recvContig s))"

locale session_link = L: session_client C J E + R: session_client C' J E'
  for C :: "'v SessionCb" and C' :: "'w SessionCb" and J E E'
begin

lemma link_left:
  assumes "link_inv J E E' s t" "keeps J E (set (ss_sent t)) (ss_recvContig t) s s'"
  shows "link_inv J E E' s' t"
proof -
  note i = assms(1) [unfolded link_inv_def]
  have k: "sess_inv J E s'" "got s' \<subseteq> got s \<union> set (ss_sent t)" "set (ss_sent s) \<subseteq> set (ss_sent s')"
    "\<forall>m \<in> set (retired s'). m \<in> set (retired s) \<or> m_mid m \<le> int (ss_recvContig t)" "ss_recvContig s \<le> ss_recvContig s'"
    using assms i by (auto simp: keeps_def)
  have "m_mid m \<le> int (ss_recvContig s')" if "m \<in> set (retired t)" for m using i that k(5) by force
  moreover have "m_mid m \<le> int (ss_recvContig t)" if "m \<in> set (retired s')" for m using i that k(4) by blast
  ultimately show ?thesis unfolding link_inv_def using i k(1-3) by blast
qed

lemma link_right:
  assumes "link_inv J E E' s t" "keeps J E' (set (ss_sent s)) (ss_recvContig s) t t'"
  shows "link_inv J E E' s t'"
proof -
  note i = assms(1) [unfolded link_inv_def]
  have k: "sess_inv J E' t'" "got t' \<subseteq> got t \<union> set (ss_sent s)" "set (ss_sent t) \<subseteq> set (ss_sent t')"
    "\<forall>m \<in> set (retired t'). m \<in> set (retired t) \<or> m_mid m \<le> int (ss_recvContig s)" "ss_recvContig t \<le> ss_recvContig t'"
    using assms i by (auto simp: keeps_def)
  have "m_mid m \<le> int (ss_recvContig t')" if "m \<in> set (retired s)" for m using i that k(5) by force
  moreover have "m_mid m \<le> int (ss_recvContig s)" if "m \<in> set (retired t')" for m using i that k(4) by blast
  ultimately show ?thesis unfolding link_inv_def using i k(1-3) by blast
qed

lemma link_reach_inv: "link_reach C C' J E E' x y \<Longrightarrow> link_inv J E E' (fst x) (fst y)"
proof (induction rule: link_reach.induct)
  case (attach p cls gs s p' cls' gs' s' v w)
  then show ?case using new_session_inv by (fastforce simp: link_inv_def)
next
  case (left x y x')
  then show ?case using link_left keeps_mono L.keeps_local by blast
next
  case (right x y y')
  then show ?case using link_right keeps_mono R.keeps_local by blast
next
  case (to_right x y m raw now)
  have "keeps J E' (set (ss_sent (fst x))) (ss_recvContig (fst x)) (fst y) (fst (snd (onRaw C' J E' now raw y)))"
  proof (rule R.keeps_onRaw)
    fix m' assume "parseMsg J (constants E') raw = Inr m'"
    then have m: "(m', raw) \<in> set (ss_out (fst x))" using to_right by simp
    have "send_ok J E (fst x)" using to_right by (simp add: link_inv_def sess_inv_def)
    then show "(isData m' \<longrightarrow> m' \<in> set (ss_sent (fst x))) \<and> (\<forall>n. m' = ACK n \<longrightarrow> n \<le> ss_recvContig (fst x))"
      using m by (auto simp: send_ok_def)
  qed
  then show ?case using to_right link_right by blast
next
  case (to_left x y m raw now)
  have "keeps J E (set (ss_sent (fst y))) (ss_recvContig (fst y)) (fst x) (fst (snd (onRaw C J E now raw x)))"
  proof (rule L.keeps_onRaw)
    fix m' assume "parseMsg J (constants E) raw = Inr m'"
    then have m: "(m', raw) \<in> set (ss_out (fst y))" using to_left by simp
    have "send_ok J E' (fst y)" using to_left by (simp add: link_inv_def sess_inv_def)
    then show "(isData m' \<longrightarrow> m' \<in> set (ss_sent (fst y))) \<and> (\<forall>n. m' = ACK n \<longrightarrow> n \<le> ss_recvContig (fst y))"
      using m by (auto simp: send_ok_def)
  qed
  then show ?case using to_left link_left by blast
qed

end

section \<open>In-order delivery\<close>

text \<open>Sorted with known keys: the part with the first keys is a prefix.\<close>

lemma upt_first: "[a ..< a + Suc j] = a # [Suc a ..< Suc a + j]"
  using upt_conv_Cons [of a "a + Suc j"] by (simp del: upt_Suc)

lemma keyed_prefix:
  assumes "map f ds = map int [a ..< a + n]" "sorted_wrt (<) (map f xs)" "\<forall>x \<in> set xs. int a \<le> f x" "set ds \<subseteq> set xs"
  shows "prefix ds xs"
  using assms
proof (induction ds arbitrary: xs a n)
  case (Cons d ds)
  obtain j where n: "n = Suc j" using Cons.prems(1) by (cases n) auto
  have d: "f d = int a" "map f ds = map int [Suc a ..< Suc a + j]"
    using Cons.prems(1) unfolding n upt_first by (simp_all del: upt_Suc)
  obtain x xs' where x: "xs = x # xs'" using Cons.prems(4) by (cases xs) auto
  have "d = x" using Cons.prems(2-4) d(1) by (fastforce simp: x)
  have above: "int (Suc a) \<le> f y" if "y \<in> set xs'" for y using Cons.prems(2,3) that d(1) \<open>d = x\<close> by (fastforce simp: x)
  have "int (Suc a) \<le> f y" if "y \<in> set ds" for y
  proof -
    have "f y \<in> set (map int [Suc a ..< Suc a + j])" using d(2) that by (metis image_eqI set_map)
    then show ?thesis by auto
  qed
  then have "set ds \<subseteq> set xs'" using Cons.prems(4) d(1) \<open>d = x\<close> by (fastforce simp: x)
  then show ?case using Cons.IH [OF d(2)] Cons.prems(2) above \<open>d = x\<close> by (simp add: x)
qed simp

text \<open>Increasing keys from 1 on: the \<open>i\<close>-th is above \<open>i\<close>.\<close>

lemma increasing_above:
  assumes "sorted_wrt (<) xs" "\<forall>x \<in> set xs. 1 \<le> x"
  shows "i < length xs \<Longrightarrow> int i < xs ! i"
proof (induction i)
  case 0
  then show ?case using assms(2) by (metis less_le_trans nth_mem of_nat_0 zero_less_one)
next
  case (Suc i)
  then have "xs ! i < xs ! Suc i" using assms(1) by (simp add: sorted_wrt_iff_nth_less)
  then show ?case using Suc by simp
qed

context session_link
begin

lemma in_order:
  assumes "link_reach C C' J E E' x y"
  shows "prefix (ss_delivered (fst y)) (ss_sent (fst x)) \<and> length (ss_delivered (fst y)) = ss_recvContig (fst y)"
proof -
  have inv: "link_inv J E E' (fst x) (fst y)" by (rule link_reach_inv [OF assms])
  have d: "map m_mid (ss_delivered (fst y)) = map int [1 ..< 1 + ss_recvContig (fst y)]"
    using inv by (simp add: link_inv_def sess_inv_def recv_ok_def)
  have s: "sorted_wrt (<) (map m_mid (ss_sent (fst x)))" "\<forall>m \<in> set (ss_sent (fst x)). int 1 \<le> m_mid m"
    using inv by (auto simp: link_inv_def sess_inv_def send_ok_def)
  have "set (ss_delivered (fst y)) \<subseteq> set (ss_sent (fst x))" using inv by (auto simp: link_inv_def got_def)
  moreover have "length (ss_delivered (fst y)) = ss_recvContig (fst y)" using arg_cong [OF d, of length] by simp
  ultimately show ?thesis using keyed_prefix [OF d s] by simp
qed

text \<open>As long as no frame was too large, no frame sent is beyond the receiver's window.\<close>

lemma no_violation:
  assumes "link_reach C C' J E E' x y" "p \<in> set (ss_out (fst x))" "isData (fst p)"
    and "length (ss_sent (fst x)) + 1 = ss_nextMid (fst x)"
    and "INFLIGHT_CREDITS (constants E) \<le> INFLIGHT_CREDITS (constants E')"
  shows "m_mid (fst p) \<le> int (ss_recvContig (fst y)) + int (INFLIGHT_CREDITS (constants E'))"
proof -
  let ?s = "fst x" and ?r = "retired (fst x)"
  have inv: "link_inv J E E' ?s (fst y)" by (rule link_reach_inv [OF assms(1)])
  then have ok: "send_ok J E ?s" and a: "\<forall>m \<in> set ?r. m_mid m \<le> int (ss_recvContig (fst y))"
    by (simp_all add: link_inv_def sess_inv_def)
  have sent: "ss_sent ?s = ?r @ map un_msg (ss_unacked ?s)" using ok by (simp add: send_ok_def lanes_split)
  have "sorted_wrt (<) (map m_mid (ss_sent ?s))" "\<forall>m \<in> set (ss_sent ?s). 1 \<le> m_mid m" using ok by (simp_all add: send_ok_def)
  then have r: "sorted_wrt (<) (map m_mid ?r)" "\<forall>x \<in> set (map m_mid ?r). 1 \<le> x"
    by (simp_all only: sent map_append sorted_wrt_append) (simp_all add: sent ball_Un)
  have len: "length ?r \<le> ss_recvContig (fst y)"
  proof (cases "?r = []")
    case False
    then have "int (length ?r - 1) < m_mid (last ?r)"
      using increasing_above [OF r, of "length ?r - 1"] by (simp add: last_conv_nth)
    moreover have "m_mid (last ?r) \<le> int (ss_recvContig (fst y))" using a False by simp
    ultimately show ?thesis using False by (simp add: Suc_le_eq)
  qed simp
  have "fst p \<in> set (ss_sent ?s)" using ok assms(2,3) by (simp add: send_ok_def)
  then have "m_mid (fst p) < int (ss_nextMid ?s)" using ok by (simp add: send_ok_def)
  moreover have "length (ss_sent ?s) = length ?r + length (ss_unacked ?s)" using arg_cong [OF sent, of length] by simp
  moreover have "length (ss_unacked ?s) \<le> INFLIGHT_CREDITS (constants E)" using ok by (simp add: send_ok_def)
  ultimately show ?thesis using len assms(4,5) by linarith
qed

end

context session_link
begin

text \<open>A mid taken for a frame that was too large is never sent: the receiver stops in front of it for good.\<close>

lemma gap_blocks:
  assumes "link_reach C C' J E E' x y" "1 \<le> k" "k < ss_nextMid (fst x)" "int k \<notin> m_mid ` set (ss_sent (fst x))"
  shows "ss_recvContig (fst y) < k"
proof (rule ccontr)
  assume "\<not> ss_recvContig (fst y) < k"
  then have k: "int k \<in> set (map int [1 ..< ss_recvContig (fst y) + 1])" using assms(2) by auto
  have inv: "link_inv J E E' (fst x) (fst y)" by (rule link_reach_inv [OF assms(1)])
  then have "map m_mid (ss_delivered (fst y)) = map int [1 ..< ss_recvContig (fst y) + 1]"
    by (simp add: link_inv_def sess_inv_def recv_ok_def)
  then have "int k \<in> m_mid ` set (ss_delivered (fst y))" using k by (metis set_map)
  moreover have "set (ss_delivered (fst y)) \<subseteq> set (ss_sent (fst x))" using inv by (auto simp: link_inv_def got_def)
  ultimately show False using assms(4) by blast
qed

end

section \<open>A closed session\<close>

definition silent :: "Session \<Rightarrow> Session \<Rightarrow> bool" where
  "silent s s' \<longleftrightarrow> (ss_state s = SClosed \<longrightarrow>
     ss_state s' = SClosed \<and> ss_out s' = ss_out s \<and> ss_delivered s' = ss_delivered s \<and>
     ss_closeReason s' = ss_closeReason s \<and> ss_lifecycle s' = ss_lifecycle s)"

lemma silent_op: "sess_op J E s s' \<Longrightarrow> silent s s'"
  by (induction rule: sess_op.induct)
    (auto simp: silent_def sendControl_def ok_def request_def satisfyRequest_def cancelRequest_def sendData_def)

lemma silent_ops: "(sess_op J E)\<^sup>*\<^sup>* s s' \<Longrightarrow> silent s s'"
  by (induction rule: rtranclp_induct) (auto dest: silent_op simp: silent_def)



context session_client
begin

lemma silent_local: "local_step C J E x y \<Longrightarrow> silent (fst x) (fst y)"
proof (induction rule: local_step.induct)
  case (engine x s w)
  then show ?case using silent_ops by simp
next
  case (requestTimer x key)
  have "silent s (snd (requestTimer J E key s))" for s
    by (auto simp: silent_def requestTimer_def fireRequest_def sendControl_def sthen_def ok_def
      split: option.split prod.split bool.split sum.split)
  then show ?case by (simp add: onSess_def split: prod.split) (metis snd_conv)
qed (auto simp: silent_def updateGrants_def retryUnacked_def upd_def stallCheck_def helloTimeout_def close_def Let_def)

lemma silent_frame: "ss_state (fst x) = SClosed \<Longrightarrow> snd (onRaw C J E now raw x) = x"
  by (simp add: onRaw_def ok_def)

end

end
