(* ===== verification/Session_Grants.thy ===== *)
theory Session_Grants
  imports Session_Rules
begin

text \<open>
  What grant negotiation promises: a topic is mutually full only when both ends granted it in full
  with the same schema hash and the local grant passes the access guard, through every handshake,
  re-advertisement, update and callback.
\<close>

section \<open>Negotiated grants\<close>

text \<open>The error frames of the negotiation fit into a frame.\<close>

definition errs_fit :: "WireJson \<Rightarrow> LogEnv \<Rightarrow> bool" where
  "errs_fit J E \<longleftrightarrow> (\<forall>t. TOPIC_RE t \<or> reg_has (registry E) t \<longrightarrow> is_ok (serializeMsg J (constants E) (errMsg ERR_SCHEMA_MISMATCH (Some t) None)))"

definition nego_ok :: "LogEnv \<Rightarrow> Session \<Rightarrow> bool" where
  "nego_ok E s \<longleftrightarrow> assertGrants E (ss_peerClass s) (ss_grants s) = Inr () \<and>
     (ss_state s = SReady \<longrightarrow> (\<forall>t h. (t, GFull) \<in> set (ss_grants s) \<longrightarrow> map_of (ss_peerGrants s) t = Some (GFull, h) \<longrightarrow>
        (\<exists>te. reg_get (registry E) t = Inr te \<and> (h = te_schemaHash te \<or> t \<in> set (ss_refused s)))))"

definition same_nego :: "Session \<Rightarrow> Session \<Rightarrow> bool" where
  "same_nego s s' \<longleftrightarrow> ss_peerClass s' = ss_peerClass s \<and> ss_grants s' = ss_grants s \<and> ss_peerGrants s' = ss_peerGrants s \<and>
     ss_refused s' = ss_refused s \<and> (ss_state s' = ss_state s \<or> ss_state s' = SClosed)"

lemma same_nego_trans: "same_nego s s1 \<Longrightarrow> same_nego s1 s2 \<Longrightarrow> same_nego s s2"
  by (auto simp: same_nego_def)

lemma same_nego_ok: "same_nego s s' \<Longrightarrow> nego_ok E s \<Longrightarrow> nego_ok E s'"
  by (auto simp: same_nego_def nego_ok_def)

lemma assertGrants_member:
  assumes "assertGrants E cls gs = Inr ()" "(t, mode) \<in> set gs"
  shows "\<exists>te. reg_get (registry E) t = Inr te \<and>
    (mode \<noteq> GNone \<longrightarrow> \<not> (cls = PMetadata \<and> p_access (te_policy te) = ''content'') \<and>
      \<not> (mode = GFull \<and> p_replication (te_policy te) = ''subscribe-only''))"
  using assms
proof (induction gs)
  case (Cons g gs)
  have tail: "assertGrants E cls gs = Inr ()" using Cons.prems(1)
    by (cases g) (auto simp: assertGrants_def sthen_def split: prod.splits sum.splits if_splits)
  show ?case
  proof (cases "(t, mode) = g")
    case True
    then show ?thesis using Cons.prems(1)
      by (auto simp: assertGrants_def sthen_def split: prod.splits sum.splits if_splits)
  qed (use Cons.IH [OF tail] Cons.prems(2) in auto)
qed simp

lemma same_nego_refl [simp]: "same_nego s s"
  by (simp add: same_nego_def)

lemma sendControl_fields:
  "snd (sendControl J E m s) = s\<lparr>ss_out := ss_out (snd (sendControl J E m s))\<rparr>"
  by (simp add: sendControl_def ok_def split: sum.split)

lemma same_sendControl: "same_nego s (snd (sendControl J E m s))"
  by (subst sendControl_fields) (simp add: same_nego_def)

lemma same_request: "same_nego s (snd (request J E key r s))"
proof -
  have fire: "same_nego y (snd (fireRequest J E key r y))" for y
  proof -
    have "same_nego y (snd (sendControl J E m y))" for m by (rule same_sendControl)
    then show ?thesis
      by (auto simp: fireRequest_def sendControl_def sthen_def ok_def same_nego_def split: sum.split prod.split)
  qed
  have "same_nego s ((cancelRequest key s)\<lparr>ss_requests := rs\<rparr>)" for rs by (simp add: same_nego_def cancelRequest_def)
  then show ?thesis using fire same_nego_trans by (simp add: request_def ok_def) blast
qed

lemma same_pumpQueue: "same_nego s (snd (pumpQueue J E now q s))"
proof (induction q arbitrary: s)
  case (Cons mk rest)
  let ?s = "\<lambda>raw. s\<lparr>ss_nextMid := ss_nextMid s + 1, ss_outQueue := rest, ss_unacked := ss_unacked s @
        [\<lparr>un_mid = ss_nextMid s, un_at = now, un_msg = mk (ss_nextMid s), un_frame = raw, un_sentAt = now\<rparr>],
      ss_out := ss_out s @ [(mk (ss_nextMid s), raw)], ss_sent := ss_sent s @ [mk (ss_nextMid s)]\<rparr>"
  have "same_nego s (?s raw)" for raw by (simp add: same_nego_def)
  then have "same_nego s (snd (pumpQueue J E now rest (?s raw)))" for raw using Cons.IH same_nego_trans by blast
  then show ?case by (simp add: Let_def ok_def same_nego_def split: sum.split)
qed (simp add: ok_def same_nego_def)

lemma same_pumpData: "same_nego s (snd (pumpData J E now s))"
proof -
  have "same_nego s (snd (pumpQueue J E now (ss_outQueue s) s))" by (rule same_pumpQueue)
  then show ?thesis
    by (auto simp: pumpData_def sthen_def ok_def armRetry_def same_nego_def split: sum.split prod.split)
qed

lemma same_sendData: "same_nego s (snd (sendData J E now mk s))"
  using same_pumpData [of "s\<lparr>ss_outQueue := ss_outQueue s @ [mk]\<rparr>" J E now]
  by (auto simp: sendData_def same_nego_def split: sum.split prod.split)

lemma same_op: "sess_op J E s s' \<Longrightarrow> same_nego s s'"
proof (induction rule: sess_op.induct)
  case (control m s)
  then show ?case by (intro same_sendControl)
next
  case (ask m s key)
  then show ?case by (intro same_request)
next
  case (data mk s now)
  then show ?case by (intro same_sendData)
qed (simp_all add: satisfyRequest_def cancelRequest_def closeSession_def same_nego_def)

lemma same_ops: "(sess_op J E)\<^sup>*\<^sup>* s s' \<Longrightarrow> same_nego s s'"
  by (induction rule: rtranclp_induct) (auto intro: same_nego_trans same_op)

section \<open>Recomputing the refusals\<close>

lemma refusedNow_spec:
  assumes "assertGrants E cls (ss_grants s) = Inr ()"
  shows "\<exists>ts. refusedNow E s = Inr ts \<and> (\<forall>t. t \<in> set ts \<longrightarrow> reg_has (registry E) t) \<and>
    (\<forall>t h. (t, GFull) \<in> set (ss_grants s) \<longrightarrow> map_of (ss_peerGrants s) t = Some (GFull, h) \<longrightarrow>
      (\<exists>te. reg_get (registry E) t = Inr te \<and> (h = te_schemaHash te \<or> t \<in> set ts)))"
proof -
  obtain f where f: "f = (\<lambda>(topic, mine) acc. if mine \<noteq> GFull then acc
     else case map_of (ss_peerGrants s) topic of
       Some (GFull, h) \<Rightarrow> rbind (reg_get (registry E) topic) (\<lambda>te. rbind acc (\<lambda>ts.
         Inr (if h \<noteq> te_schemaHash te then topic # ts else ts)))
     | _ \<Rightarrow> acc)" by blast
  have "\<exists>ts. foldr f gs (Inr []) = Inr ts \<and> (\<forall>t. t \<in> set ts \<longrightarrow> reg_has (registry E) t) \<and>
      (\<forall>t h. (t, GFull) \<in> set gs \<longrightarrow> map_of (ss_peerGrants s) t = Some (GFull, h) \<longrightarrow>
        (\<exists>te. reg_get (registry E) t = Inr te \<and> (h = te_schemaHash te \<or> t \<in> set ts)))"
    if "\<forall>(t, m) \<in> set gs. \<exists>te. reg_get (registry E) t = Inr te" for gs
    using that
  proof (induction gs)
    case (Cons g gs)
    obtain t m where g: "g = (t, m)" by (cases g)
    obtain te where te: "reg_get (registry E) t = Inr te" using Cons.prems g by auto
    then have has: "reg_has (registry E) t" by (auto simp: reg_get_def reg_has_def split: option.splits)
    obtain ts where ts: "foldr f gs (Inr []) = Inr ts" "\<forall>t. t \<in> set ts \<longrightarrow> reg_has (registry E) t"
      "\<forall>t h. (t, GFull) \<in> set gs \<longrightarrow> map_of (ss_peerGrants s) t = Some (GFull, h) \<longrightarrow>
        (\<exists>te. reg_get (registry E) t = Inr te \<and> (h = te_schemaHash te \<or> t \<in> set ts))"
      using Cons by auto
    consider (skip) "m \<noteq> GFull" | (differs) h where "m = GFull" "map_of (ss_peerGrants s) t = Some (GFull, h)" "h \<noteq> te_schemaHash te"
      | (agrees) h where "m = GFull" "map_of (ss_peerGrants s) t = Some (GFull, h)" "h = te_schemaHash te"
      | (theirs) "m = GFull" "\<nexists>h. map_of (ss_peerGrants s) t = Some (GFull, h)" by blast
    then show ?case
    proof cases
      case differs
      then have "foldr f (g # gs) (Inr []) = Inr (t # ts)" using ts(1) te by (simp add: g f rbind_def)
      then show ?thesis using ts(2,3) has te differs by (intro exI [of _ "t # ts"]) (fastforce simp: g simp del: foldr.simps)
    next
      case agrees
      then have "foldr f (g # gs) (Inr []) = Inr ts" using ts(1) te by (simp add: g f rbind_def)
      then show ?thesis using ts(2,3) te agrees by (intro exI [of _ ts]) (fastforce simp: g simp del: foldr.simps)
    next
      case theirs
      have "foldr f (g # gs) (Inr []) = Inr ts"
        using ts(1) theirs by (auto simp: g f split: option.split prod.split GrantMode.split)
      then show ?thesis using ts(2,3) theirs by (intro exI [of _ ts]) (auto simp: g simp del: foldr.simps)
    next
      case skip
      then have "foldr f (g # gs) (Inr []) = Inr ts" using ts(1) by (simp add: g f)
      then show ?thesis using ts(2,3) skip by (intro exI [of _ ts]) (auto simp: g simp del: foldr.simps)
    qed
  qed simp
  moreover have "\<forall>(t, m) \<in> set (ss_grants s). \<exists>te. reg_get (registry E) t = Inr te"
    using assertGrants_member [OF assms] by blast
  ultimately show ?thesis unfolding refusedNow_def f [symmetric] by blast
qed

lemma recompute_spec:
  assumes "assertGrants E (ss_peerClass s) (ss_grants s) = Inr ()" "errs_fit J E" "recomputeRefusals J E s = (r, s')"
  shows "r = Inr () \<and> nego_ok E s' \<and> s' = s\<lparr>ss_out := ss_out s', ss_refused := ss_refused s'\<rparr> \<and>
    (\<forall>t h. (t, GFull) \<in> set (ss_grants s) \<longrightarrow> map_of (ss_peerGrants s) t = Some (GFull, h) \<longrightarrow>
      (\<exists>te. reg_get (registry E) t = Inr te \<and> (h = te_schemaHash te \<or> t \<in> set (ss_refused s'))))"
proof -
  obtain ts where ts: "refusedNow E s = Inr ts" "\<forall>t. t \<in> set ts \<longrightarrow> reg_has (registry E) t"
    "\<forall>t h. (t, GFull) \<in> set (ss_grants s) \<longrightarrow> map_of (ss_peerGrants s) t = Some (GFull, h) \<longrightarrow>
      (\<exists>te. reg_get (registry E) t = Inr te \<and> (h = te_schemaHash te \<or> t \<in> set ts))"
    using refusedNow_spec [OF assms(1)] by blast
  have send: "\<exists>out. seach (\<lambda>t. sendControl J E (errMsg ERR_SCHEMA_MISMATCH (Some t) None)) us y = (Inr (), y\<lparr>ss_out := out\<rparr>)"
    if "\<forall>t \<in> set us. reg_has (registry E) t" for us and y :: Session
    using that
  proof (induction us arbitrary: y)
    case Nil
    show ?case by (intro exI [of _ "ss_out y"]) simp
  next
    case (Cons u us)
    obtain raw where raw: "serializeMsg J (constants E) (errMsg ERR_SCHEMA_MISMATCH (Some u) None) = Inr raw"
      using Cons.prems assms(2) by (cases "serializeMsg J (constants E) (errMsg ERR_SCHEMA_MISMATCH (Some u) None)")
        (auto simp: errs_fit_def is_ok_def split: sum.splits)
    obtain o1 where o1: "sendControl J E (errMsg ERR_SCHEMA_MISMATCH (Some u) None) y = (Inr (), y\<lparr>ss_out := o1\<rparr>)"
    proof (cases "ss_state y = SClosed")
      case True
      then show ?thesis using that [of "ss_out y"] by (simp add: sendControl_def ok_def)
    next
      case False
      then show ?thesis using that raw by (simp add: sendControl_def ok_def)
    qed
    obtain o2 where "seach (\<lambda>t. sendControl J E (errMsg ERR_SCHEMA_MISMATCH (Some t) None)) us (y\<lparr>ss_out := o1\<rparr>)
        = (Inr (), y\<lparr>ss_out := o2\<rparr>)" using Cons.IH [of "y\<lparr>ss_out := o1\<rparr>"] Cons.prems by auto
    then show ?case using o1 by (intro exI [of _ o2]) (simp add: sthen_def)
  qed
  obtain out where "seach (\<lambda>t. sendControl J E (errMsg ERR_SCHEMA_MISMATCH (Some t) None)) (filter (\<lambda>t. t \<notin> set (ss_refused s)) ts) s
      = (Inr (), s\<lparr>ss_out := out\<rparr>)" using send [of "filter (\<lambda>t. t \<notin> set (ss_refused s)) ts" s] ts(2) by auto
  then have "r = Inr ()" "s' = s\<lparr>ss_out := out, ss_refused := ts\<rparr>"
    using assms(3) ts(1) by (auto simp: recomputeRefusals_def sthen_def ok_def)
  then show ?thesis using ts(3) assms(1) by (auto simp: nego_ok_def)
qed

section \<open>Every step keeps the negotiation\<close>

definition nego_step :: "LogEnv \<Rightarrow> 'w SW \<Rightarrow> 'w SW \<Rightarrow> bool" where
  "nego_step E x y \<longleftrightarrow> (nego_ok E (fst x) \<longrightarrow> nego_ok E (fst y))"

lemma nego_same: "same_nego (fst x) (fst y) \<Longrightarrow> nego_step E x y"
  by (auto simp: nego_step_def intro: same_nego_ok)

lemma nego_sthen:
  assumes "nego_step E x (snd r)" "\<And>y. nego_step E y (snd (f y))"
  shows "nego_step E x (snd (sthen r f))"
proof -
  obtain e y where r: "r = (e, y)" by (cases r)
  show ?thesis using assms(1) assms(2) [of y] r by (auto simp: sthen_def nego_step_def split: sum.split)
qed

lemma nego_refl [simp]: "nego_step E x x" "nego_step E x (snd (ok x))"
  by (simp_all add: nego_step_def ok_def)

lemma nego_onSess: "(\<And>s. same_nego s (snd (f s))) \<Longrightarrow> nego_step E x (snd (onSess f x))"
  by (rule nego_same) (simp add: onSess_def split: prod.split, metis snd_conv)

lemma nego_seach: "(\<And>v x. nego_step E x (snd (f v x))) \<Longrightarrow> nego_step E x (snd (seach f vs x))"
proof (induction vs arbitrary: x)
  case (Cons v vs)
  show ?case unfolding seach.simps by (rule nego_sthen) (use Cons in auto)
qed simp

lemma nego_trans: "nego_step E x y \<Longrightarrow> nego_step E y z \<Longrightarrow> nego_step E x z"
  by (simp add: nego_step_def)

text \<open>A change of the grant pair followed by the recomputation.\<close>

lemma nego_recompute:
  assumes "errs_fit J E" "\<And>s. nego_ok E s \<Longrightarrow> assertGrants E (ss_peerClass (f s)) (ss_grants (f s)) = Inr ()"
  shows "nego_step E x (snd (onSess (recomputeRefusals J E) (upd f x)))"
proof -
  obtain r s' where s': "recomputeRefusals J E (f (fst x)) = (r, s')" by (cases "recomputeRefusals J E (f (fst x))")
  then have "nego_ok E (fst x) \<Longrightarrow> nego_ok E s'" using recompute_spec [OF _ assms(1)] assms(2) by blast
  then show ?thesis using s' by (simp add: nego_step_def onSess_def upd_def)
qed

context session_client
begin

lemmas nego_callbacks = ready_ops [THEN same_ops, THEN nego_same] close_ops [THEN same_ops, THEN nego_same]
  control_ops [THEN same_ops, THEN nego_same] data_ops [THEN same_ops, THEN nego_same]
  capacity_ops [THEN same_ops, THEN nego_same] grants_ops [THEN same_ops, THEN nego_same]

lemma nego_close: "nego_step E x (close C reason x)"
proof -
  have "nego_step E x (upd (closeSession reason) x)"
    by (rule nego_same) (simp add: upd_def closeSession_def same_nego_def)
  then have "nego_step E x (cb_onClose C (upd (closeSession reason) x))" by (rule nego_trans [OF _ nego_callbacks(2)])
  then show ?thesis by (simp add: close_def)
qed

lemma nego_drainBuffer: "nego_step E x (snd (drainBuffer C n x))"
proof (induction n arbitrary: x)
  case (Suc n)
  show ?case
  proof (cases "map_of (ss_recvBuffer (fst x)) (int (ss_recvContig (fst x)) + 1)")
    case (Some m)
    let ?x = "upd (\<lambda>s. s\<lparr>ss_recvBuffer := AList.delete (int (ss_recvContig (fst x)) + 1) (ss_recvBuffer s),
           ss_recvContig := ss_recvContig s + 1, ss_delivered := ss_delivered s @ [m]\<rparr>) x"
    have "nego_step E x ?x" by (rule nego_same) (simp add: upd_def same_nego_def)
    then have "nego_step E x (snd (cb_onData C m ?x))" by (rule nego_trans [OF _ nego_callbacks(4)])
    then show ?thesis using Some Suc.IH by (simp add: Let_def nego_sthen)
  qed (simp add: Let_def)
qed simp

lemma nego_drainData: "nego_step E x (snd (drainData C J E x))"
  unfolding drainData_def
proof (rule nego_sthen [OF nego_drainBuffer])
  fix y show "nego_step E y (snd (if ss_recvContig (fst y) > ss_recvContig (fst x)
      then onSess (\<lambda>s. sendControl J E (ACK (ss_recvContig s)) s) y else ok y))"
    by (simp add: nego_onSess same_sendControl)
qed

lemma nego_onDataMsg: "nego_step E x (snd (onDataMsg C J E m x))"
proof -
  let ?x = "upd (\<lambda>s. s\<lparr>ss_recvBuffer := AList.update (m_mid m) m (ss_recvBuffer s)\<rparr>) x"
  have first: "nego_step E x ?x" by (rule nego_same) (simp add: upd_def same_nego_def)
  have far: "nego_step E x (snd (sthen (onSess (sendControl J E msg) x) (\<lambda>x. ok (close C CR_protocol x))))" for msg
    by (intro nego_sthen nego_onSess same_sendControl) (simp add: ok_def nego_close)
  show ?thesis
    using far nego_trans [OF first nego_drainData] first
    by (simp add: onDataMsg_def Let_def nego_onSess same_sendControl ok_def)
qed

lemma nego_onHello:
  assumes "errs_fit J E"
  shows "nego_step E x (snd (onHello C J E m x))"
proof -
  let ?gen = "case m_grantsGen m of None \<Rightarrow> 0 | Some g \<Rightarrow> g"
  have reply: "nego_step E y (snd (case m_ackGen m of
         Some a \<Rightarrow> ok (if a = ss_grantsGen (fst y) then upd (satisfyRequest ''HELLO'') y else y)
       | None \<Rightarrow> (case helloMsg E (fst y) of
           Inl e \<Rightarrow> (Inl e, y)
         | Inr (HELLO a b node gs g _) \<Rightarrow> onSess (sendControl J E (HELLO a b node gs g (Some ?gen))) y
         | Inr _ \<Rightarrow> ok y)))" for y :: "'w SW"
  proof -
    have "nego_step E y (upd (satisfyRequest ''HELLO'') y)"
      by (rule nego_same) (simp add: upd_def satisfyRequest_def cancelRequest_def same_nego_def)
    moreover have "nego_step E y (snd (onSess (sendControl J E msg) y))" for msg by (intro nego_onSess same_sendControl)
    ultimately show ?thesis by (simp add: ok_def split: option.split sum.split WireMsg.split)
  qed
  have update: "nego_step E x (snd (onHelloUpdate C J E m x))"
  proof -
    have "nego_step E x (snd (onSess (recomputeRefusals J E) (upd (\<lambda>s. s\<lparr>ss_peerGrants := m_grants m, ss_peerGrantsGen := ?gen\<rparr>) x)))"
      by (rule nego_recompute [OF assms]) (simp add: nego_ok_def)
    then have "nego_step E x (snd (sthen (onSess (recomputeRefusals J E) (upd (\<lambda>s. s\<lparr>ss_peerGrants := m_grants m,
        ss_peerGrantsGen := ?gen\<rparr>) x)) (cb_onGrantsUpdated C)))" by (rule nego_sthen) (rule nego_callbacks)
    then show ?thesis unfolding onHelloUpdate_def Let_def using reply by (intro nego_sthen) simp_all
  qed
  let ?f = "\<lambda>s. (satisfyRequest ''HELLO'' s)\<lparr>ss_helloTimer := False, ss_state := SReady, ss_lifecycle := ss_lifecycle s @ [LReady]\<rparr>"
  let ?held = "\<lambda>x. sthen (seach (cb_onControl C) (ss_preReady (fst x)) (upd (\<lambda>s. s\<lparr>ss_preReady := []\<rparr>) x)) (drainData C J E)"
  let ?tail = "\<lambda>x1. sthen (if ss_grantsGen (fst x1) > 0 then onSess (request J E ''HELLO'' RHello) x1 else ok x1)
      (\<lambda>x. sthen (cb_onReady C x) ?held)"
  have held: "nego_step E y (snd (?held y))" for y :: "'w SW"
  proof -
    have "nego_step E y (upd (\<lambda>s. s\<lparr>ss_preReady := []\<rparr>) y)" by (rule nego_same) (simp add: upd_def same_nego_def)
    then have "nego_step E y (snd (seach (cb_onControl C) (ss_preReady (fst y)) (upd (\<lambda>s. s\<lparr>ss_preReady := []\<rparr>) y)))"
      by (rule nego_trans) (intro nego_seach nego_callbacks)
    then show ?thesis by (rule nego_sthen) (rule nego_drainData)
  qed
  have tail: "nego_step E y (snd (?tail y))" for y :: "'w SW"
  proof -
    have "nego_step E y (snd (if ss_grantsGen (fst y) > 0 then onSess (request J E ''HELLO'' RHello) y else ok y))"
      by (simp add: nego_onSess same_request)
    then show ?thesis
      by (rule nego_sthen) (rule nego_sthen [OF nego_callbacks(1)], rule held)
  qed
  let ?neg = "\<lambda>s. s\<lparr>ss_proto := min PROTO_MAX (protoMax m), ss_peerNode := Some (m_node m), ss_peerGrants := m_grants m, ss_peerGrantsGen := ?gen\<rparr>"
  have accept: "nego_step E x (snd (sthen (onSess (recomputeRefusals J E) (upd ?neg x)) (\<lambda>x. ?tail (upd ?f x))))"
  proof -
    obtain r s' where rs: "recomputeRefusals J E (?neg (fst x)) = (r, s')" by (cases "recomputeRefusals J E (?neg (fst x))")
    have "nego_ok E (?f s') \<and> r = Inr ()" if "nego_ok E (fst x)"
    proof -
      have pre: "assertGrants E (ss_peerClass (?neg (fst x))) (ss_grants (?neg (fst x))) = Inr ()" using that by (simp add: nego_ok_def)
      note spec = recompute_spec [OF pre assms rs]
      have eq: "s' = (?neg (fst x))\<lparr>ss_out := ss_out s', ss_refused := ss_refused s'\<rparr>" using spec by blast
      have f: "ss_grants s' = ss_grants (fst x)" "ss_peerClass s' = ss_peerClass (fst x)" "ss_peerGrants s' = m_grants m"
        by (subst eq; simp)+
      show ?thesis using spec that f by (simp add: nego_ok_def satisfyRequest_def cancelRequest_def)
    qed
    then have "nego_step E x (snd (?tail (upd ?f (s', snd x))))" if "r = Inr ()"
      using tail [of "upd ?f (s', snd x)"] by (auto simp: nego_step_def upd_def)
    then show ?thesis
      using rs \<open>nego_ok E (fst x) \<Longrightarrow> nego_ok E (?f s') \<and> r = Inr ()\<close>
      by (cases "nego_ok E (fst x)") (auto simp: onSess_def upd_def sthen_def nego_step_def split: sum.split)
  qed
  have refuse: "nego_step E x (snd (sthen (onSess (sendControl J E (errMsg ERR_PROTO_VERSION None None)) x) (\<lambda>x. ok (close C CR_protocol x))))"
    by (intro nego_sthen nego_onSess same_sendControl) (simp add: ok_def nego_close)
  show ?thesis
    unfolding onHello_def Let_def using update refuse accept [unfolded Let_def] by simp
qed

end

context session_client
begin

lemma nego_onAck: "nego_step E x (snd (onAck C J E now n x))"
proof -
  let ?s = "fst x" let ?kept = "dropWhile (\<lambda>u. un_mid u \<le> n) (ss_unacked ?s)"
  let ?s1 = "?s\<lparr>ss_unacked := ?kept, ss_ackProgressAt := (if length ?kept < length (ss_unacked ?s) then now else ss_ackProgressAt ?s)\<rparr>"
  have "nego_step E x (?s1, snd x)" by (rule nego_same) (simp add: same_nego_def)
  then have "nego_step E x (snd (onSess (pumpData J E now) (?s1, snd x)))"
    by (rule nego_trans) (intro nego_onSess same_pumpData)
  then have "nego_step E x (snd (sthen (onSess (pumpData J E now) (?s1, snd x))
      (\<lambda>x. if hasSendCapacity E (fst x) then cb_onCapacity C x else ok x)))"
    by (rule nego_sthen) (simp add: nego_callbacks)
  then show ?thesis by (simp add: onAck_def Let_def)
qed

lemma nego_dispatch:
  assumes "errs_fit J E"
  shows "nego_step E x (snd (dispatch C J E now m x))"
proof -
  have wait: "nego_step E x (upd (\<lambda>s. s\<lparr>ss_preReady := ss_preReady s @ [m]\<rparr>) x)"
    by (rule nego_same) (simp add: upd_def same_nego_def)
  show ?thesis
    using nego_onHello [OF assms] nego_onAck nego_onDataMsg wait nego_callbacks(3)
    by (cases m) (simp_all add: dispatch_def isData_def ok_def)
qed

lemma nego_onRaw:
  assumes "errs_fit J E"
  shows "nego_step E x (snd (onRaw C J E now raw x))"
proof (cases "parseMsg J (constants E) raw")
  case (Inr m)
  obtain r y where y: "dispatch C J E now m x = (r, y)" by (cases "dispatch C J E now m x")
  have d: "nego_step E x y" using nego_dispatch [OF assms, of x now m] y by simp
  have "nego_step E x (snd (onSess (sendControl J E (errMsg c None t)) y))" for c t
    by (rule nego_trans [OF d nego_onSess]) (rule same_sendControl)
  then show ?thesis using d y Inr by (simp add: onRaw_def ok_def split: sum.split)
qed (simp add: onRaw_def nego_onSess same_sendControl)

lemma nego_local:
  assumes "errs_fit J E"
  shows "local_step C J E x y \<Longrightarrow> nego_step E x y"
proof (induction rule: local_step.induct)
  case (engine x s w)
  then show ?case using same_ops by (intro nego_same) simp
next
  case (regrant x gs)
  show ?case
  proof (cases "ss_state (fst x) = SClosed \<or> assertGrants E (ss_peerClass (fst x)) gs \<noteq> Inr ()")
    case True
    then show ?thesis by (cases "assertGrants E (ss_peerClass (fst x)) gs") (auto simp: updateGrants_def)
  next
    case False
    let ?r = "onSess (recomputeRefusals J E) (upd (\<lambda>s. s\<lparr>ss_grants := gs, ss_grantsGen := ss_grantsGen s + 1\<rparr>) x)"
    have "nego_step E x (snd ?r)"
    proof -
      obtain r s' where rs: "recomputeRefusals J E ((fst x)\<lparr>ss_grants := gs, ss_grantsGen := ss_grantsGen (fst x) + 1\<rparr>) = (r, s')"
        by (cases "recomputeRefusals J E ((fst x)\<lparr>ss_grants := gs, ss_grantsGen := ss_grantsGen (fst x) + 1\<rparr>)")
      have "nego_ok E s'" by (rule recompute_spec [OF _ assms rs, THEN conjunct2, THEN conjunct1]) (use False in simp)
      then show ?thesis using rs by (simp add: nego_step_def onSess_def upd_def)
    qed
    then have "nego_step E x (snd (sthen ?r (\<lambda>x. sthen (onSess (request J E ''HELLO'' RHello) x) (\<lambda>x.
           if ss_state (fst x) = SReady then cb_onGrantsUpdated C x else ok x))))"
      by (rule nego_sthen) (intro nego_sthen nego_onSess same_request, simp add: nego_callbacks)
    then show ?thesis using False by (simp add: updateGrants_def)
  qed
next
  case (retryTimer x now)
  show ?case by (rule nego_same) (simp add: upd_def retryUnacked_def Let_def armRetry_def same_nego_def)
next
  case (requestTimer x key)
  have "same_nego s (snd (requestTimer J E key s))" for s
    by (auto simp: requestTimer_def fireRequest_def sendControl_def sthen_def ok_def same_nego_def
      split: option.split prod.split bool.split sum.split)
  then show ?case by (rule nego_onSess)
next
  case (stallTimer x now)
  have "nego_step E x (upd (\<lambda>s. s\<lparr>ss_stallTimer := True\<rparr>) x)" by (rule nego_same) (simp add: upd_def same_nego_def)
  then show ?case by (simp add: stallCheck_def Let_def nego_close split: list.split)
qed (simp_all add: helloTimeout_def nego_close)

lemma reach_nego:
  assumes "errs_fit J E"
  shows "sess_reach C J E x \<Longrightarrow> nego_ok E (fst x)"
proof (induction rule: sess_reach.induct)
  case (attach p cls gs s w)
  obtain r s1 where r: "request J E ''HELLO'' RHello (emptySession p cls gs) = (r, s1)"
    by (cases "request J E ''HELLO'' RHello (emptySession p cls gs)")
  have s: "s = s1\<lparr>ss_helloTimer := True, ss_stallTimer := True\<rparr>" and g: "assertGrants E cls gs = Inr ()"
    using attach r by (auto simp: newSession_def rbind_eq_Inr split: sum.splits)
  have "same_nego (emptySession p cls gs) s1" using same_request [of "emptySession p cls gs" J E "''HELLO''" RHello] r by simp
  then have "same_nego (emptySession p cls gs) s" by (simp add: s same_nego_def)
  moreover have "nego_ok E (emptySession p cls gs)" using g by (simp add: nego_ok_def emptySession_def)
  ultimately show ?case by (simp add: same_nego_ok)
next
  case (local x y)
  then show ?case using nego_local [OF assms] by (simp add: nego_step_def)
next
  case (frame x now raw)
  then show ?case using nego_onRaw [OF assms] by (simp add: nego_step_def)
qed

text \<open>What a mutually full topic means.\<close>

lemma mutual_agreed:
  assumes "errs_fit J E" "sess_reach C J E x" "mutualFull (fst x) t"
  shows "\<exists>te. reg_get (registry E) t = Inr te \<and> map_of (ss_grants (fst x)) t = Some GFull \<and>
    map_of (ss_peerGrants (fst x)) t = Some (GFull, te_schemaHash te) \<and>
    (ss_peerClass (fst x) = PMetadata \<longrightarrow> p_access (te_policy te) \<noteq> ''content'') \<and>
    p_replication (te_policy te) \<noteq> ''subscribe-only''"
proof -
  have nego: "nego_ok E (fst x)" by (rule reach_nego [OF assms(1,2)])
  have mine: "ss_state (fst x) = SReady" "t \<notin> set (ss_refused (fst x))" "map_of (ss_grants (fst x)) t = Some GFull"
    and "map_option fst (map_of (ss_peerGrants (fst x)) t) = Some GFull"
    using assms(3) by (simp_all add: mutualFull_def)
  then obtain h where h: "map_of (ss_peerGrants (fst x)) t = Some (GFull, h)" by auto
  have mem: "(t, GFull) \<in> set (ss_grants (fst x))" using mine(3) by (rule map_of_SomeD)
  obtain te where te: "reg_get (registry E) t = Inr te" "h = te_schemaHash te"
    using nego mine(1,2) mem h by (auto simp: nego_ok_def)
  have "assertGrants E (ss_peerClass (fst x)) (ss_grants (fst x)) = Inr ()" using nego by (simp add: nego_ok_def)
  from assertGrants_member [OF this mem] show ?thesis using te mine(3) h by auto
qed

end

end
