(* ===== verification/Sync_Rules.thy ===== *)
theory Sync_Rules
  imports Sync Session_Grants
begin

text \<open>
  The engine is a client of its sessions: whatever it does for a peer, it touches that peer's session by
  the session's own operations only. This discharges the interface of the session lemmas for the engine's
  callbacks, so what they promise about a link holds between two engines. The hubs that are parameters have
  to keep to the same interface.
\<close>

section \<open>Using a session\<close>

abbreviation uses :: "WireJson \<Rightarrow> LogEnv \<Rightarrow> Session \<Rightarrow> 'h EW \<Rightarrow> bool" where
  "uses J E s x \<equiv> (sess_op J E)\<^sup>*\<^sup>* s (fst x)"

named_theorems use_rules "session use of the engine's operations"

lemma uses_ok [use_rules]: "uses J E s y \<Longrightarrow> uses J E s (snd (ok y))"
  by (simp add: ok_def)

lemma uses_sthen [use_rules]:
  assumes "uses J E s (snd r)" "\<And>y. uses J E s y \<Longrightarrow> uses J E s (snd (f y))"
  shows "uses J E s (snd (sthen r f))"
  using assms by (cases r) (simp add: sthen_def split: sum.split)

lemma uses_seach [use_rules]:
  "uses J E s x \<Longrightarrow> (\<And>v y. uses J E s y \<Longrightarrow> uses J E s (snd (f v y))) \<Longrightarrow> uses J E s (snd (seach f vs x))"
  by (induction vs arbitrary: x) (simp_all add: uses_sthen)

lemma uses_step: "uses J E s x \<Longrightarrow> sess_op J E (fst x) (fst y) \<Longrightarrow> uses J E s y"
  by (rule rtranclp.rtrancl_into_rtrancl)

lemma onPeer_sess [simp]: "fst (onPeer i f x) = fst x" by (simp add: onPeer_def)
lemma onEngine_sess [simp]: "fst (onEngine f x) = fst x" by (simp add: onEngine_def)
lemma setCounters_sess [simp]: "fst (setCounters t f x) = fst x" by (simp add: setCounters_def)
lemma anomalyOut_sess [simp]: "fst (anomalyOut a x) = fst x" by (simp add: anomalyOut_def)
lemma readCore_sess [simp]: "fst (snd (readCore f x)) = fst x" by (simp add: readCore_def split: prod.split)
lemma noteThroughput_sess [simp]: "fst (noteThroughput E t p n b s x) = fst x" by (simp add: noteThroughput_def Let_def)
lemma schedulePump_sess [simp]: "fst (schedulePump i d x) = fst x" by (simp add: schedulePump_def)
lemma markDirty_sess [simp]: "fst (markDirty i t w d x) = fst x" by (simp add: markDirty_def Let_def)
lemma dropDirty_sess [simp]: "fst (dropDirty i k x) = fst x" by (simp add: dropDirty_def)
lemma touch_sess [simp]: "fst (touch i x) = fst x" by (simp add: touch_def)
lemma bumpRetention_sess [simp]: "fst (bumpRetention t k x) = fst x" by (simp add: bumpRetention_def)
lemma reportUnavailable_sess [simp]: "fst (reportUnavailable t w x) = fst x" by (simp add: reportUnavailable_def)
lemma recordAcks_sess [simp]: "fst (recordAcks E vs x) = fst x"
  by (simp add: recordAcks_def Let_def split: option.split prod.split)
lemma countRejects_sess [simp]: "fst (countRejects t rs x) = fst x" by (induction rs arbitrary: x) simp_all

lemma readCore_eq: "readCore f x = (v, y) \<Longrightarrow> fst y = fst x"
  using readCore_sess [of f x] by simp

lemma uses_control [use_rules]: "uses J E s x \<Longrightarrow> plain m \<Longrightarrow> uses J E s (snd (control J E m x))"
  using sess_op.control [of m J E "fst x"]
  by (auto simp: control_def onSess_def split: prod.split intro!: uses_step [of J E s x])

lemma uses_ask [use_rules]: "uses J E s x \<Longrightarrow> plain m \<Longrightarrow> uses J E s (snd (ask J E key m x))"
  using sess_op.ask [of m J E "fst x" key]
  by (auto simp: ask_def onSess_def split: prod.split intro!: uses_step [of J E s x])

lemma uses_satisfied [use_rules]: "uses J E s x \<Longrightarrow> uses J E s (satisfied key x)"
  using sess_op.satisfied [of J E "fst x" key] by (auto simp: satisfied_def upd_def intro!: uses_step [of J E s x])

lemma uses_dataOut: "dataOut J E mk x = (r, y) \<Longrightarrow> good_make mk \<Longrightarrow> uses J E s x \<Longrightarrow> uses J E s y"
  using sess_op.data [of mk J E "fst x" "en_now (snd x)"]
  by (auto simp: dataOut_def split: prod.splits intro!: uses_step [of J E s x])

lemma good_entries [simp]: "good_make (entriesMsg req t w from to es d)"
  by (simp add: good_make_def entriesMsg_def isData_def)

lemma plain_simps [simp]: "plain (errMsg c r d)" "plain (HAVE_GET n)" "plain (HAVE n p k v)" "plain (WANT n t w s)"
  "plain (PROBE t w ss)" "plain (PROBE_RES t w ps b)" "plain (TRUNCATED n t w fs fc)" "plain (FINALITY t dd)"
  "plain (WRITER_DIRECTIVE dd)"
  by (simp_all add: plain_def isData_def errMsg_def)

section \<open>Each operation\<close>

lemma uses_startHaveRound [use_rules]: "uses J E s x \<Longrightarrow> uses J E s (snd (startHaveRound J E i x))"
  unfolding startHaveRound_def Let_def by (rule uses_ask) simp_all

lemma uses_sendWant [use_rules]: "uses J E s x \<Longrightarrow> uses J E s (snd (sendWant J E i t w n x))"
  unfolding sendWant_def Let_def by (rule uses_ask) simp_all

lemma uses_pumpWantsLoop [use_rules]: "uses J E s x \<Longrightarrow> uses J E s (snd (pumpWantsLoop J E i n x))"
proof (induction n arbitrary: x)
  case (Suc n)
  show ?case
  proof (cases "ps_wantQueue (thePeer i x)")
    case (Cons q rest)
    obtain head x1 where r: "readCore (getStream E (fst q) (snd q)) (onPeer i (\<lambda>p. p\<lparr>ps_wantQueue := rest\<rparr>) x) = (head, x1)"
      by (rule prod.exhaust)
    have "fst x1 = fst x" using readCore_eq [OF r] by simp
    then show ?thesis using Suc.prems by (cases q) (use Cons r in \<open>simp add: Let_def use_rules Suc.IH\<close>)
  qed (simp add: Suc.prems use_rules)
qed (simp add: use_rules)

lemma uses_pumpWants [use_rules]: "uses J E s x \<Longrightarrow> uses J E s (snd (pumpWants J E i x))"
  by (simp add: pumpWants_def uses_pumpWantsLoop)

lemma uses_queueWant [use_rules]: "uses J E s x \<Longrightarrow> uses J E s (snd (queueWant J E i t w x))"
  by (auto simp: queueWant_def intro!: use_rules)

lemma uses_finishWant [use_rules]: "uses J E s x \<Longrightarrow> uses J E s (snd (finishWant J E i r x))"
  by (auto simp: finishWant_def intro!: use_rules split: option.split)

lemma uses_pushBatch: "pushBatch J E i key t w to p x = (r, y) \<Longrightarrow> uses J E s x \<Longrightarrow> uses J E s y"
  by (auto simp: pushBatch_def Let_def dest: uses_dataOut split: prod.splits sum.splits bool.splits if_splits)

lemma uses_pumpDirtyLoop [use_rules]: "uses J E s x \<Longrightarrow> uses J E s (snd (pumpDirtyLoop J E i fu ds x))"
proof (induction ds arbitrary: fu x)
  case (Cons d ds)
  obtain key topic writer readyAt where d: "d = (key, topic, writer, readyAt)" by (cases d) auto
  obtain head x1 where r1: "readCore (getStream E topic writer) x = (head, x1)" by (rule prod.exhaust)
  obtain flr x2 where r2: "readCore (floorOf topic writer) x1 = (flr, x2)" by (rule prod.exhaust)
  obtain p where p: "p = batchFrom J E (lc_db (theCore x2)) topic writer (knownOf i key x1 + 1)
      (min (contigSeq head) (knownOf i key x1 + ENTRIES_BATCH_MAX))" by blast
  obtain r x3 where out: "pushBatch J E i key topic writer (contigSeq head) p x2 = (r, x3)" by (rule prod.exhaust)
  have same: "fst x1 = fst x" "fst x2 = fst x" using readCore_eq [OF r1] readCore_eq [OF r2] by simp_all
  have "uses J E s x3" using uses_pushBatch [OF out] Cons.prems same by simp
  then show ?case
    using Cons.prems same
    by (simp add: d r1 r2 p [symmetric] out Let_def use_rules Cons.IH del: One_nat_def
        split: option.split sum.split bool.split)
qed (simp add: use_rules split: option.split)

lemma uses_pumpDirty [use_rules]: "uses J E s x \<Longrightarrow> uses J E s (snd (pumpDirty J E i x))"
  by (simp add: pumpDirty_def use_rules)

lemma uses_serveBatch: "serveBatch J E m to k p x = (r, y) \<Longrightarrow> uses J E s x \<Longrightarrow> uses J E s y"
  by (auto simp: serveBatch_def dest: uses_dataOut split: prod.splits sum.splits bool.splits)

lemma uses_serveLoop [use_rules]: "uses J E s x \<Longrightarrow> uses J E s (snd (serveLoop J E m n to k x))"
proof (induction n arbitrary: k x)
  case (Suc n)
  obtain p where p: "p = batchFrom J E (lc_db (theCore x)) (m_topic m) (m_writer m) k (min to (k + ENTRIES_BATCH_MAX - 1))"
    by blast
  obtain r y where out: "serveBatch J E m to k p x = (r, y)" by (rule prod.exhaust)
  have "uses J E s y" using uses_serveBatch [OF out Suc.prems] .
  then show ?case
    using Suc.prems
    by (simp add: p [symmetric] out Let_def use_rules Suc.IH del: One_nat_def split: sum.split bool.split)
qed (simp add: use_rules)

lemma uses_locateFork [use_rules]: "uses J E s x \<Longrightarrow> uses J E s (snd (locateFork J E i t w n x))"
  by (simp add: locateFork_def Let_def use_rules)

lemma uses_sealStream [use_rules]: "uses J E s x \<Longrightarrow> uses J E s (snd (sealStream E t w x))"
  by (simp add: sealStream_def use_rules split: sum.split)

lemma uses_onProbeRes [use_rules]: "uses J E s x \<Longrightarrow> uses J E s (onProbeRes i m x)"
  by (simp add: onProbeRes_def Let_def use_rules split: option.split prod.split)

lemma uses_pushDirective [use_rules]: "uses J E s x \<Longrightarrow> uses J E s (snd (pushDirective J E h v t w x))"
  by (simp add: pushDirective_def use_rules split: option.split)

lemma uses_wantForRecovery [use_rules]: "uses J E s x \<Longrightarrow> uses J E s (snd (wantForRecovery J E i t w x))"
  by (simp add: wantForRecovery_def use_rules)

lemma uses_processWriter [use_rules]: "uses J E s x \<Longrightarrow> uses J E s (snd (processWriter J E i t p x))"
proof -
  assume u: "uses J E s x"
  obtain head x1 where r: "readCore (getStream E t (fst p)) x = (head, x1)" by (rule prod.exhaust)
  have "uses J E s x1" using u readCore_eq [OF r] by simp
  then show ?thesis
    using r by (cases p; cases "snd p") (auto simp: processWriter_def intro!: use_rules)
qed

lemma uses_processTopic [use_rules]: "uses J E s x \<Longrightarrow> uses J E s (snd (processTopic J E i p x))"
proof -
  assume u: "uses J E s x"
  obtain c x1 where r: "readCore (getCert (fst p)) x = (c, x1)" by (rule prod.exhaust)
  have "uses J E s x1" using u readCore_eq [OF r] by simp
  then show ?thesis
    using u r by (cases p; cases c) (auto simp: processTopic_def Let_def intro!: use_rules)
qed

lemma uses_processPeerVectors [use_rules]: "uses J E s x \<Longrightarrow> uses J E s (snd (processPeerVectors J E i vs x))"
  by (simp add: processPeerVectors_def use_rules)

lemma uses_emptyEntries [use_rules]: "uses J E s x \<Longrightarrow> uses J E s (snd (emptyEntries J E m to x))"
  by (auto simp: emptyEntries_def dest: uses_dataOut intro!: use_rules split: prod.split sum.split)

lemma uses_serveBelowFloor [use_rules]: "uses J E s x \<Longrightarrow> uses J E s (snd (serveBelowFloor J E i m f to x))"
  by (auto simp: serveBelowFloor_def Let_def intro!: use_rules)

lemma uses_sendPage [use_rules]: "uses J E s x \<Longrightarrow> uses J E s (snd (sendPage J E r p x))"
  by (cases p) (simp add: sendPage_def use_rules)

lemma uses_serveHave [use_rules]: "uses J E s x \<Longrightarrow> uses J E s (snd (serveHave J E i m x))"
proof -
  assume u: "uses J E s x"
  obtain full y where r: "readCore (vectors E (en_now (snd x))) x = (full, y)" by (rule prod.exhaust)
  have "fst y = fst x" using readCore_eq [OF r] .
  then show ?thesis using u by (simp add: serveHave_def r Let_def use_rules split: option.split prod.split)
qed

lemma uses_onTruncated [use_rules]: "uses J E s x \<Longrightarrow> uses J E s (snd (onTruncated J E i m x))"
  by (simp add: onTruncated_def Let_def use_rules split: option.split sum.split)

lemma uses_applyEntries: "applyEntries J E m raws ts x = ((r, y), ts') \<Longrightarrow> uses J E s x \<Longrightarrow> uses J E s y"
proof (induction raws arbitrary: ts x)
  case (Cons raw raws)
  show ?case
  proof (cases "validateEntry (prims E) (constants E) raw")
    case (Inl c)
    obtain r1 y1 where c: "control J E (errMsg c (Some (m_topic m @ ''/'' @ m_writer m)) None) x = (r1, y1)"
      by (rule prod.exhaust)
    have "uses J E s y1" using uses_control [OF Cons.prems(2), of "errMsg c (Some (m_topic m @ ''/'' @ m_writer m)) None"] c by simp
    then show ?thesis
      using Cons.prems(1) Cons.IH [of ts y1] unfolding applyEntries.simps Inl sum.case c prod.case
      by (auto split: sum.splits)
  next
    case (Inr e)
    show ?thesis
      using Cons.prems Cons.IH by (auto simp: Inr Let_def split: if_splits sum.splits)
  qed
qed (simp add: ok_def)

lemma uses_onEntries [use_rules]:
  assumes "uses J E s x" shows "uses J E s (snd (onEntries J E i m x))"
proof -
  let ?key = "knownKey (m_topic m) (m_writer m)"
  obtain x1 where x1: "x1 = (if knownOf i ?key x < m_toSeq m then onPeer i (\<lambda>p. p\<lparr>ps_known := (ps_known p)(?key \<mapsto> m_toSeq m)\<rparr>) x else x)"
    by blast
  obtain r y ts where a: "applyEntries J E m (m_entries m) [] x1 = ((r, y), ts)" by (metis surj_pair)
  have "uses J E s y" using uses_applyEntries [OF a] assms by (simp add: x1)
  then show ?thesis
    using assms by (simp add: onEntries_def Let_def x1 [symmetric] a use_rules split: sum.split)
qed

lemma uses_serveProbe [use_rules]: "uses J E s x \<Longrightarrow> uses J E s (snd (serveProbe J E m x))"
  by (auto simp: serveProbe_def intro!: use_rules dest!: readCore_eq split: prod.split)

section \<open>The hubs\<close>

text \<open>A hub, too, uses the session by its operations.\<close>

definition hub_ok :: "WireJson \<Rightarrow> LogEnv \<Rightarrow> ('h HW \<Rightarrow> 'r \<times> 'h HW) \<Rightarrow> bool" where
  "hub_ok J E f \<longleftrightarrow> (\<forall>y. (sess_op J E)\<^sup>*\<^sup>* (fst y) (fst (snd (f y))))"

definition hubs_ok :: "'h Hubs \<Rightarrow> WireJson \<Rightarrow> LogEnv \<Rightarrow> bool" where
  "hubs_ok H J E \<longleftrightarrow> (\<forall>i m t w n. hub_ok J E (hub_capacity H i) \<and> hub_ok J E (\<lambda>y. ((), hub_closed H i y)) \<and>
     hub_ok J E (hub_offer H i m) \<and> hub_ok J E (hub_get H i m) \<and> hub_ok J E (hub_chunk H i m) \<and>
     hub_ok J E (hub_sub H i m) \<and> hub_ok J E (hub_maybeOffer H i t w n))"

lemma noHubs_ok [simp]: "hubs_ok noHubs J E"
  by (simp add: hubs_ok_def hub_ok_def noHubs_def ok_def)

lemma uses_callHub:
  assumes "hub_ok J E f" "uses J E s x"
  shows "uses J E s (snd (callHub f x))"
proof -
  let ?y = "(fst x, en_log (snd x), en_hubs (snd x))"
  have "(sess_op J E)\<^sup>*\<^sup>* (fst x) (fst (snd (f ?y)))" using assms(1) by (simp add: hub_ok_def)
  then show ?thesis using assms(2) by (auto simp: callHub_def split: prod.splits)
qed

lemma uses_skipHub: "hub_ok J E f \<Longrightarrow> uses J E s x \<Longrightarrow> uses J E s (snd (skipHub f c x))"
  by (simp add: skipHub_def use_rules uses_callHub)

section \<open>The callbacks\<close>

lemma uses_onClosed: "hubs_ok H J E \<Longrightarrow> uses J E s x \<Longrightarrow> uses J E s (onClosed H i x)"
  by (simp add: onClosed_def hubs_ok_def uses_callHub)

lemma uses_closePeer:
  assumes "hubs_ok H J E" "uses J E s x"
  shows "uses J E s (closePeer H i reason x)"
proof (cases "ss_state (fst x) = SClosed")
  case False
  have "uses J E s (upd (closeSession reason) x)"
    by (rule uses_step [OF assms(2)]) (simp add: upd_def sess_op.closed [OF False])
  then show ?thesis using False uses_onClosed [OF assms(1)] by (simp add: closePeer_def)
qed (simp add: closePeer_def assms)

lemma uses_onHavePage:
  "hubs_ok H J E \<Longrightarrow> uses J E s x \<Longrightarrow> uses J E s (snd (onHavePage H J E i m x))"
  by (simp add: onHavePage_def Let_def use_rules uses_closePeer)

lemma uses_serveWant:
  assumes "hubs_ok H J E" "uses J E s x"
  shows "uses J E s (snd (serveWant H J E i m x))"
proof -
  obtain x0 where x0: "x0 = setCounters (m_topic m) (\<lambda>c. c\<lparr>wantRoundsServed := wantRoundsServed c + 1\<rparr>) x" by blast
  obtain r x1 where h: "callHub (hub_maybeOffer H i (m_topic m) (m_writer m) (m_fromSeq m)) x0 = (r, x1)" by (rule prod.exhaust)
  obtain head x2 where r2: "readCore (getStream E (m_topic m) (m_writer m)) x1 = (head, x2)" by (rule prod.exhaust)
  obtain flr x3 where r3: "readCore (floorOf (m_topic m) (m_writer m)) x2 = (flr, x3)" by (rule prod.exhaust)
  have u1: "uses J E s x1"
    using uses_callHub [of J E "hub_maybeOffer H i (m_topic m) (m_writer m) (m_fromSeq m)" s x0] assms h by (simp add: hubs_ok_def x0)
  have "uses J E s x2" "uses J E s x3" using u1 readCore_eq [OF r2] readCore_eq [OF r3] by simp_all
  then show ?thesis
    using assms(2) u1 unfolding serveWant_def x0 [symmetric] h
    by (simp add: r2 r3 use_rules split: sum.split option.split)
qed

lemma uses_onControl: "hubs_ok H J E \<Longrightarrow> uses J E s x \<Longrightarrow> uses J E s (snd (onControl H J E i m x))"
  unfolding onControl_def Let_def
  by (cases m) (simp_all add: use_rules uses_onHavePage uses_serveWant uses_skipHub uses_callHub hubs_ok_def)

lemma uses_onData: "hubs_ok H J E \<Longrightarrow> uses J E s x \<Longrightarrow> uses J E s (snd (onData H J E i m x))"
  unfolding onData_def Let_def
  by (cases m) (simp_all add: use_rules uses_callHub hubs_ok_def)

lemma uses_onReady: "uses J E s x \<Longrightarrow> uses J E s (snd (onReady J E i x))"
  by (simp add: onReady_def use_rules)

lemma uses_onCapacity: "hubs_ok H J E \<Longrightarrow> uses J E s x \<Longrightarrow> uses J E s (snd (onCapacity H J E i x))"
  unfolding onCapacity_def by (rule uses_sthen [OF uses_callHub]) (simp_all add: hubs_ok_def use_rules)

lemma uses_onGrantsUpdated: "uses J E s x \<Longrightarrow> uses J E s (snd (onGrantsUpdated J E i x))"
  by (simp add: onGrantsUpdated_def use_rules)

theorem engine_client:
  assumes "hubs_ok H J E" shows "session_client (engineCb H J E i) J E"
  by unfold_locales
    (simp_all add: engineCb_def assms uses_onReady uses_onClosed uses_onControl uses_onData uses_onCapacity uses_onGrantsUpdated)

text \<open>A node without subscription and snapshot hubs.\<close>

interpretation engine: session_client "engineCb noHubs J E i" J E for J E i
  by (rule engine_client) simp

interpretation engines: session_link "engineCb noHubs J E i" "engineCb noHubs J E' j" J E E' for J E E' i j
  by unfold_locales

section \<open>Two engines on one channel\<close>

lemma engines_link:
  "hubs_ok H J E \<Longrightarrow> hubs_ok H' J E' \<Longrightarrow> session_link (engineCb H J E i) (engineCb H' J E' j) J E E'"
  by (intro session_link.intro engine_client)

text \<open>C10. The data lane delivers in order, exactly once. Between two engines, over a channel that loses, repeats and
  reorders frames, with every timer, close and grant update interleaved in any way, the data messages one
  session hands to its engine are a prefix of those the other has sent, in the order of sending,
  without gap or repetition, and their number is what the next \<^verbatim>\<open>ACK\<close> says.
\<close>

theorem link_delivers_in_order:
  assumes "hubs_ok H J E" "hubs_ok H' J E'"
    and "link_reach (engineCb H J E i) (engineCb H' J E' j) J E E' x y"
  shows "prefix (ss_delivered (fst y)) (ss_sent (fst x)) \<and> length (ss_delivered (fst y)) = ss_recvContig (fst y)"
  using session_link.in_order [OF engines_link] assms by blast

text \<open>C15. A conforming sender is never accused. As long as no frame of the sender was too large, every data frame it
  ever put on the channel is within the receiver's credit window, whenever it arrives: the
  \<^verbatim>\<open>beyond credit window\<close> close hits only peers that overrun their credits.
\<close>

theorem credits_never_overrun:
  assumes "hubs_ok H J E" "hubs_ok H' J E'"
    and "link_reach (engineCb H J E i) (engineCb H' J E' j) J E E' x y"
    and "p \<in> set (ss_out (fst x))" "isData (fst p)" "length (ss_sent (fst x)) + 1 = ss_nextMid (fst x)"
    and "INFLIGHT_CREDITS (constants E) \<le> INFLIGHT_CREDITS (constants E')"
  shows "m_mid (fst p) \<le> int (ss_recvContig (fst y)) + int (INFLIGHT_CREDITS (constants E'))"
  using session_link.no_violation [OF engines_link] assms by blast

text \<open>An oversized frame blocks the lane for good. \<^verbatim>\<open>pumpData\<close> takes the next mid before it serializes the frame; when
  serialization refuses a frame over \<^verbatim>\<open>MAX_FRAME_BYTES\<close>, that mid is spent and never sent. From then on the
  peer never delivers anything from that mid on, whatever else is sent, retried or acknowledged.
\<close>

theorem oversized_frame_blocks_lane:
  assumes "hubs_ok H J E" "hubs_ok H' J E'"
    and "link_reach (engineCb H J E i) (engineCb H' J E' j) J E E' x y"
    and "1 \<le> k" "k < ss_nextMid (fst x)" "int k \<notin> m_mid ` set (ss_sent (fst x))"
  shows "ss_recvContig (fst y) < k"
  using session_link.gap_blocks [OF engines_link] assms by blast

text \<open>C19. The receive buffer is bounded against any peer: whatever frames arrive, forged ones included, in whatever
  order, a session never buffers more out-of-order data messages than \<^verbatim>\<open>INFLIGHT_CREDITS\<close>.
\<close>

theorem receive_buffer_bounded:
  assumes "hubs_ok H J E" "sess_reach (engineCb H J E i) J E x"
  shows "length (ss_recvBuffer (fst x)) \<le> INFLIGHT_CREDITS (constants E)"
  using session_client.buffer_bounded [OF engine_client] assms by blast

text \<open>C20. What mutually full means. Against any peer, a topic counts as mutually full only while the session is ready, the topic
  is registered, both sides granted it in full, the peer's schema hash is ours, the peer is
  not a metadata peer on a content topic, and the topic is not subscribe-only.
\<close>

theorem mutual_full_agreed:
  assumes "hubs_ok H J E" "errs_fit J E" "sess_reach (engineCb H J E i) J E x" "mutualFull (fst x) t"
  shows "\<exists>te. reg_get (registry E) t = Inr te \<and> map_of (ss_grants (fst x)) t = Some GFull \<and>
    map_of (ss_peerGrants (fst x)) t = Some (GFull, te_schemaHash te) \<and>
    (ss_peerClass (fst x) = PMetadata \<longrightarrow> p_access (te_policy te) \<noteq> ''content'') \<and>
    p_replication (te_policy te) \<noteq> ''subscribe-only''"
  using session_client.mutual_agreed [OF engine_client] assms by blast

end
