(* ===== verification/Sync_Have.thy ===== *)
theory Sync_Have
  imports Sync
begin

text \<open>
  A HAVE round: the vectors a responder shows are split into pages within a byte budget, and the pages
  put together again, in whatever order they arrive, show the same vectors.
\<close>

section \<open>Parts of vectors\<close>

definition keyed_once :: "HaveVectors \<Rightarrow> bool" where
  "keyed_once p \<longleftrightarrow> distinct (map fst p) \<and> (\<forall>(t, v) \<in> set p. distinct (map fst (writers v)))"

text \<open>Every entry of \<open>p\<close> is an entry of \<open>vs\<close>, with the generation of its topic.\<close>

definition part :: "HaveVectors \<Rightarrow> HaveVectors \<Rightarrow> bool" where
  "part vs p \<longleftrightarrow> (\<forall>t v. map_of p t = Some v \<longrightarrow>
     (\<exists>u. map_of vs t = Some u \<and> fgen v = fgen u \<and> map_of (writers v) \<subseteq>\<^sub>m map_of (writers u)))"

definition shows_topic :: "HaveVectors \<Rightarrow> string \<Rightarrow> bool" where
  "shows_topic p t \<longleftrightarrow> map_of p t \<noteq> None"

definition shows_writer :: "HaveVectors \<Rightarrow> string \<Rightarrow> string \<Rightarrow> bool" where
  "shows_writer p t w \<longleftrightarrow> map_of (writers (vecOf p t)) w \<noteq> None"

definition shows_same :: "HaveVectors \<Rightarrow> HaveVectors \<Rightarrow> bool" where
  "shows_same vs p \<longleftrightarrow> (\<forall>t. case map_of vs t of None \<Rightarrow> map_of p t = None
     | Some u \<Rightarrow> (\<exists>v. map_of p t = Some v \<and> fgen v = fgen u \<and> map_of (writers v) = map_of (writers u)))"

lemma vecOf_update [simp]: "vecOf (AList.update a b p) t = (if t = a then b else vecOf p t)"
  by (simp add: vecOf_def update_conv')

lemma part_update:
  "part vs p \<Longrightarrow> map_of vs t = Some u \<Longrightarrow> fgen v = fgen u \<Longrightarrow> map_of (writers v) \<subseteq>\<^sub>m map_of (writers u) \<Longrightarrow>
   part vs (AList.update t v p)"
  by (auto simp: part_def update_conv')

lemma part_D: "part vs p \<Longrightarrow> map_of p t = Some v \<Longrightarrow>
   \<exists>u. map_of vs t = Some u \<and> fgen v = fgen u \<and> map_of (writers v) \<subseteq>\<^sub>m map_of (writers u)"
  by (simp add: part_def)

lemma part_vecOf: "part vs p \<Longrightarrow> map_of vs t = Some u \<Longrightarrow> map_of (writers (vecOf p t)) \<subseteq>\<^sub>m map_of (writers u) \<and> fgen (vecOf p t) \<in> {None, fgen u}"
  by (cases "map_of p t") (auto simp: vecOf_def emptyVec_def dest: part_D)

lemma part_Nil [simp]: "part vs []" "keyed_once []"
  by (simp_all add: part_def keyed_once_def)

lemma update_keyed: "keyed_once p \<Longrightarrow> distinct (map fst (writers v)) \<Longrightarrow> keyed_once (AList.update t v p)"
proof -
  assume p: "keyed_once p" "distinct (map fst (writers v))"
  have "set (AList.update t v p) \<subseteq> insert (t, v) (set p)" by (induction p) auto
  then show ?thesis using p by (auto simp: keyed_once_def distinct_update)
qed

lemma keyed_vecOf: "keyed_once p \<Longrightarrow> distinct (map fst (writers (vecOf p t)))"
  by (auto simp: vecOf_def keyed_once_def emptyVec_def split: option.split dest!: map_of_SomeD)

lemma shows_update:
  "shows_topic (AList.update a b p) t \<longleftrightarrow> t = a \<or> shows_topic p t"
  "shows_writer (AList.update a b p) t w \<longleftrightarrow> (if t = a then map_of (writers b) w \<noteq> None else shows_writer p t w)"
  by (simp_all add: shows_topic_def shows_writer_def update_conv')

lemma part_whole:
  assumes p: "part vs p" and topics: "\<And>t. shows_topic vs t \<Longrightarrow> shows_topic p t" and ws: "\<And>t w. shows_writer vs t w \<Longrightarrow> shows_writer p t w"
  shows "shows_same vs p"
  unfolding shows_same_def
proof
  fix t
  show "case map_of vs t of None \<Rightarrow> map_of p t = None
     | Some u \<Rightarrow> (\<exists>v. map_of p t = Some v \<and> fgen v = fgen u \<and> map_of (writers v) = map_of (writers u))"
  proof (cases "map_of vs t")
    case None
    then have "map_of p t = None" using part_D [OF p, of t] by (cases "map_of p t") auto
    then show ?thesis using None by simp
  next
    case (Some u)
    then obtain v where v: "map_of p t = Some v" using topics [of t] by (auto simp: shows_topic_def)
    then have sub: "fgen v = fgen u" "map_of (writers v) \<subseteq>\<^sub>m map_of (writers u)" using part_D [OF p v] Some by auto
    have "map_of (writers v) w = map_of (writers u) w" for w
      using sub(2) ws [of t w] v Some by (cases "map_of (writers u) w") (fastforce simp: shows_writer_def vecOf_def map_le_def dom_def)+
    then show ?thesis using Some v sub(1) by auto
  qed
qed

section \<open>Splitting\<close>

text \<open>The pages so far and the current one.\<close>

definition pages_ok :: "HaveVectors \<Rightarrow> HaveVectors list \<times> HaveVectors \<times> nat \<Rightarrow> bool" where
  "pages_ok vs st \<longleftrightarrow> (\<forall>p \<in> set (fst st @ [fst (snd st)]). part vs p \<and> keyed_once p)"

definition on_pages :: "(HaveVectors \<Rightarrow> bool) \<Rightarrow> HaveVectors list \<times> HaveVectors \<times> nat \<Rightarrow> bool" where
  "on_pages P st \<longleftrightarrow> (\<exists>p \<in> set (fst st @ [fst (snd st)]). P p)"

lemma pageWriter_ok:
  assumes st: "pages_ok vs st" and u: "map_of vs t = Some u" and w: "map_of (writers u) w = Some e"
  shows "pages_ok vs (pageWriter J bud t (fgen u) st (w, e))"
    "on_pages (\<lambda>p. shows_topic p t) (pageWriter J bud t (fgen u) st (w, e))"
    "on_pages (\<lambda>p. shows_writer p t w) (pageWriter J bud t (fgen u) st (w, e))"
    "on_pages (\<lambda>p. shows_topic p t') st \<Longrightarrow> on_pages (\<lambda>p. shows_topic p t') (pageWriter J bud t (fgen u) st (w, e))"
    "on_pages (\<lambda>p. shows_writer p t' w') st \<Longrightarrow> on_pages (\<lambda>p. shows_writer p t' w') (pageWriter J bud t (fgen u) st (w, e))"
proof -
  obtain pages cur bytes where s: "st = (pages, cur, bytes)" by (cases st)
  obtain cost where cost: "cost = jsBytes J (JObj [(t, JObj [(w, vecEntry_js e)])])" by blast
  obtain pages1 cur1 bytes1 where s1: "(if bytes + cost > bud \<and> cur \<noteq> [] then (pages @ [cur], [], 0) else (pages, cur, bytes)) = (pages1, cur1, bytes1)"
    by (rule prod_cases3)
  let ?v = "\<lparr>fgen = (if fgen u = None then fgen (vecOf cur1 t) else fgen u), writers = AList.update w e (writers (vecOf cur1 t))\<rparr>"
  have out: "pageWriter J bud t (fgen u) st (w, e) = (pages1, AList.update t ?v cur1, bytes1 + cost)"
    using s1 by (simp add: pageWriter_def s cost [symmetric] Let_def)
  have ok1: "\<forall>p \<in> set (pages1 @ [cur1]). part vs p \<and> keyed_once p"
    and on1: "\<And>P. on_pages P st \<Longrightarrow> (\<exists>p \<in> set (pages1 @ [cur1]). P p)"
    using st s1 by (auto simp: pages_ok_def on_pages_def s split: if_splits)
  have le: "map_of (writers (vecOf cur1 t)) \<subseteq>\<^sub>m map_of (writers u)" "fgen (vecOf cur1 t) \<in> {None, fgen u}"
    using part_vecOf [of vs cur1 t u] ok1 u by auto
  then have "map_of (writers ?v) \<subseteq>\<^sub>m map_of (writers u)" using w by (auto simp: update_conv' map_le_def)
  moreover have "fgen ?v = fgen u" using le(2) by auto
  ultimately have "part vs (AList.update t ?v cur1)" using part_update [of vs cur1 t u ?v] ok1 u by simp
  moreover have "keyed_once (AList.update t ?v cur1)"
    using update_keyed [of cur1 ?v t] keyed_vecOf [of cur1 t] ok1 by (simp add: distinct_update)
  ultimately show "pages_ok vs (pageWriter J bud t (fgen u) st (w, e))" using ok1 by (auto simp: out pages_ok_def)
  show "on_pages (\<lambda>p. shows_topic p t) (pageWriter J bud t (fgen u) st (w, e))"
    "on_pages (\<lambda>p. shows_writer p t w) (pageWriter J bud t (fgen u) st (w, e))"
    by (simp_all add: out on_pages_def shows_update update_conv')
  show "on_pages (\<lambda>p. shows_topic p t') (pageWriter J bud t (fgen u) st (w, e))" if "on_pages (\<lambda>p. shows_topic p t') st"
    using on1 [OF that] by (auto simp: out on_pages_def shows_update)
  have "shows_writer cur1 t' w' \<Longrightarrow> shows_writer (AList.update t ?v cur1) t' w'"
    by (auto simp: shows_update update_conv' shows_writer_def)
  then show "on_pages (\<lambda>p. shows_writer p t' w') (pageWriter J bud t (fgen u) st (w, e))" if "on_pages (\<lambda>p. shows_writer p t' w') st"
    using on1 [OF that] by (auto simp: out on_pages_def)
qed

lemma pageWriters_ok:
  "pages_ok vs st \<Longrightarrow> map_of vs t = Some u \<Longrightarrow> \<forall>(w, e) \<in> set ws. map_of (writers u) w = Some e \<Longrightarrow>
   pages_ok vs (foldl (pageWriter J bud t (fgen u)) st ws) \<and>
   (\<forall>w \<in> fst ` set ws. on_pages (\<lambda>p. shows_writer p t w) (foldl (pageWriter J bud t (fgen u)) st ws)) \<and>
   (\<forall>t'. on_pages (\<lambda>p. shows_topic p t') st \<or> t' = t \<and> ws \<noteq> [] \<longrightarrow>
      on_pages (\<lambda>p. shows_topic p t') (foldl (pageWriter J bud t (fgen u)) st ws)) \<and>
   (\<forall>t' w'. on_pages (\<lambda>p. shows_writer p t' w') st \<longrightarrow>
      on_pages (\<lambda>p. shows_writer p t' w') (foldl (pageWriter J bud t (fgen u)) st ws))"
proof (induction ws arbitrary: st)
  case (Cons we ws)
  obtain w e where we: "we = (w, e)" by (cases we)
  have "map_of (writers u) w = Some e" using Cons.prems(3) we by simp
  note p = pageWriter_ok [OF Cons.prems(1,2) this, where J = J and bud = bud]
  have rest: "\<forall>(w, e) \<in> set ws. map_of (writers u) w = Some e" using Cons.prems(3) by simp
  note ih = Cons.IH [OF p(1) Cons.prems(2) rest]
  show ?case unfolding we foldl_Cons using ih p(2-) by (cases "ws = []") auto
qed simp

lemma pageTopic_ok:
  assumes st: "pages_ok vs st" and u: "map_of vs t = Some u" and ws: "distinct (map fst (writers u))"
  shows "pages_ok vs (pageTopic J bud st (t, u))"
    "on_pages (\<lambda>p. shows_topic p t) (pageTopic J bud st (t, u))"
    "\<And>w. map_of (writers u) w \<noteq> None \<Longrightarrow> on_pages (\<lambda>p. shows_writer p t w) (pageTopic J bud st (t, u))"
    "\<And>t'. on_pages (\<lambda>p. shows_topic p t') st \<Longrightarrow> on_pages (\<lambda>p. shows_topic p t') (pageTopic J bud st (t, u))"
    "\<And>t' w'. on_pages (\<lambda>p. shows_writer p t' w') st \<Longrightarrow> on_pages (\<lambda>p. shows_writer p t' w') (pageTopic J bud st (t, u))"
proof -
  let ?st = "pageTopic J bud st (t, u)"
  have "pages_ok vs ?st \<and> on_pages (\<lambda>p. shows_topic p t) ?st \<and>
    (\<forall>w. map_of (writers u) w \<noteq> None \<longrightarrow> on_pages (\<lambda>p. shows_writer p t w) ?st) \<and>
    (\<forall>t'. on_pages (\<lambda>p. shows_topic p t') st \<longrightarrow> on_pages (\<lambda>p. shows_topic p t') ?st) \<and>
    (\<forall>t' w'. on_pages (\<lambda>p. shows_writer p t' w') st \<longrightarrow> on_pages (\<lambda>p. shows_writer p t' w') ?st)"
  proof (cases "writers u = []")
    case True
    obtain pages cur bytes where s: "st = (pages, cur, bytes)" by (cases st)
    have ok1: "part vs cur" "keyed_once cur" "\<forall>p \<in> set pages. part vs p \<and> keyed_once p" using st by (auto simp: pages_ok_def s)
    have le: "map_of (writers (vecOf cur t)) \<subseteq>\<^sub>m map_of (writers u)" "fgen (vecOf cur t) \<in> {None, fgen u}"
      using part_vecOf [OF ok1(1) u] by auto
    obtain v where v: "v = (vecOf cur t)\<lparr>fgen := (if fgen u = None then fgen (vecOf cur t) else fgen u)\<rparr>" by blast
    have v': "writers v = writers (vecOf cur t)" "fgen v = fgen u" using v le(2) by auto
    have out: "?st = (pages, AList.update t v cur, bytes)" using True by (simp add: pageTopic_def s Let_def v)
    have "part vs (AList.update t v cur)" using part_update [OF ok1(1) u v'(2)] le v' by simp
    moreover have "keyed_once (AList.update t v cur)" using update_keyed [OF ok1(2), of v t] keyed_vecOf [OF ok1(2)] v' by simp
    moreover have "shows_writer cur t' w' \<Longrightarrow> shows_writer (AList.update t v cur) t' w'" for t' w'
      using v' by (auto simp: shows_update shows_writer_def)
    ultimately show ?thesis using ok1(3) True unfolding out unfolding pages_ok_def on_pages_def s by (auto simp: shows_update)
  next
    case False
    have each: "\<forall>(w, e) \<in> set (writers u). map_of (writers u) w = Some e" using ws by auto
    have dom: "map_of (writers u) w \<noteq> None \<longleftrightarrow> w \<in> fst ` set (writers u)" for w by (simp add: map_of_eq_None_iff)
    have out: "?st = foldl (pageWriter J bud t (fgen u)) st (writers u)" using False by (simp add: pageTopic_def)
    show ?thesis
      unfolding out dom using pageWriters_ok [OF st u each, where J = J and bud = bud] False by blast
  qed
  then show "pages_ok vs ?st" "on_pages (\<lambda>p. shows_topic p t) ?st"
    "\<And>w. map_of (writers u) w \<noteq> None \<Longrightarrow> on_pages (\<lambda>p. shows_writer p t w) ?st"
    "\<And>t'. on_pages (\<lambda>p. shows_topic p t') st \<Longrightarrow> on_pages (\<lambda>p. shows_topic p t') ?st"
    "\<And>t' w'. on_pages (\<lambda>p. shows_writer p t' w') st \<Longrightarrow> on_pages (\<lambda>p. shows_writer p t' w') ?st" by blast+
qed

lemma pageTopics_ok:
  "pages_ok vs st \<Longrightarrow> \<forall>(t, u) \<in> set l. map_of vs t = Some u \<and> distinct (map fst (writers u)) \<Longrightarrow>
   pages_ok vs (foldl (pageTopic J bud) st l) \<and>
   (\<forall>t. on_pages (\<lambda>p. shows_topic p t) st \<or> t \<in> fst ` set l \<longrightarrow> on_pages (\<lambda>p. shows_topic p t) (foldl (pageTopic J bud) st l)) \<and>
   (\<forall>t w. on_pages (\<lambda>p. shows_writer p t w) st \<or> (\<exists>u. (t, u) \<in> set l \<and> map_of (writers u) w \<noteq> None) \<longrightarrow>
      on_pages (\<lambda>p. shows_writer p t w) (foldl (pageTopic J bud) st l))"
proof (induction l arbitrary: st)
  case (Cons tu l)
  obtain t u where tu: "tu = (t, u)" by (cases tu)
  have u: "map_of vs t = Some u" "distinct (map fst (writers u))" using Cons.prems(2) tu by auto
  note p = pageTopic_ok [OF Cons.prems(1) u, where J = J and bud = bud]
  have rest: "\<forall>(t, u) \<in> set l. map_of vs t = Some u \<and> distinct (map fst (writers u))" using Cons.prems(2) by simp
  note ih = Cons.IH [OF p(1) rest]
  show ?case unfolding tu foldl_Cons using ih p(2-) by auto blast
qed simp

lemma havePages_cover:
  assumes "keyed_once vs"
  shows "\<forall>p \<in> set (havePages J bud vs). part vs p \<and> keyed_once p"
    "shows_topic vs t \<Longrightarrow> \<exists>p \<in> set (havePages J bud vs). shows_topic p t"
    "shows_writer vs t w \<Longrightarrow> \<exists>p \<in> set (havePages J bud vs). shows_writer p t w"
proof -
  obtain pages cur bytes where f: "foldl (pageTopic J bud) ([], [], 0) vs = (pages, cur, bytes)" by (rule prod_cases3)
  have h: "havePages J bud vs = pages @ [cur]" by (simp add: havePages_def f)
  have "pages_ok vs ([], [], 0)" by (simp add: pages_ok_def)
  moreover have "\<forall>(t, u) \<in> set vs. map_of vs t = Some u \<and> distinct (map fst (writers u))"
    using assms by (auto simp: keyed_once_def)
  ultimately have all: "pages_ok vs (pages, cur, bytes)"
    "\<forall>t. t \<in> fst ` set vs \<longrightarrow> on_pages (\<lambda>p. shows_topic p t) (pages, cur, bytes)"
    "\<forall>t w. (\<exists>u. (t, u) \<in> set vs \<and> map_of (writers u) w \<noteq> None) \<longrightarrow> on_pages (\<lambda>p. shows_writer p t w) (pages, cur, bytes)"
    using pageTopics_ok [of vs "([], [], 0)" vs J bud] f by auto
  show "\<forall>p \<in> set (havePages J bud vs). part vs p \<and> keyed_once p" using all(1) by (simp add: h pages_ok_def)
  show "\<exists>p \<in> set (havePages J bud vs). shows_topic p t" if "shows_topic vs t"
    using all(2) that by (auto simp: shows_topic_def map_of_eq_None_iff on_pages_def h)
  show "\<exists>p \<in> set (havePages J bud vs). shows_writer p t w" if "shows_writer vs t w"
  proof -
    obtain u where "map_of vs t = Some u" "map_of (writers u) w \<noteq> None"
      using \<open>shows_writer vs t w\<close> by (auto simp: shows_writer_def vecOf_def emptyVec_def split: option.splits)
    then have "\<exists>u. (t, u) \<in> set vs \<and> map_of (writers u) w \<noteq> None" by (auto dest: map_of_SomeD)
    then show ?thesis using all(3) by (auto simp: on_pages_def h)
  qed
qed

section \<open>Putting together\<close>

lemma merged_writers:
  "distinct (map fst l) \<Longrightarrow> map_of (foldl (\<lambda>ws (w, e). AList.update w e ws) a l) = map_of a ++ map_of l"
proof (induction l arbitrary: a)
  case (Cons p l)
  obtain w e where p: "p = (w, e)" by (cases p)
  have "map_of l w = None" using Cons.prems p by (simp add: map_of_eq_None_iff)
  then have "(map_of a)(w \<mapsto> e) ++ map_of l = map_of a ++ map_of (p # l)"
    by (auto simp: p map_add_def fun_eq_iff split: option.split)
  moreover have "map_of (foldl (\<lambda>ws (w, e). AList.update w e ws) (AList.update w e a) l) = map_of (AList.update w e a) ++ map_of l"
    using Cons by simp
  ultimately show ?case unfolding p foldl_Cons prod.case by (simp only: update_conv')
qed simp

lemma merged_distinct: "distinct (map fst a) \<Longrightarrow> distinct (map fst (foldl (\<lambda>ws (w, e). AList.update w e ws) a l))"
proof (induction l arbitrary: a)
  case (Cons p l)
  then show ?case by (cases p) (simp add: distinct_update)
qed simp

lemma mergeTopic_ok:
  assumes m: "part vs m" "keyed_once m" and u: "map_of vs t = Some u" and v: "fgen v = fgen u"
    "map_of (writers v) \<subseteq>\<^sub>m map_of (writers u)" "distinct (map fst (writers v))"
  shows "part vs (mergeTopic m (t, v))" "keyed_once (mergeTopic m (t, v))" "shows_topic (mergeTopic m (t, v)) t"
    "map_of (writers v) w \<noteq> None \<Longrightarrow> shows_writer (mergeTopic m (t, v)) t w"
    "shows_topic m t' \<Longrightarrow> shows_topic (mergeTopic m (t, v)) t'" "shows_writer m t' w' \<Longrightarrow> shows_writer (mergeTopic m (t, v)) t' w'"
proof -
  let ?ws = "foldl (\<lambda>ws (w, e). AList.update w e ws) (writers (vecOf m t)) (writers v)"
  obtain x where x: "x = \<lparr>fgen = (if fgen v = None then fgen (vecOf m t) else fgen v), writers = ?ws\<rparr>" by blast
  have out: "mergeTopic m (t, v) = AList.update t x m" by (simp add: mergeTopic_def Let_def x)
  have le: "map_of (writers (vecOf m t)) \<subseteq>\<^sub>m map_of (writers u)" "fgen (vecOf m t) \<in> {None, fgen u}"
    using part_vecOf [OF m(1) u] by auto
  have ws: "map_of (writers x) = map_of (writers (vecOf m t)) ++ map_of (writers v)" using merged_writers [OF v(3)] x by simp
  have "map_of (writers x) \<subseteq>\<^sub>m map_of (writers u)" unfolding ws using map_add_le_mapI [OF le(1) v(2)] .
  moreover have "fgen x = fgen u" using le(2) v(1) x by auto
  ultimately show "part vs (mergeTopic m (t, v))" unfolding out by (intro part_update [OF m(1) u])
  show "keyed_once (mergeTopic m (t, v))"
    unfolding out using merged_distinct [OF keyed_vecOf [OF m(2), of t]] x by (intro update_keyed [OF m(2)]) simp
  show "shows_topic (mergeTopic m (t, v)) t" "map_of (writers v) w \<noteq> None \<Longrightarrow> shows_writer (mergeTopic m (t, v)) t w"
    "shows_topic m t' \<Longrightarrow> shows_topic (mergeTopic m (t, v)) t'" "shows_writer m t' w' \<Longrightarrow> shows_writer (mergeTopic m (t, v)) t' w'"
    unfolding out shows_update ws by (auto simp: shows_writer_def map_add_Some_iff map_add_None split: if_splits)
qed

lemma mergeTopics_ok:
  "part vs m \<Longrightarrow> keyed_once m \<Longrightarrow>
   \<forall>(t, v) \<in> set p. distinct (map fst (writers v)) \<and>
     (\<exists>u. map_of vs t = Some u \<and> fgen v = fgen u \<and> map_of (writers v) \<subseteq>\<^sub>m map_of (writers u)) \<Longrightarrow>
   part vs (foldl mergeTopic m p) \<and> keyed_once (foldl mergeTopic m p) \<and>
   (\<forall>t. shows_topic m t \<or> t \<in> fst ` set p \<longrightarrow> shows_topic (foldl mergeTopic m p) t) \<and>
   (\<forall>t w. shows_writer m t w \<or> (\<exists>v. (t, v) \<in> set p \<and> map_of (writers v) w \<noteq> None) \<longrightarrow> shows_writer (foldl mergeTopic m p) t w)"
proof (induction p arbitrary: m)
  case (Cons tv p)
  obtain t v where tv: "tv = (t, v)" by (cases tv)
  obtain u where u: "map_of vs t = Some u" "fgen v = fgen u" "map_of (writers v) \<subseteq>\<^sub>m map_of (writers u)" "distinct (map fst (writers v))"
    using Cons.prems(3) tv by auto
  note s = mergeTopic_ok [OF Cons.prems(1,2) u]
  have rest: "\<forall>(t, v) \<in> set p. distinct (map fst (writers v)) \<and>
     (\<exists>u. map_of vs t = Some u \<and> fgen v = fgen u \<and> map_of (writers v) \<subseteq>\<^sub>m map_of (writers u))" using Cons.prems(3) by simp
  note ih = Cons.IH [OF s(1,2) rest]
  show ?case
  proof (intro conjI allI impI)
    fix t' assume "shows_topic m t' \<or> t' \<in> fst ` set (tv # p)"
    then show "shows_topic (foldl mergeTopic m (tv # p)) t'" using ih s(3,5) tv by auto
  next
    fix t' w assume "shows_writer m t' w \<or> (\<exists>v. (t', v) \<in> set (tv # p) \<and> map_of (writers v) w \<noteq> None)"
    then have "shows_writer (mergeTopic m (t, v)) t' w \<or> (\<exists>v. (t', v) \<in> set p \<and> map_of (writers v) w \<noteq> None)"
      using s(4,6) tv by auto
    then show "shows_writer (foldl mergeTopic m (tv # p)) t' w" using ih unfolding tv foldl_Cons by blast
  qed (use ih tv in simp_all)
qed simp

lemma keyed_lookup: "keyed_once p \<Longrightarrow> (t, v) \<in> set p \<longleftrightarrow> map_of p t = Some v"
  by (auto simp: keyed_once_def dest: map_of_SomeD)

lemma page_parts:
  assumes "part vs p" "keyed_once p"
  shows "\<forall>(t, v) \<in> set p. distinct (map fst (writers v)) \<and>
     (\<exists>u. map_of vs t = Some u \<and> fgen v = fgen u \<and> map_of (writers v) \<subseteq>\<^sub>m map_of (writers u))"
  using assms part_D [OF assms(1)] by (fastforce simp: keyed_once_def)

lemma mergePages_ok:
  "part vs m \<Longrightarrow> keyed_once m \<Longrightarrow> \<forall>p \<in> set ps. part vs p \<and> keyed_once p \<Longrightarrow>
   let r = foldl (foldl mergeTopic) m ps in
   part vs r \<and> (\<forall>t. shows_topic m t \<or> (\<exists>p \<in> set ps. shows_topic p t) \<longrightarrow> shows_topic r t) \<and>
   (\<forall>t w. shows_writer m t w \<or> (\<exists>p \<in> set ps. shows_writer p t w) \<longrightarrow> shows_writer r t w)"
proof (induction ps arbitrary: m)
  case (Cons p ps)
  have p: "part vs p" "keyed_once p" using Cons.prems(3) by simp_all
  note s = mergeTopics_ok [OF Cons.prems(1,2) page_parts [OF p]]
  have tw: "shows_topic p t \<longleftrightarrow> t \<in> fst ` set p" "shows_writer p t w \<longleftrightarrow> (\<exists>v. (t, v) \<in> set p \<and> map_of (writers v) w \<noteq> None)" for t w
    using keyed_lookup [OF p(2)] by (force simp: shows_topic_def shows_writer_def vecOf_def emptyVec_def split: option.splits)+
  have ih: "let r = foldl (foldl mergeTopic) (foldl mergeTopic m p) ps in
     part vs r \<and> (\<forall>t. shows_topic (foldl mergeTopic m p) t \<or> (\<exists>p \<in> set ps. shows_topic p t) \<longrightarrow> shows_topic r t) \<and>
     (\<forall>t w. shows_writer (foldl mergeTopic m p) t w \<or> (\<exists>p \<in> set ps. shows_writer p t w) \<longrightarrow> shows_writer r t w)"
    using Cons.IH [of "foldl mergeTopic m p"] Cons.prems(3) s by simp
  have now: "shows_topic m t \<or> shows_topic p t \<Longrightarrow> shows_topic (foldl mergeTopic m p) t"
    "shows_writer m t w \<or> shows_writer p t w \<Longrightarrow> shows_writer (foldl mergeTopic m p) t w" for t w
    unfolding tw by (rule s [THEN conjunct2, THEN conjunct2, THEN conjunct1, rule_format], assumption,
        rule s [THEN conjunct2, THEN conjunct2, THEN conjunct2, rule_format], assumption)
  obtain r where r: "r = foldl (foldl mergeTopic) m (p # ps)" by blast
  then have ih: "part vs r" "\<And>t. shows_topic (foldl mergeTopic m p) t \<or> (\<exists>p \<in> set ps. shows_topic p t) \<Longrightarrow> shows_topic r t"
    "\<And>t w. shows_writer (foldl mergeTopic m p) t w \<or> (\<exists>p \<in> set ps. shows_writer p t w) \<Longrightarrow> shows_writer r t w"
    using ih unfolding Let_def foldl_Cons by blast+
  have "shows_topic r t" if "shows_topic m t \<or> (\<exists>q \<in> set (p # ps). shows_topic q t)" for t
    using that by (intro ih(2)) (use now(1) [of t] in auto)
  moreover have "shows_writer r t w" if "shows_writer m t w \<or> (\<exists>q \<in> set (p # ps). shows_writer q t w)" for t w
    using that by (intro ih(3)) (use now(2) [of t w] in auto)
  ultimately show ?case unfolding r [symmetric] Let_def using ih(1) by blast
qed (simp add: Let_def)

section \<open>A round\<close>

lemma round_reassembles:
  assumes once: "keyed_once vs" and sent: "set (map m_vectors ms) = set (havePages J bud vs)"
  shows "shows_same vs (mergePages ms)"
proof -
  note cover = havePages_cover [OF once, where J = J and bud = bud]
  have merged: "mergePages ms = foldl (foldl mergeTopic) [] (map m_vectors ms)"
    by (simp add: mergePages_def foldl_map)
  have "\<forall>p \<in> set (map m_vectors ms). part vs p \<and> keyed_once p" unfolding sent by (rule cover(1))
  then have all: "part vs (mergePages ms)" "\<And>t. \<exists>p \<in> set (map m_vectors ms). shows_topic p t \<Longrightarrow> shows_topic (mergePages ms) t"
    "\<And>t w. \<exists>p \<in> set (map m_vectors ms). shows_writer p t w \<Longrightarrow> shows_writer (mergePages ms) t w"
    using mergePages_ok [of vs "[]" "map m_vectors ms"] unfolding merged Let_def by simp_all
  show ?thesis by (rule part_whole [OF all(1)]) (use all(2,3) cover(2,3) in \<open>auto simp: sent simp del: set_map\<close>)
qed

text \<open>The requester collects pages until the last one is there.\<close>

definition havingPages :: "(nat \<times> WireMsg) list \<Rightarrow> int \<Rightarrow> PeerState \<Rightarrow> PeerState" where
  "havingPages pages bytes p = p\<lparr>ps_havePages := pages, ps_haveBytes := bytes\<rparr>"

abbreviation pageSum :: "WireJson \<Rightarrow> WireMsg list \<Rightarrow> nat" where
  "pageSum J ms \<equiv> sum_list (map (pageBytes J) ms)"

lemma collect_pages:
  assumes "ps_expectedHaveReq (thePeer i x) = Some req" "ps_havePages (thePeer i x) = []" "ps_haveBytes (thePeer i x) = 0"
  shows "distinct (map m_page ms) \<Longrightarrow> \<forall>m \<in> set ms. m_req m = req \<and> m_of m = n \<Longrightarrow> length ms < n \<Longrightarrow>
    pageSum J ms \<le> MAX_REASSEMBLY_BYTES (constants E) \<Longrightarrow>
    foldl (\<lambda>x m. snd (onHavePage H J E i m x)) x ms =
      onPeer i (havingPages (map (\<lambda>m. (m_page m, m)) ms) (int (pageSum J ms))) x"
proof (induction ms rule: rev_induct)
  case Nil
  have "(en_ps (snd x))(i := havingPages [] 0 (en_ps (snd x) i)) = en_ps (snd x)"
    using assms(2,3) by (auto simp: havingPages_def thePeer_def)
  then show ?case by (simp add: onPeer_def)
next
  case (snoc m ms)
  let ?y = "onPeer i (havingPages (map (\<lambda>m. (m_page m, m)) ms) (int (pageSum J ms))) x"
  have ih: "foldl (\<lambda>x m. snd (onHavePage H J E i m x)) x ms = ?y" using snoc by simp
  have new: "map_of (map (\<lambda>m. (m_page m, m)) ms) (m_page m) = None"
    using snoc.prems(1) by (auto simp: map_of_eq_None_iff)
  have upd: "AList.update k v al = al @ [(k, v)]" if "map_of al k = None" for k :: nat and v :: WireMsg and al
    using that by (induction al) (auto split: if_splits)
  have p: "ps_expectedHaveReq (thePeer i ?y) = Some req" "ps_havePages (thePeer i ?y) = map (\<lambda>m. (m_page m, m)) ms"
    "ps_haveBytes (thePeer i ?y) = int (pageSum J ms)"
    using assms by (simp_all add: thePeer_def onPeer_def havingPages_def)
  have "onHavePage H J E i m ?y = ok (onPeer i (\<lambda>p. p\<lparr>ps_havePages := map (\<lambda>m. (m_page m, m)) ms @ [(m_page m, m)],
      ps_haveBytes := int (pageSum J ms) + int (pageBytes J m)\<rparr>) ?y)"
    unfolding onHavePage_def Let_def p upd [OF new] new using snoc.prems by simp
  then show ?case by (simp add: ih ok_def onPeer_def havingPages_def)
qed

text \<open>C16. A HAVE round tells the requester exactly what the responder shows: whatever the size of
  the pages and in whatever order they arrive, once the last page is there the requester processes
  vectors with the same topics, the same generation for each, and the same entry for each writer as
  the vectors that were split; before that it only collects.\<close>

theorem have_round_reassembles:
  assumes "keyed_once vs" "distinct ms" "set ms = (\<lambda>(k, n, v). HAVE req k n v) ` set (paginateHave J E vs)"
    "ps_expectedHaveReq (thePeer i x) = Some req" "ps_havePages (thePeer i x) = []" "ps_haveBytes (thePeer i x) = 0"
    "pageSum J ms \<le> MAX_REASSEMBLY_BYTES (constants E)"
  shows "\<exists>y seen. foldl (\<lambda>x m. snd (onHavePage H J E i m x)) x (butlast ms) = onPeer i (havingPages (map (\<lambda>m. (m_page m, m)) (butlast ms)) (int (pageSum J (butlast ms)))) x \<and>
    onHavePage H J E i (last ms) (foldl (\<lambda>x m. snd (onHavePage H J E i m x)) x (butlast ms)) = processPeerVectors J E i seen y \<and>
    shows_same vs seen \<and> ps_havePages (thePeer i y) = [] \<and> ps_expectedHaveReq (thePeer i y) = None"
proof -
  obtain pages where pages: "pages = havePages J (batchBudget E) vs" by blast
  let ?n = "length pages" and ?f = "\<lambda>k. HAVE req (k + 1) (length pages) (pages ! k)"
  have msgs: "set ms = ?f ` {0..<?n}"
  proof -
    have "map (\<lambda>(k, p). (k + 1, ?n, p)) (zip [0..<?n] pages) = map (\<lambda>k. (k + 1, ?n, pages ! k)) [0..<?n]"
      by (rule nth_equalityI) simp_all
    then show ?thesis unfolding assms(3) paginateHave_def Let_def pages [symmetric] by (simp add: image_image)
  qed
  have inj: "inj_on m_page (set ms)" and each: "\<forall>m \<in> set ms. m_req m = req \<and> m_of m = ?n"
    unfolding msgs by (auto simp: inj_on_def)
  have dist: "distinct (map m_page ms)" using assms(2) inj by (simp add: distinct_map)
  have "card (?f ` {0..<?n}) = ?n" by (subst card_image) (auto simp: inj_on_def)
  then have len: "length ms = ?n" using distinct_card [OF assms(2)] msgs by simp
  have "0 < ?n" by (auto simp: pages havePages_def split: prod.split)
  then obtain bs m where ms: "ms = bs @ [m]" using len by (cases ms rule: rev_cases) auto
  let ?y = "onPeer i (havingPages (map (\<lambda>m. (m_page m, m)) bs) (int (pageSum J bs))) x"
  have got: "foldl (\<lambda>x m. snd (onHavePage H J E i m x)) x bs = ?y"
    using collect_pages [OF assms(4-6), of bs ?n J E H] dist each len assms(7) by (simp add: ms)
  have new: "map_of (map (\<lambda>m. (m_page m, m)) bs) (m_page m) = None" using dist by (auto simp: ms map_of_eq_None_iff)
  have upd: "AList.update k v al = al @ [(k, v)]" if "map_of al k = None" for k :: nat and v :: WireMsg and al
    using that by (induction al) (auto split: if_splits)
  have p: "ps_expectedHaveReq (thePeer i ?y) = Some req" "ps_havePages (thePeer i ?y) = map (\<lambda>m. (m_page m, m)) bs"
    "ps_haveBytes (thePeer i ?y) = int (pageSum J bs)"
    using assms(4-6) by (simp_all add: thePeer_def onPeer_def havingPages_def)
  let ?z = "onPeer i (\<lambda>p. p\<lparr>ps_havePages := [], ps_haveBytes := 0, ps_expectedHaveReq := None\<rparr>) (satisfied (reqKey ''HAVE:'' (m_req m)) ?y)"
  have "onHavePage H J E i m ?y = processPeerVectors J E i (mergePages ms) ?z"
    unfolding onHavePage_def Let_def p upd [OF new] new using each assms(7) len by (simp add: ms comp_def)
  moreover have "m_vectors ` set ms = set pages" unfolding msgs by (force simp: set_conv_nth)
  then have "shows_same vs (mergePages ms)" by (intro round_reassembles [OF assms(1), of ms J "batchBudget E"]) (simp add: pages)
  ultimately show ?thesis using got by (intro exI [of _ ?z] exI [of _ "mergePages ms"]) (simp add: ms thePeer_def onPeer_def)
qed

end
