(* ===== verification/Sync_Serve.thy ===== *)
theory Sync_Serve
  imports Sync_Rules Sync_Have Directive_Rules
begin

text \<open>
  A WANT round. The responder sends the held rows of the asked range, in order and without a gap, in
  batches within the byte budget, the last of them marked as such; the requester takes a batch in,
  and its head moves up to the last entry. Together: a round copies the range.
\<close>

section \<open>Batches\<close>

abbreviation entryCost :: "WireJson \<Rightarrow> LogEntry \<Rightarrow> nat" where
  "entryCost J e \<equiv> jsBytes J (entry_js e)"

lemma fit_prefix:
  "fitBatch J bud es b n = (b', n') \<Longrightarrow> n \<le> bud \<or> length b \<le> 1 \<Longrightarrow> b = [] \<longrightarrow> n = 0 \<Longrightarrow>
   \<exists>us vs. es = us @ vs \<and> b' = b @ us \<and> (es \<noteq> [] \<longrightarrow> b' \<noteq> []) \<and> n' = n + sum_list (map (entryCost J) us) \<and>
     (n' \<le> bud \<or> length b' \<le> 1)"
proof (induction J bud es b n rule: fitBatch.induct)
  case (2 J bud e es b n)
  show ?case
  proof (cases "b \<noteq> [] \<and> n + entryCost J e > bud")
    case True
    then show ?thesis using "2.prems" by auto
  next
    case False
    have small: "n + entryCost J e \<le> bud \<or> length (b @ [e]) \<le> 1" using False by auto
    have "fitBatch J bud es (b @ [e]) (n + entryCost J e) = (b', n')" using "2.prems"(1) False by (simp add: Let_def)
    from "2.IH" [OF refl False this small] obtain us vs where
      "es = us @ vs" "b' = (b @ [e]) @ us" "n' = n + entryCost J e + sum_list (map (entryCost J) us)"
      "n' \<le> bud \<or> length b' \<le> 1" by auto
    then show ?thesis by (intro exI [of _ "e # us"] exI [of _ vs]) simp
  qed
qed simp

text \<open>A range all of whose rows are held reads as that range.\<close>

definition whole :: "Db \<Rightarrow> string \<Rightarrow> string \<Rightarrow> nat \<Rightarrow> nat \<Rightarrow> bool" where
  "whole d t w a b \<longleftrightarrow> (\<forall>s \<in> {a..b}. getEntry d t w s \<noteq> None)"

definition rangeOf :: "Db \<Rightarrow> string \<Rightarrow> string \<Rightarrow> nat \<Rightarrow> nat \<Rightarrow> LogEntry list" where
  "rangeOf d t w a b = map (\<lambda>s. the (getEntry d t w s)) [a..<Suc b]"

lemma range_entries:
  assumes ok: "log_table_ok d" and full: "whole d t w a b"
  shows "map snd (entriesRange d t w a b) = rangeOf d t w a b"
proof -
  let ?rs = "filter (\<lambda>r. inStream t w r \<and> a \<le> e_seq (snd r) \<and> e_seq (snd r) \<le> b) (sq_log d)"
  let ?xs = "map snd (entriesRange d t w a b)"
  have "distinct (sq_log d)" "inj_on (\<lambda>r. entryKey (snd r)) (set (sq_log d))"
    using ok by (simp_all add: log_table_ok_def distinct_map)
  then have "inj_on (\<lambda>r. e_seq (snd r)) (set ?rs)" "distinct ?rs" by (auto simp: inj_on_def entryKey_def inStream_def)
  then have dist: "distinct (map e_seq ?xs)" by (simp add: entriesRange_def distinct_map comp_def)
  have sorted: "sorted (map e_seq ?xs)" by (simp add: entriesRange_def comp_def)
  have each: "getEntry d t w (e_seq e) = Some e" if "e \<in> set ?xs" for e
    using that ok by (auto simp: entriesRange_set getEntry_iff entryKey_def inStream_def)
  have "set (map e_seq ?xs) = set [a..<Suc b]"
  proof (intro set_eqI iffI)
    fix s assume s: "s \<in> set [a..<Suc b]"
    then have "s \<in> {a..b}" by (simp del: upt_Suc)
    then have "getEntry d t w s \<noteq> None" using full by (auto simp: whole_def simp del: atLeastAtMost_iff)
    then obtain e where e: "getEntry d t w s = Some e" by auto
    with ok obtain r where "(r, e) \<in> set (sq_log d)" "entryKey e = (t, w, s)" by (auto simp: getEntry_iff)
    then have "(r, e) \<in> set (entriesRange d t w a b)" "e_seq e = s"
      using s by (auto simp: entriesRange_set entryKey_def inStream_def)
    then show "s \<in> set (map e_seq ?xs)" by force
  qed (auto simp: entriesRange_set)
  then have seqs: "map e_seq ?xs = [a..<Suc b]" by (rule sorted_distinct_set_unique [OF sorted dist sorted_upt distinct_upt])
  have "map (\<lambda>e. the (getEntry d t w (e_seq e))) ?xs = ?xs" by (rule map_idI) (simp add: each)
  then have "?xs = map (\<lambda>s. the (getEntry d t w s)) (map e_seq ?xs)" by (simp add: comp_def)
  then show ?thesis unfolding seqs rangeOf_def .
qed

lemma range_seqs: "whole d t w a b \<Longrightarrow> map e_seq (rangeOf d t w a b) = [a..<Suc b]"
  unfolding rangeOf_def map_map
proof (rule map_idI)
  fix s assume "whole d t w a b" "s \<in> set [a..<Suc b]"
  then have "getEntry d t w s \<noteq> None" unfolding whole_def by (auto simp del: upt_Suc)
  then obtain e where "getEntry d t w s = Some e" by auto
  with getEntry_key [OF this] show "(e_seq \<circ> (\<lambda>s. the (getEntry d t w s))) s = s" by simp
qed

lemma range_split: "a \<le> Suc c \<Longrightarrow> c \<le> b \<Longrightarrow> rangeOf d t w a b = rangeOf d t w a c @ rangeOf d t w (Suc c) b"
  using upt_add_eq_append [of a "Suc c" "b - c"] by (simp add: rangeOf_def flip: map_append del: upt_Suc)

lemma whole_sub: "whole d t w a b \<Longrightarrow> a \<le> a' \<Longrightarrow> b' \<le> b \<Longrightarrow> whole d t w a' b'"
  by (auto simp: whole_def)

lemma range_ends:
  assumes "whole d t w a b" "rangeOf d t w a b = us @ vs" "us \<noteq> []"
  shows "e_seq (hd us) = a" "Suc (e_seq (last us)) = a + length us" "vs = rangeOf d t w (Suc (e_seq (last us))) b"
proof -
  have m: "map e_seq us @ map e_seq vs = [a..<Suc b]" using range_seqs [OF assms(1)] assms(2) by simp
  have len: "length us + length vs = Suc b - a" using arg_cong [OF m, of length] by (simp del: upt_Suc)
  have us: "map e_seq us = [a..<a + length us]"
    using arg_cong [OF m, of "take (length us)"] len assms(3) by (cases us) (simp_all add: take_upt del: upt_Suc)
  show l: "Suc (e_seq (last us)) = a + length us"
  proof -
    have "e_seq (last us) = last (map e_seq us)" using assms(3) by (simp add: last_map)
    then show ?thesis using assms(3) by (simp add: us)
  qed
  have "e_seq (hd us) = hd (map e_seq us)" using assms(3) by (simp add: hd_map)
  then show "e_seq (hd us) = a" using assms(3) by (simp add: us)
  have "vs = drop (length us) (rangeOf d t w a b)" using assms(2) by simp
  also have "\<dots> = rangeOf d t w (Suc (e_seq (last us))) b" by (simp add: rangeOf_def drop_map drop_upt l del: upt_Suc)
  finally show "vs = rangeOf d t w (Suc (e_seq (last us))) b" .
qed

section \<open>The lane of a session\<close>

text \<open>What was handed to the lane, in order: the messages sent, then the builders that wait.\<close>

definition noMid :: "WireMsg \<Rightarrow> WireMsg" where
  "noMid m = (case m of ENTRIES _ r t w a b es d \<Rightarrow> ENTRIES 0 r t w a b es d
     | SNAPSHOT _ t i c n x h \<Rightarrow> SNAPSHOT 0 t i c n x h | SNAP _ s c n x cu rs h \<Rightarrow> SNAP 0 s c n x cu rs h
     | DELTA _ s u dl cu \<Rightarrow> DELTA 0 s u dl cu | _ \<Rightarrow> m)"

definition natural :: "(nat \<Rightarrow> WireMsg) \<Rightarrow> bool" where
  "natural mk \<longleftrightarrow> (\<forall>k. noMid (mk k) = noMid (mk 0))"

definition lane :: "Session \<Rightarrow> WireMsg list" where
  "lane s = map noMid (ss_sent s) @ map (\<lambda>mk. noMid (mk 0)) (ss_outQueue s)"

abbreviation plain_queue :: "Session \<Rightarrow> bool" where
  "plain_queue s \<equiv> \<forall>mk \<in> set (ss_outQueue s). natural mk"

definition blocked :: "LogEnv \<Rightarrow> Session \<Rightarrow> bool" where
  "blocked E s \<longleftrightarrow> ss_state s = SClosed \<or> SEND_QUEUE_CAP (constants E) \<le> length (ss_outQueue s)"

lemma lane_pumpQueue:
  "pumpQueue J E now q s = (Inr (), s') \<Longrightarrow> \<forall>mk \<in> set q. natural mk \<Longrightarrow>
   lane s' = map noMid (ss_sent s) @ map (\<lambda>mk. noMid (mk 0)) q \<and> set (ss_outQueue s') \<subseteq> set q"
proof (induction q arbitrary: s)
  case (Cons mk q)
  show ?case
  proof (cases "ss_state s = SClosed \<or> length (ss_unacked s) \<ge> INFLIGHT_CREDITS (constants E)")
    case False
    obtain raw where "serializeMsg J (constants E) (mk (ss_nextMid s)) = Inr raw"
      using Cons.prems(1) False by (auto simp: Let_def split: sum.splits)
    moreover have "noMid (mk (ss_nextMid s)) = noMid (mk 0)" using Cons.prems(2) by (simp add: natural_def)
    ultimately show ?thesis using Cons.IH Cons.prems False by (auto simp: Let_def)
  qed (use Cons.prems in \<open>auto simp: lane_def ok_def\<close>)
qed (auto simp: lane_def ok_def)

lemma lane_sendData:
  assumes "sendData J E now mk s = (Inr r, s')" "natural mk" "plain_queue s"
  shows "plain_queue s'" "r \<Longrightarrow> lane s' = lane s @ [noMid (mk 0)]" "\<not> r \<Longrightarrow> s' = s \<and> blocked E s"
proof -
  have out: "ss_outQueue (armRetry t) = ss_outQueue t" "lane (armRetry t) = lane t" for t by (simp_all add: armRetry_def lane_def)
  have "plain_queue s' \<and> (r \<longrightarrow> lane s' = lane s @ [noMid (mk 0)]) \<and> (\<not> r \<longrightarrow> s' = s \<and> blocked E s)"
  proof (cases "blocked E s")
    case True
    then show ?thesis using assms by (simp add: sendData_def blocked_def)
  next
    case False
    then obtain t where t: "pumpQueue J E now (ss_outQueue s @ [mk]) (s\<lparr>ss_outQueue := ss_outQueue s @ [mk]\<rparr>) = (Inr (), t)"
      "s' = armRetry t" "r"
      using assms(1) by (auto simp: sendData_def blocked_def pumpData_def sthen_def ok_def split: prod.splits sum.splits)
    have "\<forall>mk' \<in> set (ss_outQueue s @ [mk]). natural mk'" using assms(2,3) by simp
    from lane_pumpQueue [OF t(1) this] show ?thesis using assms(2,3) t(2,3) by (auto simp: out) (auto simp: lane_def)
  qed
  then show "plain_queue s'" "r \<Longrightarrow> lane s' = lane s @ [noMid (mk 0)]" "\<not> r \<Longrightarrow> s' = s \<and> blocked E s" by simp_all
qed

lemma natural_entries [simp]: "natural (entriesMsg r t w a b es d)"
  by (simp add: natural_def entriesMsg_def noMid_def)

lemma noMid_entries [simp]: "noMid (entriesMsg r t w a b es d k) = entriesMsg r t w a b es d 0"
  by (simp add: entriesMsg_def noMid_def)

section \<open>Serving a range\<close>

text \<open>The frames in which the batches go out, each starting behind the one before.\<close>

fun batchFrames :: "WireMsg \<Rightarrow> nat \<Rightarrow> nat \<Rightarrow> LogEntry list list \<Rightarrow> WireMsg list" where
  "batchFrames m to k [] = []"
| "batchFrames m to k (b # bs) = entriesMsg (Some (m_req m)) (m_topic m) (m_writer m) k to b (e_seq (last b) \<ge> to) 0 #
     batchFrames m to (e_seq (last b) + 1) bs"

definition batch_ok :: "WireJson \<Rightarrow> LogEnv \<Rightarrow> LogEntry list \<Rightarrow> bool" where
  "batch_ok J E b \<longleftrightarrow> b \<noteq> [] \<and> length b \<le> ENTRIES_BATCH_MAX \<and>
     (length b = 1 \<or> sum_list (map (entryCost J) b) \<le> batchBudget E)"

lemma engine_log: "en_log (e\<lparr>en_interval := a\<rparr>) = en_log e" "en_log (e\<lparr>en_pairBytes := b\<rparr>) = en_log e"
  "en_log (e\<lparr>en_hotBytes := n\<rparr>) = en_log e" "en_log (e\<lparr>en_hotEmitted := f\<rparr>) = en_log e" "en_log (e\<lparr>en_anomalies := l\<rparr>) = en_log e"
  "en_log (if c then e\<lparr>en_hotStart := n, en_hotBytes := m, en_hotEmitted := f\<rparr> else e) = en_log e"
  by simp_all

lemma theCore_onEngine: "(\<And>e. en_log (f e) = en_log e) \<Longrightarrow> theCore (onEngine f x) = theCore x"
  by (simp add: theCore_def onEngine_def)

lemma theCore_noteThroughput [simp]: "theCore (noteThroughput E t p n b s x) = theCore x"
  unfolding noteThroughput_def Let_def setCounters_def anomalyOut_def by (split if_split) (simp only: theCore_onEngine engine_log if_cancel simp_thms)

lemma dataOut_core: "dataOut J E mk x = (r, y) \<Longrightarrow> theCore y = theCore x"
  by (auto simp: dataOut_def theCore_def split: prod.splits)

lemma batch_step:
  assumes "log_table_ok d" "whole d t w k to" "k \<le> to"
    and p: "batchFrom J E d t w k (min to (k + ENTRIES_BATCH_MAX - 1)) = (b, n)"
  shows "batch_ok J E b" "\<exists>vs. rangeOf d t w k to = b @ vs" "e_seq (last b) \<le> to" "k \<le> e_seq (last b)"
proof -
  let ?top = "min to (k + ENTRIES_BATCH_MAX - 1)"
  have top: "k \<le> ?top" "?top \<le> to" "Suc ?top - k \<le> ENTRIES_BATCH_MAX" using assms(3) by (auto simp: ENTRIES_BATCH_MAX_def)
  have sub: "whole d t w k ?top" using whole_sub [OF assms(2)] top(2) by simp
  have "fitBatch J (batchBudget E) (rangeOf d t w k ?top) [] 0 = (b, n)"
    using p range_entries [OF assms(1) sub] by (simp add: batchFrom_def)
  from fit_prefix [OF this] obtain us vs where us: "rangeOf d t w k ?top = b @ vs" "b \<noteq> []"
    "n = sum_list (map (entryCost J) b)" "n \<le> batchBudget E \<or> length b \<le> 1"
    using top(1) by (auto simp: rangeOf_def simp del: upt_Suc)
  have "length b + length vs = Suc ?top - k"
    using arg_cong [OF us(1), of length] by (simp add: rangeOf_def del: upt_Suc)
  then have len: "length b \<le> Suc ?top - k" by simp
  have "1 \<le> length b" using us(2) by (cases b) simp_all
  then show "batch_ok J E b" using us len top(3) by (auto simp: batch_ok_def)
  have "rangeOf d t w k to = b @ (vs @ rangeOf d t w (Suc ?top) to)"
    unfolding range_split [OF le_SucI [OF top(1)] top(2), of d t w] us(1) by (simp only: append_assoc)
  then show "\<exists>vs. rangeOf d t w k to = b @ vs" by blast
  show "e_seq (last b) \<le> to" "k \<le> e_seq (last b)"
    using range_ends(2) [OF sub us(1,2)] len top \<open>1 \<le> length b\<close> by linarith+
qed

definition served :: "WireJson \<Rightarrow> LogEnv \<Rightarrow> WireMsg \<Rightarrow> LogEntry list \<Rightarrow> nat \<Rightarrow> nat \<Rightarrow> Session \<Rightarrow> Session \<Rightarrow> bool" where
  "served J E m es k to s s' \<longleftrightarrow> (\<exists>bs rest. es = concat bs @ rest \<and> list_all (batch_ok J E) bs \<and>
     lane s' = lane s @ batchFrames m to k bs \<and>
     (if rest = [] then map m_done (batchFrames m to k bs) = replicate (length bs - 1) False @ [True]
      else blocked E s' \<and> (\<forall>f \<in> set (batchFrames m to k bs). \<not> m_done f)))"

lemma serve_range:
  "serveLoop J E m n to k x = (Inr (), y) \<Longrightarrow> log_table_ok (lc_db (theCore x)) \<Longrightarrow>
   whole (lc_db (theCore x)) (m_topic m) (m_writer m) k to \<Longrightarrow> k \<le> to \<Longrightarrow> Suc to \<le> k + n \<Longrightarrow> plain_queue (fst x) \<Longrightarrow>
   served J E m (rangeOf (lc_db (theCore x)) (m_topic m) (m_writer m) k to) k to (fst x) (fst y)"
proof (induction n arbitrary: k x)
  case (Suc n)
  let ?d = "lc_db (theCore x)" and ?t = "m_topic m" and ?w = "m_writer m"
  obtain b bytes where p: "batchFrom J E ?d ?t ?w k (min to (k + ENTRIES_BATCH_MAX - 1)) = (b, bytes)" by (rule prod.exhaust)
  note st = batch_step [OF Suc.prems(2,3,4) p]
  obtain vs where vs: "rangeOf ?d ?t ?w k to = b @ vs" using st(2) by blast
  have ne: "b \<noteq> []" using st(1) by (simp add: batch_ok_def)
  note ends = range_ends [OF Suc.prems(3) vs ne]
  let ?mk = "entriesMsg (Some (m_req m)) ?t ?w k to b (e_seq (last b) \<ge> to)"
  let ?l = "e_seq (last b) + 1"
  have step: "serveLoop J E m (Suc n) to k x = (case dataOut J E ?mk x of
       (Inl e, y) \<Rightarrow> (Inl e, y) | (Inr False, y) \<Rightarrow> ok y
     | (Inr True, y) \<Rightarrow> serveLoop J E m n to ?l (noteThroughput E ?t (ss_peerId (fst y)) (length b) bytes True y))"
    using Suc.prems(4) ne by (simp add: p Let_def serveBatch_def del: One_nat_def split: prod.split sum.split bool.split)
  obtain r x1 where out: "dataOut J E ?mk x = (Inr r, x1)"
    using Suc.prems(1) step by (auto split: prod.splits sum.splits)
  have sd: "sendData J E (en_now (snd x)) ?mk (fst x) = (Inr r, fst x1)"
    using out by (auto simp: dataOut_def split: prod.splits)
  note ln = lane_sendData [OF sd natural_entries Suc.prems(6)]
  show ?case
  proof (cases r)
    case False
    then have "y = x1" using Suc.prems(1) step out by (simp add: ok_def)
    then have "served J E m (b @ vs) k to (fst x) (fst y)"
      unfolding served_def using False ln(3) ne by (intro exI [of _ "[]"] exI [of _ "b @ vs"]) simp
    then show ?thesis by (simp add: vs)
  next
    case True
    let ?y = "noteThroughput E ?t (ss_peerId (fst x1)) (length b) bytes True x1"
    have next_run: "serveLoop J E m n to ?l ?y = (Inr (), y)"
      using Suc.prems(1) step out True by simp
    have core: "theCore ?y = theCore x" using dataOut_core [OF out] by simp
    have lane1: "lane (fst ?y) = lane (fst x) @ [?mk 0]" using ln(2) True by simp
    show ?thesis
    proof (cases "?l \<le> to")
      case False
      then have "y = ?y" using next_run by (cases n) (simp_all add: ok_def)
      moreover have "vs = []" using ends(3) False by (simp add: rangeOf_def)
      ultimately have "served J E m b k to (fst x) (fst y)"
        unfolding served_def using st(1) lane1 False
        by (intro exI [of _ "[b]"] exI [of _ "[]"]) (simp add: entriesMsg_def)
      then show ?thesis using vs \<open>vs = []\<close> by simp
    next
      case le: True
      have "served J E m (rangeOf (lc_db (theCore ?y)) ?t ?w ?l to) ?l to (fst ?y) (fst y)"
        by (rule Suc.IH [OF next_run])
          (use core Suc.prems(2,3,5,6) le st(4) ln(1) whole_sub [OF Suc.prems(3), of ?l to] in simp_all)
      then obtain bs rest where bs: "vs = concat bs @ rest" "list_all (batch_ok J E) bs"
        "lane (fst y) = lane (fst ?y) @ batchFrames m to ?l bs"
        "if rest = [] then map m_done (batchFrames m to ?l bs) = replicate (length bs - 1) False @ [True]
          else blocked E (fst y) \<and> (\<forall>f \<in> set (batchFrames m to ?l bs). \<not> m_done f)"
        using ends(3) core by (auto simp: served_def)
      have fr: "bs \<noteq> []" if "rest = []"
        using that bs(1) ends(3) le by (auto simp: rangeOf_def)
      have "served J E m (b @ vs) k to (fst x) (fst y)"
        unfolding served_def using st(1) lane1 le bs fr
        by (intro exI [of _ "b # bs"] exI [of _ rest]) (cases bs; auto simp: entriesMsg_def)
      then show ?thesis by (simp add: vs)
    qed
  qed
qed simp

section \<open>Taking a range in\<close>

fun follows :: "Prims \<Rightarrow> nat \<Rightarrow> string \<Rightarrow> string \<Rightarrow> string \<Rightarrow> LogEntry list \<Rightarrow> bool" where
  "follows P n c t w [] = True"
| "follows P n c t w (e # es) = (e_topic e = t \<and> e_writer e = w \<and> e_seq e = Suc n \<and> chainOf P c e = Inr (e_chain e) \<and>
     follows P (Suc n) (e_chain e) t w es)"

fun chainAfter :: "string \<Rightarrow> LogEntry list \<Rightarrow> string" where
  "chainAfter c [] = c"
| "chainAfter c (e # es) = chainAfter (e_chain e) es"

text \<open>An open stream at head \<open>n\<close> with chain \<open>c\<close> and nothing buffered.\<close>

definition at_head :: "LogEnv \<Rightarrow> LogCore \<Rightarrow> string \<Rightarrow> string \<Rightarrow> nat \<Rightarrow> string \<Rightarrow> bool" where
  "at_head E s t w n c \<longleftrightarrow> core_inv E s \<and> (let h = storedHead E (lc_db s) (t, w) in
     sealReason h = None \<and> contigSeq h = n \<and> prevChainOf E h = c) \<and> (\<forall>k. pendingGet (lc_db s) t w k = None)"

definition lastRow :: "Db \<Rightarrow> string \<Rightarrow> string \<Rightarrow> nat \<Rightarrow> LogEntry list" where
  "lastRow d t w n = (case getEntry d t w n of None \<Rightarrow> [] | Some e \<Rightarrow> [e])"

abbreviation rising :: "LogEntry list \<Rightarrow> bool" where
  "rising \<equiv> successively (\<lambda>a b. hlcCompare (e_hlc a) (e_hlc b) \<le> 0)"

definition admissible_all :: "LogEnv \<Rightarrow> FinalityCert option \<Rightarrow> LogEntry list \<Rightarrow> bool" where
  "admissible_all E cert es \<longleftrightarrow> (\<forall>e \<in> set es. fullMode E (e_topic e) \<and> \<not> refusedByCert cert e)"

lemma take_one:
  assumes here: "at_head E s t w n c" and e: "follows (prims E) n c t w [e]" and up: "rising (lastRow (lc_db s) t w n @ [e])"
    and well: "admissible_all E (finalityGet (lc_db s) t) [e]"
  obtains s' where "processExternal E now e via s = Inr s'" "settled s' = settled s @ [RApply Applied]"
    "at_head E s' t w (Suc n) (e_chain e)" "lastRow (lc_db s') t w (Suc n) = [e]"
    "finalityGet (lc_db s') = finalityGet (lc_db s)" "sq_log (lc_db s') = sq_log (lc_db s) @ addRow E e (lc_db s)"
proof -
  let ?h = "storedHead E (lc_db s) (t, w)"
  have k: "e_topic e = t" "e_writer e = w" "e_seq e = contigSeq ?h + 1" "chainOf (prims E) (prevChainOf E ?h) e = Inr (e_chain e)"
    and inv: "core_inv E s" and op: "sealReason ?h = None" and n: "contigSeq ?h = n" and free: "\<And>k. pendingGet (lc_db s) t w k = None"
    using here e by (auto simp: at_head_def Let_def)
  obtain te where te: "reg_get (registry E) t = Inr te"
    using well k(1) by (auto simp: admissible_all_def fullMode_def split: sum.splits)
  have ref: "\<not> refusedByCert (finalityGet (lc_db s) t) e" and fm: "fullMode E t" using well k(1) by (auto simp: admissible_all_def)
  obtain s1 where s1: "lc_store s1 = lc_store s" "settled s1 = settled s" "core_inv E s1"
    and run: "processExternal E now e via s = extendStream E now ?h e via s1"
    using processExternal_unsealed [OF inv, of e now via] op ref k unfolding Let_def
    by (metis Suc_eq_plus1 not_less_eq_eq order_refl)
  have h1: "?h = storedHead E (lc_db s1) (e_topic e, e_writer e)" using s1(1) k by simp
  obtain h' s2 where ap: "applyEntry E now ?h e via s1 = Inr (h', s2)"
    using applyEntry_total [OF s1(3) h1 k(3)] te k by blast
  note a = inv_applyEntry [OF s1(3) h1 k(3,4) ap] and eff = applyEntry_effect [OF ap]
  have key: "w_topic ?h = t" "w_writer ?h = w" using inv stored_key by (auto simp: core_inv_def stream_ok_def)
  have "hlcCompare (e_hlc p) (e_hlc e) \<le> 0" if "getEntry (lc_db s) t w n = Some p" for p
    using up that by (simp add: lastRow_def)
  then have va: "verifyAndApply E now ?h e via s1 = Inr (True, h', s2)"
    using ap s1(1) k n by (auto simp: verifyAndApply_def orAbort_def split: option.splits)
  let ?m = "mergeClock E now e s2"
  have same: "sq_log (lc_db ?m) = sq_log (lc_db s2)" "sq_pending (lc_db ?m) = sq_pending (lc_db s2)"
    "sq_finality (lc_db ?m) = sq_finality (lc_db s2)" "settled ?m = settled s2" by (simp_all add: mergeClock_def)
  have heads: "storedHead E (lc_db ?m) = storedHead E (lc_db s2)" by (rule storedHead_cong) (simp add: mergeClock_def)
  have idle: "pendingGet (lc_db ?m) t w k = None" for k using free same(2) eff(6) s1(1) by (simp add: pendingGet_def)
  have "drainPending E now h' via ?m = Inr ?m" unfolding drainPending.simps [of E now h' via ?m] using idle key by (simp add: a(2) setContig_def)
  then have ran: "processExternal E now e via s = Inr (settle (RApply Applied) ?m)" using run va by (simp add: extendStream_def)
  have "core_inv E (settle (RApply Applied) ?m)" using inv_mergeClock [OF a(1)] core_inv_cong [of "settle (RApply Applied) ?m" ?m]
    by (simp add: settle_def)
  moreover have st: "storedHead E (lc_db ?m) (t, w) = setContig e ?h" using heads a(2,3) k by simp
  ultimately have there: "at_head E (settle (RApply Applied) ?m) t w (Suc n) (e_chain e)"
    using idle op n k by (simp add: at_head_def settle_def setContig_def prevChainOf_def)
  have log: "sq_log (lc_db ?m) = sq_log (lc_db s) @ addRow E e (lc_db s)" using same(1) eff(4) s1(1) by simp
  have "held (lc_db ?m) e" using log fm k(1) by (auto simp: held_def addRow_def)
  moreover have "log_table_ok (lc_db ?m)" using inv_mergeClock [OF a(1)] by (simp add: core_inv_def stream_ok_def)
  ultimately have "getEntry (lc_db ?m) t w (Suc n) = Some e" using held_getEntry k n by fastforce
  then have lr: "lastRow (lc_db (settle (RApply Applied) ?m)) t w (Suc n) = [e]" by (simp add: lastRow_def settle_def)
  have fin: "finalityGet (lc_db ?m) = finalityGet (lc_db s)"
    by (rule ext) (use same(3) eff(7) s1(1) in \<open>simp add: finalityGet_def\<close>)
  have "settled s2 = settled s" using settled_reads(6) [OF ap] s1(2) by simp
  then show thesis
    using that [OF ran _ there lr] fin log same(4) by (simp add: settle_def)
qed

text \<open>The rows a stretch of entries leaves behind.\<close>

lemma take_range:
  assumes "at_head E s t w n c" "follows (prims E) n c t w es" "rising (lastRow (lc_db s) t w n @ es)"
    "admissible_all E (finalityGet (lc_db s) t) es" "length ids = length es"
  shows "\<exists>s'. runItems E clk (zip ids (map (\<lambda>e. QExternal e via) es)) s = Inr s' \<and>
    settled s' = settled s @ replicate (length es) (RApply Applied) \<and>
    at_head E s' t w (n + length es) (chainAfter c es) \<and> finalityGet (lc_db s') = finalityGet (lc_db s) \<and>
    (\<forall>x. held (lc_db s) x \<or> x \<in> set es \<longrightarrow> held (lc_db s') x) \<and>
    lastRow (lc_db s') t w (n + length es) = (if es = [] then lastRow (lc_db s) t w n else [last es])"
  using assms
proof (induction es arbitrary: s n c ids)
  case (Cons e es)
  obtain i is' where ids: "ids = i # is'" "length is' = length es" using Cons.prems(5) by (cases ids) auto
  have e: "follows (prims E) n c t w [e]" "rising (lastRow (lc_db s) t w n @ [e])"
    "admissible_all E (finalityGet (lc_db s) t) [e]" "rising (e # es)" "e_topic e = t"
    using Cons.prems(2-4) by (auto simp: admissible_all_def lastRow_def successively_append_iff split: option.splits)
  obtain s1 where s1: "processExternal E (clk i) e via s = Inr s1" "settled s1 = settled s @ [RApply Applied]"
    "at_head E s1 t w (Suc n) (e_chain e)" "lastRow (lc_db s1) t w (Suc n) = [e]"
    "finalityGet (lc_db s1) = finalityGet (lc_db s)" "sq_log (lc_db s1) = sq_log (lc_db s) @ addRow E e (lc_db s)"
    using take_one [OF Cons.prems(1) e(1-3)] by metis
  have kept: "held (lc_db s1) x \<longleftrightarrow> held (lc_db s) x \<or> x = e" for x
    using s1(6) Cons.prems(4) by (auto simp: held_def addRow_def admissible_all_def)
  have "\<exists>s'. runItems E clk (zip is' (map (\<lambda>e. QExternal e via) es)) s1 = Inr s' \<and>
    settled s' = settled s1 @ replicate (length es) (RApply Applied) \<and>
    at_head E s' t w (Suc n + length es) (chainAfter (e_chain e) es) \<and> finalityGet (lc_db s') = finalityGet (lc_db s1) \<and>
    (\<forall>x. held (lc_db s1) x \<or> x \<in> set es \<longrightarrow> held (lc_db s') x) \<and>
    lastRow (lc_db s') t w (Suc n + length es) = (if es = [] then lastRow (lc_db s1) t w (Suc n) else [last es])"
    using Cons.prems(2,4) e(4) s1(3,4,5) ids(2) by (intro Cons.IH) (auto simp: admissible_all_def)
  then obtain s' where "runItems E clk (zip is' (map (\<lambda>e. QExternal e via) es)) s1 = Inr s'"
    "settled s' = settled s1 @ replicate (length es) (RApply Applied)"
    "at_head E s' t w (Suc n + length es) (chainAfter (e_chain e) es)" "finalityGet (lc_db s') = finalityGet (lc_db s1)"
    "\<forall>x. held (lc_db s1) x \<or> x \<in> set es \<longrightarrow> held (lc_db s') x"
    "lastRow (lc_db s') t w (Suc n + length es) = (if es = [] then lastRow (lc_db s1) t w (Suc n) else [last es])" by blast
  then show ?case
    using s1 kept by (intro exI [of _ s']) (auto simp: ids(1) processItem_def)
qed simp

text \<open>Every entry of the frame passes validation and is queued in its place.\<close>

definition valid_all :: "LogEnv \<Rightarrow> LogEntry list \<Rightarrow> bool" where
  "valid_all E es \<longleftrightarrow> (\<forall>e \<in> set es. validateEntry (prims E) (constants E) (entry_js e) = Inr e)"

lemma queue_range:
  "valid_all E es \<Longrightarrow> \<forall>e \<in> set es. e_topic e = m_topic m \<and> e_writer e = m_writer m \<Longrightarrow>
   reg_get (registry E) (m_topic m) = Inr te \<Longrightarrow> \<not> q_closed (en_log (snd x)) \<Longrightarrow>
   \<exists>y. applyEntries J E m (map entry_js es) ts x = ((Inr (), y), ts @ map (\<lambda>(i, e). (q_next (en_log (snd x)) + i, entryCost J e)) (enumerate 0 es)) \<and>
     fst y = fst x \<and> (\<exists>q. snd y = (snd x)\<lparr>en_log := q\<rparr>) \<and>
     q_items (en_log (snd y)) = q_items (en_log (snd x)) @
       zip [q_next (en_log (snd x))..<q_next (en_log (snd x)) + length es] (map (\<lambda>e. QExternal e (Some (ss_peerId (fst x)))) es) \<and>
     q_closed (en_log (snd y)) = False \<and> q_core (en_log (snd y)) = q_core (en_log (snd x)) \<and>
     q_done (en_log (snd y)) = q_done (en_log (snd x)) \<and> q_next (en_log (snd y)) = q_next (en_log (snd x)) + length es"
proof (induction es arbitrary: ts x)
  case (Cons e es)
  let ?q = "en_log (snd x)" and ?item = "QExternal e (Some (ss_peerId (fst x)))"
  let ?x = "onEngine (\<lambda>s. s\<lparr>en_log := push E ?item ?q\<rparr>) x"
  have pushed: "q_items (push E ?item ?q) = q_items ?q @ [(q_next ?q, ?item)]" "q_next (push E ?item ?q) = Suc (q_next ?q)"
    "q_core (push E ?item ?q) = q_core ?q" "q_done (push E ?item ?q) = q_done ?q" "q_closed (push E ?item ?q) = q_closed ?q"
    by (simp_all add: push_def Let_def)
  have x: "snd ?x = (snd x)\<lparr>en_log := push E ?item ?q\<rparr>" by (simp add: onEngine_def)
  have run: "applyEntries J E m (map entry_js (e # es)) ts x =
      applyEntries J E m (map entry_js es) (ts @ [(q_next ?q, entryCost J e)]) ?x"
    using Cons.prems by (simp add: valid_all_def preExternal_def Let_def)
  have enum: "enumerate 0 (e # es) = (0, e) # map (\<lambda>(i, e). (Suc i, e)) (enumerate 0 es)"
    by (simp add: enumerate_Suc_eq [of 0, simplified] case_prod_beta' apfst_def map_prod_def)
  have ih: "valid_all E es" "\<forall>e \<in> set es. e_topic e = m_topic m \<and> e_writer e = m_writer m" "\<not> q_closed (en_log (snd ?x))"
    using Cons.prems x pushed by (simp_all add: valid_all_def)
  obtain y where y: "applyEntries J E m (map entry_js es) (ts @ [(q_next ?q, entryCost J e)]) ?x =
       ((Inr (), y), (ts @ [(q_next ?q, entryCost J e)]) @
          map (\<lambda>(i, e). (q_next (en_log (snd ?x)) + i, entryCost J e)) (enumerate 0 es))"
    "fst y = fst ?x" "\<exists>q. snd y = (snd ?x)\<lparr>en_log := q\<rparr>"
    "q_items (en_log (snd y)) = q_items (en_log (snd ?x)) @
       zip [q_next (en_log (snd ?x))..<q_next (en_log (snd ?x)) + length es] (map (\<lambda>e. QExternal e (Some (ss_peerId (fst ?x)))) es)"
    "q_closed (en_log (snd y)) = False" "q_core (en_log (snd y)) = q_core (en_log (snd ?x))"
    "q_done (en_log (snd y)) = q_done (en_log (snd ?x))" "q_next (en_log (snd y)) = q_next (en_log (snd ?x)) + length es"
    using Cons.IH [OF ih(1,2) Cons.prems(3) ih(3), of "ts @ [(q_next ?q, entryCost J e)]"] by blast
  have upt: "[q_next ?q..<q_next ?q + Suc (length es)] = q_next ?q # [Suc (q_next ?q)..<Suc (q_next ?q) + length es]"
    by (simp add: upt_conv_Cons del: upt_Suc)
  show ?case
    unfolding run y(1)
  proof (intro exI [of _ y] conjI)
    show "\<exists>q. snd y = (snd x)\<lparr>en_log := q\<rparr>" using y(3) x by auto
    show "q_items (en_log (snd y)) = q_items ?q @ zip [q_next ?q..<q_next ?q + length (e # es)]
        (map (\<lambda>e. QExternal e (Some (ss_peerId (fst x)))) (e # es))"
      using y(4) pushed x upt by (simp del: upt_Suc)
    show "((Inr (), y), (ts @ [(q_next ?q, entryCost J e)]) @
          map (\<lambda>(i, e). (q_next (en_log (snd ?x)) + i, entryCost J e)) (enumerate 0 es)) =
        ((Inr (), y), ts @ map (\<lambda>(i, e). (q_next ?q + i, entryCost J e)) (enumerate 0 (e # es)))"
      unfolding enum using pushed x by (simp add: case_prod_beta')
  qed (use y pushed x in simp_all)
next
  case Nil
  show ?case by (intro exI [of _ x] conjI exI [of _ "en_log (snd x)"]) (use Nil in \<open>simp_all add: ok_def\<close>)
qed

text \<open>The requester is idle: the topic is mutually full, the queue is open and empty.\<close>

definition idle_at :: "LogEnv \<Rightarrow> 'h EW \<Rightarrow> string \<Rightarrow> string \<Rightarrow> nat \<Rightarrow> string \<Rightarrow> bool" where
  "idle_at E x t w n c \<longleftrightarrow> mutualFull (fst x) t \<and> q_items (en_log (snd x)) = [] \<and> \<not> q_closed (en_log (snd x)) \<and>
     queue_ids (en_log (snd x)) \<and> at_head E (theCore x) t w n c"

text \<open>It takes a frame in, and the queued entries are flushed.\<close>

definition receive :: "WireJson \<Rightarrow> LogEnv \<Rightarrow> nat \<Rightarrow> (nat \<Rightarrow> nat) \<Rightarrow> WireMsg \<Rightarrow> 'h EW \<Rightarrow> 'h EW" where
  "receive J E i clk m x = onEngine (\<lambda>e. e\<lparr>en_log := flush E clk None (en_log e)\<rparr>) (snd (onEntries J E i m x))"

lemma at_head_commit:
  assumes "at_head E s t w n c"
  shows "at_head E (commitFlush (withDb (\<lambda>d. metaSetHlc d h) s)) t w n c"
proof -
  let ?s = "commitFlush (withDb (\<lambda>d. metaSetHlc d h) s)"
  have "core_inv E (withDb (\<lambda>d. metaSetHlc d h) s)" using assms inv_side_tables by (simp add: at_head_def)
  then have "core_inv E ?s" using core_inv_cong [of ?s "withDb (\<lambda>d. metaSetHlc d h) s"] by (simp add: commitFlush_def)
  moreover have "storedHead E (lc_db ?s) = storedHead E (lc_db s)" by (rule storedHead_cong) (simp add: commitFlush_def metaSetHlc_def)
  moreover have "pendingGet (lc_db ?s) t w k = pendingGet (lc_db s) t w k" for k
    by (simp add: commitFlush_def metaSetHlc_def pendingGet_def)
  ultimately show ?thesis using assms by (simp add: at_head_def)
qed

lemma at_head_begin: "at_head E s t w n c \<Longrightarrow> at_head E (beginFlush s) t w n c"
  using inv_begin [of E s] by (simp add: at_head_def beginFlush_def)

lemma receive_frame:
  assumes idle: "idle_at E x t w n c" and fits: "follows (prims E) n c t w es" "rising (lastRow (lc_db (theCore x)) t w n @ es)"
    "admissible_all E (finalityGet (lc_db (theCore x)) t) es" "valid_all E es" and ne: "es \<noteq> []"
    and m: "m = ENTRIES mid req t w a b (map entry_js es) dn"
    and y0: "y = receive J E i clk m x"
  shows "idle_at E y t w (n + length es) (chainAfter c es)" "finalityGet (lc_db (theCore y)) = finalityGet (lc_db (theCore x))"
    "lastRow (lc_db (theCore y)) t w (n + length es) = [last es]"
    "\<And>e. held (lc_db (theCore x)) e \<or> e \<in> set es \<Longrightarrow> held (lc_db (theCore y)) e"
    "fst (onEntries J E i m x) = Inr ()" "\<exists>ts. en_waits (snd y) = en_waits (snd x) @ [WEntries i m ts] \<and> length ts = length es \<and>
       (\<forall>p \<in> set ts. applyOutcome (en_log (snd y)) (fst p) = Some Applied)"
proof -
  let ?q = "en_log (snd x)"
  let ?t = "\<lambda>es. map (\<lambda>(i, e). (q_next ?q + i, entryCost J e)) (enumerate 0 es)"
  obtain k where x1: "(if knownOf i (knownKey t w) x < b then onPeer i (\<lambda>p. p\<lparr>ps_known := (ps_known p)(knownKey t w \<mapsto> b)\<rparr>) x else x) = k"
    and k: "fst k = fst x" "en_log (snd k) = ?q" "en_waits (snd k) = en_waits (snd x)"
    by (auto simp: onPeer_def)
  have mm: "m_topic m = t" "m_writer m = w" "m_toSeq m = b" "m_entries m = map entry_js es" by (simp_all add: m)
  have own: "\<forall>e \<in> set es. e_topic e = m_topic m \<and> e_writer e = m_writer m"
    using fits(1) unfolding m by (induction es arbitrary: n c) auto
  have "fullMode E (m_topic m)" using fits(3) own ne unfolding admissible_all_def by (metis list.set_sel(1))
  then obtain te where te: "reg_get (registry E) (m_topic m) = Inr te" by (auto simp: fullMode_def split: sum.splits)
  have op: "\<not> q_closed (en_log (snd k))" using idle k by (simp add: idle_at_def)
  let ?ids = "[q_next ?q..<q_next ?q + length es]" and ?via = "Some (ss_peerId (fst x))"
  note queued = queue_range [OF fits(4) own te op, of J "[]", unfolded k append_Nil]
  obtain z where z: "applyEntries J E m (map entry_js es) [] k = ((Inr (), z), ?t es)" "fst z = fst x" "\<exists>q. snd z = (snd k)\<lparr>en_log := q\<rparr>"
    "q_items (en_log (snd z)) = q_items ?q @ zip ?ids (map (\<lambda>e. QExternal e ?via) es)"
    "q_closed (en_log (snd z)) = False" "q_core (en_log (snd z)) = q_core ?q" "q_done (en_log (snd z)) = q_done ?q"
    "q_next (en_log (snd z)) = q_next ?q + length es"
    using queued by blast
  have empty: "q_items ?q = []" "q_core ?q = theCore x" using idle by (simp_all add: idle_at_def theCore_def)
  have run0: "onEntries J E i m x = ok (onEngine (\<lambda>e. e\<lparr>en_waits := en_waits e @ [WEntries i m (?t es)]\<rparr>) z)"
    unfolding onEntries_def Let_def mm x1 z(1) using idle by (simp add: idle_at_def)
  then show "fst (onEntries J E i m x) = Inr ()" by (simp add: ok_def)
  have len: "length ?ids = length es" by simp
  obtain s' where s': "runItems E clk (zip ?ids (map (\<lambda>e. QExternal e ?via) es)) (beginFlush (theCore x)) = Inr s'"
    "settled s' = replicate (length es) (RApply Applied)" "at_head E s' t w (n + length es) (chainAfter c es)"
    "finalityGet (lc_db s') = finalityGet (lc_db (theCore x))" "\<forall>e. held (lc_db (theCore x)) e \<or> e \<in> set es \<longrightarrow> held (lc_db s') e"
    "lastRow (lc_db s') t w (n + length es) = [last es]"
    using take_range [OF at_head_begin, of E "theCore x" t w n c es ?ids clk ?via] idle fits ne len
    by (auto simp: idle_at_def beginFlush_def)
  let ?qz = "en_log (snd z)"
  have fl: "flush E clk None ?qz = ?qz\<lparr>q_timer := None, q_items := [], q_core := commitFlush (withDb (\<lambda>d. metaSetHlc d (hlcState s')) s'),
      q_done := q_done ?q @ zip ?ids (replicate (length es) (RApply Applied)),
      q_emitted := q_emitted ?qz @ anomalies s', q_hooks := q_hooks ?qz @ applied s'\<rparr>"
    using s'(1,2) z(4-8) empty ne by (simp add: flush_def flushTxn_def Let_def withDb_def)
  have y: "fst y = fst x" "en_log (snd y) = flush E clk None ?qz" "en_waits (snd y) = en_waits (snd x) @ [WEntries i m (?t es)]"
    using run0 z(2,3) k(3) by (auto simp: y0 receive_def ok_def onEngine_def)
  have core: "theCore y = commitFlush (withDb (\<lambda>d. metaSetHlc d (hlcState s')) s')" by (simp add: theCore_def y(2) fl)
  have "queue_ids (en_log (snd y))"
    using idle z(8) by (fastforce simp: queue_ids_def y(2) fl idle_at_def dest: set_zip_leftD)
  then show "idle_at E y t w (n + length es) (chainAfter c es)"
    using idle at_head_commit [OF s'(3)] z(5) by (simp add: idle_at_def y fl core)
  show "finalityGet (lc_db (theCore y)) = finalityGet (lc_db (theCore x))"
    using s'(4) by (simp add: core commitFlush_def metaSetHlc_def finalityGet_def fun_eq_iff)
  show "lastRow (lc_db (theCore y)) t w (n + length es) = [last es]"
    using s'(6) by (simp add: core commitFlush_def metaSetHlc_def lastRow_def getEntry_def)
  show "held (lc_db (theCore y)) e" if "held (lc_db (theCore x)) e \<or> e \<in> set es" for e
    using s'(5) that by (auto simp: core commitFlush_def metaSetHlc_def held_def)
  have fresh: "map_of (q_done ?q) j = None" if "j \<ge> q_next ?q" for j
    using idle that by (force simp: idle_at_def queue_ids_def map_of_eq_None_iff)
  have "applyOutcome (en_log (snd y)) (fst p) = Some Applied" if "p \<in> set (?t es)" for p
  proof -
    obtain j e where j: "p = (q_next ?q + j, entryCost J e)" "j < length es" using \<open>p \<in> set (?t es)\<close> by (auto simp: in_set_enumerate_eq)
    have "map_of (zip ?ids (replicate (length es) (RApply Applied))) (?ids ! j) = Some (replicate (length es) (RApply Applied) ! j)"
      using j(2) by (intro map_of_zip_nth) simp_all
    then show ?thesis using j fresh by (simp add: applyOutcome_def y(2) fl map_add_def)
  qed
  then show "\<exists>ts. en_waits (snd y) = en_waits (snd x) @ [WEntries i m ts] \<and> length ts = length es \<and>
       (\<forall>p \<in> set ts. applyOutcome (en_log (snd y)) (fst p) = Some Applied)"
    using y(3) by (intro exI [of _ "?t es"]) simp
qed

lemma follows_append:
  "follows P n c t w (a @ b) \<longleftrightarrow> follows P n c t w a \<and> follows P (n + length a) (chainAfter c a) t w b"
  by (induction a arbitrary: n c) auto

lemma chainAfter_append: "chainAfter c (a @ b) = chainAfter (chainAfter c a) b"
  by (induction a arbitrary: c) simp_all

lemma chainAfter_last: "es \<noteq> [] \<Longrightarrow> chainAfter c es = e_chain (last es)"
  by (induction es arbitrary: c) auto

text \<open>All frames of a round, one after the other.\<close>

abbreviation receiveAll :: "WireJson \<Rightarrow> LogEnv \<Rightarrow> nat \<Rightarrow> (nat \<Rightarrow> nat) \<Rightarrow> WireMsg list \<Rightarrow> 'h EW \<Rightarrow> 'h EW" where
  "receiveAll J E i clk fs x \<equiv> foldl (\<lambda>x f. receive J E i clk f x) x fs"

lemma receive_round:
  "idle_at E x (m_topic m) (m_writer m) n c \<Longrightarrow> follows (prims E) n c (m_topic m) (m_writer m) (concat bs) \<Longrightarrow>
   rising (lastRow (lc_db (theCore x)) (m_topic m) (m_writer m) n @ concat bs) \<Longrightarrow>
   admissible_all E (finalityGet (lc_db (theCore x)) (m_topic m)) (concat bs) \<Longrightarrow> valid_all E (concat bs) \<Longrightarrow>
   [] \<notin> set bs \<Longrightarrow>
   idle_at E (receiveAll J E i clk (batchFrames m to k bs) x) (m_topic m) (m_writer m) (n + length (concat bs)) (chainAfter c (concat bs)) \<and>
   (\<forall>e. held (lc_db (theCore x)) e \<or> e \<in> set (concat bs) \<longrightarrow>
      held (lc_db (theCore (receiveAll J E i clk (batchFrames m to k bs) x))) e)"
proof (induction bs arbitrary: x n c k)
  case (Cons b bs)
  let ?f = "entriesMsg (Some (m_req m)) (m_topic m) (m_writer m) k to b (e_seq (last b) \<ge> to) 0" and ?d = "lc_db (theCore x)"
  let ?t = "m_topic m" and ?w = "m_writer m"
  obtain y where y: "y = receive J E i clk ?f x" by blast
  have b: "follows (prims E) n c ?t ?w b" "rising (lastRow ?d ?t ?w n @ b)" "admissible_all E (finalityGet ?d ?t) b" "valid_all E b" "b \<noteq> []"
    using Cons.prems by (auto simp: follows_append admissible_all_def valid_all_def successively_append_iff)
  have rest: "follows (prims E) (n + length b) (chainAfter c b) ?t ?w (concat bs)" "valid_all E (concat bs)" "[] \<notin> set bs"
    "admissible_all E (finalityGet ?d ?t) (concat bs)"
    using Cons.prems b(5) by (auto simp: follows_append admissible_all_def valid_all_def)
  have up: "rising (last b # concat bs)"
    using Cons.prems(3) b(5) unfolding concat.simps append_assoc [symmetric] successively_append_iff successively_Cons by fastforce
  note r = receive_frame [OF Cons.prems(1) b entriesMsg_def y]
  have "idle_at E (receiveAll J E i clk (batchFrames m to (e_seq (last b) + 1) bs) y) ?t ?w
      (n + length b + length (concat bs)) (chainAfter (chainAfter c b) (concat bs)) \<and>
    (\<forall>e. held (lc_db (theCore y)) e \<or> e \<in> set (concat bs) \<longrightarrow>
      held (lc_db (theCore (receiveAll J E i clk (batchFrames m to (e_seq (last b) + 1) bs) y))) e)"
    using Cons.IH [OF r(1) rest(1) _ _ rest(2,3)] rest(4) up r(2,3) by simp
  then show ?case using r(4) by (simp add: y [symmetric] chainAfter_append add.assoc)
qed simp

text \<open>Held rows of a responder follow each other by the invariant of its log.\<close>

lemma range_follows:
  "stream_ok E d \<Longrightarrow> whole d t w (Suc n) b \<Longrightarrow> n \<le> b \<Longrightarrow>
   (n = 0 \<and> c = seedOf (prims E) t w) \<or> chainAt d t w n = Some c \<Longrightarrow>
   follows (prims E) n c t w (rangeOf d t w (Suc n) b)"
proof (induction "b - n" arbitrary: n c)
  case (Suc k)
  then have lt: "Suc n \<le> b" by simp
  then have "Suc n \<in> {Suc n..b}" by simp
  then obtain e where e: "getEntry d t w (Suc n) = Some e" using Suc.prems(2) unfolding whole_def by blast
  note he = getEntry_held [OF e]
  have r: "rangeOf d t w (Suc n) b = e # rangeOf d t w (Suc (Suc n)) b"
    using lt e by (simp add: rangeOf_def upt_conv_Cons del: upt_Suc)
  have link: "chain_linked E d" using Suc.prems(1) by (simp add: stream_ok_def)
  have "chainOf (prims E) c e = Inr (e_chain e)"
  proof (cases "chainAt d t w n = Some c")
    case True
    then obtain p where p: "getEntry d t w n = Some p" "e_chain p = c" by (auto simp: chainAt_def)
    then show ?thesis using link he getEntry_held [OF p(1)] by (fastforce simp: chain_linked_def)
  next
    case False
    then show ?thesis using Suc.prems(4) link he by (auto simp: chain_linked_def)
  qed
  moreover have "follows (prims E) (Suc n) (e_chain e) t w (rangeOf d t w (Suc (Suc n)) b)"
    using Suc.hyps(2) lt e by (intro Suc.hyps(1) Suc.prems(1) whole_sub [OF Suc.prems(2)]) (auto simp: chainAt_def)
  ultimately show ?case using he by (simp add: r)
qed (simp add: rangeOf_def)

section \<open>A WANT\<close>

text \<open>The WANT asks for rows the responder has all of.\<close>

definition servable :: "'h Hubs \<Rightarrow> LogEnv \<Rightarrow> nat \<Rightarrow> WireMsg \<Rightarrow> 'h EW \<Rightarrow> bool" where
  "servable H E i m x \<longleftrightarrow> (let t = m_topic m; w = m_writer m; d = lc_db (theCore x); high = contigSeq (storedHead E d (t, w)) in
     core_inv E (theCore x) \<and> mutualFull (fst x) t \<and> plain_queue (fst x) \<and>
     (\<forall>y. hub_maybeOffer H i t w (m_fromSeq m) y = (Inr False, y)) \<and>
     (case floorGet d t w of None \<Rightarrow> True | Some f \<Rightarrow> fst f < m_fromSeq m) \<and>
     m_fromSeq m \<le> high \<and> whole d t w (m_fromSeq m) high)"

lemma readCore_core:
  "readCore f x = (v, y) \<Longrightarrow> \<exists>c. f (theCore x) = (v, c) \<and> theCore y = c \<and> fst y = fst x"
  by (auto simp: readCore_def theCore_def onEngine_def split: prod.splits)

lemma served_want:
  assumes ok: "servable H E i m x" and run: "serveWant H J E i m x = (Inr (), y)"
  defines "d \<equiv> lc_db (theCore x)" and "high \<equiv> contigSeq (storedHead E (lc_db (theCore x)) (m_topic m, m_writer m))"
  shows "served J E m (rangeOf d (m_topic m) (m_writer m) (m_fromSeq m) high) (m_fromSeq m) high (fst x) (fst y)"
proof -
  let ?t = "m_topic m" and ?w = "m_writer m"
  obtain x1 where x1: "x1 = setCounters ?t (\<lambda>c. c\<lparr>wantRoundsServed := wantRoundsServed c + 1\<rparr>) x" by blast
  have x1': "theCore x1 = theCore x" "fst x1 = fst x" by (simp_all add: x1 theCore_def setCounters_def onEngine_def)
  have hub: "callHub (hub_maybeOffer H i ?t ?w (m_fromSeq m)) x1 = (Inr False, x1)"
    using ok by (cases x1) (simp add: servable_def Let_def callHub_def)
  obtain head x2 where r2: "readCore (getStream E ?t ?w) x1 = (head, x2)" by (rule prod.exhaust)
  obtain flr x3 where r3: "readCore (floorOf ?t ?w) x2 = (flr, x3)" by (rule prod.exhaust)
  have inv: "core_inv E (theCore x)" using ok by (simp add: servable_def Let_def)
  obtain c2 where g2: "getStream E ?t ?w (theCore x) = (head, c2)" "theCore x2 = c2" "fst x2 = fst x"
    using readCore_core [OF r2] x1' by auto
  obtain c3 where g3: "floorOf ?t ?w c2 = (flr, c3)" "theCore x3 = c3" "fst x3 = fst x"
    using readCore_core [OF r3] g2 by auto
  note i2 = inv_getStream [OF inv g2(1)] and f2 = getStream_frame [OF g2(1)]
  note i3 = inv_floorOf [OF i2(1) g3(1)]
  have st: "lc_db (theCore x3) = d" "contigSeq head = high" "flr = floorGet d ?t ?w"
    using f2(1) i3(2,3) i2(3) g3(2) by (simp_all add: d_def high_def)
  have pre: "m_fromSeq m \<le> high" "whole d ?t ?w (m_fromSeq m) high" "plain_queue (fst x3)" "mutualFull (fst x) ?t"
    "case floorGet d ?t ?w of None \<Rightarrow> True | Some f \<Rightarrow> fst f < m_fromSeq m"
    using ok g3(3) by (auto simp: servable_def Let_def d_def high_def)
  have "serveLoop J E m (Suc high - m_fromSeq m) high (m_fromSeq m) x3 = (Inr (), y)"
    using run pre hub st unfolding serveWant_def x1 [symmetric] hub
    by (simp add: r2 r3 split: option.splits)
  then have "served J E m (rangeOf (lc_db (theCore x3)) ?t ?w (m_fromSeq m) high) (m_fromSeq m) high (fst x3) (fst y)"
    using inv pre st(1) by (intro serve_range) (simp_all add: core_inv_def stream_ok_def d_def, linarith)
  then show ?thesis using st(1) g3(3) by simp
qed


text \<open>The requester is ready for the rows: an idle node whose open stream ends right before the
  range with the responder's chain, on a full-mode topic, with a certificate and a clock order that
  do not refuse them, and the same hash.\<close>

definition ready_for :: "LogEnv \<Rightarrow> LogEnv \<Rightarrow> Db \<Rightarrow> LogEntry list \<Rightarrow> 'h EW \<Rightarrow> string \<Rightarrow> string \<Rightarrow> nat \<Rightarrow> bool" where
  "ready_for E E' d es z t w n \<longleftrightarrow> (\<exists>c. idle_at E' z t w n c \<and> (n \<noteq> 0 \<longrightarrow> chainAt d t w n = Some c)) \<and> prims E' = prims E \<and>
     rising (lastRow (lc_db (theCore z)) t w n @ es) \<and> admissible_all E' (finalityGet (lc_db (theCore z)) t) es \<and> valid_all E' es"


section \<open>A round between two nodes\<close>

definition short_wire :: WireJson where
  "short_wire = \<lparr>jsonParse = (\<lambda>_. None), jsonStringify = (\<lambda>_. ''x'')\<rparr>"

definition demo_session :: Session where
  "demo_session = (emptySession ''p'' PContent [(''t'', GFull)])\<lparr>ss_state := SReady, ss_peerGrants := [(''t'', (GFull, demo_hash))]\<rparr>"

definition demo_node :: "LogQueue \<Rightarrow> unit EW" where
  "demo_node q = (demo_session, \<lparr>en_now = 5, en_log = q, en_peers = [0], en_ps = (\<lambda>_. newPeer 5), en_rejects = (\<lambda>_ _. 0),
     en_interval = Map.empty, en_pairBytes = [], en_hotStart = 0, en_hotBytes = 0, en_hotEmitted = False, en_finality = False,
     en_directives = False, en_acks = None, en_ackFault = False, en_meta = Map.empty, en_anomalies = [], en_certCalls = [],
     en_directiveCalls = [], en_waits = [], en_hubs = ()\<rparr>)"

lemma demo_node_core [simp]: "theCore (demo_node q) = q_core q" "en_log (snd (demo_node q)) = q" "fst (demo_node q) = demo_session"
  by (simp_all add: demo_node_def theCore_def)

lemma demo_full: "mutualFull demo_session ''t''"
  by (simp add: mutualFull_def demo_session_def emptySession_def)

definition demo_want :: WireMsg where "demo_want = WANT 1 ''t'' ''me'' 1"

lemma demo_head: "storedHead demo_env (lc_db (q_core demo_after)) (''t'', ''me'') =
   (freshHead demo_env ''t'' ''me'')\<lparr>contigSeq := 1, contigChain := demo_hash\<rparr>"
  by (simp add: demo_after_core commitFlush_def demo_applied_def storedHead_def saveHead_def getStream_def beginFlush_def
      LogCore_new_def empty_store_def empty_db_def getWriter_def Let_def demo_first_def demo_row_def setContig_def freshHead_def
      upsertWriter_def metaSetHlc_def pushApplied_def settle_def withDb_def)

lemma demo_held: "getEntry (lc_db (q_core demo_after)) ''t'' ''me'' 1 = Some demo_first"
  by (simp add: getEntry_def demo_after_log entryKey_def demo_first_def demo_row_def)

lemma demo_floor: "floorGet (lc_db (q_core demo_after)) ''t'' ''me'' = None"
  by (simp add: demo_after_core commitFlush_def demo_applied_def saveHead_def getStream_def beginFlush_def
      LogCore_new_def empty_store_def empty_db_def Let_def storedHead_def getWriter_def
      metaSetHlc_def pushApplied_def settle_def withDb_def floorGet_def upsertWriter_def)

lemma demo_servable: "servable noHubs demo_env 0 demo_want (demo_node demo_after)"
  using reach_core [OF demo_reach] demo_full
  by (simp add: servable_def Let_def demo_want_def noHubs_def demo_head demo_floor whole_def demo_held [unfolded One_nat_def]
      demo_session_def emptySession_def)

lemma demo_sends: "sendData short_wire demo_env 5 mk demo_session = (Inr True, armRetry (demo_session\<lparr>ss_nextMid := 2,
    ss_unacked := [\<lparr>un_mid = 1, un_at = 5, un_msg = mk 1, un_frame = ''x'', un_sentAt = 5\<rparr>],
    ss_out := [(mk 1, ''x'')], ss_sent := [mk 1]\<rparr>))"
  by (simp add: sendData_def pumpData_def demo_session_def emptySession_def serializeMsg_def short_wire_def DEFAULT_CONSTANTS_def
      ok_def sthen_def utf8ByteLength_def Let_def numeral_2_eq_2)

lemma demo_serves:
  obtains y where "serveWant noHubs short_wire demo_env 0 demo_want (demo_node demo_after) = (Inr (), y)" "\<not> blocked demo_env (fst y)"
proof -
  let ?x = "demo_node demo_after"
  obtain x1 where x1: "x1 = setCounters ''t'' (\<lambda>c. c\<lparr>wantRoundsServed := wantRoundsServed c + 1\<rparr>) ?x" by blast
  have x1': "theCore x1 = q_core demo_after" "fst x1 = demo_session" "en_now (snd x1) = 5"
    by (simp_all add: x1 theCore_def setCounters_def onEngine_def demo_node_def)
  have hub: "callHub (hub_maybeOffer noHubs 0 ''t'' ''me'' 1) x1 = (Inr False, x1)" by (cases x1) (simp add: noHubs_def callHub_def)
  obtain head x2 where r2: "readCore (getStream demo_env ''t'' ''me'') x1 = (head, x2)" by (rule prod.exhaust)
  obtain flr x3 where r3: "readCore (floorOf ''t'' ''me'') x2 = (flr, x3)" by (rule prod.exhaust)
  have now: "en_now (snd x3) = 5" using r2 r3 x1'(3) by (auto simp: readCore_def onEngine_def split: prod.splits)
  obtain c2 where g2: "getStream demo_env ''t'' ''me'' (q_core demo_after) = (head, c2)" "theCore x2 = c2" "fst x2 = demo_session"
    using readCore_core [OF r2] x1' by auto
  obtain c3 where g3: "floorOf ''t'' ''me'' c2 = (flr, c3)" "theCore x3 = c3" "fst x3 = demo_session"
    using readCore_core [OF r3] g2 by auto
  note i2 = inv_getStream [OF reach_core [OF demo_reach] g2(1)] and f2 = getStream_frame [OF g2(1)]
  note i3 = inv_floorOf [OF i2(1) g3(1)]
  have db: "lc_db (theCore x3) = lc_db (q_core demo_after)" "contigSeq head = 1" "flr = None"
    using f2(1) i3(2,3) i2(3) g3(2) demo_head demo_floor by simp_all
  have row: "batchFrom short_wire demo_env (lc_db (q_core demo_after)) ''t'' ''me'' 1 1 = ([demo_first], 1)"
    by (simp add: batchFrom_def entriesRange_def demo_after_log inStream_def demo_first_def demo_row_def jsBytes_def short_wire_def
        utf8ByteLength_def Let_def)
  have fields: "m_topic demo_want = ''t''" "m_writer demo_want = ''me''" "m_fromSeq demo_want = 1" "m_req demo_want = 1"
    "e_seq demo_first = 1" by (simp_all add: demo_want_def demo_first_def demo_row_def)
  let ?mk = "entriesMsg (Some 1) ''t'' ''me'' 1 1 [demo_first] True"
  obtain z where z: "dataOut short_wire demo_env ?mk x3 = (Inr True, z)" "fst z = snd (sendData short_wire demo_env 5 ?mk demo_session)"
    using now g3(3) by (simp add: dataOut_def demo_sends)
  obtain y where y: "y = noteThroughput demo_env ''t'' (ss_peerId (fst z)) 1 1 True z" by blast
  have "serveLoop short_wire demo_env demo_want 1 1 1 x3 = ok y"
    using row z db unfolding One_nat_def serveLoop.simps fields
    by (simp add: serveBatch_def fields [unfolded One_nat_def] ENTRIES_BATCH_MAX_def Let_def y)
  moreover have "serveWant noHubs short_wire demo_env 0 demo_want ?x = serveLoop short_wire demo_env demo_want 1 1 1 x3"
    using hub db unfolding serveWant_def fields x1 [symmetric] hub by (simp add: r2 r3 demo_full)
  ultimately have y1: "serveWant noHubs short_wire demo_env 0 demo_want ?x = ok y" by simp
  have "fst y = snd (sendData short_wire demo_env 5 ?mk demo_session)" using z(2) y by simp
  then have "\<not> blocked demo_env (fst y)"
    unfolding demo_sends by (simp add: blocked_def armRetry_def demo_session_def emptySession_def DEFAULT_CONSTANTS_def)
  then show thesis using that y1 by (simp add: ok_def)
qed

lemma demo_range: "rangeOf (lc_db (q_core demo_after)) ''t'' ''me'' 1 1 = [demo_first]"
  by (simp add: rangeOf_def demo_held [unfolded One_nat_def])


definition demo_reader :: LogEnv where
  "demo_reader = demo_env\<lparr>selfId := ''pa''\<rparr>"

lemma demo_ready: "ready_for demo_env demo_reader (lc_db (q_core demo_after)) [demo_first] (demo_node (newQueue empty_store)) ''t'' ''me'' 0"
proof -
  let ?d = "lc_db (LogCore_new empty_store)"
  have d: "getEntry ?d t w n = None" "pendingGet ?d t w n = None" "finalityGet ?d t = None" "getWriter ?d t w = None" for t w n
    by (simp_all add: LogCore_new_def empty_store_def empty_db_def getEntry_def pendingGet_def finalityGet_def getWriter_def)
  have "core_inv demo_reader (LogCore_new empty_store)"
    using reach_core [OF core_reach.fresh, of demo_reader] by (simp add: newQueue_def)
  then have "idle_at demo_reader (demo_node (newQueue empty_store)) ''t'' ''me'' 0 (seedOf (prims demo_reader) ''t'' ''me'')"
    using d demo_full by (simp add: idle_at_def at_head_def newQueue_def queue_ids_def storedHead_def freshHead_def prevChainOf_def)
  moreover have "valid_all demo_reader [demo_first]"
    using demo_row_valid [of "''t''" "''me''" 1 demo_hlc]
    by (simp add: valid_all_def demo_reader_def demo_first_def small_hlc_def demo_hlc_def)
  moreover have "fullMode demo_reader ''t''" using demo_registry(1) by (simp add: fullMode_def demo_reader_def)
  ultimately show ?thesis
    unfolding ready_for_def using d
    by (auto simp: lastRow_def newQueue_def admissible_all_def refusedByCert_def demo_first_def demo_row_def demo_reader_def)
qed


section \<open>A HAVE round in two pages\<close>

definition tiny_env :: LogEnv where
  "tiny_env = demo_env\<lparr>constants := DEFAULT_CONSTANTS\<lparr>MAX_FRAME_BYTES := 2, MAX_REASSEMBLY_BYTES := 2\<rparr>\<rparr>"

definition two_writers :: HaveVectors where
  "two_writers = [(''t'', \<lparr>fgen = Some 3, writers = [(''v'', VLive 1 ''c'' None), (''w'', VLive 2 ''c'' None)]\<rparr>)]"

definition one_page :: "string \<Rightarrow> nat \<Rightarrow> HaveVectors" where
  "one_page w n = [(''t'', \<lparr>fgen = Some 3, writers = [(w, VLive n ''c'' None)]\<rparr>)]"

lemma two_pages: "paginateHave short_wire tiny_env two_writers = [(1, 2, one_page ''v'' 1), (2, 2, one_page ''w'' 2)]"
  by (simp add: paginateHave_def havePages_def two_writers_def one_page_def pageTopic_def pageWriter_def jsBytes_def short_wire_def
      batchBudget_def tiny_env_def utf8ByteLength_def vecOf_def emptyVec_def Let_def)

definition asking :: "unit EW" where
  "asking = onPeer 0 (\<lambda>p. p\<lparr>ps_expectedHaveReq := Some 1\<rparr>) (demo_node (newQueue empty_store))"

theorem have_round_reassembles_witness:
  "\<exists>y seen. onHavePage noHubs short_wire tiny_env 0 (HAVE 1 1 2 (one_page ''v'' 1))
       (snd (onHavePage noHubs short_wire tiny_env 0 (HAVE 1 2 2 (one_page ''w'' 2)) asking)) =
     processPeerVectors short_wire tiny_env 0 seen y \<and> shows_same two_writers seen"
proof -
  let ?ms = "[HAVE 1 2 2 (one_page ''w'' 2), HAVE 1 1 2 (one_page ''v'' 1)]"
  have "keyed_once two_writers" "distinct ?ms" by (simp_all add: keyed_once_def two_writers_def)
  moreover have "set ?ms = (\<lambda>(k, n, v). HAVE 1 k n v) ` set (paginateHave short_wire tiny_env two_writers)"
    unfolding two_pages by auto
  moreover have "ps_expectedHaveReq (thePeer 0 asking) = Some 1" "ps_havePages (thePeer 0 asking) = []" "ps_haveBytes (thePeer 0 asking) = 0"
    by (simp_all add: asking_def thePeer_def onPeer_def demo_node_def newPeer_def)
  moreover have "pageSum short_wire ?ms \<le> MAX_REASSEMBLY_BYTES (constants tiny_env)"
    by (simp add: pageBytes_def jsBytes_def short_wire_def utf8ByteLength_def tiny_env_def)
  ultimately show ?thesis using have_round_reassembles [of two_writers ?ms 1 short_wire tiny_env 0 asking noHubs] by auto
qed

end
