(* ===== verification/Sync_Reach.thy ===== *)
theory Sync_Reach
  imports Sync
begin

text \<open>
  The engine of a node over all that can happen to it: peers come and go, frames arrive, timers fire,
  awaited results come in, other components change the log. In every state reached so, each peer
  has a bounded number of WANTs in flight and no stream is asked for twice, and what it holds of an
  unfinished HAVE round is counted right and bounded.
\<close>

section \<open>What a session does to the state behind it\<close>

lemma st_ok: "P (snd x) \<Longrightarrow> P (snd (snd (ok x)))"
  by (simp add: ok_def)

lemma st_sthen:
  assumes "P (snd (snd r))" "\<And>y. P (snd y) \<Longrightarrow> P (snd (snd (f y)))"
  shows "P (snd (snd (sthen r f)))"
  using assms by (cases r) (simp add: sthen_def split: sum.split)

lemma st_seach: "P (snd x) \<Longrightarrow> (\<And>v y. P (snd y) \<Longrightarrow> P (snd (snd (f v y)))) \<Longrightarrow> P (snd (snd (seach f vs x)))"
proof (induction vs arbitrary: x)
  case Nil
  then show ?case by (simp add: ok_def)
next
  case (Cons v vs)
  show ?case unfolding seach.simps by (rule st_sthen [of P]) (use Cons in blast)+
qed

lemma st_onSess [simp]: "snd (snd (onSess f x)) = snd x"
  by (simp add: onSess_def split: prod.split)

lemma st_upd [simp]: "snd (upd f x) = snd x"
  by (simp add: upd_def)

text \<open>A session only changes the state behind it through its callbacks.\<close>

locale client_state =
  fixes C :: "'w SessionCb" and P :: "'w \<Rightarrow> bool"
  assumes ready: "P (snd x) \<Longrightarrow> P (snd (snd (cb_onReady C x)))"
    and closing: "P (snd x) \<Longrightarrow> P (snd (cb_onClose C x))"
    and control: "P (snd x) \<Longrightarrow> P (snd (snd (cb_onControl C m x)))"
    and data: "P (snd x) \<Longrightarrow> P (snd (snd (cb_onData C m x)))"
    and capacity: "P (snd x) \<Longrightarrow> P (snd (snd (cb_onCapacity C x)))"
    and grants: "P (snd x) \<Longrightarrow> P (snd (snd (cb_onGrantsUpdated C x)))"
begin

lemmas st = st_ok [of P] st_sthen [of P] st_seach [of P]

lemma st_close: "P (snd x) \<Longrightarrow> P (snd (close C reason x))"
  by (simp add: close_def closing)

lemma st_hello_timeout: "P (snd x) \<Longrightarrow> P (snd (helloTimeout C x))"
  by (simp add: helloTimeout_def st_close)

lemma st_stall: "P (snd x) \<Longrightarrow> P (snd (stallCheck C E now x))"
  by (simp add: stallCheck_def Let_def st_close split: list.split)

lemma st_updateGrants: "P (snd x) \<Longrightarrow> P (snd (snd (updateGrants C J E gs x)))"
  by (auto simp: updateGrants_def grants split: sum.split intro!: st)

lemma st_drainBuffer: "P (snd x) \<Longrightarrow> P (snd (snd (drainBuffer C n x)))"
proof (induction n arbitrary: x)
  case (Suc n)
  then show ?case by (auto simp: Let_def data split: option.split intro!: st)
qed (simp add: st)

lemma st_drainData: "P (snd x) \<Longrightarrow> P (snd (snd (drainData C J E x)))"
  unfolding drainData_def by (rule st(2)) (simp_all add: st_drainBuffer st)

lemma st_onDataMsg: "P (snd x) \<Longrightarrow> P (snd (snd (onDataMsg C J E m x)))"
  by (auto simp: onDataMsg_def Let_def intro!: st st_drainData st_close)

lemma st_onHelloUpdate: "P (snd x) \<Longrightarrow> P (snd (snd (onHelloUpdate C J E m x)))"
  unfolding onHelloUpdate_def Let_def
proof (rule st(2), goal_cases)
  case 1
  then show ?case by (auto simp: grants intro!: st)
next
  case (2 y)
  then show ?case by (auto simp: st split: option.split sum.split WireMsg.split)
qed

lemma st_onHello: "P (snd x) \<Longrightarrow> P (snd (snd (onHello C J E m x)))"
  unfolding onHello_def Let_def
  by (auto simp: ready control intro!: st st_onHelloUpdate st_close st_drainData)

lemma st_onAck: "P (snd x) \<Longrightarrow> P (snd (snd (onAck C J E now n x)))"
  by (auto simp: onAck_def Let_def capacity intro!: st)

lemma st_dispatch: "P (snd x) \<Longrightarrow> P (snd (snd (dispatch C J E now m x)))"
  by (cases m) (simp_all add: dispatch_def st_onHello st_onAck st_onDataMsg control st)

lemma st_onRaw:
  assumes "P (snd x)" shows "P (snd (snd (onRaw C J E now raw x)))"
proof -
  have "P (snd y)" if "dispatch C J E now m x = (r, y)" for r m y
    using st_dispatch [OF assms, of J E now m] that by simp
  then show ?thesis using assms by (auto simp: onRaw_def ok_def split: sum.split prod.split)
qed

end

section \<open>What a peer's state keeps\<close>

definition keyOf :: "WantState \<Rightarrow> string" where
  "keyOf w = wantKey (wa_topic w) (wa_writer w)"

text \<open>The streams asked for: in flight, then queued.\<close>

definition asked :: "PeerState \<Rightarrow> string list" where
  "asked p = map (\<lambda>(r, w). keyOf w) (ps_activeWants p) @ map (\<lambda>(t, w). wantKey t w) (ps_wantQueue p)"

definition wants_ok :: "PeerState \<Rightarrow> bool" where
  "wants_ok p \<longleftrightarrow> length (ps_activeWants p) \<le> MAX_WANT_CONCURRENT \<and> distinct (map fst (ps_activeWants p)) \<and>
     (\<forall>r \<in> fst ` set (ps_activeWants p). r \<le> ps_wantReq p) \<and> distinct (asked p) \<and> set (ps_wantedStreams p) = set (asked p)"

definition pages_counted :: "WireJson \<Rightarrow> LogEnv \<Rightarrow> PeerState \<Rightarrow> bool" where
  "pages_counted J E p \<longleftrightarrow> distinct (map fst (ps_havePages p)) \<and>
     ps_haveBytes p = int (sum_list (map (pageBytes J \<circ> snd) (ps_havePages p))) \<and>
     ps_haveBytes p \<le> int (MAX_REASSEMBLY_BYTES (constants E))"

definition peer_ok :: "WireJson \<Rightarrow> LogEnv \<Rightarrow> PeerState \<Rightarrow> bool" where
  "peer_ok J E p \<longleftrightarrow> wants_ok p \<and> pages_counted J E p"

definition peers_ok :: "WireJson \<Rightarrow> LogEnv \<Rightarrow> 'h Engine \<Rightarrow> bool" where
  "peers_ok J E e \<longleftrightarrow> (\<forall>i. peer_ok J E (en_ps e i))"

abbreviation good :: "WireJson \<Rightarrow> LogEnv \<Rightarrow> 'h EW \<Rightarrow> bool" where
  "good J E x \<equiv> peers_ok J E (snd x)"

named_theorems good_rules "operations that keep what the peers' states promise"

lemmas good_basic [good_rules] = st_ok [of "peers_ok J E" for J E]

lemma good_sthen [good_rules]:
  "good J E (snd r) \<Longrightarrow> (\<And>y. good J E y \<Longrightarrow> good J E (snd (f y))) \<Longrightarrow> good J E (snd (sthen r f))"
  by (rule st_sthen)

lemma good_seach [good_rules]:
  "good J E x \<Longrightarrow> (\<And>v y. good J E y \<Longrightarrow> good J E (snd (f v y))) \<Longrightarrow> good J E (snd (seach f vs x))"
  by (rule st_seach)

lemma good_onPeer: "good J E x \<Longrightarrow> (peer_ok J E (thePeer i x) \<Longrightarrow> peer_ok J E (f (thePeer i x))) \<Longrightarrow> good J E (onPeer i f x)"
  by (simp add: peers_ok_def onPeer_def thePeer_def)

lemma good_onEngine: "good J E x \<Longrightarrow> (\<And>e. en_ps (f e) = en_ps e) \<Longrightarrow> good J E (onEngine f x)"
  by (simp add: peers_ok_def onEngine_def)

text \<open>The fields the promises do not speak of.\<close>

lemma peer_ok_fields [simp]:
  "peer_ok J E (p\<lparr>ps_lastActivity := a1\<rparr>) = peer_ok J E p" "peer_ok J E (p\<lparr>ps_haveReq := a2\<rparr>) = peer_ok J E p"
  "peer_ok J E (p\<lparr>ps_expectedHaveReq := a3\<rparr>) = peer_ok J E p" "peer_ok J E (p\<lparr>ps_captured := a4\<rparr>) = peer_ok J E p"
  "peer_ok J E (p\<lparr>ps_recoveryProgress := a5\<rparr>) = peer_ok J E p" "peer_ok J E (p\<lparr>ps_syncProgress := a6\<rparr>) = peer_ok J E p"
  "peer_ok J E (p\<lparr>ps_stalled := a7\<rparr>) = peer_ok J E p" "peer_ok J E (p\<lparr>ps_antiEntropyTimer := a8\<rparr>) = peer_ok J E p"
  "peer_ok J E (p\<lparr>ps_probes := a9\<rparr>) = peer_ok J E p" "peer_ok J E (p\<lparr>ps_known := b1\<rparr>) = peer_ok J E p"
  "peer_ok J E (p\<lparr>ps_dirty := b2\<rparr>) = peer_ok J E p" "peer_ok J E (p\<lparr>ps_pumpTimer := b3\<rparr>) = peer_ok J E p"
  "peer_ok J E (p\<lparr>ps_unservable := b4\<rparr>) = peer_ok J E p"
  by (simp_all add: peer_ok_def wants_ok_def asked_def pages_counted_def)

lemma control_w [simp]: "snd (snd (control J E m x)) = snd x" by (simp add: control_def)
lemma ask_w [simp]: "snd (snd (ask J E k m x)) = snd x" by (simp add: ask_def)
lemma satisfied_w [simp]: "snd (satisfied k x) = snd x" by (simp add: satisfied_def)
lemma dataOut_w: "dataOut J E mk x = (r, y) \<Longrightarrow> snd y = snd x" by (auto simp: dataOut_def split: prod.splits)
lemma readCore_ps: "readCore f x = (v, y) \<Longrightarrow> en_ps (snd y) = en_ps (snd x)" by (auto simp: readCore_def onEngine_def split: prod.splits)

lemma good_readCore: "readCore f x = (v, y) \<Longrightarrow> good J E x \<Longrightarrow> good J E y"
  by (simp add: peers_ok_def readCore_ps)

lemma good_control [good_rules]: "good J E x \<Longrightarrow> good J E (snd (control J' E' m x))" by simp
lemma good_ask [good_rules]: "good J E x \<Longrightarrow> good J E (snd (ask J' E' k m x))" by simp
lemma good_satisfied [good_rules]: "good J E x \<Longrightarrow> good J E (satisfied k x)" by simp
lemma good_setCounters [good_rules]: "good J E x \<Longrightarrow> good J E (setCounters t f x)"
  unfolding setCounters_def by (rule good_onEngine) simp_all
lemma good_anomalyOut [good_rules]: "good J E x \<Longrightarrow> good J E (anomalyOut a x)"
  unfolding anomalyOut_def by (rule good_onEngine) simp_all
lemma good_noteThroughput [good_rules]: "good J E x \<Longrightarrow> good J E (noteThroughput E' t p n b s x)"
  unfolding noteThroughput_def Let_def
  by (split if_split, intro conjI impI good_anomalyOut good_onEngine good_setCounters) (simp_all add: if_splits)
lemma good_bumpRetention [good_rules]: "good J E x \<Longrightarrow> good J E (bumpRetention t k x)"
  unfolding bumpRetention_def by (rule good_onEngine) simp_all
lemma good_reportUnavailable [good_rules]: "good J E x \<Longrightarrow> good J E (reportUnavailable t w x)"
  unfolding reportUnavailable_def by (rule good_onEngine) (simp_all add: Let_def)
lemma good_countRejects [good_rules]: "good J E x \<Longrightarrow> good J E (countRejects t rs x)"
  by (induction rs arbitrary: x) (simp_all add: good_onEngine)
lemma good_recordAcks [good_rules]: "good J E x \<Longrightarrow> good J E (recordAcks E' vs x)"
  by (auto simp: recordAcks_def Let_def intro!: good_onEngine split: option.split prod.split)
lemma good_touch [good_rules]: "good J E x \<Longrightarrow> good J E (touch i x)"
  unfolding touch_def by (rule good_onPeer) simp_all
lemma good_schedulePump [good_rules]: "good J E x \<Longrightarrow> good J E (schedulePump i d x)"
  unfolding schedulePump_def by (rule good_onPeer) simp_all
lemma good_dropDirty [good_rules]: "good J E x \<Longrightarrow> good J E (dropDirty i k x)"
  unfolding dropDirty_def by (rule good_onPeer) simp_all
lemma good_markDirty [good_rules]: "good J E x \<Longrightarrow> good J E (markDirty i t w d x)"
  by (simp add: markDirty_def Let_def good_schedulePump good_onPeer)
lemma good_callHub [good_rules]: "good J E x \<Longrightarrow> good J E (snd (callHub f x))"
  by (auto simp: callHub_def peers_ok_def split: prod.split)

section \<open>The WANTs of a peer\<close>

lemma asked_fields [simp]:
  "asked (p\<lparr>ps_wantReq := n\<rparr>) = asked p" "asked (p\<lparr>ps_wantedStreams := ws\<rparr>) = asked p"
  by (simp_all add: asked_def)

text \<open>The queue's head goes in flight under a new number.\<close>

lemma want_sent:
  assumes "wants_ok p" "ps_wantQueue p = (t, w) # q" "length (ps_activeWants p) < MAX_WANT_CONCURRENT"
  shows "wants_ok (p\<lparr>ps_wantQueue := q, ps_wantReq := ps_wantReq p + 1,
     ps_activeWants := AList.update (ps_wantReq p + 1) \<lparr>wa_topic = t, wa_writer = w, wa_fromSeq = k\<rparr> (ps_activeWants p)\<rparr>)"
proof -
  have new: "ps_wantReq p + 1 \<notin> fst ` set (ps_activeWants p)" using assms(1) by (force simp: wants_ok_def)
  have upd: "AList.update r v al = al @ [(r, v)]" if "r \<notin> fst ` set al" for r v and al :: "(int \<times> WantState) list"
    using that by (induction al) auto
  show ?thesis
    using assms unfolding wants_ok_def upd [OF new] asked_def by (auto simp: keyOf_def)
qed

lemma want_skipped:
  "wants_ok p \<Longrightarrow> ps_wantQueue p = (t, w) # q \<Longrightarrow>
   wants_ok (p\<lparr>ps_wantQueue := q, ps_wantedStreams := removeAll (wantKey t w) (ps_wantedStreams p)\<rparr>)"
  by (auto simp: wants_ok_def asked_def)

lemma want_queued:
  "wants_ok p \<Longrightarrow> wantKey t w \<notin> set (ps_wantedStreams p) \<Longrightarrow>
   wants_ok (p\<lparr>ps_wantedStreams := ps_wantedStreams p @ [wantKey t w], ps_wantQueue := ps_wantQueue p @ [(t, w)]\<rparr>)"
  by (auto simp: wants_ok_def asked_def)

lemma want_finished:
  assumes p: "wants_ok p" and w: "map_of (ps_activeWants p) r = Some w"
  shows "wants_ok (p\<lparr>ps_activeWants := AList.delete r (ps_activeWants p),
     ps_wantedStreams := removeAll (keyOf w) (ps_wantedStreams p)\<rparr>)"
proof -
  have d: "distinct (map fst (ps_activeWants p))" using p by (simp add: wants_ok_def)
  obtain a b where ab: "ps_activeWants p = a @ (r, w) # b" using map_of_SomeD [OF w] by (metis split_list)
  then have "r \<notin> fst ` set a" "r \<notin> fst ` set b" using d by auto
  moreover have "filter (\<lambda>(k', _). r \<noteq> k') l = l" if "r \<notin> fst ` set l" for l :: "(int \<times> WantState) list"
    using that by (induction l) auto
  ultimately have del: "AList.delete r (ps_activeWants p) = a @ b" unfolding ab by (simp add: AList.delete_eq)
  show ?thesis using p unfolding wants_ok_def del unfolding ab asked_def by (auto simp: ab)
qed

lemma counted_fields [simp]:
  "pages_counted J E (p\<lparr>ps_wantReq := n\<rparr>) = pages_counted J E p" "pages_counted J E (p\<lparr>ps_activeWants := a\<rparr>) = pages_counted J E p"
  "pages_counted J E (p\<lparr>ps_wantQueue := q\<rparr>) = pages_counted J E p" "pages_counted J E (p\<lparr>ps_wantedStreams := ws\<rparr>) = pages_counted J E p"
  by (simp_all add: pages_counted_def)

lemma sendWant_ps:
  "en_ps (snd (snd (sendWant J E i t w k x))) = (en_ps (snd x))(i := (thePeer i x)\<lparr>ps_wantReq := ps_wantReq (thePeer i x) + 1,
     ps_activeWants := AList.update (ps_wantReq (thePeer i x) + 1) \<lparr>wa_topic = t, wa_writer = w, wa_fromSeq = k\<rparr> (ps_activeWants (thePeer i x))\<rparr>)"
  by (simp add: sendWant_def Let_def setCounters_def onEngine_def onPeer_def thePeer_def)

lemma good_pumpWantsLoop [good_rules]: "good J E x \<Longrightarrow> good J E (snd (pumpWantsLoop J' E' i n x))"
proof (induction n arbitrary: x)
  case (Suc n)
  have now: "peer_ok J E (thePeer i x)" using Suc.prems by (simp add: peers_ok_def thePeer_def)
  show ?case
  proof (cases "length (ps_activeWants (thePeer i x)) \<ge> MAX_WANT_CONCURRENT \<or> ps_wantQueue (thePeer i x) = []")
    case True
    then show ?thesis using Suc.prems by (auto simp: ok_def)
  next
    case False
    then obtain t w q where q: "ps_wantQueue (thePeer i x) = (t, w) # q" and few: "length (ps_activeWants (thePeer i x)) < MAX_WANT_CONCURRENT"
      by (metis neq_Nil_conv not_le surj_pair)
    let ?x = "onPeer i (\<lambda>p. p\<lparr>ps_wantQueue := q\<rparr>) x"
    obtain head x1 where r: "readCore (getStream E' t w) ?x = (head, x1)" by (rule prod.exhaust)
    have ps: "en_ps (snd x1) = (en_ps (snd x))(i := (thePeer i x)\<lparr>ps_wantQueue := q\<rparr>)"
      using readCore_ps [OF r] by (simp add: onPeer_def thePeer_def)
    have skip: "good J E (onPeer i (\<lambda>p. p\<lparr>ps_wantedStreams := removeAll (wantKey t w) (ps_wantedStreams p)\<rparr>) x1)"
      using Suc.prems now want_skipped [OF _ q] unfolding peers_ok_def
      by (auto simp: onPeer_def ps peer_ok_def)
    have send: "good J E (snd (sendWant J' E' i t w k x1))" for k
      using Suc.prems now want_sent [OF _ q few] unfolding peers_ok_def sendWant_ps
      by (auto simp: ps thePeer_def peer_ok_def)
    show ?thesis
      using few q skip send by (auto simp: r Let_def intro!: Suc.IH good_rules)
  qed
qed (simp add: good_rules)

lemma good_pumpWants [good_rules]: "good J E x \<Longrightarrow> good J E (snd (pumpWants J' E' i x))"
  by (simp add: pumpWants_def good_pumpWantsLoop)

lemma good_queueWant [good_rules]: "good J E x \<Longrightarrow> good J E (snd (queueWant J' E' i t w x))"
  using want_queued by (auto simp: queueWant_def peer_ok_def intro!: good_rules good_onPeer)

lemma good_finishWant [good_rules]: "good J E x \<Longrightarrow> good J E (snd (finishWant J' E' i r x))"
  using want_finished by (auto simp: finishWant_def peer_ok_def keyOf_def thePeer_def intro!: good_rules good_onPeer split: option.split)

section \<open>The other operations\<close>

lemma good_startHaveRound [good_rules]: "good J E x \<Longrightarrow> good J E (snd (startHaveRound J' E' i x))"
  unfolding startHaveRound_def Let_def
  by (intro good_ask good_onPeer) (simp_all add: peer_ok_def wants_ok_def asked_def pages_counted_def)

lemma good_dataOut: "dataOut J' E' mk x = (r, y) \<Longrightarrow> good J E x \<Longrightarrow> good J E y"
  by (simp add: dataOut_w)

lemma good_pushBatch: "pushBatch J' E' i key t w to p x = (r, y) \<Longrightarrow> good J E x \<Longrightarrow> good J E y"
  by (auto simp: pushBatch_def Let_def dest!: good_dataOut [where J = J and E = E] intro!: good_rules good_onPeer
      split: prod.splits sum.splits bool.splits if_splits)

lemma good_pumpDirtyLoop [good_rules]: "good J E x \<Longrightarrow> good J E (snd (pumpDirtyLoop J' E' i fu ds x))"
proof (induction ds arbitrary: fu x)
  case (Cons d ds)
  obtain key topic writer readyAt where d: "d = (key, topic, writer, readyAt)" by (cases d) auto
  obtain head x1 where r1: "readCore (getStream E' topic writer) x = (head, x1)" by (rule prod.exhaust)
  obtain flr x2 where r2: "readCore (floorOf topic writer) x1 = (flr, x2)" by (rule prod.exhaust)
  obtain p where p: "p = batchFrom J' E' (lc_db (theCore x2)) topic writer (knownOf i key x1 + 1)
      (min (contigSeq head) (knownOf i key x1 + ENTRIES_BATCH_MAX))" by blast
  obtain r x3 where out: "pushBatch J' E' i key topic writer (contigSeq head) p x2 = (r, x3)" by (rule prod.exhaust)
  have g: "good J E x1" "good J E x2" using good_readCore [OF r1] good_readCore [OF r2] Cons.prems by blast+
  have "good J E x3" using good_pushBatch [OF out] g by simp
  then show ?case
    using Cons.prems g
    by (simp add: d r1 r2 p [symmetric] out Let_def good_rules Cons.IH del: One_nat_def
        split: option.split sum.split bool.split)
qed (simp add: good_rules split: option.split)

lemma good_pumpDirty [good_rules]: "good J E x \<Longrightarrow> good J E (snd (pumpDirty J' E' i x))"
  by (simp add: pumpDirty_def good_rules)

lemma good_serveBatch: "serveBatch J' E' m to k p x = (r, y) \<Longrightarrow> good J E x \<Longrightarrow> good J E y"
  by (auto simp: serveBatch_def dest!: good_dataOut [where J = J and E = E] intro!: good_rules split: prod.splits sum.splits bool.splits)

lemma good_serveLoop [good_rules]: "good J E x \<Longrightarrow> good J E (snd (serveLoop J' E' m n to k x))"
proof (induction n arbitrary: k x)
  case (Suc n)
  obtain p where p: "p = batchFrom J' E' (lc_db (theCore x)) (m_topic m) (m_writer m) k (min to (k + ENTRIES_BATCH_MAX - 1))"
    by blast
  obtain r y where out: "serveBatch J' E' m to k p x = (r, y)" by (rule prod.exhaust)
  have "good J E y" using good_serveBatch [OF out Suc.prems] .
  then show ?case
    using Suc.prems
    by (simp add: p [symmetric] out Let_def good_rules Suc.IH del: One_nat_def split: sum.split bool.split)
qed (simp add: good_rules)

lemma good_locateFork [good_rules]: "good J E x \<Longrightarrow> good J E (snd (locateFork J' E' i t w n x))"
  by (auto simp: locateFork_def Let_def intro!: good_rules good_onPeer)

lemma good_sealStream [good_rules]: "good J E x \<Longrightarrow> good J E (snd (sealStream E' t w x))"
  by (auto simp: sealStream_def intro!: good_rules good_onEngine split: sum.split)

lemma good_onProbeRes [good_rules]: "good J E x \<Longrightarrow> good J E (onProbeRes i m x)"
  by (auto simp: onProbeRes_def Let_def intro!: good_rules good_onPeer good_onEngine split: option.split prod.split)

lemma good_pushDirective [good_rules]: "good J E x \<Longrightarrow> good J E (snd (pushDirective J' E' h v t w x))"
  by (simp add: pushDirective_def good_rules split: option.split)

lemma good_wantForRecovery [good_rules]: "good J E x \<Longrightarrow> good J E (snd (wantForRecovery J' E' i t w x))"
  by (simp add: wantForRecovery_def good_rules)

lemma good_processWriter [good_rules]: "good J E x \<Longrightarrow> good J E (snd (processWriter J' E' i t p x))"
proof -
  assume u: "good J E x"
  obtain head x1 where r: "readCore (getStream E' t (fst p)) x = (head, x1)" by (rule prod.exhaust)
  have "good J E x1" using u good_readCore [OF r] by simp
  then show ?thesis
    using r by (cases p; cases "snd p") (auto simp: processWriter_def intro!: good_rules good_onPeer)
qed

lemma good_processTopic [good_rules]: "good J E x \<Longrightarrow> good J E (snd (processTopic J' E' i p x))"
proof -
  assume u: "good J E x"
  obtain c x1 where r: "readCore (getCert (fst p)) x = (c, x1)" by (rule prod.exhaust)
  have "good J E x1" using u good_readCore [OF r] by simp
  then show ?thesis
    using u r by (cases p; cases c) (auto simp: processTopic_def Let_def intro!: good_rules)
qed

lemma good_processPeerVectors [good_rules]: "good J E x \<Longrightarrow> good J E (snd (processPeerVectors J' E' i vs x))"
  by (simp add: processPeerVectors_def good_rules)

lemma good_emptyEntries [good_rules]: "good J E x \<Longrightarrow> good J E (snd (emptyEntries J' E' m to x))"
  by (auto simp: emptyEntries_def dest!: good_dataOut [where J = J and E = E] intro!: good_rules split: prod.split sum.split)

lemma good_serveBelowFloor [good_rules]: "good J E x \<Longrightarrow> good J E (snd (serveBelowFloor J' E' i m f to x))"
  by (auto simp: serveBelowFloor_def Let_def intro!: good_rules good_onPeer)

lemma good_sendPage [good_rules]: "good J E x \<Longrightarrow> good J E (snd (sendPage J' E' r p x))"
  by (cases p) (simp add: sendPage_def good_rules)

lemma good_serveHave [good_rules]: "good J E x \<Longrightarrow> good J E (snd (serveHave J' E' i m x))"
proof -
  assume u: "good J E x"
  obtain full y where r: "readCore (vectors E' (en_now (snd x))) x = (full, y)" by (rule prod.exhaust)
  have "good J E y" using good_readCore [OF r u] .
  then show ?thesis using u by (auto simp: serveHave_def r Let_def intro!: good_rules good_onPeer split: option.split prod.split)
qed

lemma good_onTruncated [good_rules]: "good J E x \<Longrightarrow> good J E (snd (onTruncated J' E' i m x))"
  by (auto simp: onTruncated_def Let_def intro!: good_rules good_onEngine split: option.split sum.split)

lemma good_floorSettled [good_rules]: "good J E x \<Longrightarrow> good J E (snd (floorSettled J' E' i m k b x))"
  by (auto simp: floorSettled_def intro!: good_rules dest!: good_readCore [where J = J and E = E] split: prod.split)

lemma good_applyEntries: "applyEntries J' E' m raws ts x = ((r, y), ts') \<Longrightarrow> good J E x \<Longrightarrow> good J E y"
proof (induction raws arbitrary: ts x)
  case (Cons raw raws)
  show ?case
  proof (cases "validateEntry (prims E') (constants E') raw")
    case (Inl c)
    obtain r1 y1 where c: "control J' E' (errMsg c (Some (m_topic m @ ''/'' @ m_writer m)) None) x = (r1, y1)"
      by (rule prod.exhaust)
    have "snd y1 = snd x" using control_w [of J' E' "errMsg c (Some (m_topic m @ ''/'' @ m_writer m)) None" x] unfolding c by simp
    then have "good J E y1" using Cons.prems(2) by simp
    then show ?thesis
      using Cons.prems(1) Cons.IH [of ts y1] unfolding applyEntries.simps Inl sum.case c prod.case
      by (auto split: sum.splits)
  next
    case (Inr e)
    have "good J E (onEngine (\<lambda>s. s\<lparr>en_log := q\<rparr>) x)" for q using Cons.prems(2) by (rule good_onEngine) simp
    then show ?thesis
      using Cons.prems Cons.IH by (auto simp: Inr Let_def split: if_splits sum.splits)
  qed
qed (simp add: ok_def)

lemma good_onEntries [good_rules]:
  assumes "good J E x" shows "good J E (snd (onEntries J' E' i m x))"
proof -
  let ?key = "knownKey (m_topic m) (m_writer m)"
  obtain x1 where x1: "x1 = (if knownOf i ?key x < m_toSeq m then onPeer i (\<lambda>p. p\<lparr>ps_known := (ps_known p)(?key \<mapsto> m_toSeq m)\<rparr>) x else x)"
    by blast
  obtain r y ts where a: "applyEntries J' E' m (m_entries m) [] x1 = ((r, y), ts)" by (metis surj_pair)
  have "good J E x1" using assms by (auto simp: x1 intro!: good_onPeer)
  then have "good J E y" using good_applyEntries [OF a] by simp
  then show ?thesis
    using assms by (auto simp: onEntries_def Let_def x1 [symmetric] a intro!: good_rules good_onEngine split: sum.split)
qed

lemma good_serveProbe [good_rules]: "good J E x \<Longrightarrow> good J E (snd (serveProbe J' E' m x))"
  by (auto simp: serveProbe_def intro!: good_rules dest!: good_readCore [where J = J and E = E] split: prod.split)

lemma good_skipHub [good_rules]: "good J E x \<Longrightarrow> good J E (snd (skipHub f c x))"
  by (simp add: skipHub_def good_rules)

lemma good_afterRecoveryRound [good_rules]: "good J E x \<Longrightarrow> good J E (snd (afterRecoveryRound J' E' i t w n x))"
  by (auto simp: afterRecoveryRound_def Let_def intro!: good_rules good_onPeer)

lemma good_afterShortRound [good_rules]: "good J E x \<Longrightarrow> good J E (snd (afterShortRound J' E' i t w n x))"
  by (auto simp: afterShortRound_def Let_def intro!: good_rules good_onPeer)

lemma good_afterWant [good_rules]: "good J E x \<Longrightarrow> good J E (snd (afterWant J' E' i m x))"
  by (auto simp: afterWant_def Let_def intro!: good_rules good_onPeer dest!: good_readCore [where J = J and E = E] split: prod.split)

lemma good_entriesSettled [good_rules]: "good J E x \<Longrightarrow> good J E (snd (entriesSettled J' E' i m ts x))"
  by (auto simp: entriesSettled_def Let_def intro!: good_rules split: option.split bool.split)

section \<open>Pages and closing\<close>

lemma good_onClosed: "good J E x \<Longrightarrow> good J E (onClosed H i x)"
  unfolding onClosed_def by (intro good_onEngine good_callHub) (auto intro!: good_onPeer)

lemma good_closePeer: "good J E x \<Longrightarrow> good J E (closePeer H i r x)"
  by (simp add: closePeer_def good_onClosed)

lemma page_dropped:
  "peer_ok J E p \<Longrightarrow> peer_ok J E (p\<lparr>ps_havePages := [], ps_haveBytes := 0, ps_expectedHaveReq := None\<rparr>)"
  by (simp add: peer_ok_def wants_ok_def asked_def pages_counted_def)

text \<open>A page that comes again replaces its first copy.\<close>

lemma sum_update:
  "distinct (map fst al) \<Longrightarrow> int (sum_list (map (f \<circ> snd) (AList.update k v al))) =
     int (sum_list (map (f \<circ> snd) al)) + int (f v) - (case map_of al k of None \<Rightarrow> 0 | Some u \<Rightarrow> int (f u))"
proof (induction al)
  case (Cons p al)
  obtain k' u where p: "p = (k', u)" by (cases p)
  show ?case
  proof (cases "k' = k")
    case False
    then show ?thesis using Cons by (auto simp: p split: option.splits)
  qed (simp add: p)
qed simp

lemma page_taken:
  assumes "peer_ok J E p" and b: "b = ps_haveBytes p + int (pageBytes J m) -
      (case map_of (ps_havePages p) k of None \<Rightarrow> 0 | Some prev \<Rightarrow> int (pageBytes J prev))"
    and "b \<le> int (MAX_REASSEMBLY_BYTES (constants E))"
  shows "peer_ok J E (p\<lparr>ps_havePages := AList.update k m (ps_havePages p), ps_haveBytes := b\<rparr>)"
proof -
  have d: "distinct (map fst (ps_havePages p))" "ps_haveBytes p = int (sum_list (map (pageBytes J \<circ> snd) (ps_havePages p)))"
    using assms(1) by (simp_all add: peer_ok_def pages_counted_def)
  then have "b = int (sum_list (map (pageBytes J \<circ> snd) (AList.update k m (ps_havePages p))))"
    unfolding sum_update [OF d(1)] b by simp
  then show ?thesis
    using assms(1,3) distinct_update [OF d(1)] by (simp add: peer_ok_def wants_ok_def asked_def pages_counted_def)
qed

lemma good_onHavePage:
  assumes x: "good J E x" shows "good J E (snd (onHavePage H J E i m x))"
proof (cases "Some (m_req m) = ps_expectedHaveReq (thePeer i x)")
  case True
  obtain b where b: "b = ps_haveBytes (thePeer i x) + int (pageBytes J m) -
      (case map_of (ps_havePages (thePeer i x)) (m_page m) of None \<Rightarrow> 0 | Some prev \<Rightarrow> int (pageBytes J prev))" by blast
  have taken: "good J E (onPeer i (\<lambda>p. p\<lparr>ps_havePages := AList.update (m_page m) m (ps_havePages (thePeer i x)), ps_haveBytes := b\<rparr>) x)"
    if "b \<le> int (MAX_REASSEMBLY_BYTES (constants E))"
    using page_taken [OF _ b that] by (intro good_onPeer [OF x]) blast
  have dropped: "good J E (onPeer i (\<lambda>p. p\<lparr>ps_havePages := [], ps_haveBytes := 0, ps_expectedHaveReq := None\<rparr>) y)" if "good J E y" for y
    using page_dropped by (rule good_onPeer [OF that])
  show ?thesis
    using True taken x by (auto simp: onHavePage_def Let_def b [symmetric] intro!: good_rules good_closePeer dropped)
qed (simp add: onHavePage_def Let_def good_rules x)

lemma good_serveWant: "good J E x \<Longrightarrow> good J E (snd (serveWant H J' E' i m x))"
proof -
  assume x: "good J E x"
  obtain x0 where x0: "x0 = setCounters (m_topic m) (\<lambda>c. c\<lparr>wantRoundsServed := wantRoundsServed c + 1\<rparr>) x" by blast
  obtain r x1 where h: "callHub (hub_maybeOffer H i (m_topic m) (m_writer m) (m_fromSeq m)) x0 = (r, x1)" by (rule prod.exhaust)
  obtain head x2 where r2: "readCore (getStream E' (m_topic m) (m_writer m)) x1 = (head, x2)" by (rule prod.exhaust)
  obtain flr x3 where r3: "readCore (floorOf (m_topic m) (m_writer m)) x2 = (flr, x3)" by (rule prod.exhaust)
  have "good J E x0" using x by (simp add: x0 good_setCounters)
  then have u1: "good J E x1" using good_callHub [of J E x0 "hub_maybeOffer H i (m_topic m) (m_writer m) (m_fromSeq m)"] h by simp
  then have "good J E x2" "good J E x3" using good_readCore [OF r2] good_readCore [OF r3] by blast+
  then show ?thesis
    using x u1 unfolding serveWant_def x0 [symmetric] h
    by (simp add: r2 r3 good_rules split: sum.split option.split)
qed

section \<open>The callbacks, and the node\<close>

lemma good_onControl: "good J E x \<Longrightarrow> good J E (snd (onControl H J E i m x))"
  unfolding onControl_def Let_def
  by (cases m) (auto intro!: good_rules good_onHavePage good_serveWant good_onEngine)

lemma good_onData: "good J E x \<Longrightarrow> good J E (snd (onData H J E i m x))"
  unfolding onData_def Let_def
  by (cases m) (auto intro!: good_rules)

lemma good_onReady: "good J E x \<Longrightarrow> good J E (snd (onReady J E i x))"
  by (auto simp: onReady_def intro!: good_rules good_onPeer)

lemma good_onCapacity: "good J E x \<Longrightarrow> good J E (snd (onCapacity H J E i x))"
  by (auto simp: onCapacity_def intro!: good_rules)

lemma good_onGrantsUpdated: "good J E x \<Longrightarrow> good J E (snd (onGrantsUpdated J E i x))"
  by (auto simp: onGrantsUpdated_def intro!: good_rules)

interpretation engine_state: client_state "engineCb H J E i" "peers_ok J E" for H J E i
  by unfold_locales
    (simp_all add: engineCb_def good_onReady good_onClosed good_onControl good_onData good_onCapacity good_onGrantsUpdated)

text \<open>
  One step of a node: a peer attached or detached, a frame at one of its sessions, the timers of a
  session and of the engine, an awaited result, what the log and the hubs report, new grants. In
  \<open>outside\<close> everything else of the engine may change: the log, the clock, counters, hubs.
\<close>

definition closeAt :: "'w SessionCb \<Rightarrow> ('w SW \<Rightarrow> 'w SW) \<Rightarrow> nat \<Rightarrow> (nat \<Rightarrow> Session) \<times> 'w \<Rightarrow> (nat \<Rightarrow> Session) \<times> 'w" where
  "closeAt C f i N = (case f (fst N i, snd N) of (s, e) \<Rightarrow> ((fst N)(i := s), e))"

inductive net_step :: "'h Hubs \<Rightarrow> WireJson \<Rightarrow> LogEnv \<Rightarrow> 'h Net \<Rightarrow> 'h Net \<Rightarrow> bool" for H J E where
  attach: "attach J E i p cls gs N = (Inr (), N') \<Longrightarrow> net_step H J E N N'"
| frame: "net_step H J E N (snd (atPeer i (onRaw (engineCb H J E i) J E (en_now (snd N)) raw) N))"
| regrant: "net_step H J E N (snd (atPeer i (updateGrants (engineCb H J E i) J E gs) N))"
| detach: "net_step H J E N (closeAt (engineCb H J E i) (close (engineCb H J E i) reason) i N)"
| helloTimer: "net_step H J E N (closeAt (engineCb H J E i) (helloTimeout (engineCb H J E i)) i N)"
| stallTimer: "net_step H J E N (closeAt (engineCb H J E i) (stallCheck (engineCb H J E i) E (en_now (snd N))) i N)"
| retryTimer: "net_step H J E N (closeAt (engineCb H J E i) (upd (retryUnacked E (en_now (snd N)))) i N)"
| requestTimer: "net_step H J E N (snd (atPeer i (onSess (requestTimer J E key)) N))"
| antiEntropy: "net_step H J E N (snd (atPeer i (antiEntropyTick J E i) N))"
| pumpTimer: "net_step H J E N (snd (atPeer i (pumpTick J E i) N))"
| resume: "w \<in> set (en_waits (snd N)) \<Longrightarrow> net_step H J E N (snd (resumeWait J E w N))"
| applied: "net_step H J E N (snd (handleApplied E e via N))"
| cert: "net_step H J E N (snd (broadcastCert J E t c N))"
| directive: "net_step H J E N (snd (broadcastDirective J E d N))"
| recovery: "net_step H J E N (snd (directiveApplied J E d r N))"
| refresh: "net_step H J E N (snd (refreshRounds J E N))"
| closeAll: "net_step H J E N (snd (closeAll H N))"
| outside: "en_ps e = en_ps (snd N) \<Longrightarrow> en_peers e = en_peers (snd N) \<Longrightarrow> net_step H J E N (fst N, e)"

inductive net_reach :: "'h Hubs \<Rightarrow> WireJson \<Rightarrow> LogEnv \<Rightarrow> 'h Net \<Rightarrow> bool" for H J E where
  start: "en_peers (snd N) = [] \<Longrightarrow> \<forall>i. \<exists>now. en_ps (snd N) i = newPeer now \<Longrightarrow> net_reach H J E N"
| step: "net_reach H J E N \<Longrightarrow> net_step H J E N N' \<Longrightarrow> net_reach H J E N'"

lemma newPeer_ok: "peer_ok J E (newPeer now)"
  by (simp add: peer_ok_def wants_ok_def asked_def pages_counted_def newPeer_def MAX_WANT_CONCURRENT_def)

lemma good_atPeer:
  "peers_ok J E (snd N) \<Longrightarrow> (\<And>x. good J E x \<Longrightarrow> good J E (snd (f x))) \<Longrightarrow> peers_ok J E (snd (snd (atPeer i f N)))"
  by (auto simp: atPeer_def split: prod.split) (metis snd_conv)

lemma good_eachPeer:
  "peers_ok J E (snd N) \<Longrightarrow> (\<And>i x. good J E x \<Longrightarrow> good J E (snd (f i x))) \<Longrightarrow> peers_ok J E (snd (snd (eachPeer f is N)))"
  unfolding eachPeer_def by (rule st_seach [of "peers_ok J E"]) (simp_all add: good_atPeer)

lemma good_closeAt:
  "peers_ok J E (snd N) \<Longrightarrow> (\<And>x. good J E x \<Longrightarrow> good J E (f x)) \<Longrightarrow> peers_ok J E (snd (closeAt C f i N))"
  by (auto simp: closeAt_def split: prod.split) (metis snd_conv)

lemma good_whenFull [good_rules]: "good J E x \<Longrightarrow> (\<And>y. good J E y \<Longrightarrow> good J E (snd (f y))) \<Longrightarrow> good J E (snd (whenFull t f x))"
  by (simp add: whenFull_def good_rules)

lemma good_handleApplied: "peers_ok J E (snd N) \<Longrightarrow> peers_ok J E (snd (snd (handleApplied E' e via N)))"
  by (auto simp: handleApplied_def intro!: good_eachPeer good_rules st_ok [of "peers_ok J E"] split: sum.split)

lemma good_resumeWait: "peers_ok J E (snd N) \<Longrightarrow> peers_ok J E (snd (snd (resumeWait J E w N)))"
proof -
  assume n: "peers_ok J E (snd N)"
  have "peers_ok J E ((snd N)\<lparr>en_waits := l\<rparr>)" for l using n by (simp add: peers_ok_def)
  then show ?thesis
    using n by (auto simp: resumeWait_def Let_def ok_def intro!: good_atPeer good_entriesSettled good_floorSettled
        split: Wait.split option.split)
qed

lemma good_step: "net_step H J E N N' \<Longrightarrow> peers_ok J E (snd N) \<Longrightarrow> peers_ok J E (snd N')"
proof (induction rule: net_step.induct)
  case (attach i p cls gs N N')
  then show ?case by (auto simp: attach_def ok_def peers_ok_def newPeer_ok split: sum.splits)
next
  case (requestTimer N i key)
  then show ?case by (intro good_atPeer) simp_all
next
  case (antiEntropy N i)
  then show ?case by (intro good_atPeer) (auto simp: antiEntropyTick_def intro!: good_rules good_onPeer)
next
  case (pumpTimer N i)
  then show ?case by (intro good_atPeer) (auto simp: pumpTick_def intro!: good_rules good_onPeer split: option.split)
next
  case (recovery N d r)
  then show ?case by (auto simp: directiveApplied_def intro!: good_eachPeer good_rules st_ok [of "peers_ok J E"])
next
  case (closeAll N)
  then show ?case by (auto simp: closeAll_def intro!: good_eachPeer good_rules good_closePeer)
next
  case (outside e N)
  then show ?case by (simp add: peers_ok_def)
qed (auto simp: broadcastCert_def broadcastDirective_def refreshRounds_def
    intro!: good_atPeer good_eachPeer good_closeAt good_rules engine_state.st_onRaw engine_state.st_updateGrants
      engine_state.st_close engine_state.st_hello_timeout engine_state.st_stall good_resumeWait good_handleApplied)

lemma reach_good: "net_reach H J E N \<Longrightarrow> peers_ok J E (snd N)"
proof (induction rule: net_reach.induct)
  case (start N)
  then show ?case using newPeer_ok by (metis peers_ok_def)
qed (rule good_step)

text \<open>C17. In every state a node can reach, at most four WANTs are in flight to a peer, their numbers
  are distinct, no stream is in flight or queued twice, and a stream is marked as wanted exactly as
  long as it is in flight or queued. So the mark that keeps a stream from being asked for again is
  taken back with the request it stands for.\<close>

theorem wants_stay_bounded:
  assumes "net_reach H J E N" "p = en_ps (snd N) i"
  shows "length (ps_activeWants p) \<le> 4 \<and> distinct (map fst (ps_activeWants p)) \<and>
    distinct (map (\<lambda>(r, w). wantKey (wa_topic w) (wa_writer w)) (ps_activeWants p) @ map (\<lambda>(t, w). wantKey t w) (ps_wantQueue p)) \<and>
    set (ps_wantedStreams p) = (\<lambda>(r, w). wantKey (wa_topic w) (wa_writer w)) ` set (ps_activeWants p) \<union> (\<lambda>(t, w). wantKey t w) ` set (ps_wantQueue p)"
  using reach_good [OF assms(1)]
  by (auto simp: assms(2) peers_ok_def peer_ok_def wants_ok_def asked_def keyOf_def MAX_WANT_CONCURRENT_def)

text \<open>C18. What a node holds of an unfinished HAVE round is accounted for exactly, a page that comes
  again counting once, and never exceeds the reassembly limit, whatever pages a peer sends.\<close>

theorem have_reassembly_bounded:
  assumes "net_reach H J E N" "p = en_ps (snd N) i"
  shows "distinct (map fst (ps_havePages p)) \<and> ps_haveBytes p = (\<Sum>(k, m) \<leftarrow> ps_havePages p. int (pageBytes J m)) \<and>
    ps_haveBytes p \<le> int (MAX_REASSEMBLY_BYTES (constants E))"
proof -
  have "pages_counted J E p" using reach_good [OF assms(1)] by (simp add: assms(2) peers_ok_def peer_ok_def)
  moreover have "int (sum_list (map (pageBytes J \<circ> snd) l)) = (\<Sum>(k, m) \<leftarrow> l. int (pageBytes J m))" for l :: "(nat \<times> WireMsg) list"
    by (induction l) auto
  ultimately show ?thesis by (simp add: pages_counted_def)
qed

end
