(* ===== verification/Link_Demo.thy ===== *)
theory Link_Demo
  imports Sync_Rules Message_Rules Log_Demo
begin

text \<open>
  Two small nodes on one channel: the frames they exchange are coded by their place in a table.
\<close>

definition demo_limits :: Constants where
  "demo_limits = \<lparr>MAX_ENTRY_BYTES = 50, MAX_FRAME_BYTES = 20, MAX_ROW_BYTES = 50, MAX_REASSEMBLY_BYTES = 50, INFLIGHT_CREDITS = 2,
     CHANNEL_STALL_MS = 50, SEND_QUEUE_CAP = 2, CONTROL_RETRY_MS = 5, PENDING_CAP = 5, SUB_DELTA_RETAIN = 5, EAGER_PUSH_K = 3,
     ANTI_ENTROPY_MS = 50, BEACON_DEBOUNCE_MS = 5, HLC_EPSILON_MS = 50, CLOCK_WARN_MS = 50, CHECKPOINT_EVERY = 5, RING_DEFAULT = 5,
     GROUP_COMMIT_MS = 2, GROUP_COMMIT_N = 5, HELLO_TIMEOUT_MS = 50, FINALITY_WINDOW_MS = 50, RETIRE_GRACE_MS = 50,
     REQUEST_TTL_MS = 50, TOMBSTONE_RETAIN_MS = 50, SYNC_HOT_WINDOW_MS = 50, SYNC_HOT_BYTES = 50, durability = DurNormal\<rparr>"

definition demo_side :: "string \<Rightarrow> LogEnv" where
  "demo_side node = \<lparr>prims = demo_lib, registry = [(''t'', \<lparr>te_policy = plain_policy, te_schemaHash = demo_hash\<rparr>)],
     selfId = node, constants = demo_limits, hasActiveConsumer = (\<lambda>_. False), hasActiveSubscriber = (\<lambda>_. False)\<rparr>"

definition demo_hello :: "string \<Rightarrow> WireMsg" where
  "demo_hello node = HELLO 1 3 node [(''t'', (GFull, demo_hash))] (Some 0) None"

definition demo_data :: WireMsg where
  "demo_data = entriesMsg None ''t'' ''w'' 1 2 [] True 1"

definition demo_late :: WireMsg where
  "demo_late = entriesMsg None ''t'' ''w'' 1 2 [] True 2"

definition demo_have :: WireMsg where
  "demo_have = HAVE 1 1 2 []"

definition demo_table :: "jsval list" where
  "demo_table = map msg_js [demo_hello ''a'', demo_hello ''b'', HAVE_GET 1, demo_data, ACK 1, demo_late, demo_have]"

text \<open>A frame of entries that are not listed is too long.\<close>

definition demo_wire :: WireJson where
  "demo_wire = \<lparr>jsonParse = (\<lambda>s. if s \<noteq> [] \<and> length s \<le> length demo_table then Some (demo_table ! (length s - 1)) else None),
     jsonStringify = (\<lambda>v. if v \<in> set demo_table then replicate (Suc (length (takeWhile (\<lambda>u. u \<noteq> v) demo_table))) (CHR ''x'')
       else replicate (if getProp v ''t'' = JStr ''ENTRIES'' then 30 else 15) (CHR ''x''))\<rparr>"

definition demo_engine :: "unit Engine" where
  "demo_engine = \<lparr>en_now = 5, en_log = newQueue empty_store, en_peers = [0], en_ps = (\<lambda>_. newPeer 5), en_rejects = (\<lambda>_ _. 0),
     en_interval = Map.empty, en_pairBytes = [], en_hotStart = 0, en_hotBytes = 0, en_hotEmitted = False, en_finality = False,
     en_directives = False, en_acks = None, en_ackFault = False, en_meta = Map.empty, en_anomalies = [], en_certCalls = [],
     en_directiveCalls = [], en_waits = [], en_hubs = ()\<rparr>"

definition demo_open :: "LogEnv \<Rightarrow> string \<Rightarrow> Session" where
  "demo_open E p = (case newSession demo_wire E p PContent [(''t'', GFull)] of Inr s \<Rightarrow> s | Inl _ \<Rightarrow> emptySession p PContent [])"

abbreviation demo_cb :: "string \<Rightarrow> unit Engine SessionCb" where
  "demo_cb node \<equiv> engineCb noHubs demo_wire (demo_side node) 0"

definition demo_A0 :: "unit EW" where "demo_A0 = (demo_open (demo_side ''a'') ''b'', demo_engine)"
definition demo_B0 :: "unit EW" where "demo_B0 = (demo_open (demo_side ''b'') ''a'', demo_engine)"
definition demo_A1 :: "unit EW" where "demo_A1 = snd (dispatch (demo_cb ''a'') demo_wire (demo_side ''a'') 5 (demo_hello ''b'') demo_A0)"
definition demo_B1 :: "unit EW" where "demo_B1 = snd (dispatch (demo_cb ''b'') demo_wire (demo_side ''b'') 5 (demo_hello ''a'') demo_B0)"
definition demo_A2 :: "unit EW" where
  "demo_A2 = (snd (sendData demo_wire (demo_side ''a'') 5 (entriesMsg None ''t'' ''w'' 1 2 [] True) (fst demo_A1)), snd demo_A1)"
definition demo_B2 :: "unit EW" where "demo_B2 = snd (dispatch (demo_cb ''b'') demo_wire (demo_side ''b'') 5 demo_data demo_B1)"

definition demo_big :: "nat \<Rightarrow> WireMsg" where
  "demo_big = entriesMsg None ''t'' ''w'' 1 3 [] True"

definition demo_A3 :: "unit EW" where
  "demo_A3 = (snd (sendData demo_wire (demo_side ''a'') 5 (entriesMsg None ''t'' ''w'' 1 2 [] True)
     (snd (sendData demo_wire (demo_side ''a'') 5 demo_big (fst demo_A1)))), snd demo_A1)"
definition demo_B3 :: "unit EW" where "demo_B3 = snd (dispatch (demo_cb ''b'') demo_wire (demo_side ''b'') 5 demo_late demo_B1)"

section \<open>The frames parse\<close>

lemma demo_fields [simp]: "constants (demo_side n) = demo_limits" "registry (demo_side n) = [(''t'', \<lparr>te_policy = plain_policy, te_schemaHash = demo_hash\<rparr>)]"
  by (simp_all add: demo_side_def)

lemma demo_parses:
  assumes "m \<in> {demo_hello ''a'', demo_hello ''b'', demo_data, demo_late, demo_have}" "serializeMsg demo_wire demo_limits m = Inr raw"
  shows "parseMsg demo_wire demo_limits raw = Inr m"
proof (rule parse_serialized [OF _ _ assms(2)])
  show "wf_msg m"
    using assms(1) by (auto simp: demo_hello_def demo_data_def demo_late_def demo_have_def entriesMsg_def wf_msg_def wf_vectors_def TOPIC_RE_def WRITER_RE_def topic_char_def
        writer_char_def MAX_SAFE_INTEGER_def RESERVED_NAME_def name_ok_def)
  have "jsonParse demo_wire (jsonStringify demo_wire (msg_js (demo_hello ''a''))) = Some (msg_js (demo_hello ''a''))"
    "jsonParse demo_wire (jsonStringify demo_wire (msg_js (demo_hello ''b''))) = Some (msg_js (demo_hello ''b''))"
    "jsonParse demo_wire (jsonStringify demo_wire (msg_js demo_data)) = Some (msg_js demo_data)"
    "jsonParse demo_wire (jsonStringify demo_wire (msg_js demo_late)) = Some (msg_js demo_late)"
    "jsonParse demo_wire (jsonStringify demo_wire (msg_js demo_have)) = Some (msg_js demo_have)"
    by code_simp+
  then show "jsonParse demo_wire (jsonStringify demo_wire (msg_js m)) = Some (msg_js m)" using assms(1) by auto
qed

lemma raw_dispatch:
  assumes "ss_state (fst y) \<noteq> SClosed" "parseMsg J (constants E) raw = Inr m" "is_ok (fst (dispatch C J E now m y))"
  shows "snd (onRaw C J E now raw y) = snd (dispatch C J E now m y)"
  using assms by (auto simp: onRaw_def is_ok_def ok_def split: prod.split sum.splits)

lemma demo_open_ok: "newSession demo_wire (demo_side ''a'') ''b'' PContent [(''t'', GFull)] = Inr (fst demo_A0)"
  "newSession demo_wire (demo_side ''b'') ''a'' PContent [(''t'', GFull)] = Inr (fst demo_B0)"
proof -
  have "is_ok (newSession demo_wire (demo_side ''a'') ''b'' PContent [(''t'', GFull)])"
    "is_ok (newSession demo_wire (demo_side ''b'') ''a'' PContent [(''t'', GFull)])" by code_simp+
  then show "newSession demo_wire (demo_side ''a'') ''b'' PContent [(''t'', GFull)] = Inr (fst demo_A0)"
    "newSession demo_wire (demo_side ''b'') ''a'' PContent [(''t'', GFull)] = Inr (fst demo_B0)"
    by (auto simp: demo_A0_def demo_B0_def demo_open_def is_ok_def split: sum.splits)
qed

section \<open>A run\<close>

abbreviation demo_link :: "unit EW \<Rightarrow> unit EW \<Rightarrow> bool" where
  "demo_link \<equiv> link_reach (demo_cb ''a'') (demo_cb ''b'') demo_wire (demo_side ''a'') (demo_side ''b'')"

lemma demo_to_right:
  assumes "demo_link x y" "(m, raw) \<in> set (ss_out (fst x))" "serializeMsg demo_wire demo_limits m = Inr raw"
    "m \<in> {demo_hello ''a'', demo_hello ''b'', demo_data, demo_late, demo_have}" "ss_state (fst y) \<noteq> SClosed"
    "is_ok (fst (dispatch (demo_cb ''b'') demo_wire (demo_side ''b'') 5 m y))"
  shows "demo_link x (snd (dispatch (demo_cb ''b'') demo_wire (demo_side ''b'') 5 m y))"
proof -
  have p: "parseMsg demo_wire (constants (demo_side ''b'')) raw = Inr m" using demo_parses [OF assms(4,3)] by simp
  show ?thesis
    using link_reach.to_right [OF assms(1,2) p, of 5] raw_dispatch [OF assms(5) p assms(6)] by simp
qed

lemma demo_to_left:
  assumes "demo_link x y" "(m, raw) \<in> set (ss_out (fst y))" "serializeMsg demo_wire demo_limits m = Inr raw"
    "m \<in> {demo_hello ''a'', demo_hello ''b'', demo_data, demo_late, demo_have}" "ss_state (fst x) \<noteq> SClosed"
    "is_ok (fst (dispatch (demo_cb ''a'') demo_wire (demo_side ''a'') 5 m x))"
  shows "demo_link (snd (dispatch (demo_cb ''a'') demo_wire (demo_side ''a'') 5 m x)) y"
proof -
  have p: "parseMsg demo_wire (constants (demo_side ''a'')) raw = Inr m" using demo_parses [OF assms(4,3)] by simp
  show ?thesis
    using link_reach.to_left [OF assms(1,2) p, of 5] raw_dispatch [OF assms(5) p assms(6)] by simp
qed

lemma demo_run0: "demo_link demo_A0 demo_B0"
  using link_reach.attach [OF demo_open_ok] by (simp add: demo_A0_def demo_B0_def)

lemma demo_run1: "demo_link demo_A0 demo_B1"
  unfolding demo_B1_def
proof (rule demo_to_right [OF demo_run0])
  show "(demo_hello ''a'', ''x'') \<in> set (ss_out (fst demo_A0))" by code_simp
  show "serializeMsg demo_wire demo_limits (demo_hello ''a'') = Inr ''x''" by code_simp
  show "ss_state (fst demo_B0) \<noteq> SClosed" by code_simp
  show "is_ok (fst (dispatch (demo_cb ''b'') demo_wire (demo_side ''b'') 5 (demo_hello ''a'') demo_B0))" by code_simp
qed simp

lemma demo_run2: "demo_link demo_A1 demo_B1"
  unfolding demo_A1_def
proof (rule demo_to_left [OF demo_run1])
  show "(demo_hello ''b'', ''xx'') \<in> set (ss_out (fst demo_B1))" by code_simp
  show "serializeMsg demo_wire demo_limits (demo_hello ''b'') = Inr ''xx''" by code_simp
  show "ss_state (fst demo_A0) \<noteq> SClosed" by code_simp
  show "is_ok (fst (dispatch (demo_cb ''a'') demo_wire (demo_side ''a'') 5 (demo_hello ''b'') demo_A0))" by code_simp
qed simp

lemma demo_send: "(sess_op demo_wire (demo_side ''a''))\<^sup>*\<^sup>* s (snd (sendData demo_wire (demo_side ''a'') 5 (entriesMsg None t w n k [] True) s))"
  by (intro r_into_rtranclp sess_op.data good_entries)

lemma demo_run3: "demo_link demo_A2 demo_B1"
  unfolding demo_A2_def by (rule link_reach.left [OF demo_run2]) (intro local_step.engine demo_send)

lemma demo_run4: "demo_link demo_A2 demo_B2"
  unfolding demo_B2_def
proof (rule demo_to_right [OF demo_run3])
  show "(demo_data, ''xxxx'') \<in> set (ss_out (fst demo_A2))" by code_simp
  show "serializeMsg demo_wire demo_limits demo_data = Inr ''xxxx''" by code_simp
  show "ss_state (fst demo_B1) \<noteq> SClosed" by code_simp
  show "is_ok (fst (dispatch (demo_cb ''b'') demo_wire (demo_side ''b'') 5 demo_data demo_B1))" by code_simp
qed simp

lemma demo_run5: "demo_link demo_A3 demo_B1"
  unfolding demo_A3_def
  unfolding demo_big_def
  by (rule link_reach.left [OF demo_run2]) (intro local_step.engine rtranclp_trans [OF demo_send demo_send])

lemma demo_run6: "demo_link demo_A3 demo_B3"
  unfolding demo_B3_def
proof (rule demo_to_right [OF demo_run5])
  show "(demo_late, ''xxxxxx'') \<in> set (ss_out (fst demo_A3))" by code_simp
  show "serializeMsg demo_wire demo_limits demo_late = Inr ''xxxxxx''" by code_simp
  show "ss_state (fst demo_B1) \<noteq> SClosed" by code_simp
  show "is_ok (fst (dispatch (demo_cb ''b'') demo_wire (demo_side ''b'') 5 demo_late demo_B1))" by code_simp
qed simp

section \<open>Witnesses\<close>

theorem link_delivers_in_order_witness:
  "prefix (ss_delivered (fst demo_B2)) (ss_sent (fst demo_A2)) \<and> ss_delivered (fst demo_B2) = [demo_data]"
proof -
  have "ss_delivered (fst demo_B2) = [demo_data]" by code_simp
  then show ?thesis using link_delivers_in_order [OF noHubs_ok noHubs_ok demo_run4] by simp
qed

theorem credits_never_overrun_witness: "m_mid demo_data \<le> int (ss_recvContig (fst demo_B1)) + 2"
proof -
  have "(demo_data, ''xxxx'') \<in> set (ss_out (fst demo_A2))" "isData demo_data" "length (ss_sent (fst demo_A2)) + 1 = ss_nextMid (fst demo_A2)"
    "INFLIGHT_CREDITS demo_limits = 2" by code_simp+
  then show ?thesis
    using credits_never_overrun [OF noHubs_ok noHubs_ok demo_run3, of "(demo_data, ''xxxx'')"] by simp
qed

theorem oversized_frame_blocks_lane_witness: "ss_recvContig (fst demo_B3) < 1 \<and> ss_nextMid (fst demo_A3) = 3"
proof -
  have "ss_nextMid (fst demo_A3) = 3" "int 1 \<notin> m_mid ` set (ss_sent (fst demo_A3))" by code_simp+
  then show ?thesis using oversized_frame_blocks_lane [OF noHubs_ok noHubs_ok demo_run6, of 1] by simp
qed

lemma demo_errs_fit: "errs_fit demo_wire (demo_side n)"
  unfolding errs_fit_def
proof (intro allI impI)
  fix t
  let ?v = "msg_js (errMsg ERR_SCHEMA_MISMATCH (Some t) None)"
  have "getProp ?v ''t'' = JStr ''ERR''" by (simp add: errMsg_def read_defs)
  moreover have "length (takeWhile (\<lambda>u. u \<noteq> ?v) demo_table) \<le> length demo_table" by (rule length_takeWhile_le)
  then have "length (takeWhile (\<lambda>u. u \<noteq> ?v) demo_table) \<le> 7" by (simp add: demo_table_def)
  ultimately show "is_ok (serializeMsg demo_wire (constants (demo_side n)) (errMsg ERR_SCHEMA_MISMATCH (Some t) None))"
    by (simp add: serializeMsg_def demo_wire_def demo_limits_def utf8ByteLength_def Let_def)
qed

lemma demo_frame:
  assumes "sess_reach (demo_cb ''b'') demo_wire (demo_side ''b'') y" "m \<in> {demo_hello ''a'', demo_hello ''b'', demo_data, demo_late, demo_have}"
    "serializeMsg demo_wire demo_limits m = Inr raw" "ss_state (fst y) \<noteq> SClosed"
    "is_ok (fst (dispatch (demo_cb ''b'') demo_wire (demo_side ''b'') 5 m y))"
  shows "sess_reach (demo_cb ''b'') demo_wire (demo_side ''b'') (snd (dispatch (demo_cb ''b'') demo_wire (demo_side ''b'') 5 m y))"
  using sess_reach.frame [OF assms(1), of 5 raw] raw_dispatch [OF assms(4) _ assms(5), of raw] demo_parses [OF assms(2,3)] by simp

lemma demo_frame1: "sess_reach (demo_cb ''b'') demo_wire (demo_side ''b'') demo_B1"
  unfolding demo_B1_def
proof (rule demo_frame)
  show "sess_reach (demo_cb ''b'') demo_wire (demo_side ''b'') demo_B0"
    using sess_reach.attach [OF demo_open_ok(2)] by (simp add: demo_B0_def)
  show "serializeMsg demo_wire demo_limits (demo_hello ''a'') = Inr ''x''" by code_simp
  show "ss_state (fst demo_B0) \<noteq> SClosed" by code_simp
  show "is_ok (fst (dispatch (demo_cb ''b'') demo_wire (demo_side ''b'') 5 (demo_hello ''a'') demo_B0))" by code_simp
qed simp

theorem mutual_full_agreed_witness: "mutualFull (fst demo_B1) ''t'' \<and>
  map_of (ss_peerGrants (fst demo_B1)) ''t'' = Some (GFull, demo_hash)"
proof -
  have "mutualFull (fst demo_B1) ''t''" by code_simp
  with mutual_full_agreed [OF noHubs_ok demo_errs_fit demo_frame1 this] show ?thesis
    by (auto simp: reg_get_def split: option.splits)
qed

theorem receive_buffer_bounded_witness: "length (ss_recvBuffer (fst demo_B3)) = 1 \<and> length (ss_recvBuffer (fst demo_B3)) \<le> 2"
proof -
  have "sess_reach (demo_cb ''b'') demo_wire (demo_side ''b'') demo_B3"
    unfolding demo_B3_def
  proof (rule demo_frame [OF demo_frame1])
    show "serializeMsg demo_wire demo_limits demo_late = Inr ''xxxxxx''" by code_simp
    show "ss_state (fst demo_B1) \<noteq> SClosed" by code_simp
    show "is_ok (fst (dispatch (demo_cb ''b'') demo_wire (demo_side ''b'') 5 demo_late demo_B1))" by code_simp
  qed simp
  from receive_buffer_bounded [OF noHubs_ok this] have "length (ss_recvBuffer (fst demo_B3)) \<le> 2"
    by (simp add: demo_limits_def)
  moreover have "length (ss_recvBuffer (fst demo_B3)) = 1" by code_simp
  ultimately show ?thesis by simp
qed

end
