(* ===== verification/Reach_Demo.thy ===== *)
theory Reach_Demo
  imports Sync_Reach Link_Demo
begin

text \<open>
  A node that attaches a peer, exchanges greetings with it, then asks for a stream and gets the first of
  two pages of a HAVE round: the bounds of the engine hold on it with something in flight.
\<close>

definition demo_N0 :: "unit Net" where
  "demo_N0 = (\<lambda>_. fst demo_A0, demo_engine\<lparr>en_peers := []\<rparr>)"

definition demo_N1 :: "unit Net" where "demo_N1 = (\<lambda>_. fst demo_A0, demo_engine)"

definition demo_N2 :: "unit Net" where
  "demo_N2 = snd (atPeer 0 (onRaw (demo_cb ''a'') demo_wire (demo_side ''a'') 5 ''xx'') demo_N1)"

definition demo_wanted :: WriterDirective where
  "demo_wanted = \<lparr>d_topic = ''t'', d_writer = ''w'', d_state = Live, d_rgen = 1, d_finalSeq = Some 0, d_finalChain = None,
     d_authority = ''a'', d_sig = ''s''\<rparr>"

text \<open>Meanwhile the log has read the head of that stream.\<close>

definition demo_read :: "unit Net" where
  "demo_read = (fst demo_N2, (snd demo_N2)\<lparr>en_log := (newQueue empty_store)\<lparr>q_core := (LogCore_new empty_store)\<lparr>heads :=
     [(''t'', ''w'') \<mapsto> \<lparr>w_topic = ''t'', w_writer = ''w'', contigSeq = 2, contigChain = ''c'', sealReason = None, rgen = 0,
       retiredAt = None, finalSeq = None, finalChain = None\<rparr>]\<rparr>\<rparr>\<rparr>)"

definition demo_N3 :: "unit Net" where
  "demo_N3 = snd (directiveApplied demo_wire (demo_side ''a'') demo_wanted DirRecovery demo_read)"

definition demo_N4 :: "unit Net" where
  "demo_N4 = snd (atPeer 0 (onRaw (demo_cb ''a'') demo_wire (demo_side ''a'') 5 ''xxxxxxx'') demo_N2)"

abbreviation demo_net :: "unit Net \<Rightarrow> bool" where
  "demo_net \<equiv> net_reach noHubs demo_wire (demo_side ''a'')"

lemma demo_at_five: "en_now (snd demo_N1) = 5"
  by (simp add: demo_N1_def demo_engine_def)

lemma demo_net2: "demo_net demo_N2"
proof -
  have "demo_net demo_N0" by (rule net_reach.start) (auto simp: demo_N0_def demo_engine_def)
  moreover have "attach demo_wire (demo_side ''a'') 0 ''b'' PContent [(''t'', GFull)] demo_N0 = (Inr (), demo_N1)"
    unfolding attach_def demo_open_ok(1) by (simp add: ok_def demo_N0_def demo_N1_def demo_engine_def fun_upd_idem)
  ultimately have "demo_net demo_N1" by (rule net_reach.step [OF _ net_step.attach])
  from net_reach.step [OF this net_step.frame [of noHubs demo_wire "demo_side ''a''" demo_N1 0 "''xx''"]]
  show ?thesis unfolding demo_N2_def demo_at_five .
qed

text \<open>A frame that parses to \<open>m\<close> has the effect of \<open>m\<close>.\<close>

lemma demo_take:
  assumes "serializeMsg demo_wire demo_limits m = Inr raw" "m \<in> {demo_hello ''a'', demo_hello ''b'', demo_data, demo_late, demo_have}"
    "ss_state (fst N 0) \<noteq> SClosed" "is_ok (fst (dispatch (demo_cb ''a'') demo_wire (demo_side ''a'') 5 m (fst N 0, snd N)))"
  shows "snd (atPeer 0 (onRaw (demo_cb ''a'') demo_wire (demo_side ''a'') 5 raw) N) =
    snd (atPeer 0 (dispatch (demo_cb ''a'') demo_wire (demo_side ''a'') 5 m) N)"
proof -
  have "parseMsg demo_wire (constants (demo_side ''a'')) raw = Inr m" using demo_parses [OF assms(2,1)] by simp
  from raw_dispatch [OF _ this assms(4)] assms(3)
  have "snd (onRaw (demo_cb ''a'') demo_wire (demo_side ''a'') 5 raw (fst N 0, snd N)) =
    snd (dispatch (demo_cb ''a'') demo_wire (demo_side ''a'') 5 m (fst N 0, snd N))" by simp
  moreover have "snd (atPeer 0 f N) = ((fst N)(0 := fst (snd (f (fst N 0, snd N)))), snd (snd (f (fst N 0, snd N))))"
    for f :: "unit EW \<Rightarrow> unit result \<times> unit EW"
    by (simp add: atPeer_def split: prod.split)
  ultimately show ?thesis by simp
qed

lemma demo_N2_code [code]: "demo_N2 = snd (atPeer 0 (dispatch (demo_cb ''a'') demo_wire (demo_side ''a'') 5 (demo_hello ''b'')) demo_N1)"
  unfolding demo_N2_def
proof (rule demo_take)
  show "serializeMsg demo_wire demo_limits (demo_hello ''b'') = Inr ''xx''" by code_simp
  show "ss_state (fst demo_N1 0) \<noteq> SClosed" by code_simp
  show "is_ok (fst (dispatch (demo_cb ''a'') demo_wire (demo_side ''a'') 5 (demo_hello ''b'') (fst demo_N1 0, snd demo_N1)))" by code_simp
qed simp

lemma demo_still_five: "en_now (snd demo_N2) = 5"
  by code_simp

lemma demo_N4_code [code]: "demo_N4 = snd (atPeer 0 (dispatch (demo_cb ''a'') demo_wire (demo_side ''a'') 5 demo_have) demo_N2)"
  unfolding demo_N4_def
proof (rule demo_take)
  show "serializeMsg demo_wire demo_limits demo_have = Inr ''xxxxxxx''" by code_simp
  show "ss_state (fst demo_N2 0) \<noteq> SClosed" by code_simp
  show "is_ok (fst (dispatch (demo_cb ''a'') demo_wire (demo_side ''a'') 5 demo_have (fst demo_N2 0, snd demo_N2)))" by code_simp
qed simp

theorem wants_stay_bounded_witness:
  "ps_activeWants (en_ps (snd demo_N3) 0) = [(1, \<lparr>wa_topic = ''t'', wa_writer = ''w'', wa_fromSeq = 3\<rparr>)] \<and>
   set (ps_wantedStreams (en_ps (snd demo_N3) 0)) = {''t w''}"
proof -
  have "demo_net demo_read" unfolding demo_read_def by (rule net_reach.step [OF demo_net2 net_step.outside]) simp_all
  then have "demo_net demo_N3" unfolding demo_N3_def by (rule net_reach.step [OF _ net_step.recovery])
  moreover have "ps_activeWants (en_ps (snd demo_N3) 0) = [(1, \<lparr>wa_topic = ''t'', wa_writer = ''w'', wa_fromSeq = 3\<rparr>)]"
    "ps_wantQueue (en_ps (snd demo_N3) 0) = []" by code_simp+
  ultimately show ?thesis using wants_stay_bounded [of noHubs demo_wire "demo_side ''a''" demo_N3 _ 0] by (simp add: wantKey_def)
qed

theorem have_reassembly_bounded_witness:
  "ps_havePages (en_ps (snd demo_N4) 0) = [(1, demo_have)] \<and> ps_haveBytes (en_ps (snd demo_N4) 0) = 7 \<and> (7::int) \<le> 50"
proof -
  have "demo_net demo_N4"
    unfolding demo_N4_def using net_reach.step [OF demo_net2 net_step.frame [of noHubs demo_wire "demo_side ''a''" demo_N2 0 "''xxxxxxx''"]]
    unfolding demo_still_five .
  moreover have "ps_havePages (en_ps (snd demo_N4) 0) = [(1, demo_have)]" "ps_haveBytes (en_ps (snd demo_N4) 0) = 7" by code_simp+
  ultimately show ?thesis using have_reassembly_bounded [of noHubs demo_wire "demo_side ''a''" demo_N4 _ 0] by (simp add: demo_limits_def)
qed

end
