(* ===== verification/Archive.thy ===== *)
theory Archive
  imports Register_Hub
begin

text \<open>
  \<^verbatim>\<open>src/archive.ts\<close>: moving rows a finality certificate covers out of the hot log. The
  certificate's effects are immediate; archiving lags until every live cursor of the topic has
  passed the rows, and a cursor that has not moved for \<open>FINALITY_WINDOW_MS\<close> is dropped. The hub's
  state is the set of busy topics. A result lists the consumers that were dropped, one
  \<open>consumer_abandoned\<close> anomaly each. The cursor's time stamp is written by the store as an ISO
  string of a clock reading and parsed back, so it is the reading itself here. The view hub,
  which rebases its own views first when a certificate is accepted, is left out.
\<close>

record ArchiveHub =
  ah_busy :: "string list"

definition ArchiveHub_new :: ArchiveHub where
  "ArchiveHub_new = \<lparr>ah_busy = []\<rparr>"

definition staleBefore :: "Constants \<Rightarrow> nat \<Rightarrow> int" where
  "staleBefore K now = int now - int (FINALITY_WINDOW_MS K)"

text \<open>
  The loop over the cursors: the lowest position of the live ones (\<open>minCursor\<close>), the database
  without the stale ones, and their names.
\<close>

fun gateCursors :: "int \<Rightarrow> string \<Rightarrow> (string \<times> nat \<times> nat) list \<Rightarrow> nat \<Rightarrow> Db \<Rightarrow> nat \<times> Db \<times> string list" where
  "gateCursors stale topic [] minCursor d = (minCursor, d, [])"
| "gateCursors stale topic ((consumer, lastRowid, updatedAt) # cs) minCursor d =
     (if int updatedAt < stale then
        (case gateCursors stale topic cs minCursor (cursorDelete d consumer topic) of
           (m, d', dropped) \<Rightarrow> (m, d', consumer # dropped))
      else gateCursors stale topic cs (min minCursor lastRowid) d)"

text \<open>The loop over the certificate's cut.\<close>

fun archiveCuts :: "string \<Rightarrow> nat \<Rightarrow> nat \<Rightarrow> Cut \<Rightarrow> Store \<Rightarrow> Store" where
  "archiveCuts topic minCursor now [] st = st"
| "archiveCuts topic minCursor now ((writer, seq, chain) # rest) st =
     (if seq = 0 then archiveCuts topic minCursor now rest st
      else archiveCuts topic minCursor now rest (snd (archiveCovered st topic writer seq minCursor now)))"

definition archiveNow :: "Constants \<Rightarrow> nat \<Rightarrow> string \<Rightarrow> LogCore \<Rightarrow> LogCore \<times> string list" where
  "archiveNow K now topic s =
     (case getCert topic s of
        (None, s1) \<Rightarrow> (s1, [])
      | (Some cert, s1) \<Rightarrow>
          (case gateCursors (staleBefore K now) topic (cursorsForTopic (lc_db s1) topic) MAX_SAFE_INTEGER (lc_db s1) of
             (minCursor, d, dropped) \<Rightarrow>
               (s1\<lparr>lc_store := archiveCuts topic minCursor now (cert_cut cert) ((lc_store s1)\<lparr>db := d\<rparr>)\<rparr>, dropped)))"

text \<open>
  The busy set shuts out a call that a listener of an anomaly makes for the same topic while the
  call runs; the \<^verbatim>\<open>finally\<close> takes the topic out again.
\<close>

definition tryArchive ::
  "Constants \<Rightarrow> nat \<Rightarrow> string \<Rightarrow> ArchiveHub \<Rightarrow> LogCore \<Rightarrow> ArchiveHub \<times> LogCore \<times> string list" where
  "tryArchive K now topic h s =
     (if topic \<in> set (ah_busy h) then (h, s, [])
      else let h1 = h\<lparr>ah_busy := topic # ah_busy h\<rparr> in
           (case archiveNow K now topic s of
              (s', dropped) \<Rightarrow> (h1\<lparr>ah_busy := removeAll topic (ah_busy h1)\<rparr>, s', dropped)))"

definition onConsumerAdvance ::
  "Constants \<Rightarrow> nat \<Rightarrow> string \<Rightarrow> ArchiveHub \<Rightarrow> LogCore \<Rightarrow> ArchiveHub \<times> LogCore \<times> string list" where
  "onConsumerAdvance K now topic h s = tryArchive K now topic h s"

text \<open>
  A certificate was accepted: the registers rebase onto its cut, then what the consumers allow is
  archived. A rebase that throws rejects the call, and nothing is archived.
\<close>

definition onCertAccepted ::
  "RegEnv \<Rightarrow> nat \<Rightarrow> string \<Rightarrow> ArchiveHub \<Rightarrow> RegisterHub \<Rightarrow> LogCore
     \<Rightarrow> JsError option \<times> ArchiveHub \<times> RegisterHub \<times> LogCore \<times> string list" where
  "onCertAccepted R now topic h rh s =
     (case getCert topic s of
        (None, s1) \<Rightarrow> (None, h, rh, s1, [])
      | (Some cert, s1) \<Rightarrow>
          (case rebaseAtCut R now topic (cert_order cert) rh s1 of
             (Some err, rh') \<Rightarrow> (Some err, h, rh', s1, [])
           | (None, rh') \<Rightarrow>
               (case tryArchive (constants (rg_log R)) now topic h s1 of
                  (h', s', dropped) \<Rightarrow> (None, h', rh', s', dropped))))"

end
