(* ===== verification/Archive_Rules.thy ===== *)
theory Archive_Rules
  imports Archive Log_Demo
begin

text \<open>
  What the archive hub moves: exactly the rows the certificate covers that every live cursor has
  passed, each found again in the cold table; and nothing changes for a live consumer.
\<close>

section \<open>One batch\<close>

text \<open>The rows of \<open>G\<close> were put into a cold table \<open>a\<close>, which keeps what it had.\<close>

definition archived_as :: "nat \<Rightarrow> LogRow set \<Rightarrow> (EntryId \<times> (LogEntry \<times> nat)) list
    \<Rightarrow> (EntryId \<times> (LogEntry \<times> nat)) list \<Rightarrow> bool" where
  "archived_as ts G a b \<longleftrightarrow>
     (\<forall>k x. map_of a k = Some x \<longrightarrow> map_of b k = Some x) \<and>
     (\<forall>r \<in> G. map_of a (entryKey (snd r)) = None \<longrightarrow> map_of b (entryKey (snd r)) = Some (snd r, ts)) \<and>
     (\<forall>k. map_of a k = None \<and> (\<forall>r \<in> G. entryKey (snd r) \<noteq> k) \<longrightarrow> map_of b k = None)"

definition keyed_rows :: "LogRow set \<Rightarrow> bool" where
  "keyed_rows G \<longleftrightarrow> inj_on (\<lambda>r. entryKey (snd r)) G"

lemma keyed_rows_mono: "keyed_rows G \<Longrightarrow> H \<subseteq> G \<Longrightarrow> keyed_rows H"
  by (auto simp: keyed_rows_def intro: inj_on_subset)

lemma keyed_rows_table: "log_table_ok d \<Longrightarrow> keyed_rows (set (sq_log d))"
  by (simp add: keyed_rows_def log_table_ok_def distinct_map)

lemma archived_as_none [simp]: "archived_as ts {} a a"
  by (simp add: archived_as_def)

lemma archived_asD:
  assumes "archived_as ts G a b"
  shows "map_of a k = Some x \<Longrightarrow> map_of b k = Some x"
    and "r \<in> G \<Longrightarrow> map_of a (entryKey (snd r)) = None \<Longrightarrow> map_of b (entryKey (snd r)) = Some (snd r, ts)"
    and "map_of a k = None \<Longrightarrow> \<forall>r \<in> G. entryKey (snd r) \<noteq> k \<Longrightarrow> map_of b k = None"
  using assms unfolding archived_as_def by blast+

lemma archived_as_trans:
  assumes "keyed_rows (G \<union> H)" "archived_as ts G a b" "archived_as ts H b c"
  shows "archived_as ts (G \<union> H) a c"
proof -
  have new: "map_of c (entryKey (snd r)) = Some (snd r, ts)"
    if r: "r \<in> G \<union> H" and none: "map_of a (entryKey (snd r)) = None" for r
  proof (cases "r \<in> G")
    case True
    then show ?thesis using archived_asD(1) [OF assms(3)] archived_asD(2) [OF assms(2)] none by blast
  next
    case False
    then have "\<forall>g \<in> G. entryKey (snd g) \<noteq> entryKey (snd r)"
      using assms(1) r by (auto simp: keyed_rows_def inj_on_def)
    then have "map_of b (entryKey (snd r)) = None" using archived_asD(3) [OF assms(2) none] by simp
    then show ?thesis using archived_asD(2) [OF assms(3)] r False by blast
  qed
  have none: "map_of c k = None" if "map_of a k = None" "\<forall>r \<in> G \<union> H. entryKey (snd r) \<noteq> k" for k
  proof (rule archived_asD(3) [OF assms(3)])
    show "map_of b k = None" by (rule archived_asD(3) [OF assms(2) that(1)]) (use that(2) in blast)
  qed (use that(2) in blast)
  have kept: "map_of c k = Some x" if "map_of a k = Some x" for k x
    by (rule archived_asD(1) [OF assms(3) archived_asD(1) [OF assms(2) that]])
  show ?thesis unfolding archived_as_def using new none kept by blast
qed

abbreviation archiveRow :: "nat \<Rightarrow> (EntryId \<times> (LogEntry \<times> nat)) list \<Rightarrow> LogRow
    \<Rightarrow> (EntryId \<times> (LogEntry \<times> nat)) list" where
  "archiveRow ts a r \<equiv> (case map_of a (entryKey (snd r)) of
     Some _ \<Rightarrow> a | None \<Rightarrow> a @ [(entryKey (snd r), (snd r, ts))])"

lemma archived_as_row: "archived_as ts {r} a (archiveRow ts a r)"
  by (auto simp: archived_as_def map_add_def split: option.split)

lemma archived_as_rows:
  "keyed_rows (set rows) \<Longrightarrow> archived_as ts (set rows) a (foldl (archiveRow ts) a rows)"
proof (induction rows arbitrary: a)
  case (Cons r rows)
  have "archived_as ts (set rows) (archiveRow ts a r) (foldl (archiveRow ts) (archiveRow ts a r) rows)"
    using Cons by (meson keyed_rows_mono set_subset_Cons)
  moreover have "keyed_rows ({r} \<union> set rows)" using Cons.prems by simp
  ultimately show ?case
    using archived_as_trans [OF _ archived_as_row, of r "set rows" ts a] by simp
qed simp

section \<open>The batched move is one move\<close>

definition coveredRow :: "string \<Rightarrow> string \<Rightarrow> nat \<Rightarrow> nat \<Rightarrow> LogRow \<Rightarrow> bool" where
  "coveredRow topic writer maxSeq maxRow r \<longleftrightarrow> inStream topic writer r \<and> e_seq (snd r) \<le> maxSeq \<and> fst r \<le> maxRow"

lemma length_filter_split:
  assumes "distinct xs" "distinct ys" "set ys \<subseteq> set (filter P xs)"
  shows "length (filter P xs) = length ys + length (filter P (filter (\<lambda>x. x \<notin> set ys) xs))"
proof -
  have "set (filter P (filter (\<lambda>x. x \<notin> set ys) xs)) = set (filter P xs) - set ys" by auto
  then have "card (set (filter P xs)) = card (set ys) + card (set (filter P (filter (\<lambda>x. x \<notin> set ys) xs)))"
    using assms(3) by (metis List.finite_set card_Diff_subset card_mono le_add_diff_inverse)
  then show ?thesis using assms(1,2) by (metis distinct_card distinct_filter)
qed

lemma archiveBatches_spec:
  assumes "log_table_ok d"
  shows "archiveBatches batch t w ms mr ts d n = (d', m) \<Longrightarrow>
    d' = d\<lparr>sq_log := filter (\<lambda>r. \<not> coveredRow t w ms mr r) (sq_log d), sq_archive := sq_archive d'\<rparr> \<and>
    m = n + length (filter (coveredRow t w ms mr) (sq_log d)) \<and>
    archived_as ts (set (filter (coveredRow t w ms mr) (sq_log d))) (sq_archive d) (sq_archive d')"
  using assms
proof (induction batch t w ms mr ts d n rule: archiveBatches.induct)
  case (1 batch t w ms mr ts d n)
  let ?c = "coveredRow t w ms mr"
  define all where "all = sort_key (\<lambda>r. e_seq (snd r)) (filter ?c (sq_log d))"
  define rows where "rows = take (Suc batch) all"
  define d1 where "d1 = d\<lparr>sq_log := removeRows rows (sq_log d), sq_archive := foldl (archiveRow ts) (sq_archive d) rows\<rparr>"
  have cond: "(\<lambda>r. inStream t w r \<and> e_seq (snd r) \<le> ms \<and> fst r \<le> mr) = ?c"
    by (simp add: coveredRow_def fun_eq_iff)
  have dist: "distinct (map fst (sq_log d))" using 1(3) by (simp add: log_table_ok_def strict_sorted_iff)
  have sub: "set rows \<subseteq> set (filter ?c (sq_log d))" by (auto simp: rows_def all_def dest: in_set_takeD)
  have drows: "distinct rows" using dist by (simp add: rows_def all_def distinct_map)
  have rm: "removeRows rows (sq_log d) = filter (\<lambda>r. r \<notin> set rows) (sq_log d)"
    by (rule removeRows_filter [OF dist]) (use sub in auto)
  have keyed: "keyed_rows (set rows)"
    by (rule keyed_rows_mono [OF keyed_rows_table [OF 1(3)]]) (use sub in auto)
  have put: "archived_as ts (set rows) (sq_archive d) (sq_archive d1)"
    using archived_as_rows [OF keyed, of ts "sq_archive d"] by (simp add: d1_def)
  have run: "archiveBatches batch t w ms mr ts d n =
      (if length rows < Suc batch then (d1, n + length rows) else archiveBatches batch t w ms mr ts d1 (n + length rows))"
    unfolding archiveBatches.simps [of batch t w ms mr ts d n] Let_def cond rows_def all_def d1_def ..
  show ?case
  proof (cases "length rows < Suc batch")
    case True
    then have "rows = all" by (simp add: rows_def)
    then have s: "set rows = set (filter ?c (sq_log d))" "length rows = length (filter ?c (sq_log d))"
      by (simp_all add: all_def)
    moreover have "filter (\<lambda>r. r \<notin> set rows) (sq_log d) = filter (\<lambda>r. \<not> ?c r) (sq_log d)"
      by (rule filter_cong) (simp_all add: s(1))
    ultimately show ?thesis using 1(2) True put run by (auto simp: d1_def rm)
  next
    case False
    have ok1: "log_table_ok d1" by (rule log_table_ok_filter [OF 1(3)]) (simp_all add: d1_def rm)
    have "archiveBatches batch t w ms mr ts d1 (n + length rows) = (d', m)" using 1(2) False run by simp
    then have ih: "d' = d1\<lparr>sq_log := filter (\<lambda>r. \<not> ?c r) (sq_log d1), sq_archive := sq_archive d'\<rparr>"
      "m = n + length rows + length (filter ?c (sq_log d1))"
      "archived_as ts (set (filter ?c (sq_log d1))) (sq_archive d1) (sq_archive d')"
      using 1(1) False ok1 by (simp_all add: cond rows_def all_def d1_def)
    have log1: "sq_log d1 = filter (\<lambda>r. r \<notin> set rows) (sq_log d)" by (simp add: d1_def rm)
    have "filter (\<lambda>r. \<not> ?c r) (sq_log d1) = filter (\<lambda>r. \<not> ?c r) (sq_log d)"
      unfolding log1 filter_filter by (rule filter_cong) (use sub in auto)
    moreover have "length (filter ?c (sq_log d)) = length rows + length (filter ?c (sq_log d1))"
      unfolding log1 by (rule length_filter_split [OF _ drows sub]) (use dist in \<open>simp add: distinct_map\<close>)
    moreover have "set (filter ?c (sq_log d)) = set rows \<union> set (filter ?c (sq_log d1))"
      using sub by (auto simp: log1)
    moreover have "archived_as ts (set rows \<union> set (filter ?c (sq_log d1))) (sq_archive d) (sq_archive d')"
      by (rule archived_as_trans [OF keyed_rows_mono [OF keyed_rows_table [OF 1(3)]] put ih(3)])
        (use sub log1 in auto)
    ultimately show ?thesis using ih by (auto simp: d1_def)
  qed
qed

lemma archiveCovered_spec:
  assumes "log_table_ok (db s)" "archiveCovered s t w ms mr ts = (n, s')"
  shows "db s' = (db s)\<lparr>sq_log := filter (\<lambda>r. \<not> coveredRow t w ms mr r) (sq_log (db s)), sq_archive := sq_archive (db s')\<rparr>"
    and "archived_as ts (set (filter (coveredRow t w ms mr) (sq_log (db s)))) (sq_archive (db s)) (sq_archive (db s'))"
    and "counts_ok s \<Longrightarrow> counts_ok s'"
proof -
  obtain d' m where run: "archiveBatches (PRUNE_BATCH - 1) t w ms mr ts (db s) 0 = (d', m)" by fastforce
  note spec = archiveBatches_spec [OF assms(1) run]
  have d': "db s' = d'"
    using assms(2) unfolding archiveCovered_def run
    by (auto simp: Let_def forgetCount_def split: if_splits option.splits)
  show db': "db s' = (db s)\<lparr>sq_log := filter (\<lambda>r. \<not> coveredRow t w ms mr r) (sq_log (db s)), sq_archive := sq_archive (db s')\<rparr>"
    and "archived_as ts (set (filter (coveredRow t w ms mr) (sq_log (db s)))) (sq_archive (db s)) (sq_archive (db s'))"
    using spec d' by simp_all
  have log: "sq_log (db s') = filter (\<lambda>r. \<not> coveredRow t w ms mr r) (sq_log (db s))"
    by (subst db') simp
  have counts: "logCounts s' = (if m > 0 then (logCounts s)(t := None) else logCounts s)"
    using assms(2) unfolding archiveCovered_def run
    by (auto simp: Let_def forgetCount_def split: if_splits option.splits)
  show "counts_ok s'" if ok: "counts_ok s"
  proof (cases "m > 0")
    case True
    then show ?thesis
      using counts by (intro counts_ok_forget [OF ok log]) (simp_all add: coveredRow_def inStream_def inTopic_def)
  next
    case False
    then have "filter (coveredRow t w ms mr) (sq_log (db s)) = []" using spec by simp
    then have "sq_log (db s') = sq_log (db s)" unfolding log by (simp add: filter_id_conv filter_empty_conv)
    then show ?thesis using ok counts False by (simp add: counts_ok_def countRows_def topicRows_def)
  qed
qed

section \<open>The loops of the hub\<close>

definition cutCovers :: "string \<Rightarrow> nat \<Rightarrow> Cut \<Rightarrow> LogRow \<Rightarrow> bool" where
  "cutCovers topic maxRow ct r \<longleftrightarrow> inTopic topic r \<and> fst r \<le> maxRow \<and>
     list_ex (\<lambda>(writer, seq, chain). 0 < seq \<and> e_writer (snd r) = writer \<and> e_seq (snd r) \<le> seq) ct"

lemma cutCovers_simps:
  "\<not> cutCovers t mr [] r"
  "cutCovers t mr ((w, n, c) # ct) r \<longleftrightarrow> 0 < n \<and> coveredRow t w n mr r \<or> cutCovers t mr ct r"
  by (auto simp: cutCovers_def coveredRow_def inStream_def inTopic_def)

lemma archiveCuts_spec:
  assumes "log_table_ok (db s)"
  shows "db (archiveCuts t mr ts ct s) = (db s)\<lparr>sq_log := filter (\<lambda>r. \<not> cutCovers t mr ct r) (sq_log (db s)),
      sq_archive := sq_archive (db (archiveCuts t mr ts ct s))\<rparr> \<and>
    archived_as ts (set (filter (cutCovers t mr ct) (sq_log (db s)))) (sq_archive (db s))
      (sq_archive (db (archiveCuts t mr ts ct s))) \<and>
    (counts_ok s \<longrightarrow> counts_ok (archiveCuts t mr ts ct s))"
  using assms
proof (induction ct arbitrary: s)
  case Nil
  then show ?case by (simp add: cutCovers_simps)
next
  case (Cons p ct)
  obtain w n c where p: "p = (w, n, c)" by (metis prod_cases3)
  show ?case
  proof (cases "n = 0")
    case True
    then show ?thesis using Cons by (simp add: p cutCovers_simps)
  next
    case False
    obtain m s1 where run: "archiveCovered s t w n mr ts = (m, s1)" by fastforce
    note one = archiveCovered_spec [OF Cons.prems run]
    let ?c = "coveredRow t w n mr"
    let ?d = "cutCovers t mr ct"
    have log1: "sq_log (db s1) = filter (\<lambda>r. \<not> ?c r) (sq_log (db s))" by (subst one(1)) simp
    have ok1: "log_table_ok (db s1)"
      by (rule log_table_ok_filter [OF Cons.prems log1]) (subst one(1), simp)
    note ih = Cons.IH [OF ok1]
    have whole: "cutCovers t mr (p # ct) = (\<lambda>r. ?c r \<or> ?d r)"
      using False by (simp add: p cutCovers_simps fun_eq_iff)
    let ?s2 = "archiveCuts t mr ts ct s1"
    have step: "archiveCuts t mr ts (p # ct) s = ?s2" using False by (simp add: p run)
    have "db ?s2 = (db s)\<lparr>sq_log := filter (\<lambda>r. \<not> cutCovers t mr (p # ct) r) (sq_log (db s)), sq_archive := sq_archive (db ?s2)\<rparr>"
    proof -
      have "db ?s2 = (db s1)\<lparr>sq_log := filter (\<lambda>r. \<not> ?d r) (sq_log (db s1)), sq_archive := sq_archive (db ?s2)\<rparr>"
        using ih by blast
      also have "\<dots> = (db s)\<lparr>sq_log := filter (\<lambda>r. \<not> ?d r) (sq_log (db s1)), sq_archive := sq_archive (db ?s2)\<rparr>"
        by (subst (1) one(1)) simp
      finally show ?thesis unfolding log1 filter_filter whole de_Morgan_disj .
    qed
    moreover have "archived_as ts (set (filter ?c (sq_log (db s))) \<union> set (filter ?d (sq_log (db s1)))) (sq_archive (db s))
        (sq_archive (db ?s2))"
      by (rule archived_as_trans [OF keyed_rows_mono [OF keyed_rows_table [OF Cons.prems]] one(2)])
        (use ih log1 in auto)
    moreover have "set (filter ?c (sq_log (db s))) \<union> set (filter ?d (sq_log (db s1))) =
        set (filter (cutCovers t mr (p # ct)) (sq_log (db s)))"
      unfolding log1 whole by auto
    ultimately show ?thesis unfolding step using ih one(3) by simp
  qed
qed

lemma gateCursors_least:
  "gateCursors stale t cs m0 d = (m, d', dropped) \<Longrightarrow>
    n \<le> m \<longleftrightarrow> n \<le> m0 \<and> (\<forall>(c, l, u) \<in> set cs. stale \<le> int u \<longrightarrow> n \<le> l)"
  by (induction stale t cs m0 d arbitrary: m d' dropped rule: gateCursors.induct)
    (fastforce split: if_splits prod.splits)+

lemma gateCursors_dropped:
  "gateCursors stale t cs m0 d = (m, d', dropped) \<Longrightarrow> dropped = map fst (filter (\<lambda>(c, l, u). int u < stale) cs)"
  by (induction stale t cs m0 d arbitrary: m d' dropped rule: gateCursors.induct)
    (fastforce split: if_splits prod.splits)+

lemma gateCursors_db:
  "gateCursors stale t cs m0 d = (m, d', dropped) \<Longrightarrow>
    d' = d\<lparr>sq_cursors := filter (\<lambda>p. \<not> (snd (fst p) = t \<and> fst (fst p) \<in> set dropped)) (sq_cursors d)\<rparr>"
proof (induction stale t cs m0 d arbitrary: m d' dropped rule: gateCursors.induct)
  case (2 stale t c l u cs m0 d)
  show ?case
  proof (cases "int u < stale")
    case True
    obtain m1 d1 dr where run: "gateCursors stale t cs m0 (cursorDelete d c t) = (m1, d1, dr)" by (metis prod_cases3)
    have del: "sq_cursors (cursorDelete d c t) = filter (\<lambda>p. fst p \<noteq> (c, t)) (sq_cursors d)"
      by (auto simp: cursorDelete_def AList.delete_eq intro!: filter_cong)
    have "d1 = (cursorDelete d c t)\<lparr>sq_cursors :=
        filter (\<lambda>p. \<not> (snd (fst p) = t \<and> fst (fst p) \<in> set dr)) (sq_cursors (cursorDelete d c t))\<rparr>"
      using "2.IH"(1) [OF True run] .
    moreover have "filter (\<lambda>p. \<not> (snd (fst p) = t \<and> fst (fst p) \<in> set dr)) (sq_cursors (cursorDelete d c t)) =
        filter (\<lambda>p. \<not> (snd (fst p) = t \<and> fst (fst p) \<in> set (c # dr))) (sq_cursors d)"
      unfolding del filter_filter by (rule filter_cong) (auto simp: prod_eq_iff)
    ultimately have "d1 = d\<lparr>sq_cursors := filter (\<lambda>p. \<not> (snd (fst p) = t \<and> fst (fst p) \<in> set (c # dr))) (sq_cursors d)\<rparr>"
      by (simp add: cursorDelete_def)
    then show ?thesis using 2(3) True run by auto
  next
    case False
    then show ?thesis using "2.prems" "2.IH"(2) by simp
  qed
qed simp

section \<open>What one run moves\<close>

definition archivable :: "Constants \<Rightarrow> nat \<Rightarrow> Db \<Rightarrow> string \<Rightarrow> FinalityCert \<Rightarrow> LogRow \<Rightarrow> bool" where
  "archivable K now d topic cert r \<longleftrightarrow> inTopic topic r \<and>
     list_ex (\<lambda>(writer, seq, chain). e_writer (snd r) = writer \<and> 0 < seq \<and> e_seq (snd r) \<le> seq) (cert_cut cert) \<and>
     list_all (\<lambda>(consumer, lastRowid, updatedAt). staleBefore K now \<le> int updatedAt \<longrightarrow> fst r \<le> lastRowid)
       (cursorsForTopic d topic)"

definition staleCursor :: "Constants \<Rightarrow> nat \<Rightarrow> string \<Rightarrow> (string \<times> string) \<times> (nat \<times> nat) \<Rightarrow> bool" where
  "staleCursor K now topic p \<longleftrightarrow> snd (fst p) = topic \<and> int (snd (snd p)) < staleBefore K now"

text \<open>The primary key of the cursor table.\<close>

definition cursors_keyed :: "Db \<Rightarrow> bool" where
  "cursors_keyed d \<longleftrightarrow> distinct (map fst (sq_cursors d))"

lemma dropped_are_stale:
  assumes "cursors_keyed d" "p \<in> set (sq_cursors d)"
    "dropped = map fst (filter (\<lambda>(c, l, u). int u < staleBefore K now) (cursorsForTopic d t))"
  shows "snd (fst p) = t \<and> fst (fst p) \<in> set dropped \<longleftrightarrow> staleCursor K now t p"
proof -
  have "fst (fst p) \<in> set dropped \<longleftrightarrow> int (snd (snd p)) < staleBefore K now" if "snd (fst p) = t"
  proof
    assume "fst (fst p) \<in> set dropped"
    then obtain q where q: "q \<in> set (sq_cursors d)" "snd (fst q) = t" "fst (fst q) = fst (fst p)"
      "int (snd (snd q)) < staleBefore K now"
      using assms(3) by (fastforce simp: cursorsForTopic_def)
    then have "q = p"
      using assms(1,2) that unfolding cursors_keyed_def by (metis eq_key_imp_eq_value prod.collapse)
    then show "int (snd (snd p)) < staleBefore K now" using q by simp
  next
    assume "int (snd (snd p)) < staleBefore K now"
    then show "fst (fst p) \<in> set dropped"
      using assms(2,3) that by (force simp: cursorsForTopic_def)
  qed
  then show ?thesis by (auto simp: staleCursor_def)
qed

lemma archiveNow_spec:
  assumes inv: "core_inv E s" and rowids: "log_autoinc (lc_db s) \<le> MAX_SAFE_INTEGER"
    and cert: "finalityGet (lc_db s) topic = Some cert" and run: "archiveNow K now topic s = (s', dropped)"
  shows "dropped = map fst (filter (\<lambda>(c, l, u). int u < staleBefore K now) (cursorsForTopic (lc_db s) topic))"
    and "lc_db s' = (lc_db s)\<lparr>sq_cursors := filter (\<lambda>p. \<not> (snd (fst p) = topic \<and> fst (fst p) \<in> set dropped)) (sq_cursors (lc_db s)),
      sq_log := filter (\<lambda>r. \<not> archivable K now (lc_db s) topic cert r) (sq_log (lc_db s)),
      sq_archive := sq_archive (lc_db s')\<rparr>"
    and "archived_as now {r \<in> set (sq_log (lc_db s)). archivable K now (lc_db s) topic cert r}
      (sq_archive (lc_db s)) (sq_archive (lc_db s'))"
    and "core_inv E s'"
proof -
  obtain s1 where c: "getCert topic s = (Some cert, s1)"
    using getCert_value [of s topic] inv cert by (metis core_inv_def prod.collapse)
  have st1: "lc_store s1 = lc_store s" using c by (auto simp: getCert_def Let_def split: option.splits)
  obtain m d dr where g: "gateCursors (staleBefore K now) topic (cursorsForTopic (lc_db s) topic) MAX_SAFE_INTEGER (lc_db s)
      = (m, d, dr)" by (metis prod_cases3)
  have s': "s' = s1\<lparr>lc_store := archiveCuts topic m now (cert_cut cert) ((lc_store s)\<lparr>db := d\<rparr>)\<rparr>" and dr: "dr = dropped"
    using run by (simp_all add: archiveNow_def c st1 g)
  show "dropped = map fst (filter (\<lambda>(c, l, u). int u < staleBefore K now) (cursorsForTopic (lc_db s) topic))"
    using gateCursors_dropped [OF g] dr by simp
  have d: "d = (lc_db s)\<lparr>sq_cursors := filter (\<lambda>p. \<not> (snd (fst p) = topic \<and> fst (fst p) \<in> set dropped)) (sq_cursors (lc_db s))\<rparr>"
    using gateCursors_db [OF g] dr by simp
  have ok: "stream_ok E (lc_db s)" "log_table_ok (lc_db s)" using inv by (simp_all add: core_inv_def stream_ok_def)
  have okd: "log_table_ok d" using ok(2) by (simp add: d log_table_ok_def)
  have counts: "counts_ok ((lc_store s)\<lparr>db := d\<rparr>)"
    using inv by (simp add: core_inv_def counts_ok_def countRows_def topicRows_def d)
  have same: "cutCovers topic m (cert_cut cert) r \<longleftrightarrow> archivable K now (lc_db s) topic cert r" if "r \<in> set (sq_log (lc_db s))" for r
  proof -
    have "fst r \<le> MAX_SAFE_INTEGER" using that ok(2) rowids by (force simp: log_table_ok_def)
    then show ?thesis using gateCursors_least [OF g, of "fst r"]
      by (auto simp: cutCovers_def archivable_def list_all_iff list_ex_iff)
  qed
  note cuts = archiveCuts_spec [of "(lc_store s)\<lparr>db := d\<rparr>" topic m now "cert_cut cert", simplified, OF okd]
  have log: "filter (\<lambda>r. \<not> cutCovers topic m (cert_cut cert) r) (sq_log d) =
      filter (\<lambda>r. \<not> archivable K now (lc_db s) topic cert r) (sq_log (lc_db s))"
    unfolding d by (auto intro!: filter_cong simp: same)
  have moved: "set (filter (cutCovers topic m (cert_cut cert)) (sq_log d)) =
      {r \<in> set (sq_log (lc_db s)). archivable K now (lc_db s) topic cert r}"
    using same by (auto simp: d)
  show db': "lc_db s' = (lc_db s)\<lparr>sq_cursors := filter (\<lambda>p. \<not> (snd (fst p) = topic \<and> fst (fst p) \<in> set dropped)) (sq_cursors (lc_db s)),
      sq_log := filter (\<lambda>r. \<not> archivable K now (lc_db s) topic cert r) (sq_log (lc_db s)),
      sq_archive := sq_archive (lc_db s')\<rparr>"
  proof -
    have "lc_db s' = d\<lparr>sq_log := filter (\<lambda>r. \<not> cutCovers topic m (cert_cut cert) r) (sq_log d), sq_archive := sq_archive (lc_db s')\<rparr>"
      using cuts unfolding s' by simp
    then show ?thesis unfolding log by (simp add: d)
  qed
  show "archived_as now {r \<in> set (sq_log (lc_db s)). archivable K now (lc_db s) topic cert r}
      (sq_archive (lc_db s)) (sq_archive (lc_db s'))"
    using cuts unfolding moved [symmetric] by (simp add: s' d)
  have "stream_ok E (lc_db s')"
    by (rule stream_ok_delete [OF ok(1), where P = "\<lambda>r. \<not> archivable K now (lc_db s) topic cert r"])
      (subst db', simp)+
  moreover have "counts_ok (lc_store s')" using cuts counts by (simp add: s')
  moreover have "heads s1 = heads s" "certs_ok s1" "floors s1 = floors s"
    using certsCache.read_coherent [of s topic] inv c
    by (auto simp: core_inv_def getCert_def Let_def split: option.splits)
  moreover have "finalityGet (lc_db s') = finalityGet (lc_db s)" "floorGet (lc_db s') = floorGet (lc_db s)"
      "storedHead E (lc_db s') = storedHead E (lc_db s)"
    by (subst db', simp add: finalityGet_def floorGet_def storedHead_def getWriter_def fun_eq_iff)+
  ultimately show "core_inv E s'"
    using inv st1 by (simp add: core_inv_def headsCache.coherent_def certsCache.coherent_def floorsCache.coherent_def s')
qed

lemma tryArchive_run:
  assumes "tryArchive K now topic h s = (h', s', dropped)" "topic \<notin> set (ah_busy h)"
  shows "archiveNow K now topic s = (s', dropped)" "h' = h"
  using assms by (auto simp: tryArchive_def Let_def split: prod.splits)

lemma stale_dropped_filter:
  assumes "cursors_keyed d"
    "dropped = map fst (filter (\<lambda>(c, l, u). int u < staleBefore K now) (cursorsForTopic d t))"
  shows "filter (\<lambda>p. \<not> (snd (fst p) = t \<and> fst (fst p) \<in> set dropped)) (sq_cursors d) =
    filter (\<lambda>p. \<not> staleCursor K now t p) (sq_cursors d)"
  by (rule filter_cong) (simp_all add: dropped_are_stale [OF assms(1) _ assms(2)])

text \<open>C26. Archiving a certified topic moves exactly the rows that the certificate covers and every
  live cursor has passed: they leave the hot log and stand in the cold table under their key (a row
  that was there before is kept), all others stay where they are; the cursors that have not moved
  for the finality window are dropped and named, the others stand; and the log core keeps its
  invariant.\<close>

theorem archive_moves_exactly:
  assumes "core_inv E s" "log_autoinc (lc_db s) \<le> MAX_SAFE_INTEGER" "cursors_keyed (lc_db s)"
    and "finalityGet (lc_db s) topic = Some cert" "topic \<notin> set (ah_busy h)"
    and "tryArchive K now topic h s = (h', s', dropped)"
  shows "sq_log (lc_db s') = filter (\<lambda>r. \<not> archivable K now (lc_db s) topic cert r) (sq_log (lc_db s)) \<and>
    archived_as now {r \<in> set (sq_log (lc_db s)). archivable K now (lc_db s) topic cert r}
      (sq_archive (lc_db s)) (sq_archive (lc_db s')) \<and>
    sq_cursors (lc_db s') = filter (\<lambda>p. \<not> staleCursor K now topic p) (sq_cursors (lc_db s)) \<and>
    dropped = map fst (filter (\<lambda>(c, l, u). int u < staleBefore K now) (cursorsForTopic (lc_db s) topic)) \<and>
    core_inv E s' \<and> h' = h"
proof -
  note run = tryArchive_run [OF assms(6,5)]
  note spec = archiveNow_spec [OF assms(1,2,4) run(1)]
  have "sq_log (lc_db s') = filter (\<lambda>r. \<not> archivable K now (lc_db s) topic cert r) (sq_log (lc_db s))"
    by (subst spec(2)) simp
  moreover have "sq_cursors (lc_db s') = filter (\<lambda>p. \<not> staleCursor K now topic p) (sq_cursors (lc_db s))"
    unfolding stale_dropped_filter [OF assms(3) spec(1), symmetric] by (subst spec(2)) simp
  ultimately show ?thesis using spec(1,3,4) run(2) by blast
qed

text \<open>C27. A live consumer does not notice: whatever is archived, its cursor stands, and every page it
  reads from there is the page it would have read before.\<close>

theorem archiving_unseen_by_live_consumer:
  assumes "core_inv E s" "log_autoinc (lc_db s) \<le> MAX_SAFE_INTEGER" "cursors_keyed (lc_db s)"
    and "map_of (sq_cursors (lc_db s)) (consumer, topic) = Some (lastRowid, updatedAt)"
    and "staleBefore K now \<le> int updatedAt" "tryArchive K now topic h s = (h', s', dropped)"
  shows "map_of (sq_cursors (lc_db s')) (consumer, topic) = Some (lastRowid, updatedAt) \<and>
    entriesForTopicFromRowid (lc_db s') topic (cursorGet (lc_db s') consumer topic) n =
    entriesForTopicFromRowid (lc_db s) topic (cursorGet (lc_db s) consumer topic) n"
proof (cases "topic \<in> set (ah_busy h) \<or> finalityGet (lc_db s) topic = None")
  case True
  have "lc_db s' = lc_db s"
  proof (cases "topic \<in> set (ah_busy h)")
    case False
    then have "finalityGet (lc_db s) topic = None" "archiveNow K now topic s = (s', dropped)"
      using True tryArchive_run [OF assms(6)] by simp_all
    then show ?thesis using getCert_value [of s topic] assms(1)
      by (auto simp: archiveNow_def core_inv_def getCert_def Let_def split: option.splits)
  qed (use assms(6) in \<open>simp add: tryArchive_def\<close>)
  then show ?thesis using assms(4) by simp
next
  case False
  then obtain cert where cert: "finalityGet (lc_db s) topic = Some cert" by auto
  have "topic \<notin> set (ah_busy h)" using False by blast
  note spec = archiveNow_spec [OF assms(1,2) cert tryArchive_run(1) [OF assms(6) this]]
  have key: "((consumer, topic), (lastRowid, updatedAt)) \<in> set (sq_cursors (lc_db s))"
    by (rule map_of_SomeD [OF assms(4)])
  have cursors: "sq_cursors (lc_db s') = filter (\<lambda>p. \<not> staleCursor K now topic p) (sq_cursors (lc_db s))"
    unfolding stale_dropped_filter [OF assms(3) spec(1), symmetric] by (subst spec(2)) simp
  have "distinct (map fst (sq_cursors (lc_db s')))"
    using assms(3) unfolding cursors by (simp add: cursors_keyed_def distinct_map_filter)
  moreover have "((consumer, topic), (lastRowid, updatedAt)) \<in> set (sq_cursors (lc_db s'))"
    using key assms(5) by (simp add: cursors staleCursor_def)
  ultimately have kept: "map_of (sq_cursors (lc_db s')) (consumer, topic) = Some (lastRowid, updatedAt)" by simp
  have log: "sq_log (lc_db s') = filter (\<lambda>r. \<not> archivable K now (lc_db s) topic cert r) (sq_log (lc_db s))"
    by (subst spec(2)) simp
  have ahead: "\<not> archivable K now (lc_db s) topic cert r" if "lastRowid < fst r" for r
  proof -
    have "(consumer, lastRowid, updatedAt) \<in> set (cursorsForTopic (lc_db s) topic)"
      using key by (force simp: cursorsForTopic_def)
    then show ?thesis using that assms(5) by (fastforce simp: archivable_def list_all_iff)
  qed
  have "filter (\<lambda>r. lastRowid < fst r) (topicRows (lc_db s') topic) = filter (\<lambda>r. lastRowid < fst r) (topicRows (lc_db s) topic)"
    unfolding topicRows_def log filter_filter by (rule filter_cong) (auto dest: ahead)
  then show ?thesis using kept assms(4) by (simp add: entriesForTopicFromRowid_def cursorGet_def)
qed

section \<open>A node with a certificate and two consumers\<close>

text \<open>
  The node that committed one append, with a certificate that covers it, a consumer that has not
  moved since the epoch and a live one, past the row or not.
\<close>

definition demo_arch_cert :: FinalityCert where
  "demo_arch_cert = \<lparr>cert_topic = ''t'', cert_order = (orderOf demo_first), cert_cut = [(''me'', 1, demo_hash)],
     cert_generation = 1, cert_authority = ''au'', cert_sig = ''sg''\<rparr>"

definition demo_archive_db :: "nat \<Rightarrow> Db" where
  "demo_archive_db lastRowid = (lc_db (q_core demo_after))\<lparr>sq_finality := [(''t'', demo_arch_cert)],
     sq_cursors := [((''old'', ''t''), (0, 5)), ((''new'', ''t''), (lastRowid, 2000000))]\<rparr>"

definition demo_archive_core :: "nat \<Rightarrow> LogCore" where
  "demo_archive_core lastRowid = LogCore_new (empty_store\<lparr>db := demo_archive_db lastRowid\<rparr>)"

definition demo_archive_consts :: Constants where
  "demo_archive_consts = DEFAULT_CONSTANTS\<lparr>FINALITY_WINDOW_MS := 1000000\<rparr>"

lemma demo_archive_fields [simp]:
  "lc_db (demo_archive_core n) = demo_archive_db n"
  "sq_log (demo_archive_db n) = [(1, demo_first)]"
  "sq_cursors (demo_archive_db n) = [((''old'', ''t''), (0, 5)), ((''new'', ''t''), (n, 2000000))]"
  "finalityGet (demo_archive_db n) ''t'' = Some demo_arch_cert"
  "staleBefore demo_archive_consts 2000000 = 1000000"
  by (simp_all add: demo_archive_core_def LogCore_new_def demo_archive_db_def demo_after_log finalityGet_def
      staleBefore_def demo_archive_consts_def)

lemma demo_archive_keyed: "cursors_keyed (demo_archive_db n)"
  by (simp add: cursors_keyed_def)

lemma demo_archive_autoinc: "log_autoinc (demo_archive_db n) \<le> MAX_SAFE_INTEGER"
  by (simp add: demo_archive_db_def demo_after_core commitFlush_def demo_applied_def MAX_SAFE_INTEGER_def split: prod.split)

lemma demo_archive_inv: "core_inv demo_env (demo_archive_core n)"
proof -
  have "stream_ok demo_env (lc_db (q_core demo_after))"
    using reach_inv [OF demo_reach] by (simp add: queue_inv_def core_inv_def)
  then have "stream_ok demo_env (demo_archive_db n)"
    by (subst stream_ok_cong [of _ "lc_db (q_core demo_after)"]) (simp_all add: demo_archive_db_def)
  then show ?thesis
    by (simp add: core_inv_def demo_archive_core_def LogCore_new_def counts_ok_def empty_store_def
        headsCache.coherent_def certsCache.coherent_def floorsCache.coherent_def)
qed

lemma demo_archivable:
  "archivable demo_archive_consts 2000000 (demo_archive_db n) ''t'' demo_arch_cert (1, demo_first) \<longleftrightarrow> 1 \<le> n"
  by (simp add: archivable_def cursorsForTopic_def inTopic_def demo_first_def demo_row_def demo_arch_cert_def)

theorem archive_moves_exactly_witness:
  "let run = tryArchive demo_archive_consts 2000000 ''t'' ArchiveHub_new (demo_archive_core 1); d = lc_db (fst (snd run)) in
   sq_log d = [] \<and> map_of (sq_archive d) (''t'', ''me'', 1) = Some (demo_first, 2000000) \<and>
   map fst (sq_cursors d) = [(''new'', ''t'')] \<and> snd (snd run) = [''old'']"
proof -
  obtain h' s' dropped where run: "tryArchive demo_archive_consts 2000000 ''t'' ArchiveHub_new (demo_archive_core 1) = (h', s', dropped)"
    by (metis prod_cases3)
  have "finalityGet (lc_db (demo_archive_core 1)) ''t'' = Some demo_arch_cert" "''t'' \<notin> set (ah_busy ArchiveHub_new)"
    by (simp_all add: ArchiveHub_new_def)
  note all = archive_moves_exactly [OF demo_archive_inv _ _ this run]
  have "entryKey demo_first = (''t'', ''me'', 1)" "sq_archive (demo_archive_db 1) = []"
    by (simp_all add: entryKey_def demo_first_def demo_row_def demo_archive_db_def demo_after_core commitFlush_def
        demo_applied_def empty_db_def upsertWriter_def metaSetHlc_def split: prod.split)
  then show ?thesis
    using all demo_archive_autoinc [of 1] demo_archive_keyed [of 1] demo_archivable [of 1]
    by (simp add: run [simplified] Let_def staleCursor_def cursorsForTopic_def archived_as_def)
qed

theorem archiving_unseen_witness:
  "map_of (sq_cursors (lc_db (fst (snd (tryArchive demo_archive_consts 2000000 ''t'' ArchiveHub_new (demo_archive_core 0))))))
     (''new'', ''t'') = Some (0, 2000000)"
proof -
  obtain h' s' dropped where run: "tryArchive demo_archive_consts 2000000 ''t'' ArchiveHub_new (demo_archive_core 0) = (h', s', dropped)"
    by (metis prod_cases3)
  show ?thesis
    using archiving_unseen_by_live_consumer [OF demo_archive_inv _ _ _ _ run, of "''new''" 0 2000000]
      demo_archive_autoinc [of 0] demo_archive_keyed [of 0] by (simp add: run)
qed

end
