(* ===== verification/Topic_Export.thy ===== *)
theory Topic_Export
  imports Messages
begin

text \<open>
  \<^verbatim>\<open>src/export.ts\<close>: a topic as a stream of JSON lines, and back. The export is a
  generator: the header is built when its first line is asked for, each batch of rows is read when
  the one before it is used up, so the databases it reads may differ. The import consumes lines;
  it waits for the adoption of every floor of the header, hands each entry to the queue without
  waiting, and waits for all of them at the end. Its state between two awaits is an \<open>Importer\<close>;
  tickets of the queue stand for promises. JSON text is a parameter (\<open>WireJson\<close>).
\<close>

section \<open>Export\<close>

definition EXPORT_BATCH :: nat where
  "EXPORT_BATCH = 500"

text \<open>The declared base: genesis, unless a writer of a certified topic has lost its first row.\<close>

definition exportBase :: "Db \<Rightarrow> string \<Rightarrow> FinalityCert option \<Rightarrow> jsval" where
  "exportBase d topic cert = (case cert of
     None \<Rightarrow> JStr ''genesis''
   | Some c \<Rightarrow> if list_ex (\<lambda>writer. entriesRange d topic writer 1 1 = []) (topicWriters d topic)
               then JObj [(''order'', order_js (cert_order c)), (''cut'', cut_js (cert_cut c))]
               else JStr ''genesis'')"

definition floors_js :: "(string \<times> nat \<times> string) list \<Rightarrow> jsval" where
  "floors_js fs = JObj (map (\<lambda>(writer, seq, chain).
     (writer, JObj [(''seq'', JNum (num_of_nat seq)), (''chain'', JStr chain)])) fs)"

definition exportHeader :: "string \<Rightarrow> LogCore \<Rightarrow> jsval \<times> LogCore" where
  "exportHeader topic s = (case getCert topic s of
     (cert, s1) \<Rightarrow>
       let fs = floorsForTopic (lc_db s1) topic in
       (JObj ([(''seqscribe'', JStr ''export/v1''), (''topic'', JStr topic),
               (''base'', exportBase (lc_db s1) topic cert)] @
              (if fs = [] then [] else [(''floors'', floors_js fs)])), s1))"

text \<open>The loop over the batches; the \<open>i\<close>-th database is the one the \<open>i\<close>-th batch is read from.\<close>

fun exportRows :: "string \<Rightarrow> nat \<Rightarrow> Db list \<Rightarrow> LogRow list" where
  "exportRows topic afterRowid [] = []"
| "exportRows topic afterRowid (d # ds) =
     (let rows = entriesForTopicFromRowid d topic afterRowid EXPORT_BATCH in
      if rows = [] then [] else rows @ exportRows topic (fst (last rows)) ds)"

text \<open>Whether the loop has come to its end in these databases.\<close>

fun exportEnds :: "string \<Rightarrow> nat \<Rightarrow> Db list \<Rightarrow> bool" where
  "exportEnds topic afterRowid [] = False"
| "exportEnds topic afterRowid (d # ds) =
     (let rows = entriesForTopicFromRowid d topic afterRowid EXPORT_BATCH in
      if rows = [] then True else exportEnds topic (fst (last rows)) ds)"

definition exportTopic :: "WireJson \<Rightarrow> LogEnv \<Rightarrow> string \<Rightarrow> LogCore \<Rightarrow> Db list \<Rightarrow> string list result" where
  "exportTopic J E topic s ds =
     rbind (reg_get (registry E) topic) (\<lambda>_.
       Inr (jsonStringify J (fst (exportHeader topic s)) #
            map (\<lambda>r. jsonStringify J (entry_js (snd r))) (exportRows topic 0 ds)))"

section \<open>Lines\<close>

text \<open>
  \<^verbatim>\<open>String.prototype.trim\<close> on UTF-8 bytes: the white space and line terminators of the
  language, of one, two and three bytes.
\<close>

definition byteStr :: "nat list \<Rightarrow> string" where
  "byteStr ns = map char_of ns"

definition JS_SPACES :: "string list" where
  "JS_SPACES = map byteStr ([[9], [10], [11], [12], [13], [32], [194, 160], [225, 154, 128], [239, 187, 191],
     [226, 128, 168], [226, 128, 169], [226, 128, 175], [226, 129, 159], [227, 128, 128]] @
     map (\<lambda>n. [226, 128, n]) [128..<139])"

function trimLeft :: "string list \<Rightarrow> string \<Rightarrow> string" where
  "trimLeft spaces s =
     (case List.find (\<lambda>w. w \<noteq> [] \<and> take (length w) s = w) spaces of
        None \<Rightarrow> s | Some w \<Rightarrow> trimLeft spaces (drop (length w) s))"
  by pat_completeness auto
termination
proof (relation "measure (\<lambda>(spaces, s). length s)")
  fix spaces :: "string list" and s w :: string
  assume "List.find (\<lambda>w. w \<noteq> [] \<and> take (length w) s = w) spaces = Some w"
  then have "w \<noteq> []" "take (length w) s = w" by (auto simp: find_Some_iff)
  then show "((spaces, drop (length w) s), (spaces, s)) \<in> measure (\<lambda>(spaces, s). length s)"
    by (cases s) auto
qed simp

declare trimLeft.simps [simp del]

definition jsTrim :: "string \<Rightarrow> string" where
  "jsTrim s = rev (trimLeft (map rev JS_SPACES) (rev (trimLeft JS_SPACES s)))"

section \<open>Import\<close>

datatype ImportErr = BadJson | BadType | Refuses ErrCode

datatype ImportPhase =
    AwaitLine                                   \<comment> \<open>the head of the loop\<close>
  | AwaitFloor nat "(string \<times> jsval) list"     \<comment> \<open>the ticket, the floors of the header that remain\<close>
  | AwaitAll                                    \<comment> \<open>\<^verbatim>\<open>Promise.all(pending)\<close>\<close>
  | ImportDone "ImportErr + nat"

record Importer =
  im_header :: bool
  im_pending :: "nat list"
  im_phase :: ImportPhase

definition importStart :: "LogEnv \<Rightarrow> string \<Rightarrow> Importer" where
  "importStart E topic = \<lparr>im_header = False, im_pending = [],
     im_phase = (case reg_get (registry E) topic of Inl err \<Rightarrow> ImportDone (Inl (Refuses err)) | Inr _ \<Rightarrow> AwaitLine)\<rparr>"

definition importFail :: "ImportErr \<Rightarrow> Importer \<Rightarrow> Importer" where
  "importFail err im = im\<lparr>im_phase := ImportDone (Inl err)\<rparr>"

text \<open>\<^verbatim>\<open>Object.entries\<close> of the header's floors, when they are an object at all.\<close>

definition headerFloors :: "jsval \<Rightarrow> (string \<times> jsval) list" where
  "headerFloors h = (case getProp h ''floors'' of
     JObj ps \<Rightarrow> ps
   | JArr xs \<Rightarrow> map (\<lambda>i. (nat_str i, arrGet xs i)) [0..<length xs]
   | _ \<Rightarrow> [])"

text \<open>A floor the import adopts: a positive safe sequence number, a chain, a legal writer.\<close>

definition floorFields :: "string \<Rightarrow> jsval \<Rightarrow> (nat \<times> string) option" where
  "floorFields writer f = (case getProp f ''seq'' of
     JNum n \<Rightarrow>
       if \<not> isSafeInteger n \<or> num_less n 1 then None
       else (case getProp f ''chain'' of
               JStr chain \<Rightarrow> (case assertWriter (JStr writer) of
                   Inl _ \<Rightarrow> None | Inr _ \<Rightarrow> Some (nat_of_num n, chain))
             | _ \<Rightarrow> None)
   | _ \<Rightarrow> None)"

fun nextFloor :: "LogEnv \<Rightarrow> string \<Rightarrow> (string \<times> jsval) list \<Rightarrow> Importer \<times> LogQueue \<Rightarrow> Importer \<times> LogQueue" where
  "nextFloor E topic [] (im, q) = (im\<lparr>im_phase := AwaitLine\<rparr>, q)"
| "nextFloor E topic ((writer, f) # fs) (im, q) = (case floorFields writer f of
     None \<Rightarrow> nextFloor E topic fs (im, q)
   | Some (seq, chain) \<Rightarrow> (case preOpen (q_closed q) (QAdoptFloor topic writer seq chain) of
        Inl err \<Rightarrow> (importFail (Refuses err) im, q)
      | Inr item \<Rightarrow> (im\<lparr>im_phase := AwaitFloor (q_next q) fs\<rparr>, push E item q)))"

definition importHeader :: "LogEnv \<Rightarrow> string \<Rightarrow> jsval \<Rightarrow> Importer \<times> LogQueue \<Rightarrow> Importer \<times> LogQueue" where
  "importHeader E topic h = (\<lambda>(im, q).
     if h = JNull then (importFail BadType im, q)
     else if getProp h ''seqscribe'' \<noteq> JStr ''export/v1'' then (importFail (Refuses ERR_ENTRY_ENCODING) im, q)
     else if getProp h ''topic'' \<noteq> JStr topic then (importFail (Refuses ERR_MISUSE) im, q)
     else nextFloor E topic (headerFloors h) (im\<lparr>im_header := True\<rparr>, q))"

definition importEntry :: "LogEnv \<Rightarrow> string \<Rightarrow> jsval \<Rightarrow> Importer \<times> LogQueue \<Rightarrow> Importer \<times> LogQueue" where
  "importEntry E topic v = (\<lambda>(im, q).
     case validateEntry (prims E) (constants E) v of
       Inl err \<Rightarrow> (importFail (Refuses err) im, q)
     | Inr e \<Rightarrow>
         if e_topic e \<noteq> topic then (importFail (Refuses ERR_ENTRY_ENCODING) im, q)
         else (case preExternal E (q_closed q) e (Some ''import'') of
                 Inl err \<Rightarrow> (importFail (Refuses err) im, q)
               | Inr item \<Rightarrow> (im\<lparr>im_pending := im_pending im @ [q_next q]\<rparr>, push E item q)))"

text \<open>One turn of the loop up to its next await.\<close>

definition importLine :: "WireJson \<Rightarrow> LogEnv \<Rightarrow> string \<Rightarrow> string \<Rightarrow> Importer \<times> LogQueue \<Rightarrow> Importer \<times> LogQueue" where
  "importLine J E topic line = (\<lambda>(im, q).
     let trimmed = jsTrim line in
     if trimmed = [] then (im, q)
     else (case jsonParse J trimmed of
             None \<Rightarrow> (importFail BadJson im, q)
           | Some v \<Rightarrow> if \<not> im_header im then importHeader E topic v (im, q) else importEntry E topic v (im, q)))"

text \<open>The floor's promise has settled.\<close>

definition importFloorSettled :: "LogEnv \<Rightarrow> string \<Rightarrow> Importer \<times> LogQueue \<Rightarrow> Importer \<times> LogQueue" where
  "importFloorSettled E topic = (\<lambda>(im, q). case im_phase im of
     AwaitFloor i fs \<Rightarrow> (case map_of (q_done q) i of
        None \<Rightarrow> (im, q)
      | Some (RReject err) \<Rightarrow> (importFail (Refuses err) im, q)
      | Some _ \<Rightarrow> nextFloor E topic fs (im, q))
   | _ \<Rightarrow> (im, q))"

definition importEnd :: "Importer \<Rightarrow> Importer" where
  "importEnd im = (if \<not> im_header im then importFail (Refuses ERR_ENTRY_ENCODING) im else im\<lparr>im_phase := AwaitAll\<rparr>)"

definition pendingOutcomes :: "Importer \<Rightarrow> LogQueue \<Rightarrow> Outcome option list" where
  "pendingOutcomes im q = map (map_of (q_done q)) (im_pending im)"

text \<open>
  \<^verbatim>\<open>Promise.all\<close>: the first rejection, or, when all have settled, the number of entries that
  were applied.
\<close>

definition importFinish :: "LogQueue \<Rightarrow> Importer \<Rightarrow> Importer" where
  "importFinish q im = (if im_phase im \<noteq> AwaitAll then im
     else case List.map_filter (\<lambda>x. case x of Some (RReject err) \<Rightarrow> Some err | _ \<Rightarrow> None) (pendingOutcomes im q) of
       err # _ \<Rightarrow> importFail (Refuses err) im
     | [] \<Rightarrow> if list_all (\<lambda>x. x \<noteq> None) (pendingOutcomes im q)
             then im\<lparr>im_phase := ImportDone (Inr (length (filter (\<lambda>x. x = Some (RApply Applied)) (pendingOutcomes im q))))\<rparr>
             else im)"

section \<open>The import on an idle log\<close>

text \<open>
  The whole import when nothing else uses the log: a flush serves each floor it waits for, the lines
  come without a pause, and one flush serves the entries.
\<close>

fun awaitFloors :: "LogEnv \<Rightarrow> (nat \<Rightarrow> nat) \<Rightarrow> string \<Rightarrow> nat \<Rightarrow> Importer \<times> LogQueue \<Rightarrow> Importer \<times> LogQueue" where
  "awaitFloors E clk topic 0 x = x"
| "awaitFloors E clk topic (Suc n) (im, q) = (case im_phase im of
     AwaitFloor _ _ \<Rightarrow> awaitFloors E clk topic n (importFloorSettled E topic (im, flush E clk None q))
   | _ \<Rightarrow> (im, q))"

fun importLines ::
  "WireJson \<Rightarrow> LogEnv \<Rightarrow> (nat \<Rightarrow> nat) \<Rightarrow> string \<Rightarrow> string list \<Rightarrow> Importer \<times> LogQueue \<Rightarrow> Importer \<times> LogQueue" where
  "importLines J E clk topic [] (im, q) = (if im_phase im = AwaitLine then importEnd im else im, q)"
| "importLines J E clk topic (l # ls) (im, q) =
     (if im_phase im \<noteq> AwaitLine then (im, q)
      else (case importLine J E topic l (im, q) of
        (im1, q1) \<Rightarrow> importLines J E clk topic ls
          (case im_phase im1 of
             AwaitFloor _ fs \<Rightarrow> awaitFloors E clk topic (Suc (length fs)) (im1, q1)
           | _ \<Rightarrow> (im1, q1))))"

definition importTopic ::
  "WireJson \<Rightarrow> LogEnv \<Rightarrow> (nat \<Rightarrow> nat) \<Rightarrow> string \<Rightarrow> string list \<Rightarrow> LogQueue \<Rightarrow> Importer \<times> LogQueue" where
  "importTopic J E clk topic ls q = importLines J E clk topic ls (importStart E topic, q)"

end
