(* ===== verification/Export_Rules.thy ===== *)
theory Export_Rules
  imports Topic_Export Log_Demo
begin

text \<open>
  An export lists the rows of its topic once each, in the order of the table, whatever is written
  or removed while it runs; and importing an exported stream first adopts its floors, then hands
  the queue exactly its entries, in its order.
\<close>

section \<open>The rows of an export\<close>

lemma topicRows_ascending: "log_table_ok d \<Longrightarrow> sorted_wrt (\<lambda>a b. fst a < fst b) (topicRows d topic)"
  by (simp add: topicRows_def log_table_ok_def sorted_wrt_map sorted_wrt_filter)

lemma page_spec:
  assumes "log_table_ok d" "rows = entriesForTopicFromRowid d topic after n" "rows \<noteq> []"
  shows "sorted_wrt (\<lambda>a b. fst a < fst b) rows" "\<And>r. r \<in> set rows \<Longrightarrow> after < fst r \<and> fst r \<le> fst (last rows)"
    and "\<And>r. r \<in> set (topicRows d topic) \<Longrightarrow> after < fst r \<Longrightarrow> r \<in> set rows \<or> fst (last rows) < fst r"
    and "set rows \<subseteq> set (topicRows d topic)"
proof -
  let ?all = "filter (\<lambda>r. after < fst r) (topicRows d topic)"
  have sorted: "sorted_wrt (\<lambda>a b. fst a < fst b) ?all" by (rule sorted_wrt_filter [OF topicRows_ascending [OF assms(1)]])
  have rows: "rows = take n ?all" using assms(2) by (simp add: entriesForTopicFromRowid_def)
  show s: "sorted_wrt (\<lambda>a b. fst a < fst b) rows" unfolding rows by (rule sorted_wrt_take [OF sorted])
  have split: "?all = butlast rows @ [last rows] @ drop n ?all"
  proof -
    have "?all = rows @ drop n ?all" by (simp add: rows)
    also have "rows = butlast rows @ [last rows]" using assms(3) by simp
    finally show ?thesis by simp
  qed
  show "r \<in> set rows \<Longrightarrow> after < fst r \<and> fst r \<le> fst (last rows)" for r
  proof -
    assume r: "r \<in> set rows"
    then have "r \<in> set (butlast rows) \<or> r = last rows" using assms(3) by (metis append_butlast_last_id insert_iff list.set(2) rotate1.simps(2) set_rotate1)
    moreover have "fst x < fst (last rows)" if "x \<in> set (butlast rows)" for x
      using sorted that by (subst (asm) split) (simp add: sorted_wrt_append)
    moreover have "after < fst r" using r by (auto simp: rows dest: in_set_takeD)
    ultimately show "after < fst r \<and> fst r \<le> fst (last rows)" by (metis less_imp_le order_refl)
  qed
  show "r \<in> set rows \<or> fst (last rows) < fst r" if "r \<in> set (topicRows d topic)" "after < fst r" for r
  proof -
    have "r \<in> set ?all" using that by simp
    then have "r \<in> set rows \<or> r \<in> set (drop n ?all)"
      unfolding rows by (metis Un_iff append_take_drop_id set_append)
    moreover have "fst (last rows) < fst x" if "x \<in> set (drop n ?all)" for x
      using sorted that by (subst (asm) split) (simp add: sorted_wrt_append)
    ultimately show ?thesis by blast
  qed
  show "set rows \<subseteq> set (topicRows d topic)" unfolding rows by (auto dest: in_set_takeD)
qed

lemma exportRows_spec:
  assumes "\<forall>d \<in> set ds. log_table_ok d"
  shows "sorted_wrt (\<lambda>a b. fst a < fst b) (exportRows topic after ds) \<and>
    (\<forall>r \<in> set (exportRows topic after ds). after < fst r \<and> (\<exists>d \<in> set ds. r \<in> set (topicRows d topic))) \<and>
    (exportEnds topic after ds \<longrightarrow>
      (\<forall>r. after < fst r \<and> (\<forall>d \<in> set ds. r \<in> set (topicRows d topic)) \<longrightarrow> r \<in> set (exportRows topic after ds)))"
  using assms
proof (induction ds arbitrary: after)
  case (Cons d ds)
  define rows where "rows = entriesForTopicFromRowid d topic after EXPORT_BATCH"
  show ?case
  proof (cases "rows = []")
    case True
    have "filter (\<lambda>r. after < fst r) (topicRows d topic) = []"
      using True by (simp add: rows_def entriesForTopicFromRowid_def EXPORT_BATCH_def)
    then show ?thesis using True by (auto simp: rows_def Let_def filter_empty_conv)
  next
    case False
    have ok: "log_table_ok d" using Cons.prems by simp
    note page = page_spec [OF ok rows_def False]
    have whole: "exportRows topic after (d # ds) = rows @ exportRows topic (fst (last rows)) ds"
      "exportEnds topic after (d # ds) = exportEnds topic (fst (last rows)) ds"
      using False by (simp_all add: rows_def Let_def)
    have ih: "sorted_wrt (\<lambda>a b. fst a < fst b) (exportRows topic (fst (last rows)) ds)"
      "\<forall>r \<in> set (exportRows topic (fst (last rows)) ds). fst (last rows) < fst r \<and> (\<exists>d \<in> set ds. r \<in> set (topicRows d topic))"
      "exportEnds topic (fst (last rows)) ds \<longrightarrow>
        (\<forall>r. fst (last rows) < fst r \<and> (\<forall>d \<in> set ds. r \<in> set (topicRows d topic)) \<longrightarrow> r \<in> set (exportRows topic (fst (last rows)) ds))"
      using Cons.IH [of "fst (last rows)"] Cons.prems by simp_all
    have "after < fst (last rows)" using page(2) [of "last rows"] False by simp
    then have "sorted_wrt (\<lambda>a b. fst a < fst b) (rows @ exportRows topic (fst (last rows)) ds)"
      using page(1,2) ih(1,2) by (fastforce simp: sorted_wrt_append intro: le_less_trans)
    moreover have "\<forall>r \<in> set (rows @ exportRows topic (fst (last rows)) ds). after < fst r \<and> (\<exists>d \<in> set (d # ds). r \<in> set (topicRows d topic))"
      using page(2,4) ih(2) \<open>after < fst (last rows)\<close> by fastforce
    moreover have "r \<in> set (rows @ exportRows topic (fst (last rows)) ds)"
      if "exportEnds topic (fst (last rows)) ds" "after < fst r" "\<forall>d \<in> set (d # ds). r \<in> set (topicRows d topic)" for r
    proof (cases "r \<in> set rows")
      case False
      then have "fst (last rows) < fst r" using page(3) [of r] that by simp
      moreover have "\<forall>d \<in> set ds. r \<in> set (topicRows d topic)" using that(3) by simp
      ultimately have "r \<in> set (exportRows topic (fst (last rows)) ds)" using ih(3) that(1) by blast
      then show ?thesis by simp
    qed simp
    ultimately show ?thesis unfolding whole by blast
  qed
qed simp

text \<open>C35. An export that runs to its end lists rows in ascending rowid order, each once and each as it
  stood in the log when its batch was read; every row of the topic that is there throughout is
  listed, however the log changes between the batches; and of a log that does not change, it is
  exactly the rows of the topic.\<close>

theorem export_lists_topic:
  assumes "\<forall>d \<in> set ds. log_table_ok d" "exportEnds topic 0 ds"
  shows "sorted_wrt (\<lambda>a b. fst a < fst b) (exportRows topic 0 ds) \<and>
    (\<forall>r \<in> set (exportRows topic 0 ds). \<exists>d \<in> set ds. r \<in> set (topicRows d topic)) \<and>
    (\<forall>r. (\<forall>d \<in> set ds. r \<in> set (topicRows d topic)) \<longrightarrow> r \<in> set (exportRows topic 0 ds)) \<and>
    (\<forall>d. set ds = {d} \<longrightarrow> exportRows topic 0 ds = topicRows d topic)"
proof -
  note spec = exportRows_spec [OF assms(1), of topic 0]
  have "ds \<noteq> []" using assms(2) by auto
  then obtain d0 where d0: "d0 \<in> set ds" by (cases ds) auto
  have all: "r \<in> set (exportRows topic 0 ds)" if "\<forall>d \<in> set ds. r \<in> set (topicRows d topic)" for r
  proof -
    have "r \<in> set (sq_log d0)" using that d0 by (auto simp: topicRows_def)
    then have "0 < fst r" using assms(1) d0 by (force simp: log_table_ok_def)
    then show ?thesis using spec assms(2) that by blast
  qed
  have one: "exportRows topic 0 ds = topicRows d topic" if "set ds = {d}" for d
  proof -
    have same: "set (exportRows topic 0 ds) = set (topicRows d topic)" using spec all that by auto
    have ok: "log_table_ok d" using assms(1) that by simp
    have s: "sorted_wrt (<) (map fst (exportRows topic 0 ds))" "sorted_wrt (<) (map fst (topicRows d topic))"
      using spec topicRows_ascending [OF ok] by (simp_all add: sorted_wrt_map)
    have "inj_on fst (set (exportRows topic 0 ds) \<union> set (topicRows d topic))"
      using log_table_rowid_unique [OF ok] unfolding same by (auto simp: inj_on_def topicRows_def)
    then show ?thesis
      using map_sorted_distinct_set_unique [of fst "exportRows topic 0 ds" "topicRows d topic"] s same
      by (simp add: strict_sorted_iff)
  qed
  show ?thesis using spec all one by blast
qed

section \<open>Lines survive the transport\<close>

text \<open>What \<^verbatim>\<open>JSON.stringify\<close> does with an object, and \<^verbatim>\<open>JSON.parse\<close> with the result.\<close>

definition json_object_text :: "WireJson \<Rightarrow> jsval \<Rightarrow> bool" where
  "json_object_text J v \<longleftrightarrow> jsonParse J (jsonStringify J v) = Some v \<and>
     (\<exists>t. jsonStringify J v = CHR ''{'' # t @ [CHR ''}''])"

lemma trimLeft_keeps:
  assumes "\<forall>w \<in> set spaces. w \<noteq> [] \<longrightarrow> hd w \<noteq> c"
  shows "trimLeft spaces (c # s) = c # s"
proof -
  have "List.find (\<lambda>w. w \<noteq> [] \<and> take (length w) (c # s) = w) spaces = None"
    unfolding find_None_iff
  proof safe
    fix w assume w: "w \<in> set spaces" "w \<noteq> []" "take (length w) (c # s) = w"
    then have "hd w = c" by (metis hd_take length_greater_0_conv list.sel(1))
    then show False using assms w by blast
  qed
  then show ?thesis by (subst trimLeft.simps) simp
qed

lemma spaces_no_brace:
  "\<forall>w \<in> set JS_SPACES. w \<noteq> [] \<longrightarrow> hd w \<noteq> CHR ''{''" "\<forall>w \<in> set (map rev JS_SPACES). w \<noteq> [] \<longrightarrow> hd w \<noteq> CHR ''}''"
  by code_simp+

lemma jsTrim_object: "jsTrim (CHR ''{'' # t @ [CHR ''}'']) = CHR ''{'' # t @ [CHR ''}'']"
proof -
  have "trimLeft (map rev JS_SPACES) (CHR ''}'' # rev t @ [CHR ''{'']) = CHR ''}'' # rev t @ [CHR ''{'']"
    by (rule trimLeft_keeps [OF spaces_no_brace(2)])
  then show ?thesis by (simp add: jsTrim_def trimLeft_keeps [OF spaces_no_brace(1)])
qed

lemma importLine_object:
  assumes "json_object_text J v"
  shows "importLine J E topic (jsonStringify J v) (im, q) =
    (if \<not> im_header im then importHeader E topic v (im, q) else importEntry E topic v (im, q))"
proof -
  obtain t where t: "jsonStringify J v = CHR ''{'' # t @ [CHR ''}'']" "jsonParse J (jsonStringify J v) = Some v"
    using assms by (auto simp: json_object_text_def)
  have "jsTrim (jsonStringify J v) = jsonStringify J v" unfolding t(1) by (rule jsTrim_object)
  moreover have "jsonStringify J v \<noteq> []" by (simp add: t(1))
  ultimately show ?thesis using t(2) by (simp add: importLine_def Let_def)
qed

section \<open>Floors\<close>

definition floorPush :: "LogEnv \<Rightarrow> string \<Rightarrow> string \<times> nat \<times> string \<Rightarrow> LogQueue \<Rightarrow> LogQueue" where
  "floorPush E topic = (\<lambda>(writer, seq, chain). push E (QAdoptFloor topic writer seq chain))"

definition adoptAll :: "LogEnv \<Rightarrow> (nat \<Rightarrow> nat) \<Rightarrow> string \<Rightarrow> (string \<times> nat \<times> string) list \<Rightarrow> LogQueue \<Rightarrow> LogQueue" where
  "adoptAll E clk topic fs q = foldl (\<lambda>q f. flush E clk None (floorPush E topic f q)) q fs"

text \<open>No flush of an adoption fails.\<close>

fun floorsServed :: "LogEnv \<Rightarrow> (nat \<Rightarrow> nat) \<Rightarrow> string \<Rightarrow> (string \<times> nat \<times> string) list \<Rightarrow> LogQueue \<Rightarrow> bool" where
  "floorsServed E clk topic [] q = True"
| "floorsServed E clk topic (f # fs) q =
     (let q1 = flush E clk None (floorPush E topic f q) in
      (case map_of (q_done q1) (q_next q) of None \<Rightarrow> False | Some (RReject _) \<Rightarrow> False | Some _ \<Rightarrow> True) \<and>
      floorsServed E clk topic fs q1)"

definition floor_ok :: "string \<times> nat \<times> string \<Rightarrow> bool" where
  "floor_ok = (\<lambda>(writer, seq, chain). 1 \<le> seq \<and> seq \<le> MAX_SAFE_INTEGER \<and> WRITER_RE writer \<and> name_ok writer)"

lemma push_frame [simp]: "q_closed (push E item q) = q_closed q" "q_next (push E item q) = Suc (q_next q)"
  by (simp_all add: push_def Let_def)

lemma flush_closed [simp]: "q_closed (flush E clk fault q) = q_closed q"
  by (simp add: flush_def Let_def rejectQueueClosed_def split: sum.split prod.split)

lemma floorFields_export:
  assumes "floor_ok (w, n, c)"
  shows "floorFields w (JObj [(''seq'', JNum (num_of_nat n)), (''chain'', JStr c)]) = Some (n, c)"
proof -
  have "assertWriter (JStr w) = Inr w" using assms by (simp add: assertWriter_Inr floor_ok_def)
  then show ?thesis using assms by (simp add: floorFields_def floor_ok_def)
qed

abbreviation floorProps :: "(string \<times> nat \<times> string) list \<Rightarrow> (string \<times> jsval) list" where
  "floorProps fs \<equiv> map (\<lambda>(writer, seq, chain). (writer, JObj [(''seq'', JNum (num_of_nat seq)), (''chain'', JStr chain)])) fs"

lemma nextFloor_export:
  assumes "\<not> q_closed q" "list_all floor_ok fs"
  shows "nextFloor E topic (floorProps fs) (im, q) = (case fs of
      [] \<Rightarrow> (im\<lparr>im_phase := AwaitLine\<rparr>, q)
    | f # fs' \<Rightarrow> (im\<lparr>im_phase := AwaitFloor (q_next q) (floorProps fs')\<rparr>, floorPush E topic f q))"
proof (cases fs)
  case (Cons f fs')
  obtain w n c where f: "f = (w, n, c)" by (metis prod_cases3)
  then have "floorFields w (JObj [(''seq'', JNum (num_of_nat n)), (''chain'', JStr c)]) = Some (n, c)"
    using floorFields_export assms(2) Cons by simp
  then show ?thesis using assms(1) by (simp add: Cons f preOpen_def floorPush_def)
qed simp

lemma awaitFloors_export:
  assumes "\<not> q_closed q" "list_all floor_ok fs" "floorsServed E clk topic fs q" "length fs \<le> n"
  shows "awaitFloors E clk topic n (nextFloor E topic (floorProps fs) (im, q)) =
    (im\<lparr>im_phase := AwaitLine\<rparr>, adoptAll E clk topic fs q)"
  using assms
proof (induction fs arbitrary: q n im)
  case Nil
  then show ?case by (cases n) (simp_all add: adoptAll_def)
next
  case (Cons f fs)
  obtain k where n: "n = Suc k" "length fs \<le> k" using Cons.prems(4) by (cases n) auto
  let ?q1 = "flush E clk None (floorPush E topic f q)"
  have closed: "\<not> q_closed ?q1" using Cons.prems(1) by (cases f) (simp add: floorPush_def)
  obtain out where out: "map_of (q_done ?q1) (q_next q) = Some out" "\<forall>err. out \<noteq> RReject err"
    using Cons.prems(3) by (auto simp: Let_def split: option.splits Outcome.splits)
  let ?im = "im\<lparr>im_phase := AwaitFloor (q_next q) (floorProps fs)\<rparr>"
  have "importFloorSettled E topic (?im, ?q1) = nextFloor E topic (floorProps fs) (?im, ?q1)"
    using out by (cases out) (simp_all add: importFloorSettled_def)
  then have "awaitFloors E clk topic n (nextFloor E topic (floorProps (f # fs)) (im, q)) =
      awaitFloors E clk topic k (nextFloor E topic (floorProps fs) (?im, ?q1))"
    using nextFloor_export [of q "f # fs" E topic im] Cons.prems(1,2) by (simp add: n(1))
  also have "\<dots> = (?im\<lparr>im_phase := AwaitLine\<rparr>, adoptAll E clk topic fs ?q1)"
    using Cons.IH [OF closed _ _ n(2), of ?im] Cons.prems(2,3) by (simp add: Let_def)
  finally show ?case by (simp add: adoptAll_def)
qed

section \<open>Entries\<close>

definition importable :: "WireJson \<Rightarrow> LogEnv \<Rightarrow> LogEntry \<Rightarrow> bool" where
  "importable J E e \<longleftrightarrow> json_object_text J (entry_js e) \<and> wf_entry e \<and> entry_fits (prims E) (constants E) e"

definition pushAll :: "LogEnv \<Rightarrow> LogEntry list \<Rightarrow> LogQueue \<Rightarrow> LogQueue" where
  "pushAll E es q = foldl (\<lambda>q e. push E (QExternal e (Some ''import'')) q) q es"

lemma pushAll_items: "q_items (pushAll E es q) = q_items q @ zip [q_next q..<q_next q + length es] (map (\<lambda>e. QExternal e (Some ''import'')) es)"
proof (induction es arbitrary: q)
  case (Cons e es)
  have "[q_next q..<q_next q + length (e # es)] = q_next q # [Suc (q_next q)..<Suc (q_next q) + length es]"
    by (simp add: upt_rec)
  then show ?case using Cons [of "push E (QExternal e (Some ''import'')) q"] by (simp add: pushAll_def push_def Let_def)
qed (simp add: pushAll_def)

lemma importEntry_export:
  assumes "importable J E e" "e_topic e = topic" "reg_get (registry E) topic = Inr te" "\<not> q_closed q"
  shows "importEntry E topic (entry_js e) (im, q) =
    (im\<lparr>im_pending := im_pending im @ [q_next q]\<rparr>, push E (QExternal e (Some ''import'')) q)"
proof -
  have "validateEntry (prims E) (constants E) (entry_js e) = Inr e"
    using assms(1) by (simp add: validateEntry_roundtrip importable_def)
  then show ?thesis using assms(2-4) by (simp add: importEntry_def preExternal_def)
qed

lemma importLines_entries:
  assumes "\<forall>e \<in> set es. importable J E e \<and> e_topic e = topic" "reg_get (registry E) topic = Inr te"
    "\<not> q_closed q" "im_header im" "im_phase im = AwaitLine"
  shows "importLines J E clk topic (map (\<lambda>e. jsonStringify J (entry_js e)) es) (im, q) =
    (im\<lparr>im_pending := im_pending im @ [q_next q..<q_next q + length es], im_phase := AwaitAll\<rparr>, pushAll E es q)"
  using assms
proof (induction es arbitrary: im q)
  case Nil
  then show ?case by (simp add: importEnd_def pushAll_def)
next
  case (Cons e es)
  let ?q1 = "push E (QExternal e (Some ''import'')) q" and ?im1 = "im\<lparr>im_pending := im_pending im @ [q_next q]\<rparr>"
  have e: "importable J E e" "e_topic e = topic" using Cons.prems(1) by simp_all
  have "importLine J E topic (jsonStringify J (entry_js e)) (im, q) = (?im1, ?q1)"
    using importLine_object [of J "entry_js e" E topic im q] e(1) Cons.prems(4)
      importEntry_export [OF e Cons.prems(2,3), of im] by (simp add: importable_def)
  then have "importLines J E clk topic (map (\<lambda>e. jsonStringify J (entry_js e)) (e # es)) (im, q) =
      importLines J E clk topic (map (\<lambda>e. jsonStringify J (entry_js e)) es) (?im1, ?q1)"
    using Cons.prems(5) by simp
  also have "\<dots> = (?im1\<lparr>im_pending := im_pending ?im1 @ [Suc (q_next q)..<Suc (q_next q) + length es], im_phase := AwaitAll\<rparr>, pushAll E es ?q1)"
    using Cons.IH [of ?q1 ?im1] Cons.prems by simp
  finally show ?case by (simp add: pushAll_def upt_rec)
qed

lemma exportHeader_props:
  "getProp (fst (exportHeader topic s)) ''seqscribe'' = JStr ''export/v1''"
  "getProp (fst (exportHeader topic s)) ''topic'' = JStr topic"
  "headerFloors (fst (exportHeader topic s)) = floorProps (floorsForTopic (lc_db s) topic)"
  "fst (exportHeader topic s) \<noteq> JNull"
proof -
  obtain c s1 where g: "getCert topic s = (c, s1)" by fastforce
  then have "lc_db s1 = lc_db s" by (auto simp: getCert_def Let_def split: option.splits)
  then show "getProp (fst (exportHeader topic s)) ''seqscribe'' = JStr ''export/v1''"
    "getProp (fst (exportHeader topic s)) ''topic'' = JStr topic"
    "headerFloors (fst (exportHeader topic s)) = floorProps (floorsForTopic (lc_db s) topic)"
    "fst (exportHeader topic s) \<noteq> JNull"
    by (simp_all add: exportHeader_def g Let_def headerFloors_def floors_js_def)
qed

lemma importLine_header:
  assumes "json_object_text J (fst (exportHeader topic s))" "list_all floor_ok (floorsForTopic (lc_db s) topic)"
    "\<not> q_closed q" "\<not> im_header im"
  shows "importLine J E topic (jsonStringify J (fst (exportHeader topic s))) (im, q) =
    nextFloor E topic (floorProps (floorsForTopic (lc_db s) topic)) (im\<lparr>im_header := True\<rparr>, q)"
  using importLine_object [OF assms(1), of E topic im q] assms(4)
  by (simp add: importHeader_def exportHeader_props)

lemma page_topic: "r \<in> set (entriesForTopicFromRowid d topic n k) \<Longrightarrow> e_topic (snd r) = topic"
  unfolding entriesForTopicFromRowid_def topicRows_def inTopic_def by (auto dest: in_set_takeD)

lemma exportRows_topic: "r \<in> set (exportRows topic n ds) \<Longrightarrow> e_topic (snd r) = topic"
proof (induction ds arbitrary: n)
  case (Cons d ds)
  define rows where "rows = entriesForTopicFromRowid d topic n EXPORT_BATCH"
  have "r \<in> set rows \<or> r \<in> set (exportRows topic (fst (last rows)) ds)"
    using Cons.prems unfolding exportRows.simps rows_def [symmetric] Let_def by (simp split: if_splits)
  then show ?case using page_topic [of r d topic n EXPORT_BATCH] Cons.IH unfolding rows_def by blast
qed simp

text \<open>C36. Importing an exported stream on another node first adopts the exporter's floors, one after
  the other, and then hands the queue exactly the exported entries, in order and unchanged, and waits
  for all of them: nothing of the stream is skipped or refused on the way to the queue.\<close>

theorem import_replays_export:
  assumes "exportTopic J E topic s ds = Inr ls" "json_object_text J (fst (exportHeader topic s))"
    and "\<forall>r \<in> set (exportRows topic 0 ds). importable J E' (snd r)"
    and "fs = floorsForTopic (lc_db s) topic" "list_all floor_ok fs" "floorsServed E' clk topic fs q"
    and "reg_get (registry E') topic = Inr te" "\<not> q_closed q" "q1 = adoptAll E' clk topic fs q"
  shows "importTopic J E' clk topic ls q =
    (\<lparr>im_header = True, im_pending = [q_next q1..<q_next q1 + length (exportRows topic 0 ds)], im_phase = AwaitAll\<rparr>,
     pushAll E' (map snd (exportRows topic 0 ds)) q1) \<and>
    q_items (pushAll E' (map snd (exportRows topic 0 ds)) q1) = q_items q1 @
      zip [q_next q1..<q_next q1 + length (exportRows topic 0 ds)]
        (map (\<lambda>r. QExternal (snd r) (Some ''import'')) (exportRows topic 0 ds))"
proof -
  let ?rows = "exportRows topic 0 ds" and ?im = "importStart E' topic"
  let ?im1 = "?im\<lparr>im_header := True\<rparr>"
  have ls: "ls = jsonStringify J (fst (exportHeader topic s)) # map (\<lambda>e. jsonStringify J (entry_js e)) (map snd ?rows)"
    using assms(1) by (simp add: exportTopic_def rbind_eq_Inr comp_def)
  have start: "im_phase ?im = AwaitLine" "\<not> im_header ?im" "im_pending ?im = []"
    using assms(7) by (simp_all add: importStart_def)
  have line: "importLine J E' topic (jsonStringify J (fst (exportHeader topic s))) (?im, q) = nextFloor E' topic (floorProps fs) (?im1, q)"
    using importLine_header [OF assms(2) _ assms(8) start(2)] assms(4,5) by simp
  note all = awaitFloors_export [OF assms(8,5,6) le_refl, of ?im1]
  have waited: "(case nextFloor E' topic (floorProps fs) (?im1, q) of (im1, q1) \<Rightarrow>
      (case im_phase im1 of AwaitFloor _ fs' \<Rightarrow> awaitFloors E' clk topic (Suc (length fs')) (im1, q1) | _ \<Rightarrow> (im1, q1))) =
      (?im1\<lparr>im_phase := AwaitLine\<rparr>, q1)"
    using nextFloor_export [OF assms(8,5), of E' topic ?im1] all by (cases fs) (simp_all add: assms(9) adoptAll_def)
  have same: "?im1\<lparr>im_phase := AwaitLine\<rparr> = ?im1" using start(1) by simp
  have closed: "\<not> q_closed q1"
  proof -
    have "q_closed (adoptAll E' clk topic gs p) = q_closed p" for gs p
    proof (induction gs arbitrary: p)
      case (Cons g gs)
      then show ?case by (cases g) (simp add: adoptAll_def floorPush_def)
    qed (simp add: adoptAll_def)
    then show ?thesis using assms(8,9) by simp
  qed
  note topics = exportRows_topic [of _ topic 0 ds]
  have "importTopic J E' clk topic ls q = importLines J E' clk topic (map (\<lambda>e. jsonStringify J (entry_js e)) (map snd ?rows)) (?im1, q1)"
    using waited same unfolding importTopic_def ls by (simp add: start(1) line split: prod.splits)
  also have "\<dots> = (?im1\<lparr>im_pending := im_pending ?im1 @ [q_next q1..<q_next q1 + length (map snd ?rows)], im_phase := AwaitAll\<rparr>,
      pushAll E' (map snd ?rows) q1)"
    by (rule importLines_entries) (use assms(3,7) topics closed start in auto)
  finally show ?thesis using start by (simp add: pushAll_items comp_def importStart_def)
qed

text \<open>
  The declared base is not read: headers that differ in nothing else are imported alike, so the
  rows of a stream that starts at a cut are buffered as if rows were missing.
\<close>

lemma import_ignores_base:
  assumes "h \<noteq> JNull" "h' \<noteq> JNull" "\<forall>k \<in> {''seqscribe'', ''topic'', ''floors''}. getProp h k = getProp h' k"
  shows "importHeader E topic h = importHeader E topic h'"
proof -
  have "headerFloors h = headerFloors h'" using assms(3) by (simp add: headerFloors_def)
  then show ?thesis using assms by (auto simp: importHeader_def fun_eq_iff)
qed

section \<open>A node with one row and one floor\<close>

definition demo_export_db :: Db where
  "demo_export_db = (lc_db (q_core demo_after))\<lparr>sq_floors := [((''t'', ''pa''), (3, demo_hash, 5))]\<rparr>"

definition demo_exporter :: LogCore where
  "demo_exporter = LogCore_new (empty_store\<lparr>db := demo_export_db\<rparr>)"

text \<open>JSON text for the two objects of the stream.\<close>

definition demo_text :: WireJson where
  "demo_text = \<lparr>jsonParse = (\<lambda>s. if s = ''{h}'' then Some (fst (exportHeader ''t'' demo_exporter)) else Some (entry_js demo_first)),
     jsonStringify = (\<lambda>v. if v = fst (exportHeader ''t'' demo_exporter) then ''{h}'' else ''{e}'')\<rparr>"

lemma demo_export_fields [simp]:
  "lc_db demo_exporter = demo_export_db" "sq_log demo_export_db = [(1, demo_first)]"
  "floorsForTopic demo_export_db ''t'' = [(''pa'', 3, demo_hash)]"
  by (simp_all add: demo_exporter_def LogCore_new_def demo_export_db_def demo_after_log floorsForTopic_def)

lemma demo_export_table: "log_table_ok demo_export_db"
proof -
  have "log_table_ok (lc_db (q_core demo_after))"
    using reach_core [OF demo_reach] by (simp add: core_inv_def stream_ok_def)
  then show ?thesis by (subst log_table_ok_cong [of _ "lc_db (q_core demo_after)"]) (simp_all add: demo_export_db_def)
qed

lemma demo_export_page:
  "entriesForTopicFromRowid demo_export_db ''t'' n EXPORT_BATCH = (if n = 0 then [(1, demo_first)] else [])"
  by (simp add: entriesForTopicFromRowid_def topicRows_def inTopic_def demo_first_def demo_row_def EXPORT_BATCH_def)

lemma demo_export_run:
  "exportRows ''t'' 0 [demo_export_db, demo_export_db] = [(1, demo_first)]"
  "exportEnds ''t'' 0 [demo_export_db, demo_export_db]"
  by (simp_all add: demo_export_page)

theorem export_lists_topic_witness:
  "exportRows ''t'' 0 [demo_export_db, demo_export_db] = topicRows demo_export_db ''t'' \<and> topicRows demo_export_db ''t'' \<noteq> []"
proof -
  have "topicRows demo_export_db ''t'' = [(1, demo_first)]"
    by (simp add: topicRows_def inTopic_def demo_first_def demo_row_def)
  moreover have "\<forall>d \<in> set [demo_export_db, demo_export_db]. log_table_ok d" using demo_export_table by simp
  note all = export_lists_topic [OF this demo_export_run(2)]
  have "exportRows ''t'' 0 [demo_export_db, demo_export_db] = topicRows demo_export_db ''t''"
    by (rule all [THEN conjunct2, THEN conjunct2, THEN conjunct2, rule_format]) simp
  ultimately show ?thesis by simp
qed

lemma demo_texts:
  "json_object_text demo_text (fst (exportHeader ''t'' demo_exporter))"
  "importable demo_text demo_env demo_first"
proof -
  have "getProp (entry_js demo_first) ''seqscribe'' = JUndef" by (simp add: entry_js_def demo_first_def demo_row_def)
  then have ne: "entry_js demo_first \<noteq> fst (exportHeader ''t'' demo_exporter)"
    using exportHeader_props(1) [of "''t''" demo_exporter] by force
  show "json_object_text demo_text (fst (exportHeader ''t'' demo_exporter))"
    by (simp add: json_object_text_def demo_text_def)
  have "validateEntry demo_lib DEFAULT_CONSTANTS (entry_js demo_first) = Inr demo_first"
    using demo_row_valid [of "''t''" "''me''" 1 demo_hlc] by (simp add: demo_first_def small_hlc_def demo_hlc_def)
  then show "importable demo_text demo_env demo_first"
    using ne by (simp add: importable_def validateEntry_roundtrip json_object_text_def demo_text_def)
qed

lemma adoptFloor_fresh:
  assumes "ackedRetentionRefusal (registry E) t = Inr False" "getStream E t w s0 = (head, s)" "contigSeq head < n"
    "sealReason head = None" "recoveries s (t, w) = None" "sq_pending (lc_db s) = []"
  shows "\<exists>s'. processAdoptFloor E now t w n c s0 = Inr s' \<and> settled s' = settled s @ [RFloor FloorAdopted]"
proof -
  have drain: "drainPending E now h None x = Inr x" if "sq_pending (lc_db x) = []" for h x
    using that by (simp add: drainPending.simps [of E now h None x] pendingGet_def)
  show ?thesis
    using assms by (simp add: processAdoptFloor_def orAbort_def adoptHead_def drain settle_def pushAnomaly_def saveHead_def withDb_def
        onDb_def deletePendingUpTo_def Let_def)
qed

lemma demo_floor_served: "floorsServed demo_env (\<lambda>_. 7) ''t'' [(''pa'', 3, demo_hash)] (newQueue empty_store)"
proof -
  let ?q = "floorPush demo_env ''t'' (''pa'', 3, demo_hash) (newQueue empty_store)"
  have items: "q_items ?q = [(0, QAdoptFloor ''t'' ''pa'' 3 demo_hash)]" "q_core ?q = LogCore_new empty_store"
      "\<not> q_closed ?q" "q_done ?q = []" "q_next (newQueue empty_store) = 0"
    by (simp_all add: floorPush_def push_def newQueue_def Let_def)
  obtain head s1 where gs: "getStream demo_env ''t'' ''pa'' (beginFlush (LogCore_new empty_store)) = (head, s1)" by fastforce
  have "contigSeq head = 0" "sealReason head = None" "recoveries s1 = Map.empty" "sq_pending (lc_db s1) = []" "settled s1 = []"
    using gs by (auto simp: getStream_def beginFlush_def LogCore_new_def storedHead_def getWriter_def freshHead_def
        empty_store_def empty_db_def Let_def)
  moreover have "ackedRetentionRefusal (registry demo_env) ''t'' = Inr False"
    using demo_registry(1) by (simp add: ackedRetentionRefusal_def Let_def)
  ultimately obtain s where "processAdoptFloor demo_env 7 ''t'' ''pa'' 3 demo_hash (beginFlush (LogCore_new empty_store)) = Inr s"
    and "settled s = [RFloor FloorAdopted]"
    using adoptFloor_fresh [OF _ gs, of 3 7 demo_hash] by auto
  then show ?thesis using items
    by (simp add: flush_def Let_def flushTxn_def processItem_def commitFlush_def)
qed

theorem import_replays_export_witness:
  "\<exists>ls. exportTopic demo_text demo_env ''t'' demo_exporter [demo_export_db, demo_export_db] = Inr ls \<and>
     im_phase (fst (importTopic demo_text demo_env (\<lambda>_. 7) ''t'' ls (newQueue empty_store))) = AwaitAll \<and>
     map snd (q_items (snd (importTopic demo_text demo_env (\<lambda>_. 7) ''t'' ls (newQueue empty_store)))) =
       [QExternal demo_first (Some ''import'')]"
proof -
  obtain ls where ls: "exportTopic demo_text demo_env ''t'' demo_exporter [demo_export_db, demo_export_db] = Inr ls"
    using demo_registry(1) by (simp add: exportTopic_def)
  let ?q1 = "adoptAll demo_env (\<lambda>_. 7) ''t'' [(''pa'', 3, demo_hash)] (newQueue empty_store)"
  have "list_all floor_ok [(''pa'', 3, demo_hash)]"
    using demo_names by (simp add: floor_ok_def MAX_SAFE_INTEGER_def)
  moreover have "\<not> q_closed (newQueue empty_store)" by (simp add: newQueue_def)
  moreover have "q_items ?q1 = []"
    by (simp add: adoptAll_def flush_def floorPush_def push_def newQueue_def Let_def split: sum.split prod.split)
  ultimately show ?thesis
    using import_replays_export [OF ls, of demo_env _ "\<lambda>_. 7" "newQueue empty_store" _ ?q1] ls
      demo_texts demo_export_run(1) demo_floor_served demo_registry(1)
    by (simp add: upt_rec)
qed

end
